(* ===== verification/Prelude.thy ===== *)
theory Prelude
  imports Main "HOL-Library.Word"
begin

text \<open>
  Shared vocabulary of the development: the machine integers of the crate, the outcome of a
  Rust computation (a value, an error, a panic, or no outcome at all because a loop does not
  end), the state-and-outcome monad in which the operations on a loaded file system are
  written, its weakest-precondition calculus, and the byte-level helpers of
  \<^verbatim>\<open>src/src/util.rs\<close>.

  \<^item> \<open>u8\<close>, \<open>u16\<close>, \<open>u32\<close>, \<open>u64\<close> are words of their width. \<open>usize\<close>, which only ever holds
    lengths and offsets into byte slices, is \<open>nat\<close>; the checked operations on it fail at
    \<open>2 ^ 64\<close>, as on the 64-bit targets of the crate.
  \<^item> \<open>Panic\<close> is a panic of the source (a failed \<open>assert!\<close>, an \<open>unwrap\<close> of \<open>None\<close>, a slice index
    out of range); it is a value of the model so that its absence is a theorem.
\<close>

unbundle bit_operations_syntax

type_synonym u8 = "8 word"
type_synonym u16 = "16 word"
type_synonym u32 = "32 word"
type_synonym u64 = "64 word"
type_synonym usize = nat
type_synonym bytes = "u8 list"

section \<open>Outcomes\<close>

datatype ('a, 'e) outcome = Ok 'a | Err 'e | Panic | Diverge

text \<open>The \<open>?\<close> operator.\<close>

fun bind_o :: "('a, 'e) outcome \<Rightarrow> ('a \<Rightarrow> ('b, 'e) outcome) \<Rightarrow> ('b, 'e) outcome" where
  "bind_o (Ok x) f = f x"
| "bind_o (Err e) f = Err e"
| "bind_o Panic f = Panic"
| "bind_o Diverge f = Diverge"

text \<open>\<open>Result::map_err\<close>, \<open>Option::ok_or\<close>, \<open>Option::unwrap\<close>, \<open>Result::unwrap\<close> and \<open>assert!\<close>.\<close>

fun map_err :: "('e \<Rightarrow> 'f) \<Rightarrow> ('a, 'e) outcome \<Rightarrow> ('a, 'f) outcome" where
  "map_err h (Ok x) = Ok x"
| "map_err h (Err e) = Err (h e)"
| "map_err h Panic = Panic"
| "map_err h Diverge = Diverge"

fun ok_or :: "'e \<Rightarrow> 'a option \<Rightarrow> ('a, 'e) outcome" where
  "ok_or e None = Err e"
| "ok_or e (Some x) = Ok x"

fun unwrap :: "'a option \<Rightarrow> ('a, 'e) outcome" where
  "unwrap None = Panic"
| "unwrap (Some x) = Ok x"

fun unwrap_res :: "('a, 'e) outcome \<Rightarrow> ('a, 'f) outcome" where
  "unwrap_res (Ok x) = Ok x"
| "unwrap_res (Err e) = Panic"
| "unwrap_res Panic = Panic"
| "unwrap_res Diverge = Diverge"

definition assert_o :: "bool \<Rightarrow> (unit, 'e) outcome" where
  "assert_o b = (if b then Ok () else Panic)"

definition require :: "bool \<Rightarrow> 'e \<Rightarrow> (unit, 'e) outcome" where
  "require b e = (if b then Ok () else Err e)"

text \<open>\<open>holds r Q E\<close>: the computation ends without a panic, \<open>Q\<close> holds of its value or \<open>E\<close> of
  its error.\<close>

fun holds :: "('a, 'e) outcome \<Rightarrow> ('a \<Rightarrow> bool) \<Rightarrow> ('e \<Rightarrow> bool) \<Rightarrow> bool" where
  "holds (Ok x) Q E = Q x"
| "holds (Err e) Q E = E e"
| "holds Panic Q E = False"
| "holds Diverge Q E = False"

named_theorems outcome_simps \<open>equations and case rules for outcomes\<close>

lemma bind_o_eq_Ok [simp]: "bind_o r f = Ok y \<longleftrightarrow> (\<exists>x. r = Ok x \<and> f x = Ok y)"
  by (cases r) auto

lemma bind_o_assoc: "bind_o (bind_o r f) g = bind_o r (\<lambda>x. bind_o (f x) g)"
  by (cases r) simp_all

lemma bind_o_eq_Err: "bind_o r f = Err e \<longleftrightarrow> r = Err e \<or> (\<exists>x. r = Ok x \<and> f x = Err e)"
  by (cases r) auto

lemma bind_o_eq_Panic: "bind_o r f = Panic \<longleftrightarrow> r = Panic \<or> (\<exists>x. r = Ok x \<and> f x = Panic)"
  by (cases r) auto

lemma holds_bind_o [simp]: "holds (bind_o r f) Q E = holds r (\<lambda>x. holds (f x) Q E) E"
  by (cases r) auto

lemma holds_map_err [simp]: "holds (map_err h r) Q E = holds r Q (E \<circ> h)"
  by (cases r) auto

lemma holds_ok_or: "holds (ok_or e v) Q E = (case v of None \<Rightarrow> E e | Some x \<Rightarrow> Q x)"
  by (cases v) auto

lemma holds_unwrap: "holds (unwrap v) Q E = (\<exists>x. v = Some x \<and> Q x)"
  by (cases v) auto

lemma holds_assert_o [simp]: "holds (assert_o b) Q E = (b \<and> Q ())"
  by (simp add: assert_o_def)

lemma holds_require [simp]: "holds (require b e) Q E = (if b then Q () else E e)"
  by (simp add: require_def)

lemma map_err_eq_Ok [simp]: "map_err h r = Ok x \<longleftrightarrow> r = Ok x"
  by (cases r) auto

lemma ok_or_eq_Ok [simp]: "ok_or e v = Ok x \<longleftrightarrow> v = Some x"
  by (cases v) auto

lemma ok_or_eq_Err [simp]: "ok_or e v = Err f \<longleftrightarrow> v = None \<and> f = e"
  by (cases v) auto

lemma ok_or_not_Panic [simp]: "ok_or e v \<noteq> Panic" "ok_or e v \<noteq> Diverge"
  by (cases v; simp)+

lemma unwrap_eq_Ok [simp]: "unwrap v = Ok x \<longleftrightarrow> v = Some x"
  by (cases v) auto

lemma unwrap_res_eq_Ok [simp]: "unwrap_res r = Ok x \<longleftrightarrow> r = Ok x"
  by (cases r) auto

lemma assert_o_eq_Ok [simp]: "assert_o b = Ok u \<longleftrightarrow> b"
  by (simp add: assert_o_def)

lemma require_eq_Ok [simp]: "require b e = Ok u \<longleftrightarrow> b"
  by (simp add: require_def)

lemma holds_mono:
  "holds r Q E \<Longrightarrow> (\<And>x. Q x \<Longrightarrow> Q' x) \<Longrightarrow> (\<And>e. E e \<Longrightarrow> E' e) \<Longrightarrow> holds r Q' E'"
  by (cases r) auto

lemma holds_not_Panic: "holds r Q E \<Longrightarrow> r \<noteq> Panic \<and> r \<noteq> Diverge"
  by (cases r) auto

lemma holds_True: "holds r (\<lambda>_. True) (\<lambda>_. True) \<longleftrightarrow> r \<noteq> Panic \<and> r \<noteq> Diverge"
  by (cases r) auto

lemma holds_and_eq: "holds r Q E \<Longrightarrow> holds r (\<lambda>x. Q x \<and> r = Ok x) (\<lambda>e. E e \<and> r = Err e)"
  by (cases r) auto

lemma holds_OkD: "holds r Q E \<Longrightarrow> r = Ok x \<Longrightarrow> Q x"
  by simp

lemmas [outcome_simps] = bind_o_eq_Err bind_o_eq_Panic holds_ok_or holds_unwrap

section \<open>Computations on a state\<close>

text \<open>
  An operation that reads and updates a state \<open>'s\<close> (the loaded file system with its block
  cache, an iterator) and ends in an outcome. The state is returned also when the operation
  fails: an error leaves behind what was changed before it.
\<close>

type_synonym ('s, 'a, 'e) comp = "'s \<Rightarrow> ('a, 'e) outcome \<times> 's"

definition ret :: "'a \<Rightarrow> ('s, 'a, 'e) comp" where
  "ret x s = (Ok x, s)"

definition lift :: "('a, 'e) outcome \<Rightarrow> ('s, 'a, 'e) comp" where
  "lift r s = (r, s)"

definition bindc :: "('s, 'a, 'e) comp \<Rightarrow> ('a \<Rightarrow> ('s, 'b, 'e) comp) \<Rightarrow> ('s, 'b, 'e) comp" where
  "bindc m f s = (case m s of
     (Ok x, s') \<Rightarrow> f x s'
   | (Err e, s') \<Rightarrow> (Err e, s')
   | (Panic, s') \<Rightarrow> (Panic, s')
   | (Diverge, s') \<Rightarrow> (Diverge, s'))"

definition gets :: "('s \<Rightarrow> 'a) \<Rightarrow> ('s, 'a, 'e) comp" where
  "gets f s = (Ok (f s), s)"

definition modify :: "('s \<Rightarrow> 's) \<Rightarrow> ('s, unit, 'e) comp" where
  "modify f s = (Ok (), f s)"

text \<open>Run a computation on a component of a pair of states: an iterator and the file system it
  reads.\<close>

definition on_snd :: "('t, 'a, 'e) comp \<Rightarrow> ('s \<times> 't, 'a, 'e) comp" where
  "on_snd m st = (case m (snd st) of (r, t') \<Rightarrow> (r, (fst st, t')))"

text \<open>Run a computation on a field of the first component, e.g. an inner iterator.\<close>

definition on_field :: "('s \<Rightarrow> 'f) \<Rightarrow> ('f \<Rightarrow> 's \<Rightarrow> 's) \<Rightarrow> ('f \<times> 't, 'a, 'e) comp \<Rightarrow> ('s \<times> 't, 'a, 'e) comp" where
  "on_field get put m st = (case m (get (fst st), snd st) of
     (r, (f', t')) \<Rightarrow> (r, (put f' (fst st), t')))"

definition gets_fst :: "('s \<Rightarrow> 'a) \<Rightarrow> ('s \<times> 't, 'a, 'e) comp" where
  "gets_fst f st = (Ok (f (fst st)), st)"

definition modify_fst :: "('s \<Rightarrow> 's) \<Rightarrow> ('s \<times> 't, unit, 'e) comp" where
  "modify_fst f st = (Ok (), (f (fst st), snd st))"

lemmas comp_defs = ret_def lift_def bindc_def gets_def modify_def on_snd_def on_field_def
  gets_fst_def modify_fst_def

lemma on_snd_bindc: "on_snd (bindc m f) = bindc (on_snd m) (\<lambda>x. on_snd (f x))"
  by (rule ext) (auto simp: on_snd_def bindc_def split: outcome.splits prod.splits)

lemma on_snd_lift: "on_snd (lift r) = lift r" and on_snd_ret: "on_snd (ret x) = ret x"
  by (auto simp: on_snd_def lift_def ret_def)

lemma bindc_lift_Ok: "bindc (lift (Ok x)) f = f x"
  by (simp add: bindc_def lift_def fun_eq_iff)

subsection \<open>Weakest preconditions\<close>

text \<open>
  \<open>wp m Q E s\<close>: started in \<open>s\<close>, \<open>m\<close> ends without a panic, in a value and state satisfying \<open>Q\<close>
  or in an error and state satisfying \<open>E\<close>.
\<close>

definition wp :: "('s, 'a, 'e) comp \<Rightarrow> ('a \<Rightarrow> 's \<Rightarrow> bool) \<Rightarrow> ('e \<Rightarrow> 's \<Rightarrow> bool) \<Rightarrow> 's \<Rightarrow> bool" where
  "wp m Q E s = (case m s of (r, s') \<Rightarrow> holds r (\<lambda>x. Q x s') (\<lambda>e. E e s'))"

named_theorems wp_simps \<open>weakest preconditions of the combinators\<close>

lemma wp_ret [wp_simps]: "wp (ret x) Q E s = Q x s"
  by (simp add: wp_def ret_def)

lemma wp_lift [wp_simps]: "wp (lift r) Q E s = holds r (\<lambda>x. Q x s) (\<lambda>e. E e s)"
  by (simp add: wp_def lift_def)

lemma wp_bindc [wp_simps]: "wp (bindc m f) Q E s = wp m (\<lambda>x. wp (f x) Q E) E s"
  by (simp add: wp_def bindc_def split: prod.splits outcome.splits)

lemma wp_gets [wp_simps]: "wp (gets f) Q E s = Q (f s) s"
  by (simp add: wp_def gets_def)

lemma wp_modify [wp_simps]: "wp (modify f) Q E s = Q () (f s)"
  by (simp add: wp_def modify_def)

lemma wp_on_snd [wp_simps]:
  "wp (on_snd m) Q E st = wp m (\<lambda>x t. Q x (fst st, t)) (\<lambda>e t. E e (fst st, t)) (snd st)"
  by (simp add: wp_def on_snd_def split: prod.splits)

lemma wp_on_field [wp_simps]:
  "wp (on_field get put m) Q E st =
   wp m (\<lambda>x ft. Q x (put (fst ft) (fst st), snd ft)) (\<lambda>e ft. E e (put (fst ft) (fst st), snd ft))
      (get (fst st), snd st)"
  by (simp add: wp_def on_field_def split: prod.splits)

lemma wp_gets_fst [wp_simps]: "wp (gets_fst f) Q E st = Q (f (fst st)) st"
  by (simp add: wp_def gets_fst_def)

lemma wp_modify_fst [wp_simps]: "wp (modify_fst f) Q E st = Q () (f (fst st), snd st)"
  by (simp add: wp_def modify_fst_def)

lemma wp_if [wp_simps]: "wp (if b then m else n) Q E s = (if b then wp m Q E s else wp n Q E s)"
  by simp

lemma wp_case_option [wp_simps]:
  "wp (case v of None \<Rightarrow> m | Some x \<Rightarrow> f x) Q E s =
   (case v of None \<Rightarrow> wp m Q E s | Some x \<Rightarrow> wp (f x) Q E s)"
  by (cases v) auto

lemma wp_let [wp_simps]: "wp (let x = v in f x) Q E s = (let x = v in wp (f x) Q E s)"
  by simp

lemma wp_mono:
  "wp m Q E s \<Longrightarrow> (\<And>x s'. Q x s' \<Longrightarrow> Q' x s') \<Longrightarrow> (\<And>e s'. E e s' \<Longrightarrow> E' e s') \<Longrightarrow> wp m Q' E' s"
  by (auto simp: wp_def split: prod.splits elim: holds_mono)

lemma wp_conj:
  "wp m Q E s \<Longrightarrow> wp m Q' E' s \<Longrightarrow> wp m (\<lambda>x s'. Q x s' \<and> Q' x s') (\<lambda>e s'. E e s' \<and> E' e s') s"
  by (cases "m s"; cases "fst (m s)") (auto simp: wp_def)

lemma wp_OkD: "wp m Q E s \<Longrightarrow> m s = (Ok x, s') \<Longrightarrow> Q x s'"
  by (simp add: wp_def)

lemma wp_ErrD: "wp m Q E s \<Longrightarrow> m s = (Err e, s') \<Longrightarrow> E e s'"
  by (simp add: wp_def)

lemma wp_no_panic: "wp m Q E s \<Longrightarrow> fst (m s) \<noteq> Panic \<and> fst (m s) \<noteq> Diverge"
  by (auto simp: wp_def split: prod.splits)

section \<open>Checked arithmetic\<close>

definition usize_max :: usize where
  "usize_max = 2 ^ 64 - 1"

definition checked_add :: "'a::len word \<Rightarrow> 'a word \<Rightarrow> 'a word option" where
  "checked_add a b = (if unat a + unat b < 2 ^ LENGTH('a) then Some (a + b) else None)"

definition checked_sub :: "'a::len word \<Rightarrow> 'a word \<Rightarrow> 'a word option" where
  "checked_sub a b = (if b \<le> a then Some (a - b) else None)"

definition checked_mul :: "'a::len word \<Rightarrow> 'a word \<Rightarrow> 'a word option" where
  "checked_mul a b = (if unat a * unat b < 2 ^ LENGTH('a) then Some (a * b) else None)"

definition checked_div :: "'a::len word \<Rightarrow> 'a word \<Rightarrow> 'a word option" where
  "checked_div a b = (if b = 0 then None else Some (a div b))"

definition checked_rem :: "'a::len word \<Rightarrow> 'a word \<Rightarrow> 'a word option" where
  "checked_rem a b = (if b = 0 then None else Some (a mod b))"

definition saturating_add :: "'a::len word \<Rightarrow> 'a word \<Rightarrow> 'a word" where
  "saturating_add a b = (if unat a + unat b < 2 ^ LENGTH('a) then a + b else - 1)"

text \<open>\<open>u32::try_from\<close> and its kin, on the unsigned value.\<close>

definition word_try_from :: "nat \<Rightarrow> 'a::len word option" where
  "word_try_from n = (if n < 2 ^ LENGTH('a) then Some (of_nat n) else None)"

text \<open>\<open>div_ceil\<close>; the divisor is never zero where it is used.\<close>

definition div_ceil :: "nat \<Rightarrow> nat \<Rightarrow> nat" where
  "div_ceil a b = (if a mod b = 0 then a div b else a div b + 1)"

definition usize_add :: "usize \<Rightarrow> usize \<Rightarrow> usize option" where
  "usize_add a b = (if a + b \<le> usize_max then Some (a + b) else None)"

definition usize_sub :: "usize \<Rightarrow> usize \<Rightarrow> usize option" where
  "usize_sub a b = (if b \<le> a then Some (a - b) else None)"

definition usize_mul :: "usize \<Rightarrow> usize \<Rightarrow> usize option" where
  "usize_mul a b = (if a * b \<le> usize_max then Some (a * b) else None)"

lemmas checked_defs = checked_add_def checked_sub_def checked_mul_def checked_div_def
  checked_rem_def word_try_from_def usize_add_def usize_sub_def usize_mul_def usize_max_def

text \<open>Code equations that do not write \<open>usize::MAX\<close> in unary.\<close>

lemma usize_add_code [code]: "usize_add a b = (if int (a + b) \<le> 18446744073709551615 then Some (a + b) else None)"
  by (simp add: usize_add_def usize_max_def; linarith)

lemma usize_mul_code [code]: "usize_mul a b = (if int (a * b) \<le> 18446744073709551615 then Some (a * b) else None)"
proof -
  have "int (a * b) \<le> 18446744073709551615 \<longleftrightarrow> a * b \<le> 18446744073709551615" by linarith
  then show ?thesis by (simp add: usize_mul_def usize_max_def)
qed

lemma usize_add_small: "a + b \<le> usize_max \<Longrightarrow> usize_add a b = Some (a + b)"
  by (simp add: usize_add_def)

lemma usize_mul_small: "a * b \<le> usize_max \<Longrightarrow> usize_mul a b = Some (a * b)"
  by (simp add: usize_mul_def)

lemma checked_add_SomeD: "checked_add a b = Some c \<Longrightarrow> unat c = unat a + unat b"
  by (auto simp: checked_add_def unat_word_ariths split: if_splits)

lemma checked_sub_SomeD: "checked_sub a b = Some c \<Longrightarrow> unat c = unat a - unat b \<and> unat b \<le> unat a"
  by (auto simp: checked_sub_def word_le_nat_alt unat_sub split: if_splits)

lemma checked_mul_SomeD: "checked_mul a b = Some c \<Longrightarrow> unat c = unat a * unat b"
  by (auto simp: checked_mul_def unat_word_ariths split: if_splits)

lemma checked_add_None: "checked_add (a :: 'a::len word) b = None \<longleftrightarrow> 2 ^ LENGTH('a) \<le> unat a + unat b"
  by (auto simp: checked_add_def)

lemma word_try_from_SomeD: "word_try_from n = Some (w :: 'a::len word) \<Longrightarrow> unat w = n"
  by (auto simp: word_try_from_def unat_of_nat split: if_splits)

lemma unat_less_bound: "unat (w :: 'a::len word) < 2 ^ LENGTH('a)"
  by (rule unsigned_less)

lemma div_ceil_bounds: "0 < b \<Longrightarrow> a \<le> div_ceil a b * b \<and> div_ceil a b * b < a + b"
  by (auto simp: div_ceil_def) (metis add.commute div_mult_mod_eq less_add_same_cancel2 nat_less_le
      add_less_cancel_left mod_less_divisor add_le_cancel_left less_imp_le_nat mult.commute)+

section \<open>Bytes\<close>

text \<open>\<open>slice.get(a..b)\<close>: \<open>None\<close> when the range is not inside the slice.\<close>

definition get_range :: "'a list \<Rightarrow> usize \<Rightarrow> usize \<Rightarrow> 'a list option" where
  "get_range xs a b = (if a \<le> b \<and> b \<le> length xs then Some (take (b - a) (drop a xs)) else None)"

text \<open>\<open>&slice[a..b]\<close> and \<open>slice[i]\<close>: a panic when the range is not inside the slice.\<close>

definition slice :: "'a list \<Rightarrow> usize \<Rightarrow> usize \<Rightarrow> ('a list, 'e) outcome" where
  "slice xs a b = unwrap (get_range xs a b)"

definition get_at :: "'a list \<Rightarrow> usize \<Rightarrow> 'a option" where
  "get_at xs i = (if i < length xs then Some (xs ! i) else None)"

definition index_at :: "'a list \<Rightarrow> usize \<Rightarrow> ('a, 'e) outcome" where
  "index_at xs i = unwrap (get_at xs i)"

lemma holds_slice [simp]:
  "holds (slice xs a b) Q E \<longleftrightarrow> a \<le> b \<and> b \<le> length xs \<and> Q (take (b - a) (drop a xs))"
  by (auto simp: slice_def get_range_def)

lemma holds_index_at [simp]: "holds (index_at xs i) Q E \<longleftrightarrow> i < length xs \<and> Q (xs ! i)"
  by (simp add: index_at_def get_at_def)

lemma slice_eq_Ok [simp]:
  "slice xs a b = Ok ys \<longleftrightarrow> a \<le> b \<and> b \<le> length xs \<and> ys = take (b - a) (drop a xs)"
  by (auto simp: slice_def get_range_def)

lemma index_at_eq_Ok [simp]: "index_at xs i = Ok y \<longleftrightarrow> i < length xs \<and> y = xs ! i"
  by (auto simp: index_at_def get_at_def)

text \<open>\<open>u16::from_le_bytes\<close> and its kin.\<close>

fun from_le_bytes :: "bytes \<Rightarrow> 'a::len word" where
  "from_le_bytes [] = 0"
| "from_le_bytes (b # bs) = ucast b OR push_bit 8 (from_le_bytes bs)"

definition from_be_bytes :: "bytes \<Rightarrow> 'a::len word" where
  "from_be_bytes bs = from_le_bytes (rev bs)"

fun to_le_bytes_n :: "nat \<Rightarrow> 'a::len word \<Rightarrow> bytes" where
  "to_le_bytes_n 0 w = []"
| "to_le_bytes_n (Suc n) w = ucast w # to_le_bytes_n n (drop_bit 8 w)"

definition to_le_bytes :: "'a::len word \<Rightarrow> bytes" where
  "to_le_bytes (w :: 'a::len word) = to_le_bytes_n (LENGTH('a) div 8) w"

definition to_be_bytes :: "'a::len word \<Rightarrow> bytes" where
  "to_be_bytes w = rev (to_le_bytes w)"

lemma length_to_le_bytes_n [simp]: "length (to_le_bytes_n n w) = n"
  by (induction n arbitrary: w) auto

lemma length_to_le_bytes [simp]: "length (to_le_bytes (w :: 'a::len word)) = LENGTH('a) div 8"
  by (simp add: to_le_bytes_def)

lemma bit_from_le_bytes:
  "bit (from_le_bytes bs :: 'a::len word) i \<longleftrightarrow>
   i < LENGTH('a) \<and> i div 8 < length bs \<and> bit (bs ! (i div 8)) (i mod 8)"
proof (induction bs arbitrary: i)
  case Nil
  then show ?case by simp
next
  case (Cons b bs)
  show ?case
  proof (cases "i < 8")
    case True
    then show ?thesis
      by (auto simp: bit_or_iff bit_push_bit_iff bit_ucast_iff)
  next
    case False
    have 1: "i div 8 = Suc ((i - 8) div 8)" "(i - 8) mod 8 = i mod 8"
      using False by (simp_all add: le_div_geq le_mod_geq)
    have 2: "\<not> bit b i"
      using False bit_imp_le_length[of b i] by auto
    have "bit (from_le_bytes (b # bs) :: 'a word) i \<longleftrightarrow>
        i < LENGTH('a) \<and> bit (from_le_bytes bs :: 'a word) (i - 8)"
      using False 2 by (auto simp: bit_or_iff bit_push_bit_iff bit_ucast_iff)
    then show ?thesis
      using 1 by (auto simp: Cons.IH)
  qed
qed

lemma bit_to_le_bytes_n:
  "j < n \<Longrightarrow> bit (to_le_bytes_n n w ! j) i \<longleftrightarrow> i < 8 \<and> bit (w :: 'a::len word) (8 * j + i)"
proof (induction n arbitrary: w j)
  case 0
  then show ?case by simp
next
  case (Suc n)
  show ?case
  proof (cases j)
    case 0
    then show ?thesis
      using bit_imp_le_length[of w i] by (auto simp: bit_ucast_iff)
  next
    case (Suc k)
    with Suc.prems Suc.IH[of k "drop_bit 8 w"] show ?thesis
      by (simp add: bit_drop_bit_eq add.assoc)
  qed
qed

lemma from_to_le_bytes:
  assumes "LENGTH('a) = 8 * n"
  shows "from_le_bytes (to_le_bytes_n n w) = (w :: 'a::len word)"
proof (rule bit_word_eqI)
  fix i assume "i < LENGTH('a)"
  then show "bit (from_le_bytes (to_le_bytes_n n w) :: 'a word) i \<longleftrightarrow> bit w i"
    using assms by (auto simp: bit_from_le_bytes bit_to_le_bytes_n)
qed

section \<open>Reading integers from byte slices (\<^verbatim>\<open>src/src/util.rs\<close>)\<close>

text \<open>The width assertion of the source always holds for a 64-bit \<open>usize\<close>.\<close>

definition usize_from_u32 :: "u32 \<Rightarrow> usize" where
  "usize_from_u32 val = unat val"

definition u64_from_hilo :: "u32 \<Rightarrow> u32 \<Rightarrow> u64" where
  "u64_from_hilo hi lo = push_bit 32 (ucast hi) OR ucast lo"

definition u32_from_hilo :: "u16 \<Rightarrow> u16 \<Rightarrow> u32" where
  "u32_from_hilo hi lo = push_bit 16 (ucast hi) OR ucast lo"

definition read_u16le :: "bytes \<Rightarrow> usize \<Rightarrow> (u16, 'e) outcome" where
  "read_u16le bytes offset =
     bind_o (unwrap (usize_add offset 2)) (\<lambda>end.
     bind_o (unwrap (get_range bytes offset end)) (\<lambda>bs.
     Ok (from_le_bytes bs)))"

definition read_u32le :: "bytes \<Rightarrow> usize \<Rightarrow> (u32, 'e) outcome" where
  "read_u32le bytes offset =
     bind_o (unwrap (usize_add offset 4)) (\<lambda>end.
     bind_o (unwrap (get_range bytes offset end)) (\<lambda>bs.
     Ok (from_le_bytes bs)))"

definition read_u32be :: "bytes \<Rightarrow> usize \<Rightarrow> (u32, 'e) outcome" where
  "read_u32be bytes offset =
     bind_o (unwrap (usize_add offset 4)) (\<lambda>end.
     bind_o (unwrap (get_range bytes offset end)) (\<lambda>bs.
     Ok (from_be_bytes bs)))"

text \<open>The values read, as total functions of the slice: what the reads return when they do not
  panic.\<close>

definition u16le_at :: "bytes \<Rightarrow> nat \<Rightarrow> u16" where
  "u16le_at bs i = from_le_bytes (take 2 (drop i bs))"

definition u32le_at :: "bytes \<Rightarrow> nat \<Rightarrow> u32" where
  "u32le_at bs i = from_le_bytes (take 4 (drop i bs))"

definition u32be_at :: "bytes \<Rightarrow> nat \<Rightarrow> u32" where
  "u32be_at bs i = from_be_bytes (take 4 (drop i bs))"

text \<open>A slice of the machine is no longer than \<open>usize::MAX\<close>.\<close>

lemma read_u16le_eq:
  "length bs \<le> usize_max \<Longrightarrow>
   read_u16le bs i = (if i + 2 \<le> length bs then Ok (u16le_at bs i) else Panic)"
  by (auto simp: read_u16le_def u16le_at_def get_range_def usize_add_def)

lemma read_u32le_eq:
  "length bs \<le> usize_max \<Longrightarrow>
   read_u32le bs i = (if i + 4 \<le> length bs then Ok (u32le_at bs i) else Panic)"
  by (auto simp: read_u32le_def u32le_at_def get_range_def usize_add_def)

lemma read_u32be_eq:
  "length bs \<le> usize_max \<Longrightarrow>
   read_u32be bs i = (if i + 4 \<le> length bs then Ok (u32be_at bs i) else Panic)"
  by (auto simp: read_u32be_def u32be_at_def get_range_def usize_add_def)

lemma read_u16le_inside [simp]:
  "i + 2 \<le> length bs \<Longrightarrow> i + 2 \<le> usize_max \<Longrightarrow> read_u16le bs i = Ok (u16le_at bs i)"
  by (auto simp: read_u16le_def u16le_at_def get_range_def usize_add_def)

lemma read_u32le_inside [simp]:
  "i + 4 \<le> length bs \<Longrightarrow> i + 4 \<le> usize_max \<Longrightarrow> read_u32le bs i = Ok (u32le_at bs i)"
  by (auto simp: read_u32le_def u32le_at_def get_range_def usize_add_def)

lemma read_u32be_inside [simp]:
  "i + 4 \<le> length bs \<Longrightarrow> i + 4 \<le> usize_max \<Longrightarrow> read_u32be bs i = Ok (u32be_at bs i)"
  by (auto simp: read_u32be_def u32be_at_def get_range_def usize_add_def)

section \<open>Stepping through a chain of binds\<close>

text \<open>Introduction rules that walk through a parser one step at a time; a proof about a parser is
  \<open>intro holds_intros\<close> followed by the side conditions.\<close>

named_theorems holds_intros \<open>introduction rules for \<open>holds\<close> of a bind\<close>

lemma holds_bind_read_u32le [holds_intros]:
  "i + 4 \<le> length bs \<Longrightarrow> i + 4 \<le> usize_max \<Longrightarrow> holds (f (u32le_at bs i)) Q E \<Longrightarrow>
   holds (bind_o (read_u32le bs i) f) Q E"
  by simp

lemma holds_bind_read_u16le [holds_intros]:
  "i + 2 \<le> length bs \<Longrightarrow> i + 2 \<le> usize_max \<Longrightarrow> holds (f (u16le_at bs i)) Q E \<Longrightarrow>
   holds (bind_o (read_u16le bs i) f) Q E"
  by simp

lemma holds_bind_read_u32be [holds_intros]:
  "i + 4 \<le> length bs \<Longrightarrow> i + 4 \<le> usize_max \<Longrightarrow> holds (f (u32be_at bs i)) Q E \<Longrightarrow>
   holds (bind_o (read_u32be bs i) f) Q E"
  by simp

lemma holds_bind_slice [holds_intros]:
  "a \<le> b \<Longrightarrow> b \<le> length xs \<Longrightarrow> holds (f (take (b - a) (drop a xs))) Q E \<Longrightarrow>
   holds (bind_o (slice xs a b) f) Q E"
  by simp

lemma holds_bind_index_at [holds_intros]:
  "i < length xs \<Longrightarrow> holds (f (xs ! i)) Q E \<Longrightarrow> holds (bind_o (index_at xs i) f) Q E"
  by simp

lemma holds_bind_assert_o [holds_intros]:
  "b \<Longrightarrow> holds (f ()) Q E \<Longrightarrow> holds (bind_o (assert_o b) f) Q E"
  by simp

lemma holds_bind_require [holds_intros]:
  "(\<not> b \<Longrightarrow> E e) \<Longrightarrow> (b \<Longrightarrow> holds (f ()) Q E) \<Longrightarrow> holds (bind_o (require b e) f) Q E"
  by simp

lemma holds_bind_ok_or [holds_intros]:
  "(v = None \<Longrightarrow> E e) \<Longrightarrow> (\<And>x. v = Some x \<Longrightarrow> holds (f x) Q E) \<Longrightarrow>
   holds (bind_o (ok_or e v) f) Q E"
  by (cases v) auto

lemma holds_bind_if [holds_intros]:
  "(b \<Longrightarrow> holds (bind_o r f) Q E) \<Longrightarrow> (\<not> b \<Longrightarrow> holds (bind_o r' f) Q E) \<Longrightarrow>
   holds (bind_o (if b then r else r') f) Q E"
  by simp

lemma holds_bind_assoc [holds_intros]:
  "holds (bind_o r (\<lambda>x. bind_o (g x) f)) Q E \<Longrightarrow> holds (bind_o (bind_o r g) f) Q E"
  by simp

lemma holds_bind_Ok [holds_intros]: "holds (f x) Q E \<Longrightarrow> holds (bind_o (Ok x) f) Q E"
  by simp

lemma holds_bind_unwrap [holds_intros]:
  "v = Some x \<Longrightarrow> holds (f x) Q E \<Longrightarrow> holds (bind_o (unwrap v) f) Q E"
  by simp

lemma holds_let [holds_intros]: "(\<And>x. x = v \<Longrightarrow> holds (f x) Q E) \<Longrightarrow> holds (let x = v in f x) Q E"
  by simp

lemma holds_if [holds_intros]:
  "(b \<Longrightarrow> holds r Q E) \<Longrightarrow> (\<not> b \<Longrightarrow> holds r' Q E) \<Longrightarrow> holds (if b then r else r') Q E"
  by simp

lemma holds_Ok [holds_intros]: "Q x \<Longrightarrow> holds (Ok x) Q E"
  by simp

lemma holds_Err [holds_intros]: "E e \<Longrightarrow> holds (Err e) Q E"
  by simp

text \<open>A computation already specified is stepped over with its own specification.\<close>

lemma holds_bind_use:
  "holds r P E' \<Longrightarrow> (\<And>e. E' e \<Longrightarrow> E e) \<Longrightarrow> (\<And>x. P x \<Longrightarrow> holds (f x) Q E) \<Longrightarrow>
   holds (bind_o r f) Q E"
  by (cases r) auto

text \<open>Evaluation of a chain on a concrete input goes through its first step first.\<close>

lemma bind_o_weak_cong: "r = r' \<Longrightarrow> bind_o r f = bind_o r' f"
  by simp

lemma take_drop_conv_map: "a + n \<le> length xs \<Longrightarrow> take n (drop a xs) = map (\<lambda>i. xs ! (a + i)) [0..<n]"
  by (rule nth_equalityI) auto

lemma u32le_at_nth:
  "i + 4 \<le> length bs \<Longrightarrow>
   u32le_at bs i = from_le_bytes [bs ! i, bs ! (i + 1), bs ! (i + 2), bs ! (i + 3)]"
  by (simp add: u32le_at_def take_drop_conv_map numeral_eq_Suc upt_conv_Cons)

lemma u16le_at_nth: "i + 2 \<le> length bs \<Longrightarrow> u16le_at bs i = from_le_bytes [bs ! i, bs ! (i + 1)]"
  by (simp add: u16le_at_def take_drop_conv_map numeral_eq_Suc upt_conv_Cons)

section \<open>Stepping through a stateful chain\<close>

text \<open>The same for computations on a state; \<open>wp_bind_use\<close> steps over an operation with its own
  specification.\<close>

named_theorems wp_intros \<open>introduction rules for \<open>wp\<close> of a bind\<close>

lemma wp_bind_use:
  "wp m P E' s \<Longrightarrow> (\<And>e s'. E' e s' \<Longrightarrow> E e s') \<Longrightarrow> (\<And>x s'. P x s' \<Longrightarrow> wp (f x) Q E s') \<Longrightarrow>
   wp (bindc m f) Q E s"
  by (simp add: wp_bindc) (rule wp_mono)

lemma wp_bind_lift_use:
  "holds r P E' \<Longrightarrow> (\<And>e. E' e \<Longrightarrow> E e s) \<Longrightarrow> (\<And>x. P x \<Longrightarrow> wp (f x) Q E s) \<Longrightarrow>
   wp (bindc (lift r) f) Q E s"
  by (simp add: wp_bindc wp_lift) (rule holds_mono)

lemma wp_bind_gets [wp_intros]: "wp (f (g s)) Q E s \<Longrightarrow> wp (bindc (gets g) f) Q E s"
  by (simp add: wp_simps)

lemma wp_bind_modify [wp_intros]: "wp (f ()) Q E (g s) \<Longrightarrow> wp (bindc (modify g) f) Q E s"
  by (simp add: wp_simps)

lemma wp_bind_gets_fst [wp_intros]: "wp (f (g (fst s))) Q E s \<Longrightarrow> wp (bindc (gets_fst g) f) Q E s"
  by (simp add: wp_simps)

lemma wp_bind_modify_fst [wp_intros]:
  "wp (f ()) Q E (g (fst s), snd s) \<Longrightarrow> wp (bindc (modify_fst g) f) Q E s"
  by (simp add: wp_simps)

lemma wp_bind_ret [wp_intros]: "wp (f x) Q E s \<Longrightarrow> wp (bindc (ret x) f) Q E s"
  by (simp add: wp_simps)

lemma wp_bind_lift_slice [wp_intros]:
  "a \<le> b \<Longrightarrow> b \<le> length xs \<Longrightarrow> wp (f (take (b - a) (drop a xs))) Q E s \<Longrightarrow>
   wp (bindc (lift (slice xs a b)) f) Q E s"
  by (simp add: wp_simps)

lemma wp_bind_lift_assert [wp_intros]:
  "b \<Longrightarrow> wp (f ()) Q E s \<Longrightarrow> wp (bindc (lift (assert_o b)) f) Q E s"
  by (simp add: wp_simps)

lemma wp_bind_lift_require [wp_intros]:
  "(\<not> b \<Longrightarrow> E e s) \<Longrightarrow> (b \<Longrightarrow> wp (f ()) Q E s) \<Longrightarrow> wp (bindc (lift (require b e)) f) Q E s"
  by (simp add: wp_simps)

lemma wp_bind_lift_ok_or [wp_intros]:
  "(v = None \<Longrightarrow> E e s) \<Longrightarrow> (\<And>x. v = Some x \<Longrightarrow> wp (f x) Q E s) \<Longrightarrow>
   wp (bindc (lift (ok_or e v)) f) Q E s"
  by (cases v) (auto simp: wp_simps)

lemma wp_bind_lift_unwrap [wp_intros]:
  "v = Some x \<Longrightarrow> wp (f x) Q E s \<Longrightarrow> wp (bindc (lift (unwrap v)) f) Q E s"
  by (simp add: wp_simps)

lemma wp_bind_lift_index_at [wp_intros]:
  "i < length xs \<Longrightarrow> wp (f (xs ! i)) Q E s \<Longrightarrow> wp (bindc (lift (index_at xs i)) f) Q E s"
  by (simp add: wp_simps)

lemma wp_bind_lift_read_u32le [wp_intros]:
  "i + 4 \<le> length bs \<Longrightarrow> i + 4 \<le> usize_max \<Longrightarrow> wp (f (u32le_at bs i)) Q E s \<Longrightarrow>
   wp (bindc (lift (read_u32le bs i)) f) Q E s"
  by (simp add: wp_simps)

lemma wp_bind_lift_read_u16le [wp_intros]:
  "i + 2 \<le> length bs \<Longrightarrow> i + 2 \<le> usize_max \<Longrightarrow> wp (f (u16le_at bs i)) Q E s \<Longrightarrow>
   wp (bindc (lift (read_u16le bs i)) f) Q E s"
  by (simp add: wp_simps)

lemma wp_bind_lift_read_u32be [wp_intros]:
  "i + 4 \<le> length bs \<Longrightarrow> i + 4 \<le> usize_max \<Longrightarrow> wp (f (u32be_at bs i)) Q E s \<Longrightarrow>
   wp (bindc (lift (read_u32be bs i)) f) Q E s"
  by (simp add: wp_simps)

lemma wp_bind_lift_Ok [wp_intros]: "wp (f x) Q E s \<Longrightarrow> wp (bindc (lift (Ok x)) f) Q E s"
  by (simp add: wp_simps)

lemma wp_bind_assoc [wp_intros]:
  "wp (bindc m (\<lambda>x. bindc (g x) f)) Q E s \<Longrightarrow> wp (bindc (bindc m g) f) Q E s"
  by (auto simp: wp_def bindc_def split: prod.splits outcome.splits)

lemma wp_bind_if [wp_intros]:
  "(b \<Longrightarrow> wp (bindc m f) Q E s) \<Longrightarrow> (\<not> b \<Longrightarrow> wp (bindc m' f) Q E s) \<Longrightarrow>
   wp (bindc (if b then m else m') f) Q E s"
  by simp

lemma wp_bind_let [wp_intros]:
  "(\<And>x. x = v \<Longrightarrow> wp (bindc (m x) f) Q E s) \<Longrightarrow> wp (bindc (let x = v in m x) f) Q E s"
  by simp

lemma wp_intro_let [wp_intros]: "(\<And>x. x = v \<Longrightarrow> wp (f x) Q E s) \<Longrightarrow> wp (let x = v in f x) Q E s"
  by simp

lemma wp_intro_if [wp_intros]:
  "(b \<Longrightarrow> wp m Q E s) \<Longrightarrow> (\<not> b \<Longrightarrow> wp m' Q E s) \<Longrightarrow> wp (if b then m else m') Q E s"
  by simp

lemma wp_intro_case_pair [wp_intros]:
  "(\<And>a b. p = (a, b) \<Longrightarrow> wp (f a b) Q E s) \<Longrightarrow> wp (case p of (a, b) \<Rightarrow> f a b) Q E s"
  by (cases p) simp

lemma wp_intro_ret [wp_intros]: "Q x s \<Longrightarrow> wp (ret x) Q E s"
  by (simp add: wp_simps)

lemma wp_intro_lift_Err [wp_intros]: "E e s \<Longrightarrow> wp (lift (Err e)) Q E s"
  by (simp add: wp_simps)

lemma wp_intro_lift_Ok [wp_intros]: "Q x s \<Longrightarrow> wp (lift (Ok x)) Q E s"
  by (simp add: wp_simps)

lemma holds_case_pair [holds_intros]:
  "holds (f a b) Q E \<Longrightarrow> holds (case (a, b) of (x, y) \<Rightarrow> f x y) Q E"
  by simp

section \<open>Widening conversions\<close>

lemma unat_ucast_up [simp]:
  assumes "LENGTH('a) \<le> LENGTH('b)"
  shows "unat (ucast (w :: 'a::len word) :: 'b::len word) = unat w"
proof -
  have "unat w < 2 ^ LENGTH('b)"
    using unat_less_bound[of w] assms by (meson less_le_trans one_le_numeral power_increasing)
  then show ?thesis by (simp add: unsigned_ucast_eq take_bit_nat_eq_self)
qed

lemma ucast_up_le [simp]:
  "LENGTH('a) \<le> LENGTH('b) \<Longrightarrow> (ucast (v :: 'a::len word) :: 'b::len word) \<le> w \<longleftrightarrow> unat v \<le> unat w"
  by (simp add: word_le_nat_alt)

lemma ucast_up_less [simp]:
  "LENGTH('a) \<le> LENGTH('b) \<Longrightarrow> w < (ucast (v :: 'a::len word) :: 'b::len word) \<longleftrightarrow> unat w < unat v"
  by (simp add: word_less_nat_alt)

section \<open>Values of combined halves\<close>

lemma u64_from_hilo_unat: "unat (u64_from_hilo hi lo) = unat hi * 2 ^ 32 + unat lo"
proof -
  have "push_bit 32 (ucast hi) OR ucast lo = push_bit 32 (ucast hi) + (ucast lo :: u64)"
    by (rule disjunctive_add[symmetric]) (auto simp: bit_push_bit_iff bit_ucast_iff dest: bit_imp_le_length)
  moreover have "unat (push_bit 32 (ucast hi) :: u64) = unat hi * 2 ^ 32"
  proof -
    have "unat hi < 2 ^ 32" using unat_less_bound[of hi] by simp
    then have "unat hi * 2 ^ 32 < 2 ^ 64" by simp
    then show ?thesis by (simp add: push_bit_eq_mult unat_word_ariths)
  qed
  moreover have "unat hi * 2 ^ 32 + unat lo < 2 ^ 64"
    using unat_less_bound[of hi] unat_less_bound[of lo] by simp
  ultimately show ?thesis
    by (simp add: u64_from_hilo_def unat_word_ariths)
qed

end
