(* ===== verification/Errors.thy ===== *)
theory Errors
  imports Prelude
begin

text \<open>
  The error types of \<^verbatim>\<open>src/src/error.rs\<close>, \<^verbatim>\<open>src/src/dir_entry.rs\<close> (names), \<^verbatim>\<open>src/src/path.rs\<close>
  and \<^verbatim>\<open>src/src/reader.rs\<close>, with the source's constructors. The wrappers \<open>Corrupt\<close> and
  \<open>Incompatible\<close> around the kinds are constructors of \<open>Ext4Error\<close>. \<open>InodeIndex\<close> is a
  \<open>NonZeroU32\<close>: a \<open>u32\<close> that is only built from a value tested to be nonzero.
\<close>

type_synonym FsBlockIndex = u64
type_synonym FileBlockIndex = u32
type_synonym InodeIndex = u32
type_synonym BlockSize = u32
type_synonym InodeMode = u16

datatype DirEntryNameError = Empty | TooLong | NameContainsNull | ContainsSeparator

datatype PathError = ComponentTooLong | ContainsNull | Encoding

text \<open>The error of the in-memory reader, and any other reader's error as an opaque message.\<close>

record MemIoError =
  mio_start :: u64
  mio_read_len :: usize
  mio_src_len :: usize

datatype BoxedError = BoxedMemIo MemIoError | BoxedOther string

datatype (plugins only: code size) CorruptKind =
    SuperblockMagic
  | SuperblockChecksum
  | InvalidBlockSize
  | TooManyBlockGroups
  | InodesPerBlockGroup
  | BlocksPerGroup
  | InodeSize
  | JournalInode
  | FirstDataBlock u32
  | CorruptBlockGroupDescriptor u32
  | BlockGroupDescriptorChecksum u32
  | JournalSize
  | JournalMagic
  | JournalSuperblockChecksum
  | JournalBlockSize
  | JournalTruncated
  | JournalSequence
  | JournalCommitBlockChecksum
  | JournalDescriptorBlockChecksum
  | JournalDescriptorTagChecksum
  | JournalRevocationBlockChecksum
  | JournalRevocationBlockInvalidTableSize usize
  | JournalSequenceOverflow
  | JournalDescriptorBlockTruncated
  | InodeChecksum InodeIndex
  | InodeTruncated InodeIndex usize
  | InodeBlockGroup InodeIndex u32 usize
  | InodeLocation InodeIndex u32 u32 u16 BlockSize FsBlockIndex
  | InodeFileType InodeIndex InodeMode
  | SymlinkTarget InodeIndex
  | TooManyBlocksInFile
  | ExtentMagic InodeIndex
  | ExtentChecksum InodeIndex
  | ExtentDepth InodeIndex
  | ExtentNotEnoughData InodeIndex
  | ExtentBlock InodeIndex
  | ExtentNodeSize InodeIndex
  | DirBlockChecksum InodeIndex
  | DirEntryMissingHeader InodeIndex usize
  | DirEntryRecordTooSmall InodeIndex usize
  | DirEntryNameTooLarge InodeIndex u8
  | DirEntryInvalidFileType InodeIndex u8
  | DirEntryInvalidName InodeIndex DirEntryNameError
  | HtreeInternalNodeMissingHeader InodeIndex usize
  | HtreeInternalNodeCountTooLarge InodeIndex usize usize
  | CorruptDirEntry InodeIndex
  | BlockRead FsBlockIndex FsBlockIndex u32 usize
  | BlockCacheReadTooLarge u32 BlockSize

datatype IncompatibleKind =
    MissingRequiredFeatures u32
  | UnsupportedFeatures u32
  | DirectoryHash u8
  | JournalSuperblockType u32
  | JournalChecksumType u8
  | MissingRequiredJournalFeatures u32
  | UnsupportedJournalFeatures u32
  | JournalBlockType u32
  | JournalBlockEscaped

datatype Ext4Error =
    NotAbsolute
  | NotASymlink
  | NotFound
  | IsADirectory
  | NotADirectory
  | IsASpecialFile
  | FileTooLarge
  | NotUtf8
  | MalformedPath
  | PathTooLong
  | TooManySymlinks
  | Encrypted
  | Io BoxedError
  | Incompatible IncompatibleKind
  | Corrupt CorruptKind

definition as_io :: "Ext4Error \<Rightarrow> BoxedError option" where
  "as_io self = (case self of Io err \<Rightarrow> Some err | _ \<Rightarrow> None)"

text \<open>\<open>impl From<Ext4Error> for std::io::Error\<close>: the kind of the resulting error, with the error
  it wraps for \<open>ErrorKind::Other\<close>.\<close>

datatype ErrorKind =
    EK_InvalidInput
  | EK_FileTooLarge
  | EK_IsADirectory
  | EK_NotADirectory
  | EK_NotFound
  | EK_InvalidData
  | EK_PermissionDenied
  | EK_OtherIo BoxedError
  | EK_OtherExt4 Ext4Error

definition io_error_from :: "Ext4Error \<Rightarrow> ErrorKind" where
  "io_error_from e = (case e of
     IsASpecialFile \<Rightarrow> EK_InvalidInput
   | MalformedPath \<Rightarrow> EK_InvalidInput
   | NotASymlink \<Rightarrow> EK_InvalidInput
   | NotAbsolute \<Rightarrow> EK_InvalidInput
   | Corrupt _ \<Rightarrow> EK_OtherExt4 e
   | Incompatible _ \<Rightarrow> EK_OtherExt4 e
   | PathTooLong \<Rightarrow> EK_OtherExt4 e
   | TooManySymlinks \<Rightarrow> EK_OtherExt4 e
   | FileTooLarge \<Rightarrow> EK_FileTooLarge
   | Io inner \<Rightarrow> EK_OtherIo inner
   | IsADirectory \<Rightarrow> EK_IsADirectory
   | NotADirectory \<Rightarrow> EK_NotADirectory
   | NotFound \<Rightarrow> EK_NotFound
   | NotUtf8 \<Rightarrow> EK_InvalidData
   | Encrypted \<Rightarrow> EK_PermissionDenied)"

text \<open>The type of a fallible computation of the crate.\<close>

type_synonym 'a result = "('a, Ext4Error) outcome"

abbreviation corrupt :: "CorruptKind \<Rightarrow> 'a result" where
  "corrupt k \<equiv> Err (Corrupt k)"

end
