(* ===== verification/Utf8.thy ===== *)
theory Utf8
  imports Prelude
begin

text \<open>
  UTF-8 as the standard library's \<open>str::from_utf8\<close>, \<open>String::from_utf8_lossy\<close> and \<open>str::chars\<close> see it.
  A \<open>str\<close> and a \<open>String\<close> are their bytes. The crate uses these for file contents
  (\<open>Ext4::read_to_string\<close>), for names, paths and labels, and for their textual forms.
\<close>

section \<open>Well-formed sequences\<close>

definition utf8_cont :: "u8 \<Rightarrow> bool" where
  "utf8_cont b \<longleftrightarrow> 0x80 \<le> b \<and> b \<le> 0xbf"

fun utf8_valid :: "bytes \<Rightarrow> bool" where
  "utf8_valid [] \<longleftrightarrow> True"
| "utf8_valid (a # bs) \<longleftrightarrow>
     (if a < 0x80 then utf8_valid bs
      else if 0xc2 \<le> a \<and> a \<le> 0xdf then
        (case bs of b # rest \<Rightarrow> utf8_cont b \<and> utf8_valid rest | _ \<Rightarrow> False)
      else if 0xe0 \<le> a \<and> a \<le> 0xef then
        (case bs of
           b # c # rest \<Rightarrow>
             utf8_cont b \<and> (a = 0xe0 \<longrightarrow> 0xa0 \<le> b) \<and> (a = 0xed \<longrightarrow> b \<le> 0x9f) \<and> utf8_cont c \<and> utf8_valid rest
         | _ \<Rightarrow> False)
      else if 0xf0 \<le> a \<and> a \<le> 0xf4 then
        (case bs of
           b # c # d # rest \<Rightarrow>
             utf8_cont b \<and> (a = 0xf0 \<longrightarrow> 0x90 \<le> b) \<and> (a = 0xf4 \<longrightarrow> b \<le> 0x8f) \<and> utf8_cont c \<and> utf8_cont d \<and>
             utf8_valid rest
         | _ \<Rightarrow> False)
      else False)"

definition String_from_utf8 :: "bytes \<Rightarrow> (bytes, unit) outcome" where
  "String_from_utf8 bs = (if utf8_valid bs then Ok bs else Err ())"

text \<open>The first sequence of a byte string that starts with \<open>a\<close>: whether it is a character, and its
  length. A sequence that is not a character is the longest prefix of one that the bytes have.\<close>

definition utf8_step :: "u8 \<Rightarrow> bytes \<Rightarrow> bool \<times> nat" where
  "utf8_step a bs =
     (if a < 0x80 then (True, 1)
      else if 0xc2 \<le> a \<and> a \<le> 0xdf then
        (case bs of b # _ \<Rightarrow> if utf8_cont b then (True, 2) else (False, 1) | _ \<Rightarrow> (False, 1))
      else if 0xe0 \<le> a \<and> a \<le> 0xef then
        (case bs of
           b # cs \<Rightarrow>
             if utf8_cont b \<and> (a = 0xe0 \<longrightarrow> 0xa0 \<le> b) \<and> (a = 0xed \<longrightarrow> b \<le> 0x9f) then
               (case cs of c # _ \<Rightarrow> if utf8_cont c then (True, 3) else (False, 2) | _ \<Rightarrow> (False, 2))
             else (False, 1)
         | _ \<Rightarrow> (False, 1))
      else if 0xf0 \<le> a \<and> a \<le> 0xf4 then
        (case bs of
           b # cs \<Rightarrow>
             if utf8_cont b \<and> (a = 0xf0 \<longrightarrow> 0x90 \<le> b) \<and> (a = 0xf4 \<longrightarrow> b \<le> 0x8f) then
               (case cs of
                  c # ds \<Rightarrow>
                    if utf8_cont c then
                      (case ds of d # _ \<Rightarrow> if utf8_cont d then (True, 4) else (False, 3) | _ \<Rightarrow> (False, 3))
                    else (False, 2)
                | _ \<Rightarrow> (False, 2))
             else (False, 1)
         | _ \<Rightarrow> (False, 1))
      else (False, 1))"

lemma utf8_step_pos [simp]: "0 < snd (utf8_step a bs)"
  by (auto simp: utf8_step_def split: list.split)

lemma utf8_step_le: "snd (utf8_step a bs) \<le> Suc (length bs)"
  by (auto simp: utf8_step_def split: list.split)

lemma utf8_valid_step: "utf8_valid (a # bs) \<longleftrightarrow> fst (utf8_step a bs) \<and> utf8_valid (drop (snd (utf8_step a bs)) (a # bs))"
  by (auto simp: utf8_step_def split: list.split)

text \<open>The four forms of a character.\<close>

definition utf8_lead3 :: "u8 \<Rightarrow> u8 \<Rightarrow> bool" where
  "utf8_lead3 a b \<longleftrightarrow> 0xe0 \<le> a \<and> a \<le> 0xef \<and> utf8_cont b \<and> (a = 0xe0 \<longrightarrow> 0xa0 \<le> b) \<and> (a = 0xed \<longrightarrow> b \<le> 0x9f)"

definition utf8_lead4 :: "u8 \<Rightarrow> u8 \<Rightarrow> bool" where
  "utf8_lead4 a b \<longleftrightarrow> 0xf0 \<le> a \<and> a \<le> 0xf4 \<and> utf8_cont b \<and> (a = 0xf0 \<longrightarrow> 0x90 \<le> b) \<and> (a = 0xf4 \<longrightarrow> b \<le> 0x8f)"

lemma utf8_step_forms:
  "a < 0x80 \<Longrightarrow> utf8_step a bs = (True, 1)"
  "0xc2 \<le> a \<Longrightarrow> a \<le> 0xdf \<Longrightarrow> utf8_cont b \<Longrightarrow> utf8_step a (b # bs) = (True, 2)"
  "utf8_lead3 a b \<Longrightarrow> utf8_cont c \<Longrightarrow> utf8_step a (b # c # bs) = (True, 3)"
  "utf8_lead4 a b \<Longrightarrow> utf8_cont c \<Longrightarrow> utf8_cont d \<Longrightarrow> utf8_step a (b # c # d # bs) = (True, 4)"
  by (simp_all add: utf8_step_def utf8_lead3_def utf8_lead4_def word_le_nat_alt word_less_nat_alt)

lemma utf8_stepE:
  assumes "fst (utf8_step a bs)"
  obtains "a < 0x80"
  | b rest where "bs = b # rest" "0xc2 \<le> a" "a \<le> 0xdf" "utf8_cont b"
  | b c rest where "bs = b # c # rest" "utf8_lead3 a b" "utf8_cont c"
  | b c d rest where "bs = b # c # d # rest" "utf8_lead4 a b" "utf8_cont c" "utf8_cont d"
  using assms by (simp add: utf8_step_def utf8_lead3_def utf8_lead4_def split: if_split_asm list.split_asm)

text \<open>A character may be followed by anything.\<close>

lemma utf8_step_append:
  assumes "fst (utf8_step a bs)"
  shows "utf8_step a (take (snd (utf8_step a bs) - 1) bs @ cs) = utf8_step a bs"
  using assms by (rule utf8_stepE) (simp_all add: utf8_step_forms)

lemma utf8_valid_append_char:
  assumes "fst (utf8_step a bs)"
  shows "utf8_valid (take (snd (utf8_step a bs)) (a # bs) @ cs) \<longleftrightarrow> utf8_valid cs"
proof -
  let ?n = "snd (utf8_step a bs)"
  have t: "take ?n (a # bs) = a # take (?n - 1) bs" by (cases ?n) (use utf8_step_pos[of a bs] in auto)
  have l: "length (take ?n (a # bs)) = ?n" using utf8_step_le[of a bs] by simp
  have "drop ?n (take ?n (a # bs) @ cs) = cs" using l by simp
  then have "drop ?n (a # take (?n - 1) bs @ cs) = cs" by (simp only: t append_Cons)
  then show ?thesis
    using utf8_valid_step[of a "take (?n - 1) bs @ cs"] assms
    by (simp only: t append_Cons utf8_step_append[OF assms] simp_thms)
qed

section \<open>Lossy conversion\<close>

definition REPLACEMENT_CHARACTER :: bytes where
  "REPLACEMENT_CHARACTER = [0xef, 0xbf, 0xbd]"

function from_utf8_lossy :: "bytes \<Rightarrow> bytes" where
  "from_utf8_lossy [] = []"
| "from_utf8_lossy (a # bs) =
     (let (valid, n) = utf8_step a bs in
      (if valid then take n (a # bs) else REPLACEMENT_CHARACTER) @ from_utf8_lossy (drop n (a # bs)))"
  by pat_completeness auto
termination
proof (relation "measure length")
  fix a bs x valid n
  assume "x = utf8_step a bs" "(valid, n) = x"
  then have "0 < n" using utf8_step_pos[of a bs] by (metis snd_conv)
  then show "(drop n (a # bs), a # bs) \<in> measure length" by simp
qed simp

declare from_utf8_lossy.simps(2) [simp del]

lemma from_utf8_lossy_Cons:
  "from_utf8_lossy (a # bs) =
     (if fst (utf8_step a bs) then take (snd (utf8_step a bs)) (a # bs) else REPLACEMENT_CHARACTER) @
     from_utf8_lossy (drop (snd (utf8_step a bs)) (a # bs))"
  by (cases "utf8_step a bs") (simp add: from_utf8_lossy.simps)

lemma utf8_valid_replacement: "utf8_valid (REPLACEMENT_CHARACTER @ bs) \<longleftrightarrow> utf8_valid bs"
  by (simp add: REPLACEMENT_CHARACTER_def utf8_cont_def)

lemma lossy_valid: "utf8_valid (from_utf8_lossy bs)"
proof (induction bs rule: from_utf8_lossy.induct)
  case (2 a bs)
  have "utf8_valid (from_utf8_lossy (drop (snd (utf8_step a bs)) (a # bs)))" by (rule 2[OF refl prod.collapse])
  then show ?case by (auto simp: from_utf8_lossy_Cons utf8_valid_append_char utf8_valid_replacement)
qed simp

lemma lossy_keeps_valid: "utf8_valid bs \<Longrightarrow> from_utf8_lossy bs = bs"
proof (induction bs rule: from_utf8_lossy.induct)
  case (2 a bs)
  let ?n = "snd (utf8_step a bs)"
  have s: "fst (utf8_step a bs)" "utf8_valid (drop ?n (a # bs))" using "2.prems" utf8_valid_step by blast+
  have "from_utf8_lossy (drop ?n (a # bs)) = drop ?n (a # bs)" by (rule "2.IH"[OF refl prod.collapse s(2)])
  with s(1) show ?case unfolding from_utf8_lossy_Cons by (simp only: if_True append_take_drop_id)
qed simp

lemma lossy_id_iff: "from_utf8_lossy bs = bs \<longleftrightarrow> utf8_valid bs"
  by (metis lossy_keeps_valid lossy_valid)

section \<open>Characters\<close>

text \<open>The characters of a string, each with its bytes, and the code point of a character.\<close>

function utf8_chars :: "bytes \<Rightarrow> bytes list" where
  "utf8_chars [] = []"
| "utf8_chars (a # bs) = (let n = snd (utf8_step a bs) in take n (a # bs) # utf8_chars (drop n (a # bs)))"
  by pat_completeness auto
termination
  by (relation "measure length") auto

declare utf8_chars.simps(2) [simp del]

lemma concat_utf8_chars [simp]: "concat (utf8_chars bs) = bs"
  by (induction bs rule: utf8_chars.induct) (simp_all add: utf8_chars.simps Let_def)

definition utf8_char :: "bytes \<Rightarrow> bool" where
  "utf8_char c \<longleftrightarrow> (case c of a # bs \<Rightarrow> utf8_step a bs = (True, length c) | [] \<Rightarrow> False)"

lemma utf8_chars_are_chars: "utf8_valid bs \<Longrightarrow> c \<in> set (utf8_chars bs) \<Longrightarrow> utf8_char c"
proof (induction bs rule: utf8_chars.induct)
  case (2 a bs)
  let ?n = "snd (utf8_step a bs)"
  have s: "fst (utf8_step a bs)" "utf8_valid (drop ?n (a # bs))" using "2.prems"(1) utf8_valid_step by blast+
  have "utf8_char (take ?n (a # bs))"
    using s(1) by (rule utf8_stepE) (simp_all add: utf8_char_def utf8_step_forms)
  with "2.prems"(2) "2.IH"[OF refl s(2)] show ?case by (auto simp: utf8_chars.simps Let_def)
qed simp

definition code_point :: "bytes \<Rightarrow> nat" where
  "code_point c = (case map unat c of
     [a] \<Rightarrow> a
   | [a, b] \<Rightarrow> (a mod 32) * 64 + b mod 64
   | [a, b, c] \<Rightarrow> (a mod 16) * 64 ^ 2 + (b mod 64) * 64 + c mod 64
   | [a, b, c, d] \<Rightarrow> (a mod 8) * 64 ^ 3 + (b mod 64) * 64 ^ 2 + (c mod 64) * 64 + d mod 64
   | _ \<Rightarrow> 0)"

definition encode_utf8 :: "nat \<Rightarrow> bytes" where
  "encode_utf8 n =
     (if n < 0x80 then [of_nat n]
      else if n < 0x800 then [of_nat (0xc0 + n div 64), of_nat (0x80 + n mod 64)]
      else if n < 0x10000 then [of_nat (0xe0 + n div 64 ^ 2), of_nat (0x80 + n div 64 mod 64), of_nat (0x80 + n mod 64)]
      else [of_nat (0xf0 + n div 64 ^ 3), of_nat (0x80 + n div 64 ^ 2 mod 64), of_nat (0x80 + n div 64 mod 64),
            of_nat (0x80 + n mod 64)])"

lemma utf8_charE:
  assumes "utf8_char c"
  obtains a where "c = [a]" "a < 0x80"
  | a b where "c = [a, b]" "0xc2 \<le> a" "a \<le> 0xdf" "utf8_cont b"
  | a b d where "c = [a, b, d]" "utf8_lead3 a b" "utf8_cont d"
  | a b d e where "c = [a, b, d, e]" "utf8_lead4 a b" "utf8_cont d" "utf8_cont e"
proof (cases c)
  case Nil
  with assms show thesis by (simp add: utf8_char_def)
next
  case (Cons a bs)
  with assms have s: "utf8_step a bs = (True, Suc (length bs))" by (simp add: utf8_char_def)
  then have "fst (utf8_step a bs)" by simp
  then show thesis
    by (rule utf8_stepE) (use s Cons that in \<open>auto simp: utf8_step_forms\<close>)
qed

lemma utf8_cont_nat: "utf8_cont b \<longleftrightarrow> 0x80 \<le> unat b \<and> unat b \<le> 0xbf"
  by (simp add: utf8_cont_def word_le_nat_alt)

lemma contE:
  assumes "utf8_cont b"
  obtains x where "x < 64" "unat b = 0x80 + x" "b = of_nat (0x80 + x)"
proof -
  have "unat b = 0x80 + (unat b - 0x80)" "unat b - 0x80 < 64" using assms by (auto simp: utf8_cont_nat)
  then show thesis using that by (metis of_nat_unat ucast_id)
qed

lemma leadE:
  fixes a :: u8
  assumes "of_nat k \<le> a" and "k < 256"
  obtains x where "unat a = k + x" "a = of_nat (k + x)"
proof -
  have "k \<le> unat a" using assms by (simp add: word_le_nat_alt unat_of_nat)
  then have "unat a = k + (unat a - k)" by simp
  then show thesis using that by (metis of_nat_unat ucast_id)
qed

lemma tag_mod:
  "x < 32 \<Longrightarrow> (192 + x) mod 32 = x" "x < 16 \<Longrightarrow> (224 + x) mod 16 = x" "x < 5 \<Longrightarrow> (240 + x) mod 8 = x"
  "x < 64 \<Longrightarrow> (128 + x) mod 64 = (x :: nat)"
  using mod_mult_self3[of 6 32 x] mod_mult_self3[of 14 16 x] mod_mult_self3[of 30 8 x] mod_mult_self3[of 2 64 x] by simp_all

lemma encode_code_point: "utf8_char c \<Longrightarrow> encode_utf8 (code_point c) = c"
proof (erule utf8_charE)
  fix a assume "c = [a]" "a < 0x80"
  then show ?thesis by (simp add: code_point_def encode_utf8_def word_less_nat_alt)
next
  fix a b assume c: "c = [a, b]" and a: "0xc2 \<le> a" "a \<le> 0xdf" and "utf8_cont b"
  obtain y where y: "y < 64" "unat b = 0x80 + y" "b = of_nat (0x80 + y)" using \<open>utf8_cont b\<close> by (rule contE)
  have "of_nat 0xc0 \<le> a" using a(1) by (simp add: word_le_nat_alt)
  then obtain x where x: "unat a = 0xc0 + x" "a = of_nat (0xc0 + x)" using leadE[of "0xc0" a] by auto
  have "x < 32" "2 \<le> x" using a x(1) by (simp_all add: word_le_nat_alt)
  then have "code_point c = x * 64 + y" using c x y by (simp add: code_point_def tag_mod)
  with \<open>x < 32\<close> \<open>2 \<le> x\<close> y x c show ?thesis by (simp add: encode_utf8_def)
next
  fix a b d assume c: "c = [a, b, d]" and l: "utf8_lead3 a b" and d: "utf8_cont d"
  then have b: "utf8_cont b" and a: "0xe0 \<le> a" "a \<le> 0xef" and a0: "a = 0xe0 \<Longrightarrow> 0xa0 \<le> b" by (auto simp: utf8_lead3_def)
  obtain y where y: "y < 64" "unat b = 0x80 + y" "b = of_nat (0x80 + y)" using b by (rule contE)
  obtain z where z: "z < 64" "unat d = 0x80 + z" "d = of_nat (0x80 + z)" using d by (rule contE)
  obtain x where x: "unat a = 0xe0 + x" "a = of_nat (0xe0 + x)" using leadE[of "0xe0" a] a by auto
  have "x < 16" using a(2) x(1) by (simp add: word_le_nat_alt)
  have "x = 0 \<Longrightarrow> 32 \<le> y" using a0 x y by (simp add: word_le_nat_alt)
  then have cp: "32 \<le> x * 64 + y" by (cases "x = 0") auto
  define p where "p = x * 64 + y"
  have p: "p div 64 = x" "p mod 64 = y" using y by (simp_all add: p_def)
  have "code_point c = p * 64 + z" using \<open>x < 16\<close> c x y z by (simp add: code_point_def tag_mod p_def)
  moreover have "(p * 64 + z) div 64 = p" "(p * 64 + z) mod 64 = z" using z by simp_all
  moreover have "(p * 64 + z) div 4096 = x" using z p by (simp add: div_mult2_eq[of _ 64 64, simplified])
  moreover have "2048 \<le> p * 64 + z" "p * 64 + z < 65536" using cp \<open>x < 16\<close> y z by (simp_all add: p_def)
  ultimately show ?thesis using p y z x c by (simp add: encode_utf8_def)
next
  fix a b d e assume c: "c = [a, b, d, e]" and l: "utf8_lead4 a b" and d: "utf8_cont d" and e: "utf8_cont e"
  then have b: "utf8_cont b" and a: "0xf0 \<le> a" "a \<le> 0xf4" and a0: "a = 0xf0 \<Longrightarrow> 0x90 \<le> b" by (auto simp: utf8_lead4_def)
  obtain y where y: "y < 64" "unat b = 0x80 + y" "b = of_nat (0x80 + y)" using b by (rule contE)
  obtain z where z: "z < 64" "unat d = 0x80 + z" "d = of_nat (0x80 + z)" using d by (rule contE)
  obtain v where v: "v < 64" "unat e = 0x80 + v" "e = of_nat (0x80 + v)" using e by (rule contE)
  obtain x where x: "unat a = 0xf0 + x" "a = of_nat (0xf0 + x)" using leadE[of "0xf0" a] a by auto
  have "x < 5" using a(2) x(1) by (simp add: word_le_nat_alt)
  have "x = 0 \<Longrightarrow> 16 \<le> y" using a0 x y by (simp add: word_le_nat_alt)
  then have cp: "16 \<le> x * 64 + y" by (cases "x = 0") auto
  define p where "p = x * 64 + y"
  define q where "q = p * 64 + z"
  have p: "p div 64 = x" "p mod 64 = y" using y by (simp_all add: p_def)
  have q: "q div 64 = p" "q mod 64 = z" using z by (simp_all add: q_def)
  have "code_point c = q * 64 + v" using \<open>x < 5\<close> c x y z v by (simp add: code_point_def tag_mod p_def q_def)
  moreover have "(q * 64 + v) div 64 = q" "(q * 64 + v) mod 64 = v" using v by simp_all
  moreover have "(q * 64 + v) div 4096 = p" "(q * 64 + v) div 262144 = x"
    using v p q by (simp_all add: div_mult2_eq[of _ 64 64, simplified] div_mult2_eq[of _ 64 4096, simplified])
  moreover have "65536 \<le> q * 64 + v" using cp by (simp add: p_def q_def)
  ultimately show ?thesis using p q y z v x c by (simp add: encode_utf8_def)
qed

end
