(* ===== verification/Paths.thy ===== *)
theory Paths
  imports Errors Utf8
begin

text \<open>
  Paths and names (\<^verbatim>\<open>src/src/path.rs\<close>, and \<open>DirEntryName\<close> of \<^verbatim>\<open>src/src/dir_entry.rs\<close>). A path is a
  sequence of bytes; \<open>Path\<close> and \<open>PathBuf\<close> differ only in ownership and are the same type here, and
  so are a name and its owned buffer, whose first \<open>len\<close> bytes are the name. A \<open>str\<close> and a \<open>String\<close> are
  their bytes; so is an \<open>OsStr\<close>, on Unix any bytes and elsewhere bytes that need not be UTF-8.
\<close>

section \<open>Names\<close>

type_synonym DirEntryName = bytes

definition MAX_LEN :: usize where
  "MAX_LEN = 255"

definition SEPARATOR :: u8 where
  "SEPARATOR = 0x2f"

definition DirEntryName_try_from :: "bytes \<Rightarrow> (DirEntryName, DirEntryNameError) outcome" where
  "DirEntryName_try_from bytes =
     (if bytes = [] then Err Empty
      else if length bytes > MAX_LEN then Err TooLong
      else if 0 \<in> set bytes then Err NameContainsNull
      else if SEPARATOR \<in> set bytes then Err ContainsSeparator
      else Ok bytes)"

record DirEntryNameBuf =
  nb_data :: bytes
  nb_len :: u8

definition DirEntryNameBuf_as_bytes :: "DirEntryNameBuf \<Rightarrow> bytes result" where
  "DirEntryNameBuf_as_bytes self = slice (nb_data self) 0 (unat (nb_len self))"

definition DirEntryNameBuf_try_from :: "bytes \<Rightarrow> (DirEntryNameBuf, DirEntryNameError) outcome" where
  "DirEntryNameBuf_try_from bytes =
     bind_o (DirEntryName_try_from bytes) (\<lambda>_.
     bind_o (unwrap (word_try_from (length bytes))) (\<lambda>len.
     let data = replicate MAX_LEN 0 in
     Ok \<lparr>nb_data = bytes @ drop (length bytes) data, nb_len = len\<rparr>))"

section \<open>Paths\<close>

type_synonym Path = bytes
type_synonym PathBuf = bytes

definition ROOT :: Path where
  "ROOT = [SEPARATOR]"

text \<open>\<open>slice::split\<close> at the separators.\<close>

fun split_sep :: "bytes \<Rightarrow> bytes list" where
  "split_sep [] = [[]]"
| "split_sep (b # bs) =
     (if b = SEPARATOR then [] # split_sep bs
      else case split_sep bs of c # cs \<Rightarrow> (b # c) # cs)"

definition Path_try_from :: "bytes \<Rightarrow> (Path, PathError) outcome" where
  "Path_try_from s =
     (if 0 \<in> set s then Err ContainsNull
      else if \<exists>component \<in> set (split_sep s). length component > MAX_LEN then Err ComponentTooLong
      else Ok s)"

definition Path_new :: "bytes \<Rightarrow> Path result" where
  "Path_new p = unwrap_res (Path_try_from p)"

definition Path_is_absolute :: "Path \<Rightarrow> bool" where
  "Path_is_absolute self = (if self = [] then False else self ! 0 = SEPARATOR)"

definition PathBuf_try_from :: "bytes \<Rightarrow> (PathBuf, PathError) outcome" where
  "PathBuf_try_from s = bind_o (Path_try_from s) (\<lambda>_. Ok s)"

definition PathBuf_push :: "PathBuf \<Rightarrow> bytes \<Rightarrow> PathBuf result" where
  "PathBuf_push this p =
     bind_o (unwrap_res (Path_try_from p)) (\<lambda>p.
     if Path_is_absolute p then Ok p
     else
       let add_sep = (if this = [] then False else last this \<noteq> SEPARATOR) in
       if add_sep then
         bind_o (unwrap (usize_add (length p) 1)) (\<lambda>_. Ok (this @ [SEPARATOR] @ p))
       else Ok (this @ p))"

definition PathBuf_join :: "PathBuf \<Rightarrow> bytes \<Rightarrow> PathBuf result" where
  "PathBuf_join self path = PathBuf_push self path"

section \<open>Conversions\<close>

definition DirEntryName_try_from_array :: "bytes \<Rightarrow> (DirEntryName, DirEntryNameError) outcome" where
  "DirEntryName_try_from_array bytes = DirEntryName_try_from bytes"

definition DirEntryName_try_from_str :: "bytes \<Rightarrow> (DirEntryName, DirEntryNameError) outcome" where
  "DirEntryName_try_from_str s = DirEntryName_try_from s"

definition DirEntryName_eq :: "DirEntryName \<Rightarrow> bytes \<Rightarrow> bool" where
  "DirEntryName_eq self other \<longleftrightarrow> self = other"

definition DirEntryNameBuf_eq :: "DirEntryNameBuf \<Rightarrow> DirEntryNameBuf \<Rightarrow> bool result" where
  "DirEntryNameBuf_eq self other =
     bind_o (DirEntryNameBuf_as_bytes self) (\<lambda>a. bind_o (DirEntryNameBuf_as_bytes other) (\<lambda>b. Ok (a = b)))"

definition Path_join :: "Path \<Rightarrow> bytes \<Rightarrow> PathBuf result" where
  "Path_join self path = PathBuf_join self path"

definition Path_to_str :: "Path \<Rightarrow> (bytes, unit) outcome" where
  "Path_to_str self = String_from_utf8 self"

definition Path_try_from_str :: "bytes \<Rightarrow> (Path, PathError) outcome" where
  "Path_try_from_str s = Path_try_from s"

definition Path_try_from_String :: "bytes \<Rightarrow> (Path, PathError) outcome" where
  "Path_try_from_String s = Path_try_from s"

definition Path_try_from_array :: "bytes \<Rightarrow> (Path, PathError) outcome" where
  "Path_try_from_array a = Path_try_from a"

definition PathBuf_as_path :: "PathBuf \<Rightarrow> Path" where
  "PathBuf_as_path self = self"

definition Path_try_from_PathBuf :: "PathBuf \<Rightarrow> (Path, PathError) outcome" where
  "Path_try_from_PathBuf p = Ok (PathBuf_as_path p)"

text \<open>From \<open>OsStr\<close>, on Unix and on other systems, and from \<open>std::path::Path\<close>.\<close>

definition Path_try_from_os_str_unix :: "bytes \<Rightarrow> (Path, PathError) outcome" where
  "Path_try_from_os_str_unix p = Path_try_from p"

definition os_to_str :: "bytes \<Rightarrow> bytes option" where
  "os_to_str p = (if utf8_valid p then Some p else None)"

definition Path_try_from_os_str_other :: "bytes \<Rightarrow> (Path, PathError) outcome" where
  "Path_try_from_os_str_other p = bind_o (ok_or Encoding (os_to_str p)) Path_try_from_str"

definition Path_try_from_std_path :: "bool \<Rightarrow> bytes \<Rightarrow> (Path, PathError) outcome" where
  "Path_try_from_std_path unix p = (if unix then Path_try_from_os_str_unix p else Path_try_from_os_str_other p)"

definition Path_eq :: "Path \<Rightarrow> bytes \<Rightarrow> bool" where
  "Path_eq self other \<longleftrightarrow> self = other"

definition std_path_from_Path :: "Path \<Rightarrow> bytes" where
  "std_path_from_Path p = p"

definition PathBuf_new :: "bytes \<Rightarrow> PathBuf result" where
  "PathBuf_new p = unwrap_res (PathBuf_try_from p)"

definition PathBuf_empty :: PathBuf where
  "PathBuf_empty = []"

definition PathBuf_is_absolute :: "PathBuf \<Rightarrow> bool" where
  "PathBuf_is_absolute self = Path_is_absolute (PathBuf_as_path self)"

definition PathBuf_to_str :: "PathBuf \<Rightarrow> (bytes, unit) outcome" where
  "PathBuf_to_str self = Path_to_str (PathBuf_as_path self)"

definition PathBuf_try_from_str :: "bytes \<Rightarrow> (PathBuf, PathError) outcome" where
  "PathBuf_try_from_str s = PathBuf_try_from s"

definition PathBuf_try_from_String_ref :: "bytes \<Rightarrow> (PathBuf, PathError) outcome" where
  "PathBuf_try_from_String_ref s = PathBuf_try_from s"

definition PathBuf_try_from_String :: "bytes \<Rightarrow> (PathBuf, PathError) outcome" where
  "PathBuf_try_from_String s = PathBuf_try_from s"

definition PathBuf_try_from_slice :: "bytes \<Rightarrow> (PathBuf, PathError) outcome" where
  "PathBuf_try_from_slice s = PathBuf_try_from s"

definition PathBuf_try_from_array :: "bytes \<Rightarrow> (PathBuf, PathError) outcome" where
  "PathBuf_try_from_array a = PathBuf_try_from a"

definition PathBuf_try_from_OsString_unix :: "bytes \<Rightarrow> (PathBuf, PathError) outcome" where
  "PathBuf_try_from_OsString_unix p = PathBuf_try_from p"

definition PathBuf_try_from_OsString_other :: "bytes \<Rightarrow> (PathBuf, PathError) outcome" where
  "PathBuf_try_from_OsString_other p = bind_o (map_err (\<lambda>_. Encoding) (String_from_utf8 p)) PathBuf_try_from_String"

definition PathBuf_try_from_std_path :: "bool \<Rightarrow> bytes \<Rightarrow> (PathBuf, PathError) outcome" where
  "PathBuf_try_from_std_path unix p =
     (if unix then PathBuf_try_from_OsString_unix p else PathBuf_try_from_OsString_other p)"

definition PathBuf_eq :: "PathBuf \<Rightarrow> bytes \<Rightarrow> bool" where
  "PathBuf_eq self other \<longleftrightarrow> self = other"

definition PathBuf_from_Path :: "Path \<Rightarrow> PathBuf" where
  "PathBuf_from_Path p = p"

definition std_PathBuf_from_PathBuf :: "PathBuf \<Rightarrow> bytes" where
  "std_PathBuf_from_PathBuf p = p"

section \<open>Components\<close>

datatype Component = RootDir | CurDir | ParentDir | Normal DirEntryName

definition Component_normal :: "bytes \<Rightarrow> (Component, DirEntryNameError) outcome" where
  "Component_normal name = bind_o (DirEntryName_try_from name) (\<lambda>n. Ok (Normal n))"

text \<open>\<open>PartialEq\<close> of a component with the bytes it stands for.\<close>

definition Component_as_bytes :: "Component \<Rightarrow> bytes" where
  "Component_as_bytes self =
     (case self of
        RootDir \<Rightarrow> [0x2f]
      | CurDir \<Rightarrow> [0x2e]
      | ParentDir \<Rightarrow> [0x2e, 0x2e]
      | Normal c \<Rightarrow> c)"

record Components =
  cs_path :: Path
  cs_offset :: usize

definition Path_components :: "Path \<Rightarrow> Components" where
  "Path_components self = \<lparr>cs_path = self, cs_offset = 0\<rparr>"

definition PathBuf_components :: "PathBuf \<Rightarrow> Components" where
  "PathBuf_components self = Path_components (PathBuf_as_path self)"

text \<open>The loop that coalesces repeated separators.\<close>

function skip_separators :: "Path \<Rightarrow> usize \<Rightarrow> usize result" where
  "skip_separators path offset =
     (if offset < length path \<and> path ! offset = SEPARATOR
      then (case usize_add offset 1 of None \<Rightarrow> Panic | Some offset' \<Rightarrow> skip_separators path offset')
      else Ok offset)"
  by pat_completeness auto
termination
  by (relation "measure (\<lambda>(path, offset). length path - offset)") (auto simp: usize_add_def split: if_splits)

declare skip_separators.simps [simp del]

text \<open>\<open>iter().position(|b| *b == SEPARATOR)\<close>.\<close>

fun find_sep :: "bytes \<Rightarrow> usize option" where
  "find_sep [] = None"
| "find_sep (b # bs) = (if b = SEPARATOR then Some 0 else map_option Suc (find_sep bs))"

definition Components_next :: "Components \<Rightarrow> (Component option \<times> Components) result" where
  "Components_next self =
     (let path = cs_path self in
      if cs_offset self \<ge> length path then Ok (None, self)
      else if cs_offset self = 0 \<and> path ! 0 = SEPARATOR then
        Ok (Some RootDir, self\<lparr>cs_offset := 1\<rparr>)
      else
        bind_o (skip_separators path (cs_offset self)) (\<lambda>offset.
        if offset \<ge> length path then Ok (None, self\<lparr>cs_offset := offset\<rparr>)
        else
          bind_o (case find_sep (drop offset path) of
                    Some index \<Rightarrow> unwrap (usize_add offset index)
                  | None \<Rightarrow> Ok (length path)) (\<lambda>end.
          bind_o (slice path offset end) (\<lambda>component.
          let component = (if component = [0x2e] then CurDir
                           else if component = [0x2e, 0x2e] then ParentDir
                           else Normal component) in
          Ok (Some component, self\<lparr>cs_offset := end\<rparr>)))))"

text \<open>The components of a path as a list: the calls of \<open>next\<close> until it returns nothing. Every call moves
  the offset forward, so \<open>length path + 1\<close> calls reach the end.\<close>

fun collect_components :: "nat \<Rightarrow> Components \<Rightarrow> (Component list) result" where
  "collect_components 0 self = Diverge"
| "collect_components (Suc n) self =
     bind_o (Components_next self) (\<lambda>(item, self).
     case item of
       None \<Rightarrow> Ok []
     | Some c \<Rightarrow> bind_o (collect_components n self) (\<lambda>cs. Ok (c # cs)))"

section \<open>What the components of a path are\<close>

definition component_of :: "bytes \<Rightarrow> Component" where
  "component_of c = (if c = [0x2e] then CurDir else if c = [0x2e, 0x2e] then ParentDir else Normal c)"

definition path_components :: "Path \<Rightarrow> Component list" where
  "path_components p =
     (if Path_is_absolute p then [RootDir] else []) @ map component_of (filter (\<lambda>c. c \<noteq> []) (split_sep p))"

section \<open>Splitting at separators\<close>

lemma split_sep_not_Nil [simp]: "split_sep bs \<noteq> []"
  by (induction bs) (auto split: list.split)

lemma split_sep_append: "split_sep (xs @ SEPARATOR # ys) = split_sep xs @ split_sep ys"
proof (induction xs)
  case (Cons x xs)
  then show ?case by (cases "split_sep xs") auto
qed simp

lemma split_sep_none: "SEPARATOR \<notin> set bs \<Longrightarrow> split_sep bs = [bs]"
  by (induction bs) auto

lemma split_sep_set: "c \<in> set (split_sep bs) \<Longrightarrow> SEPARATOR \<notin> set c \<and> set c \<subseteq> set bs"
proof (induction bs arbitrary: c)
  case (Cons b bs)
  obtain d ds where s: "split_sep bs = d # ds" by (cases "split_sep bs") auto
  show ?case
  proof (cases "b = SEPARATOR")
    case True
    with Cons show ?thesis by auto
  next
    case False
    with Cons.prems s have "c = b # d \<or> c \<in> set ds" by auto
    with Cons.IH[of d] Cons.IH[of c] s False show ?thesis by auto
  qed
qed auto

lemma find_sep_None: "find_sep bs = None \<longleftrightarrow> SEPARATOR \<notin> set bs"
  by (induction bs) auto

lemma find_sep_Some:
  "find_sep bs = Some i \<Longrightarrow> i < length bs \<and> bs ! i = SEPARATOR \<and> SEPARATOR \<notin> set (take i bs)"
  by (induction bs arbitrary: i) (auto split: if_splits)

text \<open>The named components from an offset on.\<close>

definition names_from :: "bytes \<Rightarrow> Component list" where
  "names_from bs = map component_of (filter (\<lambda>c. c \<noteq> []) (split_sep bs))"

lemma names_from_Nil [simp]: "names_from [] = []"
  by (simp add: names_from_def)

lemma names_from_append: "names_from (xs @ SEPARATOR # ys) = names_from xs @ names_from ys"
  by (simp add: names_from_def split_sep_append)

lemma names_from_sep [simp]: "names_from (SEPARATOR # ys) = names_from ys"
  using names_from_append[of "[]"] by simp

lemma names_from_one: "SEPARATOR \<notin> set xs \<Longrightarrow> names_from xs = (if xs = [] then [] else [component_of xs])"
  by (simp add: names_from_def split_sep_none)

lemma path_components_eq: "path_components p = (if Path_is_absolute p then [RootDir] else []) @ names_from p"
  by (simp add: path_components_def names_from_def)

section \<open>The iterator over components\<close>

lemma skip_separators_spec:
  assumes "offset \<le> length path" and "length path \<le> usize_max"
  obtains offset' where "skip_separators path offset = Ok offset'" "offset \<le> offset'" "offset' \<le> length path"
    "names_from (drop offset' path) = names_from (drop offset path)"
    "offset' < length path \<Longrightarrow> path ! offset' \<noteq> SEPARATOR"
  using assms
proof (induction path offset arbitrary: thesis rule: skip_separators.induct)
  case (1 path offset)
  show ?case
  proof (cases "offset < length path \<and> path ! offset = SEPARATOR")
    case True
    then have a: "usize_add offset 1 = Some (offset + 1)" using "1.prems"(3) by (simp add: usize_add_def)
    have le: "offset + 1 \<le> length path" using True by simp
    have n: "names_from (drop (offset + 1) path) = names_from (drop offset path)"
      using True Cons_nth_drop_Suc[of offset path] by (metis Suc_eq_plus1 names_from_sep)
    from "1.IH"[OF True a _ le "1.prems"(3)] obtain offset' where o: "skip_separators path (offset + 1) = Ok offset'"
      "offset + 1 \<le> offset'" "offset' \<le> length path" "names_from (drop offset' path) = names_from (drop (offset + 1) path)"
      "offset' < length path \<Longrightarrow> path ! offset' \<noteq> SEPARATOR" by metis
    have s: "skip_separators path offset = skip_separators path (offset + 1)"
      using True a by (simp add: skip_separators.simps[of path offset])
    show ?thesis
      by (rule "1.prems"(1)[of offset']) (use o s n in \<open>simp_all\<close>)
  next
    case False
    show ?thesis
      by (rule "1.prems"(1)[of offset]) (use False "1.prems"(2) in \<open>auto simp: skip_separators.simps[of path offset]\<close>)
  qed
qed

text \<open>The first name of a rest that does not start with a separator: up to the next separator, if there is one.\<close>

lemma names_from_find_sep:
  assumes "d \<noteq> []" and "d ! 0 \<noteq> SEPARATOR"
  shows "find_sep d = None \<Longrightarrow> names_from d = [component_of d]"
    and "find_sep d = Some i \<Longrightarrow> 0 < i \<and> i < length d \<and> names_from d = component_of (take i d) # names_from (drop i d)"
proof -
  show "names_from d = [component_of d]" if "find_sep d = None"
    using that assms(1) by (simp add: names_from_one find_sep_None)
  assume f: "find_sep d = Some i"
  note i = find_sep_Some[OF f]
  have i0: "0 < i" using i assms by (cases i) auto
  have sep: "drop i d = SEPARATOR # drop (Suc i) d" using i by (metis Cons_nth_drop_Suc)
  then have split: "d = take i d @ SEPARATOR # drop (Suc i) d" by (metis append_take_drop_id)
  have "names_from d = component_of (take i d) # names_from (drop (Suc i) d)"
    by (subst split, subst names_from_append, subst names_from_one) (use i i0 assms(1) in auto)
  with i0 i sep show "0 < i \<and> i < length d \<and> names_from d = component_of (take i d) # names_from (drop i d)" by simp
qed

lemma Components_next_spec:
  assumes "off \<le> length path" and "length path \<le> usize_max" and "off \<noteq> 0 \<or> \<not> Path_is_absolute path"
  shows "(names_from (drop off path) = [] \<and> (\<exists>self. Components_next \<lparr>cs_path = path, cs_offset = off\<rparr> = Ok (None, self))) \<or>
     (\<exists>c off'. Components_next \<lparr>cs_path = path, cs_offset = off\<rparr> = Ok (Some c, \<lparr>cs_path = path, cs_offset = off'\<rparr>) \<and>
        off < off' \<and> off' \<le> length path \<and> names_from (drop off path) = c # names_from (drop off' path))"
proof (cases "off = length path")
  case True
  then show ?thesis by (simp add: Components_next_def)
next
  case False
  then have lt: "off < length path" using assms(1) by simp
  have na: "\<not> (off = 0 \<and> path ! 0 = SEPARATOR)" using assms(3) lt by (auto simp: Path_is_absolute_def)
  obtain o' where o: "skip_separators path off = Ok o'" "off \<le> o'" "o' \<le> length path"
    "names_from (drop o' path) = names_from (drop off path)" "o' < length path \<Longrightarrow> path ! o' \<noteq> SEPARATOR"
    using skip_separators_spec[OF assms(1,2)] by metis
  show ?thesis
  proof (cases "o' < length path")
    case F: False
    with o have "names_from (drop off path) = []" by (metis drop_all le_antisym names_from_Nil not_le_imp_less order_refl)
    with lt na o(1) F show ?thesis by (simp add: Components_next_def)
  next
    case T: True
    let ?d = "drop o' path"
    have d: "?d \<noteq> []" "?d ! 0 \<noteq> SEPARATOR" using T o(5)[OF T] by simp_all
    show ?thesis
    proof (cases "find_sep ?d")
      case None
      have "Components_next \<lparr>cs_path = path, cs_offset = off\<rparr> =
          Ok (Some (component_of ?d), \<lparr>cs_path = path, cs_offset = length path\<rparr>)"
        using lt na o(1) T None by (simp add: Components_next_def slice_def get_range_def component_of_def)
      with names_from_find_sep(1)[OF d None] o(4) lt show ?thesis by auto
    next
      case (Some i)
      from names_from_find_sep(2)[OF d Some] have n: "0 < i" "o' + i < length path"
        "names_from ?d = component_of (take i ?d) # names_from (drop (o' + i) path)"
        by (auto simp: less_diff_conv add.commute)
      have "Components_next \<lparr>cs_path = path, cs_offset = off\<rparr> =
          Ok (Some (component_of (take i ?d)), \<lparr>cs_path = path, cs_offset = o' + i\<rparr>)"
        using lt na o(1) T Some n(2) assms(2)
        by (simp add: Components_next_def slice_def get_range_def component_of_def usize_add_def)
      with n o(2,4) show ?thesis by auto
    qed
  qed
qed

lemma collect_components_spec:
  assumes "off \<le> length path" and "length path \<le> usize_max" and "off \<noteq> 0 \<or> \<not> Path_is_absolute path"
    and "length path - off < n"
  shows "collect_components n \<lparr>cs_path = path, cs_offset = off\<rparr> = Ok (names_from (drop off path))"
  using assms
proof (induction n arbitrary: off)
  case (Suc n)
  from Components_next_spec[OF Suc.prems(1-3)] show ?case
  proof (elim disjE exE conjE)
    fix c off' assume c: "Components_next \<lparr>cs_path = path, cs_offset = off\<rparr> = Ok (Some c, \<lparr>cs_path = path, cs_offset = off'\<rparr>)"
      "off < off'" "off' \<le> length path" "names_from (drop off path) = c # names_from (drop off' path)"
    have "collect_components n \<lparr>cs_path = path, cs_offset = off'\<rparr> = Ok (names_from (drop off' path))"
      by (rule Suc.IH) (use c Suc.prems in auto)
    with c show ?thesis by (simp del: bind_o_eq_Ok)
  qed (simp del: bind_o_eq_Ok)
qed simp

lemma collect_path_components:
  assumes "length p \<le> usize_max"
  shows "collect_components (length p + 2) (Path_components p) = Ok (path_components p)"
proof (cases "Path_is_absolute p")
  case False
  with collect_components_spec[of 0 p "length p + 2"] assms show ?thesis
    by (simp add: Path_components_def path_components_eq)
next
  case True
  then obtain q where p: "p = SEPARATOR # q" by (cases p) (auto simp: Path_is_absolute_def)
  have n: "Components_next (Path_components p) = Ok (Some RootDir, \<lparr>cs_path = p, cs_offset = 1\<rparr>)"
    by (simp add: Components_next_def Path_components_def p)
  have "collect_components (length p + 1) \<lparr>cs_path = p, cs_offset = 1\<rparr> = Ok (names_from (drop 1 p))"
    by (rule collect_components_spec) (use assms p in auto)
  with n True show ?thesis by (simp add: path_components_eq p del: bind_o_eq_Ok)
qed

section \<open>Properties\<close>

text \<open>C36: The iterator over the components of a path yields the root directory first if the path is absolute,
  and then one component for each nonempty piece between separators, in order, with the pieces \<open>.\<close> and
  \<open>..\<close> recognised; it never panics, and \<open>length + 2\<close> calls reach its end.\<close>

theorem components_correct:
  assumes "length p \<le> usize_max"
  shows "collect_components (length p + 2) (Path_components p) = Ok (path_components p)"
  by (rule collect_path_components[OF assms])

theorem components_correct_witness:
  "collect_components 9 (Path_components [0x2f, 0x61, 0x2f, 0x2f, 0x2e, 0x2e, 0x2f]) = Ok [RootDir, Normal [0x61], ParentDir]"
proof -
  let ?p = "[0x2f, 0x61, 0x2f, 0x2f, 0x2e, 0x2e, 0x2f] :: bytes"
  have "length ?p + 2 = 9" "length ?p \<le> usize_max" by (simp_all add: usize_max_def)
  moreover have "path_components ?p = [RootDir, Normal [0x61], ParentDir]" by code_simp
  ultimately show ?thesis using components_correct[of ?p] by metis
qed

text \<open>A valid path: no null byte, and no component over 255 bytes.\<close>

definition valid_path :: "bytes \<Rightarrow> bool" where
  "valid_path p \<longleftrightarrow> 0 \<notin> set p \<and> (\<forall>c \<in> set (split_sep p). length c \<le> 255)"

lemma Path_try_from_Ok: "Path_try_from p = Ok q \<longleftrightarrow> valid_path p \<and> q = p"
  by (fastforce simp: Path_try_from_def valid_path_def MAX_LEN_def not_less split: if_splits)

lemma Path_try_from_valid: "valid_path p \<Longrightarrow> Path_try_from p = Ok p"
  by (simp add: Path_try_from_Ok)

lemma Path_is_absolute_append: "p \<noteq> [] \<Longrightarrow> Path_is_absolute (p @ q) = Path_is_absolute p"
  by (simp add: Path_is_absolute_def nth_append)

lemma separator_not_null [simp]: "SEPARATOR \<noteq> 0" "0 \<noteq> SEPARATOR"
  by (simp_all add: SEPARATOR_def)

lemma valid_path_append: "valid_path (xs @ SEPARATOR # ys) \<longleftrightarrow> valid_path xs \<and> valid_path ys"
  by (auto simp: valid_path_def split_sep_append)

lemma joined:
  assumes "valid_path p" and "valid_path q" and "\<not> Path_is_absolute q" and "length q < usize_max"
  shows "\<exists>r. PathBuf_push p q = Ok r \<and> valid_path r \<and> names_from r = names_from p @ names_from q \<and>
     (p \<noteq> [] \<longrightarrow> Path_is_absolute r = Path_is_absolute p) \<and> (p = [] \<longrightarrow> r = q)"
proof -
  have push: "PathBuf_push p q = Ok (if p = [] then q else if last p = SEPARATOR then p @ q else p @ SEPARATOR # q)"
    using assms by (simp add: PathBuf_push_def Path_try_from_valid Let_def usize_add_def del: bind_o_eq_Ok)
  consider (empty) "p = []" | (sep) p' where "p = p' @ [SEPARATOR]" | (name) "p \<noteq> []" "last p \<noteq> SEPARATOR"
    by (metis append_butlast_last_id)
  then show ?thesis
  proof cases
    case sep
    have r: "PathBuf_push p q = Ok (p' @ SEPARATOR # q)" using push sep by simp
    have "valid_path p'" "names_from p = names_from p'"
      using assms(1) sep valid_path_append[of p' "[]"] names_from_append[of p' "[]"] by simp_all
    moreover have "Path_is_absolute (p' @ SEPARATOR # q) = Path_is_absolute p"
      using Path_is_absolute_append[of p q] sep by simp
    ultimately show ?thesis using r sep assms(2) by (simp add: valid_path_append names_from_append)
  next
    case name
    have r: "PathBuf_push p q = Ok (p @ SEPARATOR # q)" using push name by simp
    then show ?thesis
      using name assms(1,2) Path_is_absolute_append[of p "SEPARATOR # q"] by (simp add: valid_path_append names_from_append)
  qed (use push assms(2) in simp)
qed

text \<open>Joining two valid paths does not panic and gives a valid path: the second path itself if it is
  absolute, and otherwise the path whose components are those of the first followed by those of the
  second, with a separator added exactly when one is needed.\<close>

theorem join_correct:
  assumes "valid_path p" and "valid_path q" and "length q < usize_max"
  shows "\<exists>r. PathBuf_join p q = Ok r \<and> valid_path r \<and>
     (if Path_is_absolute q then r = q else path_components r = path_components p @ path_components q)"
proof (cases "Path_is_absolute q")
  case True
  then show ?thesis using assms by (simp add: PathBuf_join_def PathBuf_push_def Path_try_from_valid)
next
  case False
  from joined[OF assms(1,2) False assms(3)] obtain r where r: "PathBuf_push p q = Ok r" "valid_path r"
    "names_from r = names_from p @ names_from q" "p \<noteq> [] \<longrightarrow> Path_is_absolute r = Path_is_absolute p" "p = [] \<longrightarrow> r = q"
    by blast
  have "path_components r = path_components p @ path_components q"
  proof (cases "p = []")
    case True
    with r False show ?thesis by (simp add: path_components_eq) (simp add: Path_is_absolute_def)
  next
    case F: False
    with r False show ?thesis by (simp add: path_components_eq)
  qed
  with r False show ?thesis by (simp add: PathBuf_join_def)
qed

theorem join_correct_witness:
  "PathBuf_join [0x2f, 0x61] [0x62] = Ok [0x2f, 0x61, 0x2f, 0x62] \<and>
   path_components [0x2f, 0x61, 0x2f, 0x62] = path_components [0x2f, 0x61] @ path_components [0x62]"
proof -
  have v: "valid_path [0x2f, 0x61]" "valid_path [0x62]" by code_simp+
  have na: "\<not> Path_is_absolute [0x62]" by code_simp
  have j: "PathBuf_join [0x2f, 0x61] [0x62] = Ok [0x2f, 0x61, 0x2f, 0x62]"
    using na by (simp add: PathBuf_join_def PathBuf_push_def Path_try_from_valid[OF v(2)] Let_def usize_add_def
        usize_max_def SEPARATOR_def del: bind_o_eq_Ok)
  have l: "length [0x62 :: u8] < usize_max" by (simp add: usize_max_def)
  from join_correct[OF v l] na j show ?thesis by simp
qed

lemma component_of_Normal: "component_of c = Normal n \<Longrightarrow> n = c \<and> c \<noteq> [0x2e] \<and> c \<noteq> [0x2e, 0x2e]"
  by (auto simp: component_of_def split: if_splits)

lemma component_of_cases:
  obtains "component_of c = CurDir" "c = [0x2e]" | "component_of c = ParentDir" "c = [0x2e, 0x2e]" | "component_of c = Normal c"
  by (cases "c = [0x2e]"; cases "c = [0x2e, 0x2e]") (simp_all add: component_of_def)

lemma split_sep_mem: "b \<in> set bs \<Longrightarrow> b \<noteq> SEPARATOR \<Longrightarrow> \<exists>c \<in> set (split_sep bs). b \<in> set c"
proof (induction bs)
  case (Cons a bs)
  then show ?case by (cases "split_sep bs") (auto split: if_splits)
qed simp

lemma valid_path_names:
  "valid_path p \<longleftrightarrow> (\<forall>n. Normal n \<in> set (path_components p) \<longrightarrow> DirEntryName_try_from n = Ok n)"
proof
  show "\<forall>n. Normal n \<in> set (path_components p) \<longrightarrow> DirEntryName_try_from n = Ok n" if "valid_path p"
  proof (intro allI impI)
    fix n assume "Normal n \<in> set (path_components p)"
    then obtain c where c: "c \<in> set (split_sep p)" "c \<noteq> []" "component_of c = Normal n"
      by (auto simp: path_components_def split: if_splits)
    with component_of_Normal[OF c(3)] split_sep_set[OF c(1)] that show "DirEntryName_try_from n = Ok n"
      by (auto simp: DirEntryName_try_from_def valid_path_def MAX_LEN_def)
  qed
next
  assume names: "\<forall>n. Normal n \<in> set (path_components p) \<longrightarrow> DirEntryName_try_from n = Ok n"
  have c: "length c \<le> 255 \<and> 0 \<notin> set c" if "c \<in> set (split_sep p)" for c
  proof (cases "c = []")
    case False
    show ?thesis
    proof (cases rule: component_of_cases[of c])
      case 3
      then have "Normal c \<in> set (path_components p)" using that False by (force simp: path_components_def)
      with names have "DirEntryName_try_from c = Ok c" by blast
      then show ?thesis by (auto simp: DirEntryName_try_from_def MAX_LEN_def split: if_splits)
    qed auto
  qed simp
  with split_sep_mem[of 0 p] show "valid_path p" by (auto simp: valid_path_def)
qed

text \<open>C37: Calling the iterator over the components of a path until it returns nothing always ends without a
  panic. A path is accepted by the validation exactly if every normal component that the iterator makes, without
  checking it again, is a valid directory entry name: not empty, at most 255 bytes, without null bytes and
  separators. The root directory comes out at most once, first, and exactly for an absolute path.\<close>

theorem path_components_are_names:
  assumes "length p \<le> usize_max"
  shows "\<exists>cs. collect_components (length p + 2) (Path_components p) = Ok cs \<and>
     (Path_try_from p = Ok p \<longleftrightarrow> (\<forall>n. Normal n \<in> set cs \<longrightarrow> DirEntryName_try_from n = Ok n)) \<and>
     RootDir \<notin> set (tl cs) \<and> (RootDir \<in> set cs \<longleftrightarrow> Path_is_absolute p)"
proof -
  have "component_of c \<noteq> RootDir" for c by (simp add: component_of_def)
  then have "RootDir \<notin> set (map component_of cs)" for cs by (induction cs) (auto dest: sym)
  then have "RootDir \<notin> set (tl (path_components p)) \<and> (RootDir \<in> set (path_components p) \<longleftrightarrow> Path_is_absolute p)"
    by (auto simp: path_components_def map_tl[symmetric])
  with collect_path_components[OF assms] valid_path_names[of p] show ?thesis
    unfolding Path_try_from_Ok by blast
qed

theorem path_components_are_names_witness:
  "collect_components 10 (Path_components [0x2f, 0x2f, 0x61, 0x2f, 0x2e, 0x2e, 0x2f, 0x62]) =
     Ok [RootDir, Normal [0x61], ParentDir, Normal [0x62]] \<and>
   DirEntryName_try_from [0x61] = Ok [0x61] \<and> DirEntryName_try_from [0x62] = Ok [0x62]"
proof -
  let ?p = "[0x2f, 0x2f, 0x61, 0x2f, 0x2e, 0x2e, 0x2f, 0x62] :: bytes"
  have c: "collect_components 10 (Path_components ?p) = Ok [RootDir, Normal [0x61], ParentDir, Normal [0x62]]"
    "Path_try_from ?p = Ok ?p" by code_simp+
  have "length ?p + 2 = 10" "length ?p \<le> usize_max" by (simp_all add: usize_max_def)
  then obtain cs where cs: "collect_components 10 (Path_components ?p) = Ok cs"
    "Path_try_from ?p = Ok ?p \<longleftrightarrow> (\<forall>n. Normal n \<in> set cs \<longrightarrow> DirEntryName_try_from n = Ok n)"
    using path_components_are_names[of ?p] by metis
  from cs(1) c(1) have "cs = [RootDir, Normal [0x61], ParentDir, Normal [0x62]]" by (simp only: outcome.inject)
  with cs(2) c show ?thesis by (simp only: list.set insert_iff simp_thms)
qed

lemma name_buf_roundtrip:
  "DirEntryNameBuf_try_from bs = Ok buf \<Longrightarrow> DirEntryNameBuf_as_bytes buf = Ok bs \<and> length (nb_data buf) = 255"
  by (auto simp: DirEntryNameBuf_try_from_def DirEntryName_try_from_def DirEntryNameBuf_as_bytes_def MAX_LEN_def Let_def
      dest!: word_try_from_SomeD split: if_splits)

end
