(* ===== verification/Disk_Types.thy ===== *)
theory Disk_Types
  imports Errors
begin

text \<open>
  Small value types the components share: the block size (\<^verbatim>\<open>block_size.rs\<close>), the feature flags
  (\<^verbatim>\<open>features.rs\<close>), the checksum calculator (\<^verbatim>\<open>checksum.rs\<close>), label and UUID (\<^verbatim>\<open>label.rs\<close>,
  \<^verbatim>\<open>uuid.rs\<close>), the file type and metadata (\<^verbatim>\<open>file_type.rs\<close>, \<^verbatim>\<open>metadata.rs\<close>), and an extent
  (\<^verbatim>\<open>extent.rs\<close>).

  A \<open>bitflags!\<close> type is its word of bits; \<open>contains\<close> is the documented test that every bit of the
  argument is set. The CRC itself comes from the \<open>crc\<close> crate and is a parameter: a function of the
  initial value and of all the bytes fed to the digest, which is what the crate documents of an
  incremental digest.
\<close>

section \<open>Block size (\<^verbatim>\<open>block_size.rs\<close>)\<close>

text \<open>\<open>2u32.checked_pow(exp)\<close>.\<close>

definition checked_pow2 :: "u32 \<Rightarrow> u32 option" where
  "checked_pow2 exp = (if unat exp < 32 then Some (2 ^ unat exp) else None)"

text \<open>\<open>NonZero::new\<close>.\<close>

definition nonzero_new :: "'a::len word \<Rightarrow> 'a word option" where
  "nonzero_new w = (if w = 0 then None else Some w)"

definition BlockSize_from_superblock_value :: "u32 \<Rightarrow> (BlockSize option, 'e) outcome" where
  "BlockSize_from_superblock_value log_block_size =
     (case checked_add log_block_size 10 of
        None \<Rightarrow> Ok None
      | Some exp \<Rightarrow>
          (case checked_pow2 exp of
             None \<Rightarrow> Ok None
           | Some block_size \<Rightarrow> bind_o (unwrap (nonzero_new block_size)) (\<lambda>b. Ok (Some b))))"

definition BlockSize_to_u32 :: "BlockSize \<Rightarrow> u32" where
  "BlockSize_to_u32 self = self"

definition BlockSize_to_u64 :: "BlockSize \<Rightarrow> u64" where
  "BlockSize_to_u64 self = ucast self"

definition BlockSize_to_usize :: "BlockSize \<Rightarrow> usize" where
  "BlockSize_to_usize self = usize_from_u32 self"

text \<open>The guarantee the source states: a multiple of 1024 in \<open>1024..=2_147_483_648\<close>; it is in fact
  a power of two.\<close>

definition valid_block_size :: "BlockSize \<Rightarrow> bool" where
  "valid_block_size bs \<longleftrightarrow> (\<exists>k \<le> 21. unat bs = 2 ^ (k + 10))"

lemma valid_block_size_code [code]:
  "valid_block_size bs = list_ex (\<lambda>k. unat bs = 2 ^ (k + 10)) [0..<22]"
  by (auto simp: valid_block_size_def list_ex_iff)

lemma valid_block_size_bounds:
  assumes "valid_block_size bs"
  shows "1024 \<le> unat bs" "unat bs \<le> 2147483648" "1024 dvd unat bs" "bs \<noteq> 0"
proof -
  obtain k where k: "k \<le> 21" "unat bs = 2 ^ (k + 10)"
    using assms by (auto simp: valid_block_size_def)
  have "(2::nat) ^ 10 \<le> 2 ^ (k + 10)"
    by (rule power_increasing) simp_all
  moreover have "(2::nat) ^ (k + 10) \<le> 2 ^ 31"
    by (rule power_increasing) (use k in simp_all)
  moreover have "(2::nat) ^ 10 = 1024" "(2::nat) ^ 31 = 2147483648" by simp_all
  ultimately show "1024 \<le> unat bs" "unat bs \<le> 2147483648"
    using k by metis+
  have "(2::nat) ^ 10 dvd 2 ^ (k + 10)"
    by (rule le_imp_power_dvd) simp
  with k show "1024 dvd unat bs" by simp
  show "bs \<noteq> 0" using \<open>1024 \<le> unat bs\<close> by auto
qed

lemma valid_block_size_le_usize: "valid_block_size bs \<Longrightarrow> unat bs \<le> usize_max"
  using valid_block_size_bounds(2)[of bs] by (simp add: usize_max_def)

lemma unat_pow2_u32: "k < 32 \<Longrightarrow> unat (2 ^ k :: u32) = 2 ^ k"
proof -
  assume "k < 32"
  then have "(2::nat) ^ k < 2 ^ 32" by (rule power_strict_increasing) simp
  moreover have "(2 ^ k :: u32) = of_nat (2 ^ k)" by simp
  ultimately show ?thesis by (simp only: unat_of_nat) simp
qed

lemma BlockSize_from_superblock_value_eq:
  "BlockSize_from_superblock_value l =
   Ok (if unat l \<le> 21 then Some (2 ^ (unat l + 10)) else None)"
proof (cases "unat l \<le> 21")
  case True
  then have "checked_add l 10 = Some (l + 10)" and u: "unat (l + 10) = unat l + 10"
    by (auto simp: checked_add_def unat_word_ariths)
  with True show ?thesis
    by (auto simp: BlockSize_from_superblock_value_def checked_pow2_def nonzero_new_def)
next
  case False
  show ?thesis
  proof (cases "checked_add l 10")
    case None
    with False show ?thesis by (simp add: BlockSize_from_superblock_value_def)
  next
    case (Some e)
    then have "unat e = unat l + 10" by (auto dest: checked_add_SomeD)
    with False Some show ?thesis
      by (simp add: BlockSize_from_superblock_value_def checked_pow2_def)
  qed
qed

lemma BlockSize_from_superblock_value_valid:
  "BlockSize_from_superblock_value l = Ok (Some bs) \<Longrightarrow> valid_block_size bs"
  by (auto simp: BlockSize_from_superblock_value_eq valid_block_size_def unat_pow2_u32
      split: if_splits)

section \<open>Feature flags (\<^verbatim>\<open>features.rs\<close>)\<close>

type_synonym IncompatibleFeatures = u32
type_synonym ReadOnlyCompatibleFeatures = u32
type_synonym CompatibleFeatures = u32

text \<open>\<open>contains\<close> of a \<open>bitflags!\<close> type.\<close>

definition contains :: "'a::len word \<Rightarrow> 'a word \<Rightarrow> bool" where
  "contains flags f \<longleftrightarrow> flags AND f = f"

abbreviation (input) COMPRESSION :: IncompatibleFeatures where "COMPRESSION \<equiv> 0x1"
abbreviation (input) FILE_TYPE_IN_DIR_ENTRY :: IncompatibleFeatures where "FILE_TYPE_IN_DIR_ENTRY \<equiv> 0x2"
abbreviation (input) RECOVERY :: IncompatibleFeatures where "RECOVERY \<equiv> 0x4"
abbreviation (input) SEPARATE_JOURNAL_DEVICE :: IncompatibleFeatures where "SEPARATE_JOURNAL_DEVICE \<equiv> 0x8"
abbreviation (input) META_BLOCK_GROUPS :: IncompatibleFeatures where "META_BLOCK_GROUPS \<equiv> 0x10"
abbreviation (input) INCOMPAT_EXTENTS :: IncompatibleFeatures where "INCOMPAT_EXTENTS \<equiv> 0x40"
abbreviation (input) IS_64BIT :: IncompatibleFeatures where "IS_64BIT \<equiv> 0x80"
abbreviation (input) MULTIPLE_MOUNT_PROTECTION :: IncompatibleFeatures where "MULTIPLE_MOUNT_PROTECTION \<equiv> 0x100"
abbreviation (input) FLEXIBLE_BLOCK_GROUPS :: IncompatibleFeatures where "FLEXIBLE_BLOCK_GROUPS \<equiv> 0x200"
abbreviation (input) LARGE_EXTENDED_ATTRIBUTES_IN_INODES :: IncompatibleFeatures where
  "LARGE_EXTENDED_ATTRIBUTES_IN_INODES \<equiv> 0x400"
abbreviation (input) DATA_IN_DIR_ENTRY :: IncompatibleFeatures where "DATA_IN_DIR_ENTRY \<equiv> 0x1000"
abbreviation (input) CHECKSUM_SEED_IN_SUPERBLOCK :: IncompatibleFeatures where
  "CHECKSUM_SEED_IN_SUPERBLOCK \<equiv> 0x2000"
abbreviation (input) INCOMPAT_LARGE_DIRECTORIES :: IncompatibleFeatures where
  "INCOMPAT_LARGE_DIRECTORIES \<equiv> 0x4000"
abbreviation (input) DATA_IN_INODE :: IncompatibleFeatures where "DATA_IN_INODE \<equiv> 0x8000"
abbreviation (input) ENCRYPTED_INODES :: IncompatibleFeatures where "ENCRYPTED_INODES \<equiv> 0x10000"

text \<open>The union of all flags \<open>IncompatibleFeatures\<close> declares, in the order of the declaration.\<close>

definition IncompatibleFeatures_all :: IncompatibleFeatures where
  "IncompatibleFeatures_all =
     COMPRESSION OR FILE_TYPE_IN_DIR_ENTRY OR RECOVERY OR SEPARATE_JOURNAL_DEVICE
     OR META_BLOCK_GROUPS OR INCOMPAT_EXTENTS OR IS_64BIT OR MULTIPLE_MOUNT_PROTECTION
     OR FLEXIBLE_BLOCK_GROUPS OR LARGE_EXTENDED_ATTRIBUTES_IN_INODES OR DATA_IN_DIR_ENTRY
     OR CHECKSUM_SEED_IN_SUPERBLOCK OR INCOMPAT_LARGE_DIRECTORIES OR DATA_IN_INODE
     OR ENCRYPTED_INODES"

abbreviation (input) METADATA_CHECKSUMS :: ReadOnlyCompatibleFeatures where "METADATA_CHECKSUMS \<equiv> 0x400"
abbreviation (input) GROUP_DESCRIPTOR_CHECKSUMS :: ReadOnlyCompatibleFeatures where
  "GROUP_DESCRIPTOR_CHECKSUMS \<equiv> 0x10"
abbreviation (input) HAS_JOURNAL :: CompatibleFeatures where "HAS_JOURNAL \<equiv> 0x4"

section \<open>Checksums (\<^verbatim>\<open>checksum.rs\<close>)\<close>

text \<open>The CRC-32C of the \<open>crc\<close> crate: initial register value and data to digest value.\<close>

type_synonym crc_fn = "u32 \<Rightarrow> bytes \<Rightarrow> u32"

record Checksum =
  ck_initial :: u32
  ck_data :: bytes

definition Checksum_with_seed :: "u32 \<Rightarrow> Checksum" where
  "Checksum_with_seed seed = \<lparr>ck_initial = word_reverse seed, ck_data = []\<rparr>"

definition Checksum_new :: Checksum where
  "Checksum_new = Checksum_with_seed 0xffffffff"

definition Checksum_update :: "bytes \<Rightarrow> Checksum \<Rightarrow> Checksum" where
  "Checksum_update data self = self\<lparr>ck_data := ck_data self @ data\<rparr>"

definition Checksum_update_u32_be :: "u32 \<Rightarrow> Checksum \<Rightarrow> Checksum" where
  "Checksum_update_u32_be data self = Checksum_update (to_be_bytes data) self"

definition Checksum_update_u16_le :: "u16 \<Rightarrow> Checksum \<Rightarrow> Checksum" where
  "Checksum_update_u16_le data self = Checksum_update (to_le_bytes data) self"

definition Checksum_update_u32_le :: "u32 \<Rightarrow> Checksum \<Rightarrow> Checksum" where
  "Checksum_update_u32_le data self = Checksum_update (to_le_bytes data) self"

definition Checksum_finalize :: "crc_fn \<Rightarrow> Checksum \<Rightarrow> u32" where
  "Checksum_finalize crc self = crc (ck_initial self) (ck_data self) XOR (NOT 0)"

lemmas Checksum_defs = Checksum_with_seed_def Checksum_new_def Checksum_update_def
  Checksum_update_u32_be_def Checksum_update_u16_le_def Checksum_update_u32_le_def

section \<open>Label and UUID (\<^verbatim>\<open>label.rs\<close>, \<^verbatim>\<open>uuid.rs\<close>)\<close>

text \<open>Both are arrays of 16 bytes.\<close>

type_synonym Label = bytes
type_synonym Uuid = bytes

definition Label_as_bytes_up_to_first_null :: "Label \<Rightarrow> bytes" where
  "Label_as_bytes_up_to_first_null self =
     (case List.find (\<lambda>i. self ! i = 0) [0..<length self] of
        Some index \<Rightarrow> take index self
      | None \<Rightarrow> self)"

lemma Label_up_to_first_null_eq:
  "Label_as_bytes_up_to_first_null l = takeWhile (\<lambda>c. c \<noteq> 0) l"
proof (cases "List.find (\<lambda>i. l ! i = 0) [0..<length l]")
  case None
  then have "\<forall>i<length l. l ! i \<noteq> 0" by (auto simp: find_None_iff)
  then have "takeWhile (\<lambda>c. c \<noteq> 0) l = l"
    by (auto simp: takeWhile_eq_all_conv in_set_conv_nth)
  with None show ?thesis
    by (simp only: Label_as_bytes_up_to_first_null_def option.case)
next
  case (Some k)
  then have k: "k < length l" "l ! k = 0" "\<forall>j<k. l ! j \<noteq> 0"
    by (auto simp: find_Some_iff)
  then have "takeWhile (\<lambda>c. c \<noteq> 0) l = take k l"
    by (intro takeWhile_eq_take_P_nth) auto
  with Some show ?thesis by (simp add: Label_as_bytes_up_to_first_null_def)
qed

text \<open>\<open>{:02x}\<close> of a byte, and the textual form of a UUID.\<close>

definition hex_byte :: "u8 \<Rightarrow> string" where
  "hex_byte b = [''0123456789abcdef'' ! (unat b div 16), ''0123456789abcdef'' ! (unat b mod 16)]"

definition hex_range :: "Uuid \<Rightarrow> nat \<Rightarrow> nat \<Rightarrow> string" where
  "hex_range u a b = concat (map (\<lambda>i. hex_byte (u ! i)) [a..<b])"

definition Uuid_fmt :: "Uuid \<Rightarrow> string" where
  "Uuid_fmt self = hex_range self 0 4 @ ''-'' @ hex_range self 4 6 @ ''-'' @ hex_range self 6 8
     @ ''-'' @ hex_range self 8 10 @ ''-'' @ hex_range self 10 16"

section \<open>File type and metadata (\<^verbatim>\<open>file_type.rs\<close>, \<^verbatim>\<open>metadata.rs\<close>)\<close>

datatype FileType = BlockDevice | CharacterDevice | Directory | Fifo | Regular | Socket | Symlink

datatype FileTypeError = FileTypeError

definition FileType_from_dir_entry :: "u8 \<Rightarrow> (FileType, FileTypeError) outcome" where
  "FileType_from_dir_entry val =
     (if val = 1 then Ok Regular
      else if val = 2 then Ok Directory
      else if val = 3 then Ok CharacterDevice
      else if val = 4 then Ok BlockDevice
      else if val = 5 then Ok Fifo
      else if val = 6 then Ok Socket
      else if val = 7 then Ok Symlink
      else Err FileTypeError)"

abbreviation (input) S_IFIFO :: InodeMode where "S_IFIFO \<equiv> 0x1000"
abbreviation (input) S_IFCHR :: InodeMode where "S_IFCHR \<equiv> 0x2000"
abbreviation (input) S_IFDIR :: InodeMode where "S_IFDIR \<equiv> 0x4000"
abbreviation (input) S_IFBLK :: InodeMode where "S_IFBLK \<equiv> 0x6000"
abbreviation (input) S_IFREG :: InodeMode where "S_IFREG \<equiv> 0x8000"
abbreviation (input) S_IFLNK :: InodeMode where "S_IFLNK \<equiv> 0xA000"
abbreviation (input) S_IFSOCK :: InodeMode where "S_IFSOCK \<equiv> 0xC000"

definition FileType_try_from :: "InodeMode \<Rightarrow> (FileType, FileTypeError) outcome" where
  "FileType_try_from mode =
     (let mode = mode AND 0xf000 in
      if mode = S_IFIFO then Ok Fifo
      else if mode = S_IFCHR then Ok CharacterDevice
      else if mode = S_IFDIR then Ok Directory
      else if mode = S_IFBLK then Ok BlockDevice
      else if mode = S_IFREG then Ok Regular
      else if mode = S_IFLNK then Ok Symlink
      else if mode = S_IFSOCK then Ok Socket
      else Err FileTypeError)"

definition is_block_dev :: "FileType \<Rightarrow> bool" where "is_block_dev self \<longleftrightarrow> self = BlockDevice"
definition is_char_dev :: "FileType \<Rightarrow> bool" where "is_char_dev self \<longleftrightarrow> self = CharacterDevice"
definition is_dir :: "FileType \<Rightarrow> bool" where "is_dir self \<longleftrightarrow> self = Directory"
definition is_fifo :: "FileType \<Rightarrow> bool" where "is_fifo self \<longleftrightarrow> self = Fifo"
definition is_regular_file :: "FileType \<Rightarrow> bool" where "is_regular_file self \<longleftrightarrow> self = Regular"
definition is_socket :: "FileType \<Rightarrow> bool" where "is_socket self \<longleftrightarrow> self = Socket"
definition is_symlink :: "FileType \<Rightarrow> bool" where "is_symlink self \<longleftrightarrow> self = Symlink"

record Metadata =
  md_size_in_bytes :: u64
  md_mode :: InodeMode
  md_file_type :: FileType
  md_uid :: u32
  md_gid :: u32

definition Metadata_is_dir :: "Metadata \<Rightarrow> bool" where
  "Metadata_is_dir self = is_dir (md_file_type self)"

definition Metadata_is_symlink :: "Metadata \<Rightarrow> bool" where
  "Metadata_is_symlink self = is_symlink (md_file_type self)"

definition Metadata_len :: "Metadata \<Rightarrow> u64" where
  "Metadata_len self = md_size_in_bytes self"

text \<open>\<open>0o7777\<close> is \<open>0xfff\<close>.\<close>

definition Metadata_mode :: "Metadata \<Rightarrow> u16" where
  "Metadata_mode self = md_mode self AND 0xfff"

section \<open>Extents (\<^verbatim>\<open>extent.rs\<close>)\<close>

record Extent =
  ex_block_within_file :: FileBlockIndex
  ex_start_block :: FsBlockIndex
  ex_num_blocks :: u16

end
