(* ===== verification/Superblock.thy ===== *)
theory Superblock
  imports Disk_Types
begin

text \<open>
  The superblock (\<^verbatim>\<open>src/src/superblock.rs\<close>): the record of file system parameters, its parser with
  every validation step in the source's order, and the check of the incompatible features.
\<close>

record Superblock =
  sb_block_size :: BlockSize
  sb_blocks_count :: u64
  sb_inode_size :: u16
  sb_inodes_per_block_group :: u32
  sb_block_group_descriptor_size :: u16
  sb_num_block_groups :: u32
  sb_incompatible_features :: IncompatibleFeatures
  sb_read_only_compatible_features :: ReadOnlyCompatibleFeatures
  sb_checksum_seed :: u32
  sb_htree_hash_seed :: "u32 list"
  sb_journal_inode :: "InodeIndex option"
  sb_label :: Label
  sb_uuid :: Uuid

definition SIZE_IN_BYTES_ON_DISK :: usize where
  "SIZE_IN_BYTES_ON_DISK = 1024"

definition required_features :: IncompatibleFeatures where
  "required_features = FILE_TYPE_IN_DIR_ENTRY"

definition disallowed_features :: IncompatibleFeatures where
  "disallowed_features =
     COMPRESSION OR SEPARATE_JOURNAL_DEVICE OR META_BLOCK_GROUPS OR MULTIPLE_MOUNT_PROTECTION
     OR LARGE_EXTENDED_ATTRIBUTES_IN_INODES OR DATA_IN_DIR_ENTRY OR INCOMPAT_LARGE_DIRECTORIES
     OR DATA_IN_INODE"

text \<open>\<open>from_bits_retain\<close> keeps every bit, \<open>from_bits_truncate\<close> the declared ones, \<open>difference\<close> is
  the bits of the first that are not in the second.\<close>

definition check_incompat_features :: "u32 \<Rightarrow> (IncompatibleFeatures, IncompatibleKind) outcome" where
  "check_incompat_features s_feature_incompat =
     (let actual = s_feature_incompat;
          actual_known = s_feature_incompat AND IncompatibleFeatures_all in
      if actual \<noteq> actual_known then Err (UnsupportedFeatures (actual AND NOT actual_known))
      else
        (let present_required = actual AND required_features in
         if present_required \<noteq> required_features
         then Err (MissingRequiredFeatures (required_features AND NOT present_required))
         else
           (let present_disallowed = actual AND disallowed_features in
            if present_disallowed \<noteq> 0 then Err (UnsupportedFeatures present_disallowed)
            else Ok actual)))"

definition Superblock_from_bytes :: "crc_fn \<Rightarrow> bytes \<Rightarrow> Superblock result" where
  "Superblock_from_bytes crc bytes =
     bind_o (assert_o (SIZE_IN_BYTES_ON_DISK \<le> length bytes)) (\<lambda>_.
     bind_o (read_u32le bytes 0x4) (\<lambda>s_blocks_count_lo.
     bind_o (read_u32le bytes 0x14) (\<lambda>s_first_data_block.
     bind_o (read_u32le bytes 0x18) (\<lambda>s_log_block_size.
     bind_o (read_u32le bytes 0x20) (\<lambda>s_blocks_per_group.
     bind_o (read_u32le bytes 0x28) (\<lambda>s_inodes_per_group.
     bind_o (read_u16le bytes 0x38) (\<lambda>s_magic.
     bind_o (read_u16le bytes 0x58) (\<lambda>s_inode_size.
     bind_o (read_u32le bytes 0x5c) (\<lambda>s_feature_compat.
     bind_o (read_u32le bytes 0x60) (\<lambda>s_feature_incompat.
     bind_o (read_u32le bytes 0x64) (\<lambda>s_feature_ro_compat.
     bind_o (slice bytes 0x68 (0x68 + 16)) (\<lambda>s_uuid.
     bind_o (slice bytes 0x78 (0x78 + 16)) (\<lambda>s_volume_name.
     bind_o (read_u32le bytes 0xe0) (\<lambda>s_journal_inum.
     bind_o (read_u32le bytes 0xec) (\<lambda>s_hash_seed0.
     bind_o (read_u32le bytes (0xec + 4)) (\<lambda>s_hash_seed1.
     bind_o (read_u32le bytes (0xec + 8)) (\<lambda>s_hash_seed2.
     bind_o (read_u32le bytes (0xec + 12)) (\<lambda>s_hash_seed3.
     bind_o (read_u16le bytes 0xfe) (\<lambda>s_desc_size.
     bind_o (read_u32le bytes 0x150) (\<lambda>s_blocks_count_hi.
     bind_o (read_u32le bytes 0x270) (\<lambda>s_checksum_seed.
     bind_o (read_u32le bytes 0x3fc) (\<lambda>s_checksum.
     let blocks_count = u64_from_hilo s_blocks_count_hi s_blocks_count_lo in
     bind_o (BlockSize_from_superblock_value s_log_block_size) (\<lambda>opt_block_size.
     bind_o (ok_or (Corrupt InvalidBlockSize) opt_block_size) (\<lambda>block_size.
     bind_o (require (s_magic = 0xef53) (Corrupt SuperblockMagic)) (\<lambda>_.
     bind_o (map_err Incompatible (check_incompat_features s_feature_incompat)) (\<lambda>incompatible_features.
     let read_only_compatible_features = s_feature_ro_compat;
         compatible_features = s_feature_compat in
     bind_o (ok_or (Corrupt (FirstDataBlock s_first_data_block))
               (checked_sub blocks_count (ucast s_first_data_block))) (\<lambda>num_data_blocks.
     bind_o (ok_or (Corrupt BlocksPerGroup) (nonzero_new s_blocks_per_group)) (\<lambda>blocks_per_group.
     bind_o (ok_or (Corrupt TooManyBlockGroups)
               (word_try_from (div_ceil (unat num_data_blocks) (unat blocks_per_group)))) (\<lambda>num_block_groups.
     bind_o (ok_or (Corrupt InodesPerBlockGroup) (nonzero_new s_inodes_per_group)) (\<lambda>inodes_per_block_group.
     let block_group_descriptor_size =
           (if contains incompatible_features IS_64BIT then s_desc_size else 32) in
     bind_o (require (\<not> ucast s_inode_size > BlockSize_to_u32 block_size) (Corrupt InodeSize)) (\<lambda>_.
     bind_o (if contains compatible_features HAS_JOURNAL \<and> contains incompatible_features RECOVERY
             then bind_o (assert_o (\<not> contains incompatible_features SEPARATE_JOURNAL_DEVICE)) (\<lambda>_.
                  bind_o (ok_or (Corrupt JournalInode) (nonzero_new s_journal_inum)) (\<lambda>i. Ok (Some i)))
             else Ok None) (\<lambda>journal_inode.
     bind_o (if contains read_only_compatible_features METADATA_CHECKSUMS
             then bind_o (slice bytes 0 0x3fc) (\<lambda>data.
                  require (s_checksum = Checksum_finalize crc (Checksum_update data Checksum_new))
                    (Corrupt SuperblockChecksum))
             else Ok ()) (\<lambda>_.
     let checksum_seed =
           (if contains incompatible_features CHECKSUM_SEED_IN_SUPERBLOCK then s_checksum_seed
            else Checksum_finalize crc (Checksum_update s_uuid Checksum_new)) in
     Ok \<lparr>sb_block_size = block_size,
         sb_blocks_count = blocks_count,
         sb_inode_size = s_inode_size,
         sb_inodes_per_block_group = inodes_per_block_group,
         sb_block_group_descriptor_size = block_group_descriptor_size,
         sb_num_block_groups = num_block_groups,
         sb_incompatible_features = incompatible_features,
         sb_read_only_compatible_features = read_only_compatible_features,
         sb_checksum_seed = checksum_seed,
         sb_htree_hash_seed = [s_hash_seed0, s_hash_seed1, s_hash_seed2, s_hash_seed3],
         sb_journal_inode = journal_inode,
         sb_label = s_volume_name,
         sb_uuid = s_uuid\<rparr>)))))))))))))))))))))))))))))))))"

section \<open>Well-formed superblocks\<close>

text \<open>What every accepted superblock guarantees to the rest of the library.\<close>

definition supported_features :: "IncompatibleFeatures \<Rightarrow> bool" where
  "supported_features f \<longleftrightarrow>
     f AND IncompatibleFeatures_all = f \<and> contains f FILE_TYPE_IN_DIR_ENTRY \<and>
     f AND disallowed_features = 0"

definition valid_superblock :: "Superblock \<Rightarrow> bool" where
  "valid_superblock sb \<longleftrightarrow>
     valid_block_size (sb_block_size sb) \<and>
     unat (sb_inode_size sb) \<le> unat (sb_block_size sb) \<and>
     sb_inodes_per_block_group sb \<noteq> 0 \<and>
     supported_features (sb_incompatible_features sb) \<and>
     (\<not> contains (sb_incompatible_features sb) IS_64BIT \<longrightarrow> sb_block_group_descriptor_size sb = 32) \<and>
     length (sb_htree_hash_seed sb) = 4 \<and>
     sb_journal_inode sb \<noteq> Some 0 \<and>
     length (sb_label sb) = 16 \<and> length (sb_uuid sb) = 16"

lemma check_incompat_features_Ok:
  "check_incompat_features f = Ok g \<longleftrightarrow> g = f \<and> supported_features f"
  by (auto simp: check_incompat_features_def supported_features_def Let_def required_features_def
      contains_def)

lemma contains_disjoint:
  assumes "f AND d = 0" and "b AND d = b" and "b \<noteq> 0"
  shows "\<not> contains f b"
proof
  assume "contains f b"
  then have "b = (f AND b) AND d" using assms by (simp add: contains_def)
  also have "\<dots> = b AND (f AND d)" by (simp only: ac_simps)
  finally show False using assms by simp
qed

lemma supported_no_separate_journal: "supported_features f \<Longrightarrow> \<not> contains f SEPARATE_JOURNAL_DEVICE"
  by (rule contains_disjoint[of _ disallowed_features])
     (auto simp: supported_features_def disallowed_features_def)

lemma nonzero_new_Some [simp]: "nonzero_new w = Some v \<longleftrightarrow> v = w \<and> w \<noteq> 0"
  by (auto simp: nonzero_new_def)

lemma check_incompat_features_cases:
  obtains e where "check_incompat_features f = (if supported_features f then Ok f else Err e)"
proof -
  have "\<exists>e. \<not> supported_features f \<longrightarrow> check_incompat_features f = Err e"
    by (auto simp: check_incompat_features_def supported_features_def Let_def required_features_def
        contains_def)
  then show ?thesis using that check_incompat_features_Ok by metis
qed

lemma holds_bind_check_incompat [holds_intros]:
  "(\<And>e. \<not> supported_features f \<Longrightarrow> E (h e)) \<Longrightarrow> (supported_features f \<Longrightarrow> holds (g f) Q E) \<Longrightarrow>
   holds (bind_o (map_err h (check_incompat_features f)) g) Q E"
  by (rule check_incompat_features_cases[of f]) auto

lemma holds_bind_from_superblock_value [holds_intros]:
  "holds (f None) Q E \<Longrightarrow> (\<And>bs. valid_block_size bs \<Longrightarrow> holds (f (Some bs)) Q E) \<Longrightarrow>
   holds (bind_o (BlockSize_from_superblock_value l) f) Q E"
  using BlockSize_from_superblock_value_valid[of l]
  by (auto simp: BlockSize_from_superblock_value_eq)

lemma Superblock_from_bytes_valid:
  assumes "1024 \<le> length bs"
  shows "holds (Superblock_from_bytes crc bs) valid_superblock (\<lambda>_. True)"
  unfolding Superblock_from_bytes_def
  apply (intro holds_intros)
  using assms
  apply (simp_all add: SIZE_IN_BYTES_ON_DISK_def usize_max_def valid_superblock_def
      supported_no_separate_journal not_less BlockSize_to_u32_def)
  done

section \<open>Properties\<close>

text \<open>The facts about the accepted bytes: the magic number, the coverage of the data blocks by
  the block groups, and the verified checksum.\<close>

definition superblock_describes :: "crc_fn \<Rightarrow> bytes \<Rightarrow> Superblock \<Rightarrow> bool" where
  "superblock_describes crc bs sb \<longleftrightarrow>
     u16le_at bs 0x38 = 0xef53 \<and>
     sb_incompatible_features sb = u32le_at bs 0x60 \<and>
     unat (u32le_at bs 0x14) \<le> unat (sb_blocks_count sb) \<and>
     (let data = unat (sb_blocks_count sb) - unat (u32le_at bs 0x14);
          per_group = unat (u32le_at bs 0x20) in
      data \<le> unat (sb_num_block_groups sb) * per_group \<and>
      unat (sb_num_block_groups sb) * per_group < data + per_group) \<and>
     (contains (u32le_at bs 0x64) METADATA_CHECKSUMS \<longrightarrow>
        u32le_at bs 0x3fc =
          Checksum_finalize crc \<lparr>ck_initial = word_reverse 0xffffffff, ck_data = take 0x3fc bs\<rparr>) \<and>
     (sb_journal_inode sb \<noteq> None \<longleftrightarrow>
        contains (u32le_at bs 0x5c) HAS_JOURNAL \<and> contains (u32le_at bs 0x60) RECOVERY)"

lemma div_ceil_cover:
  assumes "word_try_from (div_ceil a b) = Some (w :: u32)" and "0 < b"
  shows "a \<le> unat w * b \<and> unat w * b < a + b"
  using div_ceil_bounds[OF assms(2), of a] word_try_from_SomeD[OF assms(1)] by auto

lemma Superblock_from_bytes_describes:
  assumes "1024 \<le> length bs"
  shows "holds (Superblock_from_bytes crc bs) (superblock_describes crc bs)
    (\<lambda>e. \<exists>k. e = Corrupt k \<or> (\<exists>i. e = Incompatible i))"
  unfolding Superblock_from_bytes_def
  apply (intro holds_intros)
  using assms
  apply (simp_all add: SIZE_IN_BYTES_ON_DISK_def usize_max_def superblock_describes_def
      supported_no_separate_journal not_less Checksum_defs Let_def)
  apply (auto dest!: checked_sub_SomeD div_ceil_cover simp: unsigned_eq_0_iff)
  done

text \<open>C23: Parsing 1024 bytes never panics. An accepted superblock satisfies the well-formedness that
  the rest of the library relies on (a block size that is a power of two between 1 KiB and 2 GiB, an
  inode size that fits in a block, a nonzero number of inodes per group, supported features only), has
  the magic number, a number of block groups that covers the data blocks with fewer than one group to
  spare, a journal inode exactly when the journal needs recovery, and, when metadata checksums are
  enabled, the stored checksum of its first 1020 bytes. Everything else is refused with a corruption
  or an incompatibility error.\<close>

theorem superblock_parse_sound:
  assumes "1024 \<le> length bs"
  shows "holds (Superblock_from_bytes crc bs)
    (\<lambda>sb. valid_superblock sb \<and> superblock_describes crc bs sb)
    (\<lambda>e. \<exists>k. e = Corrupt k \<or> (\<exists>i. e = Incompatible i))"
  using Superblock_from_bytes_valid[OF assms, of crc] Superblock_from_bytes_describes[OF assms, of crc]
  by (cases "Superblock_from_bytes crc bs") auto

text \<open>A small superblock: 1 KiB blocks, 16 blocks, one block group, 128-byte inodes.\<close>

definition sample_superblock_bytes :: bytes where
  "sample_superblock_bytes =
     (replicate 1024 0)[0x4 := 16, 0x14 := 1, 0x21 := 0x20, 0x28 := 16, 0x38 := 0x53, 0x39 := 0xef,
       0x58 := 128, 0x60 := 0x2]"

definition sample_superblock :: Superblock where
  "sample_superblock =
     \<lparr>sb_block_size = 1024, sb_blocks_count = 16, sb_inode_size = 128, sb_inodes_per_block_group = 16,
      sb_block_group_descriptor_size = 32, sb_num_block_groups = 1, sb_incompatible_features = 2,
      sb_read_only_compatible_features = 0, sb_checksum_seed = 0xffffffff,
      sb_htree_hash_seed = [0, 0, 0, 0], sb_journal_inode = None, sb_label = replicate 16 0,
      sb_uuid = replicate 16 0\<rparr>"

lemma sample_superblock_parses:
  "Superblock_from_bytes (\<lambda>_ _. 0) sample_superblock_bytes = Ok sample_superblock"
proof -
  have len: "length sample_superblock_bytes = 1024"
    by (simp add: sample_superblock_bytes_def)
  have nth: "i < 1024 \<Longrightarrow> sample_superblock_bytes ! i =
      (if i = 0x4 then 16 else if i = 0x14 then 1 else if i = 0x21 then 0x20 else if i = 0x28 then 16
       else if i = 0x38 then 0x53 else if i = 0x39 then 0xef else if i = 0x58 then 128
       else if i = 0x60 then 2 else 0)" for i
    by (simp add: sample_superblock_bytes_def nth_list_update)
  have z: "take 16 (drop 0x68 sample_superblock_bytes) = replicate 16 0"
      "take 16 (drop 0x78 sample_superblock_bytes) = replicate 16 0"
    by (rule nth_equalityI; simp add: len nth)+
  show ?thesis
    unfolding Superblock_from_bytes_def
    by (simp add: len u32le_at_nth u16le_at_nth nth usize_max_def SIZE_IN_BYTES_ON_DISK_def
        assert_o_def slice_def get_range_def require_def Let_def BlockSize_from_superblock_value_eq
        check_incompat_features_def IncompatibleFeatures_all_def required_features_def
        disallowed_features_def contains_def nonzero_new_def checked_sub_def word_try_from_def
        div_ceil_def u64_from_hilo_def Checksum_defs Checksum_finalize_def BlockSize_to_u32_def
        z sample_superblock_def
        cong: bind_o_weak_cong del: bind_o_eq_Ok)
qed

theorem superblock_parse_sound_witness:
  "Superblock_from_bytes (\<lambda>_ _. 0) sample_superblock_bytes = Ok sample_superblock \<and>
   valid_superblock sample_superblock \<and> superblock_describes (\<lambda>_ _. 0) sample_superblock_bytes sample_superblock"
  using superblock_parse_sound[of sample_superblock_bytes "\<lambda>_ _. 0"] sample_superblock_parses
  by (simp add: sample_superblock_bytes_def)

text \<open>The feature check accepts exactly the words in which every bit is a declared feature, the
  file-type-in-directory-entry feature is present and no unsupported feature is, and it returns the
  word unchanged; a refusal for an unsupported feature names only bits that are set and not
  supported.\<close>

theorem check_incompat_features_exact:
  "check_incompat_features f =
     (if supported_features f then Ok f
      else if f AND NOT IncompatibleFeatures_all \<noteq> 0
      then Err (UnsupportedFeatures (f AND NOT IncompatibleFeatures_all))
      else if \<not> contains f FILE_TYPE_IN_DIR_ENTRY then Err (MissingRequiredFeatures FILE_TYPE_IN_DIR_ENTRY)
      else Err (UnsupportedFeatures (f AND disallowed_features)))"
proof -
  have all: "f AND IncompatibleFeatures_all = f \<longleftrightarrow> f AND NOT IncompatibleFeatures_all = 0"
    by (auto simp: bit_eq_iff bit_and_iff bit_not_iff dest: bit_imp_le_length)
  have dif: "f AND NOT (f AND IncompatibleFeatures_all) = f AND NOT IncompatibleFeatures_all"
    by (auto simp: bit_eq_iff bit_and_iff bit_or_iff bit_not_iff)
  have "f AND 2 = (if bit f 1 then 2 else 0)"
    by (rule bit_eqI) (auto simp: bit_and_iff bit_2_iff)
  then have req: "f AND 2 \<noteq> 2 \<Longrightarrow> f AND 2 = 0" by (simp split: if_splits)
  have "NOT (f AND 2) = NOT f OR - 3" by simp
  then have two: "2 AND (NOT f OR - 3) = 2" if "f AND 2 = 0" using that by (metis and.right_neutral bit.compl_zero)
  show ?thesis
    using all dif req two
    by (auto simp: check_incompat_features_def supported_features_def Let_def required_features_def contains_def)
qed

end
