(* ===== verification/Dir_Hash.thy ===== *)
theory Dir_Hash
  imports Paths Superblock
begin

text \<open>
  The hashes of directory entry names (\<^verbatim>\<open>src/src/dir_entry_hash.rs\<close>): the cut-down MD4 and the TEA scheme.
  The arithmetic wraps around at 32 bits, as \<open>Wrapping<u32>\<close> does. A state block is a quadruple of words; the
  accesses to the input block keep their bounds checks. The code is shown to compute \<open>dir_hash\<close>, the hash of the
  format as a function of the name that is written independently of it.
\<close>

unbundle bit_operations_syntax

section \<open>The code\<close>

datatype HashAlg = HalfMd4 | Tea

definition HashAlg_from_u8 :: "u8 \<Rightarrow> HashAlg result" where
  "HashAlg_from_u8 alg =
     (if alg = 1 then Ok HalfMd4 else if alg = 2 then Ok Tea else Err (Incompatible (DirectoryHash alg)))"

type_synonym StateBlock = "u32 \<times> u32 \<times> u32 \<times> u32"
type_synonym HashBlock = "u32 list"

text \<open>\<open>for i in xs { ... }\<close> over a state that the body updates and may fail to.\<close>

fun fold_o :: "('x \<Rightarrow> 's \<Rightarrow> ('s, 'e) outcome) \<Rightarrow> 'x list \<Rightarrow> 's \<Rightarrow> ('s, 'e) outcome" where
  "fold_o f [] s = Ok s"
| "fold_o f (x # xs) s = bind_o (f x s) (fold_o f xs)"

text \<open>\<open>data[i.checked_add(n).unwrap()]\<close>.\<close>

definition data_at :: "HashBlock \<Rightarrow> usize \<Rightarrow> usize \<Rightarrow> u32 result" where
  "data_at data i n = bind_o (unwrap (usize_add i n)) (index_at data)"

definition md4_f :: "u32 \<Rightarrow> u32 \<Rightarrow> u32 \<Rightarrow> u32" where
  "md4_f x y z = z XOR (x AND (y XOR z))"

definition md4_g :: "u32 \<Rightarrow> u32 \<Rightarrow> u32 \<Rightarrow> u32" where
  "md4_g x y z = (x AND y) OR (x AND z) OR (y AND z)"

definition md4_h :: "u32 \<Rightarrow> u32 \<Rightarrow> u32 \<Rightarrow> u32" where
  "md4_h x y z = x XOR y XOR z"

definition md4_op :: "(u32 \<Rightarrow> u32 \<Rightarrow> u32 \<Rightarrow> u32) \<Rightarrow> u32 \<Rightarrow> u32 \<Rightarrow> u32 \<Rightarrow> u32 \<Rightarrow> u32 \<Rightarrow> nat \<Rightarrow> u32" where
  "md4_op f a b c d k s = (let t = a + f b c d + k in word_rotl s t)"

definition md4_k1 :: u32 where
  "md4_k1 = 0x5a827999"

definition md4_k2 :: u32 where
  "md4_k2 = 0x6ed9eba1"

definition md4_round_1 :: "HashBlock \<Rightarrow> usize \<Rightarrow> StateBlock \<Rightarrow> StateBlock result" where
  "md4_round_1 data i = (\<lambda>(a, b, c, d).
     bind_o (index_at data i) (\<lambda>k0. let a = md4_op md4_f a b c d k0 3 in
     bind_o (data_at data i 1) (\<lambda>k1. let d = md4_op md4_f d a b c k1 7 in
     bind_o (data_at data i 2) (\<lambda>k2. let c = md4_op md4_f c d a b k2 11 in
     bind_o (data_at data i 3) (\<lambda>k3. let b = md4_op md4_f b c d a k3 19 in
     Ok (a, b, c, d))))))"

definition md4_round_2 :: "HashBlock \<Rightarrow> usize \<Rightarrow> StateBlock \<Rightarrow> StateBlock result" where
  "md4_round_2 data i = (\<lambda>(a, b, c, d).
     bind_o (index_at data i) (\<lambda>k0. let a = md4_op md4_g a b c d (k0 + md4_k1) 3 in
     bind_o (data_at data i 2) (\<lambda>k1. let d = md4_op md4_g d a b c (k1 + md4_k1) 5 in
     bind_o (data_at data i 4) (\<lambda>k2. let c = md4_op md4_g c d a b (k2 + md4_k1) 9 in
     bind_o (data_at data i 6) (\<lambda>k3. let b = md4_op md4_g b c d a (k3 + md4_k1) 13 in
     Ok (a, b, c, d))))))"

definition md4_round_3 :: "HashBlock \<Rightarrow> usize \<Rightarrow> StateBlock \<Rightarrow> StateBlock result" where
  "md4_round_3 data i = (\<lambda>(a, b, c, d).
     bind_o (data_at data i 1) (\<lambda>k0. let a = md4_op md4_h a b c d (k0 + md4_k2) 3 in
     bind_o (data_at data i 5) (\<lambda>k1. let d = md4_op md4_h d a b c (k1 + md4_k2) 9 in
     bind_o (index_at data i) (\<lambda>k2. let c = md4_op md4_h c d a b (k2 + md4_k2) 11 in
     bind_o (data_at data i 4) (\<lambda>k3. let b = md4_op md4_h b c d a (k3 + md4_k2) 15 in
     Ok (a, b, c, d))))))"

definition md4_half :: "HashBlock \<Rightarrow> StateBlock \<Rightarrow> StateBlock result" where
  "md4_half data state =
     bind_o (fold_o (md4_round_1 data) [0, 4] state) (\<lambda>s1.
     bind_o (fold_o (md4_round_2 data) [1, 0] s1) (\<lambda>s2.
     bind_o (fold_o (md4_round_3 data) [2, 0] s2) (\<lambda>(a, b, c, d).
     case state of (s0, s1, s2, s3) \<Rightarrow> Ok (s0 + a, s1 + b, s2 + c, s3 + d))))"

definition tea_round :: "HashBlock \<Rightarrow> u32 \<times> u32 \<times> u32 \<Rightarrow> (u32 \<times> u32 \<times> u32) result" where
  "tea_round data = (\<lambda>(sum, v0, v1).
     let sum = sum + 0x9e3779b9 in
     bind_o (index_at data 0) (\<lambda>d0. bind_o (index_at data 1) (\<lambda>d1.
     let v0 = v0 + ((push_bit 4 v1 + d0) XOR (v1 + sum) XOR (drop_bit 5 v1 + d1)) in
     bind_o (index_at data 2) (\<lambda>d2. bind_o (index_at data 3) (\<lambda>d3.
     let v1 = v1 + ((push_bit 4 v0 + d2) XOR (v0 + sum) XOR (drop_bit 5 v0 + d3)) in
     Ok (sum, v0, v1))))))"

definition tea :: "HashBlock \<Rightarrow> StateBlock \<Rightarrow> StateBlock result" where
  "tea data state =
     (case state of (s0, s1, s2, s3) \<Rightarrow>
      bind_o (fold_o (\<lambda>_. tea_round data) [0..<16] (0, s0, s1)) (\<lambda>(sum, v0, v1).
      Ok (s0 + v0, s1 + v1, s2, s3)))"

definition sign_extend_byte_to_u32 :: "u8 \<Rightarrow> u32" where
  "sign_extend_byte_to_u32 byte = scast byte"

text \<open>The inner loop of \<open>create_hash_block\<close>: up to four bytes of \<open>src\<close>; it returns the rest of \<open>src\<close>.\<close>

fun hash_elem :: "nat \<Rightarrow> u32 \<Rightarrow> bytes \<Rightarrow> u32 \<times> bytes" where
  "hash_elem 0 elem src = (elem, src)"
| "hash_elem (Suc k) elem [] = hash_elem k elem []"
| "hash_elem (Suc k) elem (src_byte # src) =
     hash_elem k (sign_extend_byte_to_u32 src_byte + push_bit 8 elem) src"

fun hash_elems :: "nat \<Rightarrow> u32 \<Rightarrow> bytes \<Rightarrow> HashBlock" where
  "hash_elems 0 pad src = []"
| "hash_elems (Suc n) pad src = (case hash_elem 4 pad src of (elem, src) \<Rightarrow> elem # hash_elems n pad src)"

definition create_hash_block :: "nat \<Rightarrow> bytes \<Rightarrow> HashBlock" where
  "create_hash_block n src =
     (let pad = from_le_bytes (replicate 4 (of_nat (length src))) in hash_elems n pad src)"

text \<open>\<open>slice::chunks\<close>: the last chunk may be short.\<close>

function chunks :: "nat \<Rightarrow> 'a list \<Rightarrow> 'a list list" where
  "chunks n xs = (if xs = [] \<or> n = 0 then [] else take n xs # chunks n (drop n xs))"
  by pat_completeness auto
termination
  by (relation "measure (length \<circ> snd)") auto

declare chunks.simps [simp del]

definition default_seed :: "u32 list" where
  "default_seed = [0x67452301, 0xefcdab89, 0x98badcfe, 0x10325476]"

definition HashAlg_hash :: "HashAlg \<Rightarrow> DirEntryName \<Rightarrow> u32 list \<Rightarrow> u32 result" where
  "HashAlg_hash self name seed =
     (let seed = (if seed = replicate 4 0 then default_seed else seed) in
      bind_o (index_at seed 0) (\<lambda>s0. bind_o (index_at seed 1) (\<lambda>s1.
      bind_o (index_at seed 2) (\<lambda>s2. bind_o (index_at seed 3) (\<lambda>s3.
      bind_o (case self of
          HalfMd4 \<Rightarrow>
            bind_o (fold_o (\<lambda>chunk state. let inp = create_hash_block 8 chunk in md4_half inp state)
              (chunks 32 name) (s0, s1, s2, s3)) (\<lambda>(a, b, c, d). Ok b)
        | Tea \<Rightarrow>
            bind_o (fold_o (\<lambda>chunk state. let inp = create_hash_block 4 chunk in tea inp state)
              (chunks 16 name) (s0, s1, s2, s3)) (\<lambda>(a, b, c, d). Ok a)) (\<lambda>hash.
      Ok (hash AND NOT 1)))))))"

section \<open>Hashing is total\<close>

lemma fold_o_total:
  assumes "\<And>x s. x \<in> set xs \<Longrightarrow> \<exists>s'. f x s = Ok s'"
  shows "\<exists>s'. fold_o f xs s = Ok s'"
  using assms
proof (induction xs arbitrary: s)
  case (Cons x xs)
  then obtain s1 where "f x s = Ok s1" by force
  moreover from Cons obtain s2 where "fold_o f xs s1 = Ok s2" by fastforce
  ultimately show ?case by simp
qed simp

lemma length_hash_elems [simp]: "length (hash_elems n pad src) = n"
  by (induction n arbitrary: src) (auto split: prod.split)

lemma length_create_hash_block [simp]: "length (create_hash_block n src) = n"
  by (simp add: create_hash_block_def)

lemma data_at_total: "i + n < length data \<Longrightarrow> length data \<le> 8 \<Longrightarrow> data_at data i n = Ok (data ! (i + n))"
  by (simp add: data_at_def usize_add_def usize_max_def)

lemma md4_rounds_total:
  assumes "length data = 8"
  shows "i \<le> 4 \<Longrightarrow> \<exists>s'. md4_round_1 data i s = Ok s'" "i \<le> 1 \<Longrightarrow> \<exists>s'. md4_round_2 data i s = Ok s'"
    "i \<le> 2 \<Longrightarrow> \<exists>s'. md4_round_3 data i s = Ok s'"
  using assms
  by (cases s; simp add: md4_round_1_def md4_round_2_def md4_round_3_def data_at_total Let_def)+

lemma md4_half_total:
  assumes "length data = 8"
  shows "\<exists>s'. md4_half data s = Ok s'"
proof -
  obtain s1 where 1: "fold_o (md4_round_1 data) [0, 4] s = Ok s1"
    using fold_o_total[of "[0, 4]" "md4_round_1 data" s] md4_rounds_total[OF assms] by fastforce
  obtain s2 where 2: "fold_o (md4_round_2 data) [1, 0] s1 = Ok s2"
    using fold_o_total[of "[1, 0]" "md4_round_2 data" s1] md4_rounds_total[OF assms] by fastforce
  obtain s3 where 3: "fold_o (md4_round_3 data) [2, 0] s2 = Ok s3"
    using fold_o_total[of "[2, 0]" "md4_round_3 data" s2] md4_rounds_total[OF assms] by fastforce
  from 1 2 3 show ?thesis
    by (cases s; cases s3) (simp add: md4_half_def del: fold_o.simps)
qed

lemma tea_total:
  assumes "length data = 4"
  shows "\<exists>s'. tea data s = Ok s'"
proof -
  obtain s0 s1 s2 s3 where s: "s = (s0, s1, s2, s3)" by (cases s)
  have "\<exists>t'. tea_round data t = Ok t'" for t using assms by (cases t) (simp add: tea_round_def Let_def)
  then obtain t where "fold_o (\<lambda>_. tea_round data) [0..<16] (0, s0, s1) = Ok t"
    using fold_o_total[of "[0..<16]" "\<lambda>_. tea_round data"] by blast
  then show ?thesis by (cases t) (simp add: tea_def s)
qed

text \<open>The input block: each word takes four bytes of the name.\<close>

lemma hash_elem_four:
  "hash_elem 4 pad (a # b # c # d # src) = (sign_extend_byte_to_u32 d + push_bit 8 (sign_extend_byte_to_u32 c +
     push_bit 8 (sign_extend_byte_to_u32 b + push_bit 8 (sign_extend_byte_to_u32 a + push_bit 8 pad))), src)"
  by (simp add: numeral_eq_Suc)

lemma hash_elem_foldl:
  "hash_elem k e src = (foldl (\<lambda>e b. sign_extend_byte_to_u32 b + push_bit 8 e) e (take k src), drop k src)"
  by (induction k e src rule: hash_elem.induct) simp_all

lemma hash_elems_nth:
  "k < n \<Longrightarrow> hash_elems n pad src ! k =
     foldl (\<lambda>e b. sign_extend_byte_to_u32 b + push_bit 8 e) pad (take 4 (drop (4 * k) src))"
proof (induction n arbitrary: k src)
  case (Suc n)
  then show ?case by (cases k) (auto simp: hash_elem_foldl add.commute)
qed simp

lemma HashAlg_hash_total:
  assumes "length seed = 4"
  shows "\<exists>h. HashAlg_hash alg name seed = Ok h \<and> \<not> bit h 0"
proof -
  let ?seed = "if seed = replicate 4 0 then default_seed else seed"
  have l: "length ?seed = 4" using assms by (simp add: default_seed_def)
  define s where "s = (?seed ! 0, ?seed ! 1, ?seed ! 2, ?seed ! 3)"
  obtain t where t: "fold_o (\<lambda>chunk state. let inp = create_hash_block 8 chunk in md4_half inp state) (chunks 32 name) s = Ok t"
    using fold_o_total[of "chunks 32 name" "\<lambda>chunk state. let inp = create_hash_block 8 chunk in md4_half inp state" s]
      md4_half_total by (auto simp: Let_def)
  obtain u where u: "fold_o (\<lambda>chunk state. let inp = create_hash_block 4 chunk in tea inp state) (chunks 16 name) s = Ok u"
    using fold_o_total[of "chunks 16 name" "\<lambda>chunk state. let inp = create_hash_block 4 chunk in tea inp state" s]
      tea_total by (auto simp: Let_def)
  have i: "index_at ?seed 0 = (Ok (?seed ! 0) :: u32 result)" "index_at ?seed 1 = (Ok (?seed ! 1) :: u32 result)"
    "index_at ?seed 2 = (Ok (?seed ! 2) :: u32 result)" "index_at ?seed 3 = (Ok (?seed ! 3) :: u32 result)"
    using l by simp_all
  show ?thesis
    using t u unfolding HashAlg_hash_def Let_def i bind_o.simps s_def
    by (cases alg; cases t; cases u) (simp_all add: bit_and_iff bit_not_iff)
qed

section \<open>The hashes as functions of the name\<close>

text \<open>
  The hashes of the format, written on their own: MD4 with rotating registers and a table of the order of the
  input words and of the shifts, TEA with the sum of a round as a multiple of the constant, and the words of
  the name by position. The code is shown to compute them, so that other theories can speak of the hash of a
  name without the code.
\<close>

definition md4_choose :: "u32 \<Rightarrow> u32 \<Rightarrow> u32 \<Rightarrow> u32" where
  "md4_choose x y z = (x AND y) OR (NOT x AND z)"

definition md4_majority :: "u32 \<Rightarrow> u32 \<Rightarrow> u32 \<Rightarrow> u32" where
  "md4_majority x y z = (x AND (y OR z)) OR (y AND z)"

definition md4_parity :: "u32 \<Rightarrow> u32 \<Rightarrow> u32 \<Rightarrow> u32" where
  "md4_parity x y z = x XOR y XOR z"

fun md4_step :: "(u32 \<Rightarrow> u32 \<Rightarrow> u32 \<Rightarrow> u32) \<Rightarrow> u32 \<Rightarrow> StateBlock \<Rightarrow> nat \<times> u32 \<Rightarrow> StateBlock" where
  "md4_step f k (a, b, c, d) (s, w) = (d, word_rotl s (a + f b c d + (w + k)), b, c)"

definition md4_pass :: "(u32 \<Rightarrow> u32 \<Rightarrow> u32 \<Rightarrow> u32) \<Rightarrow> u32 \<Rightarrow> nat list \<Rightarrow> nat list \<Rightarrow> HashBlock \<Rightarrow> StateBlock \<Rightarrow> StateBlock" where
  "md4_pass f k order shifts ws st = foldl (md4_step f k) st (zip (shifts @ shifts) (map ((!) ws) order))"

definition half_md4 :: "StateBlock \<Rightarrow> HashBlock \<Rightarrow> StateBlock" where
  "half_md4 st ws =
     (case md4_pass md4_parity 0x6ed9eba1 [3, 7, 2, 6, 1, 5, 0, 4] [3, 9, 11, 15] ws
       (md4_pass md4_majority 0x5a827999 [1, 3, 5, 7, 0, 2, 4, 6] [3, 5, 9, 13] ws
         (md4_pass md4_choose 0 [0, 1, 2, 3, 4, 5, 6, 7] [3, 7, 11, 19] ws st)) of (a, b, c, d) \<Rightarrow>
      case st of (s0, s1, s2, s3) \<Rightarrow> (s0 + a, s1 + b, s2 + c, s3 + d))"

definition tea_mix :: "u32 \<Rightarrow> u32 \<Rightarrow> u32 \<Rightarrow> u32 \<Rightarrow> u32" where
  "tea_mix s k l x = (16 * x + k) XOR (x + s) XOR (drop_bit 5 x + l)"

fun tea_first :: "HashBlock \<Rightarrow> u32 \<Rightarrow> u32 \<times> u32 \<Rightarrow> u32 \<times> u32" where
  "tea_first ws s (x, y) = (x + tea_mix s (ws ! 0) (ws ! 1) y, y)"

fun tea_second :: "HashBlock \<Rightarrow> u32 \<Rightarrow> u32 \<times> u32 \<Rightarrow> u32 \<times> u32" where
  "tea_second ws s (x, y) = (x, y + tea_mix s (ws ! 2) (ws ! 3) x)"

definition tea_rounds :: "HashBlock \<Rightarrow> nat \<Rightarrow> u32 \<times> u32 \<Rightarrow> u32 \<times> u32" where
  "tea_rounds ws n v =
     foldl (\<lambda>v s. tea_second ws s (tea_first ws s v)) v (map (\<lambda>r. of_nat r * 0x9e3779b9) [1..<n + 1])"

definition tea16 :: "StateBlock \<Rightarrow> HashBlock \<Rightarrow> StateBlock" where
  "tea16 st ws =
     (case st of (s0, s1, s2, s3) \<Rightarrow> case tea_rounds ws 16 (s0, s1) of (x, y) \<Rightarrow> (s0 + x, s1 + y, s2, s3))"

definition name_word :: "bytes \<Rightarrow> nat \<Rightarrow> u32" where
  "name_word chunk k =
     foldl (\<lambda>w b. 256 * w + scast b) (of_nat (length chunk) * 0x01010101) (take 4 (drop (4 * k) chunk))"

definition name_blocks :: "nat \<Rightarrow> bytes \<Rightarrow> u32 list list" where
  "name_blocks n name = map (\<lambda>i. map (name_word (take (4 * n) (drop (4 * n * i) name))) [0..<n])
     [0..<(length name + (4 * n - 1)) div (4 * n)]"

definition dir_hash :: "HashAlg \<Rightarrow> DirEntryName \<Rightarrow> u32 list \<Rightarrow> u32" where
  "dir_hash alg name seed =
     (let s = (if seed = [0, 0, 0, 0] then [0x67452301, 0xefcdab89, 0x98badcfe, 0x10325476] else seed);
          st = (s ! 0, s ! 1, s ! 2, s ! 3);
          word = (case alg of
            HalfMd4 \<Rightarrow> fst (snd (foldl half_md4 st (name_blocks 8 name)))
          | Tea \<Rightarrow> fst (foldl tea16 st (name_blocks 4 name))) in
      word AND NOT 1)"

lemma md4_functions: "md4_f = md4_choose" "md4_g = md4_majority" "md4_h = md4_parity"
proof -
  show "md4_f = md4_choose"
    by (intro ext bit_word_eqI) (auto simp: md4_f_def md4_choose_def bit_and_iff bit_or_iff bit_xor_iff bit_not_iff)
  show "md4_g = md4_majority"
    by (intro ext bit_word_eqI) (auto simp: md4_g_def md4_majority_def bit_and_iff bit_or_iff)
  show "md4_h = md4_parity" by (intro ext) (simp add: md4_h_def md4_parity_def)
qed

lemma md4_rounds_steps:
  assumes "length ws = 8"
  shows "i \<le> 4 \<Longrightarrow> md4_round_1 ws i st = Ok (foldl (md4_step md4_f 0) st
      (zip [3, 7, 11, 19] (map ((!) ws) [i, i + 1, i + 2, i + 3])))"
    "i \<le> 1 \<Longrightarrow> md4_round_2 ws i st = Ok (foldl (md4_step md4_g md4_k1) st
      (zip [3, 5, 9, 13] (map ((!) ws) [i, i + 2, i + 4, i + 6])))"
    "i \<le> 2 \<Longrightarrow> md4_round_3 ws i st = Ok (foldl (md4_step md4_h md4_k2) st
      (zip [3, 9, 11, 15] (map ((!) ws) [i + 1, i + 5, i, i + 4])))"
  using assms
  by (cases st; simp add: md4_round_1_def md4_round_2_def md4_round_3_def data_at_total md4_op_def Let_def)+

lemma md4_half_is: "length ws = 8 \<Longrightarrow> md4_half ws st = Ok (half_md4 st ws)"
  by (cases st) (simp add: md4_half_def half_md4_def md4_rounds_steps md4_pass_def md4_functions md4_k1_def md4_k2_def
      foldl_append[symmetric] numeral_2_eq_2 numeral_3_eq_3 split: prod.split del: foldl_Cons foldl_append)

lemma fold_o_append: "fold_o f (xs @ ys) s = bind_o (fold_o f xs s) (fold_o f ys)"
proof (induction xs arbitrary: s)
  case (Cons x xs)
  then show ?case by (cases "f x s") simp_all
qed simp

lemma fold_o_Ok: "(\<And>x s. x \<in> set xs \<Longrightarrow> f x s = Ok (g s x)) \<Longrightarrow> fold_o f xs s = Ok (foldl g s xs)"
  by (induction xs arbitrary: s) simp_all

lemma tea_rounds_fold:
  assumes "length ws = 4"
  shows "fold_o (\<lambda>_. tea_round ws) [0..<n] (0, v) = Ok (of_nat n * 0x9e3779b9, tea_rounds ws n v)"
proof (induction n)
  case (Suc n)
  obtain x y where v: "tea_rounds ws n v = (x, y)" by force
  then have "tea_rounds ws (Suc n) v =
      tea_second ws (of_nat (Suc n) * 0x9e3779b9) (tea_first ws (of_nat (Suc n) * 0x9e3779b9) (x, y))"
    by (simp add: tea_rounds_def)
  with v Suc assms show ?case
    by (simp add: fold_o_append tea_round_def tea_mix_def Let_def push_bit_eq_mult algebra_simps)
qed (simp add: tea_rounds_def)

lemma tea_is: "length ws = 4 \<Longrightarrow> tea ws st = Ok (tea16 st ws)"
  by (cases st) (simp add: tea_def tea16_def tea_rounds_fold split: prod.split)

lemma from_le_bytes_add: "from_le_bytes (b # bs) = (ucast b + 256 * from_le_bytes bs :: u32)"
proof -
  have "ucast b AND push_bit 8 (from_le_bytes bs) = (0 :: u32)"
    by (rule bit_word_eqI) (auto simp: bit_and_iff bit_push_bit_iff bit_ucast_iff dest: bit_imp_le_length)
  then show ?thesis using disjunctive_add_eq_or[of "ucast b :: u32" "push_bit 8 (from_le_bytes bs)"]
    by (simp add: push_bit_eq_mult mult.commute)
qed

lemma pad_word:
  assumes "n < 256"
  shows "from_le_bytes (replicate 4 (of_nat n)) = (of_nat n * 0x01010101 :: u32)"
proof -
  have "ucast (of_nat n :: u8) = (of_nat n :: u32)"
    using assms by (simp add: unsigned_of_nat take_bit_nat_eq_self)
  then show ?thesis by (simp add: numeral_eq_Suc from_le_bytes_add del: from_le_bytes.simps(2))
qed

lemma create_hash_block_is: "length chunk < 256 \<Longrightarrow> create_hash_block n chunk = map (name_word chunk) [0..<n]"
  by (rule nth_equalityI)
     (simp_all add: create_hash_block_def hash_elems_nth pad_word name_word_def sign_extend_byte_to_u32_def
        push_bit_eq_mult add.commute mult.commute)

lemma chunks_positions:
  assumes "0 < n"
  shows "chunks n xs = map (\<lambda>i. take n (drop (n * i) xs)) [0..<(length xs + (n - 1)) div n]"
proof (induction "length xs" arbitrary: xs rule: less_induct)
  case less
  show ?case
  proof (cases "xs = []")
    case False
    have k: "(length xs + (n - 1)) div n = Suc ((length xs - n + (n - 1)) div n)"
    proof (cases "n \<le> length xs")
      case True
      then have "length xs + (n - 1) = (length xs - n + (n - 1)) + n" by simp
      with assms show ?thesis by (simp only: div_add_self2)
    next
      case F: False
      then have "(length xs + (n - 1)) div n = 1" using False assms by (intro div_nat_eqI) (cases xs; simp)+
      with F assms show ?thesis by simp
    qed
    have "chunks n xs = take n xs # chunks n (drop n xs)" using False assms by (simp add: chunks.simps)
    also have "chunks n (drop n xs) =
        map (\<lambda>i. take n (drop (n * i) (drop n xs))) [0..<(length xs - n + (n - 1)) div n]"
      using less[of "drop n xs"] False assms by simp
    finally show ?thesis
      unfolding k upt_conv_Cons[OF zero_less_Suc] by (simp add: map_Suc_upt[symmetric] add.commute del: upt_Suc)
  qed (use assms in \<open>simp add: chunks.simps\<close>)
qed

lemma HashAlg_hash_is:
  assumes "length seed = 4"
  shows "HashAlg_hash alg name seed = Ok (dir_hash alg name seed)"
proof -
  let ?seed = "if seed = replicate 4 0 then default_seed else seed"
  define st where "st = (?seed ! 0, ?seed ! 1, ?seed ! 2, ?seed ! 3)"
  have l: "length ?seed = 4" using assms by (simp add: default_seed_def)
  have i: "index_at ?seed 0 = (Ok (?seed ! 0) :: u32 result)" "index_at ?seed 1 = (Ok (?seed ! 1) :: u32 result)"
    "index_at ?seed 2 = (Ok (?seed ! 2) :: u32 result)" "index_at ?seed 3 = (Ok (?seed ! 3) :: u32 result)"
    using l by simp_all
  have r: "replicate 4 0 = ([0, 0, 0, 0] :: u32 list)" by (simp add: numeral_eq_Suc)
  have m: "fold_o (\<lambda>chunk state. let inp = create_hash_block 8 chunk in md4_half inp state) (chunks 32 name) st =
      Ok (foldl half_md4 st (name_blocks 8 name))"
    unfolding name_blocks_def
    by (subst fold_o_Ok[where g = "\<lambda>st chunk. half_md4 st (map (name_word chunk) [0..<8])"])
       (auto simp: chunks_positions create_hash_block_is md4_half_is foldl_map)
  have t: "fold_o (\<lambda>chunk state. let inp = create_hash_block 4 chunk in tea inp state) (chunks 16 name) st =
      Ok (foldl tea16 st (name_blocks 4 name))"
    unfolding name_blocks_def
    by (subst fold_o_Ok[where g = "\<lambda>st chunk. tea16 st (map (name_word chunk) [0..<4])"])
       (auto simp: chunks_positions create_hash_block_is tea_is foldl_map)
  have d: "dir_hash alg name seed = (case alg of HalfMd4 \<Rightarrow> fst (snd (foldl half_md4 st (name_blocks 8 name)))
      | Tea \<Rightarrow> fst (foldl tea16 st (name_blocks 4 name))) AND NOT 1"
    unfolding dir_hash_def st_def r default_seed_def Let_def by (rule refl)
  show ?thesis
    unfolding HashAlg_hash_def Let_def[of "if seed = _ then _ else _"] i bind_o.simps st_def[symmetric] m t d
    by (cases alg) (simp_all split: prod.split)
qed

text \<open>A value of the test suite, which \<open>debugfs\<close> gives for the same name.\<close>

lemma dir_hash_abc: "dir_hash HalfMd4 [0x61, 0x62, 0x63] [0, 0, 0, 0] = 0xd196a868"
proof -
  have 8: "name_blocks 8 [0x61, 0x62, 0x63] = [[0x03616263, 0x03030303, 0x03030303, 0x03030303, 0x03030303, 0x03030303, 0x03030303, 0x03030303]]"
    by code_simp
  have m: "foldl half_md4 (0x67452301, 0xefcdab89, 0x98badcfe, 0x10325476)
      [[0x03616263, 0x03030303, 0x03030303, 0x03030303, 0x03030303, 0x03030303, 0x03030303, 0x03030303]] =
      (0x3c253978, 0xd196a869, 0xc420eb28, 0xd1fefc5a)" by code_simp
  show "dir_hash HalfMd4 [0x61, 0x62, 0x63] [0, 0, 0, 0] = 0xd196a868"
    unfolding dir_hash_def Let_def HashAlg.case 8 by (simp add: m del: foldl_Cons)
qed

section \<open>Properties\<close>

text \<open>Hashing a name with either algorithm and any seed of four words never panics, for a name of any
  length, and the lowest bit of the hash is zero: the format keeps that bit to mark collisions.\<close>

theorem hash_total_even:
  assumes "length seed = 4"
  shows "\<exists>h. HashAlg_hash alg name seed = Ok h \<and> \<not> bit h 0"
  by (rule HashAlg_hash_total[OF assms])

theorem hash_total_even_witness: "\<exists>h. HashAlg_hash HalfMd4 [0x61] [0, 0, 0, 0] = Ok h \<and> \<not> bit h 0"
  by (rule hash_total_even) simp

text \<open>The block of words that is hashed: word \<open>k\<close> is built from bytes \<open>4k\<close> to \<open>4k + 3\<close> of the input, shifted in
  one after another with their signs extended, over a padding word that repeats the length of the
  input; words past the end of the input are the padding word.\<close>

theorem create_hash_block_words:
  assumes "k < n"
  shows "create_hash_block n src ! k =
     foldl (\<lambda>e b. sign_extend_byte_to_u32 b + push_bit 8 e) (from_le_bytes (replicate 4 (of_nat (length src))))
       (take 4 (drop (4 * k) src))"
  using hash_elems_nth[OF assms] by (simp add: create_hash_block_def Let_def)

theorem create_hash_block_words_witness: "create_hash_block 8 [0x61, 0x62, 0x63] ! 0 = 0x03616263"
proof -
  have "foldl (\<lambda>e b. sign_extend_byte_to_u32 b + push_bit 8 e) (from_le_bytes (replicate 4 3)) [0x61, 0x62, 0x63] = 0x03616263"
    by code_simp
  then show ?thesis using create_hash_block_words[of 0 8 "[0x61, 0x62, 0x63]"] by simp
qed

end
