(* ===== verification/Reader.thy ===== *)
theory Reader
  imports Disk_Types
begin

text \<open>
  The storage interface (\<^verbatim>\<open>src/src/reader.rs\<close>). An \<open>Ext4Read\<close> is a function of the start byte and
  the length of the destination buffer: the bytes read into the buffer, or the reader's error. The
  crate documents that the data never changes while a file system is in use, so the function does
  not depend on earlier reads. The contract of the trait is the locale \<open>ext4_reader\<close>. The readers
  for \<open>Vec<u8>\<close> and for \<open>std::fs::File\<close> are defined here and satisfy it; the calls that the latter
  makes to the operating system are parameters.
\<close>

type_synonym Ext4Read = "u64 \<Rightarrow> usize \<Rightarrow> BoxedError + bytes"

text \<open>\<open>read_from_bytes\<close>: on success the destination holds the copied slice.\<close>

definition read_from_bytes :: "bytes \<Rightarrow> u64 \<Rightarrow> usize \<Rightarrow> bytes option" where
  "read_from_bytes src start_byte dst_len =
     (let start = unat start_byte in
      case usize_add start dst_len of
        None \<Rightarrow> None
      | Some end \<Rightarrow> get_range src start end)"

definition Vec_read :: "bytes \<Rightarrow> Ext4Read" where
  "Vec_read self start_byte dst_len =
     (case read_from_bytes self start_byte dst_len of
        Some bs \<Rightarrow> Inr bs
      | None \<Rightarrow> Inl (BoxedMemIo \<lparr>mio_start = start_byte, mio_read_len = dst_len,
                                mio_src_len = length self\<rparr>))"

text \<open>\<open>std::fs::File\<close>: the calls of the operating system are parameters, the file's own state is its
  position. A read may return fewer bytes than asked for; \<open>read_exact\<close> goes on until the buffer is
  full, and fails at the end of the file. (A read that is interrupted is repeated and does not
  count as a read.)\<close>

record HostFile =
  hf_seek :: "u64 \<Rightarrow> BoxedError + unit"
  hf_read :: "nat \<Rightarrow> usize \<Rightarrow> BoxedError + bytes"

definition UNEXPECTED_EOF :: BoxedError where
  "UNEXPECTED_EOF = BoxedOther ''failed to fill whole buffer''"

definition HostFile_seek :: "HostFile \<Rightarrow> u64 \<Rightarrow> nat \<Rightarrow> (BoxedError + unit) \<times> nat" where
  "HostFile_seek self start position =
     (case hf_seek self start of Inl e \<Rightarrow> (Inl e, position) | Inr _ \<Rightarrow> (Inr (), unat start))"

function HostFile_read_exact :: "HostFile \<Rightarrow> usize \<Rightarrow> nat \<Rightarrow> (BoxedError + bytes) \<times> nat" where
  "HostFile_read_exact self n position =
     (if n = 0 then (Inr [], position)
      else case hf_read self position n of
        Inl e \<Rightarrow> (Inl e, position)
      | Inr chunk \<Rightarrow>
          if chunk = [] then (Inl UNEXPECTED_EOF, position)
          else case HostFile_read_exact self (n - length chunk) (position + length chunk) of
            (Inl e, position) \<Rightarrow> (Inl e, position)
          | (Inr rest, position) \<Rightarrow> (Inr (chunk @ rest), position))"
  by pat_completeness auto
termination
  by (relation "measure (\<lambda>(_, n, _). n)") auto

declare HostFile_read_exact.simps [simp del]

definition HostFile_read :: "HostFile \<Rightarrow> u64 \<Rightarrow> usize \<Rightarrow> nat \<Rightarrow> (BoxedError + bytes) \<times> nat" where
  "HostFile_read self start_byte dst_len position =
     (case HostFile_seek self start_byte position of
        (Inl e, position) \<Rightarrow> (Inl e, position)
      | (Inr _, position) \<Rightarrow> HostFile_read_exact self dst_len position)"

text \<open>The file as a reader, opened at position 0.\<close>

definition HostFile_reader :: "HostFile \<Rightarrow> Ext4Read" where
  "HostFile_reader self start_byte dst_len = fst (HostFile_read self start_byte dst_len 0)"

text \<open>\<open>reader.read(start, &mut data).map_err(Ext4Error::Io)?\<close>\<close>

definition read_io :: "Ext4Read \<Rightarrow> u64 \<Rightarrow> usize \<Rightarrow> bytes result" where
  "read_io reader start len = (case reader start len of Inl e \<Rightarrow> Err (Io e) | Inr bs \<Rightarrow> Ok bs)"

lemma read_io_eq_Ok [simp]: "read_io r start n = Ok bs \<longleftrightarrow> r start n = Inr bs"
  by (simp add: read_io_def split: sum.splits)

lemma read_io_eq_Err [simp]: "read_io r start n = Err e \<longleftrightarrow> (\<exists>io. r start n = Inl io \<and> e = Io io)"
  by (auto simp: read_io_def split: sum.splits)

lemma holds_read_io:
  "(\<And>e. r start n = Inl e \<Longrightarrow> E (Io e)) \<Longrightarrow> (\<And>bs. r start n = Inr bs \<Longrightarrow> Q bs) \<Longrightarrow>
   holds (read_io r start n) Q E"
  by (simp add: read_io_def split: sum.splits)

section \<open>The contract of a reader\<close>

text \<open>A successful read fills the whole buffer, and reads of the same device agree: there is one
  disk image from which every successful read copies.\<close>

locale ext4_reader =
  fixes read :: Ext4Read
    and disk :: "nat \<Rightarrow> u8"
  assumes read_exact: "read start n = Inr bs \<Longrightarrow> length bs = n"
    and read_disk: "read start n = Inr bs \<Longrightarrow> i < n \<Longrightarrow> bs ! i = disk (unat start + i)"
begin

lemma read_eq: "read start n = Inr bs \<Longrightarrow> bs = map (\<lambda>i. disk (unat start + i)) [0..<n]"
  by (rule nth_equalityI) (auto simp: read_exact read_disk)

text \<open>Two successful reads agree where they overlap.\<close>

lemma read_overlap:
  assumes "read s1 n1 = Inr b1" and "read s2 n2 = Inr b2"
    and "unat s1 + i1 = unat s2 + i2" and "i1 < n1" and "i2 < n2"
  shows "b1 ! i1 = b2 ! i2"
  using assms by (simp add: read_disk)

end

text \<open>The image a byte vector provides: its bytes, and nothing beyond its end.\<close>

definition disk_of :: "bytes \<Rightarrow> nat \<Rightarrow> u8" where
  "disk_of self i = (if i < length self then self ! i else 0)"

lemma Vec_read_Inr:
  "Vec_read src start n = Inr bs \<Longrightarrow>
   unat start + n \<le> length src \<and> bs = take n (drop (unat start) src)"
  by (auto simp: Vec_read_def read_from_bytes_def get_range_def usize_add_def Let_def
      split: option.splits if_splits)

interpretation vec: ext4_reader "Vec_read src" "disk_of src" for src
  by unfold_locales (auto dest: Vec_read_Inr simp: disk_of_def)

text \<open>A vector reader serves exactly the reads that lie inside the vector.\<close>

lemma Vec_read_inside:
  "unat start + n \<le> length src \<Longrightarrow> unat start + n \<le> usize_max \<Longrightarrow>
   Vec_read src start n = Inr (take n (drop (unat start) src))"
  by (auto simp: Vec_read_def read_from_bytes_def get_range_def usize_add_def Let_def)

lemma Vec_read_outside:
  "length src < unat start + n \<Longrightarrow> \<exists>e. Vec_read src start n = Inl (BoxedMemIo e)"
  by (auto simp: Vec_read_def read_from_bytes_def get_range_def usize_add_def Let_def
      split: option.splits)

section \<open>The reader for files\<close>

text \<open>A regular file of \<open>len\<close> bytes: seeking succeeds, a read before the end returns at least one byte, and a
  read at the end returns none.\<close>

definition regular_file :: "(nat \<Rightarrow> u8) \<Rightarrow> nat \<Rightarrow> HostFile \<Rightarrow> bool" where
  "regular_file disk len f \<longleftrightarrow> (\<forall>start. hf_seek f start = Inr ()) \<and>
     (\<forall>pos n. 0 < n \<longrightarrow> (\<exists>k. hf_read f pos n = Inr (map (\<lambda>i. disk (pos + i)) [0..<k]) \<and>
        k \<le> n \<and> pos + k \<le> max pos len \<and> (k = 0 \<longleftrightarrow> len \<le> pos)))"

lemma read_exact_file:
  assumes "regular_file disk len f"
  shows "HostFile_read_exact f n pos =
     (if n = 0 \<or> pos + n \<le> len then (Inr (map (\<lambda>i. disk (pos + i)) [0..<n]), pos + n)
      else (Inl UNEXPECTED_EOF, max pos len))"
proof (induction n arbitrary: pos rule: less_induct)
  case (less n)
  show ?case
  proof (cases "n = 0")
    case False
    then obtain k where k: "hf_read f pos n = Inr (map (\<lambda>i. disk (pos + i)) [0..<k])" "k \<le> n" "pos + k \<le> max pos len"
      "k = 0 \<longleftrightarrow> len \<le> pos" using assms unfolding regular_file_def by blast
    show ?thesis
    proof (cases "k = 0")
      case True
      with k False show ?thesis by (simp add: HostFile_read_exact.simps[of f n pos])
    next
      case knz: False
      have IH: "HostFile_read_exact f (n - k) (pos + k) =
          (if n - k = 0 \<or> pos + k + (n - k) \<le> len then (Inr (map (\<lambda>i. disk (pos + k + i)) [0..<n - k]), pos + k + (n - k))
           else (Inl UNEXPECTED_EOF, max (pos + k) len))"
        by (rule less) (use False knz in simp)
      have m: "map (\<lambda>i. disk (pos + i)) [0..<k] @ map (\<lambda>i. disk (pos + k + i)) [0..<n - k] = map (\<lambda>i. disk (pos + i)) [0..<n]"
        using k(2) by (intro nth_equalityI) (auto simp: nth_append)
      from k knz False IH m show ?thesis by (auto simp: HostFile_read_exact.simps[of f n pos])
    qed
  qed (simp add: HostFile_read_exact.simps)
qed

lemma file_read_result:
  assumes "regular_file disk len f"
  shows "fst (HostFile_read f start n pos) =
     (if n = 0 \<or> unat start + n \<le> len then Inr (map (\<lambda>i. disk (unat start + i)) [0..<n]) else Inl UNEXPECTED_EOF)"
  using assms read_exact_file[OF assms, of n "unat start"]
  by (auto simp: HostFile_read_def HostFile_seek_def regular_file_def)

lemma file_is_reader: "regular_file disk len f \<Longrightarrow> ext4_reader (HostFile_reader f) disk"
  by unfold_locales (auto simp: HostFile_reader_def file_read_result split: if_splits)

text \<open>A file in memory whose reads return at most \<open>chunk\<close> bytes.\<close>

definition ram_file :: "nat \<Rightarrow> bytes \<Rightarrow> HostFile" where
  "ram_file chunk data = \<lparr>hf_seek = \<lambda>_. Inr (), hf_read = \<lambda>pos n. Inr (take (min n chunk) (drop pos data))\<rparr>"

lemma ram_file_regular: "0 < chunk \<Longrightarrow> regular_file (disk_of data) (length data) (ram_file chunk data)"
  unfolding regular_file_def
proof (intro conjI allI impI)
  fix pos n :: nat
  assume "0 < chunk" "0 < n"
  let ?k = "min (min n chunk) (length data - pos)"
  have "take (min n chunk) (drop pos data) = map (\<lambda>i. disk_of data (pos + i)) [0..<?k]"
    by (rule nth_equalityI) (auto simp: disk_of_def)
  then show "\<exists>k. hf_read (ram_file chunk data) pos n = Inr (map (\<lambda>i. disk_of data (pos + i)) [0..<k]) \<and>
      k \<le> n \<and> pos + k \<le> max pos (length data) \<and> (k = 0 \<longleftrightarrow> length data \<le> pos)"
    using \<open>0 < chunk\<close> \<open>0 < n\<close> by (intro exI[of _ ?k]) (auto simp: ram_file_def)
qed (simp add: ram_file_def)

interpretation ram: ext4_reader "HostFile_reader (ram_file (Suc chunk) data)" "disk_of data" for chunk data
  by (rule file_is_reader[OF ram_file_regular]) simp

text \<open>Reading from a file of the host: whatever the position that an earlier read left, a read returns the
  bytes of the file at the requested offset, however short the reads of the operating system are, or
  the error for the end of the file if they are not all there; so a file is a reader in the sense of
  the contract.\<close>

theorem host_file_reads:
  assumes "regular_file disk len f"
  shows "fst (HostFile_read f start n position) =
       (if n = 0 \<or> unat start + n \<le> len then Inr (map (\<lambda>i. disk (unat start + i)) [0..<n]) else Inl UNEXPECTED_EOF)
     \<and> ext4_reader (HostFile_reader f) disk"
  using file_read_result[OF assms] file_is_reader[OF assms] by simp

theorem host_file_reads_witness:
  "fst (HostFile_read (ram_file 2 [1, 2, 3, 4, 5, 6]) 1 4 77) = Inr [2, 3, 4, 5] \<and>
   fst (HostFile_read (ram_file 2 [1, 2, 3, 4, 5, 6]) 3 4 5) = Inl UNEXPECTED_EOF"
proof -
  have r: "regular_file (disk_of [1, 2, 3, 4, 5, 6]) 6 (ram_file 2 [1, 2, 3, 4, 5, 6])"
    using ram_file_regular[of 2 "[1, 2, 3, 4, 5, 6]"] by (simp add: numeral_eq_Suc)
  have "map (\<lambda>i. disk_of [1, 2, 3, 4, 5, 6] (1 + i)) [0..<4] = [2, 3, 4, 5]" by code_simp
  with host_file_reads[OF r, of 1 4 77] host_file_reads[OF r, of 3 4 5] show ?thesis by simp
qed

end
