(* ===== verification/Block_Group.thy ===== *)
theory Block_Group
  imports Superblock Reader
begin

text \<open>
  Block group descriptors (\<^verbatim>\<open>src/src/block_group.rs\<close>): parsing one descriptor, where it lies on the
  disk, reading and verifying one, and reading the whole table.
\<close>

type_synonym BlockGroupIndex = u32

record BlockGroupDescriptor =
  bgd_inode_table_first_block :: FsBlockIndex
  bgd_checksum :: u16

definition BG_CHECKSUM_OFFSET :: usize where
  "BG_CHECKSUM_OFFSET = 0x1e"

definition BlockGroupDescriptor_from_bytes :: "Superblock \<Rightarrow> bytes \<Rightarrow> BlockGroupDescriptor result" where
  "BlockGroupDescriptor_from_bytes superblock bytes =
     bind_o (read_u32le bytes 0x8) (\<lambda>bg_inode_table_lo.
     bind_o (read_u16le bytes BG_CHECKSUM_OFFSET) (\<lambda>bg_checksum.
     bind_o (if contains (sb_incompatible_features superblock) IS_64BIT
             then read_u32le bytes 0x28 else Ok 0) (\<lambda>bg_inode_table_hi.
     Ok \<lparr>bgd_inode_table_first_block = u64_from_hilo bg_inode_table_hi bg_inode_table_lo,
         bgd_checksum = bg_checksum\<rparr>)))"

definition BlockGroupDescriptor_get_start_byte :: "Superblock \<Rightarrow> BlockGroupIndex \<Rightarrow> u64 option" where
  "BlockGroupDescriptor_get_start_byte sb bgd_index =
     (let bgd_start_block = (if sb_block_size sb = 1024 then 2 else 1 :: u32) in
      Option.bind (checked_div (BlockSize_to_u32 (sb_block_size sb))
                     (ucast (sb_block_group_descriptor_size sb))) (\<lambda>bgd_per_block.
      Option.bind (checked_div bgd_index bgd_per_block) (\<lambda>d.
      Option.bind (checked_add bgd_start_block d) (\<lambda>block_index.
      Option.bind (checked_rem bgd_index bgd_per_block) (\<lambda>r.
      Option.bind (checked_mul r (ucast (sb_block_group_descriptor_size sb))) (\<lambda>offset_within_block.
      Option.bind (checked_mul (ucast block_index) (BlockSize_to_u64 (sb_block_size sb))) (\<lambda>p.
      checked_add p (ucast offset_within_block))))))))"

definition BlockGroupDescriptor_read ::
  "crc_fn \<Rightarrow> Superblock \<Rightarrow> Ext4Read \<Rightarrow> BlockGroupIndex \<Rightarrow> BlockGroupDescriptor result" where
  "BlockGroupDescriptor_read crc sb reader bgd_index =
     (let block_group_descriptor_size = unat (sb_block_group_descriptor_size sb) in
     bind_o (ok_or (Corrupt (CorruptBlockGroupDescriptor bgd_index))
               (BlockGroupDescriptor_get_start_byte sb bgd_index)) (\<lambda>start.
     bind_o (read_io reader start block_group_descriptor_size) (\<lambda>data.
     bind_o (BlockGroupDescriptor_from_bytes sb data) (\<lambda>block_group_descriptor.
     let has_metadata_checksums =
           contains (sb_read_only_compatible_features sb) METADATA_CHECKSUMS in
     if has_metadata_checksums then
       let checksum = Checksum_with_seed (sb_checksum_seed sb);
           checksum = Checksum_update_u32_le bgd_index checksum in
       bind_o (slice data 0 BG_CHECKSUM_OFFSET) (\<lambda>before.
       let checksum = Checksum_update before checksum;
           checksum = Checksum_update_u16_le 0 checksum in
       bind_o (slice data (BG_CHECKSUM_OFFSET + 2) (length data)) (\<lambda>rest.
       let checksum = Checksum_update rest checksum in
       bind_o (unwrap (word_try_from (unat (Checksum_finalize crc checksum AND 0xffff)))) (\<lambda>checksum.
       if checksum \<noteq> bgd_checksum block_group_descriptor
       then corrupt (BlockGroupDescriptorChecksum bgd_index)
       else Ok block_group_descriptor)))
     else Ok block_group_descriptor))))"

text \<open>The loop over \<open>0..sb.num_block_groups\<close>, which pushes one descriptor per step.\<close>

fun read_all_loop ::
  "crc_fn \<Rightarrow> Superblock \<Rightarrow> Ext4Read \<Rightarrow> nat list \<Rightarrow> BlockGroupDescriptor list \<Rightarrow> BlockGroupDescriptor list result" where
  "read_all_loop crc sb reader [] acc = Ok acc"
| "read_all_loop crc sb reader (i # is) acc =
     bind_o (BlockGroupDescriptor_read crc sb reader (of_nat i)) (\<lambda>bgd.
     read_all_loop crc sb reader is (acc @ [bgd]))"

definition BlockGroupDescriptor_read_all ::
  "crc_fn \<Rightarrow> Superblock \<Rightarrow> Ext4Read \<Rightarrow> BlockGroupDescriptor list result" where
  "BlockGroupDescriptor_read_all crc sb reader =
     read_all_loop crc sb reader [0..<unat (sb_num_block_groups sb)] []"

section \<open>Where descriptors lie\<close>

text \<open>The table starts in the block after the superblock; a descriptor never crosses a block.\<close>

definition bgd_table_start :: "Superblock \<Rightarrow> nat" where
  "bgd_table_start sb = (if sb_block_size sb = 1024 then 2 else 1) * unat (sb_block_size sb)"

definition bgd_per_block :: "Superblock \<Rightarrow> nat" where
  "bgd_per_block sb = unat (sb_block_size sb) div unat (sb_block_group_descriptor_size sb)"

lemma get_start_byte_Some:
  assumes "BlockGroupDescriptor_get_start_byte sb i = Some p"
  shows "0 < bgd_per_block sb"
    and "unat p = bgd_table_start sb + unat i div bgd_per_block sb * unat (sb_block_size sb)
                + unat i mod bgd_per_block sb * unat (sb_block_group_descriptor_size sb)"
proof -
  let ?bs = "sb_block_size sb" and ?ds = "sb_block_group_descriptor_size sb"
  let ?n = "?bs div ucast ?ds" and ?st = "if ?bs = 1024 then 2 else 1 :: u32"
  obtain bi ow q where *: "?n \<noteq> 0" "checked_add ?st (i div ?n) = Some bi"
    "checked_mul (i mod ?n) (ucast ?ds) = Some ow"
    "checked_mul (ucast bi) (ucast ?bs) = Some q" "checked_add q (ucast ow) = Some p"
    using assms
    by (auto simp: BlockGroupDescriptor_get_start_byte_def checked_div_def checked_rem_def Let_def
        BlockSize_to_u32_def BlockSize_to_u64_def bind_eq_Some_conv split: if_splits)
  have n: "unat ?n = bgd_per_block sb"
    by (simp add: bgd_per_block_def unat_div)
  with * show "0 < bgd_per_block sb"
    by (metis gr0I unat_eq_0)
  have "unat bi = unat ?st + unat i div bgd_per_block sb"
    using checked_add_SomeD[OF *(2)] n by (simp add: unat_div)
  moreover have "unat ow = unat i mod bgd_per_block sb * unat ?ds"
    using checked_mul_SomeD[OF *(3)] n by (simp add: unat_mod)
  moreover have "unat q = unat bi * unat ?bs"
    using checked_mul_SomeD[OF *(4)] by simp
  moreover have "unat p = unat q + unat ow"
    using checked_add_SomeD[OF *(5)] by simp
  ultimately show "unat p = bgd_table_start sb + unat i div bgd_per_block sb * unat ?bs
                + unat i mod bgd_per_block sb * unat ?ds"
    by (auto simp: bgd_table_start_def algebra_simps)
qed

lemma get_start_byte_desc_size:
  assumes "BlockGroupDescriptor_get_start_byte sb i = Some p"
  shows "0 < unat (sb_block_group_descriptor_size sb)"
    "bgd_per_block sb * unat (sb_block_group_descriptor_size sb) \<le> unat (sb_block_size sb)"
  using get_start_byte_Some(1)[OF assms]
  by (auto simp: bgd_per_block_def intro: gr0I)

lemma mod_slot_end:
  fixes n s b :: nat
  assumes "0 < n" and "n * s \<le> b"
  shows "i mod n * s + s \<le> b"
proof -
  have "(i mod n + 1) * s \<le> n * s" using assms(1) by (intro mult_le_mono1) (simp add: Suc_leI)
  with assms(2) show ?thesis by simp
qed

lemma slots_ordered:
  fixes n s b :: nat
  assumes "0 < n" and "n * s \<le> b" and "i < j"
  shows "i div n * b + i mod n * s + s \<le> j div n * b + j mod n * s"
proof (cases "i div n = j div n")
  case True
  with assms(3) have "i mod n < j mod n"
    by (metis add_less_cancel_left mult.commute div_mult_mod_eq)
  then have "(i mod n + 1) * s \<le> j mod n * s" by (intro mult_le_mono1) simp
  with True show ?thesis by simp
next
  case False
  then have "i div n + 1 \<le> j div n"
    using assms(3) by (metis Suc_eq_plus1 Suc_leI div_le_mono le_neq_implies_less less_imp_le_nat)
  then have "(i div n + 1) * b \<le> j div n * b" by (rule mult_le_mono1)
  moreover have "i mod n * s + s \<le> b" by (rule mod_slot_end[OF assms(1,2)])
  ultimately show ?thesis by simp
qed

section \<open>Properties\<close>

text \<open>The descriptors of different block groups occupy disjoint byte ranges, ordered as the groups
  are, behind the start of the table (the block after the superblock), and no descriptor crosses a
  block boundary.\<close>

theorem bgd_locations_disjoint:
  assumes "BlockGroupDescriptor_get_start_byte sb i = Some p"
    and "BlockGroupDescriptor_get_start_byte sb j = Some q" and "i < j"
  shows "bgd_table_start sb \<le> unat p \<and>
    unat p + unat (sb_block_group_descriptor_size sb) \<le> unat q \<and>
    unat p mod unat (sb_block_size sb) + unat (sb_block_group_descriptor_size sb)
      \<le> unat (sb_block_size sb)"
proof (intro conjI)
  let ?n = "bgd_per_block sb" and ?s = "unat (sb_block_group_descriptor_size sb)"
  let ?b = "unat (sb_block_size sb)"
  note p = get_start_byte_Some[OF assms(1)] and q = get_start_byte_Some[OF assms(2)]
  note sz = get_start_byte_desc_size[OF assms(1)]
  show "bgd_table_start sb \<le> unat p" using p by simp
  show "unat p + ?s \<le> unat q"
    using slots_ordered[OF p(1) sz(2), of "unat i" "unat j"] assms(3) p q
    by (simp add: word_less_nat_alt)
  have end1: "unat i mod ?n * ?s + ?s \<le> ?b" by (rule mod_slot_end[OF p(1) sz(2)])
  then have "unat i mod ?n * ?s < ?b" using sz(1) by linarith
  then have "unat p mod ?b = unat i mod ?n * ?s"
    unfolding p(2) bgd_table_start_def by (simp add: add.assoc)
  with end1 show "unat p mod ?b + ?s \<le> ?b" by simp
qed

theorem bgd_locations_disjoint_witness:
  "BlockGroupDescriptor_get_start_byte sample_superblock 3 = Some 2144 \<and>
   BlockGroupDescriptor_get_start_byte sample_superblock 33 = Some 3104 \<and>
   2144 + unat (sb_block_group_descriptor_size sample_superblock) \<le> unat (3104 :: u64)"
proof -
  have 1: "BlockGroupDescriptor_get_start_byte sample_superblock 3 = Some 2144"
    "BlockGroupDescriptor_get_start_byte sample_superblock 33 = Some 3104"
    by (simp_all add: BlockGroupDescriptor_get_start_byte_def sample_superblock_def checked_defs
        BlockSize_to_u32_def BlockSize_to_u64_def)
  from bgd_locations_disjoint[OF this] show ?thesis using 1 by simp
qed

lemma from_bytes_total:
  assumes "0x20 \<le> length data" and "contains (sb_incompatible_features sb) IS_64BIT \<longrightarrow> 0x2c \<le> length data"
  shows "BlockGroupDescriptor_from_bytes sb data =
    Ok \<lparr>bgd_inode_table_first_block =
          u64_from_hilo (if contains (sb_incompatible_features sb) IS_64BIT then u32le_at data 0x28 else 0)
            (u32le_at data 0x8),
        bgd_checksum = u16le_at data 0x1e\<rparr>"
  using assms by (auto simp: BlockGroupDescriptor_from_bytes_def BG_CHECKSUM_OFFSET_def usize_max_def)

lemma from_bytes_panics:
  assumes "length data < 0x20 \<or> (contains (sb_incompatible_features sb) IS_64BIT \<and> length data < 0x2c)"
  shows "BlockGroupDescriptor_from_bytes sb data = Panic"
proof -
  have l: "length data \<le> usize_max" using assms by (auto simp: usize_max_def)
  show ?thesis
    using assms
    by (auto simp: BlockGroupDescriptor_from_bytes_def BG_CHECKSUM_OFFSET_def read_u32le_eq[OF l]
        read_u16le_eq[OF l])
qed

text \<open>The checksum of a descriptor: seed, group index, and the descriptor with its checksum field
  read as zero; the low half is what is stored.\<close>

definition bgd_checksum_spec :: "crc_fn \<Rightarrow> Superblock \<Rightarrow> BlockGroupIndex \<Rightarrow> bytes \<Rightarrow> u16" where
  "bgd_checksum_spec crc sb i data =
     ucast (Checksum_finalize crc
       \<lparr>ck_initial = word_reverse (sb_checksum_seed sb),
        ck_data = to_le_bytes i @ take 0x1e data @ [0, 0] @ drop 0x20 data\<rparr>)"

lemma low_half: "word_try_from (unat (w AND 0xffff :: u32)) = Some (ucast w :: u16)"
proof -
  have "w AND 0xffff = take_bit 16 w"
    by (simp add: take_bit_eq_mask mask_eq_exp_minus_1)
  then have "unat (w AND 0xffff) = unat (ucast w :: u16)"
    by (simp add: unsigned_take_bit_eq unsigned_ucast_eq)
  moreover have "unat (ucast w :: u16) < 2 ^ 16"
    using unat_less_bound[of "ucast w :: u16"] by simp
  ultimately show ?thesis by (simp add: word_try_from_def)
qed

lemma to_le_bytes_0_u16: "to_le_bytes (0 :: u16) = [0, 0]"
  by (simp add: to_le_bytes_def numeral_2_eq_2)

lemma BlockGroupDescriptor_read_total:
  assumes "0x20 \<le> unat (sb_block_group_descriptor_size sb)"
    and "contains (sb_incompatible_features sb) IS_64BIT \<longrightarrow> 0x2c \<le> unat (sb_block_group_descriptor_size sb)"
    and len: "\<And>s n d. reader s n = Inr d \<Longrightarrow> length d = n"
  shows "holds (BlockGroupDescriptor_read crc sb reader i)
    (\<lambda>bgd. \<exists>p data. BlockGroupDescriptor_get_start_byte sb i = Some p \<and>
       reader p (unat (sb_block_group_descriptor_size sb)) = Inr data \<and>
       BlockGroupDescriptor_from_bytes sb data = Ok bgd \<and>
       (contains (sb_read_only_compatible_features sb) METADATA_CHECKSUMS \<longrightarrow>
          bgd_checksum bgd = bgd_checksum_spec crc sb i data))
    (\<lambda>_. True)"
proof (cases "BlockGroupDescriptor_get_start_byte sb i")
  case None
  then show ?thesis by (simp add: BlockGroupDescriptor_read_def)
next
  case (Some p)
  show ?thesis
  proof (cases "reader p (unat (sb_block_group_descriptor_size sb))")
    case (Inl e)
    with Some show ?thesis by (simp add: BlockGroupDescriptor_read_def read_io_def)
  next
    case (Inr data)
    from len[OF this] assms(1,2) have l: "0x20 \<le> length data"
      "contains (sb_incompatible_features sb) IS_64BIT \<longrightarrow> 0x2c \<le> length data" by simp_all
    from Some Inr from_bytes_total[OF this] l(1) show ?thesis
      by (auto simp: BlockGroupDescriptor_read_def read_io_def Let_def BG_CHECKSUM_OFFSET_def low_half
          Checksum_defs bgd_checksum_spec_def to_le_bytes_0_u16 slice_def get_range_def)
  qed
qed

lemma read_all_loop_holds:
  assumes "\<And>i. i \<in> set is \<Longrightarrow> holds (BlockGroupDescriptor_read crc sb reader (of_nat i)) (P i) (\<lambda>_. True)"
    and "list_all2 P js acc"
  shows "holds (read_all_loop crc sb reader is acc) (list_all2 P (js @ is)) (\<lambda>_. True)"
  using assms
proof (induction "is" arbitrary: js acc)
  case Nil
  then show ?case by simp
next
  case (Cons i "is")
  show ?case
  proof (cases "BlockGroupDescriptor_read crc sb reader (of_nat i)")
    case (Ok bgd)
    then have "list_all2 P (js @ [i]) (acc @ [bgd])"
      using Cons.prems(1)[of i] Cons.prems(2) by (auto intro: list_all2_appendI)
    from Cons.IH[OF Cons.prems(1) this] Ok show ?thesis by simp
  qed (use Cons.prems(1)[of i] in auto)
qed

text \<open>The first byte of the descriptor of group \<open>i\<close>.\<close>

definition bgd_start :: "Superblock \<Rightarrow> nat \<Rightarrow> nat" where
  "bgd_start sb i = bgd_table_start sb + i div bgd_per_block sb * unat (sb_block_size sb) +
     i mod bgd_per_block sb * unat (sb_block_group_descriptor_size sb)"

lemma BlockGroupDescriptor_read_Ok:
  assumes "BlockGroupDescriptor_read crc sb reader i = Ok bgd"
  obtains p data where "BlockGroupDescriptor_get_start_byte sb i = Some p"
    "reader p (unat (sb_block_group_descriptor_size sb)) = Inr data" "BlockGroupDescriptor_from_bytes sb data = Ok bgd"
    "contains (sb_read_only_compatible_features sb) METADATA_CHECKSUMS \<longrightarrow> bgd_checksum bgd = bgd_checksum_spec crc sb i data"
  using assms
  by (auto simp: BlockGroupDescriptor_read_def read_io_def Let_def BG_CHECKSUM_OFFSET_def low_half
      Checksum_defs bgd_checksum_spec_def to_le_bytes_0_u16 slice_def get_range_def split: if_splits sum.splits option.splits)

lemma read_all_loop_Ok:
  assumes "read_all_loop crc sb reader is acc = Ok ds" and "list_all2 P js acc"
    and "\<And>i bgd. i \<in> set is \<Longrightarrow> BlockGroupDescriptor_read crc sb reader (of_nat i) = Ok bgd \<Longrightarrow> P i bgd"
  shows "list_all2 P (js @ is) ds"
  using assms
proof (induction "is" arbitrary: js acc)
  case (Cons i "is")
  from Cons.prems(1) obtain bgd where r: "BlockGroupDescriptor_read crc sb reader (of_nat i) = Ok bgd"
    "read_all_loop crc sb reader is (acc @ [bgd]) = Ok ds" by auto
  with Cons.prems have "list_all2 P (js @ [i]) (acc @ [bgd])" by (auto intro: list_all2_appendI)
  from Cons.IH[OF r(2) this] Cons.prems(3) show ?case by simp
qed simp

text \<open>C24: When a descriptor is at least as long as the fields that are read from it (32 bytes, 44
  with the 64-bit feature), reading the descriptor table never panics; on success it has exactly one
  descriptor per block group, in order, each parsed from the bytes at the location of its group, and
  with metadata checksums enabled each stored checksum equals the one computed over the descriptor.\<close>

theorem bgd_read_all_sound:
  assumes "0x20 \<le> unat (sb_block_group_descriptor_size sb)"
    and "contains (sb_incompatible_features sb) IS_64BIT \<longrightarrow> 0x2c \<le> unat (sb_block_group_descriptor_size sb)"
    and "\<And>s n d. reader s n = Inr d \<Longrightarrow> length d = n"
  shows "holds (BlockGroupDescriptor_read_all crc sb reader)
    (\<lambda>ds. length ds = unat (sb_num_block_groups sb) \<and>
       (\<forall>i < length ds. \<exists>p data. BlockGroupDescriptor_get_start_byte sb (of_nat i) = Some p \<and>
          reader p (unat (sb_block_group_descriptor_size sb)) = Inr data \<and>
          BlockGroupDescriptor_from_bytes sb data = Ok (ds ! i) \<and>
          (contains (sb_read_only_compatible_features sb) METADATA_CHECKSUMS \<longrightarrow>
             bgd_checksum (ds ! i) = bgd_checksum_spec crc sb (of_nat i) data)))
    (\<lambda>_. True)"
proof -
  let ?P = "\<lambda>i bgd. \<exists>p data. BlockGroupDescriptor_get_start_byte sb (of_nat i) = Some p \<and>
       reader p (unat (sb_block_group_descriptor_size sb)) = Inr data \<and>
       BlockGroupDescriptor_from_bytes sb data = Ok bgd \<and>
       (contains (sb_read_only_compatible_features sb) METADATA_CHECKSUMS \<longrightarrow>
          bgd_checksum bgd = bgd_checksum_spec crc sb (of_nat i) data)"
  have "holds (read_all_loop crc sb reader [0..<unat (sb_num_block_groups sb)] [])
      (list_all2 ?P ([] @ [0..<unat (sb_num_block_groups sb)])) (\<lambda>_. True)"
    by (rule read_all_loop_holds) (use BlockGroupDescriptor_read_total[OF assms] in auto)
  then show ?thesis
    unfolding BlockGroupDescriptor_read_all_def
    by (rule holds_mono) (auto simp: list_all2_conv_all_nth)
qed

theorem bgd_read_all_sound_witness:
  "BlockGroupDescriptor_read_all (\<lambda>_ _. 0) sample_superblock (Vec_read ((replicate 4096 0)[2056 := 5])) =
     Ok [\<lparr>bgd_inode_table_first_block = 5, bgd_checksum = 0\<rparr>] \<and>
   holds (BlockGroupDescriptor_read_all (\<lambda>_ _. 0) sample_superblock (Vec_read ((replicate 4096 0)[2056 := 5])))
     (\<lambda>ds. length ds = 1) (\<lambda>_. True)"
proof -
  let ?img = "(replicate 4096 0)[2056 := 5] :: bytes"
  have s: "BlockGroupDescriptor_get_start_byte sample_superblock 0 = Some 2048"
    by (simp add: BlockGroupDescriptor_get_start_byte_def sample_superblock_def checked_defs
        BlockSize_to_u32_def BlockSize_to_u64_def)
  have d: "Vec_read ?img 2048 32 = Inr (take 32 (drop 2048 ?img))"
    by (simp add: Vec_read_inside usize_max_def)
  have "holds (BlockGroupDescriptor_read_all (\<lambda>_ _. 0) sample_superblock (Vec_read ?img))
     (\<lambda>ds. length ds = 1) (\<lambda>_. True)"
    by (rule holds_mono[OF bgd_read_all_sound])
       (auto simp: sample_superblock_def contains_def dest: vec.read_exact)
  moreover have "BlockGroupDescriptor_read_all (\<lambda>_ _. 0) sample_superblock (Vec_read ?img) =
     Ok [\<lparr>bgd_inode_table_first_block = 5, bgd_checksum = 0\<rparr>]"
    by (simp add: BlockGroupDescriptor_read_all_def sample_superblock_def BlockGroupDescriptor_read_def
        s[unfolded sample_superblock_def] read_io_def d from_bytes_total contains_def u32le_at_nth
        u16le_at_nth u64_from_hilo_def nth_list_update)
  ultimately show ?thesis by simp
qed

text \<open>A superblock with the 64-bit feature and a descriptor size below 44 bytes is accepted by the
  parser, and reading any descriptor that the reader can supply then panics, instead of reporting a
  corrupt file system.\<close>

theorem bgd_short_descriptor_panics:
  assumes "contains (sb_incompatible_features sb) IS_64BIT"
    and "unat (sb_block_group_descriptor_size sb) < 0x2c"
    and "BlockGroupDescriptor_get_start_byte sb i = Some p"
    and "reader p (unat (sb_block_group_descriptor_size sb)) = Inr data"
    and "length data = unat (sb_block_group_descriptor_size sb)"
  shows "BlockGroupDescriptor_read crc sb reader i = Panic"
  using assms by (auto simp: BlockGroupDescriptor_read_def read_io_def Let_def from_bytes_panics)

theorem bgd_short_descriptor_panics_witness:
  "valid_superblock (sample_superblock\<lparr>sb_incompatible_features := 0x82,
                       sb_block_group_descriptor_size := 40\<rparr>) \<and>
   BlockGroupDescriptor_read (\<lambda>_ _. 0) (sample_superblock\<lparr>sb_incompatible_features := 0x82,
       sb_block_group_descriptor_size := 40\<rparr>) (Vec_read (replicate 4096 0)) 0 = Panic"
proof -
  let ?sb = "sample_superblock\<lparr>sb_incompatible_features := 0x82, sb_block_group_descriptor_size := 40\<rparr>"
  have s: "BlockGroupDescriptor_get_start_byte ?sb 0 = Some 2048"
    by (simp add: BlockGroupDescriptor_get_start_byte_def sample_superblock_def checked_defs
        BlockSize_to_u32_def BlockSize_to_u64_def)
  have "BlockGroupDescriptor_read (\<lambda>_ _. 0) ?sb (Vec_read (replicate 4096 0)) 0 = Panic"
    by (rule bgd_short_descriptor_panics[OF _ _ s Vec_read_inside])
       (simp_all add: contains_def usize_max_def)
  moreover have "valid_block_size 1024" by code_simp
  then have "valid_superblock ?sb"
    by (simp add: valid_superblock_def sample_superblock_def supported_features_def contains_def
        IncompatibleFeatures_all_def disallowed_features_def)
  ultimately show ?thesis by simp
qed

end
