(* ===== verification/Block_Cache.thy ===== *)
theory Block_Cache
  imports Disk_Types
begin

text \<open>
  The LRU block cache (\<^verbatim>\<open>src/src/block_cache.rs\<close>): a fixed number of block-sized entries, most recently
  used first, and a buffer into which several consecutive blocks are read at once. The operations are
  computations on the cache. The closure that fills the buffer is a function of the length of the
  slice it is given: the bytes it leaves there, or its error.

  The first part is the model; then the abstract behaviour of a hit and of a miss on the list of
  entries, the invariant, and, in the locale \<open>block_source\<close>, the coherence of the cache with the
  device the closure reads from.
\<close>

record CacheEntry =
  ce_block_index :: FsBlockIndex
  ce_data :: bytes

record BlockCache =
  bc_read_buf :: bytes
  bc_max_blocks_per_read :: u32
  bc_entries :: "CacheEntry list"
  bc_block_size :: BlockSize
  bc_num_fs_blocks :: u64

record CacheOpts =
  co_block_size :: BlockSize
  co_max_blocks_per_read :: u32
  co_num_entries :: usize

type_synonym 'a cache_op = "(BlockCache, 'a, Ext4Error) comp"

section \<open>Construction\<close>

definition CacheOpts_new :: "BlockSize \<Rightarrow> CacheOpts result" where
  "CacheOpts_new block_size =
     (let max_bytes_per_read = 8 * 4096 :: u32;
          max_blocks_per_read = max 1 (max_bytes_per_read div BlockSize_to_u32 block_size) in
      bind_o (unwrap (checked_mul max_blocks_per_read 8)) (\<lambda>num_entries.
      Ok \<lparr>co_block_size = block_size, co_max_blocks_per_read = max_blocks_per_read,
          co_num_entries = usize_from_u32 num_entries\<rparr>))"

definition CacheOpts_read_buf_size_in_bytes :: "CacheOpts \<Rightarrow> usize result" where
  "CacheOpts_read_buf_size_in_bytes self =
     unwrap (usize_mul (usize_from_u32 (co_max_blocks_per_read self))
               (BlockSize_to_usize (co_block_size self)))"

definition BlockCache_with_opts :: "CacheOpts \<Rightarrow> u64 \<Rightarrow> BlockCache result" where
  "BlockCache_with_opts opts num_fs_blocks =
     bind_o (assert_o (usize_from_u32 (co_max_blocks_per_read opts) \<le> co_num_entries opts)) (\<lambda>_.
     bind_o (CacheOpts_read_buf_size_in_bytes opts) (\<lambda>read_buf_len.
     let entries = replicate (co_num_entries opts)
           \<lparr>ce_block_index = 0, ce_data = replicate (BlockSize_to_usize (co_block_size opts)) 0\<rparr> in
     Ok \<lparr>bc_read_buf = replicate read_buf_len 0,
         bc_max_blocks_per_read = co_max_blocks_per_read opts,
         bc_entries = entries,
         bc_block_size = co_block_size opts,
         bc_num_fs_blocks = num_fs_blocks\<rparr>))"

definition BlockCache_new :: "BlockSize \<Rightarrow> u64 \<Rightarrow> BlockCache result" where
  "BlockCache_new block_size num_fs_blocks =
     bind_o (CacheOpts_new block_size) (\<lambda>opts. BlockCache_with_opts opts num_fs_blocks)"

section \<open>Access\<close>

definition BlockCache_num_blocks_to_read :: "BlockCache \<Rightarrow> FsBlockIndex \<Rightarrow> u32 result" where
  "BlockCache_num_blocks_to_read self block_index =
     bind_o (assert_o (block_index < bc_num_fs_blocks self)) (\<lambda>_.
     let end_block = min (saturating_add block_index (ucast (bc_max_blocks_per_read self)))
                         (bc_num_fs_blocks self) in
     bind_o (unwrap (checked_sub end_block block_index)) (\<lambda>num_blocks.
     unwrap (word_try_from (unat num_blocks))))"

text \<open>\<open>pop_back\<close> takes the last entry; \<open>copy_from_slice\<close> panics unless the lengths agree.\<close>

definition BlockCache_insert_block :: "FsBlockIndex \<Rightarrow> u32 \<Rightarrow> unit cache_op" where
  "BlockCache_insert_block block_index block_within_read_buf =
     bindc (gets (\<lambda>self. self)) (\<lambda>self.
     bindc (lift (assert_o (block_within_read_buf < bc_max_blocks_per_read self))) (\<lambda>_.
     bindc (lift (unwrap (usize_mul (usize_from_u32 block_within_read_buf)
                            (BlockSize_to_usize (bc_block_size self))))) (\<lambda>start.
     bindc (lift (unwrap (usize_add start (BlockSize_to_usize (bc_block_size self))))) (\<lambda>end.
     bindc (lift (slice (bc_read_buf self) start end)) (\<lambda>src.
     bindc (lift (assert_o (bc_entries self \<noteq> []))) (\<lambda>_.
     let entry = last (bc_entries self) in
     bindc (lift (assert_o (length (ce_data entry) = length src))) (\<lambda>_.
     let entry = entry\<lparr>ce_block_index := block_index, ce_data := src\<rparr> in
     modify (\<lambda>self. self\<lparr>bc_entries := entry # butlast (bc_entries self)\<rparr>))))))))"

text \<open>The loop over \<open>(0..num_blocks).rev()\<close>.\<close>

fun insert_blocks :: "FsBlockIndex \<Rightarrow> nat \<Rightarrow> unit cache_op" where
  "insert_blocks block_index 0 = ret ()"
| "insert_blocks block_index (Suc i) =
     bindc (lift (unwrap (checked_add block_index (of_nat i)))) (\<lambda>index.
     bindc (BlockCache_insert_block index (of_nat i)) (\<lambda>_.
     insert_blocks block_index i))"

text \<open>\<open>iter().position(|entry| entry.block_index == block_index)\<close>.\<close>

fun position :: "('a \<Rightarrow> bool) \<Rightarrow> 'a list \<Rightarrow> usize option" where
  "position p [] = None"
| "position p (x # xs) = (if p x then Some 0 else map_option Suc (position p xs))"

definition BlockCache_get_or_insert_blocks ::
  "FsBlockIndex \<Rightarrow> (usize \<Rightarrow> bytes result) \<Rightarrow> bytes cache_op" where
  "BlockCache_get_or_insert_blocks block_index f =
     bindc (gets (\<lambda>self. self)) (\<lambda>self.
     bindc (lift (assert_o (block_index < bc_num_fs_blocks self))) (\<lambda>_.
     case position (\<lambda>entry. ce_block_index entry = block_index) (bc_entries self) of
       Some index \<Rightarrow>
         bindc (if index \<noteq> 0
                then modify (\<lambda>self. self\<lparr>bc_entries := bc_entries self ! index
                       # (take index (bc_entries self) @ drop (Suc index) (bc_entries self))\<rparr>)
                else ret ()) (\<lambda>_.
         bindc (gets bc_entries) (\<lambda>entries.
         bindc (lift (index_at entries 0)) (\<lambda>entry.
         ret (ce_data entry))))
     | None \<Rightarrow>
         bindc (lift (BlockCache_num_blocks_to_read self block_index)) (\<lambda>num_blocks.
         bindc (lift (ok_or (Corrupt (BlockCacheReadTooLarge num_blocks (bc_block_size self)))
                  (usize_mul (usize_from_u32 num_blocks) (BlockSize_to_usize (bc_block_size self))))) (\<lambda>num_bytes.
         bindc (lift (slice (bc_read_buf self) 0 num_bytes)) (\<lambda>buf.
         bindc (lift (f (length buf))) (\<lambda>data.
         bindc (modify (\<lambda>self. self\<lparr>bc_read_buf := data @ drop num_bytes (bc_read_buf self)\<rparr>)) (\<lambda>_.
         bindc (insert_blocks block_index (unat num_blocks)) (\<lambda>_.
         bindc (gets bc_entries) (\<lambda>entries.
         bindc (lift (index_at entries 0)) (\<lambda>entry.
         bindc (lift (assert_o (ce_block_index entry = block_index))) (\<lambda>_.
         ret (ce_data entry))))))))))))"

section \<open>The invariant\<close>

text \<open>What the comments on the fields of the source promise.\<close>

definition cache_inv :: "BlockCache \<Rightarrow> bool" where
  "cache_inv c \<longleftrightarrow>
     valid_block_size (bc_block_size c) \<and>
     0 < bc_max_blocks_per_read c \<and>
     unat (bc_max_blocks_per_read c) \<le> length (bc_entries c) \<and>
     unat (bc_max_blocks_per_read c) * unat (bc_block_size c) \<le> usize_max \<and>
     length (bc_read_buf c) = unat (bc_max_blocks_per_read c) * unat (bc_block_size c) \<and>
     (\<forall>e \<in> set (bc_entries c). length (ce_data e) = unat (bc_block_size c))"

lemma CacheOpts_new_Ok:
  assumes "valid_block_size bs"
  shows "holds (CacheOpts_new bs)
    (\<lambda>opts. co_block_size opts = bs \<and> 1 \<le> unat (co_max_blocks_per_read opts) \<and> unat (co_max_blocks_per_read opts) \<le> 32 \<and>
         co_num_entries opts = 8 * unat (co_max_blocks_per_read opts) \<and>
         unat (co_max_blocks_per_read opts) * unat bs \<le> max 32768 (unat bs)) (\<lambda>_. False)"
proof -
  let ?m = "max 1 (32768 div bs) :: u32"
  note b = valid_block_size_bounds[OF assms]
  have d: "unat (32768 div bs :: u32) = 32768 div unat bs"
    by (simp add: unat_div)
  have m: "unat ?m = max 1 (32768 div unat bs)"
    using d by (simp add: max_def word_le_nat_alt)
  have le: "32768 div unat bs \<le> 32768 div 1024"
    using b(1) by (rule div_le_mono2[rotated]) simp
  have s: "32768 div unat bs * unat bs \<le> 32768" by simp
  have p: "max 1 (32768 div unat bs) * unat bs \<le> max 32768 (unat bs)"
  proof (cases "1 \<le> 32768 div unat bs")
    case True
    with s show ?thesis by (simp only: max.absorb2 le_max_iff_disj) simp
  next
    case False
    then have "32768 div unat bs = 0" by simp
    then show ?thesis by simp
  qed
  have e: "checked_mul ?m 8 = Some (?m * 8)" "unat (?m * 8) = 8 * unat ?m"
    using m le by (simp_all add: checked_mul_def unat_word_ariths)
  show ?thesis
    using p le by (simp add: CacheOpts_new_def Let_def BlockSize_to_u32_def usize_from_u32_def e m)
qed

lemma BlockCache_new_inv:
  assumes "valid_block_size bs"
  shows "holds (BlockCache_new bs n)
    (\<lambda>c. cache_inv c \<and> bc_block_size c = bs \<and> bc_num_fs_blocks c = n \<and>
         (\<forall>e \<in> set (bc_entries c). ce_block_index e = 0)) (\<lambda>_. False)"
proof -
  have *: "max 32768 (unat bs) \<le> usize_max"
    using valid_block_size_bounds(2)[OF assms] by (simp add: usize_max_def)
  show ?thesis
    unfolding BlockCache_new_def
    apply (rule holds_bind_use[OF CacheOpts_new_Ok[OF assms]], simp)
    using * assms
    by (auto simp: BlockCache_with_opts_def CacheOpts_read_buf_size_in_bytes_def usize_mul_def
        usize_from_u32_def BlockSize_to_usize_def cache_inv_def word_less_nat_alt)
qed

section \<open>Hits and misses on the list of entries\<close>

text \<open>The block \<open>i\<close> of the read buffer.\<close>

definition chunk :: "nat \<Rightarrow> bytes \<Rightarrow> nat \<Rightarrow> bytes" where
  "chunk bs buf i = take bs (drop (i * bs) buf)"

lemma chunk_length: "(i + 1) * bs \<le> length buf \<Longrightarrow> length (chunk bs buf i) = bs"
  by (auto simp: chunk_def)

lemma num_blocks_to_read_eq:
  assumes "i < bc_num_fs_blocks c"
  shows "\<exists>n. BlockCache_num_blocks_to_read c i = Ok n \<and>
    unat n = min (unat (bc_max_blocks_per_read c)) (unat (bc_num_fs_blocks c) - unat i)"
proof -
  let ?m = "bc_max_blocks_per_read c" and ?nf = "bc_num_fs_blocks c"
  let ?e = "min (saturating_add i (ucast ?m)) ?nf"
  have i: "unat i < unat ?nf" using assms by (simp add: word_less_nat_alt)
  have nf: "unat ?nf < 2 ^ 64" using unat_less_bound[of ?nf] by simp
  have m: "unat ?m < 2 ^ 32" using unat_less_bound[of ?m] by simp
  have sat: "unat (saturating_add i (ucast ?m)) = min (unat i + unat ?m) (2 ^ 64 - 1)"
    by (auto simp: saturating_add_def unat_word_ariths unsigned_minus_1_eq_mask mask_eq_exp_minus_1)
  then have e: "unat ?e = min (unat i + unat ?m) (unat ?nf)"
    using nf by (auto simp: min_def word_le_nat_alt)
  then have s: "checked_sub ?e i = Some (?e - i)" "unat (?e - i) = unat ?e - unat i"
    using i by (auto simp: checked_sub_def word_le_nat_alt unat_sub)
  with e m have "unat (?e - i) = min (unat ?m) (unat ?nf - unat i)" by linarith
  with m s assms show ?thesis
    by (auto simp: BlockCache_num_blocks_to_read_def Let_def word_try_from_def unat_of_nat)
qed

lemma insert_block_eq:
  assumes "cache_inv c" and "unat k < unat (bc_max_blocks_per_read c)"
  shows "BlockCache_insert_block i k c =
    (Ok (), c\<lparr>bc_entries := \<lparr>ce_block_index = i, ce_data = chunk (unat (bc_block_size c)) (bc_read_buf c) (unat k)\<rparr>
              # butlast (bc_entries c)\<rparr>)"
proof -
  let ?bs = "unat (bc_block_size c)" and ?m = "unat (bc_max_blocks_per_read c)"
  note inv = assms(1)[unfolded cache_inv_def]
  have le: "(unat k + 1) * ?bs \<le> ?m * ?bs"
    using assms(2) by (intro mult_le_mono1) simp
  then have r: "unat k * ?bs + ?bs \<le> length (bc_read_buf c)" "unat k * ?bs + ?bs \<le> usize_max"
    using inv by (simp_all del: mult_le_cancel2)
  have ne: "bc_entries c \<noteq> []" using inv assms(2) by auto
  then have "length (ce_data (last (bc_entries c))) = ?bs" using inv by simp
  with r ne assms(2) show ?thesis
    by (auto simp: BlockCache_insert_block_def comp_defs usize_mul_def usize_add_def usize_from_u32_def
        BlockSize_to_usize_def slice_def get_range_def assert_o_def word_less_nat_alt chunk_def Let_def)
qed

text \<open>The entries that a read of \<open>n\<close> blocks starting at \<open>i\<close> puts into the cache.\<close>

definition fresh_entries :: "nat \<Rightarrow> bytes \<Rightarrow> FsBlockIndex \<Rightarrow> nat \<Rightarrow> CacheEntry list" where
  "fresh_entries bs buf i n =
     map (\<lambda>k. \<lparr>ce_block_index = i + of_nat k, ce_data = chunk bs buf k\<rparr>) [0..<n]"

lemma fresh_entries_Suc:
  "fresh_entries bs buf i (Suc n) =
   fresh_entries bs buf i n @ [\<lparr>ce_block_index = i + of_nat n, ce_data = chunk bs buf n\<rparr>]"
  by (simp add: fresh_entries_def)

lemma length_fresh_entries [simp]: "length (fresh_entries bs buf i n) = n"
  by (simp add: fresh_entries_def)

lemma cache_inv_push:
  "cache_inv c \<Longrightarrow> length (ce_data e) = unat (bc_block_size c) \<Longrightarrow>
   cache_inv (c\<lparr>bc_entries := e # butlast (bc_entries c)\<rparr>)"
  by (auto simp: cache_inv_def word_less_nat_alt dest: in_set_butlastD)

lemma insert_blocks_eq:
  assumes "cache_inv c" and "n \<le> unat (bc_max_blocks_per_read c)" and "unat i + n \<le> 2 ^ 64"
  shows "insert_blocks i n c = (Ok (), c\<lparr>bc_entries :=
     fresh_entries (unat (bc_block_size c)) (bc_read_buf c) i n @ take (length (bc_entries c) - n) (bc_entries c)\<rparr>)"
  using assms
proof (induction n arbitrary: c)
  case 0
  then show ?case by (simp add: ret_def fresh_entries_def)
next
  case (Suc n)
  let ?bs = "unat (bc_block_size c)"
  let ?e = "\<lparr>ce_block_index = i + of_nat n, ce_data = chunk ?bs (bc_read_buf c) n\<rparr>"
  let ?c = "c\<lparr>bc_entries := ?e # butlast (bc_entries c)\<rparr>"
  note inv = Suc.prems(1)[unfolded cache_inv_def]
  have n: "n < 2 ^ 32" "unat (of_nat n :: u32) = n" "unat (of_nat n :: u64) = n"
    using Suc.prems(2) unat_less_bound[of "bc_max_blocks_per_read c"] by (simp_all add: unat_of_nat)
  have ca: "checked_add i (of_nat n) = Some (i + of_nat n)"
    using Suc.prems(3) n by (simp add: checked_add_def)
  have "(n + 1) * ?bs \<le> length (bc_read_buf c)"
    using inv Suc.prems(2) by (metis Suc_eq_plus1 mult_le_mono1)
  then have "cache_inv ?c"
    by (intro cache_inv_push) (use Suc.prems(1) in \<open>simp_all add: chunk_length\<close>)
  then have IH: "insert_blocks i n ?c = (Ok (), ?c\<lparr>bc_entries :=
      fresh_entries ?bs (bc_read_buf c) i n @ take (length (bc_entries c) - n) (bc_entries ?c)\<rparr>)"
    using Suc.IH[of ?c] Suc.prems inv by auto
  obtain k where k: "length (bc_entries c) - n = Suc k" "length (bc_entries c) - Suc n = k"
    using inv Suc.prems(2) by (metis Suc_diff_Suc Suc_le_lessD le_trans)
  then have "take k (butlast (bc_entries c)) = take k (bc_entries c)"
    by (simp add: butlast_conv_take take_take min_def) (use k in linarith)
  then show ?case
    using insert_block_eq[OF Suc.prems(1), of "of_nat n" "i + of_nat n"] Suc.prems(2) n ca IH k
    by (simp add: comp_defs fresh_entries_Suc)
qed

lemma position_Some:
  "position p xs = Some k \<Longrightarrow> k < length xs \<and> p (xs ! k) \<and> (\<forall>j<k. \<not> p (xs ! j))"
  by (induction p xs arbitrary: k rule: position.induct)
     (auto split: if_splits simp: nth_Cons split: nat.splits)

lemma position_None: "position p xs = None \<longleftrightarrow> (\<forall>x \<in> set xs. \<not> p x)"
  by (induction p xs rule: position.induct) auto

text \<open>A hit moves the entry to the front and touches neither the closure nor the buffer.\<close>

lemma get_or_insert_hit:
  assumes "i < bc_num_fs_blocks c"
    and "position (\<lambda>e. ce_block_index e = i) (bc_entries c) = Some k"
  shows "BlockCache_get_or_insert_blocks i f c =
    (Ok (ce_data (bc_entries c ! k)),
     c\<lparr>bc_entries := bc_entries c ! k # take k (bc_entries c) @ drop (Suc k) (bc_entries c)\<rparr>)"
proof -
  have "k < length (bc_entries c)" using position_Some[OF assms(2)] by simp
  then show ?thesis
    using assms
    by (cases "k = 0"; cases "bc_entries c")
       (auto simp: BlockCache_get_or_insert_blocks_def comp_defs assert_o_def index_at_def get_at_def)
qed

text \<open>A miss calls the closure once, for as many blocks as fit; when it succeeds the new blocks
  come first, in order, and as many entries are dropped from the back.\<close>

definition read_count :: "BlockCache \<Rightarrow> FsBlockIndex \<Rightarrow> nat" where
  "read_count c i = min (unat (bc_max_blocks_per_read c)) (unat (bc_num_fs_blocks c) - unat i)"

definition after_miss :: "BlockCache \<Rightarrow> FsBlockIndex \<Rightarrow> bytes \<Rightarrow> BlockCache" where
  "after_miss c i data =
     (let n = read_count c i; bs = unat (bc_block_size c) in
      c\<lparr>bc_read_buf := data @ drop (n * bs) (bc_read_buf c),
        bc_entries := fresh_entries bs data i n @ take (length (bc_entries c) - n) (bc_entries c)\<rparr>)"

lemma read_count_bounds:
  assumes "cache_inv c" and "i < bc_num_fs_blocks c"
  shows "0 < read_count c i" "read_count c i \<le> unat (bc_max_blocks_per_read c)"
    "unat i + read_count c i \<le> 2 ^ 64"
    "read_count c i * unat (bc_block_size c) \<le> length (bc_read_buf c)"
    "read_count c i * unat (bc_block_size c) \<le> usize_max"
proof -
  have "unat (bc_num_fs_blocks c) < 2 ^ 64"
    using unat_less_bound[of "bc_num_fs_blocks c"] by simp
  then show "0 < read_count c i" and le: "read_count c i \<le> unat (bc_max_blocks_per_read c)"
    and "unat i + read_count c i \<le> 2 ^ 64"
    using assms by (auto simp: read_count_def cache_inv_def word_less_nat_alt)
  show "read_count c i * unat (bc_block_size c) \<le> length (bc_read_buf c)"
    and "read_count c i * unat (bc_block_size c) \<le> usize_max"
    using mult_le_mono1[OF le, of "unat (bc_block_size c)"] assms(1)[unfolded cache_inv_def]
    by linarith+
qed

lemma chunk_append: "(k + 1) * bs \<le> length data \<Longrightarrow> chunk bs (data @ rest) k = chunk bs data k"
  by (simp add: chunk_def)

lemma fresh_entries_append:
  assumes "length data = n * bs"
  shows "fresh_entries bs (data @ rest) i n = fresh_entries bs data i n"
proof -
  have "k < n \<Longrightarrow> (k + 1) * bs \<le> length data" for k
    using assms by (metis Suc_eq_plus1 Suc_leI mult_le_mono1)
  then show ?thesis
    unfolding fresh_entries_def by (intro map_cong) (auto simp: chunk_append)
qed

lemma get_or_insert_miss:
  assumes inv: "cache_inv c" and i: "i < bc_num_fs_blocks c"
    and miss: "position (\<lambda>e. ce_block_index e = i) (bc_entries c) = None"
    and len: "\<And>data. f (read_count c i * unat (bc_block_size c)) = Ok data \<Longrightarrow>
                length data = read_count c i * unat (bc_block_size c)"
  shows "BlockCache_get_or_insert_blocks i f c =
    (case f (read_count c i * unat (bc_block_size c)) of
       Ok data \<Rightarrow> (Ok (chunk (unat (bc_block_size c)) data 0), after_miss c i data)
     | Err e \<Rightarrow> (Err e, c) | Panic \<Rightarrow> (Panic, c) | Diverge \<Rightarrow> (Diverge, c))"
proof -
  let ?bs = "unat (bc_block_size c)" and ?n = "read_count c i"
  obtain w where w: "BlockCache_num_blocks_to_read c i = Ok w" "unat w = ?n"
    using num_blocks_to_read_eq[OF i] by (auto simp: read_count_def)
  note b = read_count_bounds[OF inv i]
  have ins: "insert_blocks i ?n (c\<lparr>bc_read_buf := data @ drop (?n * ?bs) (bc_read_buf c)\<rparr>) =
      (Ok (), after_miss c i data)" if "length data = ?n * ?bs" for data
  proof -
    have "cache_inv (c\<lparr>bc_read_buf := data @ drop (?n * ?bs) (bc_read_buf c)\<rparr>)"
      using inv b that by (simp add: cache_inv_def)
    from insert_blocks_eq[OF this, of ?n i] b that show ?thesis
      by (simp add: after_miss_def Let_def fresh_entries_append)
  qed
  have hd: "index_at (bc_entries (after_miss c i data)) 0 =
      (Ok \<lparr>ce_block_index = i, ce_data = chunk ?bs data 0\<rparr> :: CacheEntry result)" for data
    using b(1) by (auto simp: after_miss_def Let_def nth_append fresh_entries_def)
  show ?thesis
    using i miss w b len ins
    by (cases "f (?n * ?bs)")
       (simp_all add: BlockCache_get_or_insert_blocks_def comp_defs assert_o_def usize_mul_def
        BlockSize_to_usize_def usize_from_u32_def slice_def get_range_def min_absorb2 hd
        del: index_at_eq_Ok)
qed

section \<open>Preservation of the invariant\<close>

lemma cache_inv_hit:
  assumes "cache_inv c" and "k < length (bc_entries c)"
  shows "cache_inv (c\<lparr>bc_entries := bc_entries c ! k # take k (bc_entries c) @ drop (Suc k) (bc_entries c)\<rparr>)"
  using assms by (auto simp: cache_inv_def dest: in_set_takeD in_set_dropD)

lemma fresh_entries_data_length:
  assumes "length data = n * bs" and "e \<in> set (fresh_entries bs data i n)"
  shows "length (ce_data e) = bs"
proof -
  obtain k where "k < n" "ce_data e = chunk bs data k"
    using assms(2) by (auto simp: fresh_entries_def)
  moreover from this have "(k + 1) * bs \<le> length data"
    using assms(1) by (metis Suc_eq_plus1 Suc_leI mult_le_mono1)
  ultimately show ?thesis by (simp add: chunk_length)
qed

lemma cache_inv_miss:
  assumes "cache_inv c" and "i < bc_num_fs_blocks c"
    and "length data = read_count c i * unat (bc_block_size c)"
  shows "cache_inv (after_miss c i data)"
  using assms read_count_bounds[OF assms(1,2)]
  by (auto simp: cache_inv_def after_miss_def Let_def fresh_entries_data_length dest: in_set_takeD)

section \<open>Coherence with the device\<close>

text \<open>Every entry for a block other than block 0 holds its block. Block 0 is excepted: the entries of a new cache
  are placeholders that carry its index and hold zeros.\<close>

definition cache_coherent :: "(nat \<Rightarrow> bytes) \<Rightarrow> nat \<Rightarrow> BlockCache \<Rightarrow> bool" where
  "cache_coherent blk bsize c \<longleftrightarrow> unat (bc_block_size c) = bsize \<and> cache_inv c \<and>
     (\<forall>e \<in> set (bc_entries c). ce_block_index e \<noteq> 0 \<longrightarrow> ce_data e = blk (unat (ce_block_index e)))"

text \<open>
  The contract of the closure: where it succeeds it fills the whole slice with consecutive blocks of
  one device, \<open>blk j\<close> being the content of block \<open>j\<close>. It does not panic.
\<close>

locale block_source =
  fixes fetch :: "FsBlockIndex \<Rightarrow> usize \<Rightarrow> bytes result"
    and blk :: "nat \<Rightarrow> bytes"
    and bsize :: nat
  assumes fetch_length: "fetch i n = Ok data \<Longrightarrow> length data = n"
    and fetch_blk: "fetch i (n * bsize) = Ok data \<Longrightarrow> k < n \<Longrightarrow> chunk bsize data k = blk (unat i + k)"
    and fetch_total: "fetch i n \<noteq> Panic" "fetch i n \<noteq> Diverge"
begin

abbreviation coherent :: "BlockCache \<Rightarrow> bool" where
  "coherent c \<equiv> cache_coherent blk bsize c"

lemma fresh_coherent:
  assumes "fetch i (n * bsize) = Ok data" and "unat i + n \<le> 2 ^ 64"
    and "e \<in> set (fresh_entries bsize data i n)"
  shows "ce_data e = blk (unat (ce_block_index e))"
proof -
  obtain k where k: "k < n" "e = \<lparr>ce_block_index = i + of_nat k, ce_data = chunk bsize data k\<rparr>"
    using assms(3) by (auto simp: fresh_entries_def)
  then have "unat (of_nat k :: u64) = k" "unat i + k < 2 ^ 64"
    using assms(2) by (auto simp: unat_of_nat)
  then have "unat (i + of_nat k) = unat i + k"
    by (simp add: unat_word_ariths)
  with k show ?thesis by (simp add: fetch_blk[OF assms(1) k(1)])
qed

lemma coherent_hit:
  assumes "coherent c" and "k < length (bc_entries c)"
  shows "coherent (c\<lparr>bc_entries := bc_entries c ! k # take k (bc_entries c) @ drop (Suc k) (bc_entries c)\<rparr>)"
  using assms cache_inv_hit[of c k] by (auto simp: cache_coherent_def dest: in_set_takeD in_set_dropD)

lemma coherent_miss:
  assumes "coherent c" and "i < bc_num_fs_blocks c"
    and "fetch i (read_count c i * bsize) = Ok data"
  shows "coherent (after_miss c i data)"
proof -
  have bs: "unat (bc_block_size c) = bsize" and inv: "cache_inv c"
    using assms(1) by (auto simp: cache_coherent_def)
  have "cache_inv (after_miss c i data)"
    using cache_inv_miss[OF inv assms(2)] fetch_length[OF assms(3)] bs by simp
  then show ?thesis
    using assms(1) bs fresh_coherent[OF assms(3) read_count_bounds(3)[OF inv assms(2)]]
    by (auto simp: cache_coherent_def after_miss_def Let_def dest: in_set_takeD)
qed

text \<open>An access ends without a panic, keeps the cache coherent and its device parameters, and
  returns the block asked for; an error is the closure's and leaves the cache as it was.\<close>

lemma get_or_insert_spec:
  assumes "coherent c" and "i < bc_num_fs_blocks c"
  shows "wp (BlockCache_get_or_insert_blocks i (fetch i))
    (\<lambda>data c'. coherent c' \<and> bc_num_fs_blocks c' = bc_num_fs_blocks c \<and>
       length data = bsize \<and> (i \<noteq> 0 \<longrightarrow> data = blk (unat i)) \<and>
       ce_block_index (hd (bc_entries c')) = i)
    (\<lambda>e c'. c' = c \<and> fetch i (read_count c i * bsize) = Err e) c"
proof -
  have bs: "unat (bc_block_size c) = bsize" and inv: "cache_inv c"
    using assms(1) by (auto simp: cache_coherent_def)
  show ?thesis
  proof (cases "position (\<lambda>e. ce_block_index e = i) (bc_entries c)")
    case (Some k)
    from position_Some[OF this] have k: "k < length (bc_entries c)" "ce_block_index (bc_entries c ! k) = i"
      by auto
    with assms(1) have "length (ce_data (bc_entries c ! k)) = bsize"
      "i \<noteq> 0 \<longrightarrow> ce_data (bc_entries c ! k) = blk (unat i)"
      by (auto simp: cache_coherent_def cache_inv_def)
    with k coherent_hit[OF assms(1) k(1)] show ?thesis
      by (simp add: wp_def get_or_insert_hit[OF assms(2) Some])
  next
    case None
    let ?n = "read_count c i"
    have pos: "0 < ?n" by (rule read_count_bounds(1)[OF inv assms(2)])
    have eq: "BlockCache_get_or_insert_blocks i (fetch i) c =
      (case fetch i (?n * bsize) of
         Ok data \<Rightarrow> (Ok (chunk bsize data 0), after_miss c i data)
       | Err e \<Rightarrow> (Err e, c) | Panic \<Rightarrow> (Panic, c) | Diverge \<Rightarrow> (Diverge, c))"
      using get_or_insert_miss[OF inv assms(2) None, of "fetch i"] bs by (simp add: fetch_length cong: outcome.case_cong)
    have "bc_num_fs_blocks (after_miss c i data) = bc_num_fs_blocks c"
      "ce_block_index (hd (bc_entries (after_miss c i data))) = i" for data
      using pos by (auto simp: after_miss_def Let_def fresh_entries_def upt_conv_Cons)
    moreover have "chunk bsize data 0 = blk (unat i) \<and> length (chunk bsize data 0) = bsize"
      if "fetch i (?n * bsize) = Ok data" for data
    proof -
      have "bsize \<le> length data" using fetch_length[OF that] pos by (cases ?n) auto
      then show ?thesis using fetch_blk[OF that pos] chunk_length[of 0 bsize data] by simp
    qed
    ultimately show ?thesis
      using coherent_miss[OF assms] fetch_total[of i "?n * bsize"]
      by (cases "fetch i (?n * bsize)") (auto simp: wp_def eq)
  qed
qed

text \<open>A new cache is coherent with any device.\<close>

lemma coherent_new:
  assumes "valid_block_size bs" and "unat bs = bsize"
  shows "holds (BlockCache_new bs n) (\<lambda>c. coherent c \<and> bc_num_fs_blocks c = n) (\<lambda>_. False)"
  by (rule holds_mono[OF BlockCache_new_inv[OF assms(1), of n]]) (use assms in \<open>auto simp: cache_coherent_def\<close>)

end

section \<open>Properties\<close>

text \<open>For every block size a superblock can have, creating the cache succeeds: at least one and
  at most 32 blocks per read, eight times as many entries, a read buffer of at most 32 KiB or one
  block, all entries of block length.\<close>

theorem block_cache_new_bounds:
  assumes "valid_block_size bs"
  shows "holds (BlockCache_new bs n)
    (\<lambda>c. cache_inv c \<and> bc_block_size c = bs \<and> bc_num_fs_blocks c = n \<and>
       unat (bc_max_blocks_per_read c) \<le> 32 \<and>
       length (bc_entries c) = 8 * unat (bc_max_blocks_per_read c) \<and>
       length (bc_read_buf c) \<le> max 32768 (unat bs)) (\<lambda>_. False)"
proof -
  have *: "max 32768 (unat bs) \<le> usize_max"
    using valid_block_size_bounds(2)[OF assms] by (simp add: usize_max_def)
  show ?thesis
    unfolding BlockCache_new_def
    apply (rule holds_bind_use[OF CacheOpts_new_Ok[OF assms]], simp)
    using * assms
    by (auto simp: BlockCache_with_opts_def CacheOpts_read_buf_size_in_bytes_def usize_mul_def
        usize_from_u32_def BlockSize_to_usize_def cache_inv_def word_less_nat_alt)
qed

theorem block_cache_new_bounds_witness:
  "holds (BlockCache_new 4096 100) (\<lambda>c. cache_inv c \<and> length (bc_entries c) \<le> 256) (\<lambda>_. False)"
proof -
  have "valid_block_size 4096" by code_simp
  from block_cache_new_bounds[OF this, of 100] show ?thesis
    by (rule holds_mono) auto
qed

lemma cache_access_facts:
  assumes inv: "cache_inv c" and i: "i < bc_num_fs_blocks c"
    and len: "\<And>n data. f n = Ok data \<Longrightarrow> length data = n"
  shows "BlockCache_get_or_insert_blocks i f c =
    (case position (\<lambda>e. ce_block_index e = i) (bc_entries c) of
       Some k \<Rightarrow> (Ok (ce_data (bc_entries c ! k)),
          c\<lparr>bc_entries := bc_entries c ! k # take k (bc_entries c) @ drop (Suc k) (bc_entries c)\<rparr>)
     | None \<Rightarrow> (case f (read_count c i * unat (bc_block_size c)) of
         Ok data \<Rightarrow> (Ok (chunk (unat (bc_block_size c)) data 0), after_miss c i data)
       | Err e \<Rightarrow> (Err e, c) | Panic \<Rightarrow> (Panic, c) | Diverge \<Rightarrow> (Diverge, c)))"
    and "cache_inv (snd (BlockCache_get_or_insert_blocks i f c))"
    and "length (bc_entries (snd (BlockCache_get_or_insert_blocks i f c))) = length (bc_entries c)"
proof -
  show eq: "BlockCache_get_or_insert_blocks i f c =
    (case position (\<lambda>e. ce_block_index e = i) (bc_entries c) of
       Some k \<Rightarrow> (Ok (ce_data (bc_entries c ! k)),
          c\<lparr>bc_entries := bc_entries c ! k # take k (bc_entries c) @ drop (Suc k) (bc_entries c)\<rparr>)
     | None \<Rightarrow> (case f (read_count c i * unat (bc_block_size c)) of
         Ok data \<Rightarrow> (Ok (chunk (unat (bc_block_size c)) data 0), after_miss c i data)
       | Err e \<Rightarrow> (Err e, c) | Panic \<Rightarrow> (Panic, c) | Diverge \<Rightarrow> (Diverge, c)))"
    using get_or_insert_hit[OF i] get_or_insert_miss[OF inv i, of f] len
    by (simp split: option.split)
  have le: "read_count c i \<le> length (bc_entries c)"
    using read_count_bounds(2)[OF inv i] inv by (auto simp: cache_inv_def)
  show "cache_inv (snd (BlockCache_get_or_insert_blocks i f c))"
    and "length (bc_entries (snd (BlockCache_get_or_insert_blocks i f c))) = length (bc_entries c)"
    unfolding eq
    using cache_inv_hit[OF inv] cache_inv_miss[OF inv i] inv len le
    by (auto split: option.split outcome.split dest!: position_Some simp: after_miss_def Let_def)
qed

text \<open>C22: An access to a cached block moves its entry to the front and keeps the order of the others,
  without calling the reader. An access to another block calls the reader exactly once, for the run of
  blocks that starts at the requested one and is limited by the end of the file system; on success the
  new blocks stand at the front in ascending order, and as many least recently used entries are gone;
  on failure the cache is unchanged. The number of entries never changes and the invariant is kept.\<close>

theorem cache_access_lru:
  assumes inv: "cache_inv c" and i: "i < bc_num_fs_blocks c"
    and len: "\<And>n data. f n = Ok data \<Longrightarrow> length data = n"
  shows "(BlockCache_get_or_insert_blocks i f c =
    (case position (\<lambda>e. ce_block_index e = i) (bc_entries c) of
       Some k \<Rightarrow> (Ok (ce_data (bc_entries c ! k)),
          c\<lparr>bc_entries := bc_entries c ! k # take k (bc_entries c) @ drop (Suc k) (bc_entries c)\<rparr>)
     | None \<Rightarrow> (case f (read_count c i * unat (bc_block_size c)) of
         Ok data \<Rightarrow> (Ok (chunk (unat (bc_block_size c)) data 0), after_miss c i data)
       | Err e \<Rightarrow> (Err e, c) | Panic \<Rightarrow> (Panic, c) | Diverge \<Rightarrow> (Diverge, c))))
     \<and> cache_inv (snd (BlockCache_get_or_insert_blocks i f c))
     \<and> length (bc_entries (snd (BlockCache_get_or_insert_blocks i f c))) = length (bc_entries c)"
  using cache_access_facts[OF assms] by blast

theorem cache_access_lru_witness:
  "cache_inv \<lparr>bc_read_buf = replicate 1024 0, bc_max_blocks_per_read = 1,
              bc_entries = [\<lparr>ce_block_index = 7, ce_data = replicate 1024 0\<rparr>,
                            \<lparr>ce_block_index = 3, ce_data = replicate 1024 1\<rparr>],
              bc_block_size = 1024, bc_num_fs_blocks = 9\<rparr> \<and>
   fst (BlockCache_get_or_insert_blocks 3 (\<lambda>n. Ok (replicate n 0))
     \<lparr>bc_read_buf = replicate 1024 0, bc_max_blocks_per_read = 1,
      bc_entries = [\<lparr>ce_block_index = 7, ce_data = replicate 1024 0\<rparr>,
                    \<lparr>ce_block_index = 3, ce_data = replicate 1024 1\<rparr>],
      bc_block_size = 1024, bc_num_fs_blocks = 9\<rparr>) = Ok (replicate 1024 1)"
proof -
  let ?c = "\<lparr>bc_read_buf = replicate 1024 0, bc_max_blocks_per_read = 1,
      bc_entries = [\<lparr>ce_block_index = 7, ce_data = replicate 1024 0\<rparr>,
                    \<lparr>ce_block_index = 3, ce_data = replicate 1024 1\<rparr>],
      bc_block_size = 1024, bc_num_fs_blocks = 9\<rparr>"
  have "valid_block_size 1024" by code_simp
  then have inv: "cache_inv ?c" by (simp add: cache_inv_def usize_max_def)
  from cache_access_lru[OF inv, of 3 "\<lambda>n. Ok (replicate n 0)"] inv show ?thesis by simp
qed

end
