(* ===== verification/Fs_Core.thy ===== *)
theory Fs_Core
  imports Block_Group Block_Cache
begin

text \<open>
  The loaded file system (\<open>Ext4Inner\<close> of \<^verbatim>\<open>src/src/lib.rs\<close>) and the one operation through which
  every component reads it, \<open>read_from_block\<close>. The journal (\<^verbatim>\<open>src/src/journal.rs\<close>) is its block map.
  \<open>Rc\<close> and \<open>RefCell\<close> share one file system between all iterators and files, so it is the state that
  the operations thread; they only ever change its block cache. The \<open>crc\<close> crate's function is a
  field of the record, so that operations that verify checksums reach it.
\<close>

type_synonym Journal = "FsBlockIndex \<rightharpoonup> FsBlockIndex"

record Ext4 =
  fs_superblock :: Superblock
  fs_block_group_descriptors :: "BlockGroupDescriptor list"
  fs_journal :: Journal
  fs_block_cache :: BlockCache
  fs_reader :: Ext4Read
  fs_crc :: crc_fn

type_synonym 'a fs_op = "(Ext4, 'a, Ext4Error) comp"

definition Journal_empty :: Journal where
  "Journal_empty = Map.empty"

definition Journal_map_block_index :: "Journal \<Rightarrow> FsBlockIndex \<Rightarrow> FsBlockIndex" where
  "Journal_map_block_index self block_index =
     (case self block_index of Some b \<Rightarrow> b | None \<Rightarrow> block_index)"

definition has_metadata_checksums :: "Ext4 \<Rightarrow> bool" where
  "has_metadata_checksums self =
     contains (sb_read_only_compatible_features (fs_superblock self)) METADATA_CHECKSUMS"

definition Ext4_label :: "Ext4 \<Rightarrow> Label" where
  "Ext4_label self = sb_label (fs_superblock self)"

definition Ext4_uuid :: "Ext4 \<Rightarrow> Uuid" where
  "Ext4_uuid self = sb_uuid (fs_superblock self)"

text \<open>The closure passed to the cache: read from the first byte of the block.\<close>

definition fetch_blocks :: "Ext4Error \<Rightarrow> Ext4Read \<Rightarrow> BlockSize \<Rightarrow> FsBlockIndex \<Rightarrow> usize \<Rightarrow> bytes result" where
  "fetch_blocks err reader block_size block_index n =
     bind_o (ok_or err (checked_mul block_index (BlockSize_to_u64 block_size))) (\<lambda>start_byte.
     read_io reader start_byte n)"

text \<open>Run a computation on the block cache (\<open>borrow_mut\<close> of the cell).\<close>

definition on_cache :: "'a cache_op \<Rightarrow> 'a fs_op" where
  "on_cache m fs = (case m (fs_block_cache fs) of (r, c) \<Rightarrow> (r, fs\<lparr>fs_block_cache := c\<rparr>))"

text \<open>\<open>read_from_block\<close>: the destination's length is an argument and its content the result.\<close>

definition read_from_block :: "FsBlockIndex \<Rightarrow> u32 \<Rightarrow> usize \<Rightarrow> bytes fs_op" where
  "read_from_block original_block_index offset_within_block dst_len =
     bindc (gets (\<lambda>self. self)) (\<lambda>self.
     let block_index = Journal_map_block_index (fs_journal self) original_block_index;
         err = Corrupt (BlockRead block_index original_block_index offset_within_block dst_len) in
     bindc (lift (require (\<not> (block_index = 0 \<and> offset_within_block < 1024)) err)) (\<lambda>_.
     bindc (lift (require (\<not> block_index \<ge> sb_blocks_count (fs_superblock self)) err)) (\<lambda>_.
     let block_size = sb_block_size (fs_superblock self) in
     bindc (lift (require (\<not> offset_within_block \<ge> block_size) err)) (\<lambda>_.
     bindc (lift (ok_or err (usize_add (usize_from_u32 offset_within_block) dst_len))) (\<lambda>read_end.
     bindc (lift (require (\<not> read_end > BlockSize_to_usize block_size) err)) (\<lambda>_.
     bindc (on_cache (BlockCache_get_or_insert_blocks block_index
              (fetch_blocks err (fs_reader self) block_size block_index))) (\<lambda>cached_block.
     lift (slice cached_block (usize_from_u32 offset_within_block) read_end))))))))"

lemma wp_on_cache [wp_simps]:
  "wp (on_cache m) Q E fs = wp m (\<lambda>x c. Q x (fs\<lparr>fs_block_cache := c\<rparr>))
     (\<lambda>e c. E e (fs\<lparr>fs_block_cache := c\<rparr>)) (fs_block_cache fs)"
  by (simp add: wp_def on_cache_def split: prod.splits)

section \<open>The device behind the file system\<close>

text \<open>The bytes of a block, and of a range within a block, on a device.\<close>

definition disk_range :: "(nat \<Rightarrow> u8) \<Rightarrow> nat \<Rightarrow> nat \<Rightarrow> bytes" where
  "disk_range disk start n = map (\<lambda>i. disk (start + i)) [0..<n]"

definition disk_block :: "(nat \<Rightarrow> u8) \<Rightarrow> nat \<Rightarrow> nat \<Rightarrow> bytes" where
  "disk_block disk bsize i = disk_range disk (i * bsize) bsize"

lemma length_disk_range [simp]: "length (disk_range disk s n) = n"
  by (simp add: disk_range_def)

lemma take_drop_disk_range:
  "a + k \<le> n \<Longrightarrow> take k (drop a (disk_range disk s n)) = disk_range disk (s + a) k"
  by (rule nth_equalityI) (auto simp: disk_range_def add.assoc)

lemma chunk_disk_range:
  assumes "k < n"
  shows "chunk bsize (disk_range disk (i * bsize) (n * bsize)) k = disk_block disk bsize (i + k)"
proof -
  have "(k + 1) * bsize \<le> n * bsize" using assms by (intro mult_le_mono1) simp
  then show ?thesis
    by (simp add: chunk_def disk_block_def take_drop_disk_range algebra_simps)
qed

text \<open>A reader that keeps its contract gives the closure that keeps the cache's: the blocks it
  fetches are the blocks of the device.\<close>

sublocale ext4_reader \<subseteq> fetched: block_source "fetch_blocks err read bs" "disk_block disk (unat bs)" "unat bs"
  for err bs
proof unfold_locales
  show "length data = n" if "fetch_blocks err read bs i n = Ok data" for i n data
    using that by (auto simp: fetch_blocks_def read_exact)
  show "chunk (unat bs) data k = disk_block disk (unat bs) (unat i + k)"
    if f: "fetch_blocks err read bs i (n * unat bs) = Ok data" and k: "k < n" for i n data k
  proof -
    obtain s where s: "checked_mul i (ucast bs) = Some s" "read s (n * unat bs) = Inr data"
      using f by (auto simp: fetch_blocks_def BlockSize_to_u64_def)
    then have "data = disk_range disk (unat i * unat bs) (n * unat bs)"
      using read_eq[OF s(2)] checked_mul_SomeD[OF s(1)] by (simp add: disk_range_def)
    with k show ?thesis by (simp add: chunk_disk_range)
  qed
  show "fetch_blocks err read bs i n \<noteq> Panic" "fetch_blocks err read bs i n \<noteq> Diverge" for i n
    by (cases "checked_mul i (ucast bs)";
        auto simp: fetch_blocks_def read_io_def BlockSize_to_u64_def split: sum.splits)+
qed

context ext4_reader
begin

text \<open>A cached block access on top of the reader.\<close>

lemma cached_access:
  assumes "cache_coherent (disk_block disk (unat bs)) (unat bs) c" and "i < bc_num_fs_blocks c"
  shows "wp (BlockCache_get_or_insert_blocks i (fetch_blocks err read bs i))
    (\<lambda>data c'. cache_coherent (disk_block disk (unat bs)) (unat bs) c' \<and>
       bc_num_fs_blocks c' = bc_num_fs_blocks c \<and> length data = unat bs \<and>
       (i \<noteq> 0 \<longrightarrow> data = disk_block disk (unat bs) (unat i)) \<and>
       ce_block_index (hd (bc_entries c')) = i)
    (\<lambda>e c'. c' = c \<and> fetch_blocks err read bs i (read_count c i * unat bs) = Err e) c"
  using assms by (rule fetched.get_or_insert_spec)

lemma new_cache_coherent:
  assumes "valid_block_size bs"
  shows "holds (BlockCache_new bs n)
    (\<lambda>c. cache_coherent (disk_block disk (unat bs)) (unat bs) c \<and> bc_num_fs_blocks c = n) (\<lambda>_. False)"
  using assms by (rule fetched.coherent_new) (rule refl)

end

text \<open>
  A well-formed loaded file system over a device: a valid superblock, a reader that keeps its
  contract, and a cache for the same block size and number of blocks that agrees with the device in every block
  but block 0.
\<close>

definition fs_ok :: "(nat \<Rightarrow> u8) \<Rightarrow> Ext4 \<Rightarrow> bool" where
  "fs_ok disk fs \<longleftrightarrow>
     valid_superblock (fs_superblock fs) \<and>
     ext4_reader (fs_reader fs) disk \<and>
     bc_num_fs_blocks (fs_block_cache fs) = sb_blocks_count (fs_superblock fs) \<and>
     cache_coherent (disk_block disk (unat (sb_block_size (fs_superblock fs))))
       (unat (sb_block_size (fs_superblock fs))) (fs_block_cache fs)"

text \<open>The same file system up to the content of its cache.\<close>

definition same_fs :: "Ext4 \<Rightarrow> Ext4 \<Rightarrow> bool" where
  "same_fs fs fs' \<longleftrightarrow> fs\<lparr>fs_block_cache := fs_block_cache fs'\<rparr> = fs'"

lemma same_fsD:
  assumes "same_fs fs fs'"
  shows "fs_superblock fs' = fs_superblock fs" "fs_block_group_descriptors fs' = fs_block_group_descriptors fs"
    "fs_journal fs' = fs_journal fs" "fs_reader fs' = fs_reader fs" "fs_crc fs' = fs_crc fs"
  using arg_cong[OF assms[unfolded same_fs_def], of fs_superblock]
    arg_cong[OF assms[unfolded same_fs_def], of fs_block_group_descriptors]
    arg_cong[OF assms[unfolded same_fs_def], of fs_journal]
    arg_cong[OF assms[unfolded same_fs_def], of fs_reader]
    arg_cong[OF assms[unfolded same_fs_def], of fs_crc]
  by simp_all

lemma same_fs_refl [simp]: "same_fs fs fs"
  by (simp add: same_fs_def)

lemma same_fs_cache [simp]: "same_fs fs (fs\<lparr>fs_block_cache := c\<rparr>)"
  by (simp add: same_fs_def)

lemma same_fs_trans: "same_fs a b \<Longrightarrow> same_fs b c \<Longrightarrow> same_fs a c"
  unfolding same_fs_def
  by (metis Ext4.surjective Ext4.update_convs(4))

section \<open>What a block read returns\<close>

text \<open>The conditions documented at \<open>read_from_block\<close>, on the mapped block.\<close>

definition readable :: "Ext4 \<Rightarrow> FsBlockIndex \<Rightarrow> u32 \<Rightarrow> usize \<Rightarrow> bool" where
  "readable fs b off n \<longleftrightarrow>
     \<not> (b = 0 \<and> off < 1024) \<and> b < sb_blocks_count (fs_superblock fs) \<and>
     off < sb_block_size (fs_superblock fs) \<and>
     unat off + n \<le> unat (sb_block_size (fs_superblock fs))"

abbreviation mapped :: "Ext4 \<Rightarrow> FsBlockIndex \<Rightarrow> FsBlockIndex" where
  "mapped fs b \<equiv> Journal_map_block_index (fs_journal fs) b"

abbreviation block_bytes :: "Ext4 \<Rightarrow> nat" where
  "block_bytes fs \<equiv> unat (sb_block_size (fs_superblock fs))"

abbreviation read_error :: "Ext4 \<Rightarrow> FsBlockIndex \<Rightarrow> u32 \<Rightarrow> usize \<Rightarrow> Ext4Error" where
  "read_error fs b off n \<equiv> Corrupt (BlockRead (mapped fs b) b off n)"

lemma fs_ok_block_size:
  assumes "fs_ok disk fs"
  shows "valid_block_size (sb_block_size (fs_superblock fs))" "1024 \<le> block_bytes fs"
    "block_bytes fs \<le> usize_max" "block_bytes fs \<le> 2147483648"
  using assms valid_block_size_bounds[of "sb_block_size (fs_superblock fs)"]
    valid_block_size_le_usize[of "sb_block_size (fs_superblock fs)"]
  by (auto simp: fs_ok_def valid_superblock_def)

lemma fs_ok_same:
  assumes "fs_ok disk fs" and "same_fs fs fs'"
    and "cache_coherent (disk_block disk (block_bytes fs)) (block_bytes fs) (fs_block_cache fs')"
    and "bc_num_fs_blocks (fs_block_cache fs') = bc_num_fs_blocks (fs_block_cache fs)"
  shows "fs_ok disk fs'"
  using assms same_fsD[OF assms(2)] by (auto simp: fs_ok_def cache_coherent_def)

text \<open>A read outside the documented conditions is refused and changes nothing.\<close>

lemma read_from_block_refused:
  assumes "fs_ok disk fs" and "\<not> readable fs (mapped fs b) off n"
  shows "read_from_block b off n fs = (Err (read_error fs b off n), fs)"
  using assms fs_ok_block_size[OF assms(1)]
  by (auto simp: read_from_block_def comp_defs require_def readable_def Let_def usize_add_def
      usize_from_u32_def BlockSize_to_usize_def not_le not_less)

text \<open>A read inside them returns the bytes of the device, or the reader's error.\<close>

lemma read_from_block_readable:
  assumes ok: "fs_ok disk fs" and r: "readable fs (mapped fs b) off n"
  shows "wp (read_from_block b off n)
    (\<lambda>data fs'. fs_ok disk fs' \<and> same_fs fs fs' \<and> length data = n \<and>
       (mapped fs b \<noteq> 0 \<longrightarrow>
          data = disk_range disk (unat (mapped fs b) * block_bytes fs + unat off) n))
    (\<lambda>e fs'. fs' = fs \<and> fetch_blocks (read_error fs b off n) (fs_reader fs) (sb_block_size (fs_superblock fs))
         (mapped fs b) (read_count (fs_block_cache fs) (mapped fs b) * block_bytes fs) = Err e) fs"
proof -
  let ?sb = "fs_superblock fs" and ?c = "fs_block_cache fs" and ?m = "mapped fs b"
  let ?err = "read_error fs b off n"
  have rd: "ext4_reader (fs_reader fs) disk"
    and co: "cache_coherent (disk_block disk (block_bytes fs)) (block_bytes fs) ?c"
    and m: "?m < bc_num_fs_blocks ?c"
    using ok r by (auto simp: fs_ok_def readable_def)
  have sl: "take n (drop (unat off) (disk_block disk (block_bytes fs) (unat ?m)))
      = disk_range disk (unat ?m * block_bytes fs + unat off) n"
    using r unfolding disk_block_def by (subst take_drop_disk_range) (auto simp: readable_def)
  note bs = fs_ok_block_size[OF ok]
  have "wp (on_cache (BlockCache_get_or_insert_blocks ?m (fetch_blocks ?err (fs_reader fs) (sb_block_size ?sb) ?m)))
     (\<lambda>data fs'. fs_ok disk fs' \<and> same_fs fs fs' \<and> length data = block_bytes fs \<and>
        (?m \<noteq> 0 \<longrightarrow> data = disk_block disk (block_bytes fs) (unat ?m)))
     (\<lambda>e fs'. fs' = fs \<and> fetch_blocks ?err (fs_reader fs) (sb_block_size ?sb) ?m
         (read_count ?c ?m * block_bytes fs) = Err e) fs"
    unfolding wp_on_cache
    by (rule wp_mono[OF ext4_reader.cached_access[OF rd co m]])
       (auto intro: fs_ok_same[OF ok])
  then show ?thesis
    using r bs
    by (simp add: read_from_block_def wp_simps Let_def readable_def usize_add_def usize_from_u32_def
        BlockSize_to_usize_def not_le not_less)
       (erule wp_mono; auto simp: sl)
qed

section \<open>Properties\<close>

lemma fetch_blocks_Err:
  "fetch_blocks err r bs i n = Err e \<Longrightarrow> e = err \<or> (\<exists>io. e = Io io)"
  by (auto simp: fetch_blocks_def bind_o_eq_Err)

lemma block_read_wp:
  assumes "fs_ok disk fs"
  shows "wp (read_from_block b off n)
    (\<lambda>data fs'. readable fs (mapped fs b) off n \<and> fs_ok disk fs' \<and> same_fs fs fs' \<and> length data = n \<and>
       (mapped fs b \<noteq> 0 \<longrightarrow>
          data = disk_range disk (unat (mapped fs b) * block_bytes fs + unat off) n))
    (\<lambda>e fs'. fs' = fs \<and>
       (e = read_error fs b off n \<or> readable fs (mapped fs b) off n \<and> (\<exists>io. e = Io io))) fs"
proof (cases "readable fs (mapped fs b) off n")
  case True
  show ?thesis
    by (rule wp_mono[OF read_from_block_readable[OF assms True]])
       (use True fetch_blocks_Err in auto)
next
  case False
  then show ?thesis by (simp add: wp_def read_from_block_refused[OF assms])
qed

text \<open>C21: On a well-formed file system a block read never panics. It succeeds only inside the
  documented conditions (not in the first 1024 bytes, block index below the block count, offset and end
  within the block), and then returns exactly the requested bytes of the device at the journal-mapped
  block, whatever the cache held (reads of block 0 excepted); the file system stays well-formed and only
  its cache changes. Outside the conditions the error is the block-read corruption that names the read,
  and inside them only an error of the reader or that corruption can occur; errors change nothing.\<close>

theorem read_from_block_correct:
  assumes "fs_ok disk fs"
  shows "wp (read_from_block b off n)
    (\<lambda>data fs'. readable fs (mapped fs b) off n \<and> fs_ok disk fs' \<and> same_fs fs fs' \<and> length data = n \<and>
       (mapped fs b \<noteq> 0 \<longrightarrow>
          data = disk_range disk (unat (mapped fs b) * block_bytes fs + unat off) n))
    (\<lambda>e fs'. fs' = fs \<and>
       (e = read_error fs b off n \<or> readable fs (mapped fs b) off n \<and> (\<exists>io. e = Io io))) fs"
  by (rule block_read_wp[OF assms])

text \<open>A device on which every block of the file system can be read.\<close>

definition device_complete :: "Ext4 \<Rightarrow> bool" where
  "device_complete fs \<longleftrightarrow>
     unat (sb_blocks_count (fs_superblock fs)) * block_bytes fs \<le> 2 ^ 64 \<and>
     (\<forall>start n. unat start + n \<le> unat (sb_blocks_count (fs_superblock fs)) * block_bytes fs \<longrightarrow>
        (\<exists>bs. fs_reader fs start n = Inr bs))"

lemma fetch_blocks_complete:
  assumes "device_complete fs" and "unat i + n \<le> unat (sb_blocks_count (fs_superblock fs))"
    and "0 < n" and "0 < block_bytes fs"
  shows "fetch_blocks err (fs_reader fs) (sb_block_size (fs_superblock fs)) i (n * block_bytes fs) \<noteq> Err e"
proof -
  let ?b = "block_bytes fs" and ?N = "unat (sb_blocks_count (fs_superblock fs))"
  have le: "(unat i + n) * ?b \<le> ?N * ?b" using assms(2) by (rule mult_le_mono1)
  have "unat i * ?b < (unat i + n) * ?b" using assms(3,4) by simp
  with le assms(1)[unfolded device_complete_def] have "unat i * ?b < 2 ^ 64" by linarith
  then have "checked_mul i (ucast (sb_block_size (fs_superblock fs))) = Some (i * ucast (sb_block_size (fs_superblock fs)))"
    and "unat (i * ucast (sb_block_size (fs_superblock fs)) :: u64) = unat i * ?b"
    by (simp_all add: checked_mul_def unat_word_ariths)
  moreover from this le assms(1) obtain d
    where "fs_reader fs (i * ucast (sb_block_size (fs_superblock fs))) (n * ?b) = Inr d"
    unfolding device_complete_def by (metis add_mult_distrib)
  ultimately show ?thesis
    by (simp add: fetch_blocks_def BlockSize_to_u64_def read_io_def)
qed

text \<open>The read without a cache, as a function of the device.\<close>

definition block_read_spec :: "(nat \<Rightarrow> u8) \<Rightarrow> Ext4 \<Rightarrow> FsBlockIndex \<Rightarrow> u32 \<Rightarrow> usize \<Rightarrow> bytes result" where
  "block_read_spec disk fs b off n =
     (if readable fs (mapped fs b) off n
      then Ok (disk_range disk (unat (mapped fs b) * block_bytes fs + unat off) n)
      else Err (read_error fs b off n))"

lemma cache_transparent:
  assumes "fs_ok disk fs" and "device_complete fs" and "mapped fs b \<noteq> 0"
  shows "fst (read_from_block b off n fs) = block_read_spec disk fs b off n \<and>
     fs_ok disk (snd (read_from_block b off n fs)) \<and> same_fs fs (snd (read_from_block b off n fs))"
proof (cases "readable fs (mapped fs b) off n")
  case False
  then show ?thesis
    using assms(1) by (simp add: read_from_block_refused[OF assms(1)] block_read_spec_def)
next
  case True
  have i: "mapped fs b < bc_num_fs_blocks (fs_block_cache fs)" and inv: "cache_inv (fs_block_cache fs)"
    using assms(1) True by (auto simp: fs_ok_def readable_def cache_coherent_def)
  have pos: "0 < block_bytes fs" using fs_ok_block_size(2)[OF assms(1)] by simp
  have "unat (mapped fs b) + read_count (fs_block_cache fs) (mapped fs b)
      \<le> unat (sb_blocks_count (fs_superblock fs))"
    using i assms(1) by (auto simp: read_count_def fs_ok_def word_less_nat_alt)
  from fetch_blocks_complete[OF assms(2) this read_count_bounds(1)[OF inv i] pos]
  show ?thesis
    using read_from_block_readable[OF assms(1) True] True assms(3)
    by (cases "read_from_block b off n fs"; cases "fst (read_from_block b off n fs)")
       (auto simp: wp_def block_read_spec_def)
qed

text \<open>The cache is transparent: on a device on which every block can be read, the result of a block
  read (of a block other than block 0) is the function of the superblock, the journal and the device
  that ignores the cache, from every well-formed cache state.\<close>

theorem read_from_block_cache_transparent:
  assumes "fs_ok disk fs" and "device_complete fs" and "mapped fs b \<noteq> 0"
  shows "fst (read_from_block b off n fs) = block_read_spec disk fs b off n \<and>
     fs_ok disk (snd (read_from_block b off n fs)) \<and> same_fs fs (snd (read_from_block b off n fs))"
  by (rule cache_transparent[OF assms])

text \<open>A new cache is filled with zero entries that are tagged with block index 0, so the first read
  of block 0 behind its reserved bytes returns zeros without asking the reader, whatever the device
  holds there.\<close>

theorem fresh_cache_hides_block_0:
  assumes "BlockCache_new (sb_block_size (fs_superblock fs)) (sb_blocks_count (fs_superblock fs)) = Ok c"
    and "fs_block_cache fs = c" and "valid_superblock (fs_superblock fs)"
    and "mapped fs b = 0" and "readable fs 0 off n"
  shows "fst (read_from_block b off n fs) = Ok (replicate n 0)"
proof -
  let ?bs = "sb_block_size (fs_superblock fs)"
  have v: "valid_block_size ?bs" using assms(3) by (simp add: valid_superblock_def)
  have inv: "cache_inv c" and n: "bc_num_fs_blocks c = sb_blocks_count (fs_superblock fs)"
    using BlockCache_new_inv[OF v, of "sb_blocks_count (fs_superblock fs)"] assms(1) by auto
  have e: "bc_entries c = replicate (length (bc_entries c)) \<lparr>ce_block_index = 0, ce_data = replicate (unat ?bs) 0\<rparr>"
    using assms(1)
    by (auto simp: BlockCache_new_def BlockCache_with_opts_def CacheOpts_new_def Let_def
        BlockSize_to_usize_def usize_from_u32_def)
  have "0 < length (bc_entries c)"
    using inv by (auto simp: cache_inv_def word_less_nat_alt)
  then obtain es where es: "bc_entries c = \<lparr>ce_block_index = 0, ce_data = replicate (unat ?bs) 0\<rparr> # es"
    using e by (cases "length (bc_entries c)") auto
  then have "position (\<lambda>e. ce_block_index e = 0) (bc_entries c) = Some 0" by simp
  from get_or_insert_hit[OF _ this] es assms(2,5) n valid_block_size_le_usize[OF v] show ?thesis
    by (auto simp: read_from_block_def comp_defs Let_def assms(4) require_def readable_def not_le not_less
        on_cache_def usize_add_def usize_from_u32_def BlockSize_to_usize_def slice_def get_range_def min_def)
qed

section \<open>Operations that compute a function of the device\<close>

text \<open>
  \<open>good disk fs0 fs\<close>: a state reachable from \<open>fs0\<close> by reads. \<open>computes disk fs0 fs m r\<close>: run in such a
  state, \<open>m\<close> ends with \<open>r\<close>, whatever the cache held. The rules compose it along the code of an
  operation, with the reads replaced by the device's content.
\<close>

definition good :: "(nat \<Rightarrow> u8) \<Rightarrow> Ext4 \<Rightarrow> Ext4 \<Rightarrow> bool" where
  "good disk fs0 fs \<longleftrightarrow> fs_ok disk fs \<and> same_fs fs0 fs"

definition computes :: "(nat \<Rightarrow> u8) \<Rightarrow> Ext4 \<Rightarrow> Ext4 \<Rightarrow> 'a fs_op \<Rightarrow> 'a result \<Rightarrow> bool" where
  "computes disk fs0 fs m r \<longleftrightarrow> fst (m fs) = r \<and> good disk fs0 (snd (m fs))"

named_theorems computes_intros \<open>rules for \<open>computes\<close>\<close>

lemma good_refl: "fs_ok disk fs \<Longrightarrow> good disk fs fs"
  by (simp add: good_def)

lemma good_trans: "good disk a b \<Longrightarrow> good disk b c \<Longrightarrow> good disk a c"
  by (auto simp: good_def intro: same_fs_trans)

lemma good_sel:
  assumes "good disk fs0 fs"
  shows "fs_superblock fs = fs_superblock fs0" "fs_journal fs = fs_journal fs0"
    "fs_crc fs = fs_crc fs0" "fs_block_group_descriptors fs = fs_block_group_descriptors fs0"
    "has_metadata_checksums fs = has_metadata_checksums fs0"
  using assms same_fsD[of fs0 fs] by (auto simp: good_def has_metadata_checksums_def)

lemma good_spec:
  assumes "good disk fs0 fs"
  shows "block_read_spec disk fs b off n = block_read_spec disk fs0 b off n"
    "device_complete fs = device_complete fs0"
  using assms same_fsD[of fs0 fs]
  by (auto simp: good_def block_read_spec_def readable_def device_complete_def)

lemma computes_lift [computes_intros]: "good disk fs0 fs \<Longrightarrow> computes disk fs0 fs (lift r) r"
  by (simp add: computes_def lift_def)

lemma computes_ret [computes_intros]: "good disk fs0 fs \<Longrightarrow> computes disk fs0 fs (ret x) (Ok x)"
  by (simp add: computes_def ret_def)

lemma computes_bind:
  assumes "computes disk fs0 fs m r"
    and "\<And>x fs'. r = Ok x \<Longrightarrow> good disk fs0 fs' \<Longrightarrow> computes disk fs0 fs' (f x) (g x)"
  shows "computes disk fs0 fs (bindc m f) (bind_o r g)"
  using assms by (cases "m fs"; cases r) (auto simp: computes_def bindc_def)

lemma computes_gets [computes_intros]:
  "g fs = g fs0 \<Longrightarrow> computes disk fs0 fs (f (g fs0)) r \<Longrightarrow> computes disk fs0 fs (bindc (gets g) f) r"
  by (simp add: computes_def bindc_def gets_def)

lemma computes_lift_bind [computes_intros]:
  assumes "good disk fs0 fs" and "\<And>x. r = Ok x \<Longrightarrow> computes disk fs0 fs (f x) (g x)"
  shows "computes disk fs0 fs (bindc (lift r) f) (bind_o r g)"
  using assms by (cases r) (auto simp: computes_def bindc_def lift_def)

lemma computes_ret_bind [computes_intros]:
  "computes disk fs0 fs (f x) r \<Longrightarrow> computes disk fs0 fs (bindc (ret x) f) r"
  by (simp add: computes_def bindc_def ret_def)

lemma computes_let [computes_intros]:
  "(\<And>x. x = v \<Longrightarrow> computes disk fs0 fs (f x) (g x)) \<Longrightarrow>
   computes disk fs0 fs (let x = v in f x) (let x = v in g x)"
  by simp

lemma computes_if [computes_intros]:
  "(b \<Longrightarrow> computes disk fs0 fs m r) \<Longrightarrow> (\<not> b \<Longrightarrow> computes disk fs0 fs m' r') \<Longrightarrow>
   computes disk fs0 fs (if b then m else m') (if b then r else r')"
  by simp

lemma computesD: "computes disk fs0 fs m r \<Longrightarrow> \<exists>fs'. m fs = (r, fs') \<and> good disk fs0 fs'"
  by (cases "m fs") (auto simp: computes_def)

text \<open>A block read computes the content of the device. Reads below offset 1024 of block 0 are
  refused, so only reads further into block 0 need to be excluded.\<close>

lemma computes_read:
  assumes "good disk fs0 fs" and "device_complete fs0" and "off < 1024 \<or> mapped fs0 b \<noteq> 0"
  shows "computes disk fs0 fs (read_from_block b off n) (block_read_spec disk fs0 b off n)"
proof -
  have ok: "fs_ok disk fs" and same: "same_fs fs0 fs" using assms(1) by (simp_all add: good_def)
  note [simp] = good_sel[OF assms(1)]
  have dc: "device_complete fs" using assms(1,2) good_spec(2) by blast
  have "fst (read_from_block b off n fs) = block_read_spec disk fs b off n \<and>
     fs_ok disk (snd (read_from_block b off n fs)) \<and> same_fs fs (snd (read_from_block b off n fs))"
  proof (cases "mapped fs b = 0")
    case True
    with assms(3) have "\<not> readable fs (mapped fs b) off n" by (auto simp: readable_def)
    with ok show ?thesis by (simp add: read_from_block_refused block_read_spec_def)
  next
    case False
    with cache_transparent[OF ok dc] show ?thesis by blast
  qed
  then show ?thesis
    using good_spec(1)[OF assms(1)] same by (auto simp: computes_def good_def intro: same_fs_trans)
qed

section \<open>Concrete file systems\<close>

text \<open>A file system just loaded from a byte vector, with an empty journal.\<close>

definition vec_fs :: "Superblock \<Rightarrow> BlockGroupDescriptor list \<Rightarrow> bytes \<Rightarrow> Ext4" where
  "vec_fs sb bgds img =
     \<lparr>fs_superblock = sb, fs_block_group_descriptors = bgds, fs_journal = Journal_empty,
      fs_block_cache = (case BlockCache_new (sb_block_size sb) (sb_blocks_count sb) of Ok c \<Rightarrow> c),
      fs_reader = Vec_read img, fs_crc = (\<lambda>_ _. 0)\<rparr>"

lemma vec_fs_sel [simp]:
  "fs_superblock (vec_fs sb bgds img) = sb" "fs_block_group_descriptors (vec_fs sb bgds img) = bgds"
  "fs_journal (vec_fs sb bgds img) = Journal_empty" "fs_reader (vec_fs sb bgds img) = Vec_read img"
  "fs_crc (vec_fs sb bgds img) = (\<lambda>_ _. 0)"
  by (simp_all add: vec_fs_def)

lemma Journal_empty_map [simp]: "Journal_map_block_index Journal_empty b = b"
  by (simp add: Journal_map_block_index_def Journal_empty_def)

lemma vec_fs_cache:
  assumes "valid_superblock sb"
  shows "BlockCache_new (sb_block_size sb) (sb_blocks_count sb) = Ok (fs_block_cache (vec_fs sb bgds img))"
proof -
  have "valid_block_size (sb_block_size sb)" using assms by (simp add: valid_superblock_def)
  from BlockCache_new_inv[OF this, of "sb_blocks_count sb"] show ?thesis
    by (cases "BlockCache_new (sb_block_size sb) (sb_blocks_count sb)") (auto simp: vec_fs_def)
qed

lemma vec_fs_ok:
  assumes "valid_superblock sb"
  shows "fs_ok (disk_of img) (vec_fs sb bgds img)"
proof -
  have "valid_block_size (sb_block_size sb)" using assms by (simp add: valid_superblock_def)
  from vec.new_cache_coherent[OF this, where n = "sb_blocks_count sb" and src = img] vec_fs_cache[OF assms, of bgds img] assms
  show ?thesis
    by (simp add: fs_ok_def vec.ext4_reader_axioms)
qed

lemma vec_fs_complete:
  assumes "unat (sb_blocks_count sb) * unat (sb_block_size sb) \<le> length img"
    and "length img \<le> usize_max"
  shows "device_complete (vec_fs sb bgds img)"
  using assms by (auto simp: device_complete_def usize_max_def Vec_read_inside)

lemma sample_superblock_valid: "valid_superblock sample_superblock"
proof -
  have "valid_block_size 1024" by code_simp
  then show ?thesis
    by (simp add: valid_superblock_def sample_superblock_def supported_features_def contains_def
        IncompatibleFeatures_all_def disallowed_features_def)
qed

abbreviation sample_fs :: "bytes \<Rightarrow> Ext4" where
  "sample_fs img \<equiv> vec_fs sample_superblock [\<lparr>bgd_inode_table_first_block = 5, bgd_checksum = 0\<rparr>] img"

lemma sample_fs_ok: "fs_ok (disk_of img) (sample_fs img)"
  by (rule vec_fs_ok[OF sample_superblock_valid])

lemma sample_fs_complete: "length img = 16384 \<Longrightarrow> device_complete (sample_fs img)"
  by (rule vec_fs_complete) (simp_all add: sample_superblock_def usize_max_def)

theorem read_from_block_correct_witness:
  "fs_ok (disk_of [1, 2, 3]) (vec_fs sample_superblock [] [1, 2, 3]) \<and>
   wp (read_from_block 20 0 8) (\<lambda>_ _. False)
     (\<lambda>e fs'. e = Corrupt (BlockRead 20 20 0 8)) (vec_fs sample_superblock [] [1, 2, 3])"
proof -
  have ok: "fs_ok (disk_of [1, 2, 3]) (vec_fs sample_superblock [] [1, 2, 3])"
    by (rule vec_fs_ok[OF sample_superblock_valid])
  have "wp (read_from_block 20 0 8) (\<lambda>_ _. False)
     (\<lambda>e fs'. e = Corrupt (BlockRead 20 20 0 8)) (vec_fs sample_superblock [] [1, 2, 3])"
    by (rule wp_mono[OF read_from_block_correct[OF ok]])
       (auto simp: readable_def sample_superblock_def)
  with ok show ?thesis by simp
qed

theorem read_from_block_cache_transparent_witness:
  "fst (read_from_block 5 1000 4 (vec_fs sample_superblock [] (replicate 16384 7))) = Ok (replicate 4 7)"
proof -
  let ?fs = "vec_fs sample_superblock [] (replicate 16384 7)"
  have c: "device_complete ?fs"
    by (rule vec_fs_complete) (simp_all add: sample_superblock_def usize_max_def)
  have "fst (read_from_block 5 1000 4 ?fs) = block_read_spec (disk_of (replicate 16384 7)) ?fs 5 1000 4"
    by (rule conjunct1[OF read_from_block_cache_transparent[OF vec_fs_ok[OF sample_superblock_valid] c]]) simp
  also have "\<dots> = Ok (replicate 4 7)"
    by (auto simp: block_read_spec_def readable_def disk_range_def sample_superblock_def disk_of_def
        intro!: nth_equalityI)
  finally show ?thesis .
qed

theorem fresh_cache_hides_block_0_witness:
  "fst (read_from_block 0 1024 4
     (vec_fs (sample_superblock\<lparr>sb_block_size := 4096\<rparr>) [] (replicate 65536 7))) = Ok (replicate 4 0)"
proof -
  let ?sb = "sample_superblock\<lparr>sb_block_size := 4096\<rparr>"
  have "valid_block_size 4096" by code_simp
  then have v: "valid_superblock ?sb"
    using sample_superblock_valid by (simp add: valid_superblock_def) (simp add: sample_superblock_def)
  let ?fs = "vec_fs ?sb [] (replicate 65536 7)"
  have "BlockCache_new (sb_block_size (fs_superblock ?fs)) (sb_blocks_count (fs_superblock ?fs)) =
      Ok (fs_block_cache ?fs)"
    unfolding vec_fs_sel by (rule vec_fs_cache[OF v])
  moreover have "readable ?fs 0 1024 4"
    unfolding readable_def vec_fs_sel by (simp add: sample_superblock_def)
  ultimately show ?thesis
    using v by (intro fresh_cache_hides_block_0) (simp_all only: vec_fs_sel Journal_empty_map)
qed

end
