(* ===== verification/Inode.thy ===== *)
theory Inode
  imports Fs_Core
begin

text \<open>
  Inodes (\<^verbatim>\<open>src/src/inode.rs\<close>): where an inode lies on the device, its parser, and reading one with
  its checksum. \<open>Inode::symlink_target\<close> needs paths and files and is in the theory of files.
\<close>

type_synonym InodeFlags = u32

abbreviation (input) DIRECTORY_ENCRYPTED :: InodeFlags where "DIRECTORY_ENCRYPTED \<equiv> 0x800"
abbreviation (input) DIRECTORY_HTREE :: InodeFlags where "DIRECTORY_HTREE \<equiv> 0x1000"
abbreviation (input) EXTENTS :: InodeFlags where "EXTENTS \<equiv> 0x80000"

record Inode =
  in_index :: InodeIndex
  in_inline_data :: bytes
  in_metadata :: Metadata
  in_flags :: InodeFlags
  in_checksum_base :: Checksum
  in_file_size_in_blocks :: u32

definition INLINE_DATA_LEN :: usize where
  "INLINE_DATA_LEN = 60"

definition L_I_CHECKSUM_LO_OFFSET :: usize where
  "L_I_CHECKSUM_LO_OFFSET = 0x74 + 0x8"

definition I_CHECKSUM_HI_OFFSET :: usize where
  "I_CHECKSUM_HI_OFFSET = 0x82"

definition Inode_from_bytes :: "Ext4 \<Rightarrow> InodeIndex \<Rightarrow> bytes \<Rightarrow> (Inode \<times> u32) result" where
  "Inode_from_bytes ext4 index data =
     bind_o (require (\<not> length data < 128) (Corrupt (InodeTruncated index (length data)))) (\<lambda>_.
     bind_o (require (\<not> (has_metadata_checksums ext4 \<and> length data < I_CHECKSUM_HI_OFFSET + 2))
               (Corrupt (InodeTruncated index (length data)))) (\<lambda>_.
     bind_o (read_u16le data 0x0) (\<lambda>i_mode.
     bind_o (read_u16le data 0x2) (\<lambda>i_uid.
     bind_o (read_u32le data 0x4) (\<lambda>i_size_lo.
     bind_o (read_u16le data 0x18) (\<lambda>i_gid.
     bind_o (read_u32le data 0x20) (\<lambda>i_flags.
     bind_o (unwrap (get_range data 0x28 (0x28 + INLINE_DATA_LEN))) (\<lambda>i_block.
     bind_o (read_u32le data 0x64) (\<lambda>i_generation.
     bind_o (read_u32le data 0x6c) (\<lambda>i_size_high.
     bind_o (read_u16le data (0x74 + 0x4)) (\<lambda>l_i_uid_high.
     bind_o (read_u16le data (0x74 + 0x6)) (\<lambda>l_i_gid_high.
     bind_o (if has_metadata_checksums ext4
             then bind_o (read_u16le data L_I_CHECKSUM_LO_OFFSET) (\<lambda>lo.
                  bind_o (read_u16le data I_CHECKSUM_HI_OFFSET) (\<lambda>hi. Ok (lo, hi)))
             else Ok (0, 0)) (\<lambda>(l_i_checksum_lo, i_checksum_hi).
     let size_in_bytes = u64_from_hilo i_size_high i_size_lo;
         uid = u32_from_hilo l_i_uid_high i_uid;
         gid = u32_from_hilo l_i_gid_high i_gid;
         checksum = u32_from_hilo i_checksum_hi l_i_checksum_lo;
         mode = i_mode;
         checksum_base = Checksum_with_seed (sb_checksum_seed (fs_superblock ext4));
         checksum_base = Checksum_update_u32_le index checksum_base;
         checksum_base = Checksum_update_u32_le i_generation checksum_base in
     bind_o (ok_or (Corrupt TooManyBlocksInFile)
               (word_try_from (div_ceil (unat size_in_bytes)
                  (unat (BlockSize_to_u64 (sb_block_size (fs_superblock ext4))))))) (\<lambda>file_size_in_blocks.
     bind_o (map_err (\<lambda>_. Corrupt (InodeFileType index mode)) (FileType_try_from mode)) (\<lambda>file_type.
     Ok (\<lparr>in_index = index,
          in_inline_data = i_block,
          in_metadata = \<lparr>md_size_in_bytes = size_in_bytes, md_mode = mode, md_file_type = file_type,
                         md_uid = uid, md_gid = gid\<rparr>,
          in_flags = i_flags,
          in_checksum_base = checksum_base,
          in_file_size_in_blocks = file_size_in_blocks\<rparr>, checksum))))))))))))))))"

definition get_inode_location :: "Ext4 \<Rightarrow> InodeIndex \<Rightarrow> (FsBlockIndex \<times> u32) result" where
  "get_inode_location ext4 inode =
     (let sb = fs_superblock ext4 in
     bind_o (unwrap (checked_sub inode 1)) (\<lambda>inode_minus_1.
     let block_group_index = inode_minus_1 div sb_inodes_per_block_group sb in
     bind_o (ok_or (Corrupt (InodeBlockGroup inode block_group_index
                       (length (fs_block_group_descriptors ext4))))
               (get_at (fs_block_group_descriptors ext4) (usize_from_u32 block_group_index))) (\<lambda>group.
     let index_within_group = inode_minus_1 mod sb_inodes_per_block_group sb;
         err = Corrupt (InodeLocation inode block_group_index (sb_inodes_per_block_group sb)
                 (sb_inode_size sb) (sb_block_size sb) (bgd_inode_table_first_block group)) in
     bind_o (ok_or err (checked_mul (ucast index_within_group :: u64) (ucast (sb_inode_size sb))))
       (\<lambda>byte_offset_within_group.
     bind_o (ok_or err (checked_mul (BlockSize_to_u64 (sb_block_size sb))
               (bgd_inode_table_first_block group))) (\<lambda>byte_offset_of_group.
     bind_o (ok_or err (checked_add byte_offset_of_group byte_offset_within_group)) (\<lambda>start_byte.
     let block_index = start_byte div BlockSize_to_u64 (sb_block_size sb) in
     bind_o (ok_or err (word_try_from (unat (start_byte mod BlockSize_to_u64 (sb_block_size sb)))))
       (\<lambda>offset_within_block.
     Ok (block_index, offset_within_block))))))))"

definition Inode_read :: "InodeIndex \<Rightarrow> Inode fs_op" where
  "Inode_read inode_index =
     bindc (gets (\<lambda>ext4. ext4)) (\<lambda>ext4.
     bindc (lift (get_inode_location ext4 inode_index)) (\<lambda>(block_index, offset_within_block).
     bindc (read_from_block block_index offset_within_block
              (unat (sb_inode_size (fs_superblock ext4)))) (\<lambda>data.
     bindc (lift (Inode_from_bytes ext4 inode_index data)) (\<lambda>(inode, expected_checksum).
     if has_metadata_checksums ext4 then
       let checksum = in_checksum_base inode in
       bindc (lift (slice data 0 L_I_CHECKSUM_LO_OFFSET)) (\<lambda>before.
       let checksum = Checksum_update before checksum;
           checksum = Checksum_update_u16_le 0 checksum in
       bindc (lift (slice data (L_I_CHECKSUM_LO_OFFSET + 2) I_CHECKSUM_HI_OFFSET)) (\<lambda>between.
       let checksum = Checksum_update between checksum;
           checksum = Checksum_update_u16_le 0 checksum in
       bindc (lift (slice data (I_CHECKSUM_HI_OFFSET + 2) (length data))) (\<lambda>rest.
       let checksum = Checksum_update rest checksum;
           actual_checksum = Checksum_finalize (fs_crc ext4) checksum in
       if actual_checksum \<noteq> expected_checksum
       then lift (corrupt (InodeChecksum (in_index inode)))
       else ret inode)))
     else ret inode))))"

definition Inode_file_size_in_blocks :: "Inode \<Rightarrow> u32" where
  "Inode_file_size_in_blocks self = in_file_size_in_blocks self"

text \<open>\<open>Ext4::read_root_inode\<close>: the root directory is inode 2.\<close>

definition read_root_inode :: "Inode fs_op" where
  "read_root_inode =
     bindc (lift (unwrap (nonzero_new 2))) (\<lambda>root_inode_index. Inode_read root_inode_index)"

section \<open>Well-formed inodes\<close>

definition inode_ok :: "Superblock \<Rightarrow> Inode \<Rightarrow> bool" where
  "inode_ok sb inode \<longleftrightarrow>
     length (in_inline_data inode) = 60 \<and>
     unat (in_file_size_in_blocks inode) =
       div_ceil (unat (md_size_in_bytes (in_metadata inode))) (unat (sb_block_size sb)) \<and>
     FileType_try_from (md_mode (in_metadata inode)) = Ok (md_file_type (in_metadata inode))"

lemma FileType_try_from_cases: "FileType_try_from m = Err FileTypeError \<or> (\<exists>t. FileType_try_from m = Ok t)"
  by (simp add: FileType_try_from_def Let_def)

lemma holds_bind_file_type [holds_intros]:
  "(FileType_try_from m = Err FileTypeError \<Longrightarrow> E (h FileTypeError)) \<Longrightarrow>
   (\<And>t. FileType_try_from m = Ok t \<Longrightarrow> holds (f t) Q E) \<Longrightarrow>
   holds (bind_o (map_err h (FileType_try_from m)) f) Q E"
  using FileType_try_from_cases[of m] by auto

text \<open>Parsing never panics; a parsed inode is well-formed, has the requested index, and its
  checksum value is the two halves stored in it.\<close>

lemma Inode_from_bytes_ok:
  "holds (Inode_from_bytes fs i data)
     (\<lambda>(inode, sum). inode_ok (fs_superblock fs) inode \<and> in_index inode = i \<and>
        128 \<le> length data \<and> (has_metadata_checksums fs \<longrightarrow> 132 \<le> length data) \<and>
        in_checksum_base inode = \<lparr>ck_initial = word_reverse (sb_checksum_seed (fs_superblock fs)),
          ck_data = to_le_bytes i @ to_le_bytes (u32le_at data 0x64)\<rparr> \<and>
        (has_metadata_checksums fs \<longrightarrow> sum = u32_from_hilo (u16le_at data 0x82) (u16le_at data 0x7c)))
     (\<lambda>e. e = Corrupt (InodeTruncated i (length data)) \<or> e = Corrupt TooManyBlocksInFile \<or>
          (\<exists>m. e = Corrupt (InodeFileType i m)))"
  unfolding Inode_from_bytes_def
  apply (intro holds_intros)
  apply (simp_all add: I_CHECKSUM_HI_OFFSET_def L_I_CHECKSUM_LO_OFFSET_def usize_max_def inode_ok_def
      INLINE_DATA_LEN_def get_range_def Checksum_defs BlockSize_to_u64_def)
  apply (auto dest: word_try_from_SomeD)
  done

section \<open>Where inodes lie\<close>

text \<open>The byte address of an inode: its slot in the inode table of its block group.\<close>

definition inode_address :: "Ext4 \<Rightarrow> InodeIndex \<Rightarrow> nat" where
  "inode_address fs i =
     (let ipg = unat (sb_inodes_per_block_group (fs_superblock fs)); n = unat i - 1 in
      block_bytes fs * unat (bgd_inode_table_first_block (fs_block_group_descriptors fs ! (n div ipg)))
      + n mod ipg * unat (sb_inode_size (fs_superblock fs)))"

definition inode_group :: "Ext4 \<Rightarrow> InodeIndex \<Rightarrow> nat" where
  "inode_group fs i = (unat i - 1) div unat (sb_inodes_per_block_group (fs_superblock fs))"

lemma inode_minus_1:
  fixes i :: u32 assumes "i \<noteq> 0"
  shows "checked_sub i 1 = Some (i - 1)" "unat (i - 1) = unat i - 1"
  using assms by (auto simp: checked_sub_def word_le_nat_alt unat_minus_one unat_gt_0 Suc_leI)

text \<open>
  The arithmetic of the computation, one lemma per step: the group and the slot of the inode, the product
  that cannot overflow, and the split of a byte address into a block and an offset.
\<close>

abbreviation inode_slot :: "Ext4 \<Rightarrow> InodeIndex \<Rightarrow> u64" where
  "inode_slot fs i \<equiv> ucast ((i - 1) mod sb_inodes_per_block_group (fs_superblock fs))"

lemma inode_group_word:
  assumes "i \<noteq> 0"
  shows "unat ((i - 1) div sb_inodes_per_block_group (fs_superblock fs)) = inode_group fs i"
    and "unat (inode_slot fs i) = (unat i - 1) mod unat (sb_inodes_per_block_group (fs_superblock fs))"
  using inode_minus_1(2)[OF assms] by (simp_all add: inode_group_def unat_div unat_mod)

lemma slot_offset_fits:
  fixes k :: u32 and s :: u16
  shows "checked_mul (ucast k :: u64) (ucast s) = Some (ucast k * ucast s)"
    and "unat (ucast k * ucast s :: u64) = unat k * unat s"
proof -
  have "unat k * unat s < 2 ^ 32 * 2 ^ 16"
    using unat_less_bound[of k] unat_less_bound[of s] by (intro mult_strict_mono) simp_all
  then show "checked_mul (ucast k :: u64) (ucast s) = Some (ucast k * ucast s)"
    and "unat (ucast k * ucast s :: u64) = unat k * unat s"
    by (simp_all add: checked_mul_def unat_word_ariths)
qed

lemma address_split:
  fixes q :: u64 and bs :: u32
  assumes "bs \<noteq> 0"
  obtains off :: u32 where "word_try_from (unat (q mod ucast bs)) = Some off"
    "unat (q div ucast bs) * unat bs + unat off = unat q" "unat off < unat bs"
proof -
  have m: "unat (q mod ucast bs) = unat q mod unat bs" by (simp add: unat_mod)
  have "unat q mod unat bs < unat bs" using assms by (simp add: unat_gt_0)
  moreover from this have "unat q mod unat bs < 2 ^ 32" using unat_less_bound[of bs] by simp
  ultimately show ?thesis
    using that[of "word_of_nat (unat q mod unat bs)"] unfolding m
    by (simp add: word_try_from_def unat_div unat_of_nat)
qed

lemma get_inode_location_holds:
  assumes "i \<noteq> 0" and "sb_block_size (fs_superblock fs) \<noteq> 0"
  shows "holds (get_inode_location fs i)
    (\<lambda>(b, off). inode_group fs i < length (fs_block_group_descriptors fs) \<and>
       unat b * block_bytes fs + unat off = inode_address fs i \<and> unat off < block_bytes fs)
    (\<lambda>e. (\<exists>g n. e = Corrupt (InodeBlockGroup i g n) \<and> length (fs_block_group_descriptors fs) \<le> inode_group fs i) \<or>
         (\<exists>g n s b t. e = Corrupt (InodeLocation i g n s b t) \<and> 2 ^ 64 \<le> inode_address fs i))"
proof (cases "inode_group fs i < length (fs_block_group_descriptors fs)")
  case False
  then show ?thesis
    using inode_group_word(1)[OF assms(1)] inode_minus_1(1)[OF assms(1)]
    by (auto simp: get_inode_location_def Let_def get_at_def usize_from_u32_def)
next
  case True
  let ?sb = "fs_superblock fs" and ?t = "bgd_inode_table_first_block (fs_block_group_descriptors fs ! inode_group fs i)"
  let ?bs = "ucast (sb_block_size ?sb) :: u64" and ?o = "inode_slot fs i * ucast (sb_inode_size ?sb)"
  note mk = slot_offset_fits[of "(i - 1) mod sb_inodes_per_block_group ?sb" "sb_inode_size ?sb"]
  have addr: "inode_address fs i = unat ?bs * unat ?t + unat ?o"
    using inode_group_word(2)[OF assms(1), of fs] mk(2) by (simp add: inode_address_def inode_group_def Let_def)
  have "get_at (fs_block_group_descriptors fs) (usize_from_u32 ((i - 1) div sb_inodes_per_block_group ?sb)) =
      Some (fs_block_group_descriptors fs ! inode_group fs i)"
    using True inode_group_word(1)[OF assms(1)] by (simp add: get_at_def usize_from_u32_def)
  note run = this inode_minus_1(1)[OF assms(1)] mk(1) get_inode_location_def Let_def BlockSize_to_u64_def
  show ?thesis
  proof (cases "checked_mul ?bs ?t")
    case None
    then have "2 ^ 64 \<le> inode_address fs i" using addr by (simp add: checked_mul_def split: if_splits)
    with None show ?thesis by (auto simp: run)
  next
    case (Some p)
    note p = checked_mul_SomeD[OF Some]
    show ?thesis
    proof (cases "checked_add p ?o")
      case None
      then have "2 ^ 64 \<le> inode_address fs i" using addr p by (simp add: checked_add_None)
      with None Some show ?thesis by (auto simp: run)
    next
      case q: (Some q)
      from checked_add_SomeD[OF q] p addr have a: "unat q = inode_address fs i" by simp
      obtain off :: u32 where "word_try_from (unat (q mod ?bs)) = Some off"
        "unat (q div ?bs) * block_bytes fs + unat off = unat q" "unat off < block_bytes fs"
        by (rule address_split[OF assms(2)])
      with a True Some q show ?thesis by (simp add: run)
    qed
  qed
qed

section \<open>Properties\<close>

text \<open>For every nonzero inode number, the computed location is the slot of the inode in the inode
  table of its block group: block times block size plus offset is the first byte of the table plus
  the index within the group times the inode size, with the offset inside the block. The calculation
  fails, with the error that names the inode, exactly when the block group does not exist or the
  address does not fit in 64 bits; it never panics.\<close>

theorem inode_location_correct:
  assumes "i \<noteq> 0" and "sb_block_size (fs_superblock fs) \<noteq> 0"
  shows "holds (get_inode_location fs i)
    (\<lambda>(b, off). inode_group fs i < length (fs_block_group_descriptors fs) \<and>
       unat b * block_bytes fs + unat off = inode_address fs i \<and> unat off < block_bytes fs)
    (\<lambda>e. (\<exists>g n. e = Corrupt (InodeBlockGroup i g n) \<and> length (fs_block_group_descriptors fs) \<le> inode_group fs i) \<or>
         (\<exists>g n s b t. e = Corrupt (InodeLocation i g n s b t) \<and> 2 ^ 64 \<le> inode_address fs i))"
  by (rule get_inode_location_holds[OF assms])

theorem inode_location_correct_witness:
  "holds (get_inode_location (vec_fs sample_superblock
       [\<lparr>bgd_inode_table_first_block = 5, bgd_checksum = 0\<rparr>] []) 12)
     (\<lambda>(b, off). unat b * 1024 + unat off = 5 * 1024 + 11 * 128) (\<lambda>_. False)"
proof -
  let ?fs = "vec_fs sample_superblock [\<lparr>bgd_inode_table_first_block = 5, bgd_checksum = 0\<rparr>] []"
  have "sb_block_size (fs_superblock ?fs) \<noteq> 0" "(12 :: u32) \<noteq> 0" by (simp_all add: sample_superblock_def)
  from inode_location_correct[OF this(2,1)] show ?thesis
    by (rule holds_mono) (auto simp: inode_address_def inode_group_def sample_superblock_def)
qed

text \<open>Inodes of one block group occupy disjoint byte ranges, in the order of their numbers, from the
  start of the group's inode table on.\<close>

theorem inode_slots_disjoint:
  assumes "inode_group fs i = inode_group fs j" and "0 < unat i" and "unat i < unat j"
  shows "inode_address fs i + unat (sb_inode_size (fs_superblock fs)) \<le> inode_address fs j"
proof -
  let ?ipg = "unat (sb_inodes_per_block_group (fs_superblock fs))"
  have "(unat i - 1) mod ?ipg < (unat j - 1) mod ?ipg"
    using assms unfolding inode_group_def
    by (metis add_less_cancel_left diff_less_mono div_mult_mod_eq Suc_leI One_nat_def)
  then have "((unat i - 1) mod ?ipg + 1) * unat (sb_inode_size (fs_superblock fs))
      \<le> (unat j - 1) mod ?ipg * unat (sb_inode_size (fs_superblock fs))"
    by (intro mult_le_mono1) simp
  with assms(1) show ?thesis
    by (simp add: inode_address_def inode_group_def Let_def)
qed

theorem inode_slots_disjoint_witness:
  "inode_address (vec_fs sample_superblock [\<lparr>bgd_inode_table_first_block = 5, bgd_checksum = 0\<rparr>] []) 3 + 128
   \<le> inode_address (vec_fs sample_superblock [\<lparr>bgd_inode_table_first_block = 5, bgd_checksum = 0\<rparr>] []) 9"
  using inode_slots_disjoint[of "vec_fs sample_superblock [\<lparr>bgd_inode_table_first_block = 5, bgd_checksum = 0\<rparr>] []" 3 9]
  by (simp add: inode_group_def sample_superblock_def)

text \<open>The checksum stored in an inode: seed, index and generation, then the inode with both halves of
  the checksum read as zero.\<close>

definition inode_checksum_spec :: "Ext4 \<Rightarrow> InodeIndex \<Rightarrow> bytes \<Rightarrow> u32" where
  "inode_checksum_spec fs i data =
     Checksum_finalize (fs_crc fs)
       \<lparr>ck_initial = word_reverse (sb_checksum_seed (fs_superblock fs)),
        ck_data = to_le_bytes i @ to_le_bytes (u32le_at data 0x64) @
          take 0x7c data @ [0, 0] @ take 4 (drop 0x7e data) @ [0, 0] @ drop 0x84 data\<rparr>"

text \<open>Where inode \<open>i\<close> lies, and the bytes that are read there: those of the device, except in block 0, for which a
  fresh cache holds zeros.\<close>

definition inode_located :: "Ext4 \<Rightarrow> InodeIndex \<Rightarrow> FsBlockIndex \<Rightarrow> u32 \<Rightarrow> bool" where
  "inode_located fs i b off \<longleftrightarrow> inode_group fs i < length (fs_block_group_descriptors fs) \<and>
     unat b * block_bytes fs + unat off = inode_address fs i \<and> unat off < block_bytes fs"

definition inode_bytes :: "(nat \<Rightarrow> u8) \<Rightarrow> Ext4 \<Rightarrow> FsBlockIndex \<Rightarrow> u32 \<Rightarrow> bytes \<Rightarrow> bool" where
  "inode_bytes disk fs b off data \<longleftrightarrow> readable fs (mapped fs b) off (unat (sb_inode_size (fs_superblock fs))) \<and>
     length data = unat (sb_inode_size (fs_superblock fs)) \<and>
     (mapped fs b \<noteq> 0 \<longrightarrow> data = disk_range disk (unat (mapped fs b) * block_bytes fs + unat off) (length data))"

definition inode_read_ok :: "(nat \<Rightarrow> u8) \<Rightarrow> Ext4 \<Rightarrow> InodeIndex \<Rightarrow> Inode \<Rightarrow> bool" where
  "inode_read_ok disk fs i inode \<longleftrightarrow> (\<exists>b off data sum. inode_located fs i b off \<and> inode_bytes disk fs b off data \<and>
     Inode_from_bytes fs i data = Ok (inode, sum) \<and> (has_metadata_checksums fs \<longrightarrow> sum = inode_checksum_spec fs i data))"

text \<open>Why reading inode \<open>i\<close> can fail.\<close>

definition inode_read_fails :: "(nat \<Rightarrow> u8) \<Rightarrow> Ext4 \<Rightarrow> InodeIndex \<Rightarrow> Ext4Error \<Rightarrow> bool" where
  "inode_read_fails disk fs i e \<longleftrightarrow>
     length (fs_block_group_descriptors fs) \<le> inode_group fs i \<and> (\<exists>g n. e = Corrupt (InodeBlockGroup i g n)) \<or>
     2 ^ 64 \<le> inode_address fs i \<and> (\<exists>g n s b t. e = Corrupt (InodeLocation i g n s b t)) \<or>
     (\<exists>b off. inode_located fs i b off \<and>
        (e = read_error fs b off (unat (sb_inode_size (fs_superblock fs))) \<or> (\<exists>io. e = Io io) \<or>
         (\<exists>data. inode_bytes disk fs b off data \<and> (Inode_from_bytes fs i data = Err e \<or>
            (\<exists>inode sum. Inode_from_bytes fs i data = Ok (inode, sum) \<and> has_metadata_checksums fs \<and>
               sum \<noteq> inode_checksum_spec fs i data \<and> e = Corrupt (InodeChecksum i))))))"

lemma Inode_read_wp:
  assumes ok: "fs_ok disk fs" and "i \<noteq> 0"
  shows "wp (Inode_read i)
    (\<lambda>inode fs'. fs_ok disk fs' \<and> same_fs fs fs' \<and> inode_ok (fs_superblock fs) inode \<and> in_index inode = i \<and>
       inode_read_ok disk fs i inode)
    (\<lambda>e fs'. fs_ok disk fs' \<and> same_fs fs fs' \<and> inode_read_fails disk fs i e) fs"
proof -
  have bs: "sb_block_size (fs_superblock fs) \<noteq> 0"
    using fs_ok_block_size(1)[OF ok] valid_block_size_bounds(4) by blast
  note loc = get_inode_location_holds[OF assms(2) bs]
  show ?thesis
  proof (cases "get_inode_location fs i")
    case (Ok bo)
    obtain b off where bo: "bo = (b, off)" by fastforce
    have at: "inode_located fs i b off" using loc Ok bo by (simp add: inode_located_def)
    have rd: "wp (read_from_block b off (unat (sb_inode_size (fs_superblock fs))))
      (\<lambda>data fs'. fs_ok disk fs' \<and> same_fs fs fs' \<and> inode_bytes disk fs b off data)
      (\<lambda>e fs'. fs_ok disk fs' \<and> same_fs fs fs' \<and> inode_read_fails disk fs i e) fs"
      by (rule wp_mono[OF block_read_wp[OF ok]]) (use ok at in \<open>auto simp: inode_bytes_def inode_read_fails_def\<close>)
    have cs: "to_le_bytes (0 :: u16) = [0, 0]" by (simp add: to_le_bytes_def numeral_2_eq_2)
    have parse: "inode_read_fails disk fs i e" if "inode_bytes disk fs b off data" "Inode_from_bytes fs i data = Err e" for data e
      using at that by (auto simp: inode_read_fails_def)
    have wrong: "inode_read_fails disk fs (in_index inode) (Corrupt (InodeChecksum (in_index inode)))"
      if "i = in_index inode" "inode_bytes disk fs b off data" "Inode_from_bytes fs (in_index inode) data = Ok (inode, sum)"
        "has_metadata_checksums fs" "inode_checksum_spec fs (in_index inode) data \<noteq> sum" for data inode sum
      using at that unfolding inode_read_fails_def by blast
    have fine: "inode_read_ok disk fs (in_index inode) inode"
      if "i = in_index inode" "inode_bytes disk fs b off data" "Inode_from_bytes fs (in_index inode) data = Ok (inode, sum)"
        "has_metadata_checksums fs \<longrightarrow> inode_checksum_spec fs (in_index inode) data = sum" for data inode sum
      using at that unfolding inode_read_ok_def by blast
    show ?thesis
      unfolding Inode_read_def
      apply (rule wp_bind_gets)
      apply (simp only: Ok bo)
      apply (rule wp_bind_lift_Ok, simp only: prod.case)
      apply (rule wp_bind_use[OF rd], simp)
      apply (rule wp_bind_lift_use[OF holds_and_eq[OF Inode_from_bytes_ok]], blast intro: parse)
      apply (clarsimp split del: if_split)
      apply (intro wp_intros)
      apply (auto simp: L_I_CHECKSUM_LO_OFFSET_def I_CHECKSUM_HI_OFFSET_def inode_checksum_spec_def
          Checksum_defs cs intro: fine wrong)
      done
  qed (use loc ok in \<open>auto simp: Inode_read_def wp_simps inode_read_fails_def\<close>)
qed

text \<open>C25: On a well-formed file system, reading an inode with a nonzero number never panics and leaves the
  file system well-formed with only the cache changed. A returned inode has the requested number and is parsed
  from its slot in the inode table of its block group: from the bytes of the device there, unless the slot is
  in block 0, for which the cache may hold zeros instead. It records the number of blocks its size needs and
  the file type of its mode, and, when metadata checksums are enabled, its stored checksum equals the one
  computed over seed, number, generation and content. An error has one of these causes: there is no such block
  group, the address of the slot does not fit in 64 bits, the slot cannot be read, its bytes do not parse, or
  the checksum differs.\<close>

theorem inode_read_sound:
  assumes "fs_ok disk fs" and "i \<noteq> 0"
  shows "wp (Inode_read i)
    (\<lambda>inode fs'. fs_ok disk fs' \<and> same_fs fs fs' \<and> inode_ok (fs_superblock fs) inode \<and> in_index inode = i \<and>
       inode_read_ok disk fs i inode)
    (\<lambda>e fs'. fs_ok disk fs' \<and> same_fs fs fs' \<and> inode_read_fails disk fs i e) fs"
  by (rule Inode_read_wp[OF assms])

text \<open>An inode whose size is exactly \<open>2 ^ 32\<close> blocks is refused as having too many blocks, although
  the limit is documented as inclusive.\<close>

theorem inode_with_max_blocks_refused:
  assumes "132 \<le> length data" and "0 < block_bytes fs"
    and size: "unat (u64_from_hilo (u32le_at data 0x6c) (u32le_at data 0x4)) = 2 ^ 32 * block_bytes fs"
  shows "Inode_from_bytes fs i data = Err (Corrupt TooManyBlocksInFile)"
proof -
  have "div_ceil (2 ^ 32 * block_bytes fs) (block_bytes fs) = 2 ^ 32"
    using assms(2) by (simp add: div_ceil_def)
  then have n: "word_try_from (div_ceil (unat (u64_from_hilo (u32le_at data 0x6c) (u32le_at data 0x4)))
      (unat (BlockSize_to_u64 (sb_block_size (fs_superblock fs))))) = (None :: u32 option)"
    unfolding size by (simp add: word_try_from_def BlockSize_to_u64_def)
  have "holds (Inode_from_bytes fs i data) (\<lambda>_. False) (\<lambda>e. e = Corrupt TooManyBlocksInFile)"
    unfolding Inode_from_bytes_def
    apply (intro holds_intros)
    using assms(1) n
    apply (auto simp: I_CHECKSUM_HI_OFFSET_def L_I_CHECKSUM_LO_OFFSET_def usize_max_def
        INLINE_DATA_LEN_def get_range_def)
    done
  then show ?thesis by (cases "Inode_from_bytes fs i data") auto
qed

theorem inode_with_max_blocks_refused_witness:
  "Inode_from_bytes (vec_fs sample_superblock [] []) 12 ((replicate 132 0)[0x6d := 4]) =
     Err (Corrupt TooManyBlocksInFile)"
proof (rule inode_with_max_blocks_refused)
  show "unat (u64_from_hilo (u32le_at ((replicate 132 0)[0x6d := 4]) 0x6c) (u32le_at ((replicate 132 0)[0x6d := 4]) 0x4))
     = 2 ^ 32 * block_bytes (vec_fs sample_superblock [] [])"
    by (simp add: u32le_at_nth u64_from_hilo_def sample_superblock_def nth_list_update)
qed (simp_all add: sample_superblock_def)

end
