(* ===== verification/Result_Iter.thy ===== *)
theory Result_Iter
  imports Prelude
begin

text \<open>
  The macro \<open>impl_result_iter!\<close> (\<^verbatim>\<open>src/src/iters.rs\<close>), which turns a type with a field \<open>is_done\<close> and a
  method \<open>next_impl\<close> into an iterator. A call of \<open>next\<close> repeats \<open>next_impl\<close> until it has an item, an
  error, or the iterator is done; nothing bounds the number of repetitions, so a call may never
  return. An item is \<open>Ok (Some x)\<close>, the end \<open>Ok None\<close>, a yielded error \<open>Err e\<close>, no return
  \<open>Diverge\<close>.

  The locale \<open>result_iter\<close> states what an iterator must promise for \<open>next\<close> to return, and the
  relation \<open>yields\<close> relates an iterator to the sequence of its items.
\<close>

partial_function (option) result_iter_loop ::
  "('s \<Rightarrow> bool) \<Rightarrow> ('s \<Rightarrow> 's) \<Rightarrow> ('s, 'a option, 'e) comp \<Rightarrow> 's \<Rightarrow> (('a option, 'e) outcome \<times> 's) option" where
  "result_iter_loop is_done set_done next_impl s =
     (if is_done s then Some (Ok None, s)
      else (case next_impl s of
        (Ok (Some entry), s') \<Rightarrow> Some (Ok (Some entry), s')
      | (Ok None, s') \<Rightarrow> result_iter_loop is_done set_done next_impl s'
      | (Err err, s') \<Rightarrow> Some (Err err, set_done s')
      | (Panic, s') \<Rightarrow> Some (Panic, s')
      | (Diverge, s') \<Rightarrow> Some (Diverge, s')))"

definition result_iter_next ::
  "('s \<Rightarrow> bool) \<Rightarrow> ('s \<Rightarrow> 's) \<Rightarrow> ('s, 'a option, 'e) comp \<Rightarrow> ('s, 'a option, 'e) comp" where
  "result_iter_next is_done set_done next_impl s =
     (case result_iter_loop is_done set_done next_impl s of Some r \<Rightarrow> r | None \<Rightarrow> (Diverge, s))"

section \<open>One call of \<open>next\<close>\<close>

lemma iter_next_done: "is_done s \<Longrightarrow> result_iter_next is_done set_done n s = (Ok None, s)"
  by (simp add: result_iter_next_def result_iter_loop.simps)

lemma iter_next_item:
  "\<not> is_done s \<Longrightarrow> n s = (Ok (Some x), s') \<Longrightarrow> result_iter_next is_done set_done n s = (Ok (Some x), s')"
  by (simp add: result_iter_next_def result_iter_loop.simps)

lemma iter_next_err:
  "\<not> is_done s \<Longrightarrow> n s = (Err e, s') \<Longrightarrow> result_iter_next is_done set_done n s = (Err e, set_done s')"
  by (simp add: result_iter_next_def result_iter_loop.simps)

lemma iter_next_panic:
  "\<not> is_done s \<Longrightarrow> n s = (Panic, s') \<Longrightarrow> result_iter_next is_done set_done n s = (Panic, s')"
  by (simp add: result_iter_next_def result_iter_loop.simps)

lemma iter_next_again:
  "\<not> is_done s \<Longrightarrow> n s = (Ok None, s') \<Longrightarrow> result_iter_loop is_done set_done n s' \<noteq> None \<Longrightarrow>
   result_iter_next is_done set_done n s = result_iter_next is_done set_done n s'"
  by (auto simp: result_iter_next_def result_iter_loop.simps[of is_done set_done n s])

lemma iter_loop_same:
  "\<not> is_done s \<Longrightarrow> \<not> is_done s1 \<Longrightarrow> n s = n s1 \<Longrightarrow>
   result_iter_loop is_done set_done n s = result_iter_loop is_done set_done n s1"
  by (simp add: result_iter_loop.simps[of is_done set_done n s] result_iter_loop.simps[of is_done set_done n s1])

text \<open>
  A run of the loop that returns is a number of steps that find nothing and a last one: the induction
  over them, the only place where the proofs look into the partial function.
\<close>

lemma iter_loop_stop:
  assumes "\<not> is_done s" and "n s = (r, s')" and "r \<noteq> Ok None"
  shows "result_iter_loop is_done set_done n s = Some (r, case r of Err e \<Rightarrow> set_done s' | _ \<Rightarrow> s')"
  using assms by (auto simp: result_iter_loop.simps[of is_done set_done n s] split: outcome.split option.split)

lemma iter_loop_again:
  "\<not> is_done s \<Longrightarrow> n s = (Ok None, s') \<Longrightarrow>
   result_iter_loop is_done set_done n s = result_iter_loop is_done set_done n s'"
  by (simp add: result_iter_loop.simps[of is_done set_done n s])

lemma iter_loop_done: "is_done s \<Longrightarrow> result_iter_loop is_done set_done n s = Some (Ok None, s)"
  by (simp add: result_iter_loop.simps)

lemma iter_loop_induct [consumes 1, case_names finished stop again]:
  fixes n :: "('s, 'a option, 'e) comp"
  assumes run: "result_iter_loop is_done set_done n s = Some y"
    and finished: "\<And>s. is_done s \<Longrightarrow> P s (Ok None, s)"
    and stop: "\<And>s r s'. \<not> is_done s \<Longrightarrow> n s = (r, s') \<Longrightarrow> r \<noteq> Ok None \<Longrightarrow>
      P s (r, case r of Err e \<Rightarrow> set_done s' | _ \<Rightarrow> s')"
    and again: "\<And>s s' y. \<not> is_done s \<Longrightarrow> n s = (Ok None, s') \<Longrightarrow> P s' y \<Longrightarrow> P s y"
  shows "P s y"
proof -
  let ?P = "\<lambda>d sd nn s y. d = is_done \<longrightarrow> sd = set_done \<longrightarrow> nn = n \<longrightarrow> P s y"
  have "?P is_done set_done n s y"
  proof (rule result_iter_loop.raw_induct[of ?P, OF _ run], intro impI)
    fix loop d sd nn s y
    assume IH: "\<And>d sd nn s y. loop d sd nn s = Some y \<Longrightarrow> ?P d sd nn s y"
      and eq: "(if d s then Some (Ok None, s)
        else (case nn s of (Ok None, s') \<Rightarrow> loop d sd nn s' | (Ok (Some x), s') \<Rightarrow> Some (Ok (Some x), s')
          | (Err e, s') \<Rightarrow> Some (Err e, sd s') | (Panic, s') \<Rightarrow> Some (Panic, s')
          | (Diverge, s') \<Rightarrow> Some (Diverge, s'))) = Some y"
      and e: "d = is_done" "sd = set_done" "nn = n"
    obtain r s' where q: "n s = (r, s')" by fastforce
    consider "is_done s" | "\<not> is_done s" "r = Ok None" | "\<not> is_done s" "r \<noteq> Ok None" by blast
    then show "P s y"
    proof cases
      case 1
      with eq e finished show ?thesis by auto
    next
      case 2
      with eq e q IH[of d sd nn s' y] again[of s s' y] show ?thesis by simp
    next
      case 3
      with eq e q have "y = (r, case r of Err e \<Rightarrow> set_done s' | _ \<Rightarrow> s')"
        by (auto split: outcome.splits option.splits)
      with stop[OF 3(1) q 3(2)] show ?thesis by simp
    qed
  qed
  then show ?thesis by simp
qed

text \<open>A call that forever finds nothing does not return.\<close>

lemma iter_loop_diverges:
  assumes J: "\<And>s. J s \<Longrightarrow> \<not> is_done s \<and> (\<exists>s'. n s = (Ok None, s') \<and> J s')" and "J s"
  shows "result_iter_loop is_done set_done n s = None"
proof -
  have "\<not> J s" if "result_iter_loop is_done set_done n s = Some y" for y
    using that by (induction rule: iter_loop_induct) (use J in fastforce)+
  with assms(2) show ?thesis by (cases "result_iter_loop is_done set_done n s") blast+
qed

lemma iter_next_diverges:
  assumes "\<And>s. J s \<Longrightarrow> \<not> is_done s \<and> (\<exists>s'. n s = (Ok None, s') \<and> J s')" and "J s"
  shows "fst (result_iter_next is_done set_done n s) = Diverge"
  using iter_loop_diverges[OF assms] by (simp add: result_iter_next_def)

text \<open>Whether or not a call returns, it keeps what every step keeps.\<close>

lemma iter_next_keeps:
  assumes step: "\<And>s r s'. I s \<Longrightarrow> \<not> is_done s \<Longrightarrow> n s = (r, s') \<Longrightarrow> I s' \<and> r \<noteq> Panic"
    and fin: "\<And>s. I s \<Longrightarrow> I (set_done s)" and "I s"
  shows "I (snd (result_iter_next is_done set_done n s)) \<and> fst (result_iter_next is_done set_done n s) \<noteq> Panic"
proof -
  have "I (snd y) \<and> fst y \<noteq> Panic" if "result_iter_loop is_done set_done n s = Some y" for y
    using that assms(3)
  proof (induction rule: iter_loop_induct)
    case (stop s r s')
    with step[OF _ stop(1,2)] fin show ?case by (cases r) auto
  qed (use step in auto)
  with assms(3) show ?thesis
    by (cases "result_iter_loop is_done set_done n s") (auto simp: result_iter_next_def)
qed

text \<open>A call that finds the end leaves the iterator done, and further calls find the end again.\<close>

lemma iter_next_end_done:
  assumes "result_iter_next is_done set_done n s = (Ok None, s')"
  shows "is_done s'"
proof -
  have "fst y = Ok None \<Longrightarrow> is_done (snd y)" if "result_iter_loop is_done set_done n s = Some y" for y
    using that by (induction rule: iter_loop_induct) auto
  with assms show ?thesis
    by (cases "result_iter_loop is_done set_done n s") (auto simp: result_iter_next_def)
qed

text \<open>After an error an iterator is at its end.\<close>

lemma iter_next_err_done:
  fixes e :: 'e and s s' :: 's and n :: "('s, 'a option, 'e) comp"
  assumes "result_iter_next is_done set_done n s = (Err e, s')" and "\<And>s. is_done (set_done s)"
  shows "is_done s'"
proof -
  have "fst y = Err e \<Longrightarrow> is_done (snd y)" if "result_iter_loop is_done set_done n s = Some y" for y
    using that by (induction rule: iter_loop_induct) (use assms(2) in auto)
  with assms(1) show ?thesis
    by (cases "result_iter_loop is_done set_done n s") (auto simp: result_iter_next_def)
qed

section \<open>The contract of an iterator\<close>

text \<open>
  An invariant that every step keeps, and a well-founded relation in which every step that finds
  nothing descends. Then every call of \<open>next\<close> returns.
\<close>

locale result_iter =
  fixes is_done :: "'s \<Rightarrow> bool"
    and set_done :: "'s \<Rightarrow> 's"
    and next_impl :: "('s, 'a option, 'e) comp"
    and inv :: "'s \<Rightarrow> bool"
    and descent :: "('s \<times> 's) set"
  assumes descent_wf: "wf descent"
    and step_inv: "inv s \<Longrightarrow> \<not> is_done s \<Longrightarrow> next_impl s = (r, s') \<Longrightarrow> inv s'"
    and step_descends: "inv s \<Longrightarrow> \<not> is_done s \<Longrightarrow> next_impl s = (Ok None, s') \<Longrightarrow> (s', s) \<in> descent"
    and done_inv: "inv s \<Longrightarrow> inv (set_done s)"
begin

abbreviation iter_next :: "('s, 'a option, 'e) comp" where
  "iter_next \<equiv> result_iter_next is_done set_done next_impl"

lemma loop_returns: "inv s \<Longrightarrow> result_iter_loop is_done set_done next_impl s \<noteq> None"
proof (induction s rule: wf_induct_rule[OF descent_wf])
  case (1 s)
  show ?case
  proof (cases "is_done s")
    case True
    then show ?thesis by (simp add: result_iter_loop.simps)
  next
    case False
    with 1 show ?thesis
      by (auto simp: result_iter_loop.simps[of is_done set_done next_impl s]
          split: prod.splits outcome.splits option.splits dest: step_inv step_descends)
  qed
qed

text \<open>The equation of \<open>next\<close> without the loop.\<close>

lemma next_unfold:
  assumes "inv s"
  shows "iter_next s =
    (if is_done s then (Ok None, s)
     else (case next_impl s of
        (Ok None, s') \<Rightarrow> iter_next s'
      | (Err e, s') \<Rightarrow> (Err e, set_done s')
      | (r, s') \<Rightarrow> (r, s')))"
proof (cases "is_done s")
  case True
  then show ?thesis by (simp add: iter_next_done)
next
  case False
  obtain r s' where n: "next_impl s = (r, s')" by fastforce
  have inv': "inv s'" by (rule step_inv[OF assms False n])
  show ?thesis
    using False n iter_next_again[where n = next_impl, OF False _ loop_returns[OF inv']]
    by (auto simp: result_iter_next_def result_iter_loop.simps[of is_done set_done next_impl s]
        split: outcome.split option.split)
qed

text \<open>A property of the result of every step that stops the loop is a property of \<open>next\<close>.\<close>

lemma next_induct [consumes 1, case_names finished step]:
  assumes "inv s"
    and "\<And>s. inv s \<Longrightarrow> is_done s \<Longrightarrow> P s (Ok None) s"
    and "\<And>s r s'. inv s \<Longrightarrow> \<not> is_done s \<Longrightarrow> next_impl s = (r, s') \<Longrightarrow> inv s' \<Longrightarrow>
           (r = Ok None \<Longrightarrow> P s' (fst (iter_next s')) (snd (iter_next s'))) \<Longrightarrow>
           P s (case r of Ok None \<Rightarrow> fst (iter_next s') | _ \<Rightarrow> r)
               (case r of Ok None \<Rightarrow> snd (iter_next s') | Err e \<Rightarrow> set_done s' | _ \<Rightarrow> s')"
  shows "P s (fst (iter_next s)) (snd (iter_next s))"
  using assms(1)
proof (induction s rule: wf_induct_rule[OF descent_wf])
  case (1 s)
  show ?case
  proof (cases "is_done s")
    case True
    with 1 assms(2) show ?thesis by (simp add: iter_next_done)
  next
    case False
    obtain r s' where n: "next_impl s = (r, s')" by fastforce
    have inv': "inv s'" by (rule step_inv[OF 1(2) False n])
    have "P s (case r of Ok None \<Rightarrow> fst (iter_next s') | _ \<Rightarrow> r)
              (case r of Ok None \<Rightarrow> snd (iter_next s') | Err e \<Rightarrow> set_done s' | _ \<Rightarrow> s')"
    proof (rule assms(3)[OF 1(2) False n inv'])
      assume "r = Ok None"
      with n have "(s', s) \<in> descent" using step_descends[OF 1(2) False] by simp
      from 1(1)[OF this inv'] show "P s' (fst (iter_next s')) (snd (iter_next s'))" .
    qed
    then show ?thesis
      unfolding next_unfold[OF 1(2)] using False n by (auto split: outcome.splits option.splits)
  qed
qed

lemma next_inv: "inv s \<Longrightarrow> inv (snd (iter_next s))"
  by (induction s rule: next_induct) (auto split: outcome.splits option.splits simp: done_inv)

lemma next_done_or_item: "inv s \<Longrightarrow> fst (iter_next s) = Ok None \<Longrightarrow> is_done (snd (iter_next s))"
  by (induction s rule: next_induct) (auto split: outcome.splits option.splits)

text \<open>A call returns: it diverges or panics only if a step does.\<close>

lemma next_total:
  assumes "inv s" and "\<And>s. inv s \<Longrightarrow> \<not> is_done s \<Longrightarrow> fst (next_impl s) \<noteq> Panic \<and> fst (next_impl s) \<noteq> Diverge"
  shows "fst (iter_next s) \<noteq> Panic \<and> fst (iter_next s) \<noteq> Diverge"
  using assms(1)
proof (induction s rule: next_induct)
  case (step s r s')
  with assms(2)[OF step(1,2)] show ?case by (auto split: outcome.splits option.splits)
qed simp

end

section \<open>The sequence an iterator yields\<close>

text \<open>\<open>yields nxt s xs r s'\<close>: calling \<open>nxt\<close> again and again from \<open>s\<close> yields the items \<open>xs\<close>, and then
  ends (\<open>r = None\<close>) or yields the error \<open>r\<close>, in state \<open>s'\<close>.\<close>

inductive yields :: "('s, 'a option, 'e) comp \<Rightarrow> 's \<Rightarrow> 'a list \<Rightarrow> 'e option \<Rightarrow> 's \<Rightarrow> bool" for nxt where
  yields_end: "nxt s = (Ok None, s') \<Longrightarrow> yields nxt s [] None s'"
| yields_err: "nxt s = (Err e, s') \<Longrightarrow> yields nxt s [] (Some e) s'"
| yields_item: "nxt s = (Ok (Some x), s') \<Longrightarrow> yields nxt s' xs r s'' \<Longrightarrow> yields nxt s (x # xs) r s''"

inductive_cases yields_NilE: "yields nxt s [] r s'"
inductive_cases yields_ConsE: "yields nxt s (x # xs) r s'"

lemma yields_append:
  assumes "nxt s = nxt s1" and "yields nxt s1 xs r s'"
  shows "yields nxt s xs r s'"
  using assms(2,1) by cases (auto intro: yields.intros)

text \<open>A step that finds nothing does not show in the sequence.\<close>

lemma yields_again:
  assumes "\<not> is_done s" and "n s = (Ok None, s1)"
    and "yields (result_iter_next is_done set_done n) s1 xs r s'"
  shows "yields (result_iter_next is_done set_done n) s xs r s'"
proof (rule yields_append[OF _ assms(3)])
  from assms(3) have "fst (result_iter_next is_done set_done n s1) \<noteq> Diverge" by cases auto
  then have "result_iter_loop is_done set_done n s1 \<noteq> None"
    by (auto simp: result_iter_next_def split: option.splits)
  from iter_next_again[where n = n, OF assms(1,2) this]
  show "result_iter_next is_done set_done n s = result_iter_next is_done set_done n s1" .
qed

lemma yields_same:
  assumes "\<not> is_done s" and "\<not> is_done s1" and "n s = n s1"
    and "yields (result_iter_next is_done set_done n) s1 xs r s'"
  shows "yields (result_iter_next is_done set_done n) s xs r s'"
proof (rule yields_append[OF _ assms(4)])
  from assms(4) have "fst (result_iter_next is_done set_done n s1) \<noteq> Diverge" by cases auto
  then show "result_iter_next is_done set_done n s = result_iter_next is_done set_done n s1"
    using iter_loop_same[where n = n, OF assms(1-3), of set_done]
    by (auto simp: result_iter_next_def split: option.splits)
qed

text \<open>The sequence is a function of the state.\<close>

lemma yields_done:
  assumes "yields (result_iter_next is_done set_done n) s xs r s'" and "\<And>s. is_done (set_done s)"
  shows "result_iter_next is_done set_done n s' = (Ok None, s')"
proof -
  from assms(1) have "is_done s'"
  proof induction
    case (yields_end s s')
    then show ?case by (rule iter_next_end_done)
  next
    case (yields_err s e s')
    then show ?case by (rule iter_next_err_done) (rule assms(2))
  qed
  then show ?thesis by (rule iter_next_done)
qed

lemma yields_det: "yields nxt s xs r s' \<Longrightarrow> yields nxt s ys q s'' \<Longrightarrow> xs = ys \<and> r = q \<and> s' = s''"
proof (induction arbitrary: ys q s'' rule: yields.induct)
  case (yields_item s x s1 xs r s2)
  from yields_item.prems yields_item.hyps(1) obtain zs where "ys = x # zs" "yields nxt s1 zs q s''"
    by (auto elim: yields.cases)
  with yields_item.IH show ?case by blast
qed (auto elim: yields.cases)

section \<open>Outputs\<close>

text \<open>The items and the end of an iteration as a pair, and how a step of the loop contributes to it.\<close>

type_synonym ('a, 'e) out_seq = "'a list \<times> 'e option"

definition outputs :: "('s, 'a option, 'e) comp \<Rightarrow> 's \<Rightarrow> ('a, 'e) out_seq \<Rightarrow> bool" where
  "outputs nxt s out \<longleftrightarrow> (\<exists>s'. yields nxt s (fst out) (snd out) s')"

lemma outputs_det: "outputs nxt s out \<Longrightarrow> outputs nxt s out' \<Longrightarrow> out = out'"
  unfolding outputs_def by (metis yields_det prod.collapse)

lemma outputs_Cons: "nxt s = (Ok (Some x), s1) \<Longrightarrow> outputs nxt s1 (xs, r) \<Longrightarrow> outputs nxt s (x # xs, r)"
  unfolding outputs_def fst_conv snd_conv by (blast intro: yields_item)

lemma outputs_Nil: "nxt s = (Ok None, s1) \<Longrightarrow> outputs nxt s ([], None)"
  unfolding outputs_def fst_conv snd_conv by (blast intro: yields_end)

lemma outputs_done: "is_done s \<Longrightarrow> outputs (result_iter_next is_done set_done n) s ([], None)"
  unfolding outputs_def fst_conv snd_conv by (blast intro: yields_end iter_next_done)

lemma outputs_step:
  assumes "\<not> is_done s" and "n s = (Ok None, s1)" and "outputs (result_iter_next is_done set_done n) s1 out"
  shows "outputs (result_iter_next is_done set_done n) s out"
  using assms(3) yields_again[of is_done s n s1, OF assms(1,2)] unfolding outputs_def by blast

lemma outputs_item:
  assumes "\<not> is_done s" and "n s = (Ok (Some x), s1)" and "outputs (result_iter_next is_done set_done n) s1 out"
  shows "outputs (result_iter_next is_done set_done n) s (x # fst out, snd out)"
  using assms(3) iter_next_item[of is_done s n x s1, OF assms(1,2)] unfolding outputs_def fst_conv snd_conv
  by (blast intro: yields_item)

lemma outputs_err:
  assumes "\<not> is_done s" and "n s = (Err e, s1)"
  shows "outputs (result_iter_next is_done set_done n) s ([], Some e)"
  using iter_next_err[of is_done s n e s1, OF assms] unfolding outputs_def fst_conv snd_conv by (blast intro: yields_err)

text \<open>What a call returns, from the output.\<close>

lemma outputs_ConsD:
  assumes "outputs nxt s (x # xs, r)"
  obtains s' where "nxt s = (Ok (Some x), s')" "outputs nxt s' (xs, r)"
  using assms unfolding outputs_def fst_conv snd_conv by (blast elim: yields_ConsE)

lemma outputs_endD:
  assumes "outputs nxt s ([], None)"
  obtains s' where "nxt s = (Ok None, s')"
  using assms unfolding outputs_def fst_conv snd_conv by (auto elim: yields_NilE)

lemma outputs_errD:
  assumes "outputs nxt s ([], Some e)"
  obtains s' where "nxt s = (Err e, s')"
  using assms unfolding outputs_def fst_conv snd_conv by (auto elim: yields_NilE)

lemma outputs_error_reached:
  assumes "outputs nxt s (xs, Some e)"
  shows "\<exists>s'. outputs nxt s' ([], Some e)"
  using assms by (induction xs arbitrary: s) (blast elim: outputs_ConsD)+

text \<open>One output after another; an error ends both.\<close>

definition out_append :: "('a, 'e) out_seq \<Rightarrow> ('a, 'e) out_seq \<Rightarrow> ('a, 'e) out_seq" where
  "out_append a b = (case snd a of None \<Rightarrow> (fst a @ fst b, snd b) | Some e \<Rightarrow> a)"

lemma out_append_simps [simp]:
  "out_append ([], None) b = b"
  "out_append (x # xs, r) b = (x # fst (out_append (xs, r) b), snd (out_append (xs, r) b))"
  "out_append (xs, Some e) b = (xs, Some e)"
  by (simp_all add: out_append_def split: option.split)

text \<open>The outputs of a list of producers, one after another.\<close>

fun out_concat :: "('k \<Rightarrow> ('a, 'e) out_seq) \<Rightarrow> 'k list \<Rightarrow> ('a, 'e) out_seq" where
  "out_concat f [] = ([], None)"
| "out_concat f (k # ks) = out_append (f k) (out_concat f ks)"

text \<open>The first \<open>n\<close> items; an error behind them is not reached.\<close>

definition out_take :: "nat \<Rightarrow> ('a, 'e) out_seq \<Rightarrow> ('a, 'e) out_seq" where
  "out_take n a = (if n \<le> length (fst a) then (take n (fst a), None) else a)"

lemma out_take_simps [simp]:
  "out_take 0 a = ([], None)"
  "out_take (Suc n) (x # xs, r) = (x # fst (out_take n (xs, r)), snd (out_take n (xs, r)))"
  "0 < n \<Longrightarrow> out_take n ([], r) = ([], r)"
  by (auto simp: out_take_def)

end
