(* ===== verification/Dir_Entry.thy ===== *)
theory Dir_Entry
  imports Paths Inode Result_Iter
begin

text \<open>
  Directory entries (\<^verbatim>\<open>src/src/dir_entry.rs\<close>) and the records of a directory block. An entry is parsed
  from the bytes of its record; the record's length is at least its header, so a scan over the records of
  a block moves forward and ends.
\<close>

section \<open>Entries\<close>

record DirEntry =
  de_inode :: InodeIndex
  de_name :: DirEntryNameBuf
  de_path :: PathBuf
  de_file_type :: FileType

definition NAME_OFFSET :: usize where
  "NAME_OFFSET = 8"

definition DirEntry_from_bytes :: "bytes \<Rightarrow> InodeIndex \<Rightarrow> PathBuf \<Rightarrow> (DirEntry option \<times> usize) result" where
  "DirEntry_from_bytes bytes inode path =
     bind_o (require (\<not> length bytes < NAME_OFFSET) (Corrupt (DirEntryMissingHeader inode (length bytes)))) (\<lambda>_.
     bind_o (read_u32le bytes 0) (\<lambda>points_to_inode.
     bind_o (read_u16le bytes 4) (\<lambda>rec_len.
     let rec_len = unat rec_len in
     bind_o (require (\<not> rec_len < NAME_OFFSET) (Corrupt (DirEntryRecordTooSmall inode rec_len))) (\<lambda>_.
     bind_o (assert_o (rec_len \<noteq> 0)) (\<lambda>_.
     case nonzero_new points_to_inode of
       None \<Rightarrow> Ok (None, rec_len)
     | Some points_to_inode \<Rightarrow>
         bind_o (unwrap (get_at bytes 6)) (\<lambda>name_len.
         bind_o (unwrap (usize_add NAME_OFFSET (unat name_len))) (\<lambda>name_end.
         bind_o (ok_or (Corrupt (DirEntryNameTooLarge inode name_len)) (get_range bytes NAME_OFFSET name_end))
           (\<lambda>name_slice.
         bind_o (index_at bytes 7) (\<lambda>file_type_byte.
         bind_o (map_err (\<lambda>_. Corrupt (DirEntryInvalidFileType inode file_type_byte))
                  (FileType_from_dir_entry file_type_byte)) (\<lambda>file_type.
         bind_o (map_err (\<lambda>e. Corrupt (DirEntryInvalidName inode e)) (DirEntryNameBuf_try_from name_slice))
           (\<lambda>name.
         Ok (Some \<lparr>de_inode = points_to_inode, de_name = name, de_path = path, de_file_type = file_type\<rparr>,
             rec_len))))))))))))"

definition DirEntry_file_name :: "DirEntry \<Rightarrow> DirEntryName result" where
  "DirEntry_file_name self = DirEntryNameBuf_as_bytes (de_name self)"

definition DirEntry_path :: "DirEntry \<Rightarrow> PathBuf result" where
  "DirEntry_path self =
     bind_o (DirEntryNameBuf_as_bytes (de_name self)) (\<lambda>name. PathBuf_join (de_path self) name)"

definition DirEntry_get_file_type :: "DirEntry \<Rightarrow> FileType result" where
  "DirEntry_get_file_type self = Ok (de_file_type self)"

definition DirEntry_metadata :: "DirEntry \<Rightarrow> Metadata fs_op" where
  "DirEntry_metadata self = bindc (Inode_read (de_inode self)) (\<lambda>inode. ret (in_metadata inode))"

section \<open>Parsing is total\<close>

text \<open>A well-formed entry: its name is a valid name and its inode is not zero.\<close>

definition entry_ok :: "DirEntry \<Rightarrow> bool" where
  "entry_ok e \<longleftrightarrow> de_inode e \<noteq> 0 \<and>
     (\<exists>n. DirEntryName_try_from n = Ok n \<and> DirEntryNameBuf_try_from n = Ok (de_name e))"

lemma name_buf_cases:
  "(\<exists>e. DirEntryNameBuf_try_from n = Err e) \<or>
   (\<exists>b. DirEntryNameBuf_try_from n = Ok b \<and> DirEntryName_try_from n = Ok n)"
proof (cases "DirEntryName_try_from n")
  case (Ok m)
  then have m: "m = n" "length n \<le> 255" by (auto simp: DirEntryName_try_from_def MAX_LEN_def split: if_splits)
  then have "word_try_from (length n) = Some (of_nat (length n) :: u8)" by (simp add: word_try_from_def)
  with Ok m show ?thesis by (simp add: DirEntryNameBuf_try_from_def Let_def)
qed (auto simp: DirEntryNameBuf_try_from_def DirEntryName_try_from_def split: if_splits)

lemma FileType_from_dir_entry_cases:
  "FileType_from_dir_entry b = Err FileTypeError \<or> (\<exists>t. FileType_from_dir_entry b = Ok t)"
  by (simp add: FileType_from_dir_entry_def)

lemma DirEntry_from_bytes_holds:
  "holds (DirEntry_from_bytes bs inode path)
     (\<lambda>(e, n). 8 \<le> n \<and> n < 65536 \<and>
        (case e of None \<Rightarrow> u32le_at bs 0 = 0
         | Some d \<Rightarrow> entry_ok d \<and> de_inode d = u32le_at bs 0 \<and> de_path d = path \<and>
             (\<exists>name. DirEntry_file_name d = Ok name \<and> name = take (length name) (drop 8 bs)))) (\<lambda>_. True)"
proof (cases "length bs < 8")
  case True
  then show ?thesis by (simp add: DirEntry_from_bytes_def NAME_OFFSET_def)
next
  case len: False
  let ?n = "unat (u16le_at bs 4)"
  have n: "?n < 65536" using unat_less_bound[of "u16le_at bs 4"] by simp
  let ?l = "bs ! 6"
  have l: "unat ?l < 256" using unat_less_bound[of ?l] by simp
  let ?name = "take (unat ?l) (drop 8 bs)"
  have tk: "take (length ?name) (drop 8 bs) = ?name" by (rule nth_equalityI) auto
  have buf: "holds (map_err (\<lambda>e. Corrupt (DirEntryInvalidName inode e)) (DirEntryNameBuf_try_from ?name))
      (\<lambda>b. DirEntryNameBuf_try_from ?name = Ok b \<and> DirEntryName_try_from ?name = Ok ?name) (\<lambda>_. True)"
    using name_buf_cases[of ?name] by auto
  have ft: "holds (map_err (\<lambda>_. Corrupt (DirEntryInvalidFileType inode (bs ! 7))) (FileType_from_dir_entry (bs ! 7)))
      (\<lambda>_. True) (\<lambda>_. True)"
    using FileType_from_dir_entry_cases[of "bs ! 7"] by auto
  show ?thesis
  proof (cases "u32le_at bs 0 = 0")
    case True
    with len n show ?thesis
      by (simp add: DirEntry_from_bytes_def NAME_OFFSET_def usize_max_def Let_def nonzero_new_def not_less)
  next
    case False
    have "holds (bind_o (map_err (\<lambda>_. Corrupt (DirEntryInvalidFileType inode (bs ! 7))) (FileType_from_dir_entry (bs ! 7)))
       (\<lambda>file_type. bind_o (map_err (\<lambda>e. Corrupt (DirEntryInvalidName inode e)) (DirEntryNameBuf_try_from ?name)) (\<lambda>name.
         Ok (Some \<lparr>de_inode = u32le_at bs 0, de_name = name, de_path = path, de_file_type = file_type\<rparr>, ?n))))
      (\<lambda>(e, n). n = ?n \<and> (case e of None \<Rightarrow> False
         | Some d \<Rightarrow> entry_ok d \<and> de_inode d = u32le_at bs 0 \<and> de_path d = path \<and>
             (\<exists>name. DirEntry_file_name d = Ok name \<and> name = take (length name) (drop 8 bs)))) (\<lambda>_. True)"
      by (rule holds_bind_use[OF ft], simp, rule holds_bind_use[OF buf])
         (use False tk in \<open>auto simp: entry_ok_def DirEntry_file_name_def dest: name_buf_roundtrip intro!: exI[of _ ?name]\<close>)
    then have "holds (DirEntry_from_bytes bs inode path) (\<lambda>(e, n). n = ?n \<and> 8 \<le> n \<and> (case e of None \<Rightarrow> False
         | Some d \<Rightarrow> entry_ok d \<and> de_inode d = u32le_at bs 0 \<and> de_path d = path \<and>
             (\<exists>name. DirEntry_file_name d = Ok name \<and> name = take (length name) (drop 8 bs)))) (\<lambda>_. True)"
      using len l False
      by (cases "?n < 8"; cases "8 + unat ?l \<le> length bs")
         (auto simp: DirEntry_from_bytes_def NAME_OFFSET_def usize_max_def Let_def nonzero_new_def get_at_def
            usize_add_def get_range_def not_less require_def assert_o_def index_at_def elim!: holds_mono simp del: holds_bind_o holds_map_err)
    then show ?thesis by (rule holds_mono) (use n in \<open>auto split: option.splits\<close>)
  qed
qed

text \<open>The bytes of a record, as a writer of the format makes them.\<close>

definition file_type_code :: "FileType \<Rightarrow> u8" where
  "file_type_code t =
     (case t of Regular \<Rightarrow> 1 | Directory \<Rightarrow> 2 | CharacterDevice \<Rightarrow> 3 | BlockDevice \<Rightarrow> 4 | Fifo \<Rightarrow> 5
      | Socket \<Rightarrow> 6 | Symlink \<Rightarrow> 7)"

definition encode_entry :: "InodeIndex \<Rightarrow> u16 \<Rightarrow> FileType \<Rightarrow> DirEntryName \<Rightarrow> bytes" where
  "encode_entry i rec_len t name =
     to_le_bytes i @ to_le_bytes rec_len @ [of_nat (length name), file_type_code t] @ name"

lemma file_type_code_roundtrip: "FileType_from_dir_entry (file_type_code t) = Ok t"
  by (cases t) (simp_all add: FileType_from_dir_entry_def file_type_code_def)

lemma encode_entry_fields:
  assumes "length name \<le> 255"
  shows "u32le_at (encode_entry i rec_len t name @ rest) 0 = i" "u16le_at (encode_entry i rec_len t name @ rest) 4 = rec_len"
    "(encode_entry i rec_len t name @ rest) ! 6 = of_nat (length name)"
    "(encode_entry i rec_len t name @ rest) ! 7 = file_type_code t"
    "take (length name) (drop 8 (encode_entry i rec_len t name @ rest)) = name"
    "length (encode_entry i rec_len t name @ rest) = 8 + length name + length rest"
proof -
  have l: "length (to_le_bytes i) = 4" "length (to_le_bytes rec_len) = 2" by simp_all
  show "u32le_at (encode_entry i rec_len t name @ rest) 0 = i"
    using l from_to_le_bytes[of 4 i] by (simp add: u32le_at_def encode_entry_def to_le_bytes_def)
  show "u16le_at (encode_entry i rec_len t name @ rest) 4 = rec_len"
    using l from_to_le_bytes[of 2 rec_len] by (simp add: u16le_at_def encode_entry_def to_le_bytes_def)
qed (simp_all add: encode_entry_def nth_append)

lemma dir_entry_roundtrip:
  assumes "DirEntryNameBuf_try_from name = Ok buf" and "i \<noteq> 0" and "8 \<le> unat rec_len"
  shows "DirEntry_from_bytes (encode_entry i rec_len t name @ rest) dir path =
     Ok (Some \<lparr>de_inode = i, de_name = buf, de_path = path, de_file_type = t\<rparr>, unat rec_len)"
proof -
  have n: "length name \<le> 255" "DirEntryName_try_from name = Ok name"
    using assms(1) by (auto simp: DirEntryNameBuf_try_from_def DirEntryName_try_from_def MAX_LEN_def split: if_splits)
  note e = encode_entry_fields[OF n(1), of i rec_len t rest]
  have u: "unat (of_nat (length name) :: u8) = length name" using n(1) by (simp add: unat_of_nat)
  show ?thesis
    using e assms u n(1)
    by (simp add: DirEntry_from_bytes_def NAME_OFFSET_def usize_max_def Let_def nonzero_new_def get_at_def index_at_def
        usize_add_def get_range_def require_def assert_o_def file_type_code_roundtrip del: bind_o_eq_Ok map_err_eq_Ok)
qed

section \<open>The records of a block\<close>

text \<open>The entries in a directory block from an offset on, in order, and the error that ends the scan, if
  any. Records of inode 0 are not entries.\<close>

lemma record_length: "DirEntry_from_bytes bs inode path = Ok (e, n) \<Longrightarrow> 8 \<le> n \<and> n < 65536"
  using DirEntry_from_bytes_holds[of bs inode path] by auto

function scan_entries :: "InodeIndex \<Rightarrow> PathBuf \<Rightarrow> bytes \<Rightarrow> usize \<Rightarrow> (DirEntry, Ext4Error) out_seq" where
  "scan_entries inode path block offset =
     (if length block \<le> offset then ([], None)
      else case DirEntry_from_bytes (drop offset block) inode path of
        Ok (e, n) \<Rightarrow>
          (case e of
             None \<Rightarrow> scan_entries inode path block (offset + n)
           | Some d \<Rightarrow> out_append ([d], None) (scan_entries inode path block (offset + n)))
      | Err e \<Rightarrow> ([], Some e)
      | _ \<Rightarrow> ([], None))"
  by pat_completeness auto
termination
  by (relation "measure (\<lambda>(inode, path, block, offset). length block - offset)") (auto dest!: record_length)

declare scan_entries.simps [simp del]

section \<open>Properties\<close>

text \<open>C33: A directory entry written in the on-disk format is read back: parsing the bytes of a record with a
  valid name, a nonzero inode and a record length of at least eight bytes, whatever follows it in the
  block, returns the inode, the name, the file type and the record length.\<close>

theorem dir_entry_encode_parse:
  assumes "DirEntryName_try_from name = Ok name" and "i \<noteq> 0" and "8 \<le> unat rec_len"
  shows "\<exists>e. DirEntry_from_bytes (encode_entry i rec_len t name @ rest) dir path = Ok (Some e, unat rec_len) \<and>
     de_inode e = i \<and> DirEntry_file_name e = Ok name \<and> de_file_type e = t \<and> de_path e = path"
proof -
  from name_buf_cases[of name] assms(1) obtain b where b: "DirEntryNameBuf_try_from name = Ok b"
    by (auto simp: DirEntryNameBuf_try_from_def word_try_from_def DirEntryName_try_from_def MAX_LEN_def Let_def split: if_splits)
  from dir_entry_roundtrip[OF b assms(2,3)] name_buf_roundtrip[OF b] show ?thesis
    by (simp add: DirEntry_file_name_def)
qed

theorem dir_entry_encode_parse_witness:
  "\<exists>e. DirEntry_from_bytes (encode_entry 12 12 Regular [0x61, 0x62]) 2 [] = Ok (Some e, 12) \<and>
     DirEntry_file_name e = Ok [0x61, 0x62]"
proof -
  have v: "DirEntryName_try_from [0x61, 0x62] = Ok [0x61, 0x62]" by code_simp
  from dir_entry_encode_parse[OF v, of 12 12 Regular "[]" 2 "[]"] show ?thesis by auto
qed

text \<open>Parsing a directory record never panics, on any bytes. If it succeeds, the record length it returns
  is at least eight, so a scan of a block moves forward; and an entry it returns has a nonzero inode, and
  a valid name that is the bytes of the record after its header.\<close>

theorem dir_entry_parse_sound:
  "holds (DirEntry_from_bytes bs inode path)
     (\<lambda>(e, n). 8 \<le> n \<and> n < 65536 \<and>
        (case e of None \<Rightarrow> u32le_at bs 0 = 0
         | Some d \<Rightarrow> entry_ok d \<and> de_inode d = u32le_at bs 0 \<and> de_path d = path \<and>
             (\<exists>name. DirEntry_file_name d = Ok name \<and> name = take (length name) (drop 8 bs)))) (\<lambda>_. True)"
  by (rule DirEntry_from_bytes_holds)

end
