(* ===== verification/Dir_Block.thy ===== *)
theory Dir_Block
  imports Inode
begin

text \<open>
  Directory blocks (\<^verbatim>\<open>src/src/dir_block.rs\<close>): reading a block of a directory and verifying its checksum,
  whose place and extent depend on whether the block is a leaf, the root of an htree, or an internal node.
\<close>

datatype DirBlockType = Root | Internal | Leaf

record DirBlock =
  dk_block_index :: FsBlockIndex
  dk_is_first :: bool
  dk_dir_inode :: InodeIndex
  dk_has_htree :: bool
  dk_checksum_base :: Checksum

definition read_expected_checksum :: "bytes \<Rightarrow> u32 result" where
  "read_expected_checksum block =
     bind_o (unwrap (usize_sub (length block) 4)) (\<lambda>offset.
     read_u32le block offset)"

definition calc_leaf_checksum :: "DirBlock \<Rightarrow> bytes \<Rightarrow> Checksum result" where
  "calc_leaf_checksum self block =
     bind_o (unwrap (usize_sub (length block) 12)) (\<lambda>tail_entry_offset.
     bind_o (slice block 0 tail_entry_offset) (\<lambda>data.
     Ok (Checksum_update data (dk_checksum_base self))))"

definition calc_internal_checksum :: "DirBlock \<Rightarrow> bytes \<Rightarrow> DirBlockType \<Rightarrow> Checksum result" where
  "calc_internal_checksum self block block_type =
     bind_o (unwrap (usize_sub (length block) 8)) (\<lambda>tail_entry_offset.
     let limit_offset = (if block_type = Root then 0x20 else 0x8) in
     bind_o (unwrap (usize_add limit_offset 2)) (\<lambda>count_offset.
     bind_o (read_u16le block count_offset) (\<lambda>count.
     bind_o (unwrap (usize_mul (unat count) 8)) (\<lambda>count_bytes.
     bind_o (unwrap (usize_add limit_offset count_bytes)) (\<lambda>num_bytes.
     bind_o (slice block 0 num_bytes) (\<lambda>data.
     bind_o (read_u32le block tail_entry_offset) (\<lambda>tail.
     Ok (Checksum_update_u32_le 0
          (Checksum_update_u32_le tail (Checksum_update data (dk_checksum_base self)))))))))))"

definition get_block_type :: "DirBlock \<Rightarrow> BlockSize \<Rightarrow> bytes \<Rightarrow> DirBlockType result" where
  "get_block_type self block_size block =
     (if \<not> dk_has_htree self then Ok Leaf
      else if dk_is_first self then Ok Root
      else
        bind_o (read_u16le block 4) (\<lambda>first_rec_len.
        if ucast first_rec_len = BlockSize_to_u32 block_size then Ok Internal else Ok Leaf))"

text \<open>\<open>DirBlock::read\<close>; the buffer is given by its length, the block read is returned.\<close>

definition DirBlock_read :: "DirBlock \<Rightarrow> usize \<Rightarrow> bytes fs_op" where
  "DirBlock_read self block_len =
     bindc (gets (\<lambda>fs. sb_block_size (fs_superblock fs))) (\<lambda>block_size.
     bindc (lift (assert_o (block_len = BlockSize_to_usize block_size))) (\<lambda>_.
     bindc (read_from_block (dk_block_index self) 0 block_len) (\<lambda>block.
     bindc (gets has_metadata_checksums) (\<lambda>has_checksums.
     if \<not> has_checksums then ret block
     else
       bindc (lift (get_block_type self block_size block)) (\<lambda>block_type.
       bindc (lift (read_expected_checksum block)) (\<lambda>expected_checksum.
       bindc (lift (if block_type = Leaf then calc_leaf_checksum self block
                    else calc_internal_checksum self block block_type)) (\<lambda>actual_checksum.
       bindc (gets fs_crc) (\<lambda>crc.
       bindc (lift (require (Checksum_finalize crc actual_checksum = expected_checksum)
                      (Corrupt (DirBlockChecksum (dk_dir_inode self))))) (\<lambda>_.
       ret block)))))))))"

section \<open>The checksum of a block\<close>

text \<open>The verification as a function of the block, and the whole read as a function of the device.\<close>

definition verify_block :: "Ext4 \<Rightarrow> DirBlock \<Rightarrow> bytes \<Rightarrow> bytes result" where
  "verify_block fs self block =
     (if \<not> has_metadata_checksums fs then Ok block
      else
        bind_o (get_block_type self (sb_block_size (fs_superblock fs)) block) (\<lambda>block_type.
        bind_o (read_expected_checksum block) (\<lambda>expected.
        bind_o (if block_type = Leaf then calc_leaf_checksum self block
                else calc_internal_checksum self block block_type) (\<lambda>actual.
        bind_o (require (Checksum_finalize (fs_crc fs) actual = expected)
                  (Corrupt (DirBlockChecksum (dk_dir_inode self)))) (\<lambda>_.
        Ok block)))))"

definition dir_block_spec :: "(nat \<Rightarrow> u8) \<Rightarrow> Ext4 \<Rightarrow> DirBlock \<Rightarrow> bytes result" where
  "dir_block_spec disk fs self =
     bind_o (block_read_spec disk fs (dk_block_index self) 0 (block_bytes fs)) (verify_block fs self)"

lemma DirBlock_read_computes:
  assumes "good disk fs0 fs" and "device_complete fs0"
  shows "computes disk fs0 fs (DirBlock_read self (block_bytes fs0)) (dir_block_spec disk fs0 self)"
proof -
  have a: "assert_o (block_bytes fs0 = BlockSize_to_usize (sb_block_size (fs_superblock fs0))) = (Ok () :: unit result)"
    by (simp add: assert_o_def BlockSize_to_usize_def usize_from_u32_def)
  have "computes disk fs0 fs (DirBlock_read self (block_bytes fs0))
      (bind_o (Ok ()) (\<lambda>_. dir_block_spec disk fs0 self))"
    unfolding DirBlock_read_def dir_block_spec_def verify_block_def
    apply (rule computes_gets, simp add: good_sel[OF assms(1)])
    apply (subst a)
    apply (rule computes_lift_bind[OF assms(1)])
    apply (rule computes_bind[OF computes_read[OF assms]])
     apply simp
    apply (rule computes_gets, simp add: good_sel)
    apply (rule computes_if)
     apply (simp add: computes_ret)
    apply (intro computes_intros; simp add: good_sel)
    done
  then show ?thesis by simp
qed

lemma block_shape:
  assumes "dir_block_spec disk fs self = Ok block"
  shows "length block = block_bytes fs"
  using assms by (auto simp: dir_block_spec_def block_read_spec_def verify_block_def split: if_splits)

text \<open>How much of an internal node its on-disk count claims.\<close>

definition node_bytes :: "DirBlockType \<Rightarrow> bytes \<Rightarrow> nat" where
  "node_bytes t block = (let limit_offset = (if t = Root then 0x20 else 0x8) in
     limit_offset + 8 * unat (u16le_at block (limit_offset + 2)))"

definition count_overruns :: "Ext4 \<Rightarrow> DirBlock \<Rightarrow> bytes \<Rightarrow> bool" where
  "count_overruns fs self block \<longleftrightarrow> has_metadata_checksums fs \<and> dk_has_htree self \<and>
     (if dk_is_first self then length block < node_bytes Root block
      else unat (u16le_at block 4) = block_bytes fs \<and> length block < node_bytes Internal block)"

lemma calc_internal_cases:
  assumes "1024 \<le> length block" and "length block \<le> usize_max"
  shows "if length block < node_bytes t block then calc_internal_checksum self block t = Panic
     else \<exists>c. calc_internal_checksum self block t = Ok c"
proof -
  let ?l = "(if t = Root then 0x20 else 0x8) :: nat"
  have c: "unat (u16le_at block (?l + 2)) < 65536" using unat_less_bound[of "u16le_at block (?l + 2)"] by simp
  show ?thesis
    using assms c
    by (auto simp: calc_internal_checksum_def usize_sub_def usize_add_def usize_mul_def usize_max_def Let_def
        node_bytes_def slice_def get_range_def mult.commute)
qed

lemma verify_block_cases:
  assumes "length block = block_bytes fs" and "1024 \<le> length block" and "length block \<le> usize_max"
  shows "if count_overruns fs self block then verify_block fs self block = Panic
     else holds (verify_block fs self block) (\<lambda>b. b = block) (\<lambda>e. e = Corrupt (DirBlockChecksum (dk_dir_inode self)))"
proof (cases "has_metadata_checksums fs")
  case False
  then show ?thesis by (simp add: verify_block_def count_overruns_def)
next
  case True
  obtain t where t: "get_block_type self (sb_block_size (fs_superblock fs)) block = Ok t"
    "t = (if \<not> dk_has_htree self then Leaf else if dk_is_first self then Root
          else if unat (u16le_at block 4) = block_bytes fs then Internal else Leaf)"
    using assms by (simp add: get_block_type_def BlockSize_to_u32_def usize_max_def word_unat_eq_iff)
  have e: "read_expected_checksum block = Ok (u32le_at block (length block - 4))"
    using assms by (simp add: read_expected_checksum_def usize_sub_def)
  have l: "\<exists>c. calc_leaf_checksum self block = Ok c"
    using assms by (simp add: calc_leaf_checksum_def usize_sub_def slice_def get_range_def)
  have p: "count_overruns fs self block \<longleftrightarrow> t \<noteq> Leaf \<and> length block < node_bytes t block"
    using True t(2) by (simp add: count_overruns_def)
  show ?thesis
  proof (cases "t = Leaf")
    case True
    with t(1) e l p show ?thesis by (auto simp: verify_block_def)
  next
    case False
    with calc_internal_cases[OF assms(2,3), of t self] t(1) e p True show ?thesis
      by (auto simp: verify_block_def split: if_splits)
  qed
qed

lemma dir_block_spec_cases:
  assumes "fs_ok disk fs"
  shows "(\<exists>e. dir_block_spec disk fs self = Err e) \<or> (\<exists>b. dir_block_spec disk fs self = Ok b) \<or>
    (dir_block_spec disk fs self = Panic \<and> readable fs (mapped fs (dk_block_index self)) 0 (block_bytes fs) \<and>
     count_overruns fs self (disk_range disk (unat (mapped fs (dk_block_index self)) * block_bytes fs) (block_bytes fs)))"
proof (cases "readable fs (mapped fs (dk_block_index self)) 0 (block_bytes fs)")
  case False
  then show ?thesis by (simp add: dir_block_spec_def block_read_spec_def)
next
  case True
  have B: "1024 \<le> block_bytes fs" "block_bytes fs \<le> usize_max"
    using fs_ok_block_size[OF assms] by (auto simp: usize_max_def)
  let ?b = "disk_range disk (unat (mapped fs (dk_block_index self)) * block_bytes fs) (block_bytes fs)"
  have "dir_block_spec disk fs self = verify_block fs self ?b"
    using True by (simp add: dir_block_spec_def block_read_spec_def)
  with verify_block_cases[of ?b fs self] B True show ?thesis
    by (cases "verify_block fs self ?b") (auto split: if_splits)
qed

section \<open>Properties\<close>

text \<open>C38: Reading a directory block on a device on which every block can be read panics exactly if the block
  is read with metadata checksums, is the root or an internal node of an htree, and the entry count it
  stores claims more bytes than the block has: the count is used for a slice before anything checks it.\<close>

theorem dir_block_read_panics_iff:
  assumes "fs_ok disk fs" and "device_complete fs"
  shows "fst (DirBlock_read self (block_bytes fs) fs) = Panic \<longleftrightarrow>
     readable fs (mapped fs (dk_block_index self)) 0 (block_bytes fs) \<and>
     count_overruns fs self (disk_range disk (unat (mapped fs (dk_block_index self)) * block_bytes fs) (block_bytes fs))"
proof -
  have s: "fst (DirBlock_read self (block_bytes fs) fs) = dir_block_spec disk fs self"
    using DirBlock_read_computes[OF good_refl[OF assms(1)] assms(2)] by (simp add: computes_def)
  have B: "1024 \<le> block_bytes fs" "block_bytes fs \<le> usize_max"
    using fs_ok_block_size[OF assms(1)] by (auto simp: usize_max_def)
  show ?thesis
    unfolding s using dir_block_spec_cases[OF assms(1), of self] verify_block_cases[of _ fs self] B
    by (fastforce simp: dir_block_spec_def block_read_spec_def)
qed

definition checksum_fs :: "bytes \<Rightarrow> Ext4" where
  "checksum_fs img = vec_fs (sample_superblock\<lparr>sb_read_only_compatible_features := METADATA_CHECKSUMS\<rparr>) [] img"

lemma checksum_superblock_valid: "valid_superblock (sample_superblock\<lparr>sb_read_only_compatible_features := METADATA_CHECKSUMS\<rparr>)"
  using sample_superblock_valid by (simp add: valid_superblock_def)

theorem dir_block_read_panics_iff_witness:
  "fst (DirBlock_read \<lparr>dk_block_index = 7, dk_is_first = True, dk_dir_inode = 2, dk_has_htree = True,
      dk_checksum_base = Checksum_new\<rparr> 1024 (checksum_fs (replicate 16384 0xff))) = Panic"
proof -
  let ?img = "replicate 16384 0xff :: bytes" and ?fs = "checksum_fs (replicate 16384 0xff)"
  let ?db = "\<lparr>dk_block_index = 7, dk_is_first = True, dk_dir_inode = 2, dk_has_htree = True,
      dk_checksum_base = Checksum_new\<rparr>"
  have ok: "fs_ok (disk_of ?img) ?fs" unfolding checksum_fs_def by (rule vec_fs_ok[OF checksum_superblock_valid])
  have dc: "device_complete ?fs"
    unfolding checksum_fs_def by (rule vec_fs_complete) (simp_all add: sample_superblock_def usize_max_def)
  have B: "block_bytes ?fs = 1024" by (simp add: checksum_fs_def sample_superblock_def)
  have r: "readable ?fs 7 0 1024" "mapped ?fs 7 = 7" by (simp_all add: readable_def checksum_fs_def sample_superblock_def)
  have "disk_range (disk_of ?img) 7168 1024 = replicate 1024 0xff"
    by (rule nth_equalityI) (simp_all add: disk_range_def disk_of_def)
  moreover have "u16le_at (replicate 1024 0xff) 34 = 0xffff" by (simp add: u16le_at_nth)
  ultimately have "count_overruns ?fs ?db (disk_range (disk_of ?img) 7168 1024)"
    by (simp add: count_overruns_def node_bytes_def has_metadata_checksums_def checksum_fs_def contains_def)
  with dir_block_read_panics_iff[OF ok dc, of ?db] r show ?thesis by (simp add: B)
qed

end
