(* ===== verification/Extents.thy ===== *)
theory Extents
  imports Inode Result_Iter
begin

text \<open>
  The iterator over an inode's extent tree (\<^verbatim>\<open>src/src/iters/extents.rs\<close>): a stack of partly visited
  nodes, walked in order from the root that is stored in the inode. A state is the iterator together
  with the file system it reads. After the model: the iterator never panics; it yields the leaves of
  the tree in order (relation \<open>walk\<close>), and returns on every tree in which children are less deep than
  their parents.
\<close>

definition ENTRY_SIZE_IN_BYTES :: usize where
  "ENTRY_SIZE_IN_BYTES = 12"

record NodeHeader =
  nh_num_entries :: u16
  nh_max_entries :: u16
  nh_depth :: u16

definition add_one_mul_entry_size :: "u16 \<Rightarrow> (usize, 'e) outcome" where
  "add_one_mul_entry_size n =
     bind_o (unwrap (usize_add (unat n) 1)) (\<lambda>n_plus_one.
     unwrap (usize_mul n_plus_one ENTRY_SIZE_IN_BYTES))"

definition NodeHeader_node_size_in_bytes :: "NodeHeader \<Rightarrow> (usize, 'e) outcome" where
  "NodeHeader_node_size_in_bytes self = add_one_mul_entry_size (nh_num_entries self)"

definition NodeHeader_checksum_offset :: "NodeHeader \<Rightarrow> (usize, 'e) outcome" where
  "NodeHeader_checksum_offset self = add_one_mul_entry_size (nh_max_entries self)"

definition NodeHeader_from_bytes :: "bytes \<Rightarrow> InodeIndex \<Rightarrow> NodeHeader result" where
  "NodeHeader_from_bytes data inode =
     bind_o (require (\<not> length data < ENTRY_SIZE_IN_BYTES) (Corrupt (ExtentNotEnoughData inode))) (\<lambda>_.
     bind_o (read_u16le data 0) (\<lambda>eh_magic.
     bind_o (read_u16le data 2) (\<lambda>eh_entries.
     bind_o (read_u16le data 4) (\<lambda>eh_max.
     bind_o (read_u16le data 6) (\<lambda>eh_depth.
     bind_o (require (\<not> eh_magic \<noteq> 0xf30a) (Corrupt (ExtentMagic inode))) (\<lambda>_.
     bind_o (require (\<not> eh_depth > 5) (Corrupt (ExtentDepth inode))) (\<lambda>_.
     Ok \<lparr>nh_num_entries = eh_entries, nh_max_entries = eh_max, nh_depth = eh_depth\<rparr>)))))))"

record ToVisitItem =
  tv_node :: bytes
  tv_entry :: u32
  tv_depth :: u16

definition ToVisitItem_new :: "bytes \<Rightarrow> InodeIndex \<Rightarrow> ToVisitItem result" where
  "ToVisitItem_new node inode =
     bind_o (NodeHeader_from_bytes node inode) (\<lambda>header.
     bind_o (NodeHeader_node_size_in_bytes header) (\<lambda>size.
     bind_o (require (\<not> length node < size) (Corrupt (ExtentNotEnoughData inode))) (\<lambda>_.
     Ok \<lparr>tv_node = take size node, tv_entry = 0, tv_depth = nh_depth header\<rparr>)))"

definition ToVisitItem_entry :: "ToVisitItem \<Rightarrow> bytes option result" where
  "ToVisitItem_entry self =
     bind_o (unwrap (usize_mul (usize_from_u32 (tv_entry self)) ENTRY_SIZE_IN_BYTES)) (\<lambda>start.
     bind_o (unwrap (usize_add start ENTRY_SIZE_IN_BYTES)) (\<lambda>end.
     Ok (get_range (tv_node self) start end)))"

record Extents =
  et_inode :: InodeIndex
  et_to_visit :: "ToVisitItem list"
  et_checksum_base :: Checksum
  et_is_done :: bool

definition Extents_new :: "Inode \<Rightarrow> Extents result" where
  "Extents_new inode =
     bind_o (ToVisitItem_new (in_inline_data inode) (in_index inode)) (\<lambda>root.
     Ok \<lparr>et_inode = in_index inode, et_to_visit = [root], et_checksum_base = in_checksum_base inode,
         et_is_done = False\<rparr>)"

text \<open>An entry of a leaf node.\<close>

definition parse_extent :: "bytes \<Rightarrow> Extent result" where
  "parse_extent entry =
     bind_o (read_u32le entry 0) (\<lambda>ee_block.
     bind_o (read_u16le entry 4) (\<lambda>ee_len.
     bind_o (read_u16le entry 6) (\<lambda>ee_start_hi.
     bind_o (read_u32le entry 8) (\<lambda>ee_start_low.
     let start_block = u64_from_hilo (ucast ee_start_hi) ee_start_low in
     Ok \<lparr>ex_block_within_file = ee_block, ex_start_block = start_block, ex_num_blocks = ee_len\<rparr>))))"

text \<open>An entry of an internal node: read the child node it points to and verify its checksum.\<close>

definition load_child :: "InodeIndex \<Rightarrow> Checksum \<Rightarrow> bytes \<Rightarrow> ToVisitItem fs_op" where
  "load_child inode checksum_base entry =
     bindc (lift (read_u32le entry 4)) (\<lambda>ei_leaf_lo.
     bindc (lift (read_u16le entry 8)) (\<lambda>ei_leaf_hi.
     let child_block = u64_from_hilo (ucast ei_leaf_hi) ei_leaf_lo in
     bindc (read_from_block child_block 0 ENTRY_SIZE_IN_BYTES) (\<lambda>child_header.
     bindc (lift (NodeHeader_from_bytes child_header inode)) (\<lambda>child_header.
     bindc (lift (NodeHeader_checksum_offset child_header)) (\<lambda>checksum_offset.
     bindc (gets has_metadata_checksums) (\<lambda>has_checksums.
     let checksum_size = (if has_checksums then 4 else 0) in
     bindc (lift (unwrap (usize_add checksum_offset checksum_size))) (\<lambda>child_node_size.
     bindc (gets (\<lambda>ext4. sb_block_size (fs_superblock ext4))) (\<lambda>block_size.
     bindc (lift (require (\<not> child_node_size > BlockSize_to_usize block_size)
                    (Corrupt (ExtentNodeSize inode)))) (\<lambda>_.
     bindc (read_from_block child_block 0 child_node_size) (\<lambda>child_node.
     bindc (if has_checksums then
              bindc (lift (read_u32le child_node checksum_offset)) (\<lambda>expected_checksum.
              bindc (lift (slice child_node 0 checksum_offset)) (\<lambda>data.
              bindc (gets fs_crc) (\<lambda>crc.
              let actual_checksum = Checksum_finalize crc (Checksum_update data checksum_base) in
              lift (require (\<not> expected_checksum \<noteq> actual_checksum) (Corrupt (ExtentChecksum inode))))))
            else ret ()) (\<lambda>_.
     lift (ToVisitItem_new child_node inode))))))))))))"

definition Extents_next_impl :: "(Extents \<times> Ext4, Extent option, Ext4Error) comp" where
  "Extents_next_impl =
     bindc (gets_fst (\<lambda>self. self)) (\<lambda>self.
     if et_to_visit self = [] then
       bindc (modify_fst (\<lambda>self. self\<lparr>et_is_done := True\<rparr>)) (\<lambda>_. ret None)
     else
       let item = last (et_to_visit self) in
       bindc (lift (unwrap (checked_add (tv_entry item) 1))) (\<lambda>entry.
       let item = item\<lparr>tv_entry := entry\<rparr> in
       bindc (modify_fst (\<lambda>self. self\<lparr>et_to_visit := butlast (et_to_visit self) @ [item]\<rparr>)) (\<lambda>_.
       bindc (lift (ToVisitItem_entry item)) (\<lambda>opt_entry.
       case opt_entry of
         None \<Rightarrow>
           bindc (modify_fst (\<lambda>self. self\<lparr>et_to_visit := butlast (et_to_visit self)\<rparr>)) (\<lambda>_. ret None)
       | Some entry \<Rightarrow>
           if tv_depth item = 0 then
             bindc (lift (parse_extent entry)) (\<lambda>extent. ret (Some extent))
           else
             bindc (on_snd (load_child (et_inode self) (et_checksum_base self) entry)) (\<lambda>child.
             bindc (modify_fst (\<lambda>self. self\<lparr>et_to_visit := et_to_visit self @ [child]\<rparr>)) (\<lambda>_.
             ret None))))))"

definition Extents_next :: "(Extents \<times> Ext4, Extent option, Ext4Error) comp" where
  "Extents_next = result_iter_next (\<lambda>s. et_is_done (fst s))
     (\<lambda>s. ((fst s)\<lparr>et_is_done := True\<rparr>, snd s)) Extents_next_impl"

section \<open>Well-formed iterators\<close>

definition item_ok :: "ToVisitItem \<Rightarrow> bool" where
  "item_ok item \<longleftrightarrow> (\<exists>n < 2 ^ 16. length (tv_node item) = (n + 1) * 12 \<and> unat (tv_entry item) \<le> n)"

definition extents_ok :: "Extents \<Rightarrow> bool" where
  "extents_ok it \<longleftrightarrow> list_all item_ok (et_to_visit it)"

lemma add_one_mul_entry_size_eq: "add_one_mul_entry_size n = Ok ((unat n + 1) * 12)"
proof -
  have "unat n < 2 ^ 16" using unat_less_bound[of n] by simp
  then show ?thesis
    by (simp add: add_one_mul_entry_size_def usize_add_def usize_mul_def usize_max_def ENTRY_SIZE_IN_BYTES_def)
qed

lemma NodeHeader_from_bytes_holds:
  "holds (NodeHeader_from_bytes data i)
     (\<lambda>h. 12 \<le> length data \<and> nh_num_entries h = u16le_at data 2 \<and> nh_max_entries h = u16le_at data 4 \<and>
          nh_depth h = u16le_at data 6 \<and> nh_depth h \<le> 5)
     (\<lambda>e. e \<in> {Corrupt (ExtentNotEnoughData i), Corrupt (ExtentMagic i), Corrupt (ExtentDepth i)})"
  unfolding NodeHeader_from_bytes_def
  by (intro holds_intros) (auto simp: ENTRY_SIZE_IN_BYTES_def usize_max_def not_less)

lemma ToVisitItem_new_holds:
  "holds (ToVisitItem_new node i)
     (\<lambda>item. item_ok item \<and> tv_entry item = 0 \<and> tv_depth item \<le> 5)
     (\<lambda>e. e \<in> {Corrupt (ExtentNotEnoughData i), Corrupt (ExtentMagic i), Corrupt (ExtentDepth i)})"
proof -
  have *: "unat w < 65536" for w :: u16 using unat_less_bound[of w] by simp
  show ?thesis
    unfolding ToVisitItem_new_def
    by (rule holds_bind_use[OF NodeHeader_from_bytes_holds], simp)
       (auto simp: NodeHeader_node_size_in_bytes_def add_one_mul_entry_size_eq item_ok_def *)
qed

text \<open>The entry a visit moves to, and its bytes.\<close>

definition bump :: "ToVisitItem \<Rightarrow> ToVisitItem" where
  "bump item = item\<lparr>tv_entry := tv_entry item + 1\<rparr>"

definition entry_bytes :: "ToVisitItem \<Rightarrow> bytes option" where
  "entry_bytes item =
     (if (unat (tv_entry item) + 1) * 12 \<le> length (tv_node item)
      then Some (take 12 (drop (unat (tv_entry item) * 12) (tv_node item))) else None)"

lemma bump_ok:
  assumes "item_ok item"
  shows "checked_add (tv_entry item) 1 = Some (tv_entry item + 1)"
    and "unat (tv_entry item + 1) = unat (tv_entry item) + 1"
    and "tv_depth (bump item) = tv_depth item"
    and "ToVisitItem_entry (bump item) = Ok (entry_bytes (bump item))"
    and "entry_bytes (bump item) = Some b \<Longrightarrow> item_ok (bump item) \<and> length b = 12"
proof -
  obtain n where n: "n < 2 ^ 16" "unat (tv_entry item) \<le> n" "length (tv_node item) = (n + 1) * 12"
    using assms by (auto simp: item_ok_def)
  then have "unat (tv_entry item) + 1 < 2 ^ 32" by simp
  then show ca: "checked_add (tv_entry item) 1 = Some (tv_entry item + 1)"
    and u: "unat (tv_entry item + 1) = unat (tv_entry item) + 1"
    by (simp_all add: checked_add_def unat_word_ariths)
  show "tv_depth (bump item) = tv_depth item" by (simp add: bump_def)
  show "ToVisitItem_entry (bump item) = Ok (entry_bytes (bump item))"
    using n u
    by (auto simp: ToVisitItem_entry_def usize_mul_def usize_add_def usize_from_u32_def usize_max_def
        ENTRY_SIZE_IN_BYTES_def get_range_def bump_def entry_bytes_def)
  show "item_ok (bump item) \<and> length b = 12" if "entry_bytes (bump item) = Some b"
    using that n u by (auto simp: entry_bytes_def bump_def item_ok_def split: if_splits)
qed

lemma parse_extent_eq:
  assumes "length entry = 12"
  shows "parse_extent entry = Ok \<lparr>ex_block_within_file = u32le_at entry 0,
     ex_start_block = u64_from_hilo (ucast (u16le_at entry 6)) (u32le_at entry 8),
     ex_num_blocks = u16le_at entry 4\<rparr>"
  using assms by (simp add: parse_extent_def usize_max_def)

section \<open>Loading a child node\<close>

lemma load_child_wp:
  assumes ok: "fs_ok disk fs" and len: "10 \<le> length entry"
  shows "wp (load_child i cb entry)
    (\<lambda>c fs'. fs_ok disk fs' \<and> same_fs fs fs' \<and> item_ok c \<and> tv_entry c = 0 \<and> tv_depth c \<le> 5)
    (\<lambda>e fs'. fs_ok disk fs' \<and> same_fs fs fs') fs"
proof -
  have rd: "wp (read_from_block b 0 n) (\<lambda>d fs'. good disk fs fs' \<and> length d = n)
      (\<lambda>e fs'. good disk fs fs') fs1" if "good disk fs fs1" for b n fs1
    by (rule wp_mono[OF block_read_wp[of disk fs1]])
       (use that in \<open>auto simp: good_def intro: same_fs_trans\<close>)
  have off: "NodeHeader_checksum_offset h = Ok ((unat (nh_max_entries h) + 1) * 12)"
    "(unat (nh_max_entries h) + 1) * 12 + 4 \<le> usize_max" for h
    using unat_less_bound[of "nh_max_entries h"]
    by (auto simp: NodeHeader_checksum_offset_def add_one_mul_entry_size_eq usize_max_def)
  have "wp (load_child i cb entry)
    (\<lambda>c fs'. good disk fs fs' \<and> item_ok c \<and> tv_entry c = 0 \<and> tv_depth c \<le> 5)
    (\<lambda>e fs'. good disk fs fs') fs"
    unfolding load_child_def
    apply (intro wp_intros)
        apply (use len in \<open>simp_all add: usize_max_def\<close>)
    apply (rule wp_bind_use[OF rd[OF good_refl[OF ok]]], simp)
    apply (rule wp_bind_lift_use[OF NodeHeader_from_bytes_holds], simp)
    subgoal for x s' h
      apply (simp only: off)
      apply (intro wp_intros)
       apply (rule usize_add_small, use off(2)[of h] in simp)
       apply simp
      apply (rule wp_bind_use[OF rd], simp, simp)
      apply (intro wp_intros)
      using off(2)[of h]
      apply (auto simp: ENTRY_SIZE_IN_BYTES_def wp_simps intro!: holds_mono[OF ToVisitItem_new_holds])
      done
    done
  then show ?thesis by (simp add: good_def conj_assoc)
qed

text \<open>The child as a function of the device: the same steps, with the block reads replaced by the
  device's content.\<close>

definition extent_child :: "(nat \<Rightarrow> u8) \<Rightarrow> Ext4 \<Rightarrow> InodeIndex \<Rightarrow> Checksum \<Rightarrow> bytes \<Rightarrow> ToVisitItem result" where
  "extent_child disk fs inode checksum_base entry =
     bind_o (read_u32le entry 4) (\<lambda>lo.
     bind_o (read_u16le entry 8) (\<lambda>hi.
     let b = u64_from_hilo (ucast hi) lo in
     bind_o (block_read_spec disk fs b 0 ENTRY_SIZE_IN_BYTES) (\<lambda>hdr.
     bind_o (NodeHeader_from_bytes hdr inode) (\<lambda>header.
     bind_o (NodeHeader_checksum_offset header) (\<lambda>off.
     let sum_size = (if has_metadata_checksums fs then 4 else 0) in
     bind_o (unwrap (usize_add off sum_size)) (\<lambda>size.
     bind_o (require (\<not> size > BlockSize_to_usize (sb_block_size (fs_superblock fs)))
               (Corrupt (ExtentNodeSize inode))) (\<lambda>_.
     bind_o (block_read_spec disk fs b 0 size) (\<lambda>node.
     bind_o (if has_metadata_checksums fs then
               bind_o (read_u32le node off) (\<lambda>expected.
               bind_o (slice node 0 off) (\<lambda>data.
               let actual = Checksum_finalize (fs_crc fs) (Checksum_update data checksum_base) in
               require (\<not> expected \<noteq> actual) (Corrupt (ExtentChecksum inode))))
             else Ok ()) (\<lambda>_.
     ToVisitItem_new node inode)))))))))"

lemma load_child_computes:
  assumes "good disk fs0 fs" and "device_complete fs0"
  shows "computes disk fs0 fs (load_child i cb entry) (extent_child disk fs0 i cb entry)"
  unfolding load_child_def extent_child_def
  apply (intro computes_intros computes_bind[OF computes_read] assms)
  apply (simp_all add: good_sel assms(2))
  apply (intro conjI impI computes_intros computes_bind)
  apply (simp_all add: good_sel)
  done

section \<open>One step\<close>

definition extent_of :: "bytes \<Rightarrow> Extent" where
  "extent_of entry = \<lparr>ex_block_within_file = u32le_at entry 0,
     ex_start_block = u64_from_hilo (ucast (u16le_at entry 6)) (u32le_at entry 8),
     ex_num_blocks = u16le_at entry 4\<rparr>"

lemma Extents_next_impl_empty:
  "et_to_visit it = [] \<Longrightarrow> Extents_next_impl (it, fs) = (Ok None, (it\<lparr>et_is_done := True\<rparr>, fs))"
  by (simp add: Extents_next_impl_def comp_defs)

lemma Extents_next_impl_eq:
  assumes "item_ok item"
  shows "Extents_next_impl (it\<lparr>et_to_visit := stk @ [item]\<rparr>, fs) =
    (case entry_bytes (bump item) of
       None \<Rightarrow> (Ok None, (it\<lparr>et_to_visit := stk\<rparr>, fs))
     | Some b \<Rightarrow>
         if tv_depth item = 0 then (Ok (Some (extent_of b)), (it\<lparr>et_to_visit := stk @ [bump item]\<rparr>, fs))
         else (case load_child (et_inode it) (et_checksum_base it) b fs of
             (Ok c, fs') \<Rightarrow> (Ok None, (it\<lparr>et_to_visit := stk @ [bump item, c]\<rparr>, fs'))
           | (Err e, fs') \<Rightarrow> (Err e, (it\<lparr>et_to_visit := stk @ [bump item]\<rparr>, fs'))
           | (Panic, fs') \<Rightarrow> (Panic, (it\<lparr>et_to_visit := stk @ [bump item]\<rparr>, fs'))
           | (Diverge, fs') \<Rightarrow> (Diverge, (it\<lparr>et_to_visit := stk @ [bump item]\<rparr>, fs'))))"
proof -
  note b = bump_ok[OF assms]
  have "item\<lparr>tv_entry := tv_entry item + 1\<rparr> = bump item" by (simp add: bump_def)
  then show ?thesis
    using b(1,3,4) b(5)
    by (auto simp: Extents_next_impl_def comp_defs Let_def extent_of_def parse_extent_eq
        split: option.split prod.split outcome.split)
qed

lemma Extents_next_impl_safe:
  assumes "extents_ok it" and "fs_ok disk fs"
  shows "wp Extents_next_impl
    (\<lambda>_ (it', fs'). extents_ok it' \<and> good disk fs fs') (\<lambda>_ (it', fs'). extents_ok it' \<and> good disk fs fs') (it, fs)"
proof (cases "et_to_visit it" rule: rev_cases)
  case Nil
  with assms show ?thesis by (simp add: wp_def Extents_next_impl_empty extents_ok_def good_refl)
next
  case (snoc stk item)
  then have it: "it = it\<lparr>et_to_visit := stk @ [item]\<rparr>" by simp
  have ok: "item_ok item" "list_all item_ok stk" using assms(1) snoc by (simp_all add: extents_ok_def)
  have "wp Extents_next_impl
    (\<lambda>_ (it', fs'). extents_ok it' \<and> good disk fs fs') (\<lambda>_ (it', fs'). extents_ok it' \<and> good disk fs fs')
    (it\<lparr>et_to_visit := stk @ [item]\<rparr>, fs)"
  proof (cases "entry_bytes (bump item)")
    case None
    with ok assms show ?thesis
      by (simp add: wp_def Extents_next_impl_eq[OF ok(1)] extents_ok_def good_refl)
  next
    case (Some b)
    note bb = bump_ok(5)[OF ok(1) Some]
    from load_child_wp[OF assms(2), of b "et_inode it" "et_checksum_base it"] bb ok Some assms show ?thesis
      by (auto simp: wp_def Extents_next_impl_eq[OF ok(1)] extents_ok_def good_def
          split: prod.splits outcome.splits)
  qed
  with it show ?thesis by simp
qed

lemma Extents_new_ok:
  "holds (Extents_new inode) (\<lambda>it. extents_ok it \<and> \<not> et_is_done it \<and> et_inode it = in_index inode)
     (\<lambda>_. True)"
  unfolding Extents_new_def
  by (rule holds_bind_use[OF ToVisitItem_new_holds]) (auto simp: extents_ok_def)

section \<open>The walk of a tree\<close>

text \<open>
  \<open>walk child item es r\<close>: visiting the entries of a node behind the current one, children first to
  last, gives the extents \<open>es\<close> and ends (\<open>r = None\<close>) or stops at the error of a child that cannot be
  loaded. \<open>child\<close> is the node an entry points to.
\<close>

inductive walk :: "(bytes \<Rightarrow> ToVisitItem result) \<Rightarrow> ToVisitItem \<Rightarrow> Extent list \<Rightarrow> Ext4Error option \<Rightarrow> bool"
  for child where
  walk_end: "entry_bytes (bump item) = None \<Longrightarrow> walk child item [] None"
| walk_leaf: "entry_bytes (bump item) = Some b \<Longrightarrow> tv_depth item = 0 \<Longrightarrow>
    walk child (bump item) es r \<Longrightarrow> walk child item (extent_of b # es) r"
| walk_error: "entry_bytes (bump item) = Some b \<Longrightarrow> tv_depth item \<noteq> 0 \<Longrightarrow>
    child b = Err e \<Longrightarrow> walk child item [] (Some e)"
| walk_child: "entry_bytes (bump item) = Some b \<Longrightarrow> tv_depth item \<noteq> 0 \<Longrightarrow> child b = Ok c \<Longrightarrow>
    walk child c es None \<Longrightarrow> walk child (bump item) es' r \<Longrightarrow> walk child item (es @ es') r"
| walk_abort: "entry_bytes (bump item) = Some b \<Longrightarrow> tv_depth item \<noteq> 0 \<Longrightarrow> child b = Ok c \<Longrightarrow>
    walk child c es (Some e) \<Longrightarrow> walk child item es (Some e)"

inductive_cases walkE: "walk child item es r"

text \<open>The iterator, seen as a producer of items: \<open>produces it fs es r\<close>.\<close>

definition produces :: "Extents \<times> Ext4 \<Rightarrow> Extent list \<Rightarrow> Ext4Error option \<Rightarrow> bool" where
  "produces s es r \<longleftrightarrow> (\<exists>s'. yields Extents_next s es r s')"

lemma produces_step:
  assumes "\<not> et_is_done (fst s)" and "Extents_next_impl s = (Ok None, s1)" and "produces s1 es r"
  shows "produces s es r"
  using assms yields_again[of "\<lambda>s. et_is_done (fst s)" s Extents_next_impl s1]
  unfolding produces_def Extents_next_def by blast

lemma produces_item:
  assumes "\<not> et_is_done (fst s)" and "Extents_next_impl s = (Ok (Some x), s1)" and "produces s1 es r"
  shows "produces s (x # es) r"
  using assms iter_next_item[of "\<lambda>s. et_is_done (fst s)" s Extents_next_impl x s1]
  unfolding produces_def Extents_next_def by (blast intro: yields_item)

lemma produces_error:
  assumes "\<not> et_is_done (fst s)" and "Extents_next_impl s = (Err e, s1)"
  shows "produces s [] (Some e)"
  using iter_next_err[of "\<lambda>s. et_is_done (fst s)" s Extents_next_impl e s1] assms
  unfolding produces_def Extents_next_def by (blast intro: yields_err)

lemma produces_empty:
  assumes "\<not> et_is_done it" and "et_to_visit it = []"
  shows "produces (it, fs) [] None"
proof -
  have "produces (it\<lparr>et_is_done := True\<rparr>, fs) [] None"
    using iter_next_done[of "\<lambda>s. et_is_done (fst s)" "(it\<lparr>et_is_done := True\<rparr>, fs)"]
    unfolding produces_def Extents_next_def by (auto intro!: exI yields_end)
  from produces_step[OF _ Extents_next_impl_empty[OF assms(2)] this] assms(1) show ?thesis by simp
qed

text \<open>The three ways a step of a visit goes on.\<close>

lemma produces_pop:
  assumes "item_ok item" and "entry_bytes (bump item) = None" and "\<not> et_is_done it"
    and "produces (it\<lparr>et_to_visit := stk\<rparr>, fs) es r"
  shows "produces (it\<lparr>et_to_visit := stk @ [item]\<rparr>, fs) es r"
  by (rule produces_step[OF _ _ assms(4)]) (use assms in \<open>simp_all add: Extents_next_impl_eq\<close>)

lemma produces_leaf:
  assumes "item_ok item" and "entry_bytes (bump item) = Some b" and "tv_depth item = 0"
    and "\<not> et_is_done it" and "produces (it\<lparr>et_to_visit := stk @ [bump item]\<rparr>, fs) es r"
  shows "produces (it\<lparr>et_to_visit := stk @ [item]\<rparr>, fs) (extent_of b # es) r"
  by (rule produces_item[OF _ _ assms(5)]) (use assms in \<open>simp_all add: Extents_next_impl_eq\<close>)

lemma produces_child:
  assumes "item_ok item" and "entry_bytes (bump item) = Some b" and "tv_depth item \<noteq> 0"
    and "\<not> et_is_done it" and "load_child (et_inode it) (et_checksum_base it) b fs = (Ok c, fs')"
    and "produces (it\<lparr>et_to_visit := stk @ [bump item, c]\<rparr>, fs') es r"
  shows "produces (it\<lparr>et_to_visit := stk @ [item]\<rparr>, fs) es r"
  by (rule produces_step[OF _ _ assms(6)]) (use assms in \<open>simp_all add: Extents_next_impl_eq\<close>)

lemma walk_None_produces:
  assumes "walk child item es r"
    and "r = None"
    and "item_ok item"
    and child: "\<And>b c. child b = Ok c \<Longrightarrow> item_ok c"
    and load: "\<And>b fs. good disk fs0 fs \<Longrightarrow> computes disk fs0 fs (load_child (et_inode it) (et_checksum_base it) b) (child b)"
    and "\<not> et_is_done it"
    and rest: "\<And>fs. good disk fs0 fs \<Longrightarrow> produces (it\<lparr>et_to_visit := stk\<rparr>, fs) es' r'"
    and "good disk fs0 fs"
  shows "produces (it\<lparr>et_to_visit := stk @ [item]\<rparr>, fs) (es @ es') r'"
  using assms(1-3,7-)
proof (induction arbitrary: stk es' fs rule: walk.induct)
  case (walk_end item)
  then show ?case using assms(6) by (auto intro!: produces_pop)
next
  case (walk_leaf item b es r)
  have ok: "item_ok (bump item)" using bump_ok(5)[OF walk_leaf.prems(2) walk_leaf.hyps(1)] by simp
  have "produces (it\<lparr>et_to_visit := stk @ [bump item]\<rparr>, fs) (es @ es') r'"
    by (rule walk_leaf.IH) (use walk_leaf.prems ok in auto)
  then show ?case
    using walk_leaf.hyps(1,2) walk_leaf.prems(2) assms(6) by (simp add: produces_leaf)
next
  case (walk_child item b c es es1 r)
  have ok: "item_ok (bump item)" using bump_ok(5)[OF walk_child.prems(2) walk_child.hyps(1)] by simp
  obtain fs' where l: "load_child (et_inode it) (et_checksum_base it) b fs = (Ok c, fs')" and g: "good disk fs0 fs'"
    using computesD[OF load[OF walk_child.prems(4), of b]] walk_child.hyps(3) by auto
  have 1: "produces (it\<lparr>et_to_visit := stk @ [bump item]\<rparr>, fs2) (es1 @ es') r'" if "good disk fs0 fs2" for fs2
    by (rule walk_child.IH(2)) (use walk_child.prems ok that in auto)
  have "produces (it\<lparr>et_to_visit := (stk @ [bump item]) @ [c]\<rparr>, fs') (es @ (es1 @ es')) r'"
    by (rule walk_child.IH(1)[OF refl child[OF walk_child.hyps(3)] 1 g])
  then show ?case
    using produces_child[OF walk_child.prems(2) walk_child.hyps(1,2) assms(6) l] by simp
qed auto

lemma walk_Some_produces:
  assumes "walk child item es r"
    and "r = Some e"
    and "item_ok item"
    and child: "\<And>b c. child b = Ok c \<Longrightarrow> item_ok c"
    and load: "\<And>b fs. good disk fs0 fs \<Longrightarrow> computes disk fs0 fs (load_child (et_inode it) (et_checksum_base it) b) (child b)"
    and nd: "\<not> et_is_done it"
    and "good disk fs0 fs"
  shows "produces (it\<lparr>et_to_visit := stk @ [item]\<rparr>, fs) es (Some e)"
  using assms(1-3,7-)
proof (induction arbitrary: stk fs rule: walk.induct)
  case (walk_leaf item b es r)
  have ok: "item_ok (bump item)" using bump_ok(5)[OF walk_leaf.prems(2) walk_leaf.hyps(1)] by simp
  have "produces (it\<lparr>et_to_visit := stk @ [bump item]\<rparr>, fs) es (Some e)"
    by (rule walk_leaf.IH) (use walk_leaf.prems ok in auto)
  then show ?case
    using walk_leaf.hyps(1,2) walk_leaf.prems(2) nd by (simp add: produces_leaf)
next
  case (walk_error item b e')
  obtain fs' where "load_child (et_inode it) (et_checksum_base it) b fs = (Err e', fs')"
    using computesD[OF load[OF walk_error.prems(3), of b]] walk_error.hyps(3) by auto
  then show ?case
    using walk_error nd by (intro produces_error) (auto simp: Extents_next_impl_eq)
next
  case (walk_child item b c es es1 r)
  have ok: "item_ok (bump item)" using bump_ok(5)[OF walk_child.prems(2) walk_child.hyps(1)] by simp
  obtain fs' where l: "load_child (et_inode it) (et_checksum_base it) b fs = (Ok c, fs')" and g: "good disk fs0 fs'"
    using computesD[OF load[OF walk_child.prems(3), of b]] walk_child.hyps(3) by auto
  have 1: "produces (it\<lparr>et_to_visit := stk @ [bump item]\<rparr>, fs2) es1 (Some e)" if "good disk fs0 fs2" for fs2
    by (rule walk_child.IH(2)) (use walk_child.prems ok that in auto)
  have "produces (it\<lparr>et_to_visit := (stk @ [bump item]) @ [c]\<rparr>, fs') (es @ es1) (Some e)"
    by (rule walk_None_produces[OF walk_child.hyps(4) refl child[OF walk_child.hyps(3)] child load nd 1 g])
  then show ?case
    using produces_child[OF walk_child.prems(2) walk_child.hyps(1,2) nd l] by simp
next
  case (walk_abort item b c es e')
  obtain fs' where l: "load_child (et_inode it) (et_checksum_base it) b fs = (Ok c, fs')" and g: "good disk fs0 fs'"
    using computesD[OF load[OF walk_abort.prems(3), of b]] walk_abort.hyps(3) by auto
  have "produces (it\<lparr>et_to_visit := (stk @ [bump item]) @ [c]\<rparr>, fs') es (Some e)"
    by (rule walk_abort.IH) (use walk_abort.prems child[OF walk_abort.hyps(3)] g in auto)
  then show ?case
    using produces_child[OF walk_abort.prems(2) walk_abort.hyps(1,2) nd l] by simp
qed auto

section \<open>Termination\<close>

text \<open>A set of nodes, closed under visiting, in which children are less deep than their parents.\<close>

definition depth_descends :: "(bytes \<Rightarrow> ToVisitItem result) \<Rightarrow> ToVisitItem set \<Rightarrow> bool" where
  "depth_descends child T \<longleftrightarrow>
     (\<forall>x \<in> T. item_ok x \<and>
        (\<forall>b. entry_bytes (bump x) = Some b \<longrightarrow> bump x \<in> T \<and>
           (\<forall>c. tv_depth x \<noteq> 0 \<longrightarrow> child b = Ok c \<longrightarrow> c \<in> T \<and> tv_depth c < tv_depth x)))"

lemma walk_total:
  assumes T: "depth_descends child T" and total: "\<And>b. length b = 12 \<Longrightarrow> child b \<noteq> Panic \<and> child b \<noteq> Diverge"
    and "x \<in> T"
  shows "\<exists>es r. walk child x es r"
  using assms(3)
proof (induction x rule: wf_induct_rule[OF wf_measures[of
      "[\<lambda>x. unat (tv_depth x), \<lambda>x. length (tv_node x) - unat (tv_entry x) * 12]"]])
  case less: (1 x)
  note less_hyps = less(1) and less_prems = less(2)
  have ok: "item_ok x" using T less_prems by (auto simp: depth_descends_def)
  show ?case
  proof (cases "entry_bytes (bump x)")
    case None
    then show ?thesis by (blast intro: walk_end)
  next
    case (Some b)
    have bT: "bump x \<in> T" using T less_prems Some by (auto simp: depth_descends_def)
    have len: "length b = 12" using bump_ok(5)[OF ok Some] by simp
    have "unat (tv_entry x) * 12 < length (tv_node x)" using ok by (auto simp: item_ok_def)
    then have "(bump x, x) \<in> measures [\<lambda>x. unat (tv_depth x), \<lambda>x. length (tv_node x) - unat (tv_entry x) * 12]"
      using bump_ok(2)[OF ok] by (simp add: bump_def)
    from less_hyps[OF this bT] obtain es r where w: "walk child (bump x) es r" by blast
    show ?thesis
    proof (cases "tv_depth x = 0")
      case True
      with Some w show ?thesis by (blast intro: walk_leaf)
    next
      case False
      show ?thesis
      proof (cases "child b")
        case (Ok c)
        with T less_prems Some False have c: "c \<in> T" "tv_depth c < tv_depth x"
          by (auto simp: depth_descends_def)
        then have "(c, x) \<in> measures [\<lambda>x. unat (tv_depth x), \<lambda>x. length (tv_node x) - unat (tv_entry x) * 12]"
          by (simp add: word_less_nat_alt)
        from less_hyps[OF this c(1)] obtain es' r' where w': "walk child c es' r'" by blast
        show ?thesis
          using Some False Ok w w' by (cases r') (blast intro: walk_child walk_abort)+
      qed (use Some False total[OF len] in \<open>auto intro: walk_error\<close>)
    qed
  qed
qed

lemma extent_child_total:
  assumes "fs_ok disk fs" and "device_complete fs" and "10 \<le> length b"
  shows "holds (extent_child disk fs i cb b) (\<lambda>c. item_ok c \<and> tv_entry c = 0 \<and> tv_depth c \<le> 5) (\<lambda>_. True)"
proof -
  obtain fs' where "load_child i cb b fs = (extent_child disk fs i cb b, fs')"
    using computesD[OF load_child_computes[OF good_refl[OF assms(1)] assms(2)]] by blast
  with load_child_wp[OF assms(1,3), of i cb] show ?thesis
    by (auto simp: wp_def elim: holds_mono)
qed

lemma extent_child_short: "length b < 10 \<Longrightarrow> extent_child disk fs i cb b = Panic"
  by (auto simp: extent_child_def read_u32le_eq read_u16le_eq usize_max_def)

section \<open>Properties\<close>

text \<open>The tree of an inode on a device: the children of its nodes.\<close>

abbreviation inode_child :: "(nat \<Rightarrow> u8) \<Rightarrow> Ext4 \<Rightarrow> Inode \<Rightarrow> bytes \<Rightarrow> ToVisitItem result" where
  "inode_child disk fs inode \<equiv> extent_child disk fs (in_index inode) (in_checksum_base inode)"

lemma extents_walk_produces:
  assumes ok: "fs_ok disk fs" and dc: "device_complete fs" and new: "Extents_new inode = Ok it"
    and w: "walk (inode_child disk fs inode) (hd (et_to_visit it)) es r"
  shows "produces (it, fs) es r"
proof -
  obtain root where root: "et_to_visit it = [root]" "item_ok root" "\<not> et_is_done it"
      "et_inode it = in_index inode" "et_checksum_base it = in_checksum_base inode"
    using new ToVisitItem_new_holds[of "in_inline_data inode" "in_index inode"]
    by (auto simp: Extents_new_def)
  have it: "it = it\<lparr>et_to_visit := [] @ [root]\<rparr>" using root(1) by simp
  have child: "item_ok c" if "inode_child disk fs inode b = Ok c" for b c
  proof (cases "length b < 10")
    case True
    with that show ?thesis by (simp add: extent_child_short)
  next
    case False
    with extent_child_total[OF ok dc, of b "in_index inode" "in_checksum_base inode"] that show ?thesis by simp
  qed
  have load: "computes disk fs fs1 (load_child (et_inode it) (et_checksum_base it) b) (inode_child disk fs inode b)"
    if "good disk fs fs1" for b fs1
    using load_child_computes[OF that dc] root by simp
  have rest: "produces (it\<lparr>et_to_visit := []\<rparr>, fs1) [] None" for fs1
    by (rule produces_empty) (use root in auto)
  show ?thesis
  proof (cases r)
    case None
    from walk_None_produces[OF w[unfolded root list.sel] None root(2) child load root(3) rest good_refl[OF ok]]
    show ?thesis using it None by simp
  next
    case (Some e)
    from walk_Some_produces[OF w[unfolded root list.sel] Some root(2) child load root(3) good_refl[OF ok], where stk = "[]"]
    show ?thesis using it Some by simp
  qed
qed

text \<open>C26: On a complete device, iterating over the extents of an inode yields exactly the extents in the
  leaves of its extent tree, from left to right, and then ends; if a node on the way cannot be read or
  is malformed, the extents before it are yielded, then its error, and then the end. After the end, and after
  an error, every further call returns the end again and changes nothing. What the block cache holds does not
  matter.\<close>

theorem extents_iterate_in_order:
  assumes "fs_ok disk fs" and "device_complete fs" and "Extents_new inode = Ok it"
    and "walk (inode_child disk fs inode) (hd (et_to_visit it)) es r"
  shows "\<exists>s'. yields Extents_next (it, fs) es r s' \<and> Extents_next s' = (Ok None, s')"
proof -
  obtain s' where y: "yields Extents_next (it, fs) es r s'" using extents_walk_produces[OF assms] by (auto simp: produces_def)
  then have "Extents_next s' = (Ok None, s')" unfolding Extents_next_def by (rule yields_done) simp
  with y show ?thesis by blast
qed

text \<open>C27: If in the extent tree of an inode every child node is less deep than its parent, the iteration
  over its extents ends: every call of \<open>next\<close> returns, and after finitely many items the end or an
  error is reached.\<close>

theorem extents_iteration_terminates:
  assumes "fs_ok disk fs" and "device_complete fs" and "Extents_new inode = Ok it"
    and "depth_descends (inode_child disk fs inode) T" and "hd (et_to_visit it) \<in> T"
  shows "\<exists>es r s'. yields Extents_next (it, fs) es r s'"
proof -
  have "inode_child disk fs inode b \<noteq> Panic \<and> inode_child disk fs inode b \<noteq> Diverge" if "length b = 12" for b
    using extent_child_total[OF assms(1,2), of b "in_index inode" "in_checksum_base inode"] that
    by (auto dest: holds_not_Panic)
  from walk_total[OF assms(4) this assms(5)] extents_walk_produces[OF assms(1-3)] show ?thesis
    unfolding produces_def by blast
qed

text \<open>A step of the extent iterator never panics, and keeps the iterator and the file system
  well-formed, so no call of \<open>next\<close> panics.\<close>

theorem extents_next_never_panics:
  assumes "extents_ok it" and "fs_ok disk fs"
  shows "fst (Extents_next (it, fs)) \<noteq> Panic \<and> extents_ok (fst (snd (Extents_next (it, fs)))) \<and>
         good disk fs (snd (snd (Extents_next (it, fs))))"
proof -
  let ?I = "\<lambda>s. extents_ok (fst s) \<and> good disk fs (snd s)"
  have step: "?I s' \<and> r \<noteq> Panic" if "?I s" "Extents_next_impl s = (r, s')" for s r s'
    using Extents_next_impl_safe[of "fst s" disk "snd s"] that
    by (cases r) (auto simp: wp_def good_def intro: same_fs_trans)
  have fin: "?I ((fst s)\<lparr>et_is_done := True\<rparr>, snd s)" if "?I s" for s
    using that by (simp add: extents_ok_def)
  have "?I (it, fs)" using assms by (simp add: good_refl)
  then have "?I (snd (Extents_next (it, fs))) \<and> fst (Extents_next (it, fs)) \<noteq> Panic"
    unfolding Extents_next_def by (rule iter_next_keeps[rotated 2]) (use step fin in blast)+
  then show ?thesis by blast
qed

text \<open>C39: The depth of a child node is not compared with its parent's, so a node that is its own first
  child makes a call of \<open>next\<close> run forever.\<close>

theorem extents_self_reference_diverges:
  assumes ok: "fs_ok disk fs" and dc: "device_complete fs"
    and c: "item_ok c" "tv_depth c \<noteq> 0" "entry_bytes (bump c) = Some b"
    and self: "extent_child disk fs (et_inode it) (et_checksum_base it) b = Ok c"
    and it: "\<not> et_is_done it" "et_to_visit it = stk @ [c]"
  shows "fst (Extents_next (it, fs)) = Diverge"
  unfolding Extents_next_def
proof -
  define J where "J = (\<lambda>s. good disk fs (snd s) \<and> (\<exists>stk. fst s = it\<lparr>et_to_visit := stk @ [c]\<rparr>))"
  have J0: "J (it, fs)"
    using it good_refl[OF ok] by (auto simp: J_def intro!: exI[of _ stk])
  have step: "\<not> et_is_done (fst s) \<and> (\<exists>s'. Extents_next_impl s = (Ok None, s') \<and> J s')" if "J s" for s
  proof -
  from that obtain stk fs1 where s: "s = (it\<lparr>et_to_visit := stk @ [c]\<rparr>, fs1)" and g: "good disk fs fs1"
    by (cases s) (auto simp: J_def)
  obtain fs2 where "load_child (et_inode it) (et_checksum_base it) b fs1 = (Ok c, fs2)" "good disk fs fs2"
    using computesD[OF load_child_computes[OF g dc]] self by metis
  then have "Extents_next_impl s = (Ok None, (it\<lparr>et_to_visit := (stk @ [bump c]) @ [c]\<rparr>, fs2))"
    using c unfolding s by (simp add: Extents_next_impl_eq)
  moreover have "J (it\<lparr>et_to_visit := (stk @ [bump c]) @ [c]\<rparr>, fs2)"
    using \<open>good disk fs fs2\<close> unfolding J_def fst_conv snd_conv by blast
  ultimately show ?thesis
    using it(1) s by auto
  qed
  from iter_next_diverges[of J, OF step J0] show "fst (result_iter_next (\<lambda>s. et_is_done (fst s))
     (\<lambda>s. ((fst s)\<lparr>et_is_done := True\<rparr>, snd s)) Extents_next_impl (it, fs)) = Diverge" .
qed

section \<open>Concrete trees\<close>

lemma disk_range_disk_of: "disk_range (disk_of (xs @ ys @ zs)) (length xs) (length ys) = ys"
  by (rule nth_equalityI) (auto simp: disk_range_def disk_of_def nth_append)

text \<open>A leaf root with one extent: three blocks from block 7 on.\<close>

definition leaf_root :: bytes where
  "leaf_root = [0x0a, 0xf3, 1, 0, 4, 0, 0, 0, 0, 0, 0, 0,
                0, 0, 0, 0, 3, 0, 0, 0, 7, 0, 0, 0]"

definition leaf_inode :: Inode where
  "leaf_inode = \<lparr>in_index = 12, in_inline_data = leaf_root @ replicate 36 0,
     in_metadata = \<lparr>md_size_in_bytes = 3072, md_mode = 0x8000, md_file_type = Regular, md_uid = 0, md_gid = 0\<rparr>,
     in_flags = EXTENTS, in_checksum_base = Checksum_new, in_file_size_in_blocks = 3\<rparr>"

definition leaf_item :: ToVisitItem where
  "leaf_item = \<lparr>tv_node = leaf_root, tv_entry = 0, tv_depth = 0\<rparr>"

definition leaf_extents :: Extents where
  "leaf_extents = \<lparr>et_inode = 12, et_to_visit = [leaf_item], et_checksum_base = Checksum_new, et_is_done = False\<rparr>"

lemma leaf_extents_new: "Extents_new leaf_inode = Ok leaf_extents"
  by (simp add: Extents_new_def ToVisitItem_new_def NodeHeader_from_bytes_def leaf_inode_def leaf_root_def
      leaf_item_def leaf_extents_def NodeHeader_node_size_in_bytes_def add_one_mul_entry_size_eq require_def
      ENTRY_SIZE_IN_BYTES_def usize_max_def u16le_at_nth
      cong: bind_o_weak_cong del: bind_o_eq_Ok)

lemma leaf_item_entries:
  "entry_bytes (bump leaf_item) = Some [0, 0, 0, 0, 3, 0, 0, 0, 7, 0, 0, 0]"
  "entry_bytes (bump (bump leaf_item)) = None" "item_ok leaf_item" "item_ok (bump leaf_item)"
  by (simp_all add: entry_bytes_def bump_def leaf_item_def leaf_root_def item_ok_def)

lemma leaf_walk:
  "walk child leaf_item
     [\<lparr>ex_block_within_file = 0, ex_start_block = 7, ex_num_blocks = 3\<rparr>] None"
proof -
  have e: "extent_of [0, 0, 0, 0, 3, 0, 0, 0, 7, 0, 0, 0] =
      \<lparr>ex_block_within_file = 0, ex_start_block = 7, ex_num_blocks = 3\<rparr>"
    by (simp add: extent_of_def u32le_at_nth u16le_at_nth u64_from_hilo_def)
  have "walk child leaf_item (extent_of [0, 0, 0, 0, 3, 0, 0, 0, 7, 0, 0, 0] # []) None"
    by (rule walk_leaf[OF leaf_item_entries(1) _ walk_end[OF leaf_item_entries(2)]]) (simp add: leaf_item_def)
  with e show ?thesis by simp
qed

text \<open>A root of depth 1 with two children: a leaf with one extent in block 5, and block 6, which holds no node.\<close>

definition broken_root :: bytes where
  "broken_root = [0x0a, 0xf3, 2, 0, 4, 0, 1, 0, 0, 0, 0, 0,
                  0, 0, 0, 0, 5, 0, 0, 0, 0, 0, 0, 0,
                  3, 0, 0, 0, 6, 0, 0, 0, 0, 0, 0, 0]"

definition broken_inode :: Inode where
  "broken_inode = leaf_inode\<lparr>in_inline_data := broken_root @ replicate 24 0\<rparr>"

definition broken_item :: ToVisitItem where
  "broken_item = \<lparr>tv_node = broken_root, tv_entry = 0, tv_depth = 1\<rparr>"

definition broken_extents :: Extents where
  "broken_extents = \<lparr>et_inode = 12, et_to_visit = [broken_item], et_checksum_base = Checksum_new, et_is_done = False\<rparr>"

definition broken_image :: bytes where
  "broken_image = replicate 5120 0 @ leaf_root @ replicate 11240 0"

lemma broken_extents_new: "Extents_new broken_inode = Ok broken_extents"
  by (simp add: Extents_new_def ToVisitItem_new_def NodeHeader_from_bytes_def broken_inode_def broken_root_def leaf_inode_def
      broken_item_def broken_extents_def NodeHeader_node_size_in_bytes_def add_one_mul_entry_size_eq require_def
      ENTRY_SIZE_IN_BYTES_def usize_max_def u16le_at_nth
      cong: bind_o_weak_cong del: bind_o_eq_Ok)

lemma broken_children:
  "extent_child (disk_of broken_image) (sample_fs broken_image) i cb [0, 0, 0, 0, 5, 0, 0, 0, 0, 0, 0, 0] = Ok leaf_item"
  "extent_child (disk_of broken_image) (sample_fs broken_image) i cb [3, 0, 0, 0, 6, 0, 0, 0, 0, 0, 0, 0] =
     Err (Corrupt (ExtentMagic i))"
proof -
  have len: "length leaf_root = 24" by (simp add: leaf_root_def)
  have 1: "disk_range (disk_of broken_image) 5120 60 = leaf_root @ replicate 36 0"
    using disk_range_disk_of[of "replicate 5120 0" "leaf_root @ replicate 36 0" "replicate 11204 0"] len
    by (simp add: broken_image_def flip: replicate_add)
  then have "take 12 (drop 0 (disk_range (disk_of broken_image) 5120 60)) = take 12 leaf_root" using len by simp
  then have 2: "disk_range (disk_of broken_image) 5120 12 = take 12 leaf_root"
    by (subst (asm) take_drop_disk_range) simp_all
  have 3: "disk_range (disk_of broken_image) 6144 12 = replicate 12 0"
    using disk_range_disk_of[of "replicate 5120 0 @ leaf_root @ replicate 1000 0" "replicate 12 0" "replicate 10228 0"] len
    by (simp add: broken_image_def flip: replicate_add)
  have r: "block_read_spec (disk_of broken_image) (sample_fs broken_image) b 0 n =
      Ok (disk_range (disk_of broken_image) (unat b * 1024) n)"
    if "n \<le> 1024" "b \<in> {5, 6}" for b n
    using that by (auto simp: block_read_spec_def readable_def sample_superblock_def)
  have m: "\<not> has_metadata_checksums (sample_fs broken_image)"
    by (simp add: has_metadata_checksums_def sample_superblock_def contains_def)
  have bs: "sb_block_size (fs_superblock (sample_fs broken_image)) = 1024" by (simp add: sample_superblock_def)
  show "extent_child (disk_of broken_image) (sample_fs broken_image) i cb [0, 0, 0, 0, 5, 0, 0, 0, 0, 0, 0, 0] = Ok leaf_item"
    by (simp add: extent_child_def usize_max_def u32le_at_nth u16le_at_nth u64_from_hilo_def
        ENTRY_SIZE_IN_BYTES_def r 1 2 m bs NodeHeader_from_bytes_def NodeHeader_checksum_offset_def
        add_one_mul_entry_size_eq require_def leaf_root_def usize_add_def BlockSize_to_usize_def
        usize_from_u32_def ToVisitItem_new_def NodeHeader_node_size_in_bytes_def leaf_item_def Let_def
        cong: bind_o_weak_cong del: bind_o_eq_Ok vec_fs_sel)
  show "extent_child (disk_of broken_image) (sample_fs broken_image) i cb [3, 0, 0, 0, 6, 0, 0, 0, 0, 0, 0, 0] =
      Err (Corrupt (ExtentMagic i))"
    by (simp add: extent_child_def usize_max_def u32le_at_nth u16le_at_nth u64_from_hilo_def
        ENTRY_SIZE_IN_BYTES_def r 3 m bs NodeHeader_from_bytes_def require_def Let_def
        cong: bind_o_weak_cong del: bind_o_eq_Ok vec_fs_sel)
qed

lemma broken_walk:
  "walk (extent_child (disk_of broken_image) (sample_fs broken_image) i cb) broken_item
     [\<lparr>ex_block_within_file = 0, ex_start_block = 7, ex_num_blocks = 3\<rparr>] (Some (Corrupt (ExtentMagic i)))"
proof -
  have e: "entry_bytes (bump broken_item) = Some [0, 0, 0, 0, 5, 0, 0, 0, 0, 0, 0, 0]"
    "entry_bytes (bump (bump broken_item)) = Some [3, 0, 0, 0, 6, 0, 0, 0, 0, 0, 0, 0]"
    "tv_depth broken_item \<noteq> 0" "tv_depth (bump broken_item) \<noteq> 0"
    by (simp_all add: entry_bytes_def bump_def broken_item_def broken_root_def)
  show ?thesis
    using walk_child[where child = "extent_child (disk_of broken_image) (sample_fs broken_image) i cb", OF e(1,3) broken_children(1)
        leaf_walk walk_error[where child = "extent_child (disk_of broken_image) (sample_fs broken_image) i cb", OF e(2,4) broken_children(2)]]
    by simp
qed

theorem extents_iterate_in_order_witness:
  "\<exists>s'. yields Extents_next (broken_extents, sample_fs broken_image)
     [\<lparr>ex_block_within_file = 0, ex_start_block = 7, ex_num_blocks = 3\<rparr>] (Some (Corrupt (ExtentMagic 12))) s' \<and>
     Extents_next s' = (Ok None, s')"
proof (rule extents_iterate_in_order[OF sample_fs_ok sample_fs_complete broken_extents_new])
  show "length broken_image = 16384" by (simp add: broken_image_def leaf_root_def)
qed (simp add: broken_walk broken_extents_def broken_inode_def leaf_inode_def)

theorem extents_iteration_terminates_witness:
  "\<exists>es r s'. yields Extents_next (leaf_extents, sample_fs (replicate 16384 0)) es r s'"
proof (rule extents_iteration_terminates[OF sample_fs_ok sample_fs_complete leaf_extents_new])
  show "depth_descends (inode_child (disk_of (replicate 16384 0)) (sample_fs (replicate 16384 0)) leaf_inode)
      {leaf_item, bump leaf_item}"
    using leaf_item_entries by (simp add: depth_descends_def leaf_item_def bump_def)
qed (simp_all add: leaf_extents_def)

theorem extents_next_never_panics_witness:
  "fst (Extents_next (leaf_extents, sample_fs [])) \<noteq> Panic"
  using extents_next_never_panics[of leaf_extents "disk_of []" "sample_fs []"] sample_fs_ok[of "[]"]
    leaf_item_entries(3)
  by (simp add: extents_ok_def leaf_extents_def)

text \<open>A node of depth 1 in block 5 whose only entry points to block 5.\<close>

definition loop_node :: bytes where
  "loop_node = [0x0a, 0xf3, 1, 0, 1, 0, 1, 0, 0, 0, 0, 0,
                0, 0, 0, 0, 5, 0, 0, 0, 0, 0, 0, 0]"

definition loop_item :: ToVisitItem where
  "loop_item = \<lparr>tv_node = loop_node, tv_entry = 0, tv_depth = 1\<rparr>"

definition loop_image :: bytes where
  "loop_image = replicate 5120 0 @ loop_node @ replicate 11240 0"

lemma loop_entry:
  "entry_bytes (bump loop_item) = Some [0, 0, 0, 0, 5, 0, 0, 0, 0, 0, 0, 0]" "item_ok loop_item"
  by (simp_all add: entry_bytes_def bump_def loop_item_def loop_node_def item_ok_def)

lemma loop_child:
  "extent_child (disk_of loop_image) (sample_fs loop_image) i cb [0, 0, 0, 0, 5, 0, 0, 0, 0, 0, 0, 0] = Ok loop_item"
proof -
  have len: "length loop_node = 24" by (simp add: loop_node_def)
  have 1: "disk_range (disk_of loop_image) 5120 24 = loop_node"
    using disk_range_disk_of[of "replicate 5120 0" loop_node "replicate 11240 0"] len
    by (simp add: loop_image_def)
  then have "take 12 (drop 0 (disk_range (disk_of loop_image) 5120 24)) = take 12 loop_node" by simp
  then have 2: "disk_range (disk_of loop_image) 5120 12 = take 12 loop_node"
    by (subst (asm) take_drop_disk_range) simp_all
  have r: "block_read_spec (disk_of loop_image) (sample_fs loop_image) 5 0 n = Ok (disk_range (disk_of loop_image) 5120 n)"
    if "n \<le> 1024" for n
    using that by (simp add: block_read_spec_def readable_def sample_superblock_def)
  have m: "\<not> has_metadata_checksums (sample_fs loop_image)"
    by (simp add: has_metadata_checksums_def sample_superblock_def contains_def)
  have bs: "sb_block_size (fs_superblock (sample_fs loop_image)) = 1024" by (simp add: sample_superblock_def)
  show ?thesis
    by (simp add: extent_child_def usize_max_def u32le_at_nth u16le_at_nth u64_from_hilo_def
        ENTRY_SIZE_IN_BYTES_def r 1 2 m bs NodeHeader_from_bytes_def NodeHeader_checksum_offset_def
        add_one_mul_entry_size_eq require_def loop_node_def usize_add_def BlockSize_to_usize_def
        usize_from_u32_def ToVisitItem_new_def NodeHeader_node_size_in_bytes_def loop_item_def Let_def
        cong: bind_o_weak_cong del: bind_o_eq_Ok vec_fs_sel)
qed

theorem extents_self_reference_diverges_witness:
  "fst (Extents_next (\<lparr>et_inode = 12, et_to_visit = [loop_item], et_checksum_base = Checksum_new,
     et_is_done = False\<rparr>, sample_fs loop_image)) = Diverge"
  by (rule extents_self_reference_diverges[OF sample_fs_ok sample_fs_complete loop_entry(2) _ loop_entry(1) loop_child,
        where stk = "[]"])
     (simp_all add: loop_item_def loop_image_def loop_node_def)

end
