(* ===== verification/Extents_Blocks.thy ===== *)
theory Extents_Blocks
  imports Extents
begin

text \<open>
  The iterator over the blocks of a file that uses extents
  (\<^verbatim>\<open>src/src/iters/file_blocks/extents_blocks.rs\<close>): the blocks of the extents in order, with zero for
  every block of a hole between, before or after them. The specification is the list \<open>layout\<close> of the
  extents, cut or filled to the size of the file.
\<close>

record ExtentsBlocks =
  eb_extents :: Extents
  eb_extent :: "Extent option"
  eb_block_within_extent :: u16
  eb_blocks_remaining_in_hole :: u32
  eb_block_within_file :: FileBlockIndex
  eb_num_blocks_total :: u32
  eb_is_done :: bool
  eb_inode :: InodeIndex

definition ExtentsBlocks_new :: "Inode \<Rightarrow> ExtentsBlocks result" where
  "ExtentsBlocks_new inode =
     (let num_blocks_total = Inode_file_size_in_blocks inode in
     bind_o (Extents_new inode) (\<lambda>extents.
     Ok \<lparr>eb_extents = extents, eb_extent = None, eb_block_within_extent = 0,
         eb_blocks_remaining_in_hole = 0, eb_block_within_file = 0,
         eb_num_blocks_total = num_blocks_total, eb_is_done = False, eb_inode = in_index inode\<rparr>))"

text \<open>Get the current extent, or the next one. \<open>None\<close> stands for an early \<open>return Ok(None)\<close>.\<close>

definition fetch_extent :: "(ExtentsBlocks \<times> Ext4, Extent option, Ext4Error) comp" where
  "fetch_extent =
     bindc (gets_fst (\<lambda>self. self)) (\<lambda>self.
     case eb_extent self of
       Some extent \<Rightarrow> ret (Some extent)
     | None \<Rightarrow>
         bindc (on_field eb_extents (\<lambda>x self. self\<lparr>eb_extents := x\<rparr>) Extents_next) (\<lambda>item.
         case item of
           Some extent \<Rightarrow>
             bindc (if ex_block_within_file extent > eb_block_within_file self then
                      bindc (lift (unwrap (checked_sub (ex_block_within_file extent)
                                             (eb_block_within_file self)))) (\<lambda>hole.
                      modify_fst (\<lambda>self. self\<lparr>eb_blocks_remaining_in_hole := hole\<rparr>))
                    else ret ()) (\<lambda>_.
             bindc (modify_fst (\<lambda>self. self\<lparr>eb_extent := Some extent, eb_block_within_extent := 0\<rparr>)) (\<lambda>_.
             bindc (gets_fst eb_blocks_remaining_in_hole) (\<lambda>hole.
             if hole > 0 then ret None else ret (Some extent))))
         | None \<Rightarrow>
             bindc (lift (unwrap (checked_sub (eb_num_blocks_total self) (eb_block_within_file self))))
               (\<lambda>blocks_remaining.
             if blocks_remaining > 0 then
               bindc (modify_fst (\<lambda>self. self\<lparr>eb_blocks_remaining_in_hole := blocks_remaining\<rparr>)) (\<lambda>_.
               ret None)
             else
               bindc (modify_fst (\<lambda>self. self\<lparr>eb_is_done := True\<rparr>)) (\<lambda>_. ret None))))"

definition ExtentsBlocks_next_impl :: "(ExtentsBlocks \<times> Ext4, FsBlockIndex option, Ext4Error) comp" where
  "ExtentsBlocks_next_impl =
     bindc (gets_fst (\<lambda>self. self)) (\<lambda>self.
     if eb_block_within_file self \<ge> eb_num_blocks_total self then
       bindc (modify_fst (\<lambda>self. self\<lparr>eb_is_done := True\<rparr>)) (\<lambda>_. ret None)
     else if eb_blocks_remaining_in_hole self > 0 then
       bindc (lift (unwrap (checked_sub (eb_blocks_remaining_in_hole self) 1))) (\<lambda>hole.
       bindc (modify_fst (\<lambda>self. self\<lparr>eb_blocks_remaining_in_hole := hole\<rparr>)) (\<lambda>_.
       bindc (lift (unwrap (checked_add (eb_block_within_file self) 1))) (\<lambda>block.
       bindc (modify_fst (\<lambda>self. self\<lparr>eb_block_within_file := block\<rparr>)) (\<lambda>_.
       ret (Some 0)))))
     else
       bindc fetch_extent (\<lambda>fetched.
       case fetched of
         None \<Rightarrow> ret None
       | Some extent \<Rightarrow>
           bindc (gets_fst (\<lambda>self. self)) (\<lambda>self.
           if eb_block_within_extent self = ex_num_blocks extent then
             bindc (modify_fst (\<lambda>self. self\<lparr>eb_extent := None\<rparr>)) (\<lambda>_. ret None)
           else
             bindc (lift (ok_or (Corrupt (ExtentBlock (eb_inode self)))
                      (checked_add (ex_start_block extent) (ucast (eb_block_within_extent self))))) (\<lambda>block.
             bindc (lift (unwrap (checked_add (eb_block_within_extent self) 1))) (\<lambda>within_extent.
             bindc (modify_fst (\<lambda>self. self\<lparr>eb_block_within_extent := within_extent\<rparr>)) (\<lambda>_.
             bindc (lift (unwrap (checked_add (eb_block_within_file self) 1))) (\<lambda>within_file.
             bindc (modify_fst (\<lambda>self. self\<lparr>eb_block_within_file := within_file\<rparr>)) (\<lambda>_.
             ret (Some block)))))))))"

definition ExtentsBlocks_next :: "(ExtentsBlocks \<times> Ext4, FsBlockIndex option, Ext4Error) comp" where
  "ExtentsBlocks_next = result_iter_next (\<lambda>s. eb_is_done (fst s))
     (\<lambda>s. ((fst s)\<lparr>eb_is_done := True\<rparr>, snd s)) ExtentsBlocks_next_impl"

section \<open>The layout of a file\<close>

text \<open>The blocks of the extents from position \<open>pos\<close> on, zero in the holes between them.\<close>

fun layout :: "nat \<Rightarrow> Extent list \<Rightarrow> FsBlockIndex list" where
  "layout pos [] = []"
| "layout pos (e # es) =
     replicate (unat (ex_block_within_file e) - pos) 0
     @ map (\<lambda>k. ex_start_block e + of_nat k) [0..<unat (ex_num_blocks e)]
     @ layout (max pos (unat (ex_block_within_file e)) + unat (ex_num_blocks e)) es"

text \<open>Cut to \<open>n\<close> blocks, or filled up with the hole at the end of the file, or stopped by an error.\<close>

definition cut_blocks :: "nat \<Rightarrow> FsBlockIndex list \<Rightarrow> Ext4Error option \<Rightarrow> FsBlockIndex list \<times> Ext4Error option" where
  "cut_blocks n L r =
     (if n \<le> length L then (take n L, None)
      else (case r of None \<Rightarrow> (L @ replicate (n - length L) 0, None) | Some e \<Rightarrow> (L, Some e)))"

lemma cut_blocks_0 [simp]: "cut_blocks 0 L r = ([], None)"
  by (simp add: cut_blocks_def split: option.split)

lemma cut_blocks_Cons [simp]:
  "cut_blocks (Suc n) (x # L) r = (x # fst (cut_blocks n L r), snd (cut_blocks n L r))"
  by (simp add: cut_blocks_def split: option.split)

lemma cut_blocks_Nil: "0 < n \<Longrightarrow> cut_blocks n [] r = (case r of None \<Rightarrow> (replicate n 0, None) | Some e \<Rightarrow> ([], Some e))"
  by (simp add: cut_blocks_def split: option.split)

lemma cut_blocks_length: "snd (cut_blocks n L r) = None \<Longrightarrow> length (fst (cut_blocks n L r)) = n"
  by (auto simp: cut_blocks_def split: if_splits option.splits)

text \<open>The blocks that a state of the iterator has still to yield, given the extents it has still to
  fetch.\<close>

definition pending :: "ExtentsBlocks \<Rightarrow> Extent list \<Rightarrow> FsBlockIndex list" where
  "pending eb es =
     (let h = unat (eb_blocks_remaining_in_hole eb); pos = unat (eb_block_within_file eb) + h in
      replicate h 0 @
      (case eb_extent eb of
         None \<Rightarrow> layout pos es
       | Some e \<Rightarrow>
           map (\<lambda>k. ex_start_block e + of_nat k) [unat (eb_block_within_extent eb)..<unat (ex_num_blocks e)]
           @ layout (pos + (unat (ex_num_blocks e) - unat (eb_block_within_extent eb))) es))"

text \<open>A start block has 48 bits, so that the sum with an index inside the extent never overflows.\<close>

definition extent_ok :: "Extent \<Rightarrow> bool" where
  "extent_ok e \<longleftrightarrow> unat (ex_start_block e) < 2 ^ 48"

definition eb_ok :: "ExtentsBlocks \<Rightarrow> bool" where
  "eb_ok eb \<longleftrightarrow>
     (case eb_extent eb of None \<Rightarrow> True
      | Some e \<Rightarrow> extent_ok e \<and> unat (eb_block_within_extent eb) \<le> unat (ex_num_blocks e))"

section \<open>One step\<close>

lemma word_succ:
  fixes a b :: "'a::len word" assumes "a < b"
  shows "checked_add a 1 = Some (a + 1)" "unat (a + 1) = unat a + 1"
proof -
  have "unat a + 1 < 2 ^ LENGTH('a)"
    using assms unat_less_bound[of b] unfolding word_less_nat_alt by linarith
  then show "checked_add a 1 = Some (a + 1)" "unat (a + 1) = unat a + 1"
    by (simp_all add: checked_add_def unat_word_ariths)
qed

lemma word_pred:
  fixes h :: "'a::len word" assumes "0 < h"
  shows "checked_sub h 1 = Some (h - 1)" "unat (h - 1) = unat h - 1"
proof -
  have "h \<noteq> 0" using assms by auto
  then show "checked_sub h 1 = Some (h - 1)" "unat (h - 1) = unat h - 1"
    by (auto simp: checked_sub_def word_le_nat_alt unat_minus_one unat_gt_0 Suc_leI)
qed

lemma step_finished:
  "eb_num_blocks_total eb \<le> eb_block_within_file eb \<Longrightarrow>
   ExtentsBlocks_next_impl (eb, fs) = (Ok None, (eb\<lparr>eb_is_done := True\<rparr>, fs))"
  by (simp add: ExtentsBlocks_next_impl_def comp_defs)

lemma step_hole:
  assumes "eb_block_within_file eb < eb_num_blocks_total eb" and "0 < eb_blocks_remaining_in_hole eb"
  shows "ExtentsBlocks_next_impl (eb, fs) =
    (Ok (Some 0), (eb\<lparr>eb_blocks_remaining_in_hole := eb_blocks_remaining_in_hole eb - 1,
                     eb_block_within_file := eb_block_within_file eb + 1\<rparr>, fs))"
  using assms word_succ[OF assms(1)] word_pred[OF assms(2)]
  by (simp add: ExtentsBlocks_next_impl_def comp_defs not_le)

lemma step_extent:
  assumes "eb_block_within_file eb < eb_num_blocks_total eb" and "eb_blocks_remaining_in_hole eb = 0"
    and "eb_extent eb = Some e" and "eb_ok eb"
  shows "ExtentsBlocks_next_impl (eb, fs) =
    (if eb_block_within_extent eb = ex_num_blocks e then (Ok None, (eb\<lparr>eb_extent := None\<rparr>, fs))
     else (Ok (Some (ex_start_block e + ucast (eb_block_within_extent eb))),
           (eb\<lparr>eb_block_within_extent := eb_block_within_extent eb + 1,
               eb_block_within_file := eb_block_within_file eb + 1\<rparr>, fs)))"
proof (cases "eb_block_within_extent eb = ex_num_blocks e")
  case True
  with assms show ?thesis
    by (simp add: ExtentsBlocks_next_impl_def fetch_extent_def comp_defs not_le)
next
  case False
  have "unat (eb_block_within_extent eb) \<noteq> unat (ex_num_blocks e)"
    using False by (metis word_unat_eq_iff)
  with assms(3,4) have lt: "eb_block_within_extent eb < ex_num_blocks e" and st: "unat (ex_start_block e) < 2 ^ 48"
    by (auto simp: eb_ok_def extent_ok_def word_less_nat_alt)
  have "unat (eb_block_within_extent eb) < 2 ^ 16"
    using unat_less_bound[of "eb_block_within_extent eb"] by simp
  with st have "unat (ex_start_block e) + unat (ucast (eb_block_within_extent eb) :: u64) < 2 ^ 64" by simp
  then have "checked_add (ex_start_block e) (ucast (eb_block_within_extent eb)) =
      Some (ex_start_block e + ucast (eb_block_within_extent eb))"
    by (simp add: checked_add_def)
  with assms False word_succ[OF assms(1)] word_succ[OF lt] show ?thesis
    by (simp add: ExtentsBlocks_next_impl_def fetch_extent_def comp_defs not_le)
qed

text \<open>The state after the next extent \<open>x\<close> has been fetched.\<close>

definition with_extent :: "ExtentsBlocks \<Rightarrow> Extents \<Rightarrow> Extent \<Rightarrow> ExtentsBlocks" where
  "with_extent eb it x =
     eb\<lparr>eb_extents := it, eb_extent := Some x, eb_block_within_extent := 0,
        eb_blocks_remaining_in_hole :=
          (if ex_block_within_file x > eb_block_within_file eb
           then ex_block_within_file x - eb_block_within_file eb
           else eb_blocks_remaining_in_hole eb)\<rparr>"

lemma step_fetch:
  assumes "eb_block_within_file eb < eb_num_blocks_total eb" and "eb_blocks_remaining_in_hole eb = 0"
    and "eb_extent eb = None" and "Extents_next (eb_extents eb, fs) = (Ok (Some x), (it, fs'))"
  shows "ExtentsBlocks_next_impl (eb, fs) =
    (if eb_blocks_remaining_in_hole (with_extent eb it x) > 0 then (Ok None, (with_extent eb it x, fs'))
     else ExtentsBlocks_next_impl (with_extent eb it x, fs'))"
proof (cases "ex_block_within_file x > eb_block_within_file eb")
  case True
  then have "checked_sub (ex_block_within_file x) (eb_block_within_file eb) =
      Some (ex_block_within_file x - eb_block_within_file eb)"
    "0 < ex_block_within_file x - eb_block_within_file eb"
    by (auto simp: checked_sub_def word_gt_0)
  with True assms show ?thesis
    by (simp add: ExtentsBlocks_next_impl_def fetch_extent_def comp_defs not_le with_extent_def)
next
  case False
  have nl: "\<not> eb_num_blocks_total eb \<le> eb_block_within_file eb" using assms(1) by simp
  with False assms(2-) show ?thesis
    by (cases eb) (simp add: ExtentsBlocks_next_impl_def fetch_extent_def comp_defs with_extent_def
        split: outcome.split)
qed

lemma step_fetch_end:
  assumes "eb_block_within_file eb < eb_num_blocks_total eb" and "eb_blocks_remaining_in_hole eb = 0"
    and "eb_extent eb = None" and "Extents_next (eb_extents eb, fs) = (Ok None, (it, fs'))"
  shows "ExtentsBlocks_next_impl (eb, fs) =
    (Ok None, (eb\<lparr>eb_extents := it,
        eb_blocks_remaining_in_hole := eb_num_blocks_total eb - eb_block_within_file eb\<rparr>, fs'))"
proof -
  have "checked_sub (eb_num_blocks_total eb) (eb_block_within_file eb) =
      Some (eb_num_blocks_total eb - eb_block_within_file eb)"
    "0 < eb_num_blocks_total eb - eb_block_within_file eb"
    using assms(1) by (auto simp: checked_sub_def word_gt_0)
  with assms show ?thesis
    by (simp add: ExtentsBlocks_next_impl_def fetch_extent_def comp_defs not_le)
qed

lemma step_fetch_err:
  assumes "eb_block_within_file eb < eb_num_blocks_total eb" and "eb_blocks_remaining_in_hole eb = 0"
    and "eb_extent eb = None" and "Extents_next (eb_extents eb, fs) = (Err e, (it, fs'))"
  shows "ExtentsBlocks_next_impl (eb, fs) = (Err e, (eb\<lparr>eb_extents := it\<rparr>, fs'))"
  using assms by (simp add: ExtentsBlocks_next_impl_def fetch_extent_def comp_defs not_le)

section \<open>The sequence of blocks\<close>

definition eb_produces :: "ExtentsBlocks \<times> Ext4 \<Rightarrow> FsBlockIndex list \<times> Ext4Error option \<Rightarrow> bool" where
  "eb_produces s out \<longleftrightarrow> (\<exists>s'. yields ExtentsBlocks_next s (fst out) (snd out) s')"

lemma eb_produces_step:
  assumes "\<not> eb_is_done (fst s)" and "ExtentsBlocks_next_impl s = (Ok None, s1)" and "eb_produces s1 out"
  shows "eb_produces s out"
  using assms yields_again[of "\<lambda>s. eb_is_done (fst s)" s ExtentsBlocks_next_impl s1]
  unfolding eb_produces_def ExtentsBlocks_next_def by blast

lemma eb_produces_item:
  assumes "\<not> eb_is_done (fst s)" and "ExtentsBlocks_next_impl s = (Ok (Some x), s1)" and "eb_produces s1 out"
  shows "eb_produces s (x # fst out, snd out)"
  using assms iter_next_item[of "\<lambda>s. eb_is_done (fst s)" s ExtentsBlocks_next_impl x s1]
  unfolding eb_produces_def ExtentsBlocks_next_def fst_conv snd_conv by (blast intro: yields_item)

lemma eb_produces_error:
  assumes "\<not> eb_is_done (fst s)" and "ExtentsBlocks_next_impl s = (Err e, s1)"
  shows "eb_produces s ([], Some e)"
  using iter_next_err[of "\<lambda>s. eb_is_done (fst s)" s ExtentsBlocks_next_impl e s1] assms
  unfolding eb_produces_def ExtentsBlocks_next_def fst_conv snd_conv by (blast intro: yields_err)

lemma eb_produces_finished:
  assumes "\<not> eb_is_done eb" and "eb_num_blocks_total eb \<le> eb_block_within_file eb"
  shows "eb_produces (eb, fs) ([], None)"
proof -
  have "eb_produces (eb\<lparr>eb_is_done := True\<rparr>, fs) ([], None)"
    using iter_next_done[of "\<lambda>s. eb_is_done (fst s)" "(eb\<lparr>eb_is_done := True\<rparr>, fs)"]
    unfolding eb_produces_def ExtentsBlocks_next_def by (auto intro!: exI yields_end)
  from eb_produces_step[OF _ step_finished[OF assms(2)] this] assms(1) show ?thesis by simp
qed

text \<open>How a fetched extent, a step in a hole and a step in an extent change what is pending.\<close>

lemma pending_with_extent:
  assumes "eb_blocks_remaining_in_hole eb = 0" and "eb_extent eb = None"
  shows "pending (with_extent eb it x) es = pending eb (x # es)"
proof -
  let ?b = "ex_block_within_file x" and ?p = "eb_block_within_file eb"
  have "unat (?b - ?p) = unat ?b - unat ?p" if "?p < ?b"
    using that by (simp add: unat_sub less_imp_le)
  then show ?thesis
    using assms
    by (auto simp: pending_def with_extent_def Let_def word_less_nat_alt max_def not_less)
qed

lemma pending_hole:
  assumes "eb_block_within_file eb < eb_num_blocks_total eb" and "0 < eb_blocks_remaining_in_hole eb"
  shows "pending eb es = 0 # pending (eb\<lparr>eb_blocks_remaining_in_hole := eb_blocks_remaining_in_hole eb - 1,
                     eb_block_within_file := eb_block_within_file eb + 1\<rparr>) es"
proof -
  have h: "0 < unat (eb_blocks_remaining_in_hole eb)" using assms(2) by (simp add: word_less_nat_alt)
  then obtain k where "unat (eb_blocks_remaining_in_hole eb) = Suc k" by (cases "unat (eb_blocks_remaining_in_hole eb)") auto
  then show ?thesis
    using word_succ(2)[OF assms(1)] word_pred(2)[OF assms(2)]
    by (simp add: pending_def Let_def split: option.split)
qed

lemma pending_extent:
  assumes "eb_block_within_file eb < eb_num_blocks_total eb" and "eb_blocks_remaining_in_hole eb = 0"
    and "eb_extent eb = Some e" and "eb_ok eb" and "eb_block_within_extent eb \<noteq> ex_num_blocks e"
  shows "pending eb es = (ex_start_block e + ucast (eb_block_within_extent eb)) #
     pending (eb\<lparr>eb_block_within_extent := eb_block_within_extent eb + 1,
               eb_block_within_file := eb_block_within_file eb + 1\<rparr>) es"
    and "eb_ok (eb\<lparr>eb_block_within_extent := eb_block_within_extent eb + 1,
               eb_block_within_file := eb_block_within_file eb + 1\<rparr>)"
proof -
  have "unat (eb_block_within_extent eb) \<noteq> unat (ex_num_blocks e)"
    using assms(5) by (metis word_unat_eq_iff)
  with assms(3,4) have lt: "eb_block_within_extent eb < ex_num_blocks e"
    by (auto simp: eb_ok_def word_less_nat_alt)
  note u = word_succ(2)[OF assms(1)] word_succ(2)[OF lt]
  have lt': "unat (eb_block_within_extent eb) < unat (ex_num_blocks e)"
    using lt by (simp add: word_less_nat_alt)
  then show "eb_ok (eb\<lparr>eb_block_within_extent := eb_block_within_extent eb + 1,
               eb_block_within_file := eb_block_within_file eb + 1\<rparr>)"
    using assms(3,4) u by (simp add: eb_ok_def)
  have "unat (eb_block_within_file eb) + (unat (ex_num_blocks e) - unat (eb_block_within_extent eb)) =
      Suc (unat (eb_block_within_file eb)) + (unat (ex_num_blocks e) - Suc (unat (eb_block_within_extent eb)))"
    using lt' by simp
  then show "pending eb es = (ex_start_block e + ucast (eb_block_within_extent eb)) #
     pending (eb\<lparr>eb_block_within_extent := eb_block_within_extent eb + 1,
               eb_block_within_file := eb_block_within_file eb + 1\<rparr>) es"
    using assms(2,3) u lt' by (simp add: pending_def Let_def upt_conv_Cons del: add_Suc)
qed

lemma pending_next_extent:
  assumes "eb_blocks_remaining_in_hole eb = 0" and "eb_extent eb = Some e"
    and "eb_block_within_extent eb = ex_num_blocks e"
  shows "pending (eb\<lparr>eb_extent := None\<rparr>) es = pending eb es"
  using assms by (simp add: pending_def Let_def)

definition blocks_left :: "ExtentsBlocks \<Rightarrow> nat" where
  "blocks_left eb = unat (eb_num_blocks_total eb) - unat (eb_block_within_file eb)"

lemma produces_after_end:
  assumes "Extents_next s = (Ok None, s')"
  shows "produces s' [] None"
proof -
  have "et_is_done (fst s')" using iter_next_end_done[OF assms[unfolded Extents_next_def]] .
  then have "Extents_next s' = (Ok None, s')"
    unfolding Extents_next_def by (intro iter_next_done)
  then show ?thesis unfolding produces_def by (blast intro: yields_end)
qed

text \<open>A step shortens the file still to come, or consumes an extent, or leaves an extent, or enters
  a hole.\<close>

abbreviation eb_descent :: "((ExtentsBlocks \<times> Extent list) \<times> (ExtentsBlocks \<times> Extent list)) set" where
  "eb_descent \<equiv> measures [\<lambda>(eb, es). blocks_left eb, \<lambda>(eb, es). length es,
     \<lambda>(eb, es). if eb_extent eb = None then 0 else 1 :: nat,
     \<lambda>(eb, es). if eb_blocks_remaining_in_hole eb = 0 then 1 else 0 :: nat]"

lemma blocks_left_Suc:
  assumes "eb_block_within_file eb < eb_num_blocks_total eb"
    and "eb_block_within_file eb' = eb_block_within_file eb + 1"
    and "eb_num_blocks_total eb' = eb_num_blocks_total eb"
  shows "blocks_left eb = Suc (blocks_left eb')"
  using assms(1) word_succ(2)[OF assms(1)] assms(2,3) by (simp add: blocks_left_def word_less_nat_alt)

lemma eb_next_with_extent:
  assumes "eb_block_within_file eb < eb_num_blocks_total eb" and "eb_blocks_remaining_in_hole eb = 0"
    and "eb_extent eb = None" and "Extents_next (eb_extents eb, fs) = (Ok (Some x), (it, fs'))"
    and "\<not> eb_is_done eb" and "eb_produces (with_extent eb it x, fs') out"
  shows "eb_produces (eb, fs) out"
proof (cases "0 < eb_blocks_remaining_in_hole (with_extent eb it x)")
  case True
  with step_fetch[OF assms(1-4)] have "ExtentsBlocks_next_impl (eb, fs) = (Ok None, (with_extent eb it x, fs'))"
    by simp
  from eb_produces_step[OF _ this assms(6)] assms(5) show ?thesis by simp
next
  case False
  have nd: "\<not> eb_is_done (with_extent eb it x)" using assms(5) by (simp add: with_extent_def)
  from False step_fetch[OF assms(1-4)]
  have "ExtentsBlocks_next_impl (eb, fs) = ExtentsBlocks_next_impl (with_extent eb it x, fs')" by simp
  from yields_same[of "\<lambda>s. eb_is_done (fst s)", where n = ExtentsBlocks_next_impl, OF _ _ this] nd assms(5,6)
  show ?thesis
    unfolding eb_produces_def ExtentsBlocks_next_def fst_conv by blast
qed

text \<open>The claim of the refinement for one state, and the three cases of its induction.\<close>

definition eb_refines :: "Ext4Error option \<Rightarrow> ExtentsBlocks \<Rightarrow> Extent list \<Rightarrow> bool" where
  "eb_refines r eb es \<longleftrightarrow> (\<forall>fs. produces (eb_extents eb, fs) es r \<longrightarrow> list_all extent_ok es \<longrightarrow> eb_ok eb \<longrightarrow>
     \<not> eb_is_done eb \<longrightarrow> eb_produces (eb, fs) (cut_blocks (blocks_left eb) (pending eb es) r))"

lemma eb_refinesD:
  "eb_refines r eb es \<Longrightarrow> produces (eb_extents eb, fs) es r \<Longrightarrow> list_all extent_ok es \<Longrightarrow> eb_ok eb \<Longrightarrow>
   \<not> eb_is_done eb \<Longrightarrow> eb_produces (eb, fs) (cut_blocks (blocks_left eb) (pending eb es) r)"
  by (simp add: eb_refines_def)

lemma eb_refines_hole:
  assumes IH: "\<And>eb' es'. ((eb', es'), (eb, es)) \<in> eb_descent \<Longrightarrow> eb_refines r eb' es'"
    and lt: "eb_block_within_file eb < eb_num_blocks_total eb" and hole: "0 < eb_blocks_remaining_in_hole eb"
  shows "eb_refines r eb es"
  unfolding eb_refines_def
proof (intro allI impI)
  fix fs assume *: "produces (eb_extents eb, fs) es r" "list_all extent_ok es" "eb_ok eb" and nd: "\<not> eb_is_done eb"
  let ?eb = "eb\<lparr>eb_blocks_remaining_in_hole := eb_blocks_remaining_in_hole eb - 1,
        eb_block_within_file := eb_block_within_file eb + 1\<rparr>"
  have bl: "blocks_left eb = Suc (blocks_left ?eb)" by (rule blocks_left_Suc[OF lt]) simp_all
  have "eb_ok ?eb" using *(3) by (simp add: eb_ok_def split: option.splits)
  then have "eb_produces (?eb, fs) (cut_blocks (blocks_left ?eb) (pending ?eb es) r)"
    by (intro eb_refinesD[OF IH]) (use bl * nd in simp_all)
  from eb_produces_item[OF _ step_hole[OF lt hole] this] nd
  show "eb_produces (eb, fs) (cut_blocks (blocks_left eb) (pending eb es) r)"
    by (simp add: bl pending_hole[OF lt hole])
qed

lemma eb_refines_extent:
  assumes IH: "\<And>eb' es'. ((eb', es'), (eb, es)) \<in> eb_descent \<Longrightarrow> eb_refines r eb' es'"
    and lt: "eb_block_within_file eb < eb_num_blocks_total eb" and h0: "eb_blocks_remaining_in_hole eb = 0"
    and ext: "eb_extent eb = Some e"
  shows "eb_refines r eb es"
  unfolding eb_refines_def
proof (intro allI impI)
  fix fs assume *: "produces (eb_extents eb, fs) es r" "list_all extent_ok es" and ok: "eb_ok eb"
    and nd: "\<not> eb_is_done eb"
  show "eb_produces (eb, fs) (cut_blocks (blocks_left eb) (pending eb es) r)"
  proof (cases "eb_block_within_extent eb = ex_num_blocks e")
    case True
    have "eb_produces (eb\<lparr>eb_extent := None\<rparr>, fs)
        (cut_blocks (blocks_left (eb\<lparr>eb_extent := None\<rparr>)) (pending (eb\<lparr>eb_extent := None\<rparr>) es) r)"
      by (intro eb_refinesD[OF IH]) (use * nd ext in \<open>simp_all add: eb_ok_def blocks_left_def\<close>)
    from eb_produces_step[OF _ _ this, of "(eb, fs)"] step_extent[OF lt h0 ext ok] True nd show ?thesis
      by (simp add: pending_next_extent[OF h0 ext True] blocks_left_def)
  next
    case False
    let ?eb = "eb\<lparr>eb_block_within_extent := eb_block_within_extent eb + 1,
         eb_block_within_file := eb_block_within_file eb + 1\<rparr>"
    note pe = pending_extent[OF lt h0 ext ok False]
    have bl: "blocks_left eb = Suc (blocks_left ?eb)" by (rule blocks_left_Suc[OF lt]) simp_all
    have "eb_produces (?eb, fs) (cut_blocks (blocks_left ?eb) (pending ?eb es) r)"
      by (intro eb_refinesD[OF IH]) (use bl * pe(2) nd in simp_all)
    from eb_produces_item[OF _ _ this, of "(eb, fs)"] step_extent[OF lt h0 ext ok] False nd show ?thesis
      by (simp add: bl pe(1))
  qed
qed

lemma eb_refines_fetch:
  assumes IH: "\<And>eb' es'. ((eb', es'), (eb, x # es)) \<in> eb_descent \<Longrightarrow> eb_refines r eb' es'"
    and lt: "eb_block_within_file eb < eb_num_blocks_total eb" and h0: "eb_blocks_remaining_in_hole eb = 0"
    and ext: "eb_extent eb = None"
  shows "eb_refines r eb (x # es)"
  unfolding eb_refines_def
proof (intro allI impI)
  fix fs assume pr: "produces (eb_extents eb, fs) (x # es) r" and eok: "list_all extent_ok (x # es)"
    and "eb_ok eb" and nd: "\<not> eb_is_done eb"
  from pr obtain it fs' s' where n: "Extents_next (eb_extents eb, fs) = (Ok (Some x), (it, fs'))"
    and "yields Extents_next (it, fs') es r s'" by (auto simp: produces_def elim: yields_ConsE)
  then have "produces (it, fs') es r" unfolding produces_def by blast
  then have "eb_produces (with_extent eb it x, fs')
      (cut_blocks (blocks_left (with_extent eb it x)) (pending (with_extent eb it x) es) r)"
    by (intro eb_refinesD[OF IH]) (use eok nd in \<open>simp_all add: with_extent_def eb_ok_def blocks_left_def\<close>)
  from eb_next_with_extent[OF lt h0 ext n nd this]
  show "eb_produces (eb, fs) (cut_blocks (blocks_left eb) (pending eb (x # es)) r)"
    by (simp add: pending_with_extent[OF h0 ext]) (simp add: with_extent_def blocks_left_def)
qed

lemma eb_refines_last:
  assumes IH: "\<And>eb' es'. ((eb', es'), (eb, [])) \<in> eb_descent \<Longrightarrow> eb_refines r eb' es'"
    and lt: "eb_block_within_file eb < eb_num_blocks_total eb" and h0: "eb_blocks_remaining_in_hole eb = 0"
    and ext: "eb_extent eb = None"
  shows "eb_refines r eb []"
  unfolding eb_refines_def
proof (intro allI impI)
  fix fs assume pr: "produces (eb_extents eb, fs) [] r" and "eb_ok eb" and nd: "\<not> eb_is_done eb"
  have pend: "pending eb [] = []" using h0 ext by (simp add: pending_def)
  have left: "0 < blocks_left eb" using lt by (simp add: blocks_left_def word_less_nat_alt)
  from pr obtain s' where "yields Extents_next (eb_extents eb, fs) [] r s'" by (auto simp: produces_def)
  then show "eb_produces (eb, fs) (cut_blocks (blocks_left eb) (pending eb []) r)"
  proof (cases rule: yields.cases)
    case yields_end
    then obtain it fs' where n: "Extents_next (eb_extents eb, fs) = (Ok None, (it, fs'))" by (cases s') auto
    let ?eb = "eb\<lparr>eb_extents := it, eb_blocks_remaining_in_hole := eb_num_blocks_total eb - eb_block_within_file eb\<rparr>"
    have h: "unat (eb_num_blocks_total eb - eb_block_within_file eb) = blocks_left eb"
      using lt by (simp add: blocks_left_def unat_sub less_imp_le)
    then have "pending ?eb [] = replicate (blocks_left eb) 0" using ext by (simp add: pending_def)
    moreover have "eb_num_blocks_total eb - eb_block_within_file eb \<noteq> 0" using h left by auto
    then have "eb_produces (?eb, fs') (cut_blocks (blocks_left ?eb) (pending ?eb []) r)"
      by (intro eb_refinesD[OF IH]) (use produces_after_end[OF n] yields_end nd ext h0 in
          \<open>simp_all add: eb_ok_def blocks_left_def\<close>)
    ultimately have "eb_produces (?eb, fs') (replicate (blocks_left eb) 0, None)"
      by (simp add: blocks_left_def cut_blocks_def)
    from eb_produces_step[OF _ step_fetch_end[OF lt h0 ext n] this] nd show ?thesis
      using left by (simp add: pend cut_blocks_Nil yields_end)
  next
    case (yields_err e)
    then obtain it fs' where n: "Extents_next (eb_extents eb, fs) = (Err e, (it, fs'))" by (cases s') auto
    from eb_produces_error[OF _ step_fetch_err[OF lt h0 ext n]] nd show ?thesis
      using left by (simp add: pend cut_blocks_Nil yields_err)
  qed
qed

lemma eb_refines_all: "eb_refines r eb es"
proof (induction "(eb, es)" arbitrary: eb es rule: wf_induct_rule[OF wf_measures[of
        "[\<lambda>(eb, es). blocks_left eb, \<lambda>(eb, es). length es,
          \<lambda>(eb, es). if eb_extent eb = None then 0 else 1 :: nat,
          \<lambda>(eb, es). if eb_blocks_remaining_in_hole eb = 0 then 1 else 0 :: nat]"]])
  case (1 eb es)
  note IH = 1
  show ?case
  proof (cases "eb_block_within_file eb < eb_num_blocks_total eb")
    case False
    then have "blocks_left eb = 0" by (simp add: blocks_left_def word_less_nat_alt not_less)
    with False show ?thesis by (simp add: eb_refines_def eb_produces_finished not_less)
  next
    case lt: True
    show ?thesis
    proof (cases "0 < eb_blocks_remaining_in_hole eb")
      case True
      show ?thesis by (rule eb_refines_hole[OF IH lt True])
    next
      case False
      then have h0: "eb_blocks_remaining_in_hole eb = 0" by (simp add: word_gt_0)
      show ?thesis
      proof (cases "eb_extent eb")
        case (Some e)
        show ?thesis by (rule eb_refines_extent[OF IH lt h0 Some])
      next
        case None
        show ?thesis
          using eb_refines_fetch[OF _ lt h0 None] eb_refines_last[OF _ lt h0 None] IH by (cases es) blast+
      qed
    qed
  qed
qed

section \<open>Properties\<close>

text \<open>Blocks of a new iterator: everything is pending.\<close>

lemma ExtentsBlocks_new_produces:
  assumes "ExtentsBlocks_new inode = Ok eb" and "Extents_new inode = Ok it"
    and "produces (it, fs) es r" and "list_all extent_ok es"
  shows "eb_produces (eb, fs) (cut_blocks (unat (in_file_size_in_blocks inode)) (layout 0 es) r)"
proof -
  have eb: "eb = \<lparr>eb_extents = it, eb_extent = None, eb_block_within_extent = 0,
         eb_blocks_remaining_in_hole = 0, eb_block_within_file = 0,
         eb_num_blocks_total = in_file_size_in_blocks inode, eb_is_done = False, eb_inode = in_index inode\<rparr>"
    using assms(1,2) by (simp add: ExtentsBlocks_new_def Inode_file_size_in_blocks_def)
  have "eb_produces (eb, fs) (cut_blocks (blocks_left eb) (pending eb es) r)"
    by (rule eb_refinesD[OF eb_refines_all]) (use assms(3,4) in \<open>simp_all add: eb eb_ok_def\<close>)
  then show ?thesis by (simp add: eb blocks_left_def pending_def)
qed

lemma extent_of_ok: "extent_ok (extent_of b)"
proof -
  have "unat (u64_from_hilo (ucast (h :: u16)) lo) < 2 ^ 48" for h lo
    using unat_less_bound[of h] unat_less_bound[of lo] by (simp add: u64_from_hilo_unat)
  then show ?thesis by (simp add: extent_ok_def extent_of_def)
qed

lemma walk_extent_ok: "walk child item es r \<Longrightarrow> list_all extent_ok es"
  by (induction rule: walk.induct) (auto simp: extent_of_ok)

text \<open>C28: The blocks of a file that uses extents: on a complete device, if the extent tree has the extents
  \<open>es\<close> in order and no error, the iterator yields exactly as many blocks as the file has, namely the
  blocks of the extents with zeros in the holes between them, cut at or filled with zeros up to the end
  of the file. If a node of the tree cannot be read, the blocks before it are yielded and then the
  error, unless the end of the file comes first.\<close>

theorem extents_blocks_layout:
  assumes "fs_ok disk fs" and "device_complete fs"
    and "ExtentsBlocks_new inode = Ok eb" and "Extents_new inode = Ok it"
    and "walk (inode_child disk fs inode) (hd (et_to_visit it)) es r"
  shows "\<exists>s'. yields ExtentsBlocks_next (eb, fs)
    (fst (cut_blocks (unat (in_file_size_in_blocks inode)) (layout 0 es) r))
    (snd (cut_blocks (unat (in_file_size_in_blocks inode)) (layout 0 es) r)) s'"
  using ExtentsBlocks_new_produces[OF assms(3,4) extents_walk_produces[OF assms(1,2,4,5)] walk_extent_ok[OF assms(5)]]
  by (simp add: eb_produces_def)

lemma leaf_blocks_new:
  "ExtentsBlocks_new leaf_inode = Ok \<lparr>eb_extents = leaf_extents, eb_extent = None,
      eb_block_within_extent = 0, eb_blocks_remaining_in_hole = 0, eb_block_within_file = 0,
      eb_num_blocks_total = 3, eb_is_done = False, eb_inode = 12\<rparr>"
  by (simp add: ExtentsBlocks_new_def leaf_extents_new del: bind_o_eq_Ok)
     (simp add: leaf_inode_def Inode_file_size_in_blocks_def)

theorem extents_blocks_layout_witness:
  "\<exists>s'. yields ExtentsBlocks_next
     (\<lparr>eb_extents = leaf_extents, eb_extent = None, eb_block_within_extent = 0,
       eb_blocks_remaining_in_hole = 0, eb_block_within_file = 0, eb_num_blocks_total = 3,
       eb_is_done = False, eb_inode = 12\<rparr>, sample_fs (replicate 16384 0)) [7, 8, 9] None s'"
proof -
  have n: "ExtentsBlocks_new leaf_inode = Ok \<lparr>eb_extents = leaf_extents, eb_extent = None,
      eb_block_within_extent = 0, eb_blocks_remaining_in_hole = 0, eb_block_within_file = 0,
      eb_num_blocks_total = 3, eb_is_done = False, eb_inode = 12\<rparr>"
    by (rule leaf_blocks_new)
  have w: "walk (inode_child (disk_of (replicate 16384 0)) (sample_fs (replicate 16384 0)) leaf_inode)
      (hd (et_to_visit leaf_extents)) [\<lparr>ex_block_within_file = 0, ex_start_block = 7, ex_num_blocks = 3\<rparr>] None"
    by (simp add: leaf_extents_def leaf_walk)
  have c: "length (replicate 16384 0 :: bytes) = 16384" by simp
  have "map (\<lambda>k. 7 + of_nat k) [0..<3] = ([7, 8, 9] :: u64 list)" by code_simp
  with extents_blocks_layout[OF sample_fs_ok sample_fs_complete[OF c] n leaf_extents_new w] show ?thesis
    by (simp add: cut_blocks_def leaf_inode_def)
qed

text \<open>Extents in ascending order without overlap, from position \<open>pos\<close> on.\<close>

fun ascending :: "nat \<Rightarrow> Extent list \<Rightarrow> bool" where
  "ascending pos [] \<longleftrightarrow> True"
| "ascending pos (e # es) \<longleftrightarrow> pos \<le> unat (ex_block_within_file e) \<and>
     ascending (unat (ex_block_within_file e) + unat (ex_num_blocks e)) es"

lemma layout_before: "ascending pos es \<Longrightarrow> e \<in> set es \<Longrightarrow> pos \<le> unat (ex_block_within_file e)"
  by (induction pos es rule: ascending.induct) auto

text \<open>The lookup of a block in a list of extents: what the layout must agree with.\<close>

definition extent_lookup :: "Extent list \<Rightarrow> nat \<Rightarrow> FsBlockIndex" where
  "extent_lookup es i =
     (case List.find (\<lambda>e. unat (ex_block_within_file e) \<le> i \<and>
             i < unat (ex_block_within_file e) + unat (ex_num_blocks e)) es of
        Some e \<Rightarrow> ex_start_block e + of_nat (i - unat (ex_block_within_file e))
      | None \<Rightarrow> 0)"

lemma layout_nth:
  assumes "ascending pos es" and "i < length (layout pos es)"
  shows "layout pos es ! i = extent_lookup es (pos + i)"
  using assms
proof (induction pos es arbitrary: i rule: layout.induct)
  case (1 pos)
  then show ?case by simp
next
  case (2 pos e es)
  let ?b = "unat (ex_block_within_file e)" and ?n = "unat (ex_num_blocks e)"
  have pb: "pos \<le> ?b" and asc: "ascending (?b + ?n) es" using 2(2) by auto
  have mx: "max pos ?b = ?b" using pb by simp
  show ?case
  proof (cases "i < ?b - pos")
    case True
    have "extent_lookup (e # es) (pos + i) = 0"
    proof -
      have "List.find (\<lambda>e. unat (ex_block_within_file e) \<le> pos + i \<and>
          pos + i < unat (ex_block_within_file e) + unat (ex_num_blocks e)) (e # es) = None"
        using True layout_before[OF asc] by (fastforce simp: find_None_iff)
      then show ?thesis by (simp only: extent_lookup_def option.case)
    qed
    with True show ?thesis by (simp add: nth_append)
  next
    case False
    show ?thesis
    proof (cases "i < ?b - pos + ?n")
      case True
      with False pb have "?b \<le> pos + i \<and> pos + i < ?b + ?n" by linarith
      then have "extent_lookup (e # es) (pos + i) = ex_start_block e + of_nat (pos + i - ?b)"
        by (simp add: extent_lookup_def)
      moreover have "pos + i - ?b = i - (?b - pos)" using pb False by simp
      moreover have "i + pos - ?b < ?n" using pb True False by linarith
      ultimately show ?thesis using True False by (simp add: nth_append)
    next
      case F2: False
      let ?j = "i - (?b - pos) - ?n"
      have j: "?b + ?n + ?j = pos + i" "\<not> pos + i < ?b + ?n" using F2 False pb by simp_all
      have "?j < length (layout (?b + ?n) es)" using 2(3) F2 False mx by simp
      from 2(1)[unfolded mx, OF asc this] j have "layout (?b + ?n) es ! ?j = extent_lookup es (pos + i)" by simp
      moreover have "extent_lookup (e # es) (pos + i) = extent_lookup es (pos + i)"
        using j(2) by (simp add: extent_lookup_def)
      moreover have "\<not> i + pos - ?b < ?n" using F2 False pb by linarith
      ultimately show ?thesis using F2 False mx by (simp add: nth_append)
    qed
  qed
qed

lemma extent_lookup_beyond:
  assumes "ascending pos es" and "pos + length (layout pos es) \<le> i"
  shows "extent_lookup es i = 0"
  using assms
proof (induction pos es rule: layout.induct)
  case (2 pos e es)
  let ?b = "unat (ex_block_within_file e)" and ?n = "unat (ex_num_blocks e)"
  have mx: "max pos ?b = ?b" using 2(2) by simp
  then have "extent_lookup es i = 0" using 2 by simp
  moreover have "\<not> i < ?b + ?n" using 2(2,3) by simp
  ultimately show ?case by (simp add: extent_lookup_def)
qed (simp add: extent_lookup_def)

lemma cut_layout_lookup:
  assumes "ascending 0 es" and "i < n"
  shows "fst (cut_blocks n (layout 0 es) None) ! i = extent_lookup es i"
proof -
  have "fst (cut_blocks n (layout 0 es) None) ! i =
      (if i < length (layout 0 es) then layout 0 es ! i else 0)"
    using assms(2) by (auto simp: cut_blocks_def nth_append)
  with layout_nth[OF assms(1), of i] extent_lookup_beyond[OF assms(1), of i]
  show ?thesis by (auto split: if_splits)
qed

text \<open>On a complete device, if the extents in the tree are in ascending order and do not overlap, the
  iterator yields exactly one block per block of the file; the block for position \<open>i\<close> is the one that
  the extent covering \<open>i\<close> assigns to it, and zero, a hole, if no extent covers \<open>i\<close>.\<close>

theorem extents_blocks_lookup:
  assumes "fs_ok disk fs" and "device_complete fs"
    and "ExtentsBlocks_new inode = Ok eb" and "Extents_new inode = Ok it"
    and "walk (inode_child disk fs inode) (hd (et_to_visit it)) es None" and "ascending 0 es"
  shows "\<exists>bs s'. yields ExtentsBlocks_next (eb, fs) bs None s' \<and>
     length bs = unat (in_file_size_in_blocks inode) \<and>
     (\<forall>i < unat (in_file_size_in_blocks inode). bs ! i = extent_lookup es i)"
proof -
  let ?n = "unat (in_file_size_in_blocks inode)"
  let ?out = "cut_blocks ?n (layout 0 es) None"
  have end_None: "snd ?out = None" by (simp add: cut_blocks_def)
  have "\<exists>s'. yields ExtentsBlocks_next (eb, fs) (fst ?out) None s'"
    using ExtentsBlocks_new_produces[OF assms(3,4) extents_walk_produces[OF assms(1,2,4,5)] walk_extent_ok[OF assms(5)]]
    by (simp add: eb_produces_def end_None)
  with cut_blocks_length[OF end_None] cut_layout_lookup[OF assms(6)] show ?thesis by blast
qed

theorem extents_blocks_lookup_witness:
  "\<exists>bs s'. yields ExtentsBlocks_next
     (\<lparr>eb_extents = leaf_extents, eb_extent = None, eb_block_within_extent = 0,
       eb_blocks_remaining_in_hole = 0, eb_block_within_file = 0, eb_num_blocks_total = 3,
       eb_is_done = False, eb_inode = 12\<rparr>, sample_fs (replicate 16384 0)) bs None s' \<and> length bs = 3 \<and> bs ! 2 = 9"
proof -
  let ?es = "[\<lparr>ex_block_within_file = 0, ex_start_block = 7, ex_num_blocks = 3\<rparr>] :: Extent list"
  have n: "ExtentsBlocks_new leaf_inode = Ok \<lparr>eb_extents = leaf_extents, eb_extent = None,
      eb_block_within_extent = 0, eb_blocks_remaining_in_hole = 0, eb_block_within_file = 0,
      eb_num_blocks_total = 3, eb_is_done = False, eb_inode = 12\<rparr>"
    by (rule leaf_blocks_new)
  have w: "walk (inode_child (disk_of (replicate 16384 0)) (sample_fs (replicate 16384 0)) leaf_inode)
      (hd (et_to_visit leaf_extents)) ?es None"
    by (simp add: leaf_extents_def leaf_walk)
  have c: "length (replicate 16384 0 :: bytes) = 16384" by simp
  have "extent_lookup ?es 2 = 9" by (simp add: extent_lookup_def)
  moreover have "unat (in_file_size_in_blocks leaf_inode) = 3" by (simp add: leaf_inode_def)
  ultimately show ?thesis
    using extents_blocks_lookup[OF sample_fs_ok sample_fs_complete[OF c] n leaf_extents_new w]
    by fastforce
qed

end
