(* ===== verification/Block_Map.thy ===== *)
theory Block_Map
  imports Inode Result_Iter
begin

text \<open>
  The iterator over the blocks of a file that uses a block map
  (\<^verbatim>\<open>src/src/iters/file_blocks/block_map.rs\<close>): twelve direct blocks, then the blocks listed in an
  indirect, a doubly and a triply indirect block, each level an iterator of its own. The specification
  reads the same tree of index blocks from the device as lists.
\<close>

section \<open>Indirect blocks\<close>

record IndirectBlockIter =
  ib_block :: bytes
  ib_index_within_block :: usize

definition IndirectBlockIter_new :: "u32 \<Rightarrow> IndirectBlockIter fs_op" where
  "IndirectBlockIter_new block_index =
     bindc (gets (\<lambda>fs. BlockSize_to_usize (sb_block_size (fs_superblock fs)))) (\<lambda>len.
     bindc (read_from_block (ucast block_index) 0 len) (\<lambda>block.
     ret \<lparr>ib_block = block, ib_index_within_block = 0\<rparr>))"

definition IndirectBlockIter_next :: "(IndirectBlockIter \<times> 't, u32 option, Ext4Error) comp" where
  "IndirectBlockIter_next =
     bindc (gets_fst (\<lambda>self. self)) (\<lambda>self.
     if ib_index_within_block self \<ge> length (ib_block self) then ret None
     else
       bindc (lift (read_u32le (ib_block self) (ib_index_within_block self))) (\<lambda>block_index.
       bindc (lift (unwrap (usize_add (ib_index_within_block self) 4))) (\<lambda>index.
       bindc (modify_fst (\<lambda>self. self\<lparr>ib_index_within_block := index\<rparr>)) (\<lambda>_.
       ret (Some block_index)))))"

text \<open>Run an iterator that is the content of an optional field.\<close>

definition on_some ::
  "('s \<Rightarrow> 'f option) \<Rightarrow> ('f option \<Rightarrow> 's \<Rightarrow> 's) \<Rightarrow> ('f \<times> 't, 'a, 'e) comp \<Rightarrow> ('s \<times> 't, 'a, 'e) comp" where
  "on_some get put m = on_field (\<lambda>s. the (get s)) (\<lambda>x. put (Some x)) m"

record DoubleIndirectBlockIter =
  db_indirect_0 :: IndirectBlockIter
  db_indirect_1 :: "IndirectBlockIter option"
  db_is_done :: bool

definition DoubleIndirectBlockIter_new :: "u32 \<Rightarrow> DoubleIndirectBlockIter fs_op" where
  "DoubleIndirectBlockIter_new block_index =
     bindc (IndirectBlockIter_new block_index) (\<lambda>indirect_0.
     ret \<lparr>db_indirect_0 = indirect_0, db_indirect_1 = None, db_is_done = False\<rparr>)"

definition DoubleIndirectBlockIter_next_impl ::
  "(DoubleIndirectBlockIter \<times> Ext4, u32 option, Ext4Error) comp" where
  "DoubleIndirectBlockIter_next_impl =
     bindc (gets_fst db_indirect_1) (\<lambda>indirect_1.
     if indirect_1 \<noteq> None then
       bindc (on_some db_indirect_1 (\<lambda>x self. self\<lparr>db_indirect_1 := x\<rparr>) IndirectBlockIter_next) (\<lambda>item.
       case item of
         Some block_index \<Rightarrow> ret (Some block_index)
       | None \<Rightarrow> bindc (modify_fst (\<lambda>self. self\<lparr>db_indirect_1 := None\<rparr>)) (\<lambda>_. ret None))
     else
       bindc (on_field db_indirect_0 (\<lambda>x self. self\<lparr>db_indirect_0 := x\<rparr>) IndirectBlockIter_next) (\<lambda>item.
       case item of
         Some block_index \<Rightarrow>
           bindc (on_snd (IndirectBlockIter_new block_index)) (\<lambda>it.
           bindc (modify_fst (\<lambda>self. self\<lparr>db_indirect_1 := Some it\<rparr>)) (\<lambda>_. ret None))
       | None \<Rightarrow> bindc (modify_fst (\<lambda>self. self\<lparr>db_is_done := True\<rparr>)) (\<lambda>_. ret None)))"

definition DoubleIndirectBlockIter_next :: "(DoubleIndirectBlockIter \<times> Ext4, u32 option, Ext4Error) comp" where
  "DoubleIndirectBlockIter_next = result_iter_next (\<lambda>s. db_is_done (fst s))
     (\<lambda>s. ((fst s)\<lparr>db_is_done := True\<rparr>, snd s)) DoubleIndirectBlockIter_next_impl"

record TripleIndirectBlockIter =
  tb_indirect_0 :: IndirectBlockIter
  tb_indirect_1 :: "DoubleIndirectBlockIter option"
  tb_is_done :: bool

definition TripleIndirectBlockIter_new :: "u32 \<Rightarrow> TripleIndirectBlockIter fs_op" where
  "TripleIndirectBlockIter_new block_index =
     bindc (IndirectBlockIter_new block_index) (\<lambda>indirect_0.
     ret \<lparr>tb_indirect_0 = indirect_0, tb_indirect_1 = None, tb_is_done = False\<rparr>)"

definition TripleIndirectBlockIter_next_impl ::
  "(TripleIndirectBlockIter \<times> Ext4, u32 option, Ext4Error) comp" where
  "TripleIndirectBlockIter_next_impl =
     bindc (gets_fst tb_indirect_1) (\<lambda>indirect_1.
     if indirect_1 \<noteq> None then
       bindc (on_some tb_indirect_1 (\<lambda>x self. self\<lparr>tb_indirect_1 := x\<rparr>) DoubleIndirectBlockIter_next) (\<lambda>item.
       case item of
         Some block_index \<Rightarrow> ret (Some block_index)
       | None \<Rightarrow> bindc (modify_fst (\<lambda>self. self\<lparr>tb_indirect_1 := None\<rparr>)) (\<lambda>_. ret None))
     else
       bindc (on_field tb_indirect_0 (\<lambda>x self. self\<lparr>tb_indirect_0 := x\<rparr>) IndirectBlockIter_next) (\<lambda>item.
       case item of
         Some block_index \<Rightarrow>
           bindc (on_snd (DoubleIndirectBlockIter_new block_index)) (\<lambda>it.
           bindc (modify_fst (\<lambda>self. self\<lparr>tb_indirect_1 := Some it\<rparr>)) (\<lambda>_. ret None))
       | None \<Rightarrow> bindc (modify_fst (\<lambda>self. self\<lparr>tb_is_done := True\<rparr>)) (\<lambda>_. ret None)))"

definition TripleIndirectBlockIter_next :: "(TripleIndirectBlockIter \<times> Ext4, u32 option, Ext4Error) comp" where
  "TripleIndirectBlockIter_next = result_iter_next (\<lambda>s. tb_is_done (fst s))
     (\<lambda>s. ((fst s)\<lparr>tb_is_done := True\<rparr>, snd s)) TripleIndirectBlockIter_next_impl"

section \<open>The block map\<close>

record BlockMap =
  bm_level_0 :: "u32 list"
  bm_level_0_index :: usize
  bm_num_blocks_yielded :: u32
  bm_num_blocks_total :: u32
  bm_level_1 :: "IndirectBlockIter option"
  bm_level_2 :: "DoubleIndirectBlockIter option"
  bm_level_3 :: "TripleIndirectBlockIter option"
  bm_is_done :: bool

definition NUM_ENTRIES :: usize where
  "NUM_ENTRIES = 15"

text \<open>The loop that fills \<open>level_0\<close> from the inode's inline data.\<close>

fun read_level_0 :: "bytes \<Rightarrow> nat list \<Rightarrow> u32 list result" where
  "read_level_0 inline_data [] = Ok []"
| "read_level_0 inline_data (i # is) =
     bind_o (unwrap (usize_mul i 4)) (\<lambda>src_offset.
     bind_o (read_u32le inline_data src_offset) (\<lambda>dst.
     bind_o (read_level_0 inline_data is) (\<lambda>rest. Ok (dst # rest))))"

definition BlockMap_new :: "Inode \<Rightarrow> BlockMap result" where
  "BlockMap_new inode =
     bind_o (read_level_0 (in_inline_data inode) [0..<NUM_ENTRIES]) (\<lambda>level_0.
     Ok \<lparr>bm_level_0 = level_0, bm_level_0_index = 0, bm_num_blocks_yielded = 0,
         bm_num_blocks_total = Inode_file_size_in_blocks inode, bm_level_1 = None, bm_level_2 = None,
         bm_level_3 = None, bm_is_done = False\<rparr>)"

definition BlockMap_increment_num_blocks_yielded :: "(BlockMap \<times> Ext4, unit, Ext4Error) comp" where
  "BlockMap_increment_num_blocks_yielded =
     bindc (gets_fst bm_num_blocks_yielded) (\<lambda>n.
     bindc (lift (unwrap (checked_add n 1))) (\<lambda>n'.
     modify_fst (\<lambda>self. self\<lparr>bm_num_blocks_yielded := n'\<rparr>)))"

definition BlockMap_next_impl :: "(BlockMap \<times> Ext4, FsBlockIndex option, Ext4Error) comp" where
  "BlockMap_next_impl =
     bindc (gets_fst (\<lambda>self. self)) (\<lambda>self.
     if bm_num_blocks_yielded self \<ge> bm_num_blocks_total self then
       bindc (modify_fst (\<lambda>self. self\<lparr>bm_is_done := True\<rparr>)) (\<lambda>_. ret None)
     else
       case get_at (bm_level_0 self) (bm_level_0_index self) of
         None \<Rightarrow> bindc (modify_fst (\<lambda>self. self\<lparr>bm_is_done := True\<rparr>)) (\<lambda>_. ret None)
       | Some block_0 \<Rightarrow>
           if bm_level_0_index self \<le> 11 then
             bindc (lift (unwrap (usize_add (bm_level_0_index self) 1))) (\<lambda>index.
             bindc (modify_fst (\<lambda>self. self\<lparr>bm_level_0_index := index\<rparr>)) (\<lambda>_.
             bindc BlockMap_increment_num_blocks_yielded (\<lambda>_.
             ret (Some (ucast block_0)))))
           else if bm_level_0_index self = 12 then
             if bm_level_1 self \<noteq> None then
               bindc (on_some bm_level_1 (\<lambda>x self. self\<lparr>bm_level_1 := x\<rparr>) IndirectBlockIter_next) (\<lambda>item.
               case item of
                 Some block_index \<Rightarrow>
                   bindc BlockMap_increment_num_blocks_yielded (\<lambda>_. ret (Some (ucast block_index)))
               | None \<Rightarrow>
                   bindc (modify_fst (\<lambda>self. self\<lparr>bm_level_1 := None, bm_level_0_index := 13\<rparr>)) (\<lambda>_. ret None))
             else
               bindc (on_snd (IndirectBlockIter_new block_0)) (\<lambda>it.
               bindc (modify_fst (\<lambda>self. self\<lparr>bm_level_1 := Some it\<rparr>)) (\<lambda>_. ret None))
           else if bm_level_0_index self = 13 then
             if bm_level_2 self \<noteq> None then
               bindc (on_some bm_level_2 (\<lambda>x self. self\<lparr>bm_level_2 := x\<rparr>) DoubleIndirectBlockIter_next) (\<lambda>item.
               case item of
                 Some block_index \<Rightarrow>
                   bindc BlockMap_increment_num_blocks_yielded (\<lambda>_. ret (Some (ucast block_index)))
               | None \<Rightarrow>
                   bindc (modify_fst (\<lambda>self. self\<lparr>bm_level_2 := None, bm_level_0_index := 14\<rparr>)) (\<lambda>_. ret None))
             else
               bindc (on_snd (DoubleIndirectBlockIter_new block_0)) (\<lambda>it.
               bindc (modify_fst (\<lambda>self. self\<lparr>bm_level_2 := Some it\<rparr>)) (\<lambda>_. ret None))
           else if bm_level_0_index self = 14 then
             if bm_level_3 self \<noteq> None then
               bindc (on_some bm_level_3 (\<lambda>x self. self\<lparr>bm_level_3 := x\<rparr>) TripleIndirectBlockIter_next) (\<lambda>item.
               case item of
                 Some block_index \<Rightarrow>
                   bindc BlockMap_increment_num_blocks_yielded (\<lambda>_. ret (Some (ucast block_index)))
               | None \<Rightarrow>
                   bindc (modify_fst (\<lambda>self. self\<lparr>bm_level_3 := None, bm_level_0_index := 15\<rparr>)) (\<lambda>_. ret None))
             else
               bindc (on_snd (TripleIndirectBlockIter_new block_0)) (\<lambda>it.
               bindc (modify_fst (\<lambda>self. self\<lparr>bm_level_3 := Some it\<rparr>)) (\<lambda>_. ret None))
           else lift Panic)"

definition BlockMap_next :: "(BlockMap \<times> Ext4, FsBlockIndex option, Ext4Error) comp" where
  "BlockMap_next = result_iter_next (\<lambda>s. bm_is_done (fst s))
     (\<lambda>s. ((fst s)\<lparr>bm_is_done := True\<rparr>, snd s)) BlockMap_next_impl"

section \<open>The map on the device\<close>

text \<open>The block numbers in an index block, from byte \<open>i\<close> on.\<close>

definition numbers_from :: "bytes \<Rightarrow> nat \<Rightarrow> u32 list" where
  "numbers_from bs i = map (\<lambda>k. u32le_at bs (4 * k)) [i div 4..<length bs div 4]"

text \<open>The numbers that an indirect, a doubly and a triply indirect block stand for.\<close>

definition indirect_out :: "(nat \<Rightarrow> u8) \<Rightarrow> Ext4 \<Rightarrow> u32 \<Rightarrow> (u32, Ext4Error) out_seq" where
  "indirect_out disk fs b =
     (case block_read_spec disk fs (ucast b) 0 (block_bytes fs) of
        Ok bs \<Rightarrow> (numbers_from bs 0, None)
      | Err e \<Rightarrow> ([], Some e)
      | _ \<Rightarrow> ([], None))"

definition index_out ::
  "(nat \<Rightarrow> u8) \<Rightarrow> Ext4 \<Rightarrow> (u32 \<Rightarrow> (u32, Ext4Error) out_seq) \<Rightarrow> u32 \<Rightarrow> (u32, Ext4Error) out_seq" where
  "index_out disk fs f b =
     (case indirect_out disk fs b of (bs, None) \<Rightarrow> out_concat f bs | (_, Some e) \<Rightarrow> ([], Some e))"

definition double_out :: "(nat \<Rightarrow> u8) \<Rightarrow> Ext4 \<Rightarrow> u32 \<Rightarrow> (u32, Ext4Error) out_seq" where
  "double_out disk fs b = index_out disk fs (indirect_out disk fs) b"

definition triple_out :: "(nat \<Rightarrow> u8) \<Rightarrow> Ext4 \<Rightarrow> u32 \<Rightarrow> (u32, Ext4Error) out_seq" where
  "triple_out disk fs b = index_out disk fs (double_out disk fs) b"

text \<open>All block numbers of a map with root \<open>l\<close>.\<close>

definition map_out :: "(nat \<Rightarrow> u8) \<Rightarrow> Ext4 \<Rightarrow> u32 list \<Rightarrow> (u32, Ext4Error) out_seq" where
  "map_out disk fs l =
     out_append (take 12 l, None)
       (out_append (indirect_out disk fs (l ! 12))
         (out_append (double_out disk fs (l ! 13)) (triple_out disk fs (l ! 14))))"

section \<open>Indirect blocks yield their numbers\<close>

definition ib_ok :: "IndirectBlockIter \<Rightarrow> bool" where
  "ib_ok it \<longleftrightarrow> 4 dvd length (ib_block it) \<and> 4 dvd ib_index_within_block it \<and>
     ib_index_within_block it \<le> length (ib_block it) \<and> length (ib_block it) \<le> usize_max - 4"

definition ib_rest :: "IndirectBlockIter \<Rightarrow> (u32, Ext4Error) out_seq" where
  "ib_rest it = (numbers_from (ib_block it) (ib_index_within_block it), None)"

lemma numbers_from_Cons:
  assumes "4 dvd length bs" and "4 dvd i" and "i < length bs"
  shows "numbers_from bs i = u32le_at bs i # numbers_from bs (i + 4)"
proof -
  obtain a b where ab: "length bs = 4 * a" "i = 4 * b" using assms(1,2) by (auto simp: dvd_def)
  then have "b < a" using assms(3) by simp
  with ab show ?thesis by (simp add: numbers_from_def upt_conv_Cons)
qed

lemma numbers_from_end: "length bs \<le> i \<Longrightarrow> numbers_from bs i = []"
  by (simp add: numbers_from_def div_le_mono)

lemma Indirect_next_item:
  assumes "ib_ok it" and "ib_index_within_block it < length (ib_block it)"
  shows "IndirectBlockIter_next (it, t) =
     (Ok (Some (u32le_at (ib_block it) (ib_index_within_block it))),
      (it\<lparr>ib_index_within_block := ib_index_within_block it + 4\<rparr>, t))"
    and "ib_ok (it\<lparr>ib_index_within_block := ib_index_within_block it + 4\<rparr>)"
    and "fst (ib_rest it) = u32le_at (ib_block it) (ib_index_within_block it) #
           fst (ib_rest (it\<lparr>ib_index_within_block := ib_index_within_block it + 4\<rparr>))"
proof -
  have le: "ib_index_within_block it + 4 \<le> length (ib_block it)"
    using assms by (auto simp: ib_ok_def dvd_def)
  then show "IndirectBlockIter_next (it, t) =
     (Ok (Some (u32le_at (ib_block it) (ib_index_within_block it))),
      (it\<lparr>ib_index_within_block := ib_index_within_block it + 4\<rparr>, t))"
    using assms by (simp add: IndirectBlockIter_next_def comp_defs usize_add_def ib_ok_def usize_max_def)
  show "ib_ok (it\<lparr>ib_index_within_block := ib_index_within_block it + 4\<rparr>)"
    using assms le by (simp add: ib_ok_def)
  show "fst (ib_rest it) = u32le_at (ib_block it) (ib_index_within_block it) #
           fst (ib_rest (it\<lparr>ib_index_within_block := ib_index_within_block it + 4\<rparr>))"
    using assms by (simp add: ib_rest_def ib_ok_def numbers_from_Cons)
qed

lemma Indirect_next_end:
  assumes "\<not> ib_index_within_block it < length (ib_block it)"
  shows "IndirectBlockIter_next (it, t) = (Ok None, (it, t))" and "ib_rest it = ([], None)"
  using assms by (simp_all add: IndirectBlockIter_next_def comp_defs ib_rest_def numbers_from_end)

lemma Indirect_outputs:
  assumes "ib_ok it"
  shows "outputs IndirectBlockIter_next (it, t) (ib_rest it)"
  using assms
proof (induction "length (ib_block it) - ib_index_within_block it" arbitrary: it rule: less_induct)
  case less
  show ?case
  proof (cases "ib_index_within_block it < length (ib_block it)")
    case True
    note n = Indirect_next_item[OF less.prems True]
    let ?it = "it\<lparr>ib_index_within_block := ib_index_within_block it + 4\<rparr>"
    have "outputs IndirectBlockIter_next (?it, t) (ib_rest ?it)"
      by (rule less.hyps[OF _ n(2)]) (use True in simp)
    then show ?thesis
      using n(3) outputs_Cons[of IndirectBlockIter_next "(it, t)", OF n(1)] by (simp add: ib_rest_def)
  next
    case False
    with Indirect_next_end(2)[OF False] outputs_Nil[of IndirectBlockIter_next "(it, t)", OF Indirect_next_end(1)[OF False]]
    show ?thesis by simp
  qed
qed

lemma Indirect_keeps:
  assumes "ib_ok it" and "IndirectBlockIter_next (it, t) = (r, (it', t'))"
  shows "ib_ok it' \<and> t' = t \<and> r \<noteq> Panic"
proof (cases "ib_index_within_block it < length (ib_block it)")
  case True
  with assms Indirect_next_item(1)[OF assms(1) True, of t] Indirect_next_item(2)[OF assms(1) True] show ?thesis by auto
next
  case False
  with assms Indirect_next_end(1)[OF False, of t] show ?thesis by auto
qed

text \<open>Opening an index block reads it from the device.\<close>

lemma Indirect_new_cases:
  assumes g: "good disk fs0 fs" and dc: "device_complete fs0"
  shows "(\<exists>it fs'. IndirectBlockIter_new b fs = (Ok it, fs') \<and> good disk fs0 fs' \<and> ib_ok it \<and>
            ib_rest it = indirect_out disk fs0 b) \<or>
         (\<exists>e fs'. IndirectBlockIter_new b fs = (Err e, fs') \<and> good disk fs0 fs' \<and>
            indirect_out disk fs0 b = ([], Some e))"
proof -
  obtain fs' where r: "read_from_block (ucast b) 0 (block_bytes fs0) fs =
      (block_read_spec disk fs0 (ucast b) 0 (block_bytes fs0), fs')" "good disk fs0 fs'"
    using computesD[OF computes_read[OF g dc, of 0 "ucast b" "block_bytes fs0"]] by auto
  have bs: "block_bytes fs0 \<le> 2147483648" "1024 dvd block_bytes fs0"
    using g good_sel(1)[OF g] fs_ok_block_size[of disk fs] valid_block_size_bounds(3)[of "sb_block_size (fs_superblock fs)"]
    by (auto simp: good_def)
  have "4 dvd block_bytes fs0" using bs(2) by (rule dvd_trans[rotated]) simp
  then have "ib_ok \<lparr>ib_block = disk_range disk s (block_bytes fs0), ib_index_within_block = 0\<rparr>" for s
    using bs(1) by (simp add: ib_ok_def usize_max_def)
  then show ?thesis
    using r good_sel(1)[OF g]
    by (auto simp: IndirectBlockIter_new_def comp_defs indirect_out_def ib_rest_def BlockSize_to_usize_def
        usize_from_u32_def block_read_spec_def)
qed

section \<open>One level of index blocks\<close>

text \<open>
  The doubly and the triply indirect iterator have the same shape: an index block whose numbers are
  opened one by one with an inner iterator. The locale states the steps of such an iterator and the
  contract of the inner one, and derives the output: the inner outputs, one after another.
\<close>

locale index_level =
  fixes G :: "Ext4 \<Rightarrow> bool"
    and inner_next :: "('i \<times> Ext4, u32 option, Ext4Error) comp"
    and inner_new :: "u32 \<Rightarrow> 'i fs_op"
    and inner_ok :: "'i \<Rightarrow> bool"
    and inner_rest :: "'i \<Rightarrow> (u32, Ext4Error) out_seq"
    and inner_out :: "u32 \<Rightarrow> (u32, Ext4Error) out_seq"
    and next_impl :: "('o \<times> Ext4, u32 option, Ext4Error) comp"
    and is_done :: "'o \<Rightarrow> bool" and set_done :: "'o \<Rightarrow> 'o"
    and get0 :: "'o \<Rightarrow> IndirectBlockIter" and get1 :: "'o \<Rightarrow> 'i option"
    and put :: "IndirectBlockIter \<Rightarrow> 'i option \<Rightarrow> 'o \<Rightarrow> 'o"
  assumes inner_outputs: "inner_ok d \<Longrightarrow> G fs \<Longrightarrow> outputs inner_next (d, fs) (inner_rest d)"
    and inner_keeps: "inner_ok d \<Longrightarrow> G fs \<Longrightarrow> inner_next (d, fs) = (r, (d', fs')) \<Longrightarrow>
          inner_ok d' \<and> G fs'"
    and inner_new: "G fs \<Longrightarrow>
          (\<exists>d fs'. inner_new b fs = (Ok d, fs') \<and> G fs' \<and> inner_ok d \<and> inner_rest d = inner_out b) \<or>
          (\<exists>e fs'. inner_new b fs = (Err e, fs') \<and> G fs' \<and> inner_out b = ([], Some e))"
    and sel_put: "get0 (put i v s) = i" "get1 (put i v s) = v" "is_done (put i v s) = is_done s"
    and sel_done: "is_done (set_done s)" "get0 (set_done s) = get0 s" "get1 (set_done s) = get1 s"
    and step_item: "get1 s = Some d \<Longrightarrow> inner_next (d, fs) = (Ok (Some x), (d', fs')) \<Longrightarrow>
          next_impl (s, fs) = (Ok (Some x), (put (get0 s) (Some d') s, fs'))"
    and step_end: "get1 s = Some d \<Longrightarrow> inner_next (d, fs) = (Ok None, (d', fs')) \<Longrightarrow>
          next_impl (s, fs) = (Ok None, (put (get0 s) None s, fs'))"
    and step_err: "get1 s = Some d \<Longrightarrow> inner_next (d, fs) = (Err e, (d', fs')) \<Longrightarrow>
          next_impl (s, fs) = (Err e, (put (get0 s) (Some d') s, fs'))"
    and open_item: "get1 s = None \<Longrightarrow> IndirectBlockIter_next (get0 s, fs) = (Ok (Some b), (i, fs)) \<Longrightarrow>
          inner_new b fs = (Ok d, fs') \<Longrightarrow> next_impl (s, fs) = (Ok None, (put i (Some d) s, fs'))"
    and open_err: "get1 s = None \<Longrightarrow> IndirectBlockIter_next (get0 s, fs) = (Ok (Some b), (i, fs)) \<Longrightarrow>
          inner_new b fs = (Err e, fs') \<Longrightarrow> next_impl (s, fs) = (Err e, (put i None s, fs'))"
    and open_end: "get1 s = None \<Longrightarrow> IndirectBlockIter_next (get0 s, fs) = (Ok None, (i, fs)) \<Longrightarrow>
          next_impl (s, fs) = (Ok None, (set_done (put i None s), fs))"
begin

abbreviation level_next :: "('o \<times> Ext4, u32 option, Ext4Error) comp" where
  "level_next \<equiv> result_iter_next (\<lambda>s. is_done (fst s)) (\<lambda>s. (set_done (fst s), snd s)) next_impl"

definition level_ok :: "'o \<Rightarrow> bool" where
  "level_ok s \<longleftrightarrow> ib_ok (get0 s) \<and> (\<forall>d. get1 s = Some d \<longrightarrow> inner_ok d)"

definition level_rest :: "'o \<Rightarrow> (u32, Ext4Error) out_seq" where
  "level_rest s = out_append (case get1 s of None \<Rightarrow> ([], None) | Some d \<Rightarrow> inner_rest d)
     (out_concat inner_out (fst (ib_rest (get0 s))))"

text \<open>One step: it hands on a block of the inner iterator, moves on without one, ends, or fails.\<close>

inductive level_step :: "'o \<Rightarrow> Ext4 \<Rightarrow> bool" for s fs where
  item: "next_impl (s, fs) = (Ok (Some x), (s', fs')) \<Longrightarrow> level_rest s = (x # fst (level_rest s'), snd (level_rest s')) \<Longrightarrow>
    get0 s' = get0 s \<Longrightarrow> get1 s = Some d \<Longrightarrow> get1 s' = Some d' \<Longrightarrow>
    length (fst (inner_rest d')) < length (fst (inner_rest d)) \<Longrightarrow>
    level_ok s' \<Longrightarrow> G fs' \<Longrightarrow> is_done s' = is_done s \<Longrightarrow> level_step s fs"
| more: "next_impl (s, fs) = (Ok None, (s', fs')) \<Longrightarrow> level_rest s' = level_rest s \<Longrightarrow>
    length (fst (ib_rest (get0 s'))) < length (fst (ib_rest (get0 s))) \<or>
      get0 s' = get0 s \<and> get1 s' = None \<and> get1 s \<noteq> None \<Longrightarrow>
    level_ok s' \<Longrightarrow> G fs' \<Longrightarrow> is_done s' = is_done s \<Longrightarrow> level_step s fs"
| finished: "next_impl (s, fs) = (Ok None, (s', fs')) \<Longrightarrow> is_done s' \<Longrightarrow> level_rest s = ([], None) \<Longrightarrow>
    level_ok s' \<Longrightarrow> G fs' \<Longrightarrow> level_step s fs"
| error: "next_impl (s, fs) = (Err e, (s', fs')) \<Longrightarrow> level_rest s = ([], Some e) \<Longrightarrow>
    level_ok s' \<Longrightarrow> G fs' \<Longrightarrow> level_step s fs"

lemma inner_step:
  assumes "level_ok s" and "G fs" and get1: "get1 s = Some d"
  shows "level_step s fs"
proof -
  have d: "inner_ok d" using assms(1) get1 by (simp add: level_ok_def)
  note io = inner_outputs[OF d assms(2)]
  note sel = level_rest_def level_ok_def sel_put
  obtain xs r where ir: "inner_rest d = (xs, r)" by fastforce
  consider (Cons) x xs' where "xs = x # xs'" | (End) "xs = []" "r = None" | (Error) e where "xs = []" "r = Some e"
    by (cases xs; cases r) auto
  then show ?thesis
  proof cases
    case (Cons x xs')
    with io ir obtain d' fs' where n: "inner_next (d, fs) = (Ok (Some x), (d', fs'))"
      and o': "outputs inner_next (d', fs') (xs', r)" by (metis outputs_ConsD surj_pair)
    note k = inner_keeps[OF d assms(2) n]
    then have "inner_rest d' = (xs', r)" using inner_outputs[of d' fs'] outputs_det[OF o'] by metis
    with k ir Cons assms(1) get1 show ?thesis by (intro level_step.item[OF step_item[OF get1 n], of d d']) (simp_all add: sel)
  next
    case End
    with io ir obtain d' fs' where n: "inner_next (d, fs) = (Ok None, (d', fs'))" by (metis outputs_endD surj_pair)
    with inner_keeps[OF d assms(2) n] assms(1) get1 ir End show ?thesis
      by (intro level_step.more[OF step_end[OF get1 n]]) (simp_all add: sel)
  next
    case (Error e)
    with io ir obtain d' fs' where n: "inner_next (d, fs) = (Err e, (d', fs'))" by (metis outputs_errD surj_pair)
    with inner_keeps[OF d assms(2) n] assms(1) get1 ir Error show ?thesis
      by (intro level_step.error[OF step_err[OF get1 n]]) (simp_all add: sel)
  qed
qed

lemma open_step:
  assumes "level_ok s" and "G fs" and get1: "get1 s = None"
  shows "level_step s fs"
proof (cases "ib_index_within_block (get0 s) < length (ib_block (get0 s))")
  case True
  have "ib_ok (get0 s)" using assms(1) by (simp add: level_ok_def)
  note n = Indirect_next_item[OF this True]
  from inner_new[OF assms(2), of "u32le_at (ib_block (get0 s)) (ib_index_within_block (get0 s))"] show ?thesis
    using level_step.more[OF open_item[OF get1 n(1)]] level_step.error[OF open_err[OF get1 n(1)]] n(2,3) get1
    by (elim disjE exE conjE) (simp_all add: level_rest_def level_ok_def sel_put)
next
  case False
  note n = Indirect_next_end[OF False]
  show ?thesis
    by (rule level_step.finished[OF open_end[OF get1 n(1)]])
       (use n(2) assms in \<open>simp_all add: level_rest_def level_ok_def sel_put sel_done\<close>)
qed

lemma level_steps: "level_ok s \<Longrightarrow> G fs \<Longrightarrow> level_step s fs"
  using inner_step open_step by (cases "get1 s") blast+

lemma level_outputs:
  assumes "level_ok s" and "G fs" and "\<not> is_done s"
  shows "outputs level_next (s, fs) (level_rest s)"
  using assms
proof (induction s arbitrary: fs rule: wf_induct_rule[OF wf_measures[of
      "[\<lambda>s. length (fst (ib_rest (get0 s))), \<lambda>s. if get1 s = None then 0 else 1,
        \<lambda>s. case get1 s of None \<Rightarrow> 0 | Some d \<Rightarrow> length (fst (inner_rest d))]"]])
  case (1 s)
  have nd: "\<not> is_done (fst (s, fs))" using 1(4) by simp
  from level_steps[OF 1(2,3)] show ?case
  proof cases
    case (item x s' fs' d d')
    have "outputs level_next (s', fs') (level_rest s')"
      by (rule 1(1)) (use item 1(4) in auto)
    from outputs_item[of "\<lambda>s. is_done (fst s)" "(s, fs)" next_impl, OF nd item(1) this] item(2) show ?thesis by simp
  next
    case (more s' fs')
    have "outputs level_next (s', fs') (level_rest s')"
      by (rule 1(1)) (use more 1(4) in auto)
    from outputs_step[of "\<lambda>s. is_done (fst s)" "(s, fs)" next_impl, OF nd more(1) this] more(2) show ?thesis by simp
  next
    case (finished s' fs')
    have "outputs level_next (s', fs') ([], None)"
      by (rule outputs_done) (use finished in simp)
    from outputs_step[of "\<lambda>s. is_done (fst s)" "(s, fs)" next_impl, OF nd finished(1) this] finished(3) show ?thesis by simp
  next
    case (error e s' fs')
    from outputs_err[of "\<lambda>s. is_done (fst s)" "(s, fs)" next_impl, OF nd error(1)] error(2) show ?thesis by simp
  qed
qed

lemma level_keeps:
  assumes "level_ok s" and "G fs" and "level_next (s, fs) = (r, (s', fs'))"
  shows "level_ok s' \<and> G fs'"
proof -
  let ?I = "\<lambda>s. level_ok (fst s) \<and> G (snd s)"
  have step: "?I s2 \<and> r \<noteq> Panic" if I: "?I s1" and n: "next_impl s1 = (r, s2)" for s1 r s2
  proof -
    obtain a b where s1: "s1 = (a, b)" by fastforce
    have "level_step a b" using I s1 level_steps by auto
    then show ?thesis using n s1 by cases auto
  qed
  have fin: "?I (set_done (fst s), snd s)" if "?I s" for s
    using that by (simp add: level_ok_def sel_done)
  have "?I (snd (level_next (s, fs))) \<and> fst (level_next (s, fs)) \<noteq> Panic"
  proof (rule iter_next_keeps[where I = ?I])
    show "?I s2 \<and> r \<noteq> Panic" if "?I s1" "\<not> is_done (fst s1)" "next_impl s1 = (r, s2)" for s1 r s2
      by (rule step[OF that(1,3)])
    show "?I (set_done (fst s), snd s)" if "?I s" for s by (rule fin[OF that])
    show "?I (s, fs)" using assms(1,2) by simp
  qed
  with assms(3) show ?thesis by simp
qed

end

text \<open>The states a read-only operation reaches on a complete device.\<close>

abbreviation readable_state :: "(nat \<Rightarrow> u8) \<Rightarrow> Ext4 \<Rightarrow> Ext4 \<Rightarrow> bool" where
  "readable_state disk fs0 fs \<equiv> good disk fs0 fs \<and> device_complete fs0"

definition put_double :: "IndirectBlockIter \<Rightarrow> IndirectBlockIter option \<Rightarrow> DoubleIndirectBlockIter \<Rightarrow> DoubleIndirectBlockIter" where
  "put_double i d s = s\<lparr>db_indirect_0 := i, db_indirect_1 := d\<rparr>"

interpretation double: index_level "readable_state disk fs0" IndirectBlockIter_next IndirectBlockIter_new ib_ok ib_rest
    "indirect_out disk fs0" DoubleIndirectBlockIter_next_impl db_is_done "\<lambda>s. s\<lparr>db_is_done := True\<rparr>"
    db_indirect_0 db_indirect_1 put_double
  for disk fs0
proof unfold_locales
  show "outputs IndirectBlockIter_next (d, fs) (ib_rest d)" if "ib_ok d" for d and fs :: Ext4
    by (rule Indirect_outputs[OF that])
  show "ib_ok d' \<and> readable_state disk fs0 fs'"
    if "ib_ok d" "readable_state disk fs0 fs" "IndirectBlockIter_next (d, fs) = (r, (d', fs'))" for d fs r d' fs'
    using Indirect_keeps[OF that(1,3)] that(2) by simp
  show "(\<exists>d fs'. IndirectBlockIter_new b fs = (Ok d, fs') \<and> readable_state disk fs0 fs' \<and> ib_ok d \<and>
            ib_rest d = indirect_out disk fs0 b) \<or>
        (\<exists>e fs'. IndirectBlockIter_new b fs = (Err e, fs') \<and> readable_state disk fs0 fs' \<and>
            indirect_out disk fs0 b = ([], Some e))" if "readable_state disk fs0 fs" for b fs
    using Indirect_new_cases[of disk fs0 fs b] that by blast
qed (auto simp: put_double_def DoubleIndirectBlockIter_next_impl_def comp_defs on_some_def)

definition double_rest :: "(nat \<Rightarrow> u8) \<Rightarrow> Ext4 \<Rightarrow> DoubleIndirectBlockIter \<Rightarrow> (u32, Ext4Error) out_seq" where
  "double_rest disk fs0 d = (if db_is_done d then ([], None) else double.level_rest disk fs0 d)"

abbreviation double_ok :: "DoubleIndirectBlockIter \<Rightarrow> bool" where
  "double_ok d \<equiv> double.level_ok d"

lemma Double_outputs:
  assumes "double_ok d" and "readable_state disk fs0 fs"
  shows "outputs DoubleIndirectBlockIter_next (d, fs) (double_rest disk fs0 d)"
proof (cases "db_is_done d")
  case True
  then show ?thesis unfolding DoubleIndirectBlockIter_next_def double_rest_def by (simp add: outputs_done)
next
  case False
  with double.level_outputs[OF assms] show ?thesis
    unfolding DoubleIndirectBlockIter_next_def double_rest_def by simp
qed

lemma Double_keeps:
  assumes "double_ok d" and "readable_state disk fs0 fs"
    and "DoubleIndirectBlockIter_next (d, fs) = (r, (d', fs'))"
  shows "double_ok d' \<and> readable_state disk fs0 fs'"
  using double.level_keeps[OF assms(1,2)] assms(3) unfolding DoubleIndirectBlockIter_next_def by blast

lemma Double_new_cases:
  assumes "readable_state disk fs0 fs"
  shows "(\<exists>d fs'. DoubleIndirectBlockIter_new b fs = (Ok d, fs') \<and> readable_state disk fs0 fs' \<and> double_ok d \<and>
            double_rest disk fs0 d = double_out disk fs0 b) \<or>
         (\<exists>e fs'. DoubleIndirectBlockIter_new b fs = (Err e, fs') \<and> readable_state disk fs0 fs' \<and>
            double_out disk fs0 b = ([], Some e))"
proof -
  have "good disk fs0 fs" "device_complete fs0" using assms by auto
  from Indirect_new_cases[OF this, of b] show ?thesis
  proof (elim disjE exE conjE)
    fix it fs' assume it: "IndirectBlockIter_new b fs = (Ok it, fs')" "good disk fs0 fs'" "ib_ok it"
      "ib_rest it = indirect_out disk fs0 b"
    let ?x = "\<lparr>db_indirect_0 = it, db_indirect_1 = None, db_is_done = False\<rparr>"
    have "double_rest disk fs0 ?x = double_out disk fs0 b"
      using it(4) by (simp add: double_rest_def double_out_def index_out_def double.level_rest_def flip: it(4))
        (simp add: ib_rest_def)
    moreover have "double_ok ?x" using it(3) by (simp add: double.level_ok_def)
    moreover have "DoubleIndirectBlockIter_new b fs = (Ok ?x, fs')"
      using it(1) by (simp add: DoubleIndirectBlockIter_new_def comp_defs)
    ultimately show ?thesis using it(2) assms by blast
  next
    fix e fs' assume "IndirectBlockIter_new b fs = (Err e, fs')" "good disk fs0 fs'"
      "indirect_out disk fs0 b = ([], Some e)"
    then have "DoubleIndirectBlockIter_new b fs = (Err e, fs')" "double_out disk fs0 b = ([], Some e)"
      by (simp_all add: DoubleIndirectBlockIter_new_def comp_defs double_out_def index_out_def)
    with \<open>good disk fs0 fs'\<close> assms show ?thesis by blast
  qed
qed

definition put_triple :: "IndirectBlockIter \<Rightarrow> DoubleIndirectBlockIter option \<Rightarrow> TripleIndirectBlockIter \<Rightarrow> TripleIndirectBlockIter" where
  "put_triple i d s = s\<lparr>tb_indirect_0 := i, tb_indirect_1 := d\<rparr>"

interpretation triple: index_level "readable_state disk fs0" DoubleIndirectBlockIter_next DoubleIndirectBlockIter_new
    double_ok "double_rest disk fs0" "double_out disk fs0" TripleIndirectBlockIter_next_impl tb_is_done
    "\<lambda>s. s\<lparr>tb_is_done := True\<rparr>" tb_indirect_0 tb_indirect_1 put_triple
  for disk fs0
proof unfold_locales
  show "outputs DoubleIndirectBlockIter_next (d, fs) (double_rest disk fs0 d)"
    if "double_ok d" "readable_state disk fs0 fs" for d fs by (rule Double_outputs[OF that])
  show "double_ok d' \<and> readable_state disk fs0 fs'"
    if "double_ok d" "readable_state disk fs0 fs" "DoubleIndirectBlockIter_next (d, fs) = (r, (d', fs'))" for d fs r d' fs'
    by (rule Double_keeps[OF that])
  show "(\<exists>d fs'. DoubleIndirectBlockIter_new b fs = (Ok d, fs') \<and> readable_state disk fs0 fs' \<and> double_ok d \<and>
            double_rest disk fs0 d = double_out disk fs0 b) \<or>
         (\<exists>e fs'. DoubleIndirectBlockIter_new b fs = (Err e, fs') \<and> readable_state disk fs0 fs' \<and>
            double_out disk fs0 b = ([], Some e))" if "readable_state disk fs0 fs" for b fs
    by (rule Double_new_cases[OF that])
qed (auto simp: put_triple_def TripleIndirectBlockIter_next_impl_def comp_defs on_some_def)

definition triple_rest :: "(nat \<Rightarrow> u8) \<Rightarrow> Ext4 \<Rightarrow> TripleIndirectBlockIter \<Rightarrow> (u32, Ext4Error) out_seq" where
  "triple_rest disk fs0 t = (if tb_is_done t then ([], None) else triple.level_rest disk fs0 t)"

abbreviation triple_ok :: "TripleIndirectBlockIter \<Rightarrow> bool" where
  "triple_ok t \<equiv> triple.level_ok t"

lemma Triple_outputs:
  assumes "triple_ok t" and "readable_state disk fs0 fs"
  shows "outputs TripleIndirectBlockIter_next (t, fs) (triple_rest disk fs0 t)"
proof (cases "tb_is_done t")
  case True
  then show ?thesis unfolding TripleIndirectBlockIter_next_def triple_rest_def by (simp add: outputs_done)
next
  case False
  with triple.level_outputs[OF assms] show ?thesis
    unfolding TripleIndirectBlockIter_next_def triple_rest_def by simp
qed

lemma Triple_keeps:
  assumes "triple_ok t" and "readable_state disk fs0 fs"
    and "TripleIndirectBlockIter_next (t, fs) = (r, (t', fs'))"
  shows "triple_ok t' \<and> readable_state disk fs0 fs'"
  using triple.level_keeps[OF assms(1,2)] assms(3) unfolding TripleIndirectBlockIter_next_def by blast

lemma Triple_new_cases:
  assumes "readable_state disk fs0 fs"
  shows "(\<exists>t fs'. TripleIndirectBlockIter_new b fs = (Ok t, fs') \<and> readable_state disk fs0 fs' \<and> triple_ok t \<and>
            triple_rest disk fs0 t = triple_out disk fs0 b) \<or>
         (\<exists>e fs'. TripleIndirectBlockIter_new b fs = (Err e, fs') \<and> readable_state disk fs0 fs' \<and>
            triple_out disk fs0 b = ([], Some e))"
proof -
  have "good disk fs0 fs" "device_complete fs0" using assms by auto
  from Indirect_new_cases[OF this, of b] show ?thesis
  proof (elim disjE exE conjE)
    fix it fs' assume it: "IndirectBlockIter_new b fs = (Ok it, fs')" "good disk fs0 fs'" "ib_ok it"
      "ib_rest it = indirect_out disk fs0 b"
    let ?x = "\<lparr>tb_indirect_0 = it, tb_indirect_1 = None, tb_is_done = False\<rparr>"
    have "triple_rest disk fs0 ?x = triple_out disk fs0 b"
      using it(4) by (simp add: triple_rest_def triple_out_def index_out_def triple.level_rest_def flip: it(4))
        (simp add: ib_rest_def)
    moreover have "triple_ok ?x" using it(3) by (simp add: triple.level_ok_def)
    moreover have "TripleIndirectBlockIter_new b fs = (Ok ?x, fs')"
      using it(1) by (simp add: TripleIndirectBlockIter_new_def comp_defs)
    ultimately show ?thesis using it(2) assms by blast
  next
    fix e fs' assume "IndirectBlockIter_new b fs = (Err e, fs')" "good disk fs0 fs'"
      "indirect_out disk fs0 b = ([], Some e)"
    then have "TripleIndirectBlockIter_new b fs = (Err e, fs')" "triple_out disk fs0 b = ([], Some e)"
      by (simp_all add: TripleIndirectBlockIter_new_def comp_defs triple_out_def index_out_def)
    with \<open>good disk fs0 fs'\<close> assms show ?thesis by blast
  qed
qed

section \<open>The whole map\<close>

lemma inner_cases [consumes 1]:
  assumes "outputs nxt (d, fs) out"
  obtains (item) x d' fs' xs r where "out = (x # xs, r)" "nxt (d, fs) = (Ok (Some x), (d', fs'))"
      "outputs nxt (d', fs') (xs, r)"
  | (finished) d' fs' where "out = ([], None)" "nxt (d, fs) = (Ok None, (d', fs'))"
  | (error) e d' fs' where "out = ([], Some e)" "nxt (d, fs) = (Err e, (d', fs'))"
proof -
  obtain xs r where out: "out = (xs, r)" by fastforce
  show ?thesis
  proof (cases xs)
    case (Cons x ys)
    with assms out item show ?thesis by (metis outputs_ConsD surj_pair)
  next
    case Nil
    with assms out finished error show ?thesis
      by (cases r) (metis outputs_endD surj_pair, metis outputs_errD surj_pair)
  qed
qed

lemma out_append_end: "out_append a ([], None) = a"
  by (cases a) (simp add: out_append_def split: option.split)

definition bm_ok :: "BlockMap \<Rightarrow> bool" where
  "bm_ok bm \<longleftrightarrow> length (bm_level_0 bm) = 15 \<and> bm_level_0_index bm \<le> 15 \<and>
     (\<forall>it. bm_level_1 bm = Some it \<longrightarrow> ib_ok it) \<and> (\<forall>d. bm_level_2 bm = Some d \<longrightarrow> double_ok d) \<and>
     (\<forall>t. bm_level_3 bm = Some t \<longrightarrow> triple_ok t)"

text \<open>What the three indirect entries of the root, opened or not, have still to contribute.\<close>

definition rest_1 :: "(nat \<Rightarrow> u8) \<Rightarrow> Ext4 \<Rightarrow> BlockMap \<Rightarrow> (u32, Ext4Error) out_seq" where
  "rest_1 disk fs0 bm = (case bm_level_1 bm of None \<Rightarrow> indirect_out disk fs0 (bm_level_0 bm ! 12) | Some it \<Rightarrow> ib_rest it)"

definition rest_2 :: "(nat \<Rightarrow> u8) \<Rightarrow> Ext4 \<Rightarrow> BlockMap \<Rightarrow> (u32, Ext4Error) out_seq" where
  "rest_2 disk fs0 bm = (case bm_level_2 bm of None \<Rightarrow> double_out disk fs0 (bm_level_0 bm ! 13) | Some d \<Rightarrow> double_rest disk fs0 d)"

definition rest_3 :: "(nat \<Rightarrow> u8) \<Rightarrow> Ext4 \<Rightarrow> BlockMap \<Rightarrow> (u32, Ext4Error) out_seq" where
  "rest_3 disk fs0 bm = (case bm_level_3 bm of None \<Rightarrow> triple_out disk fs0 (bm_level_0 bm ! 14) | Some t \<Rightarrow> triple_rest disk fs0 t)"

definition bm_rest :: "(nat \<Rightarrow> u8) \<Rightarrow> Ext4 \<Rightarrow> BlockMap \<Rightarrow> (u32, Ext4Error) out_seq" where
  "bm_rest disk fs0 bm =
     (let i = bm_level_0_index bm in
      if i \<le> 12 then out_append (drop i (take 12 (bm_level_0 bm)), None)
        (out_append (rest_1 disk fs0 bm) (out_append (rest_2 disk fs0 bm) (rest_3 disk fs0 bm)))
      else if i = 13 then out_append (rest_2 disk fs0 bm) (rest_3 disk fs0 bm)
      else if i = 14 then rest_3 disk fs0 bm
      else ([], None))"

text \<open>The indirect entries that have not been opened.\<close>

definition bm_unopened :: "BlockMap \<Rightarrow> nat" where
  "bm_unopened bm = length (filter id [bm_level_1 bm = None, bm_level_2 bm = None, bm_level_3 bm = None])"

text \<open>The four ways a step goes on.\<close>

inductive bm_step :: "(nat \<Rightarrow> u8) \<Rightarrow> Ext4 \<Rightarrow> BlockMap \<Rightarrow> Ext4 \<Rightarrow> bool" for disk fs0 bm fs where
  bm_item: "BlockMap_next_impl (bm, fs) = (Ok (Some (ucast x)), (bm', fs')) \<Longrightarrow>
     bm_rest disk fs0 bm = (x # fst (bm_rest disk fs0 bm'), snd (bm_rest disk fs0 bm')) \<Longrightarrow>
     bm_num_blocks_yielded bm' = bm_num_blocks_yielded bm + 1 \<Longrightarrow>
     bm_num_blocks_total bm' = bm_num_blocks_total bm \<Longrightarrow> bm_is_done bm' = bm_is_done bm \<Longrightarrow>
     bm_ok bm' \<Longrightarrow> readable_state disk fs0 fs' \<Longrightarrow> bm_step disk fs0 bm fs"
| bm_more: "BlockMap_next_impl (bm, fs) = (Ok None, (bm', fs')) \<Longrightarrow>
     bm_rest disk fs0 bm' = bm_rest disk fs0 bm \<Longrightarrow>
     bm_num_blocks_yielded bm' = bm_num_blocks_yielded bm \<Longrightarrow>
     bm_num_blocks_total bm' = bm_num_blocks_total bm \<Longrightarrow> bm_is_done bm' = bm_is_done bm \<Longrightarrow>
     bm_ok bm' \<Longrightarrow> readable_state disk fs0 fs' \<Longrightarrow>
     bm_level_0_index bm < bm_level_0_index bm' \<or>
     bm_level_0_index bm' = bm_level_0_index bm \<and> bm_unopened bm' < bm_unopened bm \<Longrightarrow>
     bm_step disk fs0 bm fs"
| bm_finished: "BlockMap_next_impl (bm, fs) = (Ok None, (bm', fs')) \<Longrightarrow> bm_is_done bm' \<Longrightarrow>
     bm_rest disk fs0 bm = ([], None) \<Longrightarrow> bm_ok bm' \<Longrightarrow> readable_state disk fs0 fs' \<Longrightarrow> bm_step disk fs0 bm fs"
| bm_error: "BlockMap_next_impl (bm, fs) = (Err e, (bm', fs')) \<Longrightarrow>
     bm_rest disk fs0 bm = ([], Some e) \<Longrightarrow> bm_ok bm' \<Longrightarrow> readable_state disk fs0 fs' \<Longrightarrow> bm_step disk fs0 bm fs"

lemma bm_word_succ:
  fixes a b :: u32 assumes "a < b"
  shows "checked_add a 1 = Some (a + 1)" "unat (a + 1) = unat a + 1"
proof -
  have "unat a + 1 < 2 ^ 32"
    using assms unat_less_bound[of b] unfolding word_less_nat_alt by simp
  then show "checked_add a 1 = Some (a + 1)" "unat (a + 1) = unat a + 1"
    by (simp_all add: checked_add_def unat_word_ariths)
qed

lemma bm_step_direct:
  assumes ok: "bm_ok bm" and st: "readable_state disk fs0 fs"
    and lt: "bm_num_blocks_yielded bm < bm_num_blocks_total bm" and i: "bm_level_0_index bm \<le> 11"
  shows "bm_step disk fs0 bm fs"
proof (rule bm_item)
  let ?i = "bm_level_0_index bm" and ?l = "bm_level_0 bm"
  let ?bm = "bm\<lparr>bm_level_0_index := ?i + 1, bm_num_blocks_yielded := bm_num_blocks_yielded bm + 1\<rparr>"
  have l: "length ?l = 15" using ok by (simp add: bm_ok_def)
  show "BlockMap_next_impl (bm, fs) = (Ok (Some (ucast (?l ! ?i))), (?bm, fs))"
    using l i lt bm_word_succ(1)[OF lt]
    by (simp add: BlockMap_next_impl_def BlockMap_increment_num_blocks_yielded_def comp_defs get_at_def
        usize_add_def usize_max_def not_le)
  have "drop ?i (take 12 ?l) = ?l ! ?i # drop (?i + 1) (take 12 ?l)"
    using l i by (subst Cons_nth_drop_Suc[symmetric]) simp_all
  moreover have "rest_1 disk fs0 ?bm = rest_1 disk fs0 bm" "rest_2 disk fs0 ?bm = rest_2 disk fs0 bm"
    "rest_3 disk fs0 ?bm = rest_3 disk fs0 bm" by (simp_all add: rest_1_def rest_2_def rest_3_def split: option.split)
  ultimately show "bm_rest disk fs0 bm = (?l ! ?i # fst (bm_rest disk fs0 ?bm), snd (bm_rest disk fs0 ?bm))"
    using i by (simp add: bm_rest_def Let_def)
  show "bm_ok ?bm" using ok i by (simp add: bm_ok_def)
qed (use st in simp_all)

lemma bm_step_end:
  assumes "bm_ok bm" and "readable_state disk fs0 fs" and "bm_level_0_index bm = 15"
    and "bm_num_blocks_yielded bm < bm_num_blocks_total bm"
  shows "bm_step disk fs0 bm fs"
  by (rule bm_finished[where bm' = "bm\<lparr>bm_is_done := True\<rparr>" and fs' = fs])
     (use assms in \<open>simp_all add: BlockMap_next_impl_def comp_defs bm_ok_def get_at_def bm_rest_def\<close>)

text \<open>
  One indirect entry of the root: the iterator \<open>nxt\<close> behind it, opened by \<open>new\<close>, and the field of the
  map that holds it once it is open. The three entries are handled by the same code, written three
  times; what follows for one of them is proved once.
\<close>

locale map_level =
  fixes disk :: "nat \<Rightarrow> u8" and fs0 :: Ext4
    and idx :: nat
    and get :: "BlockMap \<Rightarrow> 'd option" and put :: "'d option \<Rightarrow> BlockMap \<Rightarrow> BlockMap"
    and nxt :: "('d \<times> Ext4, u32 option, Ext4Error) comp" and new :: "u32 \<Rightarrow> 'd fs_op"
    and lev_ok :: "'d \<Rightarrow> bool" and lev_rest :: "'d \<Rightarrow> (u32, Ext4Error) out_seq"
    and lev_out :: "u32 \<Rightarrow> (u32, Ext4Error) out_seq" and tail :: "BlockMap \<Rightarrow> (u32, Ext4Error) out_seq"
  assumes idx: "12 \<le> idx" "idx \<le> 14"
    and put_sel: "bm_level_0_index (put od bm) = bm_level_0_index bm"
      "bm_num_blocks_yielded (put od bm) = bm_num_blocks_yielded bm"
      "bm_num_blocks_total (put od bm) = bm_num_blocks_total bm" "bm_is_done (put od bm) = bm_is_done bm"
    and put_unopened: "get bm = None \<Longrightarrow> bm_unopened (put (Some d) bm) < bm_unopened bm"
    and put_ok: "bm_ok bm \<Longrightarrow> bm_level_0_index bm = idx \<Longrightarrow> bm_ok (put None bm\<lparr>bm_level_0_index := idx + 1\<rparr>)"
      "bm_ok bm \<Longrightarrow> lev_ok d \<Longrightarrow> bm_ok (put (Some d) bm)"
      "bm_ok bm \<Longrightarrow> lev_ok d \<Longrightarrow> bm_ok (put (Some d) bm\<lparr>bm_num_blocks_yielded := n\<rparr>)"
    and get_ok: "bm_ok bm \<Longrightarrow> get bm = Some d \<Longrightarrow> lev_ok d"
    and rest_unopened: "bm_level_0_index bm = idx \<Longrightarrow> get bm = None \<Longrightarrow>
      bm_rest disk fs0 bm = out_append (lev_out (bm_level_0 bm ! idx)) (tail bm)"
    and rest_opened: "bm_level_0_index bm = idx \<Longrightarrow> get bm = Some d \<Longrightarrow>
      bm_rest disk fs0 bm = out_append (lev_rest d) (tail bm)"
    and rest_put: "bm_level_0_index bm = idx \<Longrightarrow> bm_rest disk fs0 (put (Some d) bm) = out_append (lev_rest d) (tail bm)"
      "bm_level_0_index bm = idx \<Longrightarrow>
       bm_rest disk fs0 (put (Some d) bm\<lparr>bm_num_blocks_yielded := n\<rparr>) = out_append (lev_rest d) (tail bm)"
      "bm_rest disk fs0 (put None bm\<lparr>bm_level_0_index := idx + 1\<rparr>) = tail bm"
    and nxt_outputs: "lev_ok d \<Longrightarrow> readable_state disk fs0 fs \<Longrightarrow> outputs nxt (d, fs) (lev_rest d)"
    and nxt_keeps: "lev_ok d \<Longrightarrow> readable_state disk fs0 fs \<Longrightarrow> nxt (d, fs) = (r, (d', fs')) \<Longrightarrow>
      lev_ok d' \<and> readable_state disk fs0 fs'"
    and new_cases: "readable_state disk fs0 fs \<Longrightarrow>
      (\<exists>d fs'. new b fs = (Ok d, fs') \<and> readable_state disk fs0 fs' \<and> lev_ok d \<and> lev_rest d = lev_out b) \<or>
      (\<exists>e fs'. new b fs = (Err e, fs') \<and> readable_state disk fs0 fs' \<and> lev_out b = ([], Some e))"
    and impl_opened: "bm_num_blocks_yielded bm < bm_num_blocks_total bm \<Longrightarrow> length (bm_level_0 bm) = 15 \<Longrightarrow>
      bm_level_0_index bm = idx \<Longrightarrow> get bm = Some d \<Longrightarrow> nxt (d, fs) = (r, (d', fs')) \<Longrightarrow>
      BlockMap_next_impl (bm, fs) =
        (case r of
           Ok (Some x) \<Rightarrow> (Ok (Some (ucast x)), (put (Some d') bm\<lparr>bm_num_blocks_yielded := bm_num_blocks_yielded bm + 1\<rparr>, fs'))
         | Ok None \<Rightarrow> (Ok None, (put None bm\<lparr>bm_level_0_index := idx + 1\<rparr>, fs'))
         | Err e \<Rightarrow> (Err e, (put (Some d') bm, fs'))
         | Panic \<Rightarrow> (Panic, (put (Some d') bm, fs'))
         | Diverge \<Rightarrow> (Diverge, (put (Some d') bm, fs')))"
    and impl_unopened: "bm_num_blocks_yielded bm < bm_num_blocks_total bm \<Longrightarrow> length (bm_level_0 bm) = 15 \<Longrightarrow>
      bm_level_0_index bm = idx \<Longrightarrow> get bm = None \<Longrightarrow> new (bm_level_0 bm ! idx) fs = (q, fs') \<Longrightarrow>
      BlockMap_next_impl (bm, fs) =
        (case q of
           Ok d \<Rightarrow> (Ok None, (put (Some d) bm, fs'))
         | Err e \<Rightarrow> (Err e, (bm, fs'))
         | Panic \<Rightarrow> (Panic, (bm, fs'))
         | Diverge \<Rightarrow> (Diverge, (bm, fs')))"
begin

lemma step:
  assumes ok: "bm_ok bm" and st: "readable_state disk fs0 fs"
    and lt: "bm_num_blocks_yielded bm < bm_num_blocks_total bm" and i: "bm_level_0_index bm = idx"
  shows "bm_step disk fs0 bm fs"
proof (cases "get bm")
  case None
  have l: "length (bm_level_0 bm) = 15" using ok by (simp add: bm_ok_def)
  note impl = impl_unopened[OF lt l i None]
  from new_cases[OF st, of "bm_level_0 bm ! idx"] show ?thesis
  proof (elim disjE exE conjE)
    fix d fs' assume n: "new (bm_level_0 bm ! idx) fs = (Ok d, fs')" "good disk fs0 fs'" "device_complete fs0" "lev_ok d"
      "lev_rest d = lev_out (bm_level_0 bm ! idx)"
    show ?thesis
      by (rule bm_more[where bm' = "put (Some d) bm" and fs' = fs'])
         (use impl[OF n(1)] n put_ok(2)[OF ok] rest_put(1)[OF i] rest_unopened[OF i None] put_unopened[OF None]
           in \<open>simp_all add: put_sel\<close>)
  next
    fix e fs' assume n: "new (bm_level_0 bm ! idx) fs = (Err e, fs')" "good disk fs0 fs'" "device_complete fs0"
      "lev_out (bm_level_0 bm ! idx) = ([], Some e)"
    show ?thesis
      by (rule bm_error[where bm' = bm and fs' = fs']) (use impl[OF n(1)] n ok rest_unopened[OF i None] in simp_all)
  qed
next
  case (Some d)
  have l: "length (bm_level_0 bm) = 15" using ok by (simp add: bm_ok_def)
  note impl = impl_opened[OF lt l i Some]
  note d = get_ok[OF ok Some]
  note keeps = nxt_keeps[OF d st]
  from nxt_outputs[OF d st] show ?thesis
  proof (cases rule: inner_cases)
    case (item x d' fs' xs r)
    note k = keeps[OF item(2)]
    then have rest': "lev_rest d' = (xs, r)" using nxt_outputs[of d' fs'] outputs_det[OF item(3)] by metis
    show ?thesis
      by (rule bm_item[where bm' = "put (Some d') bm\<lparr>bm_num_blocks_yielded := bm_num_blocks_yielded bm + 1\<rparr>" and fs' = fs' and x = x])
         (use impl[OF item(2)] k rest' item(1) put_ok(3)[OF ok] rest_put(2)[OF i] rest_opened[OF i Some]
           in \<open>simp_all add: put_sel\<close>)
  next
    case (finished d' fs')
    show ?thesis
      by (rule bm_more[where bm' = "put None bm\<lparr>bm_level_0_index := idx + 1\<rparr>" and fs' = fs'])
         (use impl[OF finished(2)] keeps[OF finished(2)] finished(1) put_ok(1)[OF ok i] rest_put(3)
           rest_opened[OF i Some] i in \<open>simp_all add: put_sel\<close>)
  next
    case (error e d' fs')
    show ?thesis
      by (rule bm_error[where bm' = "put (Some d') bm" and fs' = fs'])
         (use impl[OF error(2)] keeps[OF error(2)] error(1) put_ok(2)[OF ok] rest_opened[OF i Some] in simp_all)
  qed
qed

end

lemmas map_level_simps = bm_ok_def bm_rest_def rest_1_def rest_2_def rest_3_def bm_unopened_def

lemmas map_level_eval = BlockMap_next_impl_def BlockMap_increment_num_blocks_yielded_def comp_defs get_at_def
  on_some_def on_field_def

interpretation level_1: map_level disk fs0 12 bm_level_1 "\<lambda>d bm. bm\<lparr>bm_level_1 := d\<rparr>" IndirectBlockIter_next
    IndirectBlockIter_new ib_ok ib_rest "indirect_out disk fs0"
    "\<lambda>bm. out_append (rest_2 disk fs0 bm) (rest_3 disk fs0 bm)"
  for disk fs0
proof unfold_locales
  show "outputs IndirectBlockIter_next (d, fs) (ib_rest d)" if "ib_ok d" for d and fs :: Ext4
    by (rule Indirect_outputs[OF that])
  show "ib_ok d' \<and> readable_state disk fs0 fs'"
    if "ib_ok d" "readable_state disk fs0 fs" "IndirectBlockIter_next (d, fs) = (r, (d', fs'))" for d fs r d' fs'
    using Indirect_keeps[OF that(1,3)] that(2) by simp
  show "(\<exists>d fs'. IndirectBlockIter_new b fs = (Ok d, fs') \<and> readable_state disk fs0 fs' \<and> ib_ok d \<and>
            ib_rest d = indirect_out disk fs0 b) \<or>
        (\<exists>e fs'. IndirectBlockIter_new b fs = (Err e, fs') \<and> readable_state disk fs0 fs' \<and>
            indirect_out disk fs0 b = ([], Some e))" if "readable_state disk fs0 fs" for b fs
    using Indirect_new_cases[of disk fs0 fs b] that by blast
qed (auto simp: map_level_simps map_level_eval bm_word_succ split: outcome.split option.split)

interpretation level_2: map_level disk fs0 13 bm_level_2 "\<lambda>d bm. bm\<lparr>bm_level_2 := d\<rparr>" DoubleIndirectBlockIter_next
    DoubleIndirectBlockIter_new double_ok "double_rest disk fs0" "double_out disk fs0" "\<lambda>bm. rest_3 disk fs0 bm"
  for disk fs0
proof unfold_locales
  show "outputs DoubleIndirectBlockIter_next (d, fs) (double_rest disk fs0 d)"
    if "double_ok d" "readable_state disk fs0 fs" for d fs by (rule Double_outputs[OF that])
  show "double_ok d' \<and> readable_state disk fs0 fs'"
    if "double_ok d" "readable_state disk fs0 fs" "DoubleIndirectBlockIter_next (d, fs) = (r, (d', fs'))" for d fs r d' fs'
    by (rule Double_keeps[OF that])
  show "(\<exists>d fs'. DoubleIndirectBlockIter_new b fs = (Ok d, fs') \<and> readable_state disk fs0 fs' \<and> double_ok d \<and>
            double_rest disk fs0 d = double_out disk fs0 b) \<or>
         (\<exists>e fs'. DoubleIndirectBlockIter_new b fs = (Err e, fs') \<and> readable_state disk fs0 fs' \<and>
            double_out disk fs0 b = ([], Some e))" if "readable_state disk fs0 fs" for b fs
    by (rule Double_new_cases[OF that])
qed (auto simp: map_level_simps map_level_eval bm_word_succ split: outcome.split option.split)

interpretation level_3: map_level disk fs0 14 bm_level_3 "\<lambda>d bm. bm\<lparr>bm_level_3 := d\<rparr>" TripleIndirectBlockIter_next
    TripleIndirectBlockIter_new triple_ok "triple_rest disk fs0" "triple_out disk fs0" "\<lambda>bm. ([], None)"
  for disk fs0
proof unfold_locales
  show "outputs TripleIndirectBlockIter_next (d, fs) (triple_rest disk fs0 d)"
    if "triple_ok d" "readable_state disk fs0 fs" for d fs by (rule Triple_outputs[OF that])
  show "triple_ok d' \<and> readable_state disk fs0 fs'"
    if "triple_ok d" "readable_state disk fs0 fs" "TripleIndirectBlockIter_next (d, fs) = (r, (d', fs'))" for d fs r d' fs'
    by (rule Triple_keeps[OF that])
  show "(\<exists>d fs'. TripleIndirectBlockIter_new b fs = (Ok d, fs') \<and> readable_state disk fs0 fs' \<and> triple_ok d \<and>
            triple_rest disk fs0 d = triple_out disk fs0 b) \<or>
         (\<exists>e fs'. TripleIndirectBlockIter_new b fs = (Err e, fs') \<and> readable_state disk fs0 fs' \<and>
            triple_out disk fs0 b = ([], Some e))" if "readable_state disk fs0 fs" for b fs
    by (rule Triple_new_cases[OF that])
qed (auto simp: map_level_simps map_level_eval bm_word_succ out_append_end split: outcome.split option.split)

text \<open>Every step that is not cut off by the number of blocks.\<close>

lemma bm_steps:
  assumes "bm_ok bm" and "readable_state disk fs0 fs" and "bm_num_blocks_yielded bm < bm_num_blocks_total bm"
  shows "bm_step disk fs0 bm fs"
proof -
  have "bm_level_0_index bm \<le> 11 \<or> bm_level_0_index bm = 12 \<or> bm_level_0_index bm = 13 \<or>
      bm_level_0_index bm = 14 \<or> bm_level_0_index bm = 15"
    using assms(1) by (auto simp: bm_ok_def)
  with assms show ?thesis
    by (blast intro: bm_step_direct bm_step_end level_1.step level_2.step level_3.step)
qed

lemma bm_step_cut:
  assumes "\<not> bm_num_blocks_yielded bm < bm_num_blocks_total bm"
  shows "BlockMap_next_impl (bm, fs) = (Ok None, (bm\<lparr>bm_is_done := True\<rparr>, fs))"
  using assms by (simp add: BlockMap_next_impl_def comp_defs not_less)

lemma bm_ok_done [simp]: "bm_ok (bm\<lparr>bm_is_done := True\<rparr>) = bm_ok bm"
  by (simp add: bm_ok_def)

interpretation map_iter: result_iter "\<lambda>s. bm_is_done (fst s)" "\<lambda>s. ((fst s)\<lparr>bm_is_done := True\<rparr>, snd s)"
    BlockMap_next_impl "\<lambda>s. bm_ok (fst s) \<and> readable_state disk fs0 (snd s)"
    "measures [\<lambda>s. if bm_is_done (fst s) then 0 else 1, \<lambda>s. 15 - bm_level_0_index (fst s), \<lambda>s. bm_unopened (fst s)]"
  for disk fs0
proof unfold_locales
  fix s s' :: "BlockMap \<times> Ext4" and r
  obtain bm fs bm' fs' where s: "s = (bm, fs)" "s' = (bm', fs')" by fastforce
  assume inv: "bm_ok (fst s) \<and> readable_state disk fs0 (snd s)" and "\<not> bm_is_done (fst s)"
  then have st: "bm_ok bm" "readable_state disk fs0 fs" "\<not> bm_is_done bm" by (auto simp: s)
  have both: "bm_ok bm' \<and> readable_state disk fs0 fs' \<and>
      (r = Ok None \<longrightarrow> (s', s) \<in> measures [\<lambda>s. if bm_is_done (fst s) then 0 else 1,
        \<lambda>s. 15 - bm_level_0_index (fst s), \<lambda>s. bm_unopened (fst s)])"
    if n: "BlockMap_next_impl s = (r, s')" for r
  proof (cases "bm_num_blocks_yielded bm < bm_num_blocks_total bm")
    case True
    from bm_steps[OF st(1,2) True] show ?thesis
      using n s st(3) by cases (auto simp: bm_ok_def)
  next
    case False
    with bm_step_cut[OF False, of fs] n s st show ?thesis by auto
  qed
  show "bm_ok (fst s') \<and> readable_state disk fs0 (snd s')" if "BlockMap_next_impl s = (r, s')"
    using both[OF that] s by simp
  show "(s', s) \<in> measures [\<lambda>s. if bm_is_done (fst s) then 0 else 1, \<lambda>s. 15 - bm_level_0_index (fst s), \<lambda>s. bm_unopened (fst s)]"
    if "BlockMap_next_impl s = (Ok None, s')" using both[OF that] by blast
qed auto

definition out_map :: "('a \<Rightarrow> 'b) \<Rightarrow> ('a, 'e) out_seq \<Rightarrow> ('b, 'e) out_seq" where
  "out_map f out = (map f (fst out), snd out)"

lemma BlockMap_next_outputs:
  assumes "\<not> bm_is_done bm"
  shows "BlockMap_next_impl (bm, fs) = (Ok None, s) \<Longrightarrow> outputs BlockMap_next s q \<Longrightarrow> outputs BlockMap_next (bm, fs) q"
    and "BlockMap_next_impl (bm, fs) = (Ok None, (bm', fs')) \<Longrightarrow> bm_is_done bm' \<Longrightarrow> outputs BlockMap_next (bm, fs) ([], None)"
    and "BlockMap_next_impl (bm, fs) = (Ok (Some x), s) \<Longrightarrow> outputs BlockMap_next s q \<Longrightarrow>
      outputs BlockMap_next (bm, fs) (x # fst q, snd q)"
    and "BlockMap_next_impl (bm, fs) = (Err e, s) \<Longrightarrow> outputs BlockMap_next (bm, fs) ([], Some e)"
  using assms unfolding BlockMap_next_def
  by (simp_all add: outputs_step outputs_item outputs_err outputs_done)

lemma BlockMap_outputs:
  assumes "bm_ok bm" and "readable_state disk fs0 fs" and "\<not> bm_is_done bm"
    and "bm_num_blocks_yielded bm \<le> bm_num_blocks_total bm"
  shows "outputs BlockMap_next (bm, fs)
     (out_map ucast (out_take (unat (bm_num_blocks_total bm) - unat (bm_num_blocks_yielded bm)) (bm_rest disk fs0 bm)))"
  using assms
proof (induction bm arbitrary: fs rule: wf_induct_rule[OF wf_measures[of
      "[\<lambda>bm. unat (bm_num_blocks_total bm) - unat (bm_num_blocks_yielded bm), \<lambda>bm. 15 - bm_level_0_index bm,
        bm_unopened]"]])
  case (1 bm)
  let ?n = "\<lambda>bm. unat (bm_num_blocks_total bm) - unat (bm_num_blocks_yielded bm)"
  let ?out = "\<lambda>bm. out_map ucast (out_take (?n bm) (bm_rest disk fs0 bm)) :: (FsBlockIndex, Ext4Error) out_seq"
  note nx = BlockMap_next_outputs[OF 1(4), of fs]
  show ?case
  proof (cases "bm_num_blocks_yielded bm < bm_num_blocks_total bm")
    case True
    then have pos: "0 < ?n bm" by (simp add: word_less_nat_alt)
    note succ = bm_word_succ(2)[OF True]
    from bm_steps[OF 1(2,3) True] show ?thesis
    proof cases
      case (bm_item x bm' fs')
      have n: "?n bm = Suc (?n bm')" using pos succ bm_item(3,4) by simp
      have "bm_num_blocks_yielded bm' \<le> bm_num_blocks_total bm'"
        using True succ bm_item(3,4) by (simp add: word_le_nat_alt word_less_nat_alt)
      then have "outputs BlockMap_next (bm', fs') (?out bm')"
        by (intro 1(1)) (use n bm_item 1(4) in auto)
      from nx(3)[OF bm_item(1) this] n bm_item(2) show ?thesis by (simp add: out_map_def)
    next
      case (bm_more bm' fs')
      have "outputs BlockMap_next (bm', fs') (?out bm')"
      proof (rule 1(1))
        show "(bm', bm) \<in> measures [?n, \<lambda>bm. 15 - bm_level_0_index bm, bm_unopened]"
          using bm_more(3,4,6,8) by (auto simp: bm_ok_def)
      qed (use bm_more 1(4,5) in auto)
      with nx(1)[OF bm_more(1)] bm_more show ?thesis by simp
    next
      case (bm_finished bm' fs')
      with nx(2)[OF bm_finished(1)] pos show ?thesis by (simp add: out_map_def)
    next
      case (bm_error e bm' fs')
      with nx(4)[OF bm_error(1)] pos show ?thesis by (simp add: out_map_def)
    qed
  next
    case False
    with 1(5) have "?n bm = 0" by (simp add: word_le_nat_alt word_less_nat_alt)
    with nx(2)[OF bm_step_cut[OF False]] show ?thesis by (simp add: out_map_def)
  qed
qed

text \<open>The fifteen entries of the root, in the inode.\<close>

definition map_root :: "Inode \<Rightarrow> u32 list" where
  "map_root inode = map (\<lambda>k. u32le_at (in_inline_data inode) (4 * k)) [0..<15]"

lemma read_level_0_eq:
  assumes "\<And>i. i \<in> set is \<Longrightarrow> 4 * i + 4 \<le> length bs" and "length bs \<le> usize_max"
  shows "read_level_0 bs is = Ok (map (\<lambda>k. u32le_at bs (4 * k)) is)"
  using assms
proof (induction "is")
  case (Cons i "is")
  have i: "4 * i + 4 \<le> length bs" by (rule Cons.prems(1)) simp
  have "read_level_0 bs is = Ok (map (\<lambda>k. u32le_at bs (4 * k)) is)"
    by (rule Cons.IH) (use Cons.prems in auto)
  with i Cons.prems(2) show ?case by (simp add: usize_mul_def mult.commute[of i])
qed simp

lemma BlockMap_new_eq:
  assumes "length (in_inline_data inode) = 60"
  shows "BlockMap_new inode = Ok \<lparr>bm_level_0 = map_root inode, bm_level_0_index = 0, bm_num_blocks_yielded = 0,
         bm_num_blocks_total = Inode_file_size_in_blocks inode, bm_level_1 = None, bm_level_2 = None,
         bm_level_3 = None, bm_is_done = False\<rparr>"
proof -
  have "read_level_0 (in_inline_data inode) [0..<15] = Ok (map_root inode)"
    unfolding map_root_def by (rule read_level_0_eq) (use assms in \<open>auto simp: usize_max_def\<close>)
  then show ?thesis by (simp add: BlockMap_new_def NUM_ENTRIES_def)
qed

lemma BlockMap_new_outputs:
  assumes "readable_state disk fs0 fs" and "length (in_inline_data inode) = 60"
  shows "\<exists>bm. BlockMap_new inode = Ok bm \<and> bm_ok bm \<and>
     outputs BlockMap_next (bm, fs)
       (out_map ucast (out_take (unat (Inode_file_size_in_blocks inode)) (map_out disk fs0 (map_root inode))))"
proof -
  let ?bm = "\<lparr>bm_level_0 = map_root inode, bm_level_0_index = 0, bm_num_blocks_yielded = 0,
         bm_num_blocks_total = Inode_file_size_in_blocks inode, bm_level_1 = None, bm_level_2 = None,
         bm_level_3 = None, bm_is_done = False\<rparr>"
  have ok: "bm_ok ?bm" by (simp add: bm_ok_def map_root_def del: upt_rec_numeral)
  have "bm_rest disk fs0 ?bm = map_out disk fs0 (map_root inode)"
    by (simp add: bm_rest_def map_out_def rest_1_def rest_2_def rest_3_def)
  with BlockMap_outputs[OF ok assms(1)] BlockMap_new_eq[OF assms(2)] ok show ?thesis by simp
qed

section \<open>Properties\<close>

text \<open>C29: On a device on which every block can be read, the iterator over a block map refines the map on
  the device: it yields the twelve direct blocks, then the numbers in the indirect block, then those
  behind the doubly and the triply indirect blocks, in order, cut after the number of blocks of the
  file; an index block that cannot be read is an error at its place, unless the file ends before.
  Every call returns.\<close>

theorem block_map_refines_index_tree:
  assumes "fs_ok disk fs" and "device_complete fs" and "inode_ok (fs_superblock fs) inode"
  shows "\<exists>bm. BlockMap_new inode = Ok bm \<and>
     outputs BlockMap_next (bm, fs)
       (out_map ucast (out_take (unat (Inode_file_size_in_blocks inode)) (map_out disk fs (map_root inode))))"
  using BlockMap_new_outputs[of disk fs fs inode] assms by (auto simp: good_refl inode_ok_def)

definition map_inode :: Inode where
  "map_inode = \<lparr>in_index = 13, in_inline_data = [9, 0, 0, 0, 8, 0, 0, 0] @ replicate 52 0,
     in_metadata = \<lparr>md_size_in_bytes = 2048, md_mode = 0x8000, md_file_type = Regular, md_uid = 0, md_gid = 0\<rparr>,
     in_flags = 0, in_checksum_base = Checksum_new, in_file_size_in_blocks = 2\<rparr>"

lemma map_root_numerals: "map_root inode = [u32le_at (in_inline_data inode) 0, u32le_at (in_inline_data inode) 4,
    u32le_at (in_inline_data inode) 8, u32le_at (in_inline_data inode) 12, u32le_at (in_inline_data inode) 16,
    u32le_at (in_inline_data inode) 20, u32le_at (in_inline_data inode) 24, u32le_at (in_inline_data inode) 28,
    u32le_at (in_inline_data inode) 32, u32le_at (in_inline_data inode) 36, u32le_at (in_inline_data inode) 40,
    u32le_at (in_inline_data inode) 44, u32le_at (in_inline_data inode) 48, u32le_at (in_inline_data inode) 52,
    u32le_at (in_inline_data inode) 56]"
  by (simp add: map_root_def upt_rec)

lemma out_take_append: "n \<le> length xs \<Longrightarrow> out_take n (out_append (xs, None) b) = (take n xs, None)"
  by (auto simp: out_take_def out_append_def)

lemma FileType_regular: "FileType_try_from 0x8000 = Ok Regular"
  by code_simp

theorem block_map_refines_index_tree_witness:
  "\<exists>bm. BlockMap_new map_inode = Ok bm \<and> outputs BlockMap_next (bm, sample_fs (replicate 16384 0)) ([9, 8], None)"
proof -
  have ok: "inode_ok (fs_superblock (sample_fs (replicate 16384 0))) map_inode"
    by (simp add: inode_ok_def map_inode_def sample_superblock_def div_ceil_def FileType_regular)
  have c: "length (replicate 16384 0 :: bytes) = 16384" by simp
  have "out_take 2 (map_out (disk_of (replicate 16384 0)) (sample_fs (replicate 16384 0)) (map_root map_inode)) = ([9, 8], None)"
    unfolding map_out_def
    by (subst out_take_append) (simp_all add: map_root_numerals map_inode_def u32le_at_nth)
  moreover have "unat (Inode_file_size_in_blocks map_inode) = 2"
    by (simp add: map_inode_def Inode_file_size_in_blocks_def)
  ultimately show ?thesis
    using block_map_refines_index_tree[OF sample_fs_ok sample_fs_complete[OF c] ok] by (simp add: out_map_def)
qed

text \<open>An indirect entry of the root that is zero, a hole of the file from block 12 on, is not treated
  as a hole: for a file of more than twelve blocks the iterator yields the direct blocks and then the
  error of a refused read of block 0.\<close>

theorem block_map_indirect_hole_is_an_error:
  assumes "fs_ok disk fs" and "device_complete fs" and "inode_ok (fs_superblock fs) inode"
    and "12 < unat (Inode_file_size_in_blocks inode)" and "map_root inode ! 12 = 0" and "mapped fs 0 = 0"
  shows "\<exists>bm. BlockMap_new inode = Ok bm \<and>
     outputs BlockMap_next (bm, fs)
       (map ucast (take 12 (map_root inode)), Some (read_error fs 0 0 (block_bytes fs)))"
proof -
  have "\<not> readable fs (mapped fs 0) 0 (block_bytes fs)" using assms(6) by (simp add: readable_def)
  then have "indirect_out disk fs 0 = ([], Some (read_error fs 0 0 (block_bytes fs)))"
    by (simp add: indirect_out_def block_read_spec_def)
  then have "map_out disk fs (map_root inode) = (take 12 (map_root inode), Some (read_error fs 0 0 (block_bytes fs)))"
    using assms(5) by (simp add: map_out_def out_append_def)
  moreover have "\<not> unat (Inode_file_size_in_blocks inode) \<le> length (take 12 (map_root inode))"
    using assms(4) by (simp add: map_root_def del: upt_rec_numeral)
  ultimately show ?thesis
    using BlockMap_new_outputs[of disk fs fs inode] assms(1-3)
    by (auto simp: good_refl inode_ok_def out_map_def out_take_def)
qed

definition hole_inode :: Inode where
  "hole_inode = \<lparr>in_index = 13, in_inline_data = replicate 60 0,
     in_metadata = \<lparr>md_size_in_bytes = 13312, md_mode = 0x8000, md_file_type = Regular, md_uid = 0, md_gid = 0\<rparr>,
     in_flags = 0, in_checksum_base = Checksum_new, in_file_size_in_blocks = 13\<rparr>"

theorem block_map_indirect_hole_is_an_error_witness:
  "\<exists>bm e. BlockMap_new hole_inode = Ok bm \<and>
     outputs BlockMap_next (bm, sample_fs (replicate 16384 0)) (replicate 12 0, Some e)"
proof -
  have c: "length (replicate 16384 0 :: bytes) = 16384" by simp
  have ok: "inode_ok (fs_superblock (sample_fs (replicate 16384 0))) hole_inode"
    by (simp add: inode_ok_def hole_inode_def sample_superblock_def div_ceil_def FileType_regular)
  have root: "map_root hole_inode = replicate 15 0"
    by (simp add: map_root_numerals hole_inode_def u32le_at_nth numeral_eq_Suc)
  have "unat (Inode_file_size_in_blocks hole_inode) = 13"
    by (simp add: hole_inode_def Inode_file_size_in_blocks_def)
  with block_map_indirect_hole_is_an_error[OF sample_fs_ok sample_fs_complete[OF c] ok] root
  show ?thesis by fastforce
qed

end
