(* ===== verification/File_Blocks.thy ===== *)
theory File_Blocks
  imports Extents_Blocks Block_Map
begin

text \<open>
  The iterator over the blocks of a file (\<^verbatim>\<open>src/src/iters/file_blocks.rs\<close>): an extent tree or a block
  map, whichever the inode's flags say.

  A reader of a file interleaves the steps of this iterator with reads of the blocks it yields. That
  is sound because the iterators do not see the cache: run in two states of the same file system, they
  do the same. The predicate \<open>blind\<close> says so for one computation, and its rules compose along the code.
\<close>

section \<open>The iterator\<close>

datatype FileBlocks = FB_ExtentsBlocks ExtentsBlocks | FB_BlockMap BlockMap

definition FileBlocks_new :: "Inode \<Rightarrow> FileBlocks result" where
  "FileBlocks_new inode =
     (if contains (in_flags inode) EXTENTS then
        bind_o (ExtentsBlocks_new inode) (\<lambda>it. Ok (FB_ExtentsBlocks it))
      else bind_o (BlockMap_new inode) (\<lambda>it. Ok (FB_BlockMap it)))"

definition FileBlocks_next :: "(FileBlocks \<times> Ext4, FsBlockIndex option, Ext4Error) comp" where
  "FileBlocks_next s =
     (case fst s of
        FB_ExtentsBlocks iter \<Rightarrow>
          (case ExtentsBlocks_next (iter, snd s) of (r, (iter', fs')) \<Rightarrow> (r, (FB_ExtentsBlocks iter', fs')))
      | FB_BlockMap iter \<Rightarrow>
          (case BlockMap_next (iter, snd s) of (r, (iter', fs')) \<Rightarrow> (r, (FB_BlockMap iter', fs'))))"

section \<open>Iterators do not see the cache\<close>

definition blind :: "(nat \<Rightarrow> u8) \<Rightarrow> Ext4 \<Rightarrow> ('s \<times> Ext4, 'a, 'e) comp \<Rightarrow> bool" where
  "blind disk fs0 m \<longleftrightarrow> (\<forall>it. \<exists>r it'. \<forall>fs. good disk fs0 fs \<longrightarrow>
     (\<exists>fs'. m (it, fs) = (r, (it', fs')) \<and> good disk fs0 fs'))"

named_theorems blind_intros \<open>computations that do not see the cache\<close>

lemma blindE:
  assumes "blind disk fs0 m"
  obtains r it' where "\<And>fs. good disk fs0 fs \<Longrightarrow> \<exists>fs'. m (it, fs) = (r, (it', fs')) \<and> good disk fs0 fs'"
  using assms unfolding blind_def by meson

lemma blind_lift [blind_intros]: "blind disk fs0 (lift r)"
  by (simp add: blind_def lift_def)

lemma blind_ret [blind_intros]: "blind disk fs0 (ret x)"
  by (simp add: blind_def ret_def)

lemma blind_modify_fst [blind_intros]: "blind disk fs0 (modify_fst f)"
  by (simp add: blind_def modify_fst_def)

lemma blind_gets_fst [blind_intros]: "blind disk fs0 (gets_fst f)"
  by (simp add: blind_def gets_fst_def)

lemma blind_bindc [blind_intros]:
  assumes m: "blind disk fs0 m" and f: "\<And>x. blind disk fs0 (f x)"
  shows "blind disk fs0 (bindc m f)"
  unfolding blind_def
proof
  fix it
  obtain r it' where 1: "\<And>fs. good disk fs0 fs \<Longrightarrow> \<exists>fs'. m (it, fs) = (r, (it', fs')) \<and> good disk fs0 fs'"
    using blindE[OF m, of it] by blast
  show "\<exists>r it'. \<forall>fs. good disk fs0 fs \<longrightarrow> (\<exists>fs'. bindc m f (it, fs) = (r, (it', fs')) \<and> good disk fs0 fs')"
  proof (cases r)
    case (Ok x)
    obtain q it2 where 2: "\<And>fs. good disk fs0 fs \<Longrightarrow> \<exists>fs'. f x (it', fs) = (q, (it2, fs')) \<and> good disk fs0 fs'"
      using blindE[OF f[of x], of it'] by blast
    have "\<exists>fs'. bindc m f (it, fs) = (q, (it2, fs')) \<and> good disk fs0 fs'" if "good disk fs0 fs" for fs
      using 1[OF that] 2 Ok by (fastforce simp: bindc_def)
    then show ?thesis by blast
  next
    case (Err e)
    have "\<exists>fs'. bindc m f (it, fs) = (Err e, (it', fs')) \<and> good disk fs0 fs'" if "good disk fs0 fs" for fs
      using 1[OF that] Err by (fastforce simp: bindc_def)
    then show ?thesis by blast
  next
    case Panic
    have "\<exists>fs'. bindc m f (it, fs) = (Panic, (it', fs')) \<and> good disk fs0 fs'" if "good disk fs0 fs" for fs
      using 1[OF that] Panic by (fastforce simp: bindc_def)
    then show ?thesis by blast
  next
    case Diverge
    have "\<exists>fs'. bindc m f (it, fs) = (Diverge, (it', fs')) \<and> good disk fs0 fs'" if "good disk fs0 fs" for fs
      using 1[OF that] Diverge by (fastforce simp: bindc_def)
    then show ?thesis by blast
  qed
qed

lemma blind_if [blind_intros]:
  "(b \<Longrightarrow> blind disk fs0 m) \<Longrightarrow> (\<not> b \<Longrightarrow> blind disk fs0 n) \<Longrightarrow> blind disk fs0 (if b then m else n)"
  by simp

lemma blind_let [blind_intros]: "(\<And>x. blind disk fs0 (f x)) \<Longrightarrow> blind disk fs0 (let x = v in f x)"
  by simp

lemma blind_case_option [blind_intros]:
  "blind disk fs0 m \<Longrightarrow> (\<And>x. blind disk fs0 (f x)) \<Longrightarrow> blind disk fs0 (case v of None \<Rightarrow> m | Some x \<Rightarrow> f x)"
  by (cases v) auto

lemma blind_on_field [blind_intros]:
  assumes "blind disk fs0 m"
  shows "blind disk fs0 (on_field get put m)"
  unfolding blind_def
proof
  fix it
  obtain r f where "\<And>fs. good disk fs0 fs \<Longrightarrow> \<exists>fs'. m (get it, fs) = (r, (f, fs')) \<and> good disk fs0 fs'"
    using blindE[OF assms, of "get it"] by blast
  then have "\<exists>fs'. on_field get put m (it, fs) = (r, (put f it, fs')) \<and> good disk fs0 fs'" if "good disk fs0 fs" for fs
    using that by (fastforce simp: on_field_def)
  then show "\<exists>r it'. \<forall>fs. good disk fs0 fs \<longrightarrow> (\<exists>fs'. on_field get put m (it, fs) = (r, (it', fs')) \<and> good disk fs0 fs')"
    by blast
qed

lemma blind_on_some [blind_intros]: "blind disk fs0 m \<Longrightarrow> blind disk fs0 (on_some get put m)"
  unfolding on_some_def by (rule blind_on_field)

text \<open>An operation on the file system whose result is computed from the device.\<close>

lemma blind_on_snd:
  assumes "\<And>fs. good disk fs0 fs \<Longrightarrow> computes disk fs0 fs m r"
  shows "blind disk fs0 (on_snd m :: ('s \<times> Ext4, 'a, Ext4Error) comp)"
proof -
  have "\<exists>fs'. on_snd m (it, fs) = (r, (it, fs')) \<and> good disk fs0 fs'" if g: "good disk fs0 fs" for it :: 's and fs
  proof -
    obtain fs' where "m fs = (r, fs')" "good disk fs0 fs'" using computesD[OF assms[OF g]] by blast
    then show ?thesis by (simp add: on_snd_def)
  qed
  then show ?thesis unfolding blind_def by blast
qed

lemma blind_same:
  assumes "blind disk fs0 m" and "good disk fs0 fs" and "good disk fs0 fs2" and "m (it, fs) = (r, (it', fs'))"
  shows "good disk fs0 fs' \<and> (\<exists>fs2'. m (it, fs2) = (r, (it', fs2')) \<and> good disk fs0 fs2')"
proof -
  obtain q i where "\<And>fs. good disk fs0 fs \<Longrightarrow> \<exists>fs'. m (it, fs) = (q, (i, fs')) \<and> good disk fs0 fs'"
    using blindE[OF assms(1), of it] by blast
  from this[OF assms(2)] this[OF assms(3)] assms(4) show ?thesis by auto
qed

text \<open>The loop of \<open>next\<close>.\<close>

lemma loop_blind:
  fixes n :: "('s \<times> Ext4, 'a option, 'e) comp"
  assumes n: "blind disk fs0 n" and "good disk fs0 fs" and "good disk fs0 fs2"
    and "result_iter_loop (\<lambda>s. d (fst s)) (\<lambda>s. (sd (fst s), snd s)) n (it, fs) = Some (r, (it', fs'))"
  shows "good disk fs0 fs' \<and> (\<exists>fs2'. result_iter_loop (\<lambda>s. d (fst s)) (\<lambda>s. (sd (fst s), snd s)) n (it, fs2) =
     Some (r, (it', fs2')) \<and> good disk fs0 fs2')"
proof -
  let ?D = "\<lambda>s :: 's \<times> Ext4. d (fst s)" and ?S = "\<lambda>s :: 's \<times> Ext4. (sd (fst s), snd s)"
  have "good disk fs0 (snd (snd y)) \<and> (\<exists>fs2'. result_iter_loop ?D ?S n (fst s, fs2) = Some (fst y, (fst (snd y), fs2')) \<and>
       good disk fs0 fs2')"
    if "result_iter_loop ?D ?S n s = Some y" "good disk fs0 (snd s)" "good disk fs0 fs2" for s y fs2
    using that
  proof (induction arbitrary: fs2 rule: iter_loop_induct)
    case (finished s)
    then show ?case by (simp add: iter_loop_done)
  next
    case (stop s r s')
    from blind_same[OF n stop(4,5)] stop(2) obtain fs2' where
      "good disk fs0 (snd s')" "n (fst s, fs2) = (r, (fst s', fs2'))" "good disk fs0 fs2'" by (metis prod.collapse)
    with stop(1,3) show ?case by (cases r) (auto simp: iter_loop_stop)
  next
    case (again s s' y)
    from blind_same[OF n again(4,5)] again(2) obtain fs2' where
      "good disk fs0 (snd s')" "n (fst s, fs2) = (Ok None, (fst s', fs2'))" "good disk fs0 fs2'" by (metis prod.collapse)
    with again(1,3) show ?case by (simp add: iter_loop_again)
  qed
  from this[OF assms(4)] assms(2,3) show ?thesis by auto
qed

lemma blind_iter:
  assumes "blind disk fs0 n"
  shows "blind disk fs0 (result_iter_next (\<lambda>s. d (fst s)) (\<lambda>s. (sd (fst s), snd s)) n)"
  unfolding blind_def
proof
  fix it
  let ?loop = "result_iter_loop (\<lambda>s. d (fst s)) (\<lambda>s. (sd (fst s), snd s)) n"
  let ?nxt = "result_iter_next (\<lambda>s. d (fst s)) (\<lambda>s. (sd (fst s), snd s)) n"
  show "\<exists>r it'. \<forall>fs. good disk fs0 fs \<longrightarrow> (\<exists>fs'. ?nxt (it, fs) = (r, (it', fs')) \<and> good disk fs0 fs')"
  proof (cases "\<exists>fs r it' fs'. good disk fs0 fs \<and> ?loop (it, fs) = Some (r, (it', fs'))")
    case True
    then obtain fs r it' fs' where g: "good disk fs0 fs" and l: "?loop (it, fs) = Some (r, (it', fs'))" by blast
    have "\<exists>fs2'. ?nxt (it, fs2) = (r, (it', fs2')) \<and> good disk fs0 fs2'" if "good disk fs0 fs2" for fs2
      using loop_blind[OF assms g that l] by (auto simp: result_iter_next_def)
    then show ?thesis by blast
  next
    case False
    then have "?loop (it, fs) = None" if "good disk fs0 fs" for fs
      using that by (cases "?loop (it, fs)") auto
    then have "\<exists>fs'. ?nxt (it, fs) = (Diverge, (it, fs')) \<and> good disk fs0 fs'" if "good disk fs0 fs" for fs
      using that by (simp add: result_iter_next_def)
    then show ?thesis by blast
  qed
qed

lemma Extents_next_blind [blind_intros]:
  assumes "device_complete fs0"
  shows "blind disk fs0 Extents_next"
  unfolding Extents_next_def
  by (rule blind_iter, unfold Extents_next_impl_def)
     (intro blind_intros blind_on_snd[OF load_child_computes[OF _ assms]])

lemma ExtentsBlocks_next_blind [blind_intros]:
  assumes "device_complete fs0"
  shows "blind disk fs0 ExtentsBlocks_next"
  unfolding ExtentsBlocks_next_def
  by (rule blind_iter, unfold ExtentsBlocks_next_impl_def fetch_extent_def)
     (intro blind_intros assms)

lemma Indirect_new_computes:
  assumes "device_complete fs0" and "good disk fs0 fs"
  shows "computes disk fs0 fs (IndirectBlockIter_new b)
     (bind_o (block_read_spec disk fs0 (ucast b) 0 (block_bytes fs0)) (\<lambda>bs. Ok \<lparr>ib_block = bs, ib_index_within_block = 0\<rparr>))"
  unfolding IndirectBlockIter_new_def
proof (rule computes_gets)
  show "computes disk fs0 fs (bindc (read_from_block (ucast b) 0 (BlockSize_to_usize (sb_block_size (fs_superblock fs0))))
      (\<lambda>block. ret \<lparr>ib_block = block, ib_index_within_block = 0\<rparr>))
    (bind_o (block_read_spec disk fs0 (ucast b) 0 (block_bytes fs0)) (\<lambda>bs. Ok \<lparr>ib_block = bs, ib_index_within_block = 0\<rparr>))"
    unfolding BlockSize_to_usize_def usize_from_u32_def
    by (intro computes_bind computes_read computes_ret assms) simp_all
qed (simp add: good_sel[OF assms(2)])

lemma BlockMap_next_blind [blind_intros]:
  assumes "device_complete fs0"
  shows "blind disk fs0 BlockMap_next"
proof -
  note i = Indirect_new_computes[OF assms]
  have d: "computes disk fs0 fs (DoubleIndirectBlockIter_new b) (bind_o (block_read_spec disk fs0 (ucast b) 0 (block_bytes fs0))
      (\<lambda>bs. Ok \<lparr>db_indirect_0 = \<lparr>ib_block = bs, ib_index_within_block = 0\<rparr>, db_indirect_1 = None, db_is_done = False\<rparr>))"
    if "good disk fs0 fs" for fs b
    using computesD[OF i[OF that, of b]]
    by (cases "block_read_spec disk fs0 (ucast b) 0 (block_bytes fs0)")
       (auto simp: DoubleIndirectBlockIter_new_def computes_def bindc_def ret_def)
  have t: "computes disk fs0 fs (TripleIndirectBlockIter_new b) (bind_o (block_read_spec disk fs0 (ucast b) 0 (block_bytes fs0))
      (\<lambda>bs. Ok \<lparr>tb_indirect_0 = \<lparr>ib_block = bs, ib_index_within_block = 0\<rparr>, tb_indirect_1 = None, tb_is_done = False\<rparr>))"
    if "good disk fs0 fs" for fs b
    using computesD[OF i[OF that, of b]]
    by (cases "block_read_spec disk fs0 (ucast b) 0 (block_bytes fs0)")
       (auto simp: TripleIndirectBlockIter_new_def computes_def bindc_def ret_def)
  have 1: "blind disk fs0 IndirectBlockIter_next"
    unfolding IndirectBlockIter_next_def by (intro blind_intros)
  have 2: "blind disk fs0 DoubleIndirectBlockIter_next"
    unfolding DoubleIndirectBlockIter_next_def
    by (rule blind_iter, unfold DoubleIndirectBlockIter_next_impl_def) (intro blind_intros 1 blind_on_snd[OF i])
  have 3: "blind disk fs0 TripleIndirectBlockIter_next"
    unfolding TripleIndirectBlockIter_next_def
    by (rule blind_iter, unfold TripleIndirectBlockIter_next_impl_def) (intro blind_intros 1 2 blind_on_snd[OF d])
  have 4: "blind disk fs0 BlockMap_increment_num_blocks_yielded"
    unfolding BlockMap_increment_num_blocks_yielded_def by (intro blind_intros)
  show ?thesis
    unfolding BlockMap_next_def
    by (rule blind_iter, unfold BlockMap_next_impl_def)
       (intro blind_intros 1 2 3 4 blind_on_snd[OF i] blind_on_snd[OF d] blind_on_snd[OF t])
qed

lemma FileBlocks_next_blind [blind_intros]:
  assumes "device_complete fs0"
  shows "blind disk fs0 FileBlocks_next"
  unfolding blind_def
proof
  fix fb
  show "\<exists>r it'. \<forall>fs. good disk fs0 fs \<longrightarrow> (\<exists>fs'. FileBlocks_next (fb, fs) = (r, (it', fs')) \<and> good disk fs0 fs')"
  proof (cases fb)
    case (FB_ExtentsBlocks it)
    obtain r it' where "\<And>fs. good disk fs0 fs \<Longrightarrow> \<exists>fs'. ExtentsBlocks_next (it, fs) = (r, (it', fs')) \<and> good disk fs0 fs'"
      using blindE[OF ExtentsBlocks_next_blind[OF assms], of disk it] by blast
    then have "\<exists>fs'. FileBlocks_next (fb, fs) = (r, (FB_ExtentsBlocks it', fs')) \<and> good disk fs0 fs'"
      if "good disk fs0 fs" for fs using that FB_ExtentsBlocks by (fastforce simp: FileBlocks_next_def)
    then show ?thesis by blast
  next
    case (FB_BlockMap it)
    obtain r it' where "\<And>fs. good disk fs0 fs \<Longrightarrow> \<exists>fs'. BlockMap_next (it, fs) = (r, (it', fs')) \<and> good disk fs0 fs'"
      using blindE[OF BlockMap_next_blind[OF assms], of disk it] by blast
    then have "\<exists>fs'. FileBlocks_next (fb, fs) = (r, (FB_BlockMap it', fs')) \<and> good disk fs0 fs'"
      if "good disk fs0 fs" for fs using that FB_BlockMap by (fastforce simp: FileBlocks_next_def)
    then show ?thesis by blast
  qed
qed

section \<open>The sequence of blocks\<close>

lemma blind_outputs:
  assumes "blind disk fs0 nxt" and "good disk fs0 fs" and "good disk fs0 fs2" and "outputs nxt (it, fs) out"
  shows "outputs nxt (it, fs2) out"
proof -
  have "\<exists>s2. yields nxt (fst s, fs2) xs r s2" if "yields nxt s xs r s'" "good disk fs0 (snd s)" "good disk fs0 fs2"
    for s xs r s' fs2
    using that
  proof (induction arbitrary: fs2 rule: yields.induct)
    case (yields_end s s')
    with blind_same[OF assms(1), of "snd s" fs2 "fst s" "Ok None" "fst s'" "snd s'"] show ?case
      by (auto intro: yields.yields_end)
  next
    case (yields_err s e s')
    with blind_same[OF assms(1), of "snd s" fs2 "fst s" "Err e" "fst s'" "snd s'"] show ?case
      by (auto intro: yields.yields_err)
  next
    case (yields_item s x s1 xs r s2)
    with blind_same[OF assms(1), of "snd s" fs2 "fst s" "Ok (Some x)" "fst s1" "snd s1"]
    obtain fs3 where n: "nxt (fst s, fs2) = (Ok (Some x), (fst s1, fs3))" "good disk fs0 fs3" "good disk fs0 (snd s1)"
      by auto
    from yields_item.IH[OF n(3,2)] obtain s3 where "yields nxt (fst s1, fs3) xs r s3" by blast
    from yields.yields_item[where nxt = nxt, OF n(1) this] show ?case by blast
  qed
  from this[of "(it, fs)"] assms(2-4) show ?thesis by (auto simp: outputs_def)
qed

text \<open>\<open>fb_seq disk fs0 fb out\<close>: from every state of the file system that reads can lead to, the
  iterator goes on with \<open>out\<close>.\<close>

definition fb_seq :: "(nat \<Rightarrow> u8) \<Rightarrow> Ext4 \<Rightarrow> FileBlocks \<Rightarrow> (FsBlockIndex, Ext4Error) out_seq \<Rightarrow> bool" where
  "fb_seq disk fs0 fb out \<longleftrightarrow> (\<forall>fs. good disk fs0 fs \<longrightarrow> outputs FileBlocks_next (fb, fs) out)"

lemma fb_seqI:
  "device_complete fs0 \<Longrightarrow> good disk fs0 fs \<Longrightarrow> outputs FileBlocks_next (fb, fs) out \<Longrightarrow> fb_seq disk fs0 fb out"
  unfolding fb_seq_def using blind_outputs[OF FileBlocks_next_blind] by blast

lemma fb_seq_item:
  assumes "device_complete fs0" and "good disk fs0 fs" and "fb_seq disk fs0 fb (b # bs, r)"
  obtains fb' fs' where "FileBlocks_next (fb, fs) = (Ok (Some b), (fb', fs'))" "good disk fs0 fs'"
    "fb_seq disk fs0 fb' (bs, r)"
proof -
  have "outputs FileBlocks_next (fb, fs) (b # bs, r)" using assms(2,3) by (simp add: fb_seq_def)
  then obtain fb' fs' where n: "FileBlocks_next (fb, fs) = (Ok (Some b), (fb', fs'))"
    and o: "outputs FileBlocks_next (fb', fs') (bs, r)" by (metis outputs_ConsD surj_pair)
  have g: "good disk fs0 fs'" using blind_same[OF FileBlocks_next_blind[OF assms(1)] assms(2,2) n] by blast
  from that[OF n g fb_seqI[OF assms(1) g o]] show ?thesis .
qed

lemma FileBlocks_ended:
  assumes "FileBlocks_next (fb, fs) = (Ok None, (fb', fs'))"
  shows "FileBlocks_next (fb', fs2) = (Ok None, (fb', fs2))"
proof (cases fb)
  case (FB_ExtentsBlocks it)
  with assms obtain it' where n: "ExtentsBlocks_next (it, fs) = (Ok None, (it', fs'))" "fb' = FB_ExtentsBlocks it'"
    by (auto simp: FileBlocks_next_def split: prod.splits)
  have "eb_is_done it'" using iter_next_end_done[OF n(1)[unfolded ExtentsBlocks_next_def]] by simp
  then have "ExtentsBlocks_next (it', fs2) = (Ok None, (it', fs2))"
    unfolding ExtentsBlocks_next_def by (intro iter_next_done) simp
  with n(2) show ?thesis by (simp add: FileBlocks_next_def)
next
  case (FB_BlockMap it)
  with assms obtain it' where n: "BlockMap_next (it, fs) = (Ok None, (it', fs'))" "fb' = FB_BlockMap it'"
    by (auto simp: FileBlocks_next_def split: prod.splits)
  have "bm_is_done it'" using iter_next_end_done[OF n(1)[unfolded BlockMap_next_def]] by simp
  then have "BlockMap_next (it', fs2) = (Ok None, (it', fs2))"
    unfolding BlockMap_next_def by (intro iter_next_done) simp
  with n(2) show ?thesis by (simp add: FileBlocks_next_def)
qed

lemma fb_seq_end:
  assumes "device_complete fs0" and "good disk fs0 fs" and "fb_seq disk fs0 fb ([], None)"
  obtains fb' fs' where "FileBlocks_next (fb, fs) = (Ok None, (fb', fs'))" "good disk fs0 fs'"
    "fb_seq disk fs0 fb' ([], None)"
proof -
  have "outputs FileBlocks_next (fb, fs) ([], None)" using assms(2,3) by (simp add: fb_seq_def)
  then obtain fb' fs' where n: "FileBlocks_next (fb, fs) = (Ok None, (fb', fs'))" by (metis outputs_endD surj_pair)
  have g: "good disk fs0 fs'" using blind_same[OF FileBlocks_next_blind[OF assms(1)] assms(2,2) n] by blast
  have "fb_seq disk fs0 fb' ([], None)"
    unfolding fb_seq_def by (blast intro: outputs_Nil[of FileBlocks_next, OF FileBlocks_ended[OF n]])
  from that[OF n g this] show ?thesis .
qed

text \<open>Both kinds of iterator are wrapped without change.\<close>

lemma FileBlocks_outputs_extents:
  assumes "outputs ExtentsBlocks_next (it, fs) out"
  shows "outputs FileBlocks_next (FB_ExtentsBlocks it, fs) out"
proof -
  have "\<exists>s2. yields FileBlocks_next (FB_ExtentsBlocks (fst s), snd s) xs r s2" if "yields ExtentsBlocks_next s xs r s'" for s xs r s'
    using that
  proof (induction rule: yields.induct)
    case (yields_item s x s1 xs r s2)
    then have "FileBlocks_next (FB_ExtentsBlocks (fst s), snd s) = (Ok (Some x), (FB_ExtentsBlocks (fst s1), snd s1))"
      by (auto simp: FileBlocks_next_def split: prod.splits)
    with yields_item.IH show ?case by (blast intro: yields.yields_item)
  qed (auto simp: FileBlocks_next_def split: prod.splits intro!: exI yields.yields_end yields.yields_err)
  from this[of "(it, fs)"] assms show ?thesis by (auto simp: outputs_def)
qed

lemma FileBlocks_outputs_map:
  assumes "outputs BlockMap_next (it, fs) out"
  shows "outputs FileBlocks_next (FB_BlockMap it, fs) out"
proof -
  have "\<exists>s2. yields FileBlocks_next (FB_BlockMap (fst s), snd s) xs r s2" if "yields BlockMap_next s xs r s'" for s xs r s'
    using that
  proof (induction rule: yields.induct)
    case (yields_item s x s1 xs r s2)
    then have "FileBlocks_next (FB_BlockMap (fst s), snd s) = (Ok (Some x), (FB_BlockMap (fst s1), snd s1))"
      by (auto simp: FileBlocks_next_def split: prod.splits)
    with yields_item.IH show ?case by (blast intro: yields.yields_item)
  qed (auto simp: FileBlocks_next_def split: prod.splits intro!: exI yields.yields_end yields.yields_err)
  from this[of "(it, fs)"] assms show ?thesis by (auto simp: outputs_def)
qed

section \<open>The blocks of an inode\<close>

text \<open>The file has the blocks \<open>bs\<close>: the iteration ends without an error and yields as many blocks as the
  size of the file asks for.\<close>

definition inode_blocks :: "(nat \<Rightarrow> u8) \<Rightarrow> Ext4 \<Rightarrow> Inode \<Rightarrow> FsBlockIndex list \<Rightarrow> bool" where
  "inode_blocks disk fs inode bs \<longleftrightarrow> length bs = unat (in_file_size_in_blocks inode) \<and>
     (\<exists>fb. FileBlocks_new inode = Ok fb \<and> fb_seq disk fs fb (bs, None))"

text \<open>The blocks of a file do not depend on its metadata.\<close>

lemma inode_blocks_metadata [simp]: "inode_blocks disk fs (inode\<lparr>in_metadata := m\<rparr>) bs = inode_blocks disk fs inode bs"
  by (simp add: inode_blocks_def FileBlocks_new_def ExtentsBlocks_new_def Extents_new_def BlockMap_new_def
      Inode_file_size_in_blocks_def)

lemma inode_blocks_extents:
  assumes "fs_ok disk fs" and "device_complete fs" and "contains (in_flags inode) EXTENTS"
    and "ExtentsBlocks_new inode = Ok eb" and "Extents_new inode = Ok it"
    and "walk (inode_child disk fs inode) (hd (et_to_visit it)) es None"
  shows "inode_blocks disk fs inode (fst (cut_blocks (unat (in_file_size_in_blocks inode)) (layout 0 es) None))"
proof -
  let ?out = "cut_blocks (unat (in_file_size_in_blocks inode)) (layout 0 es) None"
  have e: "snd ?out = None" by (simp add: cut_blocks_def)
  have "outputs ExtentsBlocks_next (eb, fs) (fst ?out, None)"
    using ExtentsBlocks_new_produces[OF assms(4,5) extents_walk_produces[OF assms(1,2,5,6)] walk_extent_ok[OF assms(6)]]
    by (simp add: eb_produces_def outputs_def e)
  from fb_seqI[OF assms(2) good_refl[OF assms(1)] FileBlocks_outputs_extents[OF this]] assms(3,4)
  show ?thesis by (simp add: inode_blocks_def FileBlocks_new_def cut_blocks_length[OF e])
qed

lemma inode_blocks_map:
  assumes "fs_ok disk fs" and "device_complete fs" and "\<not> contains (in_flags inode) EXTENTS"
    and "length (in_inline_data inode) = 60"
    and "unat (in_file_size_in_blocks inode) \<le> length (fst (map_out disk fs (map_root inode)))"
  shows "inode_blocks disk fs inode
     (map ucast (take (unat (in_file_size_in_blocks inode)) (fst (map_out disk fs (map_root inode)))))"
proof -
  from BlockMap_new_outputs[of disk fs fs inode] assms(1,2,4) obtain bm where bm: "BlockMap_new inode = Ok bm"
    and o: "outputs BlockMap_next (bm, fs)
       (out_map ucast (out_take (unat (Inode_file_size_in_blocks inode)) (map_out disk fs (map_root inode))))"
    by (auto simp: good_refl)
  have "out_map ucast (out_take (unat (Inode_file_size_in_blocks inode)) (map_out disk fs (map_root inode))) =
      (map ucast (take (unat (in_file_size_in_blocks inode)) (fst (map_out disk fs (map_root inode)))) :: FsBlockIndex list, None)"
    using assms(5) by (simp add: out_map_def out_take_def Inode_file_size_in_blocks_def)
  with fb_seqI[OF assms(2) good_refl[OF assms(1)] FileBlocks_outputs_map[OF o]] bm assms(3,5) show ?thesis
    by (simp add: inode_blocks_def FileBlocks_new_def)
qed

text \<open>What the iterator over the blocks of a file yields does not depend on what is in the block cache:
  in two states of the same file system, on a device on which every block can be read, an iterator goes
  on with the same blocks and the same error or end.\<close>

theorem file_blocks_cache_independent:
  assumes "fs_ok disk fs1" and "fs_ok disk fs2" and "same_fs fs1 fs2" and "device_complete fs1"
    and "outputs FileBlocks_next (fb, fs1) out"
  shows "outputs FileBlocks_next (fb, fs2) out"
  by (rule blind_outputs[OF FileBlocks_next_blind[OF assms(4)] good_refl[OF assms(1)] _ assms(5)])
     (simp add: good_def assms(2,3))

lemma leaf_inode_blocks:
  assumes c: "length img = 16384"
  shows "inode_blocks (disk_of img) (sample_fs img) leaf_inode [7, 8, 9]"
proof -
  have w: "walk (inode_child (disk_of img) (sample_fs img) leaf_inode)
      (hd (et_to_visit leaf_extents)) [\<lparr>ex_block_within_file = 0, ex_start_block = 7, ex_num_blocks = 3\<rparr>] None"
    by (simp add: leaf_extents_def leaf_walk)
  have f: "contains (in_flags leaf_inode) EXTENTS" by (simp add: leaf_inode_def contains_def)
  have "map (\<lambda>k. 7 + of_nat k) [0..<3] = ([7, 8, 9] :: u64 list)" by code_simp
  with inode_blocks_extents[OF sample_fs_ok sample_fs_complete[OF c] f leaf_blocks_new leaf_extents_new w] show ?thesis
    by (simp add: cut_blocks_def leaf_inode_def)
qed

theorem file_blocks_cache_independent_witness:
  "\<exists>fb. FileBlocks_new leaf_inode = Ok fb \<and>
     outputs FileBlocks_next (fb, snd (read_from_block 7 0 1024 (sample_fs (replicate 16384 0)))) ([7, 8, 9], None)"
proof -
  let ?fs = "sample_fs (replicate 16384 0)"
  have c: "length (replicate 16384 0 :: bytes) = 16384" by simp
  have m: "mapped ?fs 7 \<noteq> 0" by simp
  note t = cache_transparent[OF sample_fs_ok sample_fs_complete[OF c] m, of 0 1024]
  obtain fb where fb: "FileBlocks_new leaf_inode = Ok fb" "outputs FileBlocks_next (fb, ?fs) ([7, 8, 9], None)"
    using leaf_inode_blocks[OF c] good_refl[OF sample_fs_ok] by (auto simp: inode_blocks_def fb_seq_def)
  from file_blocks_cache_independent[OF sample_fs_ok _ _ sample_fs_complete[OF c] fb(2)] t fb(1) show ?thesis by blast
qed

end
