(* ===== verification/File_Read.thy ===== *)
theory File_Read
  imports File_Blocks
begin

text \<open>
  Reading a file (\<^verbatim>\<open>src/src/file.rs\<close>, and \<open>Ext4::read_inode_file\<close> of \<^verbatim>\<open>src/src/lib.rs\<close>): a position,
  the current block, and the iterator over the blocks still to come. The specification of a read is a
  range of the content of the file, a list of bytes given by the blocks of the file and the device.

  A buffer is modelled by its length, and a read returns the bytes it puts into the buffer, whose number
  is the count the code returns.
\<close>

section \<open>The open file\<close>

record File =
  fl_inode :: Inode
  fl_file_blocks :: FileBlocks
  fl_position :: u64
  fl_block_index :: "FsBlockIndex option"

definition File_open_inode :: "Inode \<Rightarrow> File result" where
  "File_open_inode inode =
     bind_o (FileBlocks_new inode) (\<lambda>file_blocks.
     Ok \<lparr>fl_inode = inode, fl_file_blocks = file_blocks, fl_position = 0, fl_block_index = None\<rparr>)"

definition File_metadata :: "File \<Rightarrow> Metadata" where
  "File_metadata self = in_metadata (fl_inode self)"

definition File_next_block :: "(File \<times> Ext4, FsBlockIndex option, Ext4Error) comp" where
  "File_next_block = on_field fl_file_blocks (\<lambda>x self. self\<lparr>fl_file_blocks := x\<rparr>) FileBlocks_next"

text \<open>The block to read from: the current one, or the next one of the iterator.\<close>

definition current_block :: "(File \<times> Ext4, FsBlockIndex, Ext4Error) comp" where
  "current_block =
     bindc (gets_fst fl_block_index) (\<lambda>block_index.
     case block_index of
       Some block_index \<Rightarrow> ret block_index
     | None \<Rightarrow>
         bindc File_next_block (\<lambda>item.
         bindc (lift (unwrap item)) (\<lambda>block_index.
         bindc (modify_fst (\<lambda>self. self\<lparr>fl_block_index := Some block_index\<rparr>)) (\<lambda>_.
         ret block_index))))"

definition read_bytes :: "usize \<Rightarrow> (File \<times> Ext4, bytes, Ext4Error) comp" where
  "read_bytes buf_len =
     (if buf_len = 0 then ret []
      else
        bindc (gets_fst (\<lambda>self. self)) (\<lambda>self.
        if fl_position self \<ge> md_size_in_bytes (in_metadata (fl_inode self)) then ret []
        else
          bindc (lift (unwrap (checked_sub (md_size_in_bytes (in_metadata (fl_inode self))) (fl_position self))))
            (\<lambda>bytes_remaining.
          let buf_len = (if buf_len > unat bytes_remaining then unat bytes_remaining else buf_len) in
          bindc (on_snd (gets (\<lambda>fs. sb_block_size (fs_superblock fs)))) (\<lambda>block_size.
          bindc current_block (\<lambda>block_index.
          bindc (lift (unwrap (word_try_from (unat (fl_position self mod BlockSize_to_u64 block_size)))))
            (\<lambda>offset_within_block :: u32.
          bindc (lift (unwrap (checked_sub (BlockSize_to_u32 block_size) offset_within_block)))
            (\<lambda>bytes_remaining_in_block.
          let buf_len = (if buf_len > usize_from_u32 bytes_remaining_in_block
                         then usize_from_u32 bytes_remaining_in_block else buf_len) in
          bindc (lift (unwrap (word_try_from buf_len))) (\<lambda>buf_len_u32 :: u32.
          bindc (if block_index = 0 then ret (replicate buf_len 0)
                 else on_snd (read_from_block block_index offset_within_block buf_len)) (\<lambda>buf.
          bindc (lift (unwrap (checked_add offset_within_block buf_len_u32))) (\<lambda>new_offset_within_block.
          bindc (if new_offset_within_block \<ge> block_size
                 then modify_fst (\<lambda>self. self\<lparr>fl_block_index := None\<rparr>) else ret ()) (\<lambda>_.
          bindc (lift (unwrap (checked_add (fl_position self) (ucast buf_len_u32)))) (\<lambda>position.
          bindc (modify_fst (\<lambda>self. self\<lparr>fl_position := position\<rparr>)) (\<lambda>_.
          ret buf)))))))))))))"

text \<open>A call whose result is dropped: an error is forgotten, a panic is not.\<close>

definition ignore_result :: "('s, 'a, 'e) comp \<Rightarrow> ('s, unit, 'f) comp" where
  "ignore_result m s = (case m s of
     (Ok _, s') \<Rightarrow> (Ok (), s')
   | (Err _, s') \<Rightarrow> (Ok (), s')
   | (Panic, s') \<Rightarrow> (Panic, s')
   | (Diverge, s') \<Rightarrow> (Diverge, s'))"

primrec skip_blocks :: "nat \<Rightarrow> (File \<times> Ext4, unit, Ext4Error) comp" where
  "skip_blocks 0 = ret ()"
| "skip_blocks (Suc n) = bindc (ignore_result File_next_block) (\<lambda>_. skip_blocks n)"

definition seek_to :: "u64 \<Rightarrow> (File \<times> Ext4, unit, Ext4Error) comp" where
  "seek_to pos =
     bindc (gets_fst fl_inode) (\<lambda>inode.
     bindc (lift (FileBlocks_new inode)) (\<lambda>file_blocks.
     bindc (modify_fst (\<lambda>self. self\<lparr>fl_file_blocks := file_blocks, fl_block_index := None\<rparr>)) (\<lambda>_.
     bindc (on_snd (gets (\<lambda>fs. sb_block_size (fs_superblock fs)))) (\<lambda>block_size.
     let num_blocks = pos div BlockSize_to_u64 block_size in
     bindc (skip_blocks (unat num_blocks)) (\<lambda>_.
     modify_fst (\<lambda>self. self\<lparr>fl_position := pos\<rparr>))))))"

text \<open>\<open>impl Read\<close> and \<open>impl Seek\<close>. A signed 64-bit offset is a word read with \<open>sint\<close>.\<close>

datatype SeekFrom = Start u64 | End u64 | Current u64

definition with_io_error :: "('s, 'a, Ext4Error) comp \<Rightarrow> ('s, 'a, ErrorKind) comp" where
  "with_io_error m s = (case m s of (r, s') \<Rightarrow> (map_err io_error_from r, s'))"

definition File_read :: "usize \<Rightarrow> (File \<times> Ext4, bytes, ErrorKind) comp" where
  "File_read buf_len = with_io_error (read_bytes buf_len)"

definition i64_try_from :: "u64 \<Rightarrow> int option" where
  "i64_try_from n = (if unat n < 2 ^ 63 then Some (int (unat n)) else None)"

definition i64_checked_add :: "int \<Rightarrow> int \<Rightarrow> int option" where
  "i64_checked_add a b = (if - (2 ^ 63) \<le> a + b \<and> a + b < 2 ^ 63 then Some (a + b) else None)"

definition u64_try_from_i64 :: "int \<Rightarrow> u64 option" where
  "u64_try_from_i64 i = (if 0 \<le> i then Some (of_int i) else None)"

definition offset_from :: "u64 \<Rightarrow> u64 \<Rightarrow> u64 option" where
  "offset_from base offset =
     Option.bind (i64_try_from base) (\<lambda>pos.
     Option.bind (i64_checked_add pos (sint offset)) u64_try_from_i64)"

definition File_seek :: "SeekFrom \<Rightarrow> (File \<times> Ext4, u64, ErrorKind) comp" where
  "File_seek pos =
     bindc (gets_fst (\<lambda>self. self)) (\<lambda>self.
     bindc (lift (case pos of
              Start pos \<Rightarrow> Ok pos
            | End offset \<Rightarrow>
                ok_or EK_InvalidInput (offset_from (md_size_in_bytes (in_metadata (fl_inode self))) offset)
            | Current offset \<Rightarrow> ok_or EK_InvalidInput (offset_from (fl_position self) offset))) (\<lambda>pos.
     bindc (with_io_error (seek_to pos)) (\<lambda>_.
     gets_fst fl_position)))"

text \<open>\<open>Ext4::read_inode_file\<close>: fill a zeroed vector of the size of the file by repeated reads.
  The vector cannot be longer than \<open>isize::MAX\<close>. A chunk is at least one byte, so the loop ends.\<close>

definition isize_max :: usize where
  "isize_max = 2 ^ 63 - 1"

lemma chunk_shrinks: "buf \<noteq> [] \<Longrightarrow> length buf \<le> n \<Longrightarrow> n - length buf < n"
  by (cases buf) auto

function read_chunks :: "usize \<Rightarrow> (File \<times> Ext4, bytes, Ext4Error) comp" where
  "read_chunks remaining s =
     (case read_bytes remaining s of
        (Ok buf, s') \<Rightarrow>
          if buf = [] then (Ok (replicate remaining 0), s')
          else if length buf \<le> remaining then
            (case read_chunks (remaining - length buf) s' of
               (Ok rest, s'') \<Rightarrow> (Ok (buf @ rest), s'')
             | r \<Rightarrow> r)
          else (Panic, s')
      | r \<Rightarrow> r)"
  by pat_completeness auto
termination
  by (relation "measure fst") (auto simp: chunk_shrinks)

declare read_chunks.simps [simp del]

definition read_inode_file :: "Inode \<Rightarrow> bytes fs_op" where
  "read_inode_file inode fs =
     (let file_size_in_bytes = unat (md_size_in_bytes (in_metadata inode)) in
      if file_size_in_bytes > usize_max then (Err FileTooLarge, fs)
      else if file_size_in_bytes > isize_max then (Panic, fs)
      else (case File_open_inode inode of
          Ok file \<Rightarrow> (case read_chunks file_size_in_bytes (file, fs) of (r, (_, fs')) \<Rightarrow> (r, fs'))
        | Err e \<Rightarrow> (Err e, fs)
        | Panic \<Rightarrow> (Panic, fs)
        | Diverge \<Rightarrow> (Diverge, fs)))"

section \<open>The content of a file\<close>

definition file_byte :: "(nat \<Rightarrow> u8) \<Rightarrow> Ext4 \<Rightarrow> FsBlockIndex list \<Rightarrow> nat \<Rightarrow> u8" where
  "file_byte disk fs bs i =
     (let b = bs ! (i div block_bytes fs) in
      if b = 0 then 0 else disk (unat (mapped fs b) * block_bytes fs + i mod block_bytes fs))"

definition file_content :: "(nat \<Rightarrow> u8) \<Rightarrow> Ext4 \<Rightarrow> FsBlockIndex list \<Rightarrow> nat \<Rightarrow> bytes" where
  "file_content disk fs bs n = map (file_byte disk fs bs) [0..<n]"

text \<open>A hole, or a block of the file system other than block 0.\<close>

definition data_block :: "Ext4 \<Rightarrow> FsBlockIndex \<Rightarrow> bool" where
  "data_block fs b \<longleftrightarrow> b = 0 \<or> mapped fs b \<noteq> 0 \<and> mapped fs b < sb_blocks_count (fs_superblock fs)"

text \<open>The position of an open file and its iterator agree.\<close>

definition file_at :: "(nat \<Rightarrow> u8) \<Rightarrow> Ext4 \<Rightarrow> FsBlockIndex list \<Rightarrow> File \<Rightarrow> bool" where
  "file_at disk fs bs f \<longleftrightarrow>
     (let k = unat (fl_position f) div block_bytes fs in
      case fl_block_index f of
        None \<Rightarrow> fb_seq disk fs (fl_file_blocks f) (drop k bs, None)
      | Some b \<Rightarrow> k < length bs \<and> b = bs ! k \<and> fb_seq disk fs (fl_file_blocks f) (drop (Suc k) bs, None))"

section \<open>One read\<close>

lemma current_block_ok:
  assumes "device_complete fs0" and "good disk fs0 fs" and "file_at disk fs0 bs f"
    and "unat (fl_position f) div block_bytes fs0 < length bs"
  shows "\<exists>fb fs'. current_block (f, fs) =
      (Ok (bs ! (unat (fl_position f) div block_bytes fs0)),
       (f\<lparr>fl_file_blocks := fb, fl_block_index := Some (bs ! (unat (fl_position f) div block_bytes fs0))\<rparr>, fs')) \<and>
    good disk fs0 fs' \<and> fb_seq disk fs0 fb (drop (Suc (unat (fl_position f) div block_bytes fs0)) bs, None)"
proof (cases "fl_block_index f")
  case None
  let ?k = "unat (fl_position f) div block_bytes fs0"
  have "fb_seq disk fs0 (fl_file_blocks f) (bs ! ?k # drop (Suc ?k) bs, None)"
    using assms(3,4) None by (simp add: file_at_def Cons_nth_drop_Suc)
  from fb_seq_item[OF assms(1,2) this] obtain fb fs' where
    "FileBlocks_next (fl_file_blocks f, fs) = (Ok (Some (bs ! ?k)), (fb, fs'))" "good disk fs0 fs'"
    "fb_seq disk fs0 fb (drop (Suc ?k) bs, None)" by blast
  with None show ?thesis
    by (auto simp: current_block_def File_next_block_def comp_defs)
next
  case (Some b)
  have "f\<lparr>fl_file_blocks := fl_file_blocks f, fl_block_index := Some b\<rparr> = f" using Some by simp
  with Some assms(2,3) show ?thesis
    by (auto simp: current_block_def comp_defs file_at_def Let_def intro!: exI[of _ "fl_file_blocks f"] exI[of _ fs])
qed

lemma file_content_range:
  assumes "pos + m \<le> n" and "pos mod block_bytes fs + m \<le> block_bytes fs" and "0 < block_bytes fs"
  shows "take m (drop pos (file_content disk fs bs n)) =
    (let b = bs ! (pos div block_bytes fs) in
     if b = 0 then replicate m 0
     else disk_range disk (unat (mapped fs b) * block_bytes fs + pos mod block_bytes fs) m)"
proof -
  let ?B = "block_bytes fs"
  have dm: "(pos + i) div ?B = pos div ?B \<and> (pos + i) mod ?B = pos mod ?B + i" if "i < m" for i
  proof -
    have l: "pos mod ?B + i < ?B" using that assms(2) by linarith
    have e: "pos + i = pos div ?B * ?B + (pos mod ?B + i)" using div_mult_mod_eq[of pos ?B] by linarith
    have "(pos + i) div ?B = pos div ?B + (pos mod ?B + i) div ?B"
      by (subst e, subst div_mult_self3) (use assms(3) in simp_all)
    moreover have "(pos + i) mod ?B = (pos mod ?B + i) mod ?B" by (subst e) (simp only: mod_mult_self3)
    ultimately show ?thesis using l by simp
  qed
  then have "take m (drop pos (file_content disk fs bs n)) = map (\<lambda>i. file_byte disk fs bs (pos + i)) [0..<m]"
    using assms(1) by (subst take_drop_conv_map) (simp_all add: file_content_def)
  with dm show ?thesis
    by (auto simp: Let_def file_byte_def disk_range_def add.assoc intro!: nth_equalityI)
qed

text \<open>How far a read goes: to the end of the buffer, of the block, or of the file.\<close>

definition chunk_len :: "Ext4 \<Rightarrow> File \<Rightarrow> usize \<Rightarrow> nat" where
  "chunk_len fs f n =
     (let pos = unat (fl_position f) in
      min (min n (unat (md_size_in_bytes (in_metadata (fl_inode f))) - pos)) (block_bytes fs - pos mod block_bytes fs))"

lemma block_bytes_bounds:
  assumes "good disk fs0 fs"
  shows "1024 \<le> block_bytes fs0" "block_bytes fs0 \<le> 2 ^ 31"
  using assms good_sel(1)[OF assms] fs_ok_block_size[of disk fs] valid_block_size_bounds(3)[of "sb_block_size (fs_superblock fs)"]
  by (auto simp: good_def)

lemma unat_position_mod:
  "unat (p mod BlockSize_to_u64 bs) = unat p mod unat bs"
  by (simp add: unat_mod BlockSize_to_u64_def)

lemma read_bytes_end:
  assumes "n = 0 \<or> md_size_in_bytes (in_metadata (fl_inode f)) \<le> fl_position f"
  shows "read_bytes n (f, fs) = (Ok [], (f, fs))"
  using assms by (auto simp: read_bytes_def comp_defs)

text \<open>The bounds of one chunk, and the checked operations of a read within them.\<close>

lemma chunk_bounds:
  assumes "0 < block_bytes fs0" and "fl_position f < md_size_in_bytes (in_metadata (fl_inode f))"
  shows "unat (fl_position f) mod block_bytes fs0 < block_bytes fs0"
    and "unat (fl_position f) mod block_bytes fs0 + chunk_len fs0 f n \<le> block_bytes fs0"
    and "unat (fl_position f) + chunk_len fs0 f n \<le> unat (md_size_in_bytes (in_metadata (fl_inode f)))"
proof -
  have "unat (fl_position f) < unat (md_size_in_bytes (in_metadata (fl_inode f)))"
    using assms(2) by (simp add: word_less_nat_alt)
  moreover show "unat (fl_position f) mod block_bytes fs0 < block_bytes fs0" using assms(1) by simp
  ultimately show "unat (fl_position f) mod block_bytes fs0 + chunk_len fs0 f n \<le> block_bytes fs0"
    and "unat (fl_position f) + chunk_len fs0 f n \<le> unat (md_size_in_bytes (in_metadata (fl_inode f)))"
    by (auto simp: chunk_len_def Let_def)
qed

lemma offset_arith:
  fixes bs :: u32
  assumes "off < unat bs" and "off + m \<le> unat bs"
  shows "checked_sub bs (of_nat off) = Some (bs - of_nat off)" "unat (bs - of_nat off) = unat bs - off"
    and "word_try_from m = Some (of_nat m :: u32)"
    and "checked_add (of_nat off) (of_nat m :: u32) = Some (of_nat off + of_nat m)"
    and "bs \<le> of_nat off + of_nat m \<longleftrightarrow> off + m = unat bs"
proof -
  have b: "unat bs < 2 ^ 32" using unat_less_bound[of bs] by simp
  then have u: "unat (of_nat off :: u32) = off" "unat (of_nat m :: u32) = m" using assms by (simp_all add: unat_of_nat)
  show "checked_sub bs (of_nat off) = Some (bs - of_nat off)" "unat (bs - of_nat off) = unat bs - off"
    using assms(1) u(1) by (simp_all add: checked_sub_def word_le_nat_alt unat_sub)
  show "word_try_from m = Some (of_nat m :: u32)" using assms(2) b by (simp add: word_try_from_def)
  show "checked_add (of_nat off) (of_nat m :: u32) = Some (of_nat off + of_nat m)"
    using u assms(2) b by (simp add: checked_add_def)
  have "unat (of_nat off + of_nat m :: u32) = off + m" using u assms(2) b by (simp add: unat_word_ariths)
  then show "bs \<le> of_nat off + of_nat m \<longleftrightarrow> off + m = unat bs" using assms(2) by (auto simp: word_le_nat_alt)
qed

lemma position_advance:
  fixes p :: u64
  assumes "m < 2 ^ 32" and "unat p + m < 2 ^ 64"
  shows "checked_add p (ucast (of_nat m :: u32)) = Some (p + of_nat m)" and "unat (p + of_nat m) = unat p + m"
proof -
  have w: "unat (of_nat m :: u64) = m" "unat (of_nat m :: u32) = m" using assms by (simp_all add: unat_of_nat)
  then have "ucast (of_nat m :: u32) = (of_nat m :: u64)" by (simp add: word_unat_eq_iff)
  with w assms(2) show "checked_add p (ucast (of_nat m :: u32)) = Some (p + of_nat m)" by (simp add: checked_add_def)
  show "unat (p + of_nat m) = unat p + m" using w assms(2) by (simp add: unat_word_ariths)
qed

text \<open>The whole read, once the current block \<open>b\<close> is known.\<close>

lemma read_bytes_eq:
  assumes n: "0 < n" and lt: "fl_position f < md_size_in_bytes (in_metadata (fl_inode f))"
    and g: "good disk fs0 fs"
    and cb: "current_block (f, fs) = (Ok b, (f\<lparr>fl_file_blocks := fb, fl_block_index := Some b\<rparr>, fs1))"
    and g1: "good disk fs0 fs1"
    and rd: "(if b = 0 then (Ok (replicate (chunk_len fs0 f n) 0), fs1)
              else read_from_block b (of_nat (unat (fl_position f) mod block_bytes fs0)) (chunk_len fs0 f n) fs1) = (Ok buf, fs2)"
  shows "read_bytes n (f, fs) = (Ok buf,
     (f\<lparr>fl_file_blocks := fb,
        fl_block_index := (if unat (fl_position f) mod block_bytes fs0 + chunk_len fs0 f n = block_bytes fs0
                           then None else Some b),
        fl_position := fl_position f + of_nat (chunk_len fs0 f n)\<rparr>, fs2))"
proof -
  let ?pos = "unat (fl_position f)" and ?B = "block_bytes fs0" and ?size = "md_size_in_bytes (in_metadata (fl_inode f))"
  let ?m = "chunk_len fs0 f n" and ?off = "?pos mod ?B" and ?bs = "sb_block_size (fs_superblock fs0)"
  note B = block_bytes_bounds[OF g]
  have "0 < ?B" using B(1) by simp
  note c = chunk_bounds(1)[OF this lt] chunk_bounds(2,3)[OF this lt, of n]
  have pos: "checked_sub ?size (fl_position f) = Some (?size - fl_position f)"
    "unat (?size - fl_position f) = unat ?size - ?pos"
    using lt by (simp_all add: checked_sub_def unat_sub less_imp_le)
  note off = offset_arith[OF c(1,2)]
  have rem: "word_try_from (unat (fl_position f mod BlockSize_to_u64 ?bs)) = Some (of_nat ?off :: u32)"
    using c(1) B(2) by (simp add: unat_position_mod word_try_from_def)
  have m: "?m < 2 ^ 32" "?pos + ?m < 2 ^ 64"
    using c(2,3) B(2) unat_less_bound[of ?size] by simp_all
  have len: "(if (if unat (?size - fl_position f) < n then unat (?size - fl_position f) else n) > usize_from_u32 (?bs - of_nat ?off)
      then usize_from_u32 (?bs - of_nat ?off)
      else if unat (?size - fl_position f) < n then unat (?size - fl_position f) else n) = ?m"
    using pos(2) off(2) by (auto simp: chunk_len_def usize_from_u32_def Let_def)
  have sb: "sb_block_size (fs_superblock fs) = ?bs" using good_sel(1)[OF g] by simp
  have nle: "\<not> ?size \<le> fl_position f" using lt by (simp only: not_le)
  show ?thesis
    using n nle cb rd
    by (simp add: read_bytes_def bindc_def gets_fst_def lift_def ret_def on_snd_def gets_def modify_fst_def Let_def
        BlockSize_to_u32_def pos(1) rem off(1,3-5) position_advance(1)[OF m] sb len split: if_splits)
qed

lemma in_last_block:
  assumes "(i :: nat) < len" and "0 < b"
  shows "i div b < div_ceil len b"
proof -
  have "i div b * b \<le> i" by simp
  with assms(1) div_ceil_bounds[OF assms(2), of len] have "i div b * b < div_ceil len b * b" by linarith
  then show ?thesis by simp
qed

text \<open>What an open file is, for the file system \<open>fs0\<close>: its inode is well-formed, \<open>bs\<close> are the blocks of
  the file, and its position and its iterator agree.\<close>

definition open_file :: "(nat \<Rightarrow> u8) \<Rightarrow> Ext4 \<Rightarrow> FsBlockIndex list \<Rightarrow> File \<Rightarrow> bool" where
  "open_file disk fs0 bs f \<longleftrightarrow> inode_ok (fs_superblock fs0) (fl_inode f) \<and> inode_blocks disk fs0 (fl_inode f) bs \<and>
     list_all (data_block fs0) bs \<and> file_at disk fs0 bs f"

abbreviation open_content :: "(nat \<Rightarrow> u8) \<Rightarrow> Ext4 \<Rightarrow> FsBlockIndex list \<Rightarrow> File \<Rightarrow> bytes" where
  "open_content disk fs0 bs f \<equiv> file_content disk fs0 bs (unat (md_size_in_bytes (in_metadata (fl_inode f))))"

text \<open>The bytes of a chunk: zeros in a hole, else the bytes of the block.\<close>

lemma read_chunk:
  assumes dc: "device_complete fs0" and g: "good disk fs0 fs" and "data_block fs0 b"
    and off: "off < block_bytes fs0" "off + m \<le> block_bytes fs0"
  obtains fs' where "(if b = 0 then (Ok (replicate m 0), fs) else read_from_block b (of_nat off) m fs) =
      (Ok (if b = 0 then replicate m 0 else disk_range disk (unat (mapped fs0 b) * block_bytes fs0 + off) m), fs')"
    "good disk fs0 fs'"
proof (cases "b = 0")
  case True
  with g that show ?thesis by simp
next
  case False
  have u: "unat (of_nat off :: u32) = off" using off(1) block_bytes_bounds(2)[OF g] by (simp add: unat_of_nat)
  have r: "readable fs0 (mapped fs0 b) (of_nat off) m"
    using assms(3) False off u by (auto simp: data_block_def readable_def word_less_nat_alt)
  have "computes disk fs0 fs (read_from_block b (of_nat off) m) (block_read_spec disk fs0 b (of_nat off) m)"
    by (rule computes_read[OF g dc]) (use assms(3) False in \<open>simp add: data_block_def\<close>)
  from computesD[OF this] r u False that show ?thesis by (auto simp: block_read_spec_def)
qed

lemma div_chunk:
  assumes "0 < b" and "pos mod b + m \<le> (b :: nat)"
  shows "(pos + m) div b = (if pos mod b + m = b then Suc (pos div b) else pos div b)"
proof -
  have e: "pos + m = pos div b * b + (pos mod b + m)" using div_mult_mod_eq[of pos b] by linarith
  have "(pos + m) div b = pos div b + (pos mod b + m) div b"
    by (subst e, subst div_mult_self3) (use assms(1) in simp_all)
  then show ?thesis using assms by simp
qed

lemma read_bytes_chunk:
  assumes dc: "device_complete fs0" and g: "good disk fs0 fs" and f: "open_file disk fs0 bs f"
    and n: "0 < n" and lt: "fl_position f < md_size_in_bytes (in_metadata (fl_inode f))"
  shows "\<exists>f' fs'. read_bytes n (f, fs) =
      (Ok (take (chunk_len fs0 f n) (drop (unat (fl_position f)) (open_content disk fs0 bs f))), (f', fs')) \<and>
    good disk fs0 fs' \<and> open_file disk fs0 bs f' \<and> fl_inode f' = fl_inode f \<and>
    unat (fl_position f') = unat (fl_position f) + chunk_len fs0 f n"
proof -
  let ?pos = "unat (fl_position f)" and ?B = "block_bytes fs0" and ?size = "unat (md_size_in_bytes (in_metadata (fl_inode f)))"
  let ?m = "chunk_len fs0 f n" and ?k = "?pos div ?B" and ?off = "?pos mod ?B" and ?b = "bs ! (?pos div ?B)"
  note B = block_bytes_bounds[OF g]
  have pos: "0 < ?B" using B(1) by simp
  note c = chunk_bounds(1)[OF pos lt] chunk_bounds(2,3)[OF pos lt, of n]
  have "?pos < ?size" using lt by (simp add: word_less_nat_alt)
  then have k: "?k < length bs"
    using in_last_block[of ?pos ?size ?B] pos f by (simp add: open_file_def inode_ok_def inode_blocks_def)
  from current_block_ok[OF dc g _ k] f obtain fb fs1 where cb: "current_block (f, fs) =
      (Ok ?b, (f\<lparr>fl_file_blocks := fb, fl_block_index := Some ?b\<rparr>, fs1))" and g1: "good disk fs0 fs1"
    and seq: "fb_seq disk fs0 fb (drop (Suc ?k) bs, None)" by (auto simp: open_file_def)
  have db: "data_block fs0 ?b" using f k by (auto simp: open_file_def list_all_length)
  let ?buf = "take ?m (drop ?pos (open_content disk fs0 bs f))"
  have buf: "?buf = (if ?b = 0 then replicate ?m 0 else disk_range disk (unat (mapped fs0 ?b) * ?B + ?off) ?m)"
    using file_content_range[OF c(3,2)] pos by (simp add: Let_def)
  obtain fs2 where
    rd: "(if ?b = 0 then (Ok (replicate ?m 0), fs1) else read_from_block ?b (of_nat ?off) ?m fs1) = (Ok ?buf, fs2)"
    and g2: "good disk fs0 fs2"
    unfolding buf by (rule read_chunk[OF dc g1 db c(1,2)])
  let ?f = "f\<lparr>fl_file_blocks := fb, fl_block_index := (if ?off + ?m = ?B then None else Some ?b),
        fl_position := fl_position f + of_nat ?m\<rparr>"
  have "?m < 2 ^ 32" "?pos + ?m < 2 ^ 64"
    using c(2,3) B(2) unat_less_bound[of "md_size_in_bytes (in_metadata (fl_inode f))"] by simp_all
  then have p: "unat (fl_position ?f) = ?pos + ?m" by (simp add: position_advance(2))
  have "file_at disk fs0 bs ?f"
    using seq k div_chunk[OF pos c(2)] p by (simp add: file_at_def Let_def del: drop_drop)
  then have "open_file disk fs0 bs ?f" using f by (simp add: open_file_def)
  with read_bytes_eq[OF n lt g cb g1 rd] g2 p show ?thesis by auto
qed

section \<open>Reading and seeking\<close>

lemma read_bytes_spec:
  assumes dc: "device_complete fs0" and g: "good disk fs0 fs" and f: "open_file disk fs0 bs f"
  shows "\<exists>f' fs'. read_bytes n (f, fs) =
      (Ok (take (min n (block_bytes fs0 - unat (fl_position f) mod block_bytes fs0))
            (drop (unat (fl_position f)) (open_content disk fs0 bs f))), (f', fs')) \<and>
    good disk fs0 fs' \<and> open_file disk fs0 bs f' \<and> fl_inode f' = fl_inode f \<and>
    unat (fl_position f') = unat (fl_position f) +
      length (take (min n (block_bytes fs0 - unat (fl_position f) mod block_bytes fs0))
        (drop (unat (fl_position f)) (open_content disk fs0 bs f)))"
proof (cases "n = 0 \<or> md_size_in_bytes (in_metadata (fl_inode f)) \<le> fl_position f")
  case True
  with read_bytes_end[OF True] g f show ?thesis by (auto simp: file_content_def word_le_nat_alt)
next
  case False
  then have n: "0 < n" and lt: "fl_position f < md_size_in_bytes (in_metadata (fl_inode f))" by auto
  let ?d = "drop (unat (fl_position f)) (open_content disk fs0 bs f)"
  have "take (chunk_len fs0 f n) ?d = take (min n (block_bytes fs0 - unat (fl_position f) mod block_bytes fs0)) ?d"
    by (rule nth_equalityI) (auto simp: chunk_len_def Let_def file_content_def)
  moreover have "length (take (chunk_len fs0 f n) ?d) = chunk_len fs0 f n"
    by (simp add: chunk_len_def Let_def file_content_def)
  ultimately show ?thesis using read_bytes_chunk[OF dc g f n lt] by metis
qed

lemma read_chunks_spec:
  assumes "device_complete fs0" and "good disk fs0 fs" and "open_file disk fs0 bs f"
    and "n = unat (md_size_in_bytes (in_metadata (fl_inode f))) - unat (fl_position f)"
  shows "\<exists>s'. read_chunks n (f, fs) = (Ok (drop (unat (fl_position f)) (open_content disk fs0 bs f)), s') \<and>
     good disk fs0 (snd s')"
  using assms(2-)
proof (induction n arbitrary: f fs rule: less_induct)
  case (less n)
  let ?d = "drop (unat (fl_position f)) (open_content disk fs0 bs f)"
  have len: "length ?d = n" using less.prems(3) by (simp add: file_content_def)
  show ?case
  proof (cases "n = 0")
    case True
    with read_bytes_end[of n f fs] len less.prems(1) show ?thesis by (simp add: read_chunks.simps)
  next
    case False
    then have lt: "fl_position f < md_size_in_bytes (in_metadata (fl_inode f))"
      using less.prems(3) by (simp add: word_less_nat_alt)
    let ?m = "chunk_len fs0 f n"
    from read_bytes_chunk[OF assms(1) less.prems(1,2) _ lt, of n] False obtain f' fs' where
      r: "read_bytes n (f, fs) = (Ok (take ?m ?d), (f', fs'))" and g: "good disk fs0 fs'"
      and o: "open_file disk fs0 bs f'" "fl_inode f' = fl_inode f" "unat (fl_position f') = unat (fl_position f) + ?m"
      by auto
    have off: "unat (fl_position f) mod block_bytes fs0 < block_bytes fs0"
      using block_bytes_bounds(1)[OF less.prems(1)] by (intro mod_less_divisor) simp
    have m: "0 < ?m" "?m \<le> n" using False lt off less.prems(3) by (auto simp: chunk_len_def Let_def)
    have "\<exists>s'. read_chunks (n - ?m) (f', fs') = (Ok (drop (unat (fl_position f')) (open_content disk fs0 bs f')), s') \<and>
       good disk fs0 (snd s')"
      by (rule less.IH) (use m o g less.prems(3) in auto)
    then obtain s' where c: "read_chunks (n - ?m) (f', fs') = (Ok (drop ?m ?d), s')" "good disk fs0 (snd s')"
      using o by (auto simp: add.commute)
    have ne: "take ?m ?d \<noteq> []" "length (take ?m ?d) = ?m" using m len by auto
    have "read_chunks n (f, fs) = (Ok (take ?m ?d @ drop ?m ?d), s')"
      unfolding read_chunks.simps[of n "(f, fs)"] r by (simp only: prod.case outcome.case ne c(1) m(2) if_True if_False)
    with c(2) show ?thesis unfolding append_take_drop_id by blast
  qed
qed

text \<open>A file just opened is at position 0 and has all its blocks before it.\<close>

lemma open_inode_spec:
  assumes "inode_ok (fs_superblock fs0) inode" and "inode_blocks disk fs0 inode bs" and "list_all (data_block fs0) bs"
  obtains f where "File_open_inode inode = Ok f" "open_file disk fs0 bs f" "fl_inode f = inode" "fl_position f = 0"
proof -
  from assms(2) obtain fb where fb: "FileBlocks_new inode = Ok fb" "fb_seq disk fs0 fb (bs, None)"
    by (auto simp: inode_blocks_def)
  let ?f = "\<lparr>fl_inode = inode, fl_file_blocks = fb, fl_position = 0, fl_block_index = None\<rparr>"
  have "open_file disk fs0 bs ?f" using fb assms by (simp add: open_file_def file_at_def)
  then show ?thesis using that[of ?f] fb(1) by (simp add: File_open_inode_def)
qed

text \<open>The bounds of a well-formed inode keep the size of the file below \<open>isize::MAX\<close>.\<close>

lemma inode_ok_size:
  assumes "inode_ok sb inode" and "valid_superblock sb"
  shows "unat (md_size_in_bytes (in_metadata inode)) \<le> isize_max"
proof -
  let ?s = "unat (md_size_in_bytes (in_metadata inode))" and ?b = "unat (sb_block_size sb)"
  have v: "valid_block_size (sb_block_size sb)" using assms(2) by (simp add: valid_superblock_def)
  have b: "?b \<le> 2 ^ 31" "0 < ?b" using valid_block_size_bounds[OF v] by auto
  have "div_ceil ?s ?b < 2 ^ 32"
    using assms(1) unat_less_bound[of "in_file_size_in_blocks inode"] by (simp add: inode_ok_def)
  then have "div_ceil ?s ?b * ?b \<le> (2 ^ 32 - 1) * 2 ^ 31" using b(1) by (intro mult_mono) simp_all
  with div_ceil_bounds[OF b(2), of ?s] show ?thesis by (simp add: isize_max_def)
qed

lemma read_inode_file_spec:
  assumes "device_complete fs0" and "good disk fs0 fs" and "inode_ok (fs_superblock fs0) inode"
    and "inode_blocks disk fs0 inode bs" and "list_all (data_block fs0) bs"
  shows "\<exists>fs'. read_inode_file inode fs =
     (Ok (file_content disk fs0 bs (unat (md_size_in_bytes (in_metadata inode)))), fs') \<and> good disk fs0 fs'"
proof -
  obtain f where f: "File_open_inode inode = Ok f" "open_file disk fs0 bs f" "fl_inode f = inode" "fl_position f = 0"
    using open_inode_spec[OF assms(3-5)] by blast
  have "valid_superblock (fs_superblock fs0)"
    using assms(2) good_sel(1)[OF assms(2)] by (simp add: good_def fs_ok_def)
  from inode_ok_size[OF assms(3) this] have s: "unat (md_size_in_bytes (in_metadata inode)) \<le> isize_max" .
  from read_chunks_spec[OF assms(1,2) f(2) refl] f(3,4) obtain s' where
    "read_chunks (unat (md_size_in_bytes (in_metadata inode))) (f, fs) =
       (Ok (file_content disk fs0 bs (unat (md_size_in_bytes (in_metadata inode)))), s')" "good disk fs0 (snd s')"
    by auto
  with f(1) s show ?thesis
    by (cases s') (simp add: read_inode_file_def Let_def isize_max_def usize_max_def)
qed

text \<open>Skipping \<open>n\<close> blocks, also past the end of the file.\<close>

lemma skip_blocks_spec:
  assumes "device_complete fs0" and "good disk fs0 fs" and "fb_seq disk fs0 (fl_file_blocks f) (bs, None)"
  shows "\<exists>fb fs'. skip_blocks n (f, fs) = (Ok (), (f\<lparr>fl_file_blocks := fb\<rparr>, fs')) \<and> good disk fs0 fs' \<and>
     fb_seq disk fs0 fb (drop n bs, None)"
  using assms(2,3)
proof (induction n arbitrary: f fs bs)
  case 0
  then show ?case by (auto simp: comp_defs intro!: exI[of _ "fl_file_blocks f"])
next
  case (Suc n)
  have "\<exists>fb fs'. (ignore_result File_next_block :: (File \<times> Ext4, unit, Ext4Error) comp) (f, fs) = (Ok (), (f\<lparr>fl_file_blocks := fb\<rparr>, fs')) \<and>
      good disk fs0 fs' \<and> fb_seq disk fs0 fb (tl bs, None)"
  proof (cases bs)
    case Nil
    with Suc.prems fb_seq_end[OF assms(1) Suc.prems(1)] obtain fb fs' where
      "FileBlocks_next (fl_file_blocks f, fs) = (Ok None, (fb, fs'))" "good disk fs0 fs'" "fb_seq disk fs0 fb ([], None)"
      by metis
    with Nil show ?thesis by (auto simp: ignore_result_def File_next_block_def on_field_def)
  next
    case (Cons b bs')
    with Suc.prems fb_seq_item[OF assms(1) Suc.prems(1)] obtain fb fs' where
      "FileBlocks_next (fl_file_blocks f, fs) = (Ok (Some b), (fb, fs'))" "good disk fs0 fs'" "fb_seq disk fs0 fb (bs', None)"
      by metis
    with Cons show ?thesis by (auto simp: ignore_result_def File_next_block_def on_field_def)
  qed
  then obtain fb fs' where i: "(ignore_result File_next_block :: (File \<times> Ext4, unit, Ext4Error) comp) (f, fs) = (Ok (), (f\<lparr>fl_file_blocks := fb\<rparr>, fs'))"
    "good disk fs0 fs'" "fb_seq disk fs0 fb (tl bs, None)" by blast
  from Suc.IH[OF i(2), of "f\<lparr>fl_file_blocks := fb\<rparr>" "tl bs"] i show ?case by (auto simp: bindc_def drop_Suc)
qed

lemma seek_to_spec:
  assumes dc: "device_complete fs0" and g: "good disk fs0 fs" and f: "open_file disk fs0 bs f"
  shows "\<exists>f' fs'. seek_to p (f, fs) = (Ok (), (f', fs')) \<and> good disk fs0 fs' \<and> open_file disk fs0 bs f' \<and>
     fl_inode f' = fl_inode f \<and> fl_position f' = p"
proof -
  from f obtain fb where fb: "FileBlocks_new (fl_inode f) = Ok fb" "fb_seq disk fs0 fb (bs, None)"
    by (auto simp: open_file_def inode_blocks_def)
  let ?f = "f\<lparr>fl_file_blocks := fb, fl_block_index := None\<rparr>" and ?k = "unat p div block_bytes fs0"
  have k: "unat (p div BlockSize_to_u64 (sb_block_size (fs_superblock fs))) = ?k"
    using good_sel(1)[OF g] by (simp add: unat_div BlockSize_to_u64_def)
  have "fb_seq disk fs0 (fl_file_blocks ?f) (bs, None)" using fb(2) by simp
  from skip_blocks_spec[OF dc g this, of ?k] obtain fb' fs' where
    "skip_blocks ?k (?f, fs) = (Ok (), (?f\<lparr>fl_file_blocks := fb'\<rparr>, fs'))" "good disk fs0 fs'"
    "fb_seq disk fs0 fb' (drop ?k bs, None)" by blast
  with fb(1) f k show ?thesis
    by (auto simp: seek_to_def comp_defs Let_def open_file_def file_at_def)
qed

section \<open>Properties\<close>

text \<open>C12: A read from an open file, on a device on which every block can be read and a file whose blocks
  lie in the file system, does not fail and does not panic; it returns the bytes of the file from the
  current position on, zeros in holes, up to the end of the buffer, of the current block or of the file,
  whichever comes first. The position advances by the number of bytes returned, and the file is again an
  open file with the same inode and blocks.\<close>

theorem read_bytes_correct:
  assumes "fs_ok disk fs" and "device_complete fs" and "open_file disk fs bs f"
  shows "\<exists>data f' fs'. read_bytes n (f, fs) = (Ok data, (f', fs')) \<and>
     data = take (min n (block_bytes fs - unat (fl_position f) mod block_bytes fs))
       (drop (unat (fl_position f)) (file_content disk fs bs (unat (md_size_in_bytes (in_metadata (fl_inode f)))))) \<and>
     unat (fl_position f') = unat (fl_position f) + length data \<and> fl_inode f' = fl_inode f \<and>
     open_file disk fs bs f' \<and> fs_ok disk fs' \<and> same_fs fs fs'"
  using read_bytes_spec[OF assms(2) good_refl[OF assms(1)] assms(3), of n] unfolding good_def by blast

text \<open>Reading a whole file returns exactly the content of the file, as many bytes as its size says,
  whatever the block cache holds; the loop of reads ends.\<close>

theorem read_inode_file_correct:
  assumes "fs_ok disk fs" and "device_complete fs" and "inode_ok (fs_superblock fs) inode"
    and "inode_blocks disk fs inode bs" and "list_all (data_block fs) bs"
  shows "fst (read_inode_file inode fs) =
     Ok (file_content disk fs bs (unat (md_size_in_bytes (in_metadata inode))))"
  using read_inode_file_spec[OF assms(2) good_refl[OF assms(1)] assms(3-5)] by auto

text \<open>Seeking to a position, also one past the end of the file, and reading there returns the bytes of
  the file at that position, none past the end.\<close>

theorem seek_then_read:
  assumes "fs_ok disk fs" and "device_complete fs" and "open_file disk fs bs f"
  shows "fst (bindc (seek_to p) (\<lambda>_. read_bytes n) (f, fs)) =
     Ok (take (min n (block_bytes fs - unat p mod block_bytes fs))
       (drop (unat p) (file_content disk fs bs (unat (md_size_in_bytes (in_metadata (fl_inode f)))))))"
proof -
  from seek_to_spec[OF assms(2) good_refl[OF assms(1)] assms(3), of p] obtain f' fs' where
    s: "seek_to p (f, fs) = (Ok (), (f', fs'))" "good disk fs fs'" "open_file disk fs bs f'" "fl_inode f' = fl_inode f"
    "fl_position f' = p" by blast
  from read_bytes_spec[OF assms(2) s(2,3), of n] s show ?thesis by (auto simp: bindc_def)
qed

lemma leaf_inode_ok: "inode_ok (fs_superblock (sample_fs img)) leaf_inode"
  by (simp add: inode_ok_def leaf_inode_def leaf_root_def sample_superblock_def div_ceil_def FileType_regular)

lemma leaf_data_blocks: "list_all (data_block (sample_fs img)) [7, 8, 9]"
  by (simp add: data_block_def sample_superblock_def)

lemma zero_content: "file_content (disk_of (replicate k 0)) fs bs n = replicate n 0"
  by (rule nth_equalityI) (auto simp: file_content_def file_byte_def Let_def disk_of_def)

lemma leaf_file:
  obtains f where "File_open_inode leaf_inode = Ok f" "fl_inode f = leaf_inode" "fl_position f = 0"
    "open_file (disk_of (replicate 16384 0)) (sample_fs (replicate 16384 0)) [7, 8, 9] f"
  using open_inode_spec[OF leaf_inode_ok leaf_inode_blocks leaf_data_blocks] by (metis length_replicate)

theorem read_bytes_correct_witness:
  "\<exists>f. File_open_inode leaf_inode = Ok f \<and>
     fst (read_bytes 5000 (f, sample_fs (replicate 16384 0))) = Ok (replicate 1024 0)"
proof -
  have c: "length (replicate 16384 0 :: bytes) = 16384" by simp
  obtain f where f: "File_open_inode leaf_inode = Ok f" "fl_inode f = leaf_inode" "fl_position f = 0"
    "open_file (disk_of (replicate 16384 0)) (sample_fs (replicate 16384 0)) [7, 8, 9] f" by (rule leaf_file)
  have "md_size_in_bytes (in_metadata leaf_inode) = 3072" by (simp add: leaf_inode_def)
  with read_bytes_correct[OF sample_fs_ok sample_fs_complete[OF c] f(4), of 5000] f(1-3) show ?thesis
    by (auto simp: zero_content sample_superblock_def)
qed

theorem read_inode_file_correct_witness:
  "fst (read_inode_file leaf_inode (sample_fs (replicate 16384 0))) = Ok (replicate 3072 0)"
proof -
  have c: "length (replicate 16384 0 :: bytes) = 16384" by simp
  have "md_size_in_bytes (in_metadata leaf_inode) = 3072" by (simp add: leaf_inode_def)
  with read_inode_file_correct[OF sample_fs_ok sample_fs_complete[OF c] leaf_inode_ok leaf_inode_blocks[OF c] leaf_data_blocks]
  show ?thesis by (simp add: zero_content)
qed

theorem seek_then_read_witness:
  "\<exists>f. File_open_inode leaf_inode = Ok f \<and>
     fst (bindc (seek_to 3000) (\<lambda>_. read_bytes 5000) (f, sample_fs (replicate 16384 0))) = Ok (replicate 72 0)"
proof -
  have c: "length (replicate 16384 0 :: bytes) = 16384" by simp
  obtain f where f: "File_open_inode leaf_inode = Ok f" "fl_inode f = leaf_inode" "fl_position f = 0"
    "open_file (disk_of (replicate 16384 0)) (sample_fs (replicate 16384 0)) [7, 8, 9] f" by (rule leaf_file)
  have size: "md_size_in_bytes (in_metadata leaf_inode) = 3072" by (simp add: leaf_inode_def)
  then have "take (min 5000 (1024 - 3000 mod 1024)) (drop 3000 (replicate 3072 (0 :: u8))) = replicate 72 0"
    by (simp only: drop_replicate take_replicate) simp
  moreover have "unat (3000 :: u64) = 3000" "unat (3072 :: u64) = 3072" by simp_all
  ultimately have "fst (bindc (seek_to 3000) (\<lambda>_. read_bytes 5000) (f, sample_fs (replicate 16384 0))) = Ok (replicate 72 0)"
    using seek_then_read[OF sample_fs_ok sample_fs_complete[OF c] f(4), of 3000 5000] f(2) size
    by (simp only: zero_content vec_fs_sel) (simp add: sample_superblock_def)
  with f(1) show ?thesis by blast
qed

lemma FileBlocks_after_error:
  assumes "FileBlocks_next (fb, fs) = (Err e, (fb', fs'))"
  shows "FileBlocks_next (fb', fs2) = (Ok None, (fb', fs2))"
proof (cases fb)
  case (FB_ExtentsBlocks it)
  with assms obtain it' where n: "ExtentsBlocks_next (it, fs) = (Err e, (it', fs'))" "fb' = FB_ExtentsBlocks it'"
    by (auto simp: FileBlocks_next_def split: prod.splits)
  have "eb_is_done it'" using iter_next_err_done[OF n(1)[unfolded ExtentsBlocks_next_def]] by simp
  then have "ExtentsBlocks_next (it', fs2) = (Ok None, (it', fs2))"
    unfolding ExtentsBlocks_next_def by (intro iter_next_done) simp
  with n(2) show ?thesis by (simp add: FileBlocks_next_def)
next
  case (FB_BlockMap it)
  with assms obtain it' where n: "BlockMap_next (it, fs) = (Err e, (it', fs'))" "fb' = FB_BlockMap it'"
    by (auto simp: FileBlocks_next_def split: prod.splits)
  have "bm_is_done it'" using iter_next_err_done[OF n(1)[unfolded BlockMap_next_def]] by simp
  then have "BlockMap_next (it', fs2) = (Ok None, (it', fs2))"
    unfolding BlockMap_next_def by (intro iter_next_done) simp
  with n(2) show ?thesis by (simp add: FileBlocks_next_def)
qed

text \<open>Twelve steps into the file with a hole at its indirect block.\<close>

lemma hole_iteration:
  "\<exists>it fs e. outputs BlockMap_next (it, fs) ([], Some e)"
proof -
  let ?fs = "sample_fs (replicate 16384 0)" and ?disk = "disk_of (replicate 16384 0)"
  have c: "length (replicate 16384 0 :: bytes) = 16384" by simp
  have rs: "readable_state ?disk ?fs ?fs" using sample_fs_ok sample_fs_complete[OF c] by (simp add: good_refl)
  have "map_root hole_inode = replicate 15 0"
    by (simp add: map_root_numerals hole_inode_def u32le_at_nth numeral_eq_Suc)
  then have "map_out ?disk ?fs (map_root hole_inode) = (replicate 12 0, Some (read_error ?fs 0 0 (block_bytes ?fs)))"
    by (simp add: map_out_def out_append_def indirect_out_def block_read_spec_def readable_def)
  then have "snd (out_map ucast (out_take (unat (Inode_file_size_in_blocks hole_inode)) (map_out ?disk ?fs (map_root hole_inode)))) =
      Some (read_error ?fs 0 0 (block_bytes ?fs))"
    by (simp add: out_map_def out_take_def hole_inode_def Inode_file_size_in_blocks_def)
  moreover obtain bm where "outputs BlockMap_next (bm, ?fs)
      (out_map ucast (out_take (unat (Inode_file_size_in_blocks hole_inode)) (map_out ?disk ?fs (map_root hole_inode))))"
    using BlockMap_new_outputs[OF rs, of hole_inode] by (auto simp: hole_inode_def)
  ultimately show ?thesis using outputs_error_reached[of BlockMap_next] by (metis prod.collapse)
qed

text \<open>If the iterator over the blocks of a file yields an error (an extent node or an index block cannot
  be read), the read returns that error, and the next read panics: the iterator is at its end, and the
  code unwraps the missing block.\<close>

theorem read_after_error_panics:
  assumes "0 < n" and "fl_position f < md_size_in_bytes (in_metadata (fl_inode f))" and "fl_block_index f = None"
    and "FileBlocks_next (fl_file_blocks f, fs) = (Err e, (fb, fs'))"
  shows "read_bytes n (f, fs) = (Err e, (f\<lparr>fl_file_blocks := fb\<rparr>, fs')) \<and>
     fst (read_bytes n (f\<lparr>fl_file_blocks := fb\<rparr>, fs')) = Panic"
proof -
  have nle: "\<not> md_size_in_bytes (in_metadata (fl_inode f)) \<le> fl_position f" using assms(2) by (simp only: not_le)
  have 1: "current_block (f, fs) = (Err e, (f\<lparr>fl_file_blocks := fb\<rparr>, fs'))"
    using assms(3,4) by (simp add: current_block_def File_next_block_def comp_defs)
  have 2: "current_block (f\<lparr>fl_file_blocks := fb\<rparr>, fs') = (Panic, (f\<lparr>fl_file_blocks := fb\<rparr>, fs'))"
    using assms(3) FileBlocks_after_error[OF assms(4)] by (simp add: current_block_def File_next_block_def comp_defs)
  show ?thesis
    using assms(1,2) nle 1 2 by (simp add: read_bytes_def comp_defs checked_sub_def Let_def less_imp_le)
qed

theorem read_after_error_panics_witness:
  "\<exists>f fs e. fst (read_bytes 1 (f, fs)) = Err e \<and> fst (read_bytes 1 (snd (read_bytes 1 (f, fs)))) = Panic"
proof -
  obtain it fs e where it: "outputs BlockMap_next (it, fs) ([], Some e)"
    using hole_iteration by blast
  obtain it' fs' where n: "BlockMap_next (it, fs) = (Err e, (it', fs'))"
    using outputs_errD[OF it] by (metis surj_pair)
  let ?f = "\<lparr>fl_inode = hole_inode, fl_file_blocks = FB_BlockMap it, fl_position = 12288, fl_block_index = None\<rparr>"
  have "fl_position ?f < md_size_in_bytes (in_metadata (fl_inode ?f))" by (simp add: hole_inode_def)
  moreover have "FileBlocks_next (fl_file_blocks ?f, fs) = (Err e, (FB_BlockMap it', fs'))"
    using n by (simp add: FileBlocks_next_def)
  ultimately show ?thesis using read_after_error_panics[of 1 ?f] by (metis fst_conv snd_conv zero_less_one File.select_convs(4))
qed

lemma offset_from_eq:
  "offset_from base offset =
     (let t = int (unat base) + sint offset in
      if unat base < 2 ^ 63 \<and> 0 \<le> t \<and> t < 2 ^ 63 then Some (of_int t) else None)"
  by (auto simp: offset_from_def i64_try_from_def i64_checked_add_def u64_try_from_i64_def Let_def)

text \<open>The offsets of \<open>seek\<close> relative to the end or the current position are added without wrap-around:
  the seek goes to the mathematical sum of the base and the signed offset, and fails with
  \<open>InvalidInput\<close>, changing nothing, exactly when the base or the sum does not fit in a signed 64-bit
  integer or the sum is negative.\<close>

theorem seek_offset_exact:
  "File_seek (Current offset) (f, fs) =
     (let t = int (unat (fl_position f)) + sint offset in
      if unat (fl_position f) < 2 ^ 63 \<and> 0 \<le> t \<and> t < 2 ^ 63 then File_seek (Start (of_int t)) (f, fs)
      else (Err EK_InvalidInput, (f, fs))) \<and>
   File_seek (End offset) (f, fs) =
     (let len = md_size_in_bytes (in_metadata (fl_inode f)); t = int (unat len) + sint offset in
      if unat len < 2 ^ 63 \<and> 0 \<le> t \<and> t < 2 ^ 63 then File_seek (Start (of_int t)) (f, fs)
      else (Err EK_InvalidInput, (f, fs)))"
  by (simp add: File_seek_def offset_from_eq Let_def bindc_def lift_def gets_fst_def)

end
