(* ===== verification/Read_Dir.thy ===== *)
theory Read_Dir
  imports Dir_Entry Dir_Block File_Read
begin

text \<open>
  The iterator over a directory (\<^verbatim>\<open>src/src/iters/read_dir.rs\<close>): the blocks of the directory one after
  another, and in each block its records. The specification lists the entries of the blocks read from the
  device.
\<close>

record ReadDir =
  rd_path :: PathBuf
  rd_file_blocks :: FileBlocks
  rd_block_index :: "FsBlockIndex option"
  rd_is_first_block :: bool
  rd_block :: bytes
  rd_offset_within_block :: usize
  rd_is_done :: bool
  rd_has_htree :: bool
  rd_checksum_base :: Checksum
  rd_inode :: InodeIndex

definition ReadDir_new :: "Ext4 \<Rightarrow> Inode \<Rightarrow> PathBuf \<Rightarrow> ReadDir result" where
  "ReadDir_new fs inode path =
     (let has_htree = contains (in_flags inode) DIRECTORY_HTREE in
      bind_o (require (\<not> contains (in_flags inode) DIRECTORY_ENCRYPTED) Encrypted) (\<lambda>_.
      bind_o (FileBlocks_new inode) (\<lambda>file_blocks.
      Ok \<lparr>rd_path = path, rd_file_blocks = file_blocks, rd_block_index = None, rd_is_first_block = True,
          rd_block = replicate (BlockSize_to_usize (sb_block_size (fs_superblock fs))) 0,
          rd_offset_within_block = 0, rd_is_done = False, rd_has_htree = has_htree,
          rd_checksum_base = in_checksum_base inode, rd_inode = in_index inode\<rparr>)))"

text \<open>Get the block index, or get the next one if not set. \<open>None\<close> stands for the early
  \<open>return Ok(None)\<close> at the end of the directory.\<close>

definition ReadDir_block_index :: "(ReadDir \<times> Ext4, FsBlockIndex option, Ext4Error) comp" where
  "ReadDir_block_index =
     bindc (gets_fst rd_block_index) (\<lambda>block_index.
     case block_index of
       Some block_index \<Rightarrow> ret (Some block_index)
     | None \<Rightarrow>
         bindc (on_field rd_file_blocks (\<lambda>x self. self\<lparr>rd_file_blocks := x\<rparr>) FileBlocks_next) (\<lambda>item.
         case item of
           Some block_index \<Rightarrow>
             bindc (modify_fst (\<lambda>self. self\<lparr>rd_block_index := Some block_index, rd_offset_within_block := 0\<rparr>))
               (\<lambda>_. ret (Some block_index))
         | None \<Rightarrow>
             bindc (modify_fst (\<lambda>self. self\<lparr>rd_is_done := True\<rparr>)) (\<lambda>_. ret None)))"

definition ReadDir_next_impl :: "(ReadDir \<times> Ext4, DirEntry option, Ext4Error) comp" where
  "ReadDir_next_impl =
     bindc ReadDir_block_index (\<lambda>block_index.
     case block_index of
       None \<Rightarrow> ret None
     | Some block_index \<Rightarrow>
         bindc (on_snd (gets (\<lambda>fs. sb_block_size (fs_superblock fs)))) (\<lambda>block_size.
         bindc (gets_fst (\<lambda>self. self)) (\<lambda>self.
         if rd_offset_within_block self \<ge> BlockSize_to_usize block_size then
           bindc (modify_fst (\<lambda>self. self\<lparr>rd_is_first_block := False, rd_block_index := None\<rparr>)) (\<lambda>_.
           ret None)
         else
           bindc (if rd_offset_within_block self = 0 then
                    bindc (on_snd (DirBlock_read \<lparr>dk_block_index = block_index,
                        dk_is_first = rd_is_first_block self, dk_dir_inode = rd_inode self,
                        dk_has_htree = rd_has_htree self, dk_checksum_base = rd_checksum_base self\<rparr>
                        (length (rd_block self)))) (\<lambda>block.
                    modify_fst (\<lambda>self. self\<lparr>rd_block := block\<rparr>))
                  else ret ()) (\<lambda>_.
           bindc (gets_fst (\<lambda>self. self)) (\<lambda>self.
           bindc (lift (slice (rd_block self) (rd_offset_within_block self) (length (rd_block self)))) (\<lambda>bytes.
           bindc (lift (DirEntry_from_bytes bytes (rd_inode self) (rd_path self))) (\<lambda>(entry, entry_size).
           bindc (lift (ok_or (Corrupt (CorruptDirEntry (rd_inode self)))
                    (usize_add (rd_offset_within_block self) entry_size))) (\<lambda>offset.
           bindc (modify_fst (\<lambda>self. self\<lparr>rd_offset_within_block := offset\<rparr>)) (\<lambda>_.
           ret entry)))))))))"

definition ReadDir_next :: "(ReadDir \<times> Ext4, DirEntry option, Ext4Error) comp" where
  "ReadDir_next = result_iter_next (\<lambda>s. rd_is_done (fst s))
     (\<lambda>s. ((fst s)\<lparr>rd_is_done := True\<rparr>, snd s)) ReadDir_next_impl"

section \<open>The entries of a directory\<close>

text \<open>The entries of one block, and of the blocks of a directory; the first block is read as the root of an
  htree if there is one.\<close>

definition dir_block_at :: "Inode \<Rightarrow> bool \<Rightarrow> FsBlockIndex \<Rightarrow> DirBlock" where
  "dir_block_at inode first b = \<lparr>dk_block_index = b, dk_is_first = first, dk_dir_inode = in_index inode,
     dk_has_htree = contains (in_flags inode) DIRECTORY_HTREE, dk_checksum_base = in_checksum_base inode\<rparr>"

definition block_entries :: "(nat \<Rightarrow> u8) \<Rightarrow> Ext4 \<Rightarrow> Inode \<Rightarrow> PathBuf \<Rightarrow> bool \<Rightarrow> FsBlockIndex \<Rightarrow> (DirEntry, Ext4Error) out_seq" where
  "block_entries disk fs inode path first b =
     (case dir_block_spec disk fs (dir_block_at inode first b) of
        Ok block \<Rightarrow> scan_entries (in_index inode) path block 0
      | Err e \<Rightarrow> ([], Some e)
      | _ \<Rightarrow> ([], None))"

fun blocks_entries :: "(nat \<Rightarrow> u8) \<Rightarrow> Ext4 \<Rightarrow> Inode \<Rightarrow> PathBuf \<Rightarrow> bool \<Rightarrow> FsBlockIndex list \<Rightarrow> Ext4Error option \<Rightarrow> (DirEntry, Ext4Error) out_seq" where
  "blocks_entries disk fs inode path first [] r = ([], r)"
| "blocks_entries disk fs inode path first (b # bs) r =
     out_append (block_entries disk fs inode path first b) (blocks_entries disk fs inode path False bs r)"

text \<open>No block of the directory has an entry count that overruns it.\<close>

fun counts_fit :: "(nat \<Rightarrow> u8) \<Rightarrow> Ext4 \<Rightarrow> Inode \<Rightarrow> bool \<Rightarrow> FsBlockIndex list \<Rightarrow> bool" where
  "counts_fit disk fs inode first [] \<longleftrightarrow> True"
| "counts_fit disk fs inode first (b # bs) \<longleftrightarrow>
     dir_block_spec disk fs (dir_block_at inode first b) \<noteq> Panic \<and> counts_fit disk fs inode False bs"

text \<open>The reader is one of this directory.\<close>

definition reads_dir :: "Inode \<Rightarrow> PathBuf \<Rightarrow> ReadDir \<Rightarrow> bool" where
  "reads_dir inode path self \<longleftrightarrow> rd_inode self = in_index inode \<and> rd_path self = path \<and>
     rd_has_htree self = contains (in_flags inode) DIRECTORY_HTREE \<and> rd_checksum_base self = in_checksum_base inode"

section \<open>The steps of the iterator\<close>

lemma DirBlock_read_run:
  assumes "device_complete fs0" and "good disk fs0 fs"
  shows "\<exists>fs'. DirBlock_read db (block_bytes fs0) fs = (dir_block_spec disk fs0 db, fs') \<and> good disk fs0 fs'"
  using computesD[OF DirBlock_read_computes[OF assms(2,1)]] by blast

lemma next_impl_record:
  assumes "good disk fs0 fs" and "rd_block_index self = Some b" and "length (rd_block self) = block_bytes fs0"
    and "0 < rd_offset_within_block self" and "rd_offset_within_block self < block_bytes fs0"
  shows "ReadDir_next_impl (self, fs) =
     (case DirEntry_from_bytes (drop (rd_offset_within_block self) (rd_block self)) (rd_inode self) (rd_path self) of
        Ok (e, n) \<Rightarrow> (Ok e, (self\<lparr>rd_offset_within_block := rd_offset_within_block self + n\<rparr>, fs))
      | Err e \<Rightarrow> (Err e, (self, fs))
      | Panic \<Rightarrow> (Panic, (self, fs))
      | Diverge \<Rightarrow> (Diverge, (self, fs)))"
proof -
  note B = block_bytes_bounds[OF assms(1)]
  have a: "usize_add (rd_offset_within_block self) n = Some (rd_offset_within_block self + n)" if "n < 65536" for n
    using that assms(5) B(2) by (simp add: usize_add_def usize_max_def)
  show ?thesis
    using assms(2-5) good_sel(1)[OF assms(1)] a
    by (auto simp: ReadDir_next_impl_def ReadDir_block_index_def comp_defs BlockSize_to_usize_def usize_from_u32_def
        slice_def get_range_def split: outcome.split dest!: record_length)
qed

lemma next_impl_block_end:
  assumes "good disk fs0 fs" and "rd_block_index self = Some b" and "block_bytes fs0 \<le> rd_offset_within_block self"
  shows "ReadDir_next_impl (self, fs) = (Ok None, (self\<lparr>rd_is_first_block := False, rd_block_index := None\<rparr>, fs))"
  using assms(2,3) good_sel(1)[OF assms(1)]
  by (simp add: ReadDir_next_impl_def ReadDir_block_index_def comp_defs BlockSize_to_usize_def usize_from_u32_def)

lemma next_impl_end:
  assumes "rd_block_index self = None" and "FileBlocks_next (rd_file_blocks self, fs) = (Ok None, (fb, fs'))"
  shows "ReadDir_next_impl (self, fs) = (Ok None, (self\<lparr>rd_file_blocks := fb, rd_is_done := True\<rparr>, fs'))"
  using assms by (simp add: ReadDir_next_impl_def ReadDir_block_index_def comp_defs)

lemma next_impl_err:
  assumes "rd_block_index self = None" and "FileBlocks_next (rd_file_blocks self, fs) = (Err e, (fb, fs'))"
  shows "ReadDir_next_impl (self, fs) = (Err e, (self\<lparr>rd_file_blocks := fb\<rparr>, fs'))"
  using assms by (simp add: ReadDir_next_impl_def ReadDir_block_index_def comp_defs)

text \<open>A new block: it is read, and its first record is parsed in the same step.\<close>

lemma next_impl_block:
  assumes "rd_block_index self = None" and "FileBlocks_next (rd_file_blocks self, fs) = (Ok (Some b), (fb, fs1))"
    and "good disk fs0 fs1" and "length (rd_block self) = block_bytes fs0"
    and "reads_dir inode path self"
    and "DirBlock_read (dir_block_at inode (rd_is_first_block self) b) (block_bytes fs0) fs1 = (r, fs2)"
    and "\<And>block. r = Ok block \<Longrightarrow> length block = block_bytes fs0"
  shows "ReadDir_next_impl (self, fs) =
     (let self1 = self\<lparr>rd_file_blocks := fb, rd_block_index := Some b, rd_offset_within_block := 0\<rparr> in
      case r of
        Ok block \<Rightarrow>
          (case DirEntry_from_bytes block (rd_inode self) (rd_path self) of
             Ok (e, n) \<Rightarrow> (Ok e, (self1\<lparr>rd_block := block, rd_offset_within_block := n\<rparr>, fs2))
           | Err e \<Rightarrow> (Err e, (self1\<lparr>rd_block := block\<rparr>, fs2))
           | Panic \<Rightarrow> (Panic, (self1\<lparr>rd_block := block\<rparr>, fs2))
           | Diverge \<Rightarrow> (Diverge, (self1\<lparr>rd_block := block\<rparr>, fs2)))
      | Err e \<Rightarrow> (Err e, (self1, fs2))
      | Panic \<Rightarrow> (Panic, (self1, fs2))
      | Diverge \<Rightarrow> (Diverge, (self1, fs2)))"
proof -
  note B = block_bytes_bounds[OF assms(3)]
  have a: "usize_add 0 n = Some n" if "n < 65536" for n
    using that by (simp add: usize_add_def usize_max_def)
  have pos: "\<not> block_bytes fs0 \<le> 0" using B(1) by simp
  show ?thesis
    using assms(1,2,4-7) good_sel(1)[OF assms(3)] a pos
    by (cases r)
       (auto simp: ReadDir_next_impl_def ReadDir_block_index_def comp_defs BlockSize_to_usize_def usize_from_u32_def
        dir_block_at_def reads_dir_def slice_def get_range_def Let_def split: outcome.split dest!: record_length)
qed

section \<open>The iterator refines the specification\<close>

definition rd_at :: "(nat \<Rightarrow> u8) \<Rightarrow> Ext4 \<Rightarrow> Inode \<Rightarrow> PathBuf \<Rightarrow> ReadDir \<Rightarrow> FsBlockIndex list \<Rightarrow> Ext4Error option \<Rightarrow> bool" where
  "rd_at disk fs0 inode path self bs r \<longleftrightarrow> \<not> rd_is_done self \<and> length (rd_block self) = block_bytes fs0 \<and>
     fb_seq disk fs0 (rd_file_blocks self) (bs, r) \<and> (rd_block_index self \<noteq> None \<longrightarrow> 0 < rd_offset_within_block self) \<and>
     reads_dir inode path self \<and> counts_fit disk fs0 inode (rd_block_index self = None \<and> rd_is_first_block self) bs"

definition rd_rest :: "(nat \<Rightarrow> u8) \<Rightarrow> Ext4 \<Rightarrow> Inode \<Rightarrow> PathBuf \<Rightarrow> ReadDir \<Rightarrow> FsBlockIndex list \<Rightarrow> Ext4Error option \<Rightarrow> (DirEntry, Ext4Error) out_seq" where
  "rd_rest disk fs0 inode path self bs r =
     (case rd_block_index self of
        None \<Rightarrow> blocks_entries disk fs0 inode path (rd_is_first_block self) bs r
      | Some b \<Rightarrow>
          out_append (scan_entries (in_index inode) path (rd_block self) (rd_offset_within_block self))
            (blocks_entries disk fs0 inode path False bs r))"

lemma fb_seq_err:
  assumes "device_complete fs0" and "good disk fs0 fs" and "fb_seq disk fs0 fb ([], Some e)"
  obtains fb' fs' where "FileBlocks_next (fb, fs) = (Err e, (fb', fs'))" "good disk fs0 fs'"
proof -
  have "outputs FileBlocks_next (fb, fs) ([], Some e)" using assms(2,3) by (simp add: fb_seq_def)
  then obtain fb' fs' where n: "FileBlocks_next (fb, fs) = (Err e, (fb', fs'))" by (metis outputs_errD surj_pair)
  have "good disk fs0 fs'" using blind_same[OF FileBlocks_next_blind[OF assms(1)] assms(2,2) n] by blast
  with n that show ?thesis by blast
qed

lemma scan_step:
  assumes "off < length block"
  shows "scan_entries inode path block off =
     (case DirEntry_from_bytes (drop off block) inode path of
        Ok (e, n) \<Rightarrow> out_append ((case e of None \<Rightarrow> [] | Some d \<Rightarrow> [d]), None) (scan_entries inode path block (off + n))
      | Err e \<Rightarrow> ([], Some e)
      | _ \<Rightarrow> ([], None))"
  using assms by (auto simp: scan_entries.simps[of inode path block off] split: outcome.split option.split)

lemma scan_end: "length block \<le> off \<Longrightarrow> scan_entries inode path block off = ([], None)"
  by (simp add: scan_entries.simps)

lemma DirEntry_from_bytes_cases:
  obtains (entry) e n where "DirEntry_from_bytes bs inode path = Ok (e, n)" "8 \<le> n"
  | (error) e where "DirEntry_from_bytes bs inode path = Err e"
  using DirEntry_from_bytes_holds[of bs inode path] by (cases "DirEntry_from_bytes bs inode path") auto

lemma out_append_assoc: "out_append (out_append a b) c = out_append a (out_append b c)"
  by (auto simp: out_append_def split: option.split)

lemma dir_block_spec_good_cases:
  assumes "good disk fs0 fs" and "dir_block_spec disk fs0 db \<noteq> Panic"
  obtains (ok) block where "dir_block_spec disk fs0 db = Ok block" "length block = block_bytes fs0"
  | (error) e where "dir_block_spec disk fs0 db = Err e"
proof -
  have "verify_block fs db = verify_block fs0 db"
    by (rule ext) (simp add: verify_block_def good_sel[OF assms(1)])
  then have "dir_block_spec disk fs db = dir_block_spec disk fs0 db"
    using good_sel[OF assms(1)] good_spec(1)[OF assms(1)] by (simp add: dir_block_spec_def)
  with dir_block_spec_cases[of disk fs db] assms block_shape[of disk fs0 db] ok error show ?thesis
    by (auto simp: good_def)
qed

abbreviation rd_measure :: "Ext4 \<Rightarrow> ((ReadDir \<times> FsBlockIndex list) \<times> (ReadDir \<times> FsBlockIndex list)) set" where
  "rd_measure fs0 \<equiv> measures [\<lambda>(self, bs). length bs,
     \<lambda>(self, bs). case rd_block_index self of None \<Rightarrow> 0 | Some b \<Rightarrow> 1 + (block_bytes fs0 - rd_offset_within_block self)]"

text \<open>
  What one call does where the iterator stands at the blocks \<^term>\<open>bs\<close>: it moves on, with the entry it
  passed, to a smaller state that has the rest of the sequence; or it ends; or it reports the error.
\<close>

abbreviation entry_out :: "DirEntry option \<Rightarrow> (DirEntry, Ext4Error) out_seq" where
  "entry_out e \<equiv> ((case e of None \<Rightarrow> [] | Some d \<Rightarrow> [d]), None)"

inductive rd_step :: "(nat \<Rightarrow> u8) \<Rightarrow> Ext4 \<Rightarrow> Inode \<Rightarrow> PathBuf \<Rightarrow> Ext4Error option \<Rightarrow> ReadDir \<Rightarrow> Ext4 \<Rightarrow> FsBlockIndex list \<Rightarrow> bool"
  for disk fs0 inode path r self fs bs where
  moves: "ReadDir_next_impl (self, fs) = (Ok e, (self', fs')) \<Longrightarrow> good disk fs0 fs' \<Longrightarrow>
    rd_at disk fs0 inode path self' bs' r \<Longrightarrow> ((self', bs'), (self, bs)) \<in> rd_measure fs0 \<Longrightarrow>
    rd_rest disk fs0 inode path self bs r = out_append (entry_out e) (rd_rest disk fs0 inode path self' bs' r) \<Longrightarrow>
    rd_step disk fs0 inode path r self fs bs"
| ends: "ReadDir_next_impl (self, fs) = (Ok None, (self', fs')) \<Longrightarrow> rd_is_done self' \<Longrightarrow>
    rd_rest disk fs0 inode path self bs r = ([], None) \<Longrightarrow> rd_step disk fs0 inode path r self fs bs"
| fails: "ReadDir_next_impl (self, fs) = (Err e, (self', fs')) \<Longrightarrow>
    rd_rest disk fs0 inode path self bs r = ([], Some e) \<Longrightarrow> rd_step disk fs0 inode path r self fs bs"

lemma rd_step_record:
  assumes g: "good disk fs0 fs" and at: "rd_at disk fs0 inode path self bs r"
    and idx: "rd_block_index self = Some b" and lt: "rd_offset_within_block self < block_bytes fs0"
  shows "rd_step disk fs0 inode path r self fs bs"
proof -
  let ?off = "rd_offset_within_block self"
  have pos: "0 < ?off" and len: "length (rd_block self) = block_bytes fs0"
    and id: "rd_inode self = in_index inode" "rd_path self = path"
    using at idx by (auto simp: rd_at_def reads_dir_def)
  note impl = next_impl_record[OF g idx len pos lt, unfolded id]
  have "?off < length (rd_block self)" using lt len by simp
  note scan = scan_step[OF this, of "in_index inode" path]
  show ?thesis
  proof (cases rule: DirEntry_from_bytes_cases[of "drop ?off (rd_block self)" "in_index inode" path])
    case (entry e n)
    let ?self = "self\<lparr>rd_offset_within_block := ?off + n\<rparr>"
    have "rd_rest disk fs0 inode path self bs r = out_append (entry_out e) (rd_rest disk fs0 inode path ?self bs r)"
      using idx entry(1) scan by (simp add: rd_rest_def out_append_assoc)
    then show ?thesis
      by (intro rd_step.moves[where self' = ?self and fs' = fs and bs' = bs])
         (use impl entry g at idx lt in \<open>auto simp: rd_at_def reads_dir_def\<close>)
  next
    case (error e)
    with impl idx scan show ?thesis by (intro rd_step.fails) (auto simp: rd_rest_def)
  qed
qed

lemma rd_step_block_end:
  assumes g: "good disk fs0 fs" and at: "rd_at disk fs0 inode path self bs r"
    and idx: "rd_block_index self = Some b" and ge: "\<not> rd_offset_within_block self < block_bytes fs0"
  shows "rd_step disk fs0 inode path r self fs bs"
proof (rule rd_step.moves)
  let ?self = "self\<lparr>rd_is_first_block := False, rd_block_index := None\<rparr>"
  show "ReadDir_next_impl (self, fs) = (Ok None, (?self, fs))"
    using next_impl_block_end[OF g idx] ge by simp
  show "rd_at disk fs0 inode path ?self bs r" using at idx by (auto simp: rd_at_def reads_dir_def)
  show "rd_rest disk fs0 inode path self bs r = out_append (entry_out None) (rd_rest disk fs0 inode path ?self bs r)"
    using idx ge at by (simp add: rd_rest_def rd_at_def scan_end)
qed (use g idx in auto)

lemma rd_step_block:
  assumes dev: "device_complete fs0" and g: "good disk fs0 fs" and at: "rd_at disk fs0 inode path self (b # bs) r"
    and idx: "rd_block_index self = None"
  shows "rd_step disk fs0 inode path r self fs (b # bs)"
proof -
  have len: "length (rd_block self) = block_bytes fs0" and seq: "fb_seq disk fs0 (rd_file_blocks self) (b # bs, r)"
    and dir: "reads_dir inode path self" and id: "rd_inode self = in_index inode" "rd_path self = path"
    using at by (auto simp: rd_at_def reads_dir_def)
  from fb_seq_item[OF dev g seq] obtain fb fs1 where
    f: "FileBlocks_next (rd_file_blocks self, fs) = (Ok (Some b), (fb, fs1))" "good disk fs0 fs1"
    "fb_seq disk fs0 fb (bs, r)" by metis
  let ?db = "dir_block_at inode (rd_is_first_block self) b"
  from DirBlock_read_run[OF dev f(2), of ?db] obtain fs2 where
    d: "DirBlock_read ?db (block_bytes fs0) fs1 = (dir_block_spec disk fs0 ?db, fs2)" "good disk fs0 fs2" by blast
  note impl = next_impl_block[OF idx f(1,2) len dir d(1) block_shape, unfolded id]
  have np: "dir_block_spec disk fs0 ?db \<noteq> Panic" using at idx by (simp add: rd_at_def)
  have rest: "rd_rest disk fs0 inode path self (b # bs) r = out_append (block_entries disk fs0 inode path (rd_is_first_block self) b)
      (blocks_entries disk fs0 inode path False bs r)" using idx by (simp add: rd_rest_def)
  from g np show ?thesis
  proof (cases rule: dir_block_spec_good_cases)
    case (ok block)
    then have "0 < length block" using block_bytes_bounds(1)[OF g] by simp
    note scan = scan_step[OF this, of "in_index inode" path]
    show ?thesis
    proof (cases rule: DirEntry_from_bytes_cases[of block "in_index inode" path])
      case (entry e n)
      let ?self = "self\<lparr>rd_file_blocks := fb, rd_block_index := Some b, rd_offset_within_block := n, rd_block := block\<rparr>"
      have "rd_rest disk fs0 inode path self (b # bs) r = out_append (entry_out e) (rd_rest disk fs0 inode path ?self bs r)"
        unfolding rest using ok entry(1) scan by (simp add: rd_rest_def block_entries_def out_append_assoc)
      then show ?thesis
        by (intro rd_step.moves[where self' = ?self and fs' = fs2 and bs' = bs])
           (use impl ok entry d(2) f(3) at in \<open>auto simp: rd_at_def reads_dir_def Let_def\<close>)
    next
      case (error e)
      with impl ok scan show ?thesis by (intro rd_step.fails) (auto simp: rest block_entries_def Let_def)
    qed
  next
    case (error e)
    with impl show ?thesis by (intro rd_step.fails) (auto simp: rest block_entries_def Let_def)
  qed
qed

lemma rd_step_last:
  assumes dev: "device_complete fs0" and g: "good disk fs0 fs" and at: "rd_at disk fs0 inode path self [] r"
    and idx: "rd_block_index self = None"
  shows "rd_step disk fs0 inode path r self fs []"
proof -
  have seq: "fb_seq disk fs0 (rd_file_blocks self) ([], r)" using at by (simp add: rd_at_def)
  show ?thesis
  proof (cases r)
    case None
    from fb_seq_end[OF dev g] seq None obtain fb fs' where
      "FileBlocks_next (rd_file_blocks self, fs) = (Ok None, (fb, fs'))" by metis
    from next_impl_end[OF idx this] idx None show ?thesis by (intro rd_step.ends) (auto simp: rd_rest_def)
  next
    case (Some e)
    from fb_seq_err[OF dev g] seq Some obtain fb fs' where
      "FileBlocks_next (rd_file_blocks self, fs) = (Err e, (fb, fs'))" by metis
    from next_impl_err[OF idx this] idx Some show ?thesis by (intro rd_step.fails) (auto simp: rd_rest_def)
  qed
qed

lemma rd_at_step:
  assumes "device_complete fs0" and "good disk fs0 fs" and "rd_at disk fs0 inode path self bs r"
  shows "rd_step disk fs0 inode path r self fs bs"
proof (cases "rd_block_index self")
  case None
  with assms rd_step_block rd_step_last show ?thesis by (cases bs) blast+
qed (use assms rd_step_record rd_step_block_end in blast)

lemma ReadDir_next_outputs:
  assumes "\<not> rd_is_done self"
  shows "ReadDir_next_impl (self, fs) = (Ok None, s') \<Longrightarrow> outputs ReadDir_next s' q \<Longrightarrow> outputs ReadDir_next (self, fs) q"
    and "ReadDir_next_impl (self, fs) = (Ok (Some d), s') \<Longrightarrow> outputs ReadDir_next s' q \<Longrightarrow>
      outputs ReadDir_next (self, fs) (d # fst q, snd q)"
    and "ReadDir_next_impl (self, fs) = (Err e, s') \<Longrightarrow> outputs ReadDir_next (self, fs) ([], Some e)"
  using assms unfolding ReadDir_next_def
  by (simp_all add: outputs_step outputs_item outputs_err)

lemma ReadDir_outputs:
  assumes "device_complete fs0" and "good disk fs0 fs" and "rd_at disk fs0 inode path self bs r"
  shows "outputs ReadDir_next (self, fs) (rd_rest disk fs0 inode path self bs r)"
  using assms(2-)
proof (induction "(self, bs)" arbitrary: self bs fs rule: wf_induct_rule[OF wf_measures[of
      "[\<lambda>(self, bs). length bs,
        \<lambda>(self, bs). case rd_block_index self of None \<Rightarrow> 0 | Some b \<Rightarrow> 1 + (block_bytes fs0 - rd_offset_within_block self)]"]])
  case (1 self bs)
  have "\<not> rd_is_done self" using 1(3) by (simp add: rd_at_def)
  note nx = ReadDir_next_outputs[OF this, of fs]
  from rd_at_step[OF assms(1) 1(2,3)] show ?case
  proof cases
    case (moves e self' fs' bs')
    have o: "outputs ReadDir_next (self', fs') (rd_rest disk fs0 inode path self' bs' r)"
      by (rule 1(1)[OF moves(4,2,3)])
    show ?thesis
    proof (cases e)
      case None
      with nx(1)[OF _ o] moves(1,5) show ?thesis by simp
    next
      case (Some d)
      with nx(2)[OF _ o] moves(1,5) show ?thesis by simp
    qed
  next
    case (ends self' fs')
    have "outputs ReadDir_next (self', fs') ([], None)"
      unfolding ReadDir_next_def by (rule outputs_done) (simp add: ends(2))
    with nx(1)[OF ends(1)] ends(3) show ?thesis by simp
  next
    case (fails e self' fs')
    with nx(3) show ?thesis by simp
  qed
qed

section \<open>Properties\<close>

lemma ReadDir_new_cases:
  assumes "\<not> contains (in_flags inode) DIRECTORY_ENCRYPTED" and "FileBlocks_new inode = Ok fb"
  obtains it where "ReadDir_new fs inode path = Ok it" "reads_dir inode path it" "rd_file_blocks it = fb"
    "rd_block_index it = None" "rd_is_first_block it" "\<not> rd_is_done it" "length (rd_block it) = block_bytes fs"
  using assms by (simp add: ReadDir_new_def reads_dir_def BlockSize_to_usize_def usize_from_u32_def Let_def require_def)

text \<open>A directory whose blocks can be iterated and none of whose blocks makes the reader panic.\<close>

definition dir_ok :: "(nat \<Rightarrow> u8) \<Rightarrow> Ext4 \<Rightarrow> Inode \<Rightarrow> FsBlockIndex list \<Rightarrow> bool" where
  "dir_ok disk fs inode bs \<longleftrightarrow> \<not> contains (in_flags inode) DIRECTORY_ENCRYPTED \<and> inode_blocks disk fs inode bs \<and>
     counts_fit disk fs inode True bs"

lemma ReadDir_new_outputs:
  assumes "device_complete fs0" and "good disk fs0 fs" and "dir_ok disk fs0 inode bs"
  obtains it where "ReadDir_new fs0 inode path = Ok it"
    "\<And>fs. good disk fs0 fs \<Longrightarrow> outputs ReadDir_next (it, fs) (blocks_entries disk fs0 inode path True bs None)"
proof -
  from assms(3) obtain fb where fb: "FileBlocks_new inode = Ok fb" "fb_seq disk fs0 fb (bs, None)"
    by (auto simp: dir_ok_def inode_blocks_def)
  from ReadDir_new_cases[OF _ fb(1), of fs0 path] assms(3) obtain it where
    it: "ReadDir_new fs0 inode path = Ok it" "reads_dir inode path it" "rd_file_blocks it = fb"
    "rd_block_index it = None" "rd_is_first_block it" "\<not> rd_is_done it" "length (rd_block it) = block_bytes fs0"
    by (auto simp: dir_ok_def)
  then have "rd_at disk fs0 inode path it bs None" using assms(3) fb(2) by (simp add: rd_at_def dir_ok_def)
  from ReadDir_outputs[OF assms(1) _ this] it that show ?thesis by (simp add: rd_rest_def)
qed

text \<open>C13: Iterating over a directory yields exactly the entries of its blocks, in the order of the blocks of the
  file and of the records in each block, skipping the records of inode 0, and ends; an error in a block
  (a record that cannot be parsed, a checksum that does not match) is returned after the entries before it.\<close>

theorem read_dir_lists_entries:
  assumes "fs_ok disk fs" and "device_complete fs" and "dir_ok disk fs inode bs"
  shows "\<exists>it. ReadDir_new fs inode path = Ok it \<and>
     outputs ReadDir_next (it, fs) (blocks_entries disk fs inode path True bs None)"
  using ReadDir_new_outputs[OF assms(2) good_refl[OF assms(1)] assms(3)] good_refl[OF assms(1)] by metis

text \<open>A directory of three blocks: two entries in the first, none in the others.\<close>

definition sample_dir :: Inode where
  "sample_dir = leaf_inode\<lparr>in_metadata := \<lparr>md_size_in_bytes = 3072, md_mode = 0x4000, md_file_type = Directory,
     md_uid = 0, md_gid = 0\<rparr>\<rparr>"

definition dir_block_a :: bytes where
  "dir_block_a = encode_entry 12 12 Directory [0x2e] @ replicate 3 0 @ encode_entry 13 1012 Regular [0x61] @ replicate 1003 0"

definition unused_block :: bytes where
  "unused_block = [0, 0, 0, 0, 0, 4] @ replicate 1018 0"

definition dir_image :: bytes where
  "dir_image = replicate 7168 0 @ dir_block_a @ unused_block @ unused_block @ replicate 6144 0"

lemma dir_image_blocks:
  "disk_range (disk_of dir_image) 7168 1024 = dir_block_a" "disk_range (disk_of dir_image) 8192 1024 = unused_block"
  "disk_range (disk_of dir_image) 9216 1024 = unused_block" "length dir_image = 16384"
proof -
  have l: "length dir_block_a = 1024" "length unused_block = 1024"
    by (simp_all add: dir_block_a_def unused_block_def encode_entry_def)
  show "disk_range (disk_of dir_image) 7168 1024 = dir_block_a"
    using disk_range_disk_of[of "replicate 7168 0" dir_block_a "unused_block @ unused_block @ replicate 6144 0"] l
    by (simp add: dir_image_def)
  show "disk_range (disk_of dir_image) 8192 1024 = unused_block"
    using disk_range_disk_of[of "replicate 7168 0 @ dir_block_a" unused_block "unused_block @ replicate 6144 0"] l
    by (simp add: dir_image_def)
  show "disk_range (disk_of dir_image) 9216 1024 = unused_block"
    using disk_range_disk_of[of "replicate 7168 0 @ dir_block_a @ unused_block" unused_block "replicate 6144 0"] l
    by (simp add: dir_image_def)
  show "length dir_image = 16384" using l by (simp add: dir_image_def)
qed

lemma dir_image_read:
  assumes "b \<in> {7, 8, 9}"
  shows "dir_block_spec (disk_of dir_image) (sample_fs dir_image) (dir_block_at sample_dir first b) =
     Ok (if b = 7 then dir_block_a else unused_block)"
  using assms dir_image_blocks
  by (auto simp: dir_block_spec_def block_read_spec_def readable_def verify_block_def has_metadata_checksums_def
      sample_superblock_def contains_def dir_block_at_def)

lemma dir_image_ok: "dir_ok (disk_of dir_image) (sample_fs dir_image) sample_dir [7, 8, 9]"
proof -
  have "inode_blocks (disk_of dir_image) (sample_fs dir_image) sample_dir [7, 8, 9]"
    using leaf_inode_blocks[OF dir_image_blocks(4)] by (simp add: sample_dir_def)
  moreover have "\<not> contains (in_flags sample_dir) DIRECTORY_ENCRYPTED"
    by (simp add: sample_dir_def leaf_inode_def contains_def)
  ultimately show ?thesis by (simp add: dir_ok_def dir_image_read)
qed

definition entry_of :: "InodeIndex \<Rightarrow> FileType \<Rightarrow> DirEntryName \<Rightarrow> DirEntry" where
  "entry_of i t name = \<lparr>de_inode = i, de_name = (case DirEntryNameBuf_try_from name of Ok b \<Rightarrow> b), de_path = [],
     de_file_type = t\<rparr>"

lemma dir_block_a_entries:
  "scan_entries i [] dir_block_a 0 = ([entry_of 12 Directory [0x2e], entry_of 13 Regular [0x61]], None)"
proof -
  have n: "\<exists>b. DirEntryNameBuf_try_from [0x2e] = Ok b" "\<exists>b. DirEntryNameBuf_try_from [0x61] = Ok b"
    by (simp_all add: DirEntryNameBuf_try_from_def DirEntryName_try_from_def word_try_from_def MAX_LEN_def SEPARATOR_def Let_def)
  then obtain b1 b2 where b: "DirEntryNameBuf_try_from [0x2e] = Ok b1" "DirEntryNameBuf_try_from [0x61] = Ok b2" by blast
  have l: "length dir_block_a = 1024" by (simp add: dir_block_a_def encode_entry_def)
  have d: "drop 12 dir_block_a = encode_entry 13 1012 Regular [0x61] @ replicate 1003 0"
    by (simp add: dir_block_a_def encode_entry_def)
  have 1: "DirEntry_from_bytes dir_block_a i [] = Ok (Some (entry_of 12 Directory [0x2e]), 12)"
    using dir_entry_roundtrip[OF b(1), of 12 12 Directory "replicate 3 0 @ encode_entry 13 1012 Regular [0x61] @ replicate 1003 0" i "[]"] b(1)
    by (simp add: dir_block_a_def entry_of_def)
  have 2: "DirEntry_from_bytes (drop 12 dir_block_a) i [] = Ok (Some (entry_of 13 Regular [0x61]), 1012)"
    using dir_entry_roundtrip[OF b(2), of 13 1012 Regular "replicate 1003 0" i "[]"] b(2) d by (simp add: entry_of_def)
  from 1 2 l show ?thesis
    using scan_step[of 0 dir_block_a i "[]"] scan_step[of 12 dir_block_a i "[]"] scan_end[of dir_block_a 1024 i "[]"]
    by simp
qed

lemma unused_block_entries: "scan_entries i path unused_block 0 = ([], None)"
proof -
  have "DirEntry_from_bytes unused_block i path = Ok (None, 1024)"
    by (simp add: DirEntry_from_bytes_def unused_block_def u32le_at_nth u16le_at_nth NAME_OFFSET_def Let_def require_def
        assert_o_def nonzero_new_def usize_max_def)
  then show ?thesis
    using scan_step[of 0 unused_block i path] scan_end[of unused_block 1024 i path] by (simp add: unused_block_def)
qed

lemma dir_image_entries:
  "blocks_entries (disk_of dir_image) (sample_fs dir_image) sample_dir [] first [7, 8, 9] None =
     ([entry_of 12 Directory [0x2e], entry_of 13 Regular [0x61]], None)"
  by (simp add: block_entries_def dir_image_read dir_block_a_entries unused_block_entries)

theorem read_dir_lists_entries_witness:
  "\<exists>it. ReadDir_new (sample_fs dir_image) sample_dir [] = Ok it \<and>
     outputs ReadDir_next (it, sample_fs dir_image) ([entry_of 12 Directory [0x2e], entry_of 13 Regular [0x61]], None)"
  using read_dir_lists_entries[OF sample_fs_ok sample_fs_complete[OF dir_image_blocks(4)] dir_image_ok, of "[]"]
  by (simp only: dir_image_entries)

end
