(* ===== verification/Iter_Loops.thy ===== *)
theory Iter_Loops
  imports File_Blocks
begin

text \<open>
  How the code consumes iterators inside a function: a \<open>for\<close> loop that may return early, \<open>Iterator::nth\<close>, and
  an iterator that lives only for the duration of a call. A loop over an iterator ends only if the
  iterator does.
\<close>

definition with_iter :: "'i \<Rightarrow> ('i \<times> 't, 'a, 'e) comp \<Rightarrow> ('t, 'a, 'e) comp" where
  "with_iter it m t = (case m (it, t) of (r, (_, t')) \<Rightarrow> (r, t'))"

text \<open>\<open>for item in iter { let item = item?; body }\<close>: the body returns a value (\<open>Some\<close>), fails, or goes on
  (\<open>None\<close>). One round of the loop has \<open>None\<close> if the loop goes on, and otherwise its result; the rounds
  are repeated in the same way as those of \<open>next\<close>, so a loop that does not end diverges.\<close>

definition for_round :: "('s, 'a option, 'e) comp \<Rightarrow> ('a \<Rightarrow> ('b option, 'e) outcome) \<Rightarrow> ('s, 'b option option, 'e) comp" where
  "for_round nxt body =
     bindc nxt (\<lambda>item.
     case item of
       None \<Rightarrow> ret (Some None)
     | Some x \<Rightarrow> bindc (lift (body x)) (\<lambda>y. ret (case y of None \<Rightarrow> None | Some z \<Rightarrow> Some (Some z))))"

definition for_each :: "('s, 'a option, 'e) comp \<Rightarrow> ('a \<Rightarrow> ('b option, 'e) outcome) \<Rightarrow> ('s, 'b option, 'e) comp" where
  "for_each nxt body =
     bindc (result_iter_next (\<lambda>_. False) (\<lambda>s. s) (for_round nxt body)) (\<lambda>r. ret (case r of None \<Rightarrow> None | Some y \<Rightarrow> y))"

text \<open>\<open>Iterator::nth\<close>: it skips items, errors among them, and stops at the end.\<close>

primrec nth_item :: "('s, 'a option, 'e) comp \<Rightarrow> nat \<Rightarrow> ('s, 'a option, 'e) comp" where
  "nth_item nxt 0 s = nxt s"
| "nth_item nxt (Suc n) s =
     (case nxt s of
        (Ok None, s') \<Rightarrow> (Ok None, s')
      | (Ok (Some _), s') \<Rightarrow> nth_item nxt n s'
      | (Err _, s') \<Rightarrow> nth_item nxt n s'
      | (Panic, s') \<Rightarrow> (Panic, s')
      | (Diverge, s') \<Rightarrow> (Diverge, s'))"

section \<open>Loops over the output of an iterator\<close>

fun find_in :: "('a \<Rightarrow> ('b option, 'e) outcome) \<Rightarrow> 'a list \<Rightarrow> 'e option \<Rightarrow> ('b option, 'e) outcome" where
  "find_in body [] None = Ok None"
| "find_in body [] (Some e) = Err e"
| "find_in body (x # xs) r = (case body x of Ok None \<Rightarrow> find_in body xs r | q \<Rightarrow> q)"

lemma for_round_simps:
  "nxt s = (Ok None, s1) \<Longrightarrow> for_round nxt body s = (Ok (Some None), s1)"
  "nxt s = (Err e, s1) \<Longrightarrow> for_round nxt body s = (Err e, s1)"
  "nxt s = (Ok (Some x), s1) \<Longrightarrow> for_round nxt body s =
     ((case body x of Ok None \<Rightarrow> Ok None | Ok (Some z) \<Rightarrow> Ok (Some (Some z)) | Err e \<Rightarrow> Err e | Panic \<Rightarrow> Panic | Diverge \<Rightarrow> Diverge), s1)"
  by (simp_all add: for_round_def bindc_def ret_def lift_def split: outcome.split option.split)

lemma for_loop_outputs:
  "outputs nxt s (xs, r) \<Longrightarrow> \<exists>s'. result_iter_loop (\<lambda>_. False) (\<lambda>s. s) (for_round nxt body) s =
     Some (case find_in body xs r of Ok y \<Rightarrow> Ok (Some y) | Err e \<Rightarrow> Err e | Panic \<Rightarrow> Panic | Diverge \<Rightarrow> Diverge, s')"
proof (induction xs arbitrary: s)
  case Nil
  then show ?case
    by (cases r) (auto simp: result_iter_loop.simps for_round_simps elim: outputs_endD outputs_errD)
next
  case (Cons x xs)
  from outputs_ConsD[OF Cons(2)] obtain s1 where s1: "nxt s = (Ok (Some x), s1)" "outputs nxt s1 (xs, r)" by blast
  from Cons(1)[OF s1(2)] obtain s' where
    "result_iter_loop (\<lambda>_. False) (\<lambda>s. s) (for_round nxt body) s1 =
      Some (case find_in body xs r of Ok y \<Rightarrow> Ok (Some y) | Err e \<Rightarrow> Err e | Panic \<Rightarrow> Panic | Diverge \<Rightarrow> Diverge, s')" by blast
  with s1(1) show ?case
    by (auto simp: result_iter_loop.simps[of _ _ _ s] for_round_simps(3)[of nxt s x s1] split: outcome.split option.split)
qed

lemma for_each_outputs:
  "outputs nxt s (xs, r) \<Longrightarrow> fst (for_each nxt body s) = find_in body xs r"
  using for_loop_outputs[of nxt s xs r body]
  by (cases "find_in body xs r") (auto simp: for_each_def result_iter_next_def bindc_def ret_def)

text \<open>A loop over an iterator that does not see the cache does not see it either.\<close>

lemma for_each_blind [blind_intros]:
  assumes "blind disk fs0 nxt"
  shows "blind disk fs0 (for_each nxt body)"
proof -
  have "blind disk fs0 (for_round nxt body)" unfolding for_round_def by (intro blind_intros assms)
  from blind_iter[OF this, of "\<lambda>_. False" "\<lambda>x. x"]
  have "blind disk fs0 (result_iter_next (\<lambda>_. False) (\<lambda>s. s) (for_round nxt body))" by simp
  then show ?thesis unfolding for_each_def by (intro blind_intros)
qed

lemma for_each_good:
  assumes "blind disk fs0 nxt" and "good disk fs0 fs"
  shows "good disk fs0 (snd (snd (for_each nxt body (it, fs))))"
  using blindE[OF for_each_blind[OF assms(1), of body], of it] assms(2) by (metis snd_conv)

lemma with_for_each_computes:
  assumes "blind disk fs0 nxt" and "good disk fs0 fs" and "outputs nxt (it, fs) (xs, r)"
  shows "computes disk fs0 fs (with_iter it (for_each nxt body)) (find_in body xs r)"
  using for_each_good[OF assms(1,2), of body it] for_each_outputs[OF assms(3), of body]
  by (auto simp: computes_def with_iter_def split: prod.splits)

text \<open>The item of a position; past an error there is nothing.\<close>

lemma nth_item_outputs:
  assumes "\<And>s e s'. nxt s = (Err e, s') \<Longrightarrow> nxt s' = (Ok None, s')" and "outputs nxt s (xs, r)"
  shows "fst (nth_item nxt n s) = (if n < length xs then Ok (Some (xs ! n))
     else if n = length xs then (case r of None \<Rightarrow> Ok None | Some e \<Rightarrow> Err e) else Ok None)"
  using assms(2)
proof (induction n arbitrary: s xs)
  case 0
  then show ?case
    by (cases xs; cases r) (auto elim: outputs_endD outputs_errD outputs_ConsD)
next
  case (Suc n)
  show ?case
  proof (cases xs)
    case Nil
    show ?thesis
    proof (cases r)
      case None
      with Suc Nil show ?thesis by (auto elim: outputs_endD)
    next
      case (Some e)
      with Suc(2) Nil obtain s' where s': "nxt s = (Err e, s')" by (auto elim: outputs_errD)
      have "fst (nth_item nxt n s') = Ok None" by (cases n) (simp_all add: assms(1)[OF s'])
      with s' Nil show ?thesis by simp
    qed
  next
    case (Cons x ys)
    with Suc(2) obtain s' where "nxt s = (Ok (Some x), s')" "outputs nxt s' (ys, r)" by (auto elim: outputs_ConsD)
    with Suc(1)[of s' ys] Cons show ?thesis by simp
  qed
qed

lemma nth_item_blind:
  assumes "blind disk fs0 nxt" and "good disk fs0 fs"
  shows "good disk fs0 (snd (snd (nth_item nxt n (it, fs))))"
  using assms(2)
proof (induction n arbitrary: it fs)
  case 0
  from blindE[OF assms(1), of it] 0 show ?case by (metis nth_item.simps(1) snd_conv)
next
  case (Suc n)
  obtain q i where "\<And>fs. good disk fs0 fs \<Longrightarrow> \<exists>fs'. nxt (it, fs) = (q, (i, fs')) \<and> good disk fs0 fs'"
    using blindE[OF assms(1), of it] by blast
  from this[OF Suc(2)] obtain fs1 where "nxt (it, fs) = (q, (i, fs1))" "good disk fs0 fs1" by blast
  with Suc(1) show ?case by (auto split: outcome.split option.split)
qed

end
