(* ===== verification/Dir_Htree.thy ===== *)
theory Dir_Htree
  imports Dir_Hash Read_Dir Iter_Loops
begin

text \<open>
  Looking up a name in the htree of a directory (\<^verbatim>\<open>src/src/dir_htree.rs\<close>): a tree whose inner nodes map hashes
  to blocks of the directory. A node is searched by bisection, which is compared with a linear search. What a
  well-formed htree is (\<open>htree_wf\<close>) is read from the bytes on the disk, as an ordered search tree over the hashes
  of the format; the lookup in such a tree finds what a scan of the directory finds.
\<close>

type_synonym DirHash = u32
type_synonym FileBlockIndex = u32

section \<open>Inner nodes\<close>

record InternalNode =
  nd_entries :: bytes

definition ENTRY_SIZE :: usize where
  "ENTRY_SIZE = 8"

definition InternalNode_new :: "bytes \<Rightarrow> InodeIndex \<Rightarrow> InternalNode result" where
  "InternalNode_new bytes inode =
     bind_o (require (\<not> length bytes < ENTRY_SIZE) (Corrupt (HtreeInternalNodeMissingHeader inode (length bytes)))) (\<lambda>_.
     bind_o (read_u16le bytes 2) (\<lambda>count.
     let count = unat count in
     bind_o (unwrap (usize_mul ENTRY_SIZE count)) (\<lambda>end_byte.
     bind_o (ok_or (Corrupt (HtreeInternalNodeCountTooLarge inode count (length bytes))) (get_range bytes 0 end_byte))
       (\<lambda>bytes.
     Ok \<lparr>nd_entries = bytes\<rparr>))))"

definition InternalNode_from_root_block :: "bytes \<Rightarrow> InodeIndex \<Rightarrow> InternalNode result" where
  "InternalNode_from_root_block block inode =
     bind_o (slice block 0x20 (length block)) (\<lambda>bytes. InternalNode_new bytes inode)"

definition InternalNode_from_non_root_block :: "bytes \<Rightarrow> InodeIndex \<Rightarrow> InternalNode result" where
  "InternalNode_from_non_root_block block inode =
     bind_o (slice block 0x8 (length block)) (\<lambda>bytes. InternalNode_new bytes inode)"

definition InternalNode_get_entry :: "InternalNode \<Rightarrow> usize \<Rightarrow> (DirHash \<times> FileBlockIndex) result" where
  "InternalNode_get_entry self index =
     bind_o (unwrap (usize_mul ENTRY_SIZE index)) (\<lambda>offset.
     bind_o (unwrap (usize_add offset 4)) (\<lambda>block_offset.
     bind_o (read_u32le (nd_entries self) block_offset) (\<lambda>block.
     bind_o (if index = 0 then Ok 0 else read_u32le (nd_entries self) offset) (\<lambda>hash.
     Ok (hash, block)))))"

definition InternalNode_num_entries :: "InternalNode \<Rightarrow> usize" where
  "InternalNode_num_entries self = length (nd_entries self) div ENTRY_SIZE"

text \<open>The loop of \<open>lookup_block_by_hash\<close>; \<open>None\<close> is the early return of a failed \<open>checked_\<close> operation.\<close>

function lookup_loop :: "InternalNode \<Rightarrow> DirHash \<Rightarrow> usize \<Rightarrow> usize \<Rightarrow> usize option result" where
  "lookup_loop self lookup_hash left right =
     (if left \<le> right then
        case usize_add left right of
          None \<Rightarrow> Ok None
        | Some twice_mid \<Rightarrow>
            let mid = twice_mid div 2 in
            bind_o (InternalNode_get_entry self mid) (\<lambda>mid_entry.
            if fst mid_entry \<le> lookup_hash then
              case usize_add mid 1 of None \<Rightarrow> Ok None | Some left \<Rightarrow> lookup_loop self lookup_hash left right
            else
              case usize_sub mid 1 of None \<Rightarrow> Ok None | Some right \<Rightarrow> lookup_loop self lookup_hash left right)
      else Ok (Some left))"
  by pat_completeness auto
termination
  by (relation "measure (\<lambda>(self, h, left, right). right + 1 - left)")
     (auto simp: usize_add_def usize_sub_def split: if_splits)

declare lookup_loop.simps [simp del]

definition lookup_block_by_hash :: "InternalNode \<Rightarrow> DirHash \<Rightarrow> FileBlockIndex option result" where
  "lookup_block_by_hash self lookup_hash =
     (case usize_sub (InternalNode_num_entries self) 1 of
        None \<Rightarrow> Ok None
      | Some right \<Rightarrow>
          bind_o (lookup_loop self lookup_hash 0 right) (\<lambda>left.
          case Option.bind left (\<lambda>left. usize_sub left 1) of
            None \<Rightarrow> Ok None
          | Some index \<Rightarrow> bind_o (InternalNode_get_entry self index) (\<lambda>(_, block). Ok (Some block))))"

section \<open>Descending the tree\<close>

definition read_root_block :: "Inode \<Rightarrow> usize \<Rightarrow> bytes fs_op" where
  "read_root_block inode block_len =
     bindc (lift (FileBlocks_new inode)) (\<lambda>file_blocks.
     bindc (with_iter file_blocks FileBlocks_next) (\<lambda>item.
     bindc (lift (ok_or (Corrupt (CorruptDirEntry (in_index inode))) item)) (\<lambda>block_index.
     DirBlock_read \<lparr>dk_block_index = block_index, dk_is_first = True, dk_dir_inode = in_index inode,
       dk_has_htree = True, dk_checksum_base = in_checksum_base inode\<rparr> block_len)))"

definition read_dot_or_dotdot :: "Inode \<Rightarrow> DirEntryName \<Rightarrow> bytes \<Rightarrow> DirEntry option result" where
  "read_dot_or_dotdot inode name block =
     (let corrupt = Corrupt (CorruptDirEntry (in_index inode));
          offset = (if name = [0x2e] then Some 0 else if name = [0x2e, 0x2e] then Some 12 else None) in
      case offset of
        None \<Rightarrow> Ok None
      | Some offset \<Rightarrow>
          bind_o (slice block offset (length block)) (\<lambda>bytes.
          bind_o (DirEntry_from_bytes bytes (in_index inode) []) (\<lambda>(entry, _).
          bind_o (ok_or corrupt entry) (\<lambda>entry.
          bind_o (DirEntry_file_name entry) (\<lambda>file_name.
          if file_name = name then Ok (Some entry) else Err corrupt)))))"

definition find_extent_for_block :: "Inode \<Rightarrow> FileBlockIndex \<Rightarrow> Extent fs_op" where
  "find_extent_for_block inode block =
     bindc (lift (Extents_new inode)) (\<lambda>extents.
     bindc (with_iter extents (for_each Extents_next (\<lambda>extent.
       let start = ex_block_within_file extent in
       bind_o (ok_or (Corrupt (CorruptDirEntry (in_index inode))) (checked_add start (ucast (ex_num_blocks extent))))
         (\<lambda>end_block.
       if block \<ge> start \<and> block < end_block then Ok (Some extent) else Ok None)))) (\<lambda>found.
     lift (ok_or (Corrupt (CorruptDirEntry (in_index inode))) found)))"

definition block_from_file_block :: "Inode \<Rightarrow> FileBlockIndex \<Rightarrow> FsBlockIndex fs_op" where
  "block_from_file_block inode relative_block =
     (if contains (in_flags inode) EXTENTS then
        bindc (find_extent_for_block inode relative_block) (\<lambda>extent.
        bindc (lift (ok_or (Corrupt (CorruptDirEntry (in_index inode)))
                 (checked_sub relative_block (ex_block_within_file extent)))) (\<lambda>block_within_extent.
        lift (ok_or (Corrupt (CorruptDirEntry (in_index inode)))
          (checked_add (ex_start_block extent) (ucast block_within_extent)))))
      else
        bindc (lift (FileBlocks_new inode)) (\<lambda>block_map.
        bindc (with_iter block_map (nth_item FileBlocks_next (usize_from_u32 relative_block))) (\<lambda>item.
        lift (ok_or (Corrupt (CorruptDirEntry (in_index inode))) item))))"

text \<open>The loop over the levels \<open>0..=depth\<close>, by the number of levels still to descend below this one.\<close>

primrec descend :: "Inode \<Rightarrow> DirHash \<Rightarrow> usize \<Rightarrow> nat \<Rightarrow> FileBlockIndex \<Rightarrow> bytes fs_op" where
  "descend inode hash block_len 0 child_block_relative =
     bindc (block_from_file_block inode child_block_relative) (\<lambda>block_index.
     DirBlock_read \<lparr>dk_block_index = block_index, dk_is_first = False, dk_dir_inode = in_index inode,
       dk_has_htree = True, dk_checksum_base = in_checksum_base inode\<rparr> block_len)"
| "descend inode hash block_len (Suc levels) child_block_relative =
     bindc (block_from_file_block inode child_block_relative) (\<lambda>block_index.
     bindc (DirBlock_read \<lparr>dk_block_index = block_index, dk_is_first = False, dk_dir_inode = in_index inode,
       dk_has_htree = True, dk_checksum_base = in_checksum_base inode\<rparr> block_len) (\<lambda>block.
     bindc (lift (InternalNode_from_non_root_block block (in_index inode))) (\<lambda>inner_node.
     bindc (lift (lookup_block_by_hash inner_node hash)) (\<lambda>child.
     bindc (lift (ok_or (Corrupt (CorruptDirEntry (in_index inode))) child)) (\<lambda>child_block_relative.
     descend inode hash block_len levels child_block_relative)))))"

definition find_leaf_node :: "Inode \<Rightarrow> DirEntryName \<Rightarrow> bytes \<Rightarrow> bytes fs_op" where
  "find_leaf_node inode name block =
     bindc (lift (index_at block 0x1c)) (\<lambda>alg.
     bindc (lift (HashAlg_from_u8 alg)) (\<lambda>hash_alg.
     bindc (lift (index_at block 0x1e)) (\<lambda>depth.
     bindc (lift (InternalNode_from_root_block block (in_index inode))) (\<lambda>root_node.
     bindc (gets (\<lambda>fs. sb_htree_hash_seed (fs_superblock fs))) (\<lambda>seed.
     bindc (lift (HashAlg_hash hash_alg name seed)) (\<lambda>hash.
     bindc (lift (lookup_block_by_hash root_node hash)) (\<lambda>child.
     bindc (lift (ok_or (Corrupt (CorruptDirEntry (in_index inode))) child)) (\<lambda>child_block_relative.
     descend inode hash (length block) (unat depth) child_block_relative))))))))"

text \<open>The linear search of a leaf block.\<close>

function search_leaf :: "InodeIndex \<Rightarrow> DirEntryName \<Rightarrow> bytes \<Rightarrow> usize \<Rightarrow> DirEntry result" where
  "search_leaf inode name block offset_within_block =
     (if offset_within_block < length block then
        bind_o (slice block offset_within_block (length block)) (\<lambda>bytes.
        case DirEntry_from_bytes bytes inode [] of
          Ok (dir_entry, entry_size) \<Rightarrow>
            (case usize_add offset_within_block entry_size of
               None \<Rightarrow> Err (Corrupt (CorruptDirEntry inode))
             | Some offset_within_block \<Rightarrow>
                 (case dir_entry of
                    None \<Rightarrow> search_leaf inode name block offset_within_block
                  | Some dir_entry \<Rightarrow>
                      bind_o (DirEntry_file_name dir_entry) (\<lambda>file_name.
                      if file_name = name then Ok dir_entry
                      else search_leaf inode name block offset_within_block)))
        | Err e \<Rightarrow> Err e
        | Panic \<Rightarrow> Panic
        | Diverge \<Rightarrow> Diverge)
      else Err NotFound)"
  by pat_completeness auto
termination
  by (relation "measure (\<lambda>(inode, name, block, offset). length block - offset)")
     (auto dest!: record_length simp: usize_add_def split: if_splits)

declare search_leaf.simps [simp del]

definition get_dir_entry_via_htree :: "Inode \<Rightarrow> DirEntryName \<Rightarrow> DirEntry fs_op" where
  "get_dir_entry_via_htree inode name =
     bindc (lift (assert_o (contains (in_flags inode) DIRECTORY_HTREE))) (\<lambda>_.
     bindc (gets (\<lambda>fs. sb_block_size (fs_superblock fs))) (\<lambda>block_size.
     bindc (read_root_block inode (BlockSize_to_usize block_size)) (\<lambda>block.
     bindc (lift (read_dot_or_dotdot inode name block)) (\<lambda>entry.
     case entry of
       Some entry \<Rightarrow> ret entry
     | None \<Rightarrow>
         bindc (find_leaf_node inode name block) (\<lambda>block.
         lift (search_leaf (in_index inode) name block 0))))))"

section \<open>Bisection\<close>

definition node_ok :: "InternalNode \<Rightarrow> bool" where
  "node_ok node \<longleftrightarrow> length (nd_entries node) mod 8 = 0 \<and> length (nd_entries node) < 8 * 65536"

definition node_key :: "InternalNode \<Rightarrow> nat \<Rightarrow> DirHash" where
  "node_key node i = (if i = 0 then 0 else u32le_at (nd_entries node) (8 * i))"

definition node_block :: "InternalNode \<Rightarrow> nat \<Rightarrow> FileBlockIndex" where
  "node_block node i = u32le_at (nd_entries node) (8 * i + 4)"

definition sorted_node :: "InternalNode \<Rightarrow> bool" where
  "sorted_node node \<longleftrightarrow> sorted (map (node_key node) [0..<InternalNode_num_entries node])"

text \<open>The specification: the last entry whose key is at most the hash.\<close>

definition linear_lookup :: "InternalNode \<Rightarrow> DirHash \<Rightarrow> FileBlockIndex" where
  "linear_lookup node h =
     node_block node (last (filter (\<lambda>i. node_key node i \<le> h) [0..<InternalNode_num_entries node]))"

lemma InternalNode_new_holds:
  "holds (InternalNode_new bytes inode) node_ok (\<lambda>_. True)"
proof -
  have "unat (u16le_at bytes 2) < 65536" using unat_less_bound[of "u16le_at bytes 2"] by simp
  then show ?thesis
    by (auto simp: InternalNode_new_def ENTRY_SIZE_def usize_mul_def usize_max_def node_ok_def get_range_def Let_def
        holds_ok_or split: option.split)
qed

lemma get_entry_ok:
  assumes "node_ok node" and "i < InternalNode_num_entries node"
  shows "InternalNode_get_entry node i = Ok (node_key node i, node_block node i)"
proof -
  have l: "8 * i + 8 \<le> length (nd_entries node)" "8 * i < 524288"
    using assms by (auto simp: node_ok_def InternalNode_num_entries_def ENTRY_SIZE_def)
  then have "usize_mul 8 i = Some (8 * i)" "usize_add (8 * i) 4 = Some (8 * i + 4)"
    by (auto simp: usize_mul_def usize_add_def usize_max_def)
  moreover have "8 * i + 4 + 4 \<le> length (nd_entries node)" "8 * i + 4 \<le> length (nd_entries node)" using l by simp_all
  ultimately show ?thesis
    using l by (simp add: InternalNode_get_entry_def ENTRY_SIZE_def node_key_def node_block_def usize_max_def)
qed

text \<open>One round of the bisection, and the split point it looks for.\<close>

definition splits_at :: "InternalNode \<Rightarrow> u32 \<Rightarrow> nat \<Rightarrow> bool" where
  "splits_at node h l \<longleftrightarrow> l \<le> InternalNode_num_entries node \<and> (\<forall>i<l. node_key node i \<le> h) \<and>
     (\<forall>i. l \<le> i \<longrightarrow> i < InternalNode_num_entries node \<longrightarrow> h < node_key node i)"

lemma lookup_loop_round:
  assumes "node_ok node" and "right < InternalNode_num_entries node" and "left \<le> right" and mid: "mid = (left + right) div 2"
  shows "lookup_loop node h left right =
     (if node_key node mid \<le> h then lookup_loop node h (mid + 1) right else lookup_loop node h left (mid - 1))"
proof -
  have n: "InternalNode_num_entries node < 65536"
    using assms(1) by (auto simp: node_ok_def InternalNode_num_entries_def ENTRY_SIZE_def)
  have m: "mid < InternalNode_num_entries node" using assms(2,3) by (simp add: mid)
  have sum: "usize_add left right = Some (left + right)" "usize_add mid 1 = Some (mid + 1)"
    using assms(2,3) m n by (simp_all add: usize_add_def usize_max_def)
  have "usize_sub mid 1 = Some (mid - 1)" if "\<not> node_key node mid \<le> h"
    using that by (cases mid) (simp_all add: node_key_def usize_sub_def)
  with sum(2) assms(3) show ?thesis
    unfolding lookup_loop.simps[of node h left right] sum(1) option.case Let_def mid[symmetric] get_entry_ok[OF assms(1) m]
    by simp
qed

lemma lookup_loop_bisects:
  assumes "node_ok node" and "sorted_node node"
    and "right < InternalNode_num_entries node" and "left \<le> right + 1"
    and "\<And>i. i < left \<Longrightarrow> node_key node i \<le> h"
    and "\<And>i. right < i \<Longrightarrow> i < InternalNode_num_entries node \<Longrightarrow> h < node_key node i"
  shows "\<exists>l. lookup_loop node h left right = Ok (Some l) \<and> splits_at node h l"
  using assms(3-)
proof (induction "right + 1 - left" arbitrary: left right rule: less_induct)
  case less
  let ?n = "InternalNode_num_entries node"
  show ?case
  proof (cases "left \<le> right")
    case False
    with less.prems show ?thesis by (auto simp: splits_at_def lookup_loop.simps[of node h left right] not_le)
  next
    case True
    define mid where "mid = (left + right) div 2"
    have mid: "left \<le> mid" "mid \<le> right" "mid < ?n" using True less.prems(1) by (auto simp: mid_def)
    note round = lookup_loop_round[OF assms(1) less.prems(1) True mid_def, of h]
    have mono: "node_key node i \<le> node_key node j" if "i \<le> j" "j < ?n" for i j
      using assms(2) that sorted_nth_mono[of "map (node_key node) [0..<?n]" i j] by (simp add: sorted_node_def)
    show ?thesis
    proof (cases "node_key node mid \<le> h")
      case le: True
      have "node_key node i \<le> h" if "i < mid + 1" for i using mono[of i mid] that mid le by simp
      then show ?thesis unfolding round if_P[OF le] by (intro less.hyps) (use mid less.prems in auto)
    next
      case gt: False
      then have "mid \<noteq> 0" by (cases mid) (simp_all add: node_key_def)
      have "h < node_key node i" if "mid - 1 < i" "i < ?n" for i
        using order_less_le_trans[of h "node_key node mid" "node_key node i"] mono[of mid i] that gt by simp
      then show ?thesis unfolding round if_not_P[OF gt] by (intro less.hyps) (use mid less.prems \<open>mid \<noteq> 0\<close> in auto)
    qed
  qed
qed

lemma last_filter_prefix:
  assumes "0 < l" and "l \<le> n" and "\<And>i. i < l \<Longrightarrow> P i" and "\<And>i. l \<le> i \<Longrightarrow> i < n \<Longrightarrow> \<not> P i"
  shows "last (filter P [0..<n]) = l - 1"
proof -
  have "[0..<n] = [0..<l] @ [l..<n]" using assms(2) by (metis upt_add_eq_append le_add_diff_inverse zero_le)
  moreover have "filter P [0..<l] = [0..<l]" using assms(3) by (simp add: filter_id_conv)
  moreover have "filter P [l..<n] = []" using assms(4) by (simp add: filter_empty_conv)
  ultimately show ?thesis using assms(1) by simp
qed

lemma lookup_is_linear:
  assumes "node_ok node" and "sorted_node node" and "0 < InternalNode_num_entries node"
  shows "lookup_block_by_hash node h = Ok (Some (linear_lookup node h))"
proof -
  let ?n = "InternalNode_num_entries node"
  have "\<exists>l. lookup_loop node h 0 (?n - 1) = Ok (Some l) \<and> splits_at node h l"
    by (rule lookup_loop_bisects[OF assms(1,2)]) (use assms(3) in auto)
  then obtain l where
    l: "lookup_loop node h 0 (?n - 1) = Ok (Some l)" "l \<le> ?n" "\<And>i. i < l \<Longrightarrow> node_key node i \<le> h"
    "\<And>i. l \<le> i \<Longrightarrow> i < ?n \<Longrightarrow> h < node_key node i" unfolding splits_at_def by blast
  have "l \<noteq> 0" using l(4)[of 0] assms(3) by (auto simp: node_key_def)
  then have s: "usize_sub l 1 = Some (l - 1)" "l - 1 < ?n" using l(2) by (simp_all add: usize_sub_def)
  have "last (filter (\<lambda>i. node_key node i \<le> h) [0..<?n]) = l - 1"
    using \<open>l \<noteq> 0\<close> l(2-4) by (intro last_filter_prefix) (auto simp: not_le)
  moreover have "usize_sub ?n 1 = Some (?n - 1)" using assms(3) by (simp add: usize_sub_def)
  ultimately show ?thesis
    using s l(1) get_entry_ok[OF assms(1) s(2)] by (simp add: lookup_block_by_hash_def linear_lookup_def)
qed

section \<open>The lookup as a function of the device\<close>

text \<open>\<open>fm\<close> is the map of the blocks of the file.\<close>

definition file_map :: "(nat \<Rightarrow> u8) \<Rightarrow> Ext4 \<Rightarrow> Inode \<Rightarrow> (FileBlockIndex \<Rightarrow> FsBlockIndex result) \<Rightarrow> bool" where
  "file_map disk fs0 inode fm \<longleftrightarrow>
     (\<forall>fs k. good disk fs0 fs \<longrightarrow> computes disk fs0 fs (block_from_file_block inode k) (fm k))"

definition htree_block_at :: "Inode \<Rightarrow> bool \<Rightarrow> FsBlockIndex \<Rightarrow> DirBlock" where
  "htree_block_at inode first b = \<lparr>dk_block_index = b, dk_is_first = first, dk_dir_inode = in_index inode,
     dk_has_htree = True, dk_checksum_base = in_checksum_base inode\<rparr>"

primrec descend_spec :: "(nat \<Rightarrow> u8) \<Rightarrow> Ext4 \<Rightarrow> Inode \<Rightarrow> (FileBlockIndex \<Rightarrow> FsBlockIndex result) \<Rightarrow> DirHash \<Rightarrow> nat \<Rightarrow> FileBlockIndex \<Rightarrow> bytes result" where
  "descend_spec disk fs inode fm hash 0 child =
     bind_o (fm child) (\<lambda>b. dir_block_spec disk fs (htree_block_at inode False b))"
| "descend_spec disk fs inode fm hash (Suc levels) child =
     bind_o (fm child) (\<lambda>b.
     bind_o (dir_block_spec disk fs (htree_block_at inode False b)) (\<lambda>block.
     bind_o (InternalNode_from_non_root_block block (in_index inode)) (\<lambda>node.
     bind_o (lookup_block_by_hash node hash) (\<lambda>child.
     bind_o (ok_or (Corrupt (CorruptDirEntry (in_index inode))) child) (\<lambda>child.
     descend_spec disk fs inode fm hash levels child)))))"

definition leaf_spec :: "(nat \<Rightarrow> u8) \<Rightarrow> Ext4 \<Rightarrow> Inode \<Rightarrow> (FileBlockIndex \<Rightarrow> FsBlockIndex result) \<Rightarrow> DirEntryName \<Rightarrow> bytes \<Rightarrow> bytes result" where
  "leaf_spec disk fs inode fm name root =
     bind_o (index_at root 0x1c) (\<lambda>alg.
     bind_o (HashAlg_from_u8 alg) (\<lambda>hash_alg.
     bind_o (index_at root 0x1e) (\<lambda>depth.
     bind_o (InternalNode_from_root_block root (in_index inode)) (\<lambda>node.
     bind_o (HashAlg_hash hash_alg name (sb_htree_hash_seed (fs_superblock fs))) (\<lambda>hash.
     bind_o (lookup_block_by_hash node hash) (\<lambda>child.
     bind_o (ok_or (Corrupt (CorruptDirEntry (in_index inode))) child) (\<lambda>child.
     descend_spec disk fs inode fm hash (unat depth) child)))))))"

text \<open>The entry with a name among the entries of a block or a directory.\<close>

definition match_name :: "DirEntryName \<Rightarrow> DirEntry \<Rightarrow> DirEntry option result" where
  "match_name name e =
     bind_o (DirEntry_file_name e) (\<lambda>file_name. if file_name = name then Ok (Some e) else Ok None)"

definition find_entry :: "DirEntryName \<Rightarrow> (DirEntry, Ext4Error) out_seq \<Rightarrow> DirEntry result" where
  "find_entry name out = bind_o (find_in (match_name name) (fst out) (snd out)) (ok_or NotFound)"

definition htree_spec :: "(nat \<Rightarrow> u8) \<Rightarrow> Ext4 \<Rightarrow> Inode \<Rightarrow> (FileBlockIndex \<Rightarrow> FsBlockIndex result) \<Rightarrow> FsBlockIndex list \<Rightarrow> DirEntryName \<Rightarrow> DirEntry result" where
  "htree_spec disk fs inode fm bs name =
     bind_o (case bs of [] \<Rightarrow> Err (Corrupt (CorruptDirEntry (in_index inode)))
             | b # _ \<Rightarrow> dir_block_spec disk fs (htree_block_at inode True b)) (\<lambda>root.
     bind_o (read_dot_or_dotdot inode name root) (\<lambda>entry.
     case entry of
       Some e \<Rightarrow> Ok e
     | None \<Rightarrow>
         bind_o (leaf_spec disk fs inode fm name root) (\<lambda>block.
         find_entry name (scan_entries (in_index inode) [] block 0))))"

lemma find_in_append:
  "find_in body (xs @ ys) r = bind_o (find_in body xs None) (\<lambda>y. case y of None \<Rightarrow> find_in body ys r | Some z \<Rightarrow> Ok (Some z))"
  by (induction xs) (auto split: outcome.split option.split)

lemma find_entry_simps:
  "find_entry name ([], None) = Err NotFound" "find_entry name ([], Some e) = Err e"
  "find_entry name (d # es, r) =
     bind_o (DirEntry_file_name d) (\<lambda>n. if n = name then Ok d else find_entry name (es, r))"
proof -
  show "find_entry name (d # es, r) = bind_o (DirEntry_file_name d) (\<lambda>n. if n = name then Ok d else find_entry name (es, r))"
    by (cases "DirEntry_file_name d") (simp_all add: find_entry_def match_name_def)
qed (simp_all add: find_entry_def)

lemma search_leaf_finds:
  assumes "length block \<le> 2147483648"
  shows "search_leaf inode name block off = find_entry name (scan_entries inode [] block off)"
proof (induction "length block - off" arbitrary: off rule: less_induct)
  case less
  show ?case
  proof (cases "off < length block")
    case False
    then show ?thesis by (simp add: search_leaf.simps[of inode name block off] scan_end find_entry_simps)
  next
    case True
    have sl: "slice block off (length block) = (Ok (drop off block) :: bytes result)" using True by simp
    note u = search_leaf.simps[of inode name block off, unfolded sl bind_o.simps]
    show ?thesis
    proof (cases rule: DirEntry_from_bytes_cases[of "drop off block" inode "[]"])
      case (entry e n)
      have a: "usize_add off n = Some (off + n)"
        using record_length[OF entry(1)] True assms by (simp add: usize_add_def usize_max_def)
      have IH: "search_leaf inode name block (off + n) = find_entry name (scan_entries inode [] block (off + n))"
        using less[of "off + n"] True entry(2) by simp
      show ?thesis
        using True entry(1) a IH scan_step[OF True, of inode "[]"]
        by (cases "scan_entries inode [] block (off + n)")
           (simp add: u find_entry_simps split: option.split cong: if_cong)
    next
      case (error e)
      then show ?thesis
        using True scan_step[OF True, of inode "[]"]
        by (simp add: u find_entry_simps)
    qed
  qed
qed

lemma first_block_computes:
  assumes "device_complete fs0" and "good disk fs0 fs" and "fb_seq disk fs0 fb (bs, None)"
  shows "computes disk fs0 fs (with_iter fb FileBlocks_next) (Ok (case bs of [] \<Rightarrow> None | b # _ \<Rightarrow> Some b))"
proof (cases bs)
  case Nil
  with fb_seq_end[OF assms(1,2)] assms(3) obtain fb' fs' where
    "FileBlocks_next (fb, fs) = (Ok None, (fb', fs'))" "good disk fs0 fs'" by metis
  with Nil show ?thesis by (simp add: computes_def with_iter_def)
next
  case (Cons b bs')
  with fb_seq_item[OF assms(1,2)] assms(3) obtain fb' fs' where
    "FileBlocks_next (fb, fs) = (Ok (Some b), (fb', fs'))" "good disk fs0 fs'" by metis
  with Cons show ?thesis by (simp add: computes_def with_iter_def)
qed

lemma read_root_computes:
  assumes "device_complete fs0" and "good disk fs0 fs" and "FileBlocks_new inode = Ok fb" and "fb_seq disk fs0 fb (bs, None)"
  shows "computes disk fs0 fs (read_root_block inode (block_bytes fs0))
     (case bs of [] \<Rightarrow> Err (Corrupt (CorruptDirEntry (in_index inode)))
      | b # _ \<Rightarrow> dir_block_spec disk fs0 (htree_block_at inode True b))"
proof -
  have "computes disk fs0 fs (read_root_block inode (block_bytes fs0))
     (bind_o (Ok fb) (\<lambda>fb. bind_o (Ok (case bs of [] \<Rightarrow> None | b # _ \<Rightarrow> Some b)) (\<lambda>item.
       bind_o (ok_or (Corrupt (CorruptDirEntry (in_index inode))) item) (\<lambda>b.
       dir_block_spec disk fs0 (htree_block_at inode True b)))))"
    unfolding read_root_block_def assms(3) htree_block_at_def
    by (rule computes_lift_bind[OF assms(2)], erule outcome.inject(1)[THEN iffD1, elim_format], erule subst,
        rule computes_bind[OF first_block_computes[OF assms(1,2,4)]],
        rule computes_lift_bind, assumption, rule DirBlock_read_computes[OF _ assms(1)])
  then show ?thesis by (cases bs) simp_all
qed

lemma descend_computes:
  assumes "device_complete fs0" and "file_map disk fs0 inode fm" and "good disk fs0 fs"
  shows "computes disk fs0 fs (descend inode hash (block_bytes fs0) levels child)
     (descend_spec disk fs0 inode fm hash levels child)"
  using assms(3)
proof (induction levels arbitrary: child fs)
  case 0
  then show ?case
    using assms(2) unfolding descend.simps descend_spec.simps htree_block_at_def file_map_def
    by (intro computes_bind[where m = "block_from_file_block inode child"] DirBlock_read_computes[OF _ assms(1)]) auto
next
  case (Suc levels)
  show ?case
    unfolding descend.simps descend_spec.simps htree_block_at_def
    by (rule computes_bind[where m = "block_from_file_block inode child"])
       (use assms(2) Suc.prems in \<open>simp add: file_map_def\<close>,
        rule computes_bind[OF DirBlock_read_computes[OF _ assms(1)]], assumption,
        (rule computes_lift_bind, assumption)+, rule Suc.IH)
qed

lemma find_leaf_computes:
  assumes "device_complete fs0" and "file_map disk fs0 inode fm" and "good disk fs0 fs" and "length block = block_bytes fs0"
  shows "computes disk fs0 fs (find_leaf_node inode name block) (leaf_spec disk fs0 inode fm name block)"
  unfolding find_leaf_node_def leaf_spec_def assms(4)
  by (intro computes_lift_bind computes_gets descend_computes assms) (simp_all add: good_sel[OF assms(3)])

lemma htree_block_shape:
  assumes "descend_spec disk fs inode fm h levels child = Ok block"
  shows "length block = block_bytes fs"
  using assms by (induction levels arbitrary: child) (auto dest: block_shape)

lemma leaf_block_shape:
  assumes "leaf_spec disk fs inode fm name root = Ok block"
  shows "length block = block_bytes fs"
  using assms by (auto simp: leaf_spec_def dest: htree_block_shape)

lemma via_htree_computes:
  assumes "device_complete fs0" and "file_map disk fs0 inode fm" and "good disk fs0 fs"
    and "contains (in_flags inode) DIRECTORY_HTREE" and "inode_blocks disk fs0 inode bs"
  shows "computes disk fs0 fs (get_dir_entry_via_htree inode name) (htree_spec disk fs0 inode fm bs name)"
proof -
  obtain fb where fb: "FileBlocks_new inode = Ok fb" "fb_seq disk fs0 fb (bs, None)"
    using assms(5) by (auto simp: inode_blocks_def)
  have B: "block_bytes fs0 \<le> 2147483648" using block_bytes_bounds(2)[OF assms(3)] by simp
  have "computes disk fs0 fs (get_dir_entry_via_htree inode name)
     (bind_o (assert_o (contains (in_flags inode) DIRECTORY_HTREE)) (\<lambda>_. htree_spec disk fs0 inode fm bs name))"
    unfolding get_dir_entry_via_htree_def htree_spec_def BlockSize_to_usize_def usize_from_u32_def
  proof (rule computes_lift_bind[OF assms(3)], rule computes_gets, simp add: good_sel[OF assms(3)],
      rule computes_bind[OF read_root_computes[OF assms(1,3) fb]], rule computes_lift_bind, assumption)
    fix root fs' entry
    assume "(case bs of [] \<Rightarrow> Err (Corrupt (CorruptDirEntry (in_index inode)))
             | b # _ \<Rightarrow> dir_block_spec disk fs0 (htree_block_at inode True b)) = Ok root" and g: "good disk fs0 fs'"
    then have root: "length root = block_bytes fs0" by (cases bs) (auto dest: block_shape)
    have "computes disk fs0 fs' (bindc (find_leaf_node inode name root) (\<lambda>block. lift (search_leaf (in_index inode) name block 0)))
       (bind_o (leaf_spec disk fs0 inode fm name root) (\<lambda>block. find_entry name (scan_entries (in_index inode) [] block 0)))"
    proof (rule computes_bind[OF find_leaf_computes[OF assms(1,2) g root]])
      fix block fs2
      assume "leaf_spec disk fs0 inode fm name root = Ok block" and g2: "good disk fs0 fs2"
      then have "search_leaf (in_index inode) name block 0 = find_entry name (scan_entries (in_index inode) [] block 0)"
        using B by (intro search_leaf_finds) (simp add: leaf_block_shape)
      with computes_lift[OF g2] show "computes disk fs0 fs2 (lift (search_leaf (in_index inode) name block 0))
          (find_entry name (scan_entries (in_index inode) [] block 0))" by metis
    qed
    then show "computes disk fs0 fs' (case entry of
         Some entry \<Rightarrow> ret entry
       | None \<Rightarrow> bindc (find_leaf_node inode name root) (\<lambda>block. lift (search_leaf (in_index inode) name block 0)))
       (case entry of Some e \<Rightarrow> Ok e
        | None \<Rightarrow> bind_o (leaf_spec disk fs0 inode fm name root) (\<lambda>block. find_entry name (scan_entries (in_index inode) [] block 0)))"
      using g by (cases entry) (simp_all add: computes_ret)
  qed
  with assms(4) show ?thesis by (simp add: assert_o_def)
qed

text \<open>The map of the blocks, from the extents of the tree and from a block map.\<close>

definition extent_map :: "Inode \<Rightarrow> Extent list \<Rightarrow> Ext4Error option \<Rightarrow> FileBlockIndex \<Rightarrow> FsBlockIndex result" where
  "extent_map inode es r k =
     (let corrupt = Corrupt (CorruptDirEntry (in_index inode)) in
      bind_o (find_in (\<lambda>e. bind_o (ok_or corrupt (checked_add (ex_block_within_file e) (ucast (ex_num_blocks e)))) (\<lambda>end_block.
          if k \<ge> ex_block_within_file e \<and> k < end_block then Ok (Some e) else Ok None)) es r) (\<lambda>found.
      bind_o (ok_or corrupt found) (\<lambda>e.
      bind_o (ok_or corrupt (checked_sub k (ex_block_within_file e))) (\<lambda>off.
      ok_or corrupt (checked_add (ex_start_block e) (ucast off))))))"

lemma file_map_extents:
  assumes "fs_ok disk fs" and "device_complete fs" and "contains (in_flags inode) EXTENTS"
    and "Extents_new inode = Ok it" and "walk (inode_child disk fs inode) (hd (et_to_visit it)) es r"
  shows "file_map disk fs inode (extent_map inode es r)"
  unfolding file_map_def
proof (intro allI impI)
  fix fs' k
  assume g: "good disk fs fs'"
  have "outputs Extents_next (it, fs) (es, r)"
    using extents_walk_produces[OF assms(1,2,4,5)] by (simp add: produces_def outputs_def)
  then have o: "outputs Extents_next (it, fs') (es, r)"
    by (rule blind_outputs[OF Extents_next_blind[OF assms(2)] good_refl[OF assms(1)] g])
  let ?c = "Corrupt (CorruptDirEntry (in_index inode))"
  let ?body = "\<lambda>e. bind_o (ok_or ?c (checked_add (ex_block_within_file e) (ucast (ex_num_blocks e)))) (\<lambda>end_block.
          if k \<ge> ex_block_within_file e \<and> k < end_block then Ok (Some e) else Ok None)"
  note f = with_for_each_computes[OF Extents_next_blind[OF assms(2)] g o, of ?body]
  have "computes disk fs fs' (find_extent_for_block inode k)
     (bind_o (Ok it) (\<lambda>it. bind_o (find_in ?body es r) (ok_or ?c)))"
    unfolding find_extent_for_block_def assms(4) Let_def
    by (rule computes_lift_bind[OF g], erule outcome.inject(1)[THEN iffD1, elim_format], erule subst,
        rule computes_bind[OF f], rule computes_lift)
  then have fe: "computes disk fs fs' (find_extent_for_block inode k) (bind_o (find_in ?body es r) (ok_or ?c))" by simp
  have "computes disk fs fs' (block_from_file_block inode k)
     (bind_o (bind_o (find_in ?body es r) (ok_or ?c)) (\<lambda>e.
      bind_o (ok_or ?c (checked_sub k (ex_block_within_file e))) (\<lambda>off.
      ok_or ?c (checked_add (ex_start_block e) (ucast off)))))"
    unfolding block_from_file_block_def if_P[OF assms(3)]
    by (rule computes_bind[OF fe], rule computes_lift_bind, assumption, rule computes_lift)
  moreover have "bind_o (bind_o (find_in ?body es r) (ok_or ?c)) h = bind_o (find_in ?body es r) (\<lambda>found. bind_o (ok_or ?c found) h)"
    for h :: "Extent \<Rightarrow> FsBlockIndex result"
    by (cases "find_in ?body es r") simp_all
  ultimately show "computes disk fs fs' (block_from_file_block inode k) (extent_map inode es r k)"
    by (simp add: extent_map_def Let_def)
qed

lemma file_map_blocks:
  assumes "device_complete fs" and "\<not> contains (in_flags inode) EXTENTS" and "inode_blocks disk fs inode bs"
  shows "file_map disk fs inode (\<lambda>k. if unat k < length bs then Ok (bs ! unat k)
     else Err (Corrupt (CorruptDirEntry (in_index inode))))"
  unfolding file_map_def
proof (intro allI impI)
  fix fs' and k :: FileBlockIndex
  assume g: "good disk fs fs'"
  let ?c = "Corrupt (CorruptDirEntry (in_index inode))"
  obtain fb where fb: "FileBlocks_new inode = Ok fb" "fb_seq disk fs fb (bs, None)"
    using assms(3) by (auto simp: inode_blocks_def)
  then have o: "outputs FileBlocks_next (fb, fs') (bs, None)" using g by (simp add: fb_seq_def)
  have q: "fst (nth_item FileBlocks_next (unat k) (fb, fs')) = Ok (if unat k < length bs then Some (bs ! unat k) else None)"
    by (subst nth_item_outputs[OF _ o]) (auto dest: FileBlocks_after_error)
  from nth_item_blind[OF FileBlocks_next_blind[OF assms(1)] g, of "unat k" fb] q
  have n: "computes disk fs fs' (with_iter fb (nth_item FileBlocks_next (unat k)))
      (Ok (if unat k < length bs then Some (bs ! unat k) else None))"
    by (auto simp: computes_def with_iter_def split: prod.splits)
  have "computes disk fs fs' (block_from_file_block inode k)
     (bind_o (Ok fb) (\<lambda>fb. bind_o (Ok (if unat k < length bs then Some (bs ! unat k) else None)) (ok_or ?c)))"
    unfolding block_from_file_block_def if_not_P[OF assms(2)] fb(1) usize_from_u32_def
    by (rule computes_lift_bind[OF g], erule outcome.inject(1)[THEN iffD1, elim_format], erule subst,
        rule computes_bind[OF n], rule computes_lift)
  then show "computes disk fs fs' (block_from_file_block inode k)
     (if unat k < length bs then Ok (bs ! unat k) else Err ?c)"
    by (simp split: if_splits)
qed

section \<open>The htree agrees with a linear scan\<close>

definition dir_find :: "DirEntryName \<Rightarrow> DirEntry list \<Rightarrow> DirEntry option" where
  "dir_find name es = List.find (\<lambda>e. DirEntry_file_name e = Ok name) es"

lemma dir_find_append: "dir_find name (xs @ ys) = (case dir_find name xs of None \<Rightarrow> dir_find name ys | Some e \<Rightarrow> Some e)"
  by (induction xs) (simp_all add: dir_find_def)

lemma scan_entries_named:
  "\<forall>e \<in> set (fst (scan_entries inode path block off)). \<exists>n. DirEntry_file_name e = Ok n"
proof (induction "length block - off" arbitrary: off rule: less_induct)
  case less
  show ?case
  proof (cases "off < length block")
    case True
    show ?thesis
    proof (cases rule: DirEntry_from_bytes_cases[of "drop off block" inode path])
      case (entry e n)
      have "\<forall>d. e = Some d \<longrightarrow> (\<exists>n. DirEntry_file_name d = Ok n)"
        using DirEntry_from_bytes_holds[of "drop off block" inode path] entry(1) by auto
      with less[of "off + n"] True entry scan_step[OF True, of inode path] show ?thesis
        by (cases e) (auto simp: out_append_def)
    qed (use scan_step[OF True, of inode path] in simp)
  qed (simp add: scan_end)
qed

lemma find_entry_dir_find:
  assumes "\<forall>e \<in> set es. \<exists>n. DirEntry_file_name e = Ok n"
  shows "find_entry name (es, None) = (case dir_find name es of None \<Rightarrow> Err NotFound | Some e \<Rightarrow> Ok e)"
  using assms by (induction es) (auto simp: find_entry_simps dir_find_def)

definition dots :: "DirEntryName set" where
  "dots = {[0x2e], [0x2e, 0x2e]}"

text \<open>What the search needs of the tree: the root block holds the entries of the directory itself and of its
  parent, every other block can be scanned, every name leads to one of the other blocks, and the entries in a
  block are ones whose names lead to that block. It is shown below for every well-formed htree.\<close>

definition htree_leads :: "(nat \<Rightarrow> u8) \<Rightarrow> Ext4 \<Rightarrow> Inode \<Rightarrow> (FileBlockIndex \<Rightarrow> FsBlockIndex result) \<Rightarrow> FsBlockIndex list \<Rightarrow> bytes \<Rightarrow> bool" where
  "htree_leads disk fs inode fm bs root \<longleftrightarrow> contains (in_flags inode) DIRECTORY_HTREE \<and> bs \<noteq> [] \<and>
     dir_block_spec disk fs (htree_block_at inode True (hd bs)) = Ok root \<and>
     (\<exists>dot dotdot. read_dot_or_dotdot inode [0x2e] root = Ok (Some dot) \<and>
        read_dot_or_dotdot inode [0x2e, 0x2e] root = Ok (Some dotdot) \<and>
        scan_entries (in_index inode) [] root 0 = ([dot, dotdot], None)) \<and>
     (\<forall>b \<in> set (tl bs). \<exists>block. dir_block_spec disk fs (htree_block_at inode False b) = Ok block \<and>
        snd (scan_entries (in_index inode) [] block 0) = None \<and>
        (\<forall>e \<in> set (fst (scan_entries (in_index inode) [] block 0)). \<forall>name. DirEntry_file_name e = Ok name \<longrightarrow>
           name \<notin> dots \<and> leaf_spec disk fs inode fm name root = Ok block)) \<and>
     (\<forall>name. name \<notin> dots \<longrightarrow> (\<exists>b \<in> set (tl bs). leaf_spec disk fs inode fm name root =
        dir_block_spec disk fs (htree_block_at inode False b)))"

lemma dir_find_Some: "dir_find name es = Some e \<Longrightarrow> e \<in> set es \<and> DirEntry_file_name e = Ok name"
  by (auto simp: dir_find_def find_Some_iff)

lemma linear_scan_leaf:
  assumes "leaf = Ok lb" and "contains (in_flags inode) DIRECTORY_HTREE"
    and "\<And>b. b \<in> set bs \<Longrightarrow> \<exists>block. dir_block_spec disk fs (htree_block_at inode False b) = Ok block \<and>
        snd (scan_entries (in_index inode) [] block 0) = None \<and>
        (\<forall>e \<in> set (fst (scan_entries (in_index inode) [] block 0)). DirEntry_file_name e = Ok name \<longrightarrow> leaf = Ok block)"
  shows "\<exists>es. blocks_entries disk fs inode [] False bs None = (es, None) \<and> (\<forall>e \<in> set es. \<exists>n. DirEntry_file_name e = Ok n) \<and>
     dir_find name es =
       (if \<exists>b \<in> set bs. dir_block_spec disk fs (htree_block_at inode False b) = Ok lb
        then dir_find name (fst (scan_entries (in_index inode) [] lb 0)) else None)"
  using assms(3)
proof (induction bs)
  case Nil
  then show ?case by (simp add: dir_find_def)
next
  case (Cons b bs)
  from Cons(2)[of b] obtain block where b: "dir_block_spec disk fs (htree_block_at inode False b) = Ok block"
    "snd (scan_entries (in_index inode) [] block 0) = None"
    "\<And>e. e \<in> set (fst (scan_entries (in_index inode) [] block 0)) \<Longrightarrow> DirEntry_file_name e = Ok name \<Longrightarrow> leaf = Ok block"
    by auto
  from Cons obtain es where es: "blocks_entries disk fs inode [] False bs None = (es, None)"
    "\<forall>e \<in> set es. \<exists>n. DirEntry_file_name e = Ok n" "dir_find name es =
       (if \<exists>b \<in> set bs. dir_block_spec disk fs (htree_block_at inode False b) = Ok lb
        then dir_find name (fst (scan_entries (in_index inode) [] lb 0)) else None)" by auto
  have d: "dir_block_at inode False b = htree_block_at inode False b"
    using assms(2) by (simp add: dir_block_at_def htree_block_at_def)
  obtain xs where xs: "scan_entries (in_index inode) [] block 0 = (xs, None)" using b(2) by (metis prod.collapse)
  have e: "blocks_entries disk fs inode [] False (b # bs) None = (xs @ es, None)"
    using es(1) b(1) xs by (simp add: block_entries_def d out_append_def)
  have n: "\<forall>e \<in> set (xs @ es). \<exists>n. DirEntry_file_name e = Ok n"
    using es(2) scan_entries_named[of "in_index inode" "[]" block 0] xs by auto
  have "dir_find name xs = None \<or> block = lb"
    using b(3) xs dir_find_Some[of name xs] assms(1) by (cases "dir_find name xs") auto
  then have "dir_find name (xs @ es) =
       (if \<exists>b \<in> set (b # bs). dir_block_spec disk fs (htree_block_at inode False b) = Ok lb
        then dir_find name (fst (scan_entries (in_index inode) [] lb 0)) else None)"
    using es(3) b(1) xs by (auto simp: dir_find_append split: option.split)
  with e n show ?case by blast
qed

lemma read_dot_name:
  assumes "read_dot_or_dotdot inode name root = Ok (Some e)"
  shows "DirEntry_file_name e = Ok name" "name \<in> dots"
  using assms by (auto simp: read_dot_or_dotdot_def dots_def Let_def split: if_splits)

lemma read_dot_other: "name \<notin> dots \<Longrightarrow> read_dot_or_dotdot inode name root = Ok None"
  by (simp add: read_dot_or_dotdot_def dots_def)

lemma htree_spec_linear:
  assumes wf: "htree_leads disk fs inode fm bs root"
  shows "htree_spec disk fs inode fm bs name = find_entry name (blocks_entries disk fs inode [] True bs None)"
proof -
  obtain b bs' where bs: "bs = b # bs'" using wf by (cases bs) (auto simp: htree_leads_def)
  have h: "contains (in_flags inode) DIRECTORY_HTREE" using wf by (simp add: htree_leads_def)
  have root: "dir_block_spec disk fs (htree_block_at inode True b) = Ok root" using wf bs by (simp add: htree_leads_def)
  obtain dot dotdot where d: "read_dot_or_dotdot inode [0x2e] root = Ok (Some dot)"
    "read_dot_or_dotdot inode [0x2e, 0x2e] root = Ok (Some dotdot)"
    "scan_entries (in_index inode) [] root 0 = ([dot, dotdot], None)" using wf unfolding htree_leads_def by blast
  have n: "DirEntry_file_name dot = Ok [0x2e]" "DirEntry_file_name dotdot = Ok [0x2e, 0x2e]"
    using read_dot_name(1)[OF d(1)] read_dot_name(1)[OF d(2)] by auto
  have first: "dir_block_at inode True b = htree_block_at inode True b"
    using h by (simp add: dir_block_at_def htree_block_at_def)
  have lin: "blocks_entries disk fs inode [] True bs None =
      out_append ([dot, dotdot], None) (blocks_entries disk fs inode [] False bs' None)"
    using root d(3) by (simp add: bs block_entries_def first)
  show ?thesis
  proof (cases "name \<in> dots")
    case True
    then show ?thesis
      using d n lin root by (auto simp: dots_def htree_spec_def bs find_entry_simps)
  next
    case False
    then obtain b' where b': "b' \<in> set bs'" "leaf_spec disk fs inode fm name root = dir_block_spec disk fs (htree_block_at inode False b')"
      using wf by (auto simp: htree_leads_def bs)
    have blocks: "\<exists>block. dir_block_spec disk fs (htree_block_at inode False b) = Ok block \<and>
        snd (scan_entries (in_index inode) [] block 0) = None \<and>
        (\<forall>e \<in> set (fst (scan_entries (in_index inode) [] block 0)). DirEntry_file_name e = Ok name \<longrightarrow>
           leaf_spec disk fs inode fm name root = Ok block)" if "b \<in> set bs'" for b
      using wf that unfolding htree_leads_def bs by fastforce
    then obtain lb where lb: "leaf_spec disk fs inode fm name root = Ok lb" "snd (scan_entries (in_index inode) [] lb 0) = None"
      using b' by metis
    then obtain xs where xs: "scan_entries (in_index inode) [] lb 0 = (xs, None)" by (metis prod.collapse)
    have ex: "\<exists>b \<in> set bs'. dir_block_spec disk fs (htree_block_at inode False b) = Ok lb" using b' lb(1) by auto
    have "\<exists>es. blocks_entries disk fs inode [] False bs' None = (es, None) \<and> (\<forall>e \<in> set es. \<exists>n. DirEntry_file_name e = Ok n) \<and>
        dir_find name es = (if \<exists>b \<in> set bs'. dir_block_spec disk fs (htree_block_at inode False b) = Ok lb
          then dir_find name (fst (scan_entries (in_index inode) [] lb 0)) else None)"
      by (rule linear_scan_leaf[OF lb(1) h blocks])
    then obtain es where
      es: "blocks_entries disk fs inode [] False bs' None = (es, None)" "\<forall>e \<in> set es. \<exists>n. DirEntry_file_name e = Ok n"
      "dir_find name es = dir_find name xs" unfolding if_P[OF ex] xs fst_conv by blast
    have "find_entry name (xs, None) = find_entry name (es, None)"
      using es(2,3) scan_entries_named[of "in_index inode" "[]" lb 0] xs by (simp add: find_entry_dir_find)
    moreover have "find_entry name (blocks_entries disk fs inode [] True bs None) = find_entry name (es, None)"
      using False n by (auto simp: lin es find_entry_simps dots_def out_append_def)
    ultimately show ?thesis
      using False lb(1) xs root by (simp add: htree_spec_def bs read_dot_other)
  qed
qed

section \<open>Well-formed htrees\<close>

text \<open>
  What an htree is on the disk, read from the bytes of its blocks and without the search. An index has a count at
  byte 2 and then one slot of eight bytes per child, with the block of the child in its upper half and, in all
  slots but the first, the least hash of the child in its lower half: the hashes of child \<open>i\<close> lie from key \<open>i\<close>
  below key \<open>i + 1\<close>, the first key being the lower bound of the index and the last the upper one. The leaves at
  the bottom hold names whose hashes lie between the bounds of the leaf.
\<close>

definition index_count :: "bytes \<Rightarrow> nat" where
  "index_count index = unat (u16le_at index 2)"

definition index_key :: "bytes \<Rightarrow> nat \<Rightarrow> nat \<Rightarrow> nat \<Rightarrow> nat" where
  "index_key index lo hi i =
     (if i = 0 then lo else if i < index_count index then unat (u32le_at index (8 * i)) else hi)"

definition index_child :: "bytes \<Rightarrow> nat \<Rightarrow> FileBlockIndex" where
  "index_child index i = u32le_at index (8 * i + 4)"

definition index_at_bytes :: "(FileBlockIndex \<Rightarrow> nat \<Rightarrow> nat \<Rightarrow> bytes list \<Rightarrow> bool) \<Rightarrow> bytes \<Rightarrow> nat \<Rightarrow> nat \<Rightarrow> bytes list \<Rightarrow> bool" where
  "index_at_bytes child index lo hi leaves \<longleftrightarrow>
     0 < index_count index \<and> 8 * index_count index \<le> length index \<and>
     (\<exists>below. leaves = concat (map below [0..<index_count index]) \<and>
        (\<forall>i<index_count index. index_key index lo hi i \<le> index_key index lo hi (i + 1) \<and>
           child (index_child index i) (index_key index lo hi i) (index_key index lo hi (i + 1)) (below i)))"

text \<open>\<open>holds_block k b\<close> says that block \<open>k\<close> of the directory is \<open>b\<close>, and \<open>between b lo hi\<close> that the hashes of
  the names in the leaf \<open>b\<close> lie from \<open>lo\<close> below \<open>hi\<close>.\<close>

primrec htree_at :: "(FileBlockIndex \<Rightarrow> bytes \<Rightarrow> bool) \<Rightarrow> (bytes \<Rightarrow> nat \<Rightarrow> nat \<Rightarrow> bool) \<Rightarrow> nat \<Rightarrow> FileBlockIndex \<Rightarrow> nat \<Rightarrow> nat \<Rightarrow> bytes list \<Rightarrow> bool" where
  "htree_at holds_block between 0 k lo hi leaves \<longleftrightarrow> (\<exists>b. holds_block k b \<and> between b lo hi \<and> leaves = [b])"
| "htree_at holds_block between (Suc levels) k lo hi leaves \<longleftrightarrow>
     (\<exists>b. holds_block k b \<and> index_at_bytes (htree_at holds_block between levels) (drop 8 b) lo hi leaves)"

definition block_names :: "InodeIndex \<Rightarrow> bytes \<Rightarrow> DirEntryName set" where
  "block_names dir block = {name. \<exists>e \<in> set (fst (scan_entries dir [] block 0)). DirEntry_file_name e = Ok name}"

definition names_between :: "InodeIndex \<Rightarrow> (DirEntryName \<Rightarrow> DirHash) \<Rightarrow> bytes \<Rightarrow> nat \<Rightarrow> nat \<Rightarrow> bool" where
  "names_between dir hash block lo hi \<longleftrightarrow>
     (\<forall>name \<in> block_names dir block. lo \<le> unat (hash name) \<and> unat (hash name) < hi)"

definition nonroot_block :: "(nat \<Rightarrow> u8) \<Rightarrow> Ext4 \<Rightarrow> Inode \<Rightarrow> FsBlockIndex list \<Rightarrow> FileBlockIndex \<Rightarrow> bytes \<Rightarrow> bool" where
  "nonroot_block disk fs inode bs k b \<longleftrightarrow> 0 < unat k \<and> unat k < length bs \<and>
     dir_block_spec disk fs (htree_block_at inode False (bs ! unat k)) = Ok b"

text \<open>The first two records of the root block: the directory itself in twelve bytes, and then its parent.\<close>

definition dot_records :: "InodeIndex \<Rightarrow> bytes \<Rightarrow> bool" where
  "dot_records dir root \<longleftrightarrow> u32le_at root 0 \<noteq> 0 \<and> u16le_at root 4 = 12 \<and> u32le_at root 12 \<noteq> 0 \<and>
     (\<exists>dot dotdot. scan_entries dir [] root 0 = ([dot, dotdot], None) \<and>
        DirEntry_file_name dot = Ok [0x2e] \<and> DirEntry_file_name dotdot = Ok [0x2e, 0x2e])"

text \<open>
  A well-formed htree over the blocks \<open>bs\<close> of a directory without holes: the root block has the two dot records,
  the number of the hash at byte \<open>0x1c\<close>, the number of levels between the root and the leaves at byte \<open>0x1e\<close> and
  an index at byte \<open>0x20\<close> for all hashes; all entries of the other blocks are in leaves of the tree.
\<close>

definition htree_wf :: "(nat \<Rightarrow> u8) \<Rightarrow> Ext4 \<Rightarrow> Inode \<Rightarrow> FsBlockIndex list \<Rightarrow> bytes \<Rightarrow> bool" where
  "htree_wf disk fs inode bs root \<longleftrightarrow> contains (in_flags inode) DIRECTORY_HTREE \<and> bs \<noteq> [] \<and> 0 \<notin> set bs \<and>
     dir_block_spec disk fs (htree_block_at inode True (hd bs)) = Ok root \<and> dot_records (in_index inode) root \<and>
     (\<exists>alg leaves. root ! 0x1c = (case alg of HalfMd4 \<Rightarrow> 1 | Tea \<Rightarrow> 2) \<and>
        index_at_bytes (htree_at (nonroot_block disk fs inode bs)
            (names_between (in_index inode) (\<lambda>name. dir_hash alg name (sb_htree_hash_seed (fs_superblock fs))))
            (unat (root ! 0x1e)))
          (drop 0x20 root) 0 (2 ^ 32) leaves \<and>
        (\<forall>b \<in> set (tl bs). \<exists>block. dir_block_spec disk fs (htree_block_at inode False b) = Ok block \<and>
           snd (scan_entries (in_index inode) [] block 0) = None \<and> block_names (in_index inode) block \<inter> dots = {} \<and>
           (block_names (in_index inode) block \<noteq> {} \<longrightarrow> block \<in> set leaves)))"

text \<open>The extents of a directory are in order and end below \<open>2 ^ 32\<close>; a block map has its blocks in order by itself.\<close>

definition extents_in_order :: "(nat \<Rightarrow> u8) \<Rightarrow> Ext4 \<Rightarrow> Inode \<Rightarrow> bool" where
  "extents_in_order disk fs inode \<longleftrightarrow> (contains (in_flags inode) EXTENTS \<longrightarrow>
     (\<exists>it es. Extents_new inode = Ok it \<and> walk (inode_child disk fs inode) (hd (et_to_visit it)) es None \<and>
        ascending 0 es \<and> (\<forall>e \<in> set es. unat (ex_block_within_file e) + unat (ex_num_blocks e) < 2 ^ 32)))"

lemma sorted_last: "sorted xs \<Longrightarrow> x \<in> set xs \<Longrightarrow> x \<le> last xs"
  by (induction xs) auto

lemma index_node_entries:
  assumes "index_at_bytes child index lo hi leaves"
  obtains node where "InternalNode_new index inode = Ok node" "node_ok node" "InternalNode_num_entries node = index_count index"
    "\<And>i. i < index_count index \<Longrightarrow> node_key node i = (if i = 0 then 0 else u32le_at index (8 * i))"
    "\<And>i. i < index_count index \<Longrightarrow> node_block node i = index_child index i"
proof -
  let ?n = "index_count index"
  define node where "node = \<lparr>nd_entries = take (8 * ?n) index\<rparr>"
  have n: "0 < ?n" "8 * ?n \<le> length index" using assms by (auto simp: index_at_bytes_def)
  have b: "?n < 65536" using unat_less_bound[of "u16le_at index 2"] by (simp add: index_count_def)
  have u: "u32le_at (take (8 * ?n) index) j = u32le_at index j" if "j + 4 \<le> 8 * ?n" for j
    using that by (simp add: u32le_at_def drop_take min_def)
  show ?thesis
  proof
    show "InternalNode_new index inode = Ok node"
      using n b by (simp add: InternalNode_new_def ENTRY_SIZE_def usize_mul_def usize_max_def get_range_def Let_def
          node_def index_count_def require_def)
    show "node_ok node" "InternalNode_num_entries node = ?n"
      using n b by (simp_all add: node_ok_def node_def InternalNode_num_entries_def ENTRY_SIZE_def)
    show "node_key node i = (if i = 0 then 0 else u32le_at index (8 * i))" "node_block node i = index_child index i"
      if "i < ?n" for i
      using that u[of "8 * i"] u[of "8 * i + 4"] by (simp_all add: node_key_def node_block_def index_child_def node_def)
  qed
qed

lemma index_lookup:
  assumes ix: "index_at_bytes child index lo hi leaves" and "lo \<le> unat h" and "unat h < hi"
  obtains node i where "InternalNode_new index inode = Ok node" "i < index_count index"
    "lookup_block_by_hash node h = Ok (Some (index_child index i))"
    "index_key index lo hi i \<le> unat h" "unat h < index_key index lo hi (i + 1)"
proof -
  let ?n = "index_count index"
  obtain node where node: "InternalNode_new index inode = Ok node" "node_ok node" "InternalNode_num_entries node = ?n"
    "\<And>i. i < ?n \<Longrightarrow> node_key node i = (if i = 0 then 0 else u32le_at index (8 * i))"
    "\<And>i. i < ?n \<Longrightarrow> node_block node i = index_child index i" using index_node_entries[OF ix] by blast
  have n: "0 < ?n" and mono: "index_key index lo hi i \<le> index_key index lo hi (i + 1)" if "i < ?n" for i
    using ix that by (auto simp: index_at_bytes_def)
  have s: "sorted_node node"
    unfolding sorted_node_def sorted_iff_nth_Suc node(3)
  proof (intro allI impI)
    fix i assume "Suc i < length (map (node_key node) [0..<?n])"
    then show "map (node_key node) [0..<?n] ! i \<le> map (node_key node) [0..<?n] ! Suc i"
      using mono[of i] by (auto simp: node(4) index_key_def word_le_nat_alt split: if_splits)
  qed
  define js where "js = filter (\<lambda>i. node_key node i \<le> h) [0..<?n]"
  have z: "0 \<in> set js" using node(4)[of 0] ix by (auto simp: js_def index_at_bytes_def)
  have last: "last js \<in> set js" using z by (intro last_in_set) auto
  have "j \<le> last js" if "j \<in> set js" for j using that by (intro sorted_last) (simp_all add: js_def sorted_wrt_filter)
  then have "Suc (last js) \<notin> set js" by fastforce
  then have "Suc (last js) < ?n \<Longrightarrow> h < node_key node (Suc (last js))" by (auto simp: js_def not_le)
  then have "unat h < index_key index lo hi (last js + 1)"
    using assms(3) by (auto simp: index_key_def node(4) word_less_nat_alt)
  moreover have "index_key index lo hi (last js) \<le> unat h"
    using last assms(2) by (auto simp: js_def index_key_def node(4) word_le_nat_alt)
  moreover have "lookup_block_by_hash node h = Ok (Some (index_child index (last js)))"
    using lookup_is_linear[OF node(2) s] last node(5)[of "last js"] ix
    by (simp add: node(3) linear_lookup_def js_def index_at_bytes_def)
  ultimately show ?thesis using that[OF node(1), of "last js"] last by (simp add: js_def)
qed

lemma index_key_mono:
  assumes "index_at_bytes child index lo hi leaves" and "i \<le> j" and "j \<le> index_count index"
  shows "index_key index lo hi i \<le> index_key index lo hi j"
  using assms(2,3)
proof (induction rule: dec_induct)
  case (step j)
  moreover have "index_key index lo hi j \<le> index_key index lo hi (j + 1)"
    using assms(1) step.prems by (auto simp: index_at_bytes_def)
  ultimately show ?case by simp
qed simp

lemma index_key_bounds:
  assumes "index_at_bytes child index lo hi leaves" and "i \<le> index_count index"
  shows "lo \<le> index_key index lo hi i" "index_key index lo hi i \<le> hi"
  using index_key_mono[OF assms(1), of 0 i] index_key_mono[OF assms(1), of i "index_count index"] assms
  by (auto simp: index_key_def index_at_bytes_def split: if_splits)

lemma names_between_mono:
  "names_between dir hash b lo hi \<Longrightarrow> lo' \<le> lo \<Longrightarrow> hi \<le> hi' \<Longrightarrow> names_between dir hash b lo' hi'"
  by (fastforce simp: names_between_def)

lemma htree_at_between:
  "htree_at hb (names_between dir hash) levels k lo hi leaves \<Longrightarrow> b \<in> set leaves \<Longrightarrow> names_between dir hash b lo hi"
proof (induction levels arbitrary: k lo hi leaves)
  case (Suc levels)
  then obtain a where ix: "index_at_bytes (htree_at hb (names_between dir hash) levels) (drop 8 a) lo hi leaves" by auto
  then obtain below i where "i < index_count (drop 8 a)" "b \<in> set (below i)"
    "htree_at hb (names_between dir hash) levels (index_child (drop 8 a) i) (index_key (drop 8 a) lo hi i)
       (index_key (drop 8 a) lo hi (i + 1)) (below i)"
    using Suc.prems(2) by (auto simp: index_at_bytes_def)
  then show ?case
    using names_between_mono[OF Suc.IH] index_key_bounds(1)[OF ix, of i] index_key_bounds(2)[OF ix, of "i + 1"] by simp
qed auto

lemma htree_at_leaf: "htree_at hb between levels k lo hi leaves \<Longrightarrow> b \<in> set leaves \<Longrightarrow> \<exists>k. hb k b"
proof (induction levels arbitrary: k lo hi leaves)
  case (Suc levels)
  then obtain a below i where "i < index_count (drop 8 a)" "b \<in> set (below i)"
    "htree_at hb between levels (index_child (drop 8 a) i) (index_key (drop 8 a) lo hi i) (index_key (drop 8 a) lo hi (i + 1)) (below i)"
    by (auto simp: index_at_bytes_def)
  then show ?case using Suc.IH by blast
qed auto

text \<open>The names with a hash are all in one of the leaves.\<close>

definition only_leaf :: "InodeIndex \<Rightarrow> (DirEntryName \<Rightarrow> DirHash) \<Rightarrow> DirHash \<Rightarrow> bytes list \<Rightarrow> bytes \<Rightarrow> bool" where
  "only_leaf dir hash h leaves b \<longleftrightarrow>
     b \<in> set leaves \<and> (\<forall>b' \<in> set leaves. \<forall>name \<in> block_names dir b'. hash name = h \<longrightarrow> b' = b)"

lemma index_select_leaf:
  assumes ix: "index_at_bytes child index lo hi leaves" and h: "lo \<le> unat h" "unat h < hi"
    and go: "\<And>k lo hi leaves. child k lo hi leaves \<Longrightarrow> lo \<le> unat h \<Longrightarrow> unat h < hi \<Longrightarrow>
      \<exists>b. go k = Ok b \<and> only_leaf dir hash h leaves b"
    and bt: "\<And>k lo hi leaves b. child k lo hi leaves \<Longrightarrow> b \<in> set leaves \<Longrightarrow> names_between dir hash b lo hi"
  obtains node k b where "InternalNode_new index inode = Ok node" "lookup_block_by_hash node h = Ok (Some k)"
    "go k = Ok b" "only_leaf dir hash h leaves b"
proof -
  let ?n = "index_count index" and ?key = "index_key index lo hi"
  obtain node i where i: "InternalNode_new index inode = Ok node" "i < ?n"
    "lookup_block_by_hash node h = Ok (Some (index_child index i))" "?key i \<le> unat h" "unat h < ?key (i + 1)"
    by (rule index_lookup[OF ix h])
  obtain below where below: "leaves = concat (map below [0..<?n])"
    "\<And>i. i < ?n \<Longrightarrow> child (index_child index i) (?key i) (?key (i + 1)) (below i)"
    using ix unfolding index_at_bytes_def by blast
  obtain b where b: "go (index_child index i) = Ok b" "only_leaf dir hash h (below i) b"
    using go[OF below(2)[OF i(2)] i(4,5)] by blast
  have ji: "j = i" if "j < ?n" "b' \<in> set (below j)" "name \<in> block_names dir b'" "hash name = h" for j b' name
  proof -
    have "?key j \<le> unat h" "unat h < ?key (j + 1)"
      using bt[OF below(2)[OF that(1)] that(2)] that(3,4) by (auto simp: names_between_def)
    then have "\<not> i + 1 \<le> j" "\<not> j + 1 \<le> i"
      using index_key_mono[OF ix, of "i + 1" j] index_key_mono[OF ix, of "j + 1" i] i that(1) by linarith+
    then show ?thesis by linarith
  qed
  have "b' = b" if b': "b' \<in> set leaves" "name \<in> block_names dir b'" "hash name = h" for b' name
  proof -
    obtain j where "j < ?n" "b' \<in> set (below j)" using b'(1) by (auto simp: below(1))
    moreover from ji[OF this b'(2,3)] have "j = i" .
    ultimately have "b' \<in> set (below i)" by simp
    with b(2) b'(2,3) show ?thesis unfolding only_leaf_def by blast
  qed
  moreover have "b \<in> set (below i)" using b(2) by (simp add: only_leaf_def)
  then have "b \<in> set leaves" using i(2) by (auto simp: below(1))
  ultimately have "only_leaf dir hash h leaves b" unfolding only_leaf_def by blast
  with that[OF i(1,3) b(1)] show ?thesis by blast
qed

lemma htree_at_descends:
  assumes hb: "\<And>k b. hb k b \<Longrightarrow> bind_o (fm k) (\<lambda>i. dir_block_spec disk fs (htree_block_at inode False i)) = Ok b"
  shows "htree_at hb (names_between dir hash) levels k lo hi leaves \<Longrightarrow> lo \<le> unat h \<Longrightarrow> unat h < hi \<Longrightarrow>
    \<exists>b. descend_spec disk fs inode fm h levels k = Ok b \<and> only_leaf dir hash h leaves b"
proof (induction levels arbitrary: k lo hi leaves)
  case 0
  then show ?case using hb by (auto simp: only_leaf_def)
next
  case (Suc levels)
  then obtain a where a: "hb k a" "index_at_bytes (htree_at hb (names_between dir hash) levels) (drop 8 a) lo hi leaves" by auto
  have l: "8 \<le> length a" using a(2) by (auto simp: index_at_bytes_def)
  obtain node c b where "InternalNode_new (drop 8 a) (in_index inode) = Ok node" "lookup_block_by_hash node h = Ok (Some c)"
    "descend_spec disk fs inode fm h levels c = Ok b" "only_leaf dir hash h leaves b"
    using Suc.IH htree_at_between by (rule index_select_leaf[OF a(2) Suc.prems(2,3)])
  with hb[OF a(1)] l show ?case
    by (cases "fm k") (auto simp: InternalNode_from_non_root_block_def)
qed

lemma find_in_extents:
  assumes "\<forall>e \<in> set es. unat (ex_block_within_file e) + unat (ex_num_blocks e) < 2 ^ 32"
  shows "find_in (\<lambda>e. bind_o (ok_or c (checked_add (ex_block_within_file e) (ucast (ex_num_blocks e)))) (\<lambda>end_block.
      if k \<ge> ex_block_within_file e \<and> k < end_block then Ok (Some e) else Ok None)) es None =
    Ok (List.find (\<lambda>e. unat (ex_block_within_file e) \<le> unat k \<and>
             unat k < unat (ex_block_within_file e) + unat (ex_num_blocks e)) es)"
  using assms
proof (induction es)
  case (Cons e es)
  have "unat (ucast (ex_num_blocks e) :: u32) = unat (ex_num_blocks e)" by (rule unat_ucast_up) simp
  with Cons show ?case
    by (simp add: checked_add_def word_le_nat_alt word_less_nat_alt unat_word_ariths)
qed simp

lemma extent_map_lookup:
  assumes "\<forall>e \<in> set es. unat (ex_block_within_file e) + unat (ex_num_blocks e) < 2 ^ 32" and "list_all extent_ok es"
    and "extent_lookup es (unat k) \<noteq> 0"
  shows "extent_map inode es None k = Ok (extent_lookup es (unat k))"
proof -
  obtain e where e: "List.find (\<lambda>e. unat (ex_block_within_file e) \<le> unat k \<and>
      unat k < unat (ex_block_within_file e) + unat (ex_num_blocks e)) es = Some e" "e \<in> set es"
    "unat (ex_block_within_file e) \<le> unat k"
  proof (cases "List.find (\<lambda>e. unat (ex_block_within_file e) \<le> unat k \<and>
      unat k < unat (ex_block_within_file e) + unat (ex_num_blocks e)) es")
    case (Some e)
    then have "e \<in> set es \<and> unat (ex_block_within_file e) \<le> unat k" by (auto simp: find_Some_iff)
    with Some that show ?thesis by blast
  qed (use assms(3) in \<open>simp add: extent_lookup_def\<close>)
  have o: "unat (ex_start_block e) < 2 ^ 48" using assms(2) e(2) by (auto simp: list_all_iff extent_ok_def)
  have k: "unat (k - ex_block_within_file e) = unat k - unat (ex_block_within_file e)"
    using e(3) by (simp add: unat_sub word_le_nat_alt)
  have u: "unat (ucast (k - ex_block_within_file e) :: u64) = unat (k - ex_block_within_file e)"
    "(ucast (k - ex_block_within_file e) :: u64) = of_nat (unat k - unat (ex_block_within_file e))"
    by (simp_all add: k[symmetric])
  have "unat (k - ex_block_within_file e) < 2 ^ 32" using unat_less_bound[of "k - ex_block_within_file e"] by simp
  with o have "checked_add (ex_start_block e) (ucast (k - ex_block_within_file e)) =
      Some (ex_start_block e + of_nat (unat k - unat (ex_block_within_file e)))"
    by (simp add: checked_add_def u(1) u(2)[symmetric] del: of_nat_diff)
  moreover have "checked_sub k (ex_block_within_file e) = Some (k - ex_block_within_file e)"
    using e(3) by (simp add: checked_sub_def word_le_nat_alt)
  ultimately show ?thesis
    unfolding extent_map_def Let_def find_in_extents[OF assms(1)] extent_lookup_def e(1) by simp
qed

lemma inode_blocks_det:
  assumes "fs_ok disk fs" and "inode_blocks disk fs inode bs" and "inode_blocks disk fs inode bs'"
  shows "bs = bs'"
  using assms outputs_det[of FileBlocks_next _ "(bs, None)" "(bs', None)"] good_refl[OF assms(1)]
  by (auto simp: inode_blocks_def fb_seq_def)

text \<open>The code finds block \<open>k\<close> of the directory where the list of its blocks has it.\<close>

lemma blocks_file_map:
  assumes "fs_ok disk fs" and "device_complete fs" and "inode_blocks disk fs inode bs" and "extents_in_order disk fs inode"
  obtains fm where "file_map disk fs inode fm"
    "\<And>k. unat k < length bs \<Longrightarrow> bs ! unat k \<noteq> 0 \<Longrightarrow> fm k = Ok (bs ! unat k)"
proof (cases "contains (in_flags inode) EXTENTS")
  case True
  then obtain it es where es: "Extents_new inode = Ok it" "walk (inode_child disk fs inode) (hd (et_to_visit it)) es None"
    "ascending 0 es" "\<forall>e \<in> set es. unat (ex_block_within_file e) + unat (ex_num_blocks e) < 2 ^ 32"
    using assms(4) by (auto simp: extents_in_order_def)
  obtain eb where "ExtentsBlocks_new inode = Ok eb"
    using assms(3) True by (cases "ExtentsBlocks_new inode") (auto simp: inode_blocks_def FileBlocks_new_def)
  from inode_blocks_det[OF assms(1,3) inode_blocks_extents[OF assms(1,2) True this es(1,2)]]
  have "bs ! unat k = extent_lookup es (unat k)" if "unat k < length bs" for k :: FileBlockIndex
    using that assms(3) cut_layout_lookup[OF es(3)] by (simp add: inode_blocks_def)
  with that[OF file_map_extents[OF assms(1,2) True es(1,2)]] extent_map_lookup[OF es(4) walk_extent_ok[OF es(2)]]
  show ?thesis by metis
next
  case False
  show ?thesis by (rule that[OF file_map_blocks[OF assms(2) False assms(3)]]) simp
qed

lemma record_size: "DirEntry_from_bytes bs inode path = Ok (e, n) \<Longrightarrow> n = unat (u16le_at bs 4) \<and> (e = None \<longrightarrow> u32le_at bs 0 = 0)"
proof -
  assume a: "DirEntry_from_bytes bs inode path = Ok (e, n)"
  then have "8 \<le> length bs" by (simp add: DirEntry_from_bytes_def NAME_OFFSET_def require_def split: if_splits)
  then have "read_u32le bs 0 = (Ok (u32le_at bs 0) :: u32 result)" "read_u16le bs 4 = (Ok (u16le_at bs 4) :: u16 result)"
    by (simp_all add: usize_max_def)
  with a show ?thesis
    by (auto simp: DirEntry_from_bytes_def NAME_OFFSET_def Let_def nonzero_new_def split: option.splits if_splits)
qed

lemma dot_records_read:
  assumes "dot_records (in_index inode) root"
  obtains dot dotdot where "read_dot_or_dotdot inode [0x2e] root = Ok (Some dot)"
    "read_dot_or_dotdot inode [0x2e, 0x2e] root = Ok (Some dotdot)"
    "scan_entries (in_index inode) [] root 0 = ([dot, dotdot], None)"
proof -
  let ?i = "in_index inode"
  obtain dot dotdot where d: "scan_entries ?i [] root 0 = ([dot, dotdot], None)"
    "DirEntry_file_name dot = Ok [0x2e]" "DirEntry_file_name dotdot = Ok [0x2e, 0x2e]"
    using assms by (auto simp: dot_records_def)
  have r: "u32le_at root 0 \<noteq> 0" "u16le_at root 4 = 12" "u32le_at (drop 12 root) 0 \<noteq> 0"
    using assms by (auto simp: dot_records_def u32le_at_def)
  have l: "0 < length root" using d(1) scan_end[of root 0 ?i "[]"] by (cases "root = []") auto
  obtain e1 where 1: "DirEntry_from_bytes root ?i [] = Ok (Some e1, 12)"
    using scan_step[OF l, of ?i "[]"] d(1) r record_size[of root ?i "[]"]
    by (cases rule: DirEntry_from_bytes_cases[of root ?i "[]"]) (auto split: option.splits)
  have s: "e1 = dot" "scan_entries ?i [] root 12 = ([dotdot], None)"
    using scan_step[OF l, of ?i "[]"] d(1) 1 by (auto simp: out_append_def prod_eq_iff split: option.splits)
  have l2: "12 < length root" using s(2) scan_end[of root 12 ?i "[]"] by (cases "12 < length root") auto
  obtain e2 n where 2: "DirEntry_from_bytes (drop 12 root) ?i [] = Ok (Some e2, n)"
    using scan_step[OF l2, of ?i "[]"] s(2) r(3) record_size[of "drop 12 root" ?i "[]"]
    by (cases rule: DirEntry_from_bytes_cases[of "drop 12 root" ?i "[]"]) (auto split: option.splits)
  have "e2 = dotdot" using scan_step[OF l2, of ?i "[]"] s(2) 2 by (auto simp: out_append_def split: option.splits)
  with that[OF _ _ d(1)] 1 2 s(1) d(2,3) l l2 show ?thesis by (simp add: read_dot_or_dotdot_def Let_def)
qed

text \<open>The parts of the argument: block \<open>k\<close> is read where the list of blocks has it, every name leads to a leaf, and every
  leaf is a block of the directory.\<close>

lemma nonroot_block_read:
  assumes "nonroot_block disk fs inode bs k b" and "0 \<notin> set bs"
    and "\<And>k. unat k < length bs \<Longrightarrow> bs ! unat k \<noteq> 0 \<Longrightarrow> fm k = Ok (bs ! unat k)"
  shows "bind_o (fm k) (\<lambda>i. dir_block_spec disk fs (htree_block_at inode False i)) = Ok b"
proof -
  have "bs ! unat k \<noteq> 0" using assms(1,2) nth_mem[of "unat k" bs] by (auto simp: nonroot_block_def simp del: nth_mem)
  with assms(1) assms(3)[of k] show ?thesis by (simp add: nonroot_block_def)
qed

lemma name_leads_to_leaf:
  fixes fs inode alg defines "hash \<equiv> \<lambda>name. dir_hash alg name (sb_htree_hash_seed (fs_superblock fs))"
  assumes "fs_ok disk fs" and alg: "root ! 0x1c = (case alg of HalfMd4 \<Rightarrow> 1 | Tea \<Rightarrow> 2)"
    and ix: "index_at_bytes (htree_at hb (names_between (in_index inode) hash) (unat (root ! 0x1e))) (drop 0x20 root) 0 (2 ^ 32) leaves"
    and hb: "\<And>k b. hb k b \<Longrightarrow> bind_o (fm k) (\<lambda>i. dir_block_spec disk fs (htree_block_at inode False i)) = Ok b"
  obtains b where "leaf_spec disk fs inode fm name root = Ok b" "only_leaf (in_index inode) hash (hash name) leaves b"
proof -
  have "unat (hash name) < 2 ^ 32" using unat_less_bound[of "hash name"] by simp
  then obtain node k b where n: "InternalNode_new (drop 0x20 root) (in_index inode) = Ok node"
    "lookup_block_by_hash node (hash name) = Ok (Some k)"
    "descend_spec disk fs inode fm (hash name) (unat (root ! 0x1e)) k = Ok b"
    "only_leaf (in_index inode) hash (hash name) leaves b"
    using htree_at_descends[OF hb] htree_at_between by (rule index_select_leaf[OF ix zero_le])
  have l: "0x28 \<le> length root" using ix by (auto simp: index_at_bytes_def)
  have "HashAlg_from_u8 (root ! 0x1c) = Ok alg" using alg by (cases alg) (simp_all add: HashAlg_from_u8_def)
  moreover have "HashAlg_hash alg name (sb_htree_hash_seed (fs_superblock fs)) = Ok (hash name)"
    unfolding hash_def using assms(2) by (intro HashAlg_hash_is) (simp add: fs_ok_def valid_superblock_def)
  ultimately show ?thesis using that[OF _ n(4)] n(1-3) l by (simp add: leaf_spec_def InternalNode_from_root_block_def)
qed

lemma leaf_in_directory:
  assumes "index_at_bytes (htree_at (nonroot_block disk fs inode bs) between levels) index lo hi leaves" and "b \<in> set leaves"
  shows "\<exists>c \<in> set (tl bs). dir_block_spec disk fs (htree_block_at inode False c) = Ok b"
proof -
  from assms obtain k where k: "nonroot_block disk fs inode bs k b"
    using htree_at_leaf by (fastforce simp: index_at_bytes_def)
  then have "bs ! unat k \<in> set (tl bs)" by (cases bs; cases "unat k") (auto simp: nonroot_block_def)
  with k show ?thesis by (auto simp: nonroot_block_def)
qed

lemma htree_wf_leads:
  assumes "fs_ok disk fs" and "device_complete fs" and "inode_blocks disk fs inode bs" and "extents_in_order disk fs inode"
    and wf: "htree_wf disk fs inode bs root"
  shows "\<exists>fm. file_map disk fs inode fm \<and> htree_leads disk fs inode fm bs root"
proof -
  let ?dir = "in_index inode"
  obtain alg leaves where alg: "root ! 0x1c = (case alg of HalfMd4 \<Rightarrow> 1 | Tea \<Rightarrow> 2)"
    and ix: "index_at_bytes (htree_at (nonroot_block disk fs inode bs)
        (names_between ?dir (\<lambda>name. dir_hash alg name (sb_htree_hash_seed (fs_superblock fs)))) (unat (root ! 0x1e)))
        (drop 0x20 root) 0 (2 ^ 32) leaves"
    and blocks: "\<And>b. b \<in> set (tl bs) \<Longrightarrow> \<exists>block. dir_block_spec disk fs (htree_block_at inode False b) = Ok block \<and>
        snd (scan_entries ?dir [] block 0) = None \<and> block_names ?dir block \<inter> dots = {} \<and>
        (block_names ?dir block \<noteq> {} \<longrightarrow> block \<in> set leaves)"
    using wf unfolding htree_wf_def by blast
  obtain fm where fm: "file_map disk fs inode fm" "\<And>k. unat k < length bs \<Longrightarrow> bs ! unat k \<noteq> 0 \<Longrightarrow> fm k = Ok (bs ! unat k)"
    using blocks_file_map[OF assms(1-4)] by blast
  have "0 \<notin> set bs" using wf by (simp add: htree_wf_def)
  note leaf = name_leads_to_leaf[OF assms(1) alg ix nonroot_block_read[OF _ this fm(2)]]
  obtain dot dotdot where dots: "read_dot_or_dotdot inode [0x2e] root = Ok (Some dot)"
    "read_dot_or_dotdot inode [0x2e, 0x2e] root = Ok (Some dotdot)"
    "scan_entries ?dir [] root 0 = ([dot, dotdot], None)"
    using wf by (auto simp: htree_wf_def elim: dot_records_read)
  have "name \<notin> dots \<and> leaf_spec disk fs inode fm name root = Ok block"
    if "block_names ?dir block \<inter> dots = {}" "block_names ?dir block \<noteq> {} \<longrightarrow> block \<in> set leaves"
      "name \<in> block_names ?dir block" for block name
    using that by (rule_tac name = name in leaf) (auto simp: only_leaf_def)
  then have "\<exists>block. dir_block_spec disk fs (htree_block_at inode False b) = Ok block \<and> snd (scan_entries ?dir [] block 0) = None \<and>
      (\<forall>e \<in> set (fst (scan_entries ?dir [] block 0)). \<forall>name. DirEntry_file_name e = Ok name \<longrightarrow>
         name \<notin> dots \<and> leaf_spec disk fs inode fm name root = Ok block)" if b: "b \<in> set (tl bs)" for b
    using blocks[OF b] by (fastforce simp: block_names_def)
  moreover have "\<exists>b \<in> set (tl bs). leaf_spec disk fs inode fm name root = dir_block_spec disk fs (htree_block_at inode False b)" for name
  proof (rule leaf[where name = name])
    fix b assume "leaf_spec disk fs inode fm name root = Ok b" and "only_leaf ?dir (\<lambda>name. dir_hash alg name (sb_htree_hash_seed (fs_superblock fs)))
      (dir_hash alg name (sb_htree_hash_seed (fs_superblock fs))) leaves b"
    with leaf_in_directory[OF ix, of b] show ?thesis unfolding only_leaf_def by metis
  qed
  ultimately have "htree_leads disk fs inode fm bs root"
    using wf dots unfolding htree_leads_def htree_wf_def by blast
  with fm(1) show ?thesis by blast
qed

section \<open>Properties\<close>

text \<open>Searching an inner node of an htree by bisection finds what a linear search finds: if the keys of a
  node with at least one entry are sorted, the lookup of a hash returns the block of the last entry
  whose key is at most the hash; it ends and does not panic.\<close>

theorem htree_bisection_is_linear_search:
  assumes "InternalNode_new bytes inode = Ok node" and "sorted_node node" and "0 < InternalNode_num_entries node"
  shows "lookup_block_by_hash node h = Ok (Some (linear_lookup node h))"
  using InternalNode_new_holds[of bytes inode] lookup_is_linear[OF _ assms(2,3)] assms(1) by simp

text \<open>C10: Looking up a name via the htree of a directory finds the same entry, or fails to find one just the
  same, as scanning all entries of the directory, if the htree on the disk is well formed: the root block starts
  with the two dot records, the blocks of the tree are index nodes with keys in ascending order, and the hash of
  every name in a leaf lies between the keys around that leaf. Well-formedness is read from the bytes of the
  blocks and speaks of the hash of the format, not of the code that searches the tree.\<close>

theorem htree_lookup_is_linear_scan:
  assumes "fs_ok disk fs" and "device_complete fs" and "inode_blocks disk fs inode bs"
    and "extents_in_order disk fs inode" and "htree_wf disk fs inode bs root"
  shows "fst (get_dir_entry_via_htree inode name fs) = find_entry name (blocks_entries disk fs inode [] True bs None)"
proof -
  obtain fm where fm: "file_map disk fs inode fm" "htree_leads disk fs inode fm bs root"
    using htree_wf_leads[OF assms] by blast
  have "contains (in_flags inode) DIRECTORY_HTREE" using assms(5) by (simp add: htree_wf_def)
  from via_htree_computes[OF assms(2) fm(1) good_refl[OF assms(1)] this assms(3), of name] htree_spec_linear[OF fm(2)]
  show ?thesis by (simp add: computes_def)
qed

theorem htree_bisection_is_linear_search_witness:
  "\<exists>node. InternalNode_new [2, 0, 2, 0, 1, 0, 0, 0, 0x10, 0, 0, 0, 5, 0, 0, 0] 2 = Ok node \<and>
     lookup_block_by_hash node 0x20 = Ok (Some 5)"
proof -
  let ?b = "[2, 0, 2, 0, 1, 0, 0, 0, 0x10, 0, 0, 0, 5, 0, 0, 0] :: bytes"
  have n: "InternalNode_new ?b 2 = Ok \<lparr>nd_entries = ?b\<rparr>" by code_simp
  have s: "sorted_node \<lparr>nd_entries = ?b\<rparr>" "0 < InternalNode_num_entries \<lparr>nd_entries = ?b\<rparr>" by code_simp+
  have "linear_lookup \<lparr>nd_entries = ?b\<rparr> 0x20 = 5" by code_simp
  with htree_bisection_is_linear_search[OF n s, of "0x20"] n show ?thesis by simp
qed

text \<open>A directory with an htree of two leaves: the name \<open>b\<close> is in the first, and the name \<open>a\<close> in the second. The
  hash of \<open>a\<close> is \<open>0xd5fa7d7a\<close>; the key between the leaves has the lowest byte \<open>k\<close>.\<close>

definition htree_index :: "u8 \<Rightarrow> bytes" where
  "htree_index k = [123, 0, 2, 0, 1, 0, 0, 0, k, 0x7d, 0xfa, 0xd5, 2, 0, 0, 0] @ replicate 976 0"

definition htree_root :: "u8 \<Rightarrow> bytes" where
  "htree_root k = encode_entry 12 12 Directory [0x2e] @ [0, 0, 0] @ encode_entry 12 1012 Directory [0x2e, 0x2e] @ [0, 0] @
     [0, 0, 0, 0] @ [1, 8, 0, 0] @ htree_index k"

definition htree_leaf :: "bytes \<Rightarrow> bytes" where
  "htree_leaf name = encode_entry 13 1024 Regular name @ replicate (1016 - length name) 0"

definition htree_image :: "u8 \<Rightarrow> bytes" where
  "htree_image k = replicate 7168 0 @ htree_root k @ htree_leaf [0x62] @ htree_leaf [0x61] @ replicate 6144 0"

definition htree_inode :: Inode where
  "htree_inode = sample_dir\<lparr>in_flags := EXTENTS OR DIRECTORY_HTREE\<rparr>"

lemma htree_block_lengths: "length (htree_root k) = 1024" "length name \<le> 1016 \<Longrightarrow> length (htree_leaf name) = 1024"
  by (simp_all add: htree_root_def htree_index_def htree_leaf_def encode_entry_def)

lemma htree_image_blocks:
  "disk_range (disk_of (htree_image k)) 7168 1024 = htree_root k" "disk_range (disk_of (htree_image k)) 8192 1024 = htree_leaf [0x62]"
  "disk_range (disk_of (htree_image k)) 9216 1024 = htree_leaf [0x61]" "length (htree_image k) = 16384"
proof -
  note l = htree_block_lengths
  show "disk_range (disk_of (htree_image k)) 7168 1024 = htree_root k"
    using disk_range_disk_of[of "replicate 7168 0" "htree_root k" "htree_leaf [0x62] @ htree_leaf [0x61] @ replicate 6144 0"] l
    by (simp add: htree_image_def)
  show "disk_range (disk_of (htree_image k)) 8192 1024 = htree_leaf [0x62]"
    using disk_range_disk_of[of "replicate 7168 0 @ (htree_root k)" "htree_leaf [0x62]" "htree_leaf [0x61] @ replicate 6144 0"] l
    by (simp add: htree_image_def)
  show "disk_range (disk_of (htree_image k)) 9216 1024 = htree_leaf [0x61]"
    using disk_range_disk_of[of "replicate 7168 0 @ (htree_root k) @ htree_leaf [0x62]" "htree_leaf [0x61]" "replicate 6144 0"] l
    by (simp add: htree_image_def)
  show "length (htree_image k) = 16384" using l by (simp add: htree_image_def)
qed

lemma htree_image_read:
  "dir_block_spec (disk_of (htree_image k)) (sample_fs (htree_image k)) (htree_block_at inode first 7) = Ok (htree_root k)"
  "dir_block_spec (disk_of (htree_image k)) (sample_fs (htree_image k)) (htree_block_at inode first 8) = Ok (htree_leaf [0x62])"
  "dir_block_spec (disk_of (htree_image k)) (sample_fs (htree_image k)) (htree_block_at inode first 9) = Ok (htree_leaf [0x61])"
  using htree_image_blocks
  by (auto simp: dir_block_spec_def block_read_spec_def readable_def verify_block_def has_metadata_checksums_def
      sample_superblock_def contains_def htree_block_at_def)

abbreviation htree_extents :: "Extent list" where
  "htree_extents \<equiv> [\<lparr>ex_block_within_file = 0, ex_start_block = 7, ex_num_blocks = 3\<rparr>]"

lemma htree_inode_tree:
  "Extents_new htree_inode = Ok leaf_extents" "contains (in_flags htree_inode) EXTENTS"
  "contains (in_flags htree_inode) DIRECTORY_HTREE" "in_index htree_inode = 12"
  "walk (inode_child disk fs htree_inode) (hd (et_to_visit leaf_extents)) htree_extents None"
proof -
  show "Extents_new htree_inode = Ok leaf_extents"
    using leaf_extents_new by (simp add: Extents_new_def htree_inode_def sample_dir_def)
  show "walk (inode_child disk fs htree_inode) (hd (et_to_visit leaf_extents)) htree_extents None"
    by (simp add: leaf_extents_def leaf_walk)
qed (simp_all add: htree_inode_def contains_def sample_dir_def leaf_inode_def)

lemma htree_inode_blocks:
  "inode_blocks (disk_of (htree_image k)) (sample_fs (htree_image k)) htree_inode [7, 8, 9]"
  "extents_in_order disk fs htree_inode"
proof -
  have "ExtentsBlocks_new htree_inode = ExtentsBlocks_new leaf_inode"
    by (simp add: ExtentsBlocks_new_def Extents_new_def htree_inode_def sample_dir_def Inode_file_size_in_blocks_def)
  note n = this[unfolded leaf_blocks_new]
  have "map (\<lambda>k. 7 + of_nat k) [0..<3] = ([7, 8, 9] :: u64 list)" by code_simp
  with inode_blocks_extents[OF sample_fs_ok sample_fs_complete[OF htree_image_blocks(4)] htree_inode_tree(2) n htree_inode_tree(1,5)]
  show "inode_blocks (disk_of (htree_image k)) (sample_fs (htree_image k)) htree_inode [7, 8, 9]"
    by (simp add: cut_blocks_def htree_inode_def sample_dir_def leaf_inode_def)
  show "extents_in_order disk fs htree_inode"
    unfolding extents_in_order_def using htree_inode_tree(1) htree_inode_tree(5)[of disk fs] by force
qed

lemma htree_entry_names:
  "DirEntry_file_name (entry_of k t [0x2e]) = Ok [0x2e]" "DirEntry_file_name (entry_of k t [0x2e, 0x2e]) = Ok [0x2e, 0x2e]"
  "DirEntry_file_name (entry_of k t [0x61]) = Ok [0x61]" "DirEntry_file_name (entry_of k t [0x62]) = Ok [0x62]"
proof -
  have "DirEntry_file_name (entry_of k t x) = Ok x" if "\<exists>b. DirEntryNameBuf_try_from x = Ok b" for x
    using that name_buf_roundtrip by (auto simp: DirEntry_file_name_def entry_of_def)
  then show "DirEntry_file_name (entry_of k t [0x2e]) = Ok [0x2e]" "DirEntry_file_name (entry_of k t [0x2e, 0x2e]) = Ok [0x2e, 0x2e]"
    "DirEntry_file_name (entry_of k t [0x61]) = Ok [0x61]" "DirEntry_file_name (entry_of k t [0x62]) = Ok [0x62]"
    by (simp_all add: DirEntryNameBuf_try_from_def DirEntryName_try_from_def word_try_from_def MAX_LEN_def SEPARATOR_def Let_def)
qed

lemma htree_leaf_scan:
  assumes "\<exists>b. DirEntryNameBuf_try_from name = Ok b"
  shows "scan_entries 12 [] (htree_leaf name) 0 = ([entry_of 13 Regular name], None)"
proof -
  obtain b where b: "DirEntryNameBuf_try_from name = Ok b" using assms by blast
  then have l: "length name \<le> 255" by (auto simp: DirEntryNameBuf_try_from_def DirEntryName_try_from_def MAX_LEN_def Let_def split: if_splits)
  have "DirEntry_from_bytes (htree_leaf name) 12 [] = Ok (Some (entry_of 13 Regular name), 1024)"
    using dir_entry_roundtrip[OF b, of 13 1024 Regular "replicate (1016 - length name) 0" 12 "[]"] b l
    by (simp add: htree_leaf_def entry_of_def)
  then show ?thesis
    using l scan_step[of 0 "htree_leaf name" 12 "[]"] scan_end[of "htree_leaf name" 1024 12 "[]"]
    by (simp add: htree_block_lengths)
qed

lemma htree_scans:
  "scan_entries 12 [] (htree_root k) 0 = ([entry_of 12 Directory [0x2e], entry_of 12 Directory [0x2e, 0x2e]], None)"
  "scan_entries 12 [] (htree_leaf [0x61]) 0 = ([entry_of 13 Regular [0x61]], None)"
  "scan_entries 12 [] (htree_leaf [0x62]) 0 = ([entry_of 13 Regular [0x62]], None)"
proof -
  have n: "\<exists>b. DirEntryNameBuf_try_from [0x2e] = Ok b" "\<exists>b. DirEntryNameBuf_try_from [0x2e, 0x2e] = Ok b"
    "\<exists>b. DirEntryNameBuf_try_from [0x61] = Ok b" "\<exists>b. DirEntryNameBuf_try_from [0x62] = Ok b"
    by (simp_all add: DirEntryNameBuf_try_from_def DirEntryName_try_from_def word_try_from_def MAX_LEN_def SEPARATOR_def Let_def)
  then obtain b1 b2 where b: "DirEntryNameBuf_try_from [0x2e] = Ok b1" "DirEntryNameBuf_try_from [0x2e, 0x2e] = Ok b2" by blast
  let ?r2 = "[0, 0] @ [0, 0, 0, 0] @ [1, 8, 0, 0] @ htree_index k :: bytes"
  have d: "drop 12 (htree_root k) = encode_entry 12 1012 Directory [0x2e, 0x2e] @ ?r2"
    by (simp add: htree_root_def encode_entry_def)
  have l: "length ?r2 = 1002" by (simp add: htree_index_def)
  have 1: "DirEntry_from_bytes (htree_root k) 12 [] = Ok (Some (entry_of 12 Directory [0x2e]), 12)"
    using dir_entry_roundtrip[OF b(1), of 12 12 Directory "[0, 0, 0] @ encode_entry 12 1012 Directory [0x2e, 0x2e] @ ?r2" 12 "[]"] b(1)
    by (simp add: htree_root_def entry_of_def)
  have 2: "DirEntry_from_bytes (drop 12 (htree_root k)) 12 [] = Ok (Some (entry_of 12 Directory [0x2e, 0x2e]), 1012)"
    unfolding d using dir_entry_roundtrip[OF b(2), of 12 1012 Directory ?r2 12 "[]"] b(2) by (simp add: entry_of_def)
  show "scan_entries 12 [] (htree_root k) 0 = ([entry_of 12 Directory [0x2e], entry_of 12 Directory [0x2e, 0x2e]], None)"
    using 1 2 htree_block_lengths(1) scan_step[of 0 "htree_root k" 12 "[]"] scan_step[of 12 "htree_root k" 12 "[]"]
      scan_end[of "htree_root k" 1024 12 "[]"] by simp
qed (rule htree_leaf_scan, simp add: DirEntryNameBuf_try_from_def DirEntryName_try_from_def word_try_from_def MAX_LEN_def SEPARATOR_def Let_def)+

lemma htree_hashes:
  "dir_hash HalfMd4 [0x61] [0, 0, 0, 0] = 0xd5fa7d7a" "dir_hash HalfMd4 [0x62] [0, 0, 0, 0] = 0x039c796c"
proof -
  have ab: "name_blocks 8 [0x61] = [[0x01010161, 0x01010101, 0x01010101, 0x01010101, 0x01010101, 0x01010101, 0x01010101, 0x01010101]]"
    by code_simp
  have ah: "foldl half_md4 (0x67452301, 0xefcdab89, 0x98badcfe, 0x10325476)
      [[0x01010161, 0x01010101, 0x01010101, 0x01010101, 0x01010101, 0x01010101, 0x01010101, 0x01010101]] =
      (0x5f321bd3, 0xd5fa7d7b, 0xacb48187, 0xa8ca511d)" by code_simp
  show "dir_hash HalfMd4 [0x61] [0, 0, 0, 0] = 0xd5fa7d7a"
    unfolding dir_hash_def Let_def HashAlg.case ab by (simp add: ah del: foldl_Cons)
  have bb: "name_blocks 8 [0x62] = [[0x01010162, 0x01010101, 0x01010101, 0x01010101, 0x01010101, 0x01010101, 0x01010101, 0x01010101]]"
    by code_simp
  have bh: "foldl half_md4 (0x67452301, 0xefcdab89, 0x98badcfe, 0x10325476)
      [[0x01010162, 0x01010101, 0x01010101, 0x01010101, 0x01010101, 0x01010101, 0x01010101, 0x01010101]] =
      (0xb7f2dce1, 0x39c796c, 0x168e4dd7, 0x953bd6a3)" by code_simp
  show "dir_hash HalfMd4 [0x62] [0, 0, 0, 0] = 0x039c796c"
    unfolding dir_hash_def Let_def HashAlg.case bb by (simp add: bh del: foldl_Cons)
qed

lemma htree_index_reads:
  "index_count (htree_index 0x7a) = 2" "index_key (htree_index 0x7a) lo hi 0 = lo" "index_key (htree_index 0x7a) lo hi 1 = 0xd5fa7d7a"
  "index_key (htree_index 0x7a) lo hi 2 = hi" "index_child (htree_index 0x7a) 0 = 1" "index_child (htree_index 0x7a) 1 = 2"
  "length (htree_index 0x7a) = 992"
  by (simp_all add: index_count_def index_key_def index_child_def htree_index_def u16le_at_nth u32le_at_nth)

lemma htree_leaf_names: "block_names 12 (htree_leaf [0x61]) = {[0x61]}" "block_names 12 (htree_leaf [0x62]) = {[0x62]}"
  by (simp_all add: block_names_def htree_scans htree_entry_names)

lemma htree_root_dots: "dot_records 12 (htree_root 0x7a)"
proof -
  have e: "to_le_bytes (12 :: u32) = [12, 0, 0, 0]" "to_le_bytes (12 :: u16) = [12, 0]" "length (to_le_bytes (1012 :: u16)) = 2"
    by code_simp+
  have "u32le_at (htree_root 0x7a) 0 = 12" "u16le_at (htree_root 0x7a) 4 = 12" "u32le_at (htree_root 0x7a) 12 = 12"
    using e by (simp_all add: htree_root_def encode_entry_def htree_index_def u16le_at_nth u32le_at_nth)
  then show ?thesis by (simp add: dot_records_def htree_scans htree_entry_names)
qed

lemma htree_image_wf:
  "htree_wf (disk_of (htree_image 0x7a)) (sample_fs (htree_image 0x7a)) htree_inode [7, 8, 9] (htree_root 0x7a)"
proof -
  let ?hash = "\<lambda>name. dir_hash HalfMd4 name [0, 0, 0, 0]" and ?leaf = "\<lambda>i. htree_leaf (if i = 0 then [0x62] else [0x61])"
  let ?nb = "nonroot_block (disk_of (htree_image 0x7a)) (sample_fs (htree_image 0x7a)) htree_inode [7, 8, 9]"
  have r: "htree_root 0x7a ! 0x1c = 1" "htree_root 0x7a ! 0x1e = 0" "drop 0x20 (htree_root 0x7a) = htree_index 0x7a"
    by (simp_all add: htree_root_def encode_entry_def nth_append)
  have b: "?nb 1 (htree_leaf [0x62])" "?nb 2 (htree_leaf [0x61])" by (simp_all add: nonroot_block_def htree_image_read)
  have t: "names_between 12 ?hash (htree_leaf [0x62]) 0 0xd5fa7d7a" "names_between 12 ?hash (htree_leaf [0x61]) 0xd5fa7d7a (2 ^ 32)"
    by (simp_all add: names_between_def htree_leaf_names htree_hashes)
  have seed: "sb_htree_hash_seed sample_superblock = [0, 0, 0, 0]" by (simp add: sample_superblock_def)
  have u: "[0..<2] = [0, Suc 0]" by (simp add: numeral_2_eq_2)
  have "index_at_bytes (htree_at ?nb (names_between 12 ?hash) 0) (htree_index 0x7a) 0 (2 ^ 32) [htree_leaf [0x62], htree_leaf [0x61]]"
    unfolding index_at_bytes_def htree_index_reads
    by (intro conjI exI[of _ "\<lambda>i. [?leaf i]"])
       (use b t in \<open>auto simp: u htree_index_reads htree_index_reads[simplified] less_2_cases_iff numeral_2_eq_2[symmetric]\<close>)
  then show ?thesis
    unfolding htree_wf_def htree_inode_tree(4)
    using r htree_root_dots htree_inode_tree(3)
    by (intro conjI exI[of _ HalfMd4] exI[of _ "[htree_leaf [0x62], htree_leaf [0x61]]"])
       (auto simp: htree_image_read htree_scans htree_leaf_names dots_def seed)
qed

text \<open>All entries of the directory, as a scan finds them.\<close>

lemma htree_image_entries:
  "blocks_entries (disk_of (htree_image k)) (sample_fs (htree_image k)) htree_inode [] True [7, 8, 9] None =
     ([entry_of 12 Directory [0x2e], entry_of 12 Directory [0x2e, 0x2e], entry_of 13 Regular [0x62], entry_of 13 Regular [0x61]], None)"
proof -
  have "dir_block_at htree_inode first b = htree_block_at htree_inode first b" for first b
    using htree_inode_tree(3) by (simp add: dir_block_at_def htree_block_at_def)
  then show ?thesis by (simp add: block_entries_def htree_image_read htree_scans htree_inode_tree(4))
qed

theorem htree_lookup_is_linear_scan_witness:
  "fst (get_dir_entry_via_htree htree_inode [0x61] (sample_fs (htree_image 0x7a))) = Ok (entry_of 13 Regular [0x61])"
proof -
  have "find_entry [0x61] (blocks_entries (disk_of (htree_image 0x7a)) (sample_fs (htree_image 0x7a)) htree_inode [] True [7, 8, 9] None) =
      Ok (entry_of 13 Regular [0x61])"
    unfolding htree_image_entries by (simp add: find_entry_simps htree_entry_names)
  with htree_lookup_is_linear_scan[OF sample_fs_ok sample_fs_complete[OF htree_image_blocks(4)] htree_inode_blocks htree_image_wf, of "[0x61]"]
  show ?thesis by simp
qed

text \<open>In the format, a key whose lowest bit is set marks a leaf that continues the one before it: names with the hash
  that the key has without that bit can be in either. The code does not look into the continuation: with the key
  \<open>0xd5fa7d7b\<close> before the second leaf, the name \<open>a\<close> in it, whose hash is \<open>0xd5fa7d7a\<close>, is not found, although a
  scan of the directory finds it.\<close>

theorem htree_continuation_missed:
  "fst (get_dir_entry_via_htree htree_inode [0x61] (sample_fs (htree_image 0x7b))) = Err NotFound \<and>
   find_entry [0x61] (blocks_entries (disk_of (htree_image 0x7b)) (sample_fs (htree_image 0x7b)) htree_inode [] True [7, 8, 9] None) =
     Ok (entry_of 13 Regular [0x61])"
proof
  let ?disk = "disk_of (htree_image 0x7b)" and ?fs = "sample_fs (htree_image 0x7b)" and ?ix = "htree_index 0x7b"
  note c = sample_fs_complete[OF htree_image_blocks(4)]
  obtain fm where fm: "file_map ?disk ?fs htree_inode fm"
    "\<And>k. unat k < length [7, 8, 9 :: u64] \<Longrightarrow> [7, 8, 9 :: u64] ! unat k \<noteq> 0 \<Longrightarrow> fm k = Ok ([7, 8, 9] ! unat k)"
    using blocks_file_map[OF sample_fs_ok c htree_inode_blocks] by blast
  have fm1: "fm 1 = Ok 8" using fm(2)[of 1] by simp
  have r: "htree_root 0x7b ! 0x1c = 1" "htree_root 0x7b ! 0x1e = 0" "drop 0x20 (htree_root 0x7b) = ?ix"
    by (simp_all add: htree_root_def encode_entry_def nth_append)
  have k: "index_count ?ix = 2" "index_key ?ix lo hi 0 = lo" "index_key ?ix lo hi (Suc 0) = 0xd5fa7d7b"
    "index_key ?ix lo hi 2 = hi" "index_child ?ix 0 = 1" "length ?ix = 992" for lo hi
    by (simp_all add: index_count_def index_key_def index_child_def htree_index_def u16le_at_nth u32le_at_nth)
  have ix: "index_at_bytes (\<lambda>_ _ _ _. True) ?ix 0 (2 ^ 32) []"
    unfolding index_at_bytes_def by (auto simp: k less_2_cases_iff numeral_2_eq_2[symmetric] intro!: exI[of _ "\<lambda>_. []"])
  have h: "HashAlg_hash HalfMd4 [0x61] (sb_htree_hash_seed sample_superblock) = Ok 0xd5fa7d7a"
    using HashAlg_hash_is[of "[0, 0, 0, 0]" HalfMd4 "[0x61]"] htree_hashes(1) by (simp add: sample_superblock_def)
  obtain node i where node: "InternalNode_new ?ix 12 = Ok node" "i < index_count ?ix"
    "lookup_block_by_hash node 0xd5fa7d7a = Ok (Some (index_child ?ix i))"
    "index_key ?ix 0 (2 ^ 32) i \<le> unat (0xd5fa7d7a :: u32)" "unat (0xd5fa7d7a :: u32) < index_key ?ix 0 (2 ^ 32) (i + 1)"
    by (rule index_lookup[OF ix, of "0xd5fa7d7a"]) simp_all
  then have "i = 0" by (auto simp: k less_2_cases_iff)
  with node h have "leaf_spec ?disk ?fs htree_inode fm [0x61] (htree_root 0x7b) = Ok (htree_leaf [0x62])"
    by (simp add: leaf_spec_def r htree_block_lengths HashAlg_from_u8_def InternalNode_from_root_block_def htree_inode_tree(4) k fm1 htree_image_read)
  then have "htree_spec ?disk ?fs htree_inode fm [7, 8, 9] [0x61] = Err NotFound"
    by (simp add: htree_spec_def htree_image_read read_dot_other dots_def htree_inode_tree(4) htree_scans find_entry_simps htree_entry_names)
  with via_htree_computes[OF c fm(1) good_refl[OF sample_fs_ok] htree_inode_tree(3) htree_inode_blocks(1), of "[0x61]"]
  show "fst (get_dir_entry_via_htree htree_inode [0x61] ?fs) = Err NotFound" by (simp add: computes_def)
  show "find_entry [0x61] (blocks_entries ?disk ?fs htree_inode [] True [7, 8, 9] None) = Ok (entry_of 13 Regular [0x61])"
    unfolding htree_image_entries by (simp add: find_entry_simps htree_entry_names)
qed

end
