(* ===== verification/Dir.thy ===== *)
theory Dir
  imports Dir_Htree
begin

text \<open>
  Looking up a name in a directory (\<^verbatim>\<open>src/src/dir.rs\<close>) and the target of a symbolic link
  (\<open>Inode::symlink_target\<close> of \<^verbatim>\<open>src/src/inode.rs\<close>).
\<close>

section \<open>The code\<close>

definition get_dir_entry_inode_by_name :: "Inode \<Rightarrow> DirEntryName \<Rightarrow> Inode fs_op" where
  "get_dir_entry_inode_by_name dir_inode name =
     bindc (lift (assert_o (Metadata_is_dir (in_metadata dir_inode)))) (\<lambda>_.
     if contains (in_flags dir_inode) DIRECTORY_ENCRYPTED then lift (Err Encrypted)
     else if contains (in_flags dir_inode) DIRECTORY_HTREE then
       bindc (get_dir_entry_via_htree dir_inode name) (\<lambda>entry. Inode_read (de_inode entry))
     else
       let path = [] in
       bindc (gets (\<lambda>fs. ReadDir_new fs dir_inode path)) (\<lambda>read_dir.
       bindc (lift read_dir) (\<lambda>read_dir.
       bindc (with_iter read_dir (for_each ReadDir_next (\<lambda>entry.
         bind_o (DirEntry_file_name entry) (\<lambda>file_name.
         if file_name = name then Ok (Some entry) else Ok None)))) (\<lambda>found.
       case found of
         Some entry \<Rightarrow> Inode_read (de_inode entry)
       | None \<Rightarrow> lift (Err NotFound)))))"

definition MAX_INLINE_SYMLINK_LEN :: u64 where
  "MAX_INLINE_SYMLINK_LEN = 59"

definition symlink_target :: "Inode \<Rightarrow> PathBuf fs_op" where
  "symlink_target self =
     (if \<not> Metadata_is_symlink (in_metadata self) then lift (Err NotASymlink)
      else if md_size_in_bytes (in_metadata self) = 0 then lift (corrupt (SymlinkTarget (in_index self)))
      else if md_size_in_bytes (in_metadata self) \<le> MAX_INLINE_SYMLINK_LEN then
        bindc (lift (slice (in_inline_data self) 0 (unat (md_size_in_bytes (in_metadata self))))) (\<lambda>target.
        lift (map_err (\<lambda>_. Corrupt (SymlinkTarget (in_index self))) (PathBuf_try_from target)))
      else
        bindc (read_inode_file self) (\<lambda>data.
        lift (map_err (\<lambda>_. Corrupt (SymlinkTarget (in_index self))) (PathBuf_try_from data))))"

section \<open>Reading inodes does not see the cache\<close>

text \<open>The inode of a number, as a function of the device.\<close>

definition inode_verify :: "Ext4 \<Rightarrow> InodeIndex \<Rightarrow> bytes \<Rightarrow> Inode result" where
  "inode_verify fs i data =
     bind_o (Inode_from_bytes fs i data) (\<lambda>(inode, expected).
     if has_metadata_checksums fs then
       let checksum = in_checksum_base inode in
       bind_o (slice data 0 L_I_CHECKSUM_LO_OFFSET) (\<lambda>before.
       let checksum = Checksum_update before checksum;
           checksum = Checksum_update_u16_le 0 checksum in
       bind_o (slice data (L_I_CHECKSUM_LO_OFFSET + 2) I_CHECKSUM_HI_OFFSET) (\<lambda>between.
       let checksum = Checksum_update between checksum;
           checksum = Checksum_update_u16_le 0 checksum in
       bind_o (slice data (I_CHECKSUM_HI_OFFSET + 2) (length data)) (\<lambda>rest.
       let checksum = Checksum_update rest checksum in
       if Checksum_finalize (fs_crc fs) checksum \<noteq> expected then corrupt (InodeChecksum (in_index inode)) else Ok inode)))
     else Ok inode)"

definition inode_spec :: "(nat \<Rightarrow> u8) \<Rightarrow> Ext4 \<Rightarrow> InodeIndex \<Rightarrow> Inode result" where
  "inode_spec disk fs i =
     bind_o (get_inode_location fs i) (\<lambda>(b, off).
     bind_o (block_read_spec disk fs b off (unat (sb_inode_size (fs_superblock fs)))) (inode_verify fs i))"

text \<open>A computation that does not touch the state is an outcome.\<close>

lemma lift_out:
  "bindc (lift r) (\<lambda>x. lift (f x)) = lift (bind_o r f)" "ret x = lift (Ok x)"
  "(if b then lift r else lift r') = lift (if b then r else r')"
  "(let x = v in lift (f x)) = lift (let x = v in f x)"
  "(case p of (a, c) \<Rightarrow> lift (h a c)) = lift (case p of (a, c) \<Rightarrow> h a c)"
  by (auto simp: bindc_def lift_def ret_def fun_eq_iff split: outcome.split prod.split)

lemma Inode_read_eq:
  "Inode_read i = bindc (gets (\<lambda>fs. fs)) (\<lambda>fs. bindc (lift (get_inode_location fs i)) (\<lambda>(b, off).
     bindc (read_from_block b off (unat (sb_inode_size (fs_superblock fs)))) (\<lambda>data. lift (inode_verify fs i data))))"
  unfolding Inode_read_def inode_verify_def Let_def lift_out ..

lemma good_inode_functions:
  assumes "good disk fs0 fs"
  shows "get_inode_location fs = get_inode_location fs0" "inode_verify fs = inode_verify fs0"
  by (rule ext, simp add: get_inode_location_def good_sel[OF assms],
      (rule ext)+, simp add: inode_verify_def Inode_from_bytes_def good_sel[OF assms])

lemma computes_case_prod:
  "(\<And>a b. x = (a, b) \<Longrightarrow> computes disk fs0 fs (f a b) (g a b)) \<Longrightarrow>
   computes disk fs0 fs (case x of (a, b) \<Rightarrow> f a b) (case x of (a, b) \<Rightarrow> g a b)"
  by (cases x) simp

text \<open>No inode is in block 0 beyond the part of it that the boot record and the superblock take. Block 0 is
  the one block whose cached content may be stale.\<close>

definition inode_tables_ok :: "Ext4 \<Rightarrow> bool" where
  "inode_tables_ok fs \<longleftrightarrow>
     (\<forall>i b off. get_inode_location fs i = Ok (b, off) \<longrightarrow> off < 1024 \<or> mapped fs b \<noteq> 0)"

lemma Inode_read_computes:
  assumes "device_complete fs0" and "inode_tables_ok fs0" and g: "good disk fs0 fs"
  shows "computes disk fs0 fs (Inode_read i) (inode_spec disk fs0 i)"
proof -
  let ?body = "\<lambda>ext4. bindc (lift (get_inode_location fs0 i)) (\<lambda>(block_index, offset_within_block).
     bindc (read_from_block block_index offset_within_block
              (unat (sb_inode_size (fs_superblock fs0)))) (\<lambda>data.
     lift (inode_verify fs0 i data)))"
  have "computes disk fs0 fs (?body fs) (inode_spec disk fs0 i)"
    unfolding inode_spec_def
    by (rule computes_lift_bind[OF g], rule computes_case_prod, rule computes_bind[OF computes_read[OF g assms(1)]])
       (use assms(2) in \<open>auto simp: inode_tables_ok_def intro: computes_lift\<close>)
  moreover have "Inode_read i fs = ?body fs fs"
    by (simp add: Inode_read_eq bindc_def gets_def good_inode_functions[OF g] good_sel[OF g])
  ultimately show ?thesis by (simp add: computes_def)
qed
section \<open>Directory lookup\<close>

lemma DirBlock_read_any:
  assumes "device_complete fs0" and g: "good disk fs0 fs"
  shows "computes disk fs0 fs (DirBlock_read db n) (if n = block_bytes fs0 then dir_block_spec disk fs0 db else Panic)"
proof (cases "n = block_bytes fs0")
  case True
  with DirBlock_read_computes[OF g assms(1), of db] show ?thesis by simp
next
  case False
  with g good_sel(1)[OF g] show ?thesis
    by (simp add: computes_def DirBlock_read_def bindc_def gets_def lift_def assert_o_def BlockSize_to_usize_def usize_from_u32_def)
qed

lemma blind_case_prod [blind_intros]:
  "(\<And>a b. blind disk fs0 (f a b)) \<Longrightarrow> blind disk fs0 (case x of (a, b) \<Rightarrow> f a b)"
  by (cases x) simp

lemma blind_block_size [blind_intros]:
  "blind disk fs0 (on_snd (gets (\<lambda>fs. sb_block_size (fs_superblock fs))) :: ('s \<times> Ext4, BlockSize, Ext4Error) comp)"
  by (rule blind_on_snd[where r = "Ok (sb_block_size (fs_superblock fs0))"])
     (simp add: computes_def gets_def good_sel)

lemma ReadDir_next_blind [blind_intros]:
  assumes "device_complete fs0"
  shows "blind disk fs0 ReadDir_next"
  unfolding ReadDir_next_def
  by (rule blind_iter, unfold ReadDir_next_impl_def ReadDir_block_index_def)
     (intro blind_intros assms blind_on_snd[OF DirBlock_read_any[OF assms]])

lemma dir_lookup_linear:
  assumes "device_complete fs0" and "inode_tables_ok fs0" and g: "good disk fs0 fs" and "dir_ok disk fs0 inode bs"
    and "Metadata_is_dir (in_metadata inode)" and "\<not> contains (in_flags inode) DIRECTORY_HTREE"
  shows "computes disk fs0 fs (get_dir_entry_inode_by_name inode name)
     (bind_o (find_entry name (blocks_entries disk fs0 inode [] True bs None)) (\<lambda>e. inode_spec disk fs0 (de_inode e)))"
proof -
  let ?out = "blocks_entries disk fs0 inode [] True bs None"
  obtain it where it: "ReadDir_new fs0 inode [] = Ok it"
    "\<And>fs. good disk fs0 fs \<Longrightarrow> outputs ReadDir_next (it, fs) ?out"
    using ReadDir_new_outputs[OF assms(1) g assms(4), of "[]"] by metis
  have new: "ReadDir_new fs inode [] = Ok it"
    using it(1) good_sel(1)[OF g] by (simp add: ReadDir_new_def)
  have e: "\<not> contains (in_flags inode) DIRECTORY_ENCRYPTED" using assms(4) by (simp add: dir_ok_def)
  have m: "(\<lambda>entry. bind_o (DirEntry_file_name entry) (\<lambda>file_name. if file_name = name then Ok (Some entry) else Ok None)) = match_name name"
    by (simp add: match_name_def fun_eq_iff)
  have "outputs ReadDir_next (it, fs) (fst ?out, snd ?out)" using it(2)[OF g] by simp
  note loop = with_for_each_computes[OF ReadDir_next_blind[OF assms(1)] g this, of "match_name name"]
  have "computes disk fs0 fs (bindc (with_iter it (for_each ReadDir_next (match_name name))) (\<lambda>found.
       case found of Some entry \<Rightarrow> Inode_read (de_inode entry) | None \<Rightarrow> lift (Err NotFound)))
     (bind_o (find_in (match_name name) (fst ?out) (snd ?out)) (\<lambda>found.
       case found of Some entry \<Rightarrow> inode_spec disk fs0 (de_inode entry) | None \<Rightarrow> Err NotFound))"
    by (rule computes_bind[OF loop])
       (auto split: option.split intro: Inode_read_computes[OF assms(1,2)] computes_lift)
  moreover have "bind_o (find_in (match_name name) (fst ?out) (snd ?out)) (\<lambda>found.
       case found of Some entry \<Rightarrow> inode_spec disk fs0 (de_inode entry) | None \<Rightarrow> Err NotFound) =
     bind_o (find_entry name ?out) (\<lambda>e. inode_spec disk fs0 (de_inode e))"
    unfolding find_entry_def by (cases "find_in (match_name name) (fst ?out) (snd ?out)") (simp_all split: option.split)
  ultimately show ?thesis
    using assms(5,6) e new
    by (simp add: computes_def get_dir_entry_inode_by_name_def m bindc_def lift_def gets_def assert_o_def)
qed

lemma dir_lookup_htree:
  assumes "device_complete fs0" and "inode_tables_ok fs0" and g: "good disk fs0 fs" and "inode_blocks disk fs0 inode bs"
    and "Metadata_is_dir (in_metadata inode)" and "\<not> contains (in_flags inode) DIRECTORY_ENCRYPTED"
    and "file_map disk fs0 inode fm" and wf: "htree_leads disk fs0 inode fm bs root"
  shows "computes disk fs0 fs (get_dir_entry_inode_by_name inode name)
     (bind_o (find_entry name (blocks_entries disk fs0 inode [] True bs None)) (\<lambda>e. inode_spec disk fs0 (de_inode e)))"
proof -
  have h: "contains (in_flags inode) DIRECTORY_HTREE" using wf by (simp add: htree_leads_def)
  have "computes disk fs0 fs (bindc (get_dir_entry_via_htree inode name) (\<lambda>entry. Inode_read (de_inode entry)))
     (bind_o (htree_spec disk fs0 inode fm bs name) (\<lambda>e. inode_spec disk fs0 (de_inode e)))"
    by (rule computes_bind[OF via_htree_computes[OF assms(1,7) g h assms(4)]]) (rule Inode_read_computes[OF assms(1,2)])
  then show ?thesis
    unfolding htree_spec_linear[OF wf] using assms(5,6) h
    by (simp add: computes_def get_dir_entry_inode_by_name_def bindc_def lift_def assert_o_def)
qed

text \<open>A directory that can be searched: linearly, or by a well-formed htree.\<close>

definition searchable :: "(nat \<Rightarrow> u8) \<Rightarrow> Ext4 \<Rightarrow> Inode \<Rightarrow> FsBlockIndex list \<Rightarrow> bool" where
  "searchable disk fs inode bs \<longleftrightarrow> Metadata_is_dir (in_metadata inode) \<and> dir_ok disk fs inode bs \<and>
     (contains (in_flags inode) DIRECTORY_HTREE \<longrightarrow>
        extents_in_order disk fs inode \<and> (\<exists>root. htree_wf disk fs inode bs root))"

definition dir_lookup :: "(nat \<Rightarrow> u8) \<Rightarrow> Ext4 \<Rightarrow> Inode \<Rightarrow> FsBlockIndex list \<Rightarrow> DirEntryName \<Rightarrow> Inode result" where
  "dir_lookup disk fs inode bs name =
     bind_o (find_entry name (blocks_entries disk fs inode [] True bs None)) (\<lambda>e. inode_spec disk fs (de_inode e))"

lemma dir_lookup_computes:
  assumes "device_complete fs" and "inode_tables_ok fs" and ok: "fs_ok disk fs" and "searchable disk fs inode bs"
  shows "computes disk fs fs (get_dir_entry_inode_by_name inode name) (dir_lookup disk fs inode bs name)"
proof (cases "contains (in_flags inode) DIRECTORY_HTREE")
  case True
  with assms(4) obtain root where "extents_in_order disk fs inode" "htree_wf disk fs inode bs root" "inode_blocks disk fs inode bs"
    by (auto simp: searchable_def dir_ok_def)
  with htree_wf_leads[OF ok assms(1)] obtain fm where "file_map disk fs inode fm" "htree_leads disk fs inode fm bs root" by blast
  with dir_lookup_htree[OF assms(1,2) good_refl[OF ok], of inode bs fm root name] assms(4) show ?thesis
    by (simp add: searchable_def dir_ok_def dir_lookup_def)
next
  case False
  with dir_lookup_linear[OF assms(1,2) good_refl[OF ok], of inode bs name] assms(4) show ?thesis
    by (simp add: searchable_def dir_lookup_def)
qed

section \<open>Results that do not depend on the cache\<close>

text \<open>An operation is stable if its result is the same from every state that reads can lead to. Where the
  blocks of an operation are not known, this is what can still be said of it.\<close>

definition stable :: "(nat \<Rightarrow> u8) \<Rightarrow> Ext4 \<Rightarrow> 'a fs_op \<Rightarrow> bool" where
  "stable disk fs0 m \<longleftrightarrow> (\<exists>r. \<forall>fs. good disk fs0 fs \<longrightarrow> computes disk fs0 fs m r)"

named_theorems stable_intros \<open>operations whose results do not depend on the cache\<close>

lemma stableI: "(\<And>fs. good disk fs0 fs \<Longrightarrow> computes disk fs0 fs m r) \<Longrightarrow> stable disk fs0 m"
  by (auto simp: stable_def)

lemma stableD:
  assumes "stable disk fs0 m" and "fs_ok disk fs0" and "good disk fs0 fs"
  shows "computes disk fs0 fs m (fst (m fs0))"
proof -
  obtain r where r: "\<And>fs. good disk fs0 fs \<Longrightarrow> computes disk fs0 fs m r" using assms(1) by (auto simp: stable_def)
  have "fst (m fs0) = r" using r[OF good_refl[OF assms(2)]] by (simp add: computes_def)
  with r[OF assms(3)] show ?thesis by simp
qed

lemma stable_lift [stable_intros]: "stable disk fs0 (lift r)"
  by (blast intro: stableI computes_lift)

lemma stable_ret [stable_intros]: "stable disk fs0 (ret x)"
  by (blast intro: stableI computes_ret)

lemma stable_bind [stable_intros]:
  assumes "stable disk fs0 m" and "\<And>x. stable disk fs0 (f x)"
  shows "stable disk fs0 (bindc m f)"
proof -
  obtain r where r: "\<And>fs. good disk fs0 fs \<Longrightarrow> computes disk fs0 fs m r" using assms(1) by (auto simp: stable_def)
  obtain h where h: "\<And>x fs. good disk fs0 fs \<Longrightarrow> computes disk fs0 fs (f x) (h x)"
    using assms(2) unfolding stable_def by metis
  show ?thesis by (rule stableI[where r = "bind_o r h"]) (blast intro: computes_bind r h)
qed

lemma stable_gets [stable_intros]:
  assumes "\<And>fs. good disk fs0 fs \<Longrightarrow> g fs = g fs0"
  shows "stable disk fs0 (gets g)"
  by (rule stableI[where r = "Ok (g fs0)"]) (simp add: computes_def gets_def assms)

lemma stable_if [stable_intros]:
  "(b \<Longrightarrow> stable disk fs0 m) \<Longrightarrow> (\<not> b \<Longrightarrow> stable disk fs0 m') \<Longrightarrow> stable disk fs0 (if b then m else m')"
  by simp

lemma stable_let [stable_intros]: "(\<And>x. stable disk fs0 (f x)) \<Longrightarrow> stable disk fs0 (let x = v in f x)"
  by simp

lemma stable_case_option [stable_intros]:
  "stable disk fs0 m \<Longrightarrow> (\<And>x. stable disk fs0 (f x)) \<Longrightarrow> stable disk fs0 (case v of None \<Rightarrow> m | Some x \<Rightarrow> f x)"
  by (cases v) auto

lemma stable_case_prod [stable_intros]:
  "(\<And>a b. stable disk fs0 (f a b)) \<Longrightarrow> stable disk fs0 (case x of (a, b) \<Rightarrow> f a b)"
  by (cases x) simp

lemma stable_with_iter [stable_intros]:
  assumes "blind disk fs0 m"
  shows "stable disk fs0 (with_iter it m)"
proof -
  obtain r it' where "\<And>fs. good disk fs0 fs \<Longrightarrow> \<exists>fs'. m (it, fs) = (r, (it', fs')) \<and> good disk fs0 fs'"
    using blindE[OF assms, of it] by blast
  then show ?thesis by (intro stableI[where r = r]) (fastforce simp: computes_def with_iter_def)
qed

lemma blind_nth_item [blind_intros]:
  assumes "blind disk fs0 nxt"
  shows "blind disk fs0 (nth_item nxt n)"
  unfolding blind_def
proof
  fix it
  show "\<exists>r it'. \<forall>fs. good disk fs0 fs \<longrightarrow> (\<exists>fs'. nth_item nxt n (it, fs) = (r, it', fs') \<and> good disk fs0 fs')"
  proof (induction n arbitrary: it)
    case 0
    then show ?case using assms by (simp add: blind_def)
  next
    case (Suc n)
    obtain r it1 where 1: "\<And>fs. good disk fs0 fs \<Longrightarrow> \<exists>fs'. nxt (it, fs) = (r, (it1, fs')) \<and> good disk fs0 fs'"
      using blindE[OF assms, of it] by blast
    obtain r2 it2 where 2: "\<And>fs. good disk fs0 fs \<Longrightarrow> \<exists>fs'. nth_item nxt n (it1, fs) = (r2, (it2, fs')) \<and> good disk fs0 fs'"
      using Suc by blast
    let ?q = "case r of Ok None \<Rightarrow> (Ok None, it1) | Panic \<Rightarrow> (Panic, it1) | Diverge \<Rightarrow> (Diverge, it1) | _ \<Rightarrow> (r2, it2)"
    have "\<exists>fs'. nth_item nxt (Suc n) (it, fs) = (fst ?q, snd ?q, fs') \<and> good disk fs0 fs'" if "good disk fs0 fs" for fs
      using 1[OF that] 2 by (auto split: outcome.split option.split)
    then show ?case by blast
  qed
qed

text \<open>A file system without surprises: every block can be read, no inode is in the part of block 0 whose
  cached content may be stale, and no other block is mapped to block 0 by the journal.\<close>

definition fs_tame :: "Ext4 \<Rightarrow> bool" where
  "fs_tame fs \<longleftrightarrow> device_complete fs \<and> inode_tables_ok fs \<and> (\<forall>b. b \<noteq> 0 \<longrightarrow> mapped fs b \<noteq> 0)"

lemma stable_Inode_read [stable_intros]: "fs_tame fs0 \<Longrightarrow> stable disk fs0 (Inode_read i)"
  by (intro stableI[OF Inode_read_computes]) (auto simp: fs_tame_def)

lemma stable_DirBlock_read [stable_intros]: "fs_tame fs0 \<Longrightarrow> stable disk fs0 (DirBlock_read db n)"
  by (intro stableI[OF DirBlock_read_any]) (auto simp: fs_tame_def)

lemma tame_blind [blind_intros]:
  assumes "fs_tame fs0"
  shows "blind disk fs0 FileBlocks_next" "blind disk fs0 Extents_next" "blind disk fs0 ReadDir_next"
  using assms by (auto simp: fs_tame_def intro: FileBlocks_next_blind Extents_next_blind ReadDir_next_blind)

lemma stable_block_from_file_block [stable_intros]:
  "fs_tame fs0 \<Longrightarrow> stable disk fs0 (block_from_file_block inode k)"
  unfolding block_from_file_block_def find_extent_for_block_def by (intro stable_intros blind_intros)

lemma stable_descend [stable_intros]: "fs_tame fs0 \<Longrightarrow> stable disk fs0 (descend inode h n levels child)"
  by (induction levels arbitrary: child) (auto intro!: stable_intros)

lemma stable_via_htree [stable_intros]: "fs_tame fs0 \<Longrightarrow> stable disk fs0 (get_dir_entry_via_htree inode name)"
  unfolding get_dir_entry_via_htree_def read_root_block_def find_leaf_node_def
  by (intro stable_intros blind_intros) (simp_all add: good_sel)

lemma stable_dir_lookup [stable_intros]: "fs_tame fs0 \<Longrightarrow> stable disk fs0 (get_dir_entry_inode_by_name inode name)"
  unfolding get_dir_entry_inode_by_name_def
  by (intro stable_intros blind_intros) (simp_all add: good_sel ReadDir_new_def)

lemma blind_read_block [blind_intros]:
  assumes "fs_tame fs0" and "b \<noteq> 0"
  shows "blind disk fs0 (on_snd (read_from_block b off n) :: ('s \<times> Ext4, bytes, Ext4Error) comp)"
  using assms by (intro blind_on_snd[OF computes_read]) (auto simp: fs_tame_def)

lemma blind_read_bytes [blind_intros]: "fs_tame fs0 \<Longrightarrow> blind disk fs0 (read_bytes n)"
  unfolding read_bytes_def current_block_def File_next_block_def
  by (intro blind_intros) simp_all

lemma read_chunks_eq:
  "read_chunks n = bindc (read_bytes n) (\<lambda>buf.
     if buf = [] then ret (replicate n 0)
     else if length buf \<le> n then bindc (read_chunks (n - length buf)) (\<lambda>rest. ret (buf @ rest))
     else lift Panic)"
proof
  fix s
  show "read_chunks n s = bindc (read_bytes n) (\<lambda>buf.
     if buf = [] then ret (replicate n 0)
     else if length buf \<le> n then bindc (read_chunks (n - length buf)) (\<lambda>rest. ret (buf @ rest))
     else lift Panic) s"
    by (subst read_chunks.simps) (auto simp: bindc_def ret_def lift_def split: outcome.split prod.split)
qed

lemma blind_read_chunks [blind_intros]: "fs_tame fs0 \<Longrightarrow> blind disk fs0 (read_chunks n)"
proof (induction n rule: less_induct)
  case (less n)
  have "blind disk fs0 (read_chunks (n - length buf))" if "buf \<noteq> []" "length buf \<le> n" for buf
    using less chunk_shrinks[OF that] by blast
  then show ?case
    by (subst read_chunks_eq) (auto intro!: blind_intros less.prems)
qed

lemma read_inode_file_eq:
  "read_inode_file inode =
     (let n = unat (md_size_in_bytes (in_metadata inode)) in
      if n > usize_max then lift (Err FileTooLarge)
      else if n > isize_max then lift Panic
      else bindc (lift (File_open_inode inode)) (\<lambda>file. with_iter file (read_chunks n)))"
proof
  fix fs
  show "read_inode_file inode fs = (let n = unat (md_size_in_bytes (in_metadata inode)) in
      if n > usize_max then lift (Err FileTooLarge)
      else if n > isize_max then lift Panic
      else bindc (lift (File_open_inode inode)) (\<lambda>file. with_iter file (read_chunks n))) fs"
    by (simp add: read_inode_file_def Let_def bindc_def lift_def with_iter_def split: outcome.split)
qed

lemma stable_read_inode_file [stable_intros]: "fs_tame fs0 \<Longrightarrow> stable disk fs0 (read_inode_file inode)"
  unfolding read_inode_file_eq by (intro stable_intros blind_intros)

lemma stable_symlink_target [stable_intros]: "fs_tame fs0 \<Longrightarrow> stable disk fs0 (symlink_target inode)"
  unfolding symlink_target_def by (intro stable_intros)

lemma stable_read_root [stable_intros]: "fs_tame fs0 \<Longrightarrow> stable disk fs0 read_root_inode"
  unfolding read_root_inode_def by (intro stable_intros)

section \<open>Properties\<close>

text \<open>C14: Looking up a name in a directory returns the inode of the first entry of the directory with that
  name, as read from the device, and the error \<open>NotFound\<close> if there is none; this holds for a linear scan
  and for a well-formed htree, whatever the block cache holds.\<close>

theorem dir_lookup_correct:
  assumes "fs_ok disk fs" and "device_complete fs" and "inode_tables_ok fs" and "searchable disk fs inode bs"
  shows "fst (get_dir_entry_inode_by_name inode name fs) = dir_lookup disk fs inode bs name"
  using dir_lookup_computes[OF assms(2,3,1,4), of name] by (simp add: computes_def)

text \<open>C15: The target of a symbolic link: a target of at most 59 bytes is the start of the inode's inline data,
  a longer one the content of the file; an empty target, and one that is not a valid path, are reported
  as corrupt.\<close>

theorem symlink_target_correct:
  assumes "fs_ok disk fs" and "device_complete fs" and "inode_ok (fs_superblock fs) inode"
    and "59 < md_size_in_bytes (in_metadata inode) \<longrightarrow> inode_blocks disk fs inode bs \<and> list_all (data_block fs) bs"
    and "Metadata_is_symlink (in_metadata inode)"
  shows "fst (symlink_target inode fs) =
     (let n = unat (md_size_in_bytes (in_metadata inode));
          target = (if n \<le> 59 then take n (in_inline_data inode) else file_content disk fs bs n) in
      if n = 0 \<or> \<not> valid_path target then Err (Corrupt (SymlinkTarget (in_index inode))) else Ok target)"
proof -
  let ?n = "unat (md_size_in_bytes (in_metadata inode))"
  have z: "md_size_in_bytes (in_metadata inode) = 0 \<longleftrightarrow> ?n = 0" by (simp add: unat_eq_zero)
  have l: "md_size_in_bytes (in_metadata inode) \<le> MAX_INLINE_SYMLINK_LEN \<longleftrightarrow> ?n \<le> 59"
    by (simp add: MAX_INLINE_SYMLINK_LEN_def word_le_nat_alt)
  have p: "map_err (\<lambda>_. c) (PathBuf_try_from t) = (if valid_path t then Ok t else Err c)" for c :: Ext4Error and t
    by (auto simp: PathBuf_try_from_def Path_try_from_def valid_path_def MAX_LEN_def not_less not_le)
  have i: "length (in_inline_data inode) = 60" using assms(3) by (simp add: inode_ok_def)
  show ?thesis
  proof (cases "?n \<le> 59")
    case True
    then have "slice (in_inline_data inode) 0 ?n = (Ok (take ?n (in_inline_data inode)) :: bytes result)"
      using i by simp
    then show ?thesis using True z l p assms(5)
      by (simp add: symlink_target_def bindc_def lift_def Let_def del: slice_eq_Ok)
  next
    case False
    then have "inode_blocks disk fs inode bs" "list_all (data_block fs) bs" using assms(4) by (simp_all add: word_less_nat_alt)
    from read_inode_file_spec[OF assms(2) good_refl[OF assms(1)] assms(3) this] obtain fs' where
      "read_inode_file inode fs = (Ok (file_content disk fs bs ?n), fs')" by blast
    with False show ?thesis using z l p assms(5) by (simp add: symlink_target_def bindc_def lift_def Let_def)
  qed
qed

lemma sample_tables_ok: "inode_tables_ok (sample_fs img)"
proof -
  have "unat off < 1024" if "get_inode_location (sample_fs img) i = Ok (b, off)" for i b off
    using that by (auto simp: get_inode_location_def sample_superblock_def BlockSize_to_u64_def Let_def unat_mod dest!: word_try_from_SomeD)
  then show ?thesis by (auto simp: inode_tables_ok_def word_less_nat_alt)
qed

lemma sample_fs_tame: "length img = 16384 \<Longrightarrow> fs_tame (sample_fs img)"
  using sample_fs_complete sample_tables_ok by (simp add: fs_tame_def)

lemma entry_name:
  assumes "DirEntryName_try_from x = Ok x"
  shows "DirEntry_file_name (entry_of k t x) = Ok x"
proof -
  from name_buf_cases[of x] assms obtain b where b: "DirEntryNameBuf_try_from x = Ok b"
    by (auto simp: DirEntryNameBuf_try_from_def word_try_from_def DirEntryName_try_from_def MAX_LEN_def Let_def split: if_splits)
  with name_buf_roundtrip[OF b] show ?thesis by (simp add: DirEntry_file_name_def entry_of_def)
qed

lemma sample_dir_searchable: "searchable (disk_of dir_image) (sample_fs dir_image) sample_dir [7, 8, 9]"
  using dir_image_ok by (simp add: searchable_def sample_dir_def Metadata_is_dir_def is_dir_def leaf_inode_def contains_def)

theorem dir_lookup_correct_witness:
  "fst (get_dir_entry_inode_by_name sample_dir [0x62] (sample_fs dir_image)) = Err NotFound"
proof -
  have n: "DirEntryName_try_from [0x2e] = Ok [0x2e]" "DirEntryName_try_from [0x61] = Ok [0x61]" by code_simp+
  have "dir_lookup (disk_of dir_image) (sample_fs dir_image) sample_dir [7, 8, 9] [0x62] = Err NotFound"
    unfolding dir_lookup_def dir_image_entries
    using entry_name[OF n(1)] entry_name[OF n(2)] by (simp add: find_entry_simps)
  with dir_lookup_correct[OF sample_fs_ok sample_fs_complete[OF dir_image_blocks(4)] sample_tables_ok sample_dir_searchable]
  show ?thesis by simp
qed

text \<open>A link to \<open>a/b\<close>.\<close>

definition link_inode :: Inode where
  "link_inode = leaf_inode\<lparr>in_inline_data := [0x61, 0x2f, 0x62] @ replicate 57 0, in_flags := 0,
     in_metadata := \<lparr>md_size_in_bytes = 3, md_mode = 0xa000, md_file_type = Symlink, md_uid = 0, md_gid = 0\<rparr>,
     in_file_size_in_blocks := 1\<rparr>"

theorem symlink_target_correct_witness:
  "fst (symlink_target link_inode (sample_fs (replicate 16384 0))) = Ok [0x61, 0x2f, 0x62]"
proof -
  have c: "length (replicate 16384 0 :: bytes) = 16384" by simp
  have i: "inode_ok (fs_superblock (sample_fs (replicate 16384 0))) link_inode"
    by (simp add: inode_ok_def link_inode_def sample_superblock_def div_ceil_def FileType_try_from_def Let_def)
  have m: "59 < md_size_in_bytes (in_metadata link_inode) \<longrightarrow>
      inode_blocks (disk_of (replicate 16384 0)) (sample_fs (replicate 16384 0)) link_inode [] \<and>
      list_all (data_block (sample_fs (replicate 16384 0))) []" "Metadata_is_symlink (in_metadata link_inode)"
    by (simp_all add: link_inode_def Metadata_is_symlink_def is_symlink_def)
  have "valid_path [0x61, 0x2f, 0x62]" by code_simp
  with symlink_target_correct[OF sample_fs_ok sample_fs_complete[OF c] i m] show ?thesis
    by (simp add: link_inode_def)
qed

end
