(* ===== verification/Resolve.thy ===== *)
theory Resolve
  imports Dir
begin

text \<open>
  Path resolution (\<^verbatim>\<open>src/src/resolve.rs\<close>). The code edits a byte vector in place while it walks along it; the
  specification walks over lists of names.
\<close>

section \<open>The code\<close>

datatype FollowSymlinks = All | ExcludeFinalComponent

text \<open>\<open>Vec::drain\<close> and \<open>Vec::splice\<close> with a range.\<close>

definition vec_splice :: "'a list \<Rightarrow> usize \<Rightarrow> usize \<Rightarrow> 'a list \<Rightarrow> ('a list, 'e) outcome" where
  "vec_splice xs a b ys = (if a \<le> b \<and> b \<le> length xs then Ok (take a xs @ ys @ drop b xs) else Panic)"

definition vec_drain :: "'a list \<Rightarrow> usize \<Rightarrow> usize \<Rightarrow> ('a list, 'e) outcome" where
  "vec_drain xs a b = vec_splice xs a b []"

definition find_next_sep :: "bytes \<Rightarrow> usize \<Rightarrow> usize option result" where
  "find_next_sep path start =
     bind_o (assert_o (start < length path)) (\<lambda>_.
     Ok (List.find (\<lambda>i. path ! i = SEPARATOR) [start..<length path]))"

definition find_prev_sep :: "bytes \<Rightarrow> usize \<Rightarrow> usize option result" where
  "find_prev_sep path start =
     bind_o (assert_o (start < length path)) (\<lambda>_.
     Ok (List.find (\<lambda>i. path ! i = SEPARATOR) (rev [0..<Suc start])))"

definition find_parent_component_start :: "bytes \<Rightarrow> usize \<Rightarrow> usize result" where
  "find_parent_component_start path start =
     bind_o (assert_o (start \<noteq> 0 \<and> start < length path)) (\<lambda>_.
     bind_o (unwrap (usize_sub start 1)) (\<lambda>before.
     bind_o (index_at path before) (\<lambda>byte.
     bind_o (assert_o (byte = SEPARATOR)) (\<lambda>_.
     if start = 1 then Ok start
     else
       bind_o (unwrap (usize_sub start 2)) (\<lambda>start_search_from.
       bind_o (find_prev_sep path start_search_from) (\<lambda>prev_sep.
       bind_o (unwrap prev_sep) (\<lambda>prev_sep.
       unwrap (usize_add prev_sep 1))))))))"

function dedup_loop :: "usize \<Rightarrow> bytes \<Rightarrow> bytes result" where
  "dedup_loop i path =
     (if i < length path then
        bind_o (unwrap (usize_sub i 1)) (\<lambda>prev.
        bind_o (index_at path prev) (\<lambda>prev_byte.
        bind_o (index_at path i) (\<lambda>byte.
        if prev_byte = SEPARATOR \<and> byte = SEPARATOR then dedup_loop i (take i path @ drop (i + 1) path)
        else (case usize_add i 1 of None \<Rightarrow> Panic | Some i \<Rightarrow> dedup_loop i path))))
      else Ok path)"
  by pat_completeness auto
termination
  by (relation "measure (\<lambda>(i, path). length path - i)") (auto simp: usize_add_def split: if_splits)

declare dedup_loop.simps [simp del]

definition path_dedup_sep :: "bytes \<Rightarrow> bytes result" where
  "path_dedup_sep path = dedup_loop 1 path"

definition MAX_SYMLINKS :: usize where
  "MAX_SYMLINKS = 40"

definition MAX_PATH_LEN :: usize where
  "MAX_PATH_LEN = 4096"

definition MAX_ITERATIONS :: usize where
  "MAX_ITERATIONS = 1000"

text \<open>The local variables of \<open>resolve_path\<close>.\<close>

record Resolver =
  rs_path :: bytes
  rs_index :: usize
  rs_inode :: Inode
  rs_num_symlinks :: usize

text \<open>The body of the loop once the child is known.\<close>

definition resolve_child :: "FollowSymlinks \<Rightarrow> Resolver \<Rightarrow> bytes \<Rightarrow> usize \<Rightarrow> usize \<Rightarrow> bool \<Rightarrow> Inode \<Rightarrow> Resolver fs_op" where
  "resolve_child follow s name_bytes comp_end comp_end_with_sep is_last_component child_inode =
     (let path = rs_path s; index = rs_index s; inode = rs_inode s in
      if name_bytes = [0x2e] then
        bindc (lift (vec_drain path index comp_end_with_sep)) (\<lambda>path.
        ret (s\<lparr>rs_path := path\<rparr>))
      else if name_bytes = [0x2e, 0x2e] then
        bindc (lift (find_parent_component_start path index)) (\<lambda>remove_start.
        bindc (lift (vec_drain path remove_start comp_end_with_sep)) (\<lambda>path.
        ret (s\<lparr>rs_path := path, rs_index := remove_start, rs_inode := child_inode\<rparr>)))
      else if Metadata_is_symlink (in_metadata child_inode) \<and> (follow = All \<or> \<not> is_last_component) then
        bindc (lift (unwrap (usize_add (rs_num_symlinks s) 1))) (\<lambda>num_symlinks.
        if num_symlinks > MAX_SYMLINKS then lift (Err TooManySymlinks)
        else
          bindc (symlink_target child_inode) (\<lambda>target.
          bindc (if Path_is_absolute target
                 then bindc read_root_inode (\<lambda>inode. ret (inode, 1, 0))
                 else ret (inode, index, index)) (\<lambda>(inode, index, replace_start).
          bindc (lift (vec_splice path replace_start comp_end target)) (\<lambda>path.
          if length path > MAX_PATH_LEN then lift (Err PathTooLong)
          else
            bindc (lift (path_dedup_sep path)) (\<lambda>path.
            ret \<lparr>rs_path = path, rs_index = index, rs_inode = inode, rs_num_symlinks = num_symlinks\<rparr>)))))
      else
        ret (s\<lparr>rs_index := comp_end_with_sep, rs_inode := child_inode\<rparr>))"

text \<open>The body of the loop after the guard against too many iterations.\<close>

definition resolve_component :: "FollowSymlinks \<Rightarrow> Resolver \<Rightarrow> Resolver fs_op" where
  "resolve_component follow s =
     (let path = rs_path s; index = rs_index s; inode = rs_inode s in
      bindc (lift (find_next_sep path index)) (\<lambda>next_sep.
      let comp_end = (case next_sep of None \<Rightarrow> length path | Some i \<Rightarrow> i) in
      bindc (lift (unwrap (usize_sub (length path) 1))) (\<lambda>last_index.
      let is_last_component = (next_sep = None \<or> comp_end = last_index) in
      bindc (lift (unwrap (usize_add comp_end 1))) (\<lambda>comp_plus_1.
      let comp_end_with_sep = min comp_plus_1 (length path) in
      bindc (lift (slice path index comp_end)) (\<lambda>name_bytes.
      if \<not> Metadata_is_dir (in_metadata inode) then lift (Err NotADirectory)
      else
        bindc (lift (unwrap_res (DirEntryName_try_from name_bytes))) (\<lambda>name.
        bindc (get_dir_entry_inode_by_name inode name)
          (resolve_child follow s name_bytes comp_end comp_end_with_sep is_last_component)))))))"

text \<open>The loop; it ends because the number of iterations is bounded by an assertion.\<close>

function resolve_loop :: "FollowSymlinks \<Rightarrow> usize \<Rightarrow> Resolver \<Rightarrow> Resolver fs_op" where
  "resolve_loop follow num_iterations s =
     (if rs_index s < length (rs_path s) then
        if num_iterations + 1 \<le> MAX_ITERATIONS then
          bindc (resolve_component follow s) (\<lambda>s. resolve_loop follow (num_iterations + 1) s)
        else lift Panic
      else ret s)"
  by pat_completeness auto
termination
  by (relation "measure (\<lambda>(follow, n, s). MAX_ITERATIONS - n)") auto

declare resolve_loop.simps [simp del]

definition resolve_path :: "Path \<Rightarrow> FollowSymlinks \<Rightarrow> (Inode \<times> PathBuf) fs_op" where
  "resolve_path path follow =
     (if \<not> Path_is_absolute path then lift (Err NotAbsolute)
      else if length path > MAX_PATH_LEN then lift (Err PathTooLong)
      else
        bindc (lift (path_dedup_sep path)) (\<lambda>path.
        bindc read_root_inode (\<lambda>inode.
        bindc (resolve_loop follow 0 \<lparr>rs_path = path, rs_index = 1, rs_inode = inode, rs_num_symlinks = 0\<rparr>) (\<lambda>s.
        let path = rs_path s; inode = rs_inode s in
        bindc (lift (if length path > 1 \<and> last path = SEPARATOR then
                       if Metadata_is_dir (in_metadata inode) then Ok (butlast path) else Err NotADirectory
                     else Ok path)) (\<lambda>path.
        bindc (lift (unwrap_res (PathBuf_try_from path))) (\<lambda>output_path.
        ret (inode, output_path)))))))"

section \<open>Paths as lists of names\<close>

definition names :: "bytes \<Rightarrow> DirEntryName list" where
  "names p = filter (\<lambda>c. c \<noteq> []) (split_sep p)"

definition path_prefix :: "DirEntryName list \<Rightarrow> bytes" where
  "path_prefix cs = concat (map (\<lambda>c. SEPARATOR # c) cs) @ [SEPARATOR]"

definition path_suffix :: "DirEntryName list \<Rightarrow> bool \<Rightarrow> bytes" where
  "path_suffix cs trailing = concat (map (\<lambda>c. SEPARATOR # c) cs) @ (if trailing then [SEPARATOR] else [])"

text \<open>The canonical path with the given names, with or without a separator at its end.\<close>

definition render :: "DirEntryName list \<Rightarrow> bool \<Rightarrow> bytes" where
  "render cs trailing = (if cs = [] then [SEPARATOR] else path_suffix cs trailing)"

definition is_name :: "DirEntryName \<Rightarrow> bool" where
  "is_name c \<longleftrightarrow> c \<noteq> [] \<and> length c \<le> 255 \<and> 0 \<notin> set c \<and> SEPARATOR \<notin> set c"

lemma is_name_valid: "is_name c \<Longrightarrow> DirEntryName_try_from c = Ok c"
  by (auto simp: is_name_def DirEntryName_try_from_def MAX_LEN_def)

lemma names_valid: "valid_path p \<Longrightarrow> c \<in> set (names p) \<Longrightarrow> is_name c"
  using split_sep_set[of c p] by (auto simp: valid_path_def names_def is_name_def)

lemma names_append: "names (xs @ SEPARATOR # ys) = names xs @ names ys"
  by (simp add: names_def split_sep_append)

lemma names_simps [simp]: "names [] = []" "names (SEPARATOR # ys) = names ys"
  by (simp_all add: names_def)

lemma names_one: "SEPARATOR \<notin> set c \<Longrightarrow> c \<noteq> [] \<Longrightarrow> names c = [c]"
  by (simp add: names_def split_sep_none)

lemma names_concat: "\<forall>c \<in> set cs. is_name c \<Longrightarrow> S = [] \<or> hd S = SEPARATOR \<Longrightarrow>
   names (concat (map (\<lambda>c. SEPARATOR # c) cs) @ S) = cs @ names S"
proof (induction cs)
  case (Cons c cs)
  have c: "names c = [c]" using Cons by (simp add: is_name_def names_one)
  let ?r = "concat (map (\<lambda>c. SEPARATOR # c) cs) @ S"
  show ?case
  proof (cases ?r)
    case Nil
    then show ?thesis using Cons.prems c by auto
  next
    case (Cons x r)
    have "x = SEPARATOR"
      using Cons Cons.prems by (cases cs; cases S) auto
    with Cons Cons.IH Cons.prems c have "names (c @ ?r) = c # names ?r" by (simp add: names_append)
    with Cons.IH Cons.prems show ?thesis by simp
  qed
qed simp

lemma names_suffix: "\<forall>c \<in> set cs. is_name c \<Longrightarrow> names (path_suffix cs tr) = cs"
  using names_concat[of cs "if tr then [SEPARATOR] else []"] by (simp add: path_suffix_def)

lemma suffix_cases: "path_suffix cs tr = [] \<or> hd (path_suffix cs tr) = SEPARATOR"
  by (cases cs) (auto simp: path_suffix_def)

lemma names_before_suffix: "\<forall>c \<in> set cs. is_name c \<Longrightarrow> names (t @ path_suffix cs tr) = names t @ cs"
  using suffix_cases[of cs tr] names_suffix[of cs tr] names_append[of t]
  by (cases "path_suffix cs tr") (auto simp del: names_append)

lemma names_prefix: "\<forall>c \<in> set cs. is_name c \<Longrightarrow> names (path_prefix cs @ t) = cs @ names t"
  using names_concat[of cs "SEPARATOR # t"] by (simp add: path_prefix_def)

section \<open>Removing duplicate separators\<close>

fun dedup :: "bytes \<Rightarrow> bytes" where
  "dedup (x # y # zs) = (if x = SEPARATOR \<and> y = SEPARATOR then dedup (y # zs) else x # dedup (y # zs))"
| "dedup xs = xs"

lemma dedup_loop_dedup:
  "length xs + length ys + 1 < usize_max \<Longrightarrow> dedup_loop (length xs + 1) (xs @ y # ys) = Ok (xs @ dedup (y # ys))"
proof (induction ys arbitrary: xs y)
  case Nil
  then show ?case by (simp add: dedup_loop.simps)
next
  case (Cons z zs)
  let ?p = "xs @ y # z # zs"
  have b: "?p ! length xs = y" "?p ! (length xs + 1) = z" by (simp_all add: nth_append)
  have a: "usize_add (length xs + 1) 1 = Some (length (xs @ [y]) + 1)" "usize_sub (length xs + 1) 1 = Some (length xs)"
    using Cons.prems by (simp_all add: usize_add_def usize_sub_def)
  have u: "dedup_loop (length xs + 1) ?p =
      (if y = SEPARATOR \<and> z = SEPARATOR then dedup_loop (length xs + 1) (xs @ y # zs)
       else dedup_loop (length (xs @ [y]) + 1) ((xs @ [y]) @ z # zs))"
    by (subst dedup_loop.simps) (simp only: a option.case, simp add: index_at_def get_at_def nth_append)
  show ?case
    using Cons.IH[of xs y] Cons.IH[of "xs @ [y]" z] Cons.prems unfolding u by auto
qed

lemma dedup_no_sep: "SEPARATOR \<notin> set c \<Longrightarrow> dedup (c @ SEPARATOR # q) = c @ dedup (SEPARATOR # q)"
proof (induction c)
  case (Cons x c)
  then show ?case by (cases c) auto
qed simp

lemma dedup_one: "SEPARATOR \<notin> set c \<Longrightarrow> dedup (SEPARATOR # c) = SEPARATOR # c"
proof (induction c)
  case (Cons x c)
  have "dedup (x # c) = x # c" using Cons.prems by (induction c arbitrary: x) auto
  with Cons show ?case by auto
qed simp

lemma first_sep_cases:
  obtains "SEPARATOR \<notin> set p" | c q where "p = c @ SEPARATOR # q" "SEPARATOR \<notin> set c"
  using split_list_first[of SEPARATOR p] by blast

lemma names_Nil: "names q = [] \<Longrightarrow> set q \<subseteq> {SEPARATOR}"
proof (induction q)
  case (Cons b q)
  then have "b = SEPARATOR" by (cases "split_sep q") (auto simp: names_def split: if_splits)
  with Cons show ?case by simp
qed simp

lemma names_Nil_last: "names q = [] \<Longrightarrow> q \<noteq> [] \<Longrightarrow> last q = SEPARATOR"
  using names_Nil[of q] last_in_set[of q] by blast

lemma dedup_render: "dedup (SEPARATOR # p) = render (names p) (p \<noteq> [] \<and> last p = SEPARATOR)"
proof (induction "length p" arbitrary: p rule: less_induct)
  case less
  show ?case
  proof (cases rule: first_sep_cases[of p])
    case 1
    then show ?thesis
      by (cases "p = []") (auto simp: dedup_one names_one render_def path_suffix_def dest: last_in_set)
  next
    case (2 c q)
    note IH = less[of q]
    show ?thesis
    proof (cases "c = []")
      case True
      with 2 IH show ?thesis by (cases "q = []") (auto simp: render_def)
    next
      case False
      have "dedup (SEPARATOR # c @ SEPARATOR # q) = SEPARATOR # c @ dedup (SEPARATOR # q)"
        using dedup_no_sep[OF 2(2)] False 2(2) by (cases c) auto
      moreover have "names p = c # names q" using 2 False by (simp add: names_append names_one)
      ultimately show ?thesis
        using 2 IH names_Nil_last[of q] by (cases "q = []") (auto simp: render_def path_suffix_def)
    qed
  qed
qed

lemma path_dedup_render:
  assumes "Path_is_absolute p" and "length p < usize_max"
  shows "path_dedup_sep p = Ok (render (names p) (last p = SEPARATOR))"
proof -
  from assms(1) obtain q where p: "p = SEPARATOR # q" by (cases p) (auto simp: Path_is_absolute_def)
  have "path_dedup_sep p = Ok (dedup p)"
    using dedup_loop_dedup[of "[]" q SEPARATOR] assms(2) by (simp add: path_dedup_sep_def p)
  then show ?thesis using dedup_render[of q] by (cases "q = []") (auto simp: p render_def)
qed

section \<open>Walking over names\<close>

text \<open>What a walk sees of the file system.\<close>

record World =
  wd_root :: "Inode result"
  wd_lookup :: "Inode \<Rightarrow> DirEntryName \<Rightarrow> Inode result"
  wd_target :: "Inode \<Rightarrow> PathBuf result"

definition fs_world :: "Ext4 \<Rightarrow> World" where
  "fs_world fs = \<lparr>wd_root = fst (read_root_inode fs),
     wd_lookup = (\<lambda>inode name. fst (get_dir_entry_inode_by_name inode name fs)),
     wd_target = (\<lambda>inode. fst (symlink_target inode fs))\<rparr>"

record Walk =
  wk_done :: "DirEntryName list"
  wk_inode :: Inode
  wk_todo :: "DirEntryName list"
  wk_trailing :: bool
  wk_symlinks :: nat

text \<open>One step: look up the next name in the current directory, and step down, stay, step up, or put the
  names of the target of a link in front of the names still to be walked.\<close>

definition ends_sep :: "bytes \<Rightarrow> bool" where
  "ends_sep t \<longleftrightarrow> t = [] \<or> last t = SEPARATOR"

definition walk_child :: "World \<Rightarrow> FollowSymlinks \<Rightarrow> Walk \<Rightarrow> Inode \<Rightarrow> Walk result" where
  "walk_child W follow w child =
     (let c = hd (wk_todo w); rest = tl (wk_todo w); tr = wk_trailing w in
      if c = [0x2e] then Ok (w\<lparr>wk_todo := rest, wk_trailing := (tr \<or> rest = [])\<rparr>)
      else if c = [0x2e, 0x2e] then
        Ok (w\<lparr>wk_done := butlast (wk_done w), wk_inode := child, wk_todo := rest, wk_trailing := (tr \<or> rest = [])\<rparr>)
      else if Metadata_is_symlink (in_metadata child) \<and> (follow = All \<or> rest \<noteq> []) then
        if wk_symlinks w + 1 > MAX_SYMLINKS then Err TooManySymlinks
        else
          bind_o (wd_target W child) (\<lambda>t.
          bind_o (if Path_is_absolute t then bind_o (wd_root W) (\<lambda>root. Ok (root, [], t @ path_suffix rest tr))
                  else Ok (wk_inode w, wk_done w, path_prefix (wk_done w) @ t @ path_suffix rest tr))
            (\<lambda>(inode, done_names, raw).
          if length raw > MAX_PATH_LEN then Err PathTooLong
          else Ok \<lparr>wk_done = done_names, wk_inode = inode, wk_todo = names t @ rest,
                   wk_trailing = (tr \<or> rest = [] \<and> ends_sep t), wk_symlinks = wk_symlinks w + 1\<rparr>))
      else Ok (w\<lparr>wk_done := wk_done w @ [c], wk_inode := child, wk_todo := rest\<rparr>))"

definition walk_step :: "World \<Rightarrow> FollowSymlinks \<Rightarrow> Walk \<Rightarrow> Walk result" where
  "walk_step W follow w =
     (if \<not> Metadata_is_dir (in_metadata (wk_inode w)) then Err NotADirectory
      else bind_o (wd_lookup W (wk_inode w) (hd (wk_todo w))) (walk_child W follow w))"

function walk_loop :: "World \<Rightarrow> FollowSymlinks \<Rightarrow> nat \<Rightarrow> Walk \<Rightarrow> Walk result" where
  "walk_loop W follow n w =
     (if wk_todo w = [] then Ok w
      else if n + 1 \<le> MAX_ITERATIONS then bind_o (walk_step W follow w) (\<lambda>w. walk_loop W follow (n + 1) w)
      else Panic)"
  by pat_completeness auto
termination
  by (relation "measure (\<lambda>(W, follow, n, w). MAX_ITERATIONS - n)") auto

declare walk_loop.simps [simp del]

definition resolve_names :: "World \<Rightarrow> Path \<Rightarrow> FollowSymlinks \<Rightarrow> (Inode \<times> PathBuf) result" where
  "resolve_names W path follow =
     (if \<not> Path_is_absolute path then Err NotAbsolute
      else if length path > MAX_PATH_LEN then Err PathTooLong
      else
        bind_o (wd_root W) (\<lambda>root.
        bind_o (walk_loop W follow 0 \<lparr>wk_done = [], wk_inode = root, wk_todo = names path,
            wk_trailing = (last path = SEPARATOR), wk_symlinks = 0\<rparr>) (\<lambda>w.
        if wk_done w \<noteq> [] \<and> wk_trailing w \<and> \<not> Metadata_is_dir (in_metadata (wk_inode w)) then Err NotADirectory
        else Ok (wk_inode w, render (wk_done w) False))))"

section \<open>The code follows the walk\<close>

definition represents :: "Resolver \<Rightarrow> Walk \<Rightarrow> bool" where
  "represents s w \<longleftrightarrow> rs_path s = render (wk_done w @ wk_todo w) (wk_trailing w) \<and>
     rs_inode s = wk_inode w \<and> rs_num_symlinks s = wk_symlinks w \<and> wk_symlinks w \<le> MAX_SYMLINKS \<and>
     (\<forall>c \<in> set (wk_done w @ wk_todo w). is_name c) \<and> length (rs_path s) \<le> MAX_PATH_LEN \<and>
     (if wk_todo w = [] then length (rs_path s) \<le> rs_index s else rs_index s = length (path_prefix (wk_done w))) \<and>
     (\<forall>c \<in> set (wk_done w). c \<notin> dots)"

lemma find_append: "List.find P (xs @ ys) = (case List.find P xs of None \<Rightarrow> List.find P ys | Some x \<Rightarrow> Some x)"
  by (induction xs) simp_all

lemma upt_split: "a \<le> k \<Longrightarrow> k < b \<Longrightarrow> [a..<b] = [a..<k] @ k # [Suc k..<b]"
  using upt_add_eq_append[of a k "b - k"] by (simp add: upt_conv_Cons)

lemma find_upt_first:
  assumes "a \<le> k" and "k < b" and "P k" and "\<And>i. a \<le> i \<Longrightarrow> i < k \<Longrightarrow> \<not> P i"
  shows "List.find P [a..<b] = Some k"
proof -
  have "[a..<b] = [a..<k] @ k # [Suc k..<b]" using assms(1,2) upt_split[of a k b] by simp
  moreover have "List.find P [a..<k] = None" using assms(4) by (auto simp: find_None_iff)
  ultimately show ?thesis using assms(3) by (simp add: find_append)
qed

lemma find_rev_upt_last:
  assumes "k \<le> b" and "P k" and "\<And>i. k < i \<Longrightarrow> i \<le> b \<Longrightarrow> \<not> P i"
  shows "List.find P (rev [0..<Suc b]) = Some k"
proof -
  have "[0..<Suc b] = [0..<k] @ k # [Suc k..<Suc b]"
    using assms(1) upt_split[of 0 k "Suc b"] by (simp del: upt_Suc)
  moreover have "List.find P (rev [Suc k..<Suc b]) = None" using assms(3) by (auto simp: find_None_iff)
  ultimately show ?thesis using assms(2) by (simp add: find_append)
qed

text \<open>The path around the current component.\<close>

lemma render_split:
  assumes "todo = c # rest"
  shows "render (done_names @ todo) tr = path_prefix done_names @ c @ path_suffix rest tr"
  using assms by (simp add: render_def path_prefix_def path_suffix_def)

lemma next_sep_at:
  assumes "SEPARATOR \<notin> set c" and "c \<noteq> []" and "S = [] \<or> hd S = SEPARATOR"
  shows "find_next_sep (P @ c @ S) (length P) = Ok (if S = [] then None else Some (length P + length c))"
proof (cases "S = []")
  case True
  have "List.find (\<lambda>i. (P @ c) ! i = SEPARATOR) [length P..<length P + length c] = None"
    using assms(1) by (auto simp: find_None_iff nth_append in_set_conv_nth)
  with True assms(2) show ?thesis by (simp add: find_next_sep_def assert_o_def)
next
  case False
  then obtain S' where S: "S = SEPARATOR # S'" using assms(3) by (cases S) auto
  have "List.find (\<lambda>i. (P @ c @ S) ! i = SEPARATOR) [length P..<length (P @ c @ S)] = Some (length P + length c)"
    using assms(1) by (intro find_upt_first) (auto simp: S nth_append in_set_conv_nth)
  with S show ?thesis by (simp add: find_next_sep_def assert_o_def)
qed

lemma parent_start:
  assumes "\<forall>c \<in> set ds. is_name c" and "length (path_prefix ds @ r) \<le> MAX_PATH_LEN" and "r \<noteq> []"
  shows "find_parent_component_start (path_prefix ds @ r) (length (path_prefix ds)) = Ok (length (path_prefix (butlast ds)))"
proof (cases ds rule: rev_cases)
  case Nil
  with assms(3) show ?thesis
    by (simp add: path_prefix_def find_parent_component_start_def usize_sub_def assert_o_def index_at_def get_at_def)
next
  case (snoc es d)
  let ?A = "concat (map (\<lambda>c. SEPARATOR # c) es)"
  have d: "d \<noteq> []" "SEPARATOR \<notin> set d" using assms(1) snoc by (auto simp: is_name_def)
  have p: "path_prefix ds @ r = ?A @ SEPARATOR # d @ SEPARATOR # r" and l: "length (path_prefix ds) = length ?A + length d + 2"
    and b: "length (path_prefix (butlast ds)) = length ?A + 1" by (simp_all add: path_prefix_def snoc)
  let ?p = "?A @ SEPARATOR # d @ SEPARATOR # r"
  have "List.find (\<lambda>i. ?p ! i = SEPARATOR) (rev [0..<Suc (length ?A + length d)]) = Some (length ?A)"
    using d by (intro find_rev_upt_last) (auto simp: nth_append in_set_conv_nth nth_Cons')
  then have f: "find_prev_sep ?p (length ?A + length d) = Ok (Some (length ?A))"
    by (simp add: find_prev_sep_def assert_o_def)
  have s: "?p ! (length ?A + length d + 1) = SEPARATOR" by (simp add: nth_append)
  have "usize_add (length ?A) 1 = Some (length ?A + 1)"
    using assms(2) p by (simp add: MAX_PATH_LEN_def usize_add_def usize_max_def)
  with f s assms(3) d show ?thesis
    unfolding p l b
    by (simp add: find_parent_component_start_def usize_sub_def assert_o_def index_at_def get_at_def del: bind_o_eq_Ok)
qed

lemma suffix_drop:
  "path_suffix (r # rest) tr = SEPARATOR # r @ path_suffix rest tr" "path_suffix [] True = [SEPARATOR]"
  "path_suffix [] False = []"
  by (simp_all add: path_suffix_def)

lemma path_without_component:
  assumes "is_name c"
  shows "path_prefix ds @ drop 1 (path_suffix rest tr) = render (ds @ rest) (tr \<or> rest = [])"
  by (cases rest; cases tr) (auto simp: suffix_drop render_def path_prefix_def path_suffix_def)

lemma component_front:
  assumes "represents s w" and "wk_todo w = c # rest"
  shows "resolve_component follow s =
     (if \<not> Metadata_is_dir (in_metadata (wk_inode w)) then lift (Err NotADirectory)
      else bindc (get_dir_entry_inode_by_name (wk_inode w) c)
        (resolve_child follow s c (length (path_prefix (wk_done w)) + length c)
          (min (length (path_prefix (wk_done w)) + length c + 1) (length (rs_path s))) (rest = [])))"
proof -
  let ?P = "path_prefix (wk_done w)" and ?S = "path_suffix rest (wk_trailing w)"
  have p: "rs_path s = ?P @ c @ ?S" using assms render_split by (simp add: represents_def)
  have c: "is_name c" and r: "\<forall>c \<in> set rest. is_name c" and len: "length (rs_path s) \<le> 4096" and i: "rs_index s = length ?P"
    and n: "rs_inode s = wk_inode w"
    using assms by (auto simp: represents_def MAX_PATH_LEN_def)
  have ns: "find_next_sep (rs_path s) (rs_index s) = Ok (if ?S = [] then None else Some (length ?P + length c))"
    unfolding p i using next_sep_at[OF _ _ suffix_cases] c by (simp add: is_name_def)
  have e: "(case (if ?S = [] then None else Some (length ?P + length c)) of None \<Rightarrow> length (rs_path s) | Some i \<Rightarrow> i) =
      length ?P + length c" by (simp add: p)
  have "1 \<le> length (rs_path s)" by (simp add: p path_prefix_def)
  then have l: "usize_sub (length (rs_path s)) 1 = Some (length (rs_path s) - 1)" by (simp add: usize_sub_def)
  have ue: "usize_add (length ?P + length c) 1 = Some (length ?P + length c + 1)"
    using len p by (simp add: usize_add_def usize_max_def)
  have il: "((if ?S = [] then None else Some (length ?P + length c)) = None \<or> length ?P + length c = length (rs_path s) - 1) =
      (rest = [])"
  proof (cases rest)
    case Nil
    then show ?thesis by (auto simp: p path_suffix_def)
  next
    case (Cons a as)
    then have "a \<noteq> []" using r by (auto simp: is_name_def)
    with Cons show ?thesis by (auto simp: p path_suffix_def)
  qed
  have sl: "slice (rs_path s) (rs_index s) (length ?P + length c) = (Ok c :: bytes result)"
    unfolding i using p by simp
  show ?thesis
    unfolding resolve_component_def Let_def ns bindc_lift_Ok e l unwrap.simps ue sl is_name_valid[OF c] unwrap_res.simps il n
    by (rule refl)
qed

definition follows :: "Resolver result \<Rightarrow> Walk result \<Rightarrow> bool" where
  "follows r q \<longleftrightarrow> (case q of Ok w \<Rightarrow> (\<exists>s. r = Ok s \<and> represents s w) | Err e \<Rightarrow> r = Err e | Panic \<Rightarrow> r = Panic | Diverge \<Rightarrow> r = Diverge)"

lemma follows_simps [simp]:
  "follows r (Ok w) \<longleftrightarrow> (\<exists>s. r = Ok s \<and> represents s w)" "follows r (Err e) \<longleftrightarrow> r = Err e"
  by (simp_all add: follows_def)

lemma render_trailing: "length (render ds True) = length (path_prefix ds)"
  by (simp add: render_def path_prefix_def path_suffix_def)

lemma prefix_butlast: "\<exists>x. path_prefix ds = path_prefix (butlast ds) @ x \<and> (ds = [] \<longrightarrow> x = [])"
  by (cases ds rule: rev_cases) (auto simp: path_prefix_def)

lemma prefix_snoc: "path_prefix (ds @ [c]) = path_prefix ds @ c @ [SEPARATOR]"
  by (simp add: path_prefix_def)

lemma drain_component:
  assumes "a \<le> length P"
  shows "vec_drain (P @ c @ S) a (min (length P + length c + 1) (length (P @ c @ S))) = Ok (take a P @ drop 1 S)"
  using assms by (cases S) (auto simp: vec_drain_def vec_splice_def)

lemma represents_dropped:
  assumes "represents s w" and "wk_todo w = c # rest" and "set ds \<subseteq> set (wk_done w)"
    and "length (path_prefix ds) \<le> length (path_prefix (wk_done w))"
  shows "represents (s\<lparr>rs_path := path_prefix ds @ drop 1 (path_suffix rest (wk_trailing w)), rs_index := length (path_prefix ds), rs_inode := i\<rparr>)
     (w\<lparr>wk_done := ds, wk_inode := i, wk_todo := rest, wk_trailing := (wk_trailing w \<or> rest = [])\<rparr>)"
proof -
  have p: "path_prefix ds @ drop 1 (path_suffix rest (wk_trailing w)) = render (ds @ rest) (wk_trailing w \<or> rest = [])"
    using assms(1,2) by (intro path_without_component[where c = c]) (simp add: represents_def)
  have "length (rs_path s) = length (path_prefix (wk_done w) @ c @ path_suffix rest (wk_trailing w))"
    using assms(1,2) render_split by (simp add: represents_def)
  moreover have "length (rs_path s) \<le> MAX_PATH_LEN" using assms(1) unfolding represents_def by blast
  ultimately have "length (path_prefix ds @ drop 1 (path_suffix rest (wk_trailing w))) \<le> MAX_PATH_LEN"
    using assms(4) unfolding length_append length_drop by linarith
  with assms p show ?thesis by (auto simp: represents_def render_trailing)
qed

lemma child_dot:
  assumes "represents s w" and "wk_todo w = [0x2e] # rest" and "good disk fs0 fs"
  shows "\<exists>r. computes disk fs0 fs (resolve_child follow s [0x2e] (length (path_prefix (wk_done w)) + 1)
      (min (length (path_prefix (wk_done w)) + 1 + 1) (length (rs_path s))) (rest = []) child) r \<and>
    follows r (walk_child W follow w child)"
proof -
  let ?P = "path_prefix (wk_done w)" and ?S = "path_suffix rest (wk_trailing w)"
  have p: "rs_path s = ?P @ [0x2e] @ ?S" and i: "rs_index s = length ?P" "rs_inode s = wk_inode w"
    using assms(1,2) render_split[of "wk_todo w" "[0x2e]" rest "wk_done w"] by (auto simp: represents_def)
  have d: "vec_drain (rs_path s) (rs_index s) (min (length ?P + 1 + 1) (length (rs_path s))) = Ok (?P @ drop 1 ?S)"
    using drain_component[of "length ?P" ?P "[0x2e]" ?S] unfolding p i by simp
  have "resolve_child follow s [0x2e] (length ?P + 1) (min (length ?P + 1 + 1) (length (rs_path s))) (rest = []) child =
      ret (s\<lparr>rs_path := ?P @ drop 1 ?S\<rparr>)"
    unfolding resolve_child_def Let_def d bindc_lift_Ok by simp
  moreover have "represents (s\<lparr>rs_path := ?P @ drop 1 ?S\<rparr>) (w\<lparr>wk_todo := rest, wk_trailing := (wk_trailing w \<or> rest = [])\<rparr>)"
  proof -
    have "s\<lparr>rs_path := ?P @ drop 1 ?S\<rparr> = s\<lparr>rs_path := ?P @ drop 1 ?S, rs_index := length ?P, rs_inode := wk_inode w\<rparr>"
      using i by (cases s) simp
    with represents_dropped[OF assms(1,2), of "wk_done w" "wk_inode w"] show ?thesis by simp
  qed
  ultimately show ?thesis
    using assms(2) by (auto simp: walk_child_def Let_def intro!: exI computes_ret[OF assms(3)])
qed

lemma child_dotdot:
  assumes "represents s w" and "wk_todo w = [0x2e, 0x2e] # rest" and "good disk fs0 fs"
  shows "\<exists>r. computes disk fs0 fs (resolve_child follow s [0x2e, 0x2e] (length (path_prefix (wk_done w)) + 2)
      (min (length (path_prefix (wk_done w)) + 2 + 1) (length (rs_path s))) (rest = []) child) r \<and>
    follows r (walk_child W follow w child)"
proof -
  let ?P = "path_prefix (wk_done w)" and ?S = "path_suffix rest (wk_trailing w)" and ?Q = "path_prefix (butlast (wk_done w))"
  have p: "rs_path s = ?P @ [0x2e, 0x2e] @ ?S" and i: "rs_index s = length ?P" and n: "\<forall>c \<in> set (wk_done w). is_name c"
    and l: "length (?P @ [0x2e, 0x2e] @ ?S) \<le> MAX_PATH_LEN"
    using assms(1,2) render_split[of "wk_todo w" "[0x2e, 0x2e]" rest "wk_done w"] by (auto simp: represents_def)
  obtain x where x: "?P = ?Q @ x" using prefix_butlast by blast
  have s: "find_parent_component_start (rs_path s) (rs_index s) = Ok (length ?Q)"
    unfolding p i by (rule parent_start[OF n l]) simp
  have d: "vec_drain (rs_path s) (length ?Q) (min (length ?P + 2 + 1) (length (rs_path s))) = Ok (?Q @ drop 1 ?S)"
    using drain_component[of "length ?Q" ?P "[0x2e, 0x2e]" ?S] x unfolding p by simp
  have "resolve_child follow s [0x2e, 0x2e] (length ?P + 2) (min (length ?P + 2 + 1) (length (rs_path s))) (rest = []) child =
      ret (s\<lparr>rs_path := ?Q @ drop 1 ?S, rs_index := length ?Q, rs_inode := child\<rparr>)"
    unfolding resolve_child_def Let_def s bindc_lift_Ok d by simp
  moreover have "represents (s\<lparr>rs_path := ?Q @ drop 1 ?S, rs_index := length ?Q, rs_inode := child\<rparr>)
     (w\<lparr>wk_done := butlast (wk_done w), wk_inode := child, wk_todo := rest, wk_trailing := (wk_trailing w \<or> rest = [])\<rparr>)"
    using x by (intro represents_dropped[OF assms(1,2)]) (auto dest: in_set_butlastD)
  ultimately show ?thesis
    using assms(2) by (auto simp: walk_child_def Let_def intro!: exI computes_ret[OF assms(3)])
qed

lemma child_normal:
  assumes "represents s w" and "wk_todo w = c # rest" and "good disk fs0 fs" and "c \<notin> dots"
    and "\<not> (Metadata_is_symlink (in_metadata child) \<and> (follow = All \<or> rest \<noteq> []))"
  shows "\<exists>r. computes disk fs0 fs (resolve_child follow s c (length (path_prefix (wk_done w)) + length c)
      (min (length (path_prefix (wk_done w)) + length c + 1) (length (rs_path s))) (rest = []) child) r \<and>
    follows r (walk_child W follow w child)"
proof -
  let ?P = "path_prefix (wk_done w)" and ?S = "path_suffix rest (wk_trailing w)"
  let ?i = "min (length ?P + length c + 1) (length (rs_path s))"
  have p: "rs_path s = ?P @ c @ ?S" using assms(1,2) render_split by (simp add: represents_def)
  have "resolve_child follow s c (length ?P + length c) ?i (rest = []) child = ret (s\<lparr>rs_index := ?i, rs_inode := child\<rparr>)"
    using assms(4) by (simp only: resolve_child_def Let_def assms(5) if_False not_not) (simp add: dots_def)
  moreover have "?i = (if rest = [] then length (rs_path s) else length (path_prefix (wk_done w @ [c])))"
    by (cases rest; cases "wk_trailing w") (auto simp: p prefix_snoc path_suffix_def)
  then have "represents (s\<lparr>rs_index := ?i, rs_inode := child\<rparr>) (w\<lparr>wk_done := wk_done w @ [c], wk_inode := child, wk_todo := rest\<rparr>)"
    using assms(1,2,4) by (auto simp: represents_def)
  ultimately show ?thesis
    using assms(2,4,5) by (auto simp: walk_child_def Let_def dots_def intro!: exI computes_ret[OF assms(3)])
qed

lemma length_dedup: "length (dedup p) \<le> length p"
  by (induction p rule: dedup.induct) auto

lemma last_path_suffix:
  assumes "\<forall>c \<in> set rest. is_name c" and "X \<noteq> []"
  shows "last (X @ path_suffix rest tr) = SEPARATOR \<longleftrightarrow> tr \<or> rest = [] \<and> last X = SEPARATOR"
proof (cases "tr \<or> rest = []")
  case True
  with assms(2) show ?thesis by (auto simp: path_suffix_def)
next
  case False
  then obtain rs r where r: "rest = rs @ [r]" "\<not> tr" by (cases rest rule: rev_cases) auto
  then have "r \<noteq> []" "SEPARATOR \<notin> set r" using assms(1) by (auto simp: is_name_def)
  moreover from this have "last r \<noteq> SEPARATOR" using last_in_set by metis
  ultimately show ?thesis using r by (simp add: path_suffix_def)
qed

lemma splice_represents:
  assumes "represents s w" and "wk_todo w = c # rest" and "valid_path t" and "wk_symlinks w + 1 \<le> MAX_SYMLINKS"
    and X: "X = t \<and> Path_is_absolute t \<and> ds = [] \<or> X = path_prefix (wk_done w) @ t \<and> \<not> Path_is_absolute t \<and> ds = wk_done w"
    and len: "length (X @ path_suffix rest (wk_trailing w)) \<le> MAX_PATH_LEN"
  shows "\<exists>p. path_dedup_sep (X @ path_suffix rest (wk_trailing w)) = Ok p \<and>
     represents \<lparr>rs_path = p, rs_index = length (path_prefix ds), rs_inode = i, rs_num_symlinks = wk_symlinks w + 1\<rparr>
       \<lparr>wk_done = ds, wk_inode = i, wk_todo = names t @ rest,
        wk_trailing = (wk_trailing w \<or> rest = [] \<and> ends_sep t), wk_symlinks = wk_symlinks w + 1\<rparr>"
proof -
  let ?S = "path_suffix rest (wk_trailing w)" and ?tr = "wk_trailing w \<or> rest = [] \<and> ends_sep t"
  have r: "\<forall>c \<in> set rest. is_name c" and d: "\<forall>c \<in> set ds. is_name c" "\<forall>c \<in> set ds. c \<notin> dots"
    using assms(1,2) X by (auto simp: represents_def)
  have abs: "X \<noteq> []" "Path_is_absolute (X @ ?S)"
    using X by (cases "wk_done w"; auto simp: Path_is_absolute_def path_prefix_def nth_append)+
  have n: "names (X @ ?S) = ds @ names t @ rest"
    using X names_before_suffix[OF r, of t] names_prefix[OF d(1), of "t @ ?S"] by auto
  have lX: "last X = SEPARATOR \<longleftrightarrow> ends_sep t"
    using X abs(1) by (auto simp: ends_sep_def path_prefix_def split: if_splits)
  have "length (X @ ?S) < usize_max" using len by (simp add: MAX_PATH_LEN_def usize_max_def)
  note dd = path_dedup_render[OF abs(2) this, unfolded n last_path_suffix[OF r abs(1)] lX]
  obtain q where q: "X @ ?S = SEPARATOR # q" using abs(2) by (cases "X @ ?S") (auto simp: Path_is_absolute_def)
  have "path_dedup_sep (X @ ?S) = Ok (dedup (X @ ?S))"
    using dedup_loop_dedup[of "[]" q SEPARATOR] len q by (simp add: path_dedup_sep_def MAX_PATH_LEN_def usize_max_def)
  with dd length_dedup[of "X @ ?S"] len have l: "length (render (ds @ names t @ rest) ?tr) \<le> MAX_PATH_LEN" by simp
  have e: "length (render (ds @ names t @ rest) ?tr) \<le> length (path_prefix ds)" if "names t @ rest = []"
  proof (cases "Path_is_absolute t")
    case True
    with X that show ?thesis by (simp add: render_def path_prefix_def)
  next
    case False
    have "t = []"
      using False names_Nil[of t] that by (cases t) (auto simp: Path_is_absolute_def)
    then have "?tr" using that by (simp add: ends_sep_def)
    with that render_trailing[of ds] show ?thesis by simp
  qed
  show ?thesis
    using dd l e d r assms(3,4) names_valid[of t] by (auto simp: represents_def)
qed

lemma symlink_target_valid: "fst (symlink_target inode fs) = Ok t \<Longrightarrow> valid_path t"
proof -
  have v: "PathBuf_try_from d = Ok t \<Longrightarrow> valid_path t" for d
    by (auto simp: PathBuf_try_from_def Path_try_from_Ok)
  show "fst (symlink_target inode fs) = Ok t \<Longrightarrow> valid_path t"
    by (auto simp: symlink_target_def bindc_def lift_def split: if_splits outcome.splits prod.splits dest: v)
qed

lemma tracks_bind:
  assumes "computes disk fs0 fs m q"
    and "\<And>x fs'. q = Ok x \<Longrightarrow> good disk fs0 fs' \<Longrightarrow> \<exists>r. computes disk fs0 fs' (f x) r \<and> follows r (g x)"
  shows "\<exists>r. computes disk fs0 fs (bindc m f) r \<and> follows r (bind_o q g)"
proof -
  obtain fs' where m: "m fs = (q, fs')" "good disk fs0 fs'" using computesD[OF assms(1)] by blast
  show ?thesis
  proof (cases q)
    case (Ok x)
    with assms(2)[OF Ok m(2)] m show ?thesis by (auto simp: computes_def bindc_def)
  qed (use m in \<open>auto simp: computes_def bindc_def follows_def\<close>)
qed

lemma fs_world_sel:
  "wd_root (fs_world fs) = fst (read_root_inode fs)"
  "wd_lookup (fs_world fs) inode name = fst (get_dir_entry_inode_by_name inode name fs)"
  "wd_target (fs_world fs) inode = fst (symlink_target inode fs)"
  by (simp_all add: fs_world_def)

text \<open>
  The last part of the symlink branch, with the length check and the removal of doubled separators, and
  the state of the walk it leads to.
\<close>

definition finish_splice :: "nat \<Rightarrow> Inode \<Rightarrow> nat \<Rightarrow> bytes \<Rightarrow> Resolver fs_op" where
  "finish_splice n inode index path = (if length path > MAX_PATH_LEN then lift (Err PathTooLong)
     else bindc (lift (path_dedup_sep path)) (\<lambda>path.
       ret \<lparr>rs_path = path, rs_index = index, rs_inode = inode, rs_num_symlinks = n\<rparr>))"

definition walk_splice :: "Walk \<Rightarrow> bytes list \<Rightarrow> Inode \<Rightarrow> bytes \<Rightarrow> Walk" where
  "walk_splice w ds inode t = \<lparr>wk_done = ds, wk_inode = inode, wk_todo = names t @ tl (wk_todo w),
     wk_trailing = (wk_trailing w \<or> tl (wk_todo w) = [] \<and> ends_sep t), wk_symlinks = wk_symlinks w + 1\<rparr>"

lemma finish_splice_follows:
  assumes "represents s w" and "wk_todo w = c # rest" and "valid_path t" and "wk_symlinks w + 1 \<le> MAX_SYMLINKS"
    and "X = t \<and> Path_is_absolute t \<and> ds = [] \<or> X = path_prefix (wk_done w) @ t \<and> \<not> Path_is_absolute t \<and> ds = wk_done w"
    and g: "good disk fs0 fs" and p: "p = X @ path_suffix rest (wk_trailing w)" and k: "k = length (path_prefix ds)"
  shows "\<exists>r. computes disk fs0 fs (finish_splice (wk_symlinks w + 1) inode k p) r \<and>
    follows r (if length p > MAX_PATH_LEN then Err PathTooLong else Ok (walk_splice w ds inode t))"
proof (cases "length p > MAX_PATH_LEN")
  case True
  then show ?thesis using computes_lift[OF g] by (auto simp: finish_splice_def)
next
  case False
  then have "length (X @ path_suffix rest (wk_trailing w)) \<le> MAX_PATH_LEN" by (simp add: p)
  from splice_represents[OF assms(1-5) this, of inode] obtain q where
    "path_dedup_sep p = Ok q" "represents \<lparr>rs_path = q, rs_index = k, rs_inode = inode,
       rs_num_symlinks = wk_symlinks w + 1\<rparr> (walk_splice w ds inode t)"
    using assms(2) by (auto simp: walk_splice_def p k)
  with False show ?thesis
    by (intro exI[of _ "Ok \<lparr>rs_path = q, rs_index = k, rs_inode = inode, rs_num_symlinks = wk_symlinks w + 1\<rparr>"])
       (simp add: finish_splice_def bindc_lift_Ok computes_ret[OF g])
qed

lemma resolve_child_symlink:
  assumes "represents s w" and "wk_todo w = c # rest" and "c \<notin> dots"
    and "Metadata_is_symlink (in_metadata child) \<and> (follow = All \<or> rest \<noteq> [])"
  shows "resolve_child follow s c (length (path_prefix (wk_done w)) + length c)
      (min (length (path_prefix (wk_done w)) + length c + 1) (length (rs_path s))) (rest = []) child =
     (let n = wk_symlinks w + 1; P = path_prefix (wk_done w); S = path_suffix rest (wk_trailing w) in
      if n > MAX_SYMLINKS then lift (Err TooManySymlinks)
      else bindc (symlink_target child) (\<lambda>t.
        if Path_is_absolute t then bindc read_root_inode (\<lambda>inode. finish_splice n inode 1 (t @ S))
        else finish_splice n (wk_inode w) (length P) (P @ t @ S)))"
proof -
  let ?P = "path_prefix (wk_done w)" and ?S = "path_suffix rest (wk_trailing w)"
  have p: "rs_path s = ?P @ c @ ?S" and i: "rs_index s = length ?P" "rs_inode s = wk_inode w" "rs_num_symlinks s = wk_symlinks w"
    and n: "wk_symlinks w \<le> MAX_SYMLINKS"
    using assms(1,2) render_split by (auto simp: represents_def)
  have u: "usize_add (wk_symlinks w) 1 = Some (wk_symlinks w + 1)"
    using n by (simp add: MAX_SYMLINKS_def usize_add_def usize_max_def)
  have v: "vec_splice (rs_path s) 0 (length ?P + length c) t = (Ok (t @ ?S) :: bytes result)"
    "vec_splice (rs_path s) (length ?P) (length ?P + length c) t = (Ok (?P @ t @ ?S) :: bytes result)" for t
    by (simp_all add: vec_splice_def p)
  have a: "bindc (if b then bindc m (\<lambda>inode. ret (inode, k, l)) else ret z) h =
     (if b then bindc m (\<lambda>inode. h (inode, k, l)) else h z)" for b m k l z and h :: "_ \<Rightarrow> Resolver fs_op"
    by (auto simp: bindc_def ret_def fun_eq_iff split: outcome.split prod.split)
  show ?thesis
    using assms(3,4) unfolding resolve_child_def Let_def u unwrap.simps bindc_lift_Ok a prod.case i v finish_splice_def
    by (simp add: dots_def)
qed

lemma walk_child_symlink:
  assumes "wk_todo w = c # rest" and "c \<notin> dots" and "Metadata_is_symlink (in_metadata child) \<and> (follow = All \<or> rest \<noteq> [])"
  shows "walk_child W follow w child =
     (let P = path_prefix (wk_done w); S = path_suffix rest (wk_trailing w) in
      if wk_symlinks w + 1 > MAX_SYMLINKS then Err TooManySymlinks
      else bind_o (wd_target W child) (\<lambda>t.
        if Path_is_absolute t then bind_o (wd_root W) (\<lambda>root.
          if length (t @ S) > MAX_PATH_LEN then Err PathTooLong else Ok (walk_splice w [] root t))
        else if length (P @ t @ S) > MAX_PATH_LEN then Err PathTooLong
        else Ok (walk_splice w (wk_done w) (wk_inode w) t)))"
proof -
  have b: "bind_o (if b then bind_o m (\<lambda>x. Ok (x, k, l)) else Ok z) h = (if b then bind_o m (\<lambda>x. h (x, k, l)) else h z)"
    for b m k l z and h :: "_ \<Rightarrow> Walk result"
    by (cases m) auto
  show ?thesis
    using assms(2,3) unfolding walk_child_def walk_splice_def Let_def b prod.case assms(1) list.sel by (simp add: dots_def)
qed

lemma child_symlink:
  assumes rep: "represents s w" and todo: "wk_todo w = c # rest" and g: "good disk fs0 fs" and ok: "fs_ok disk fs0"
    and tame: "fs_tame fs0" and c: "c \<notin> dots" and sym: "Metadata_is_symlink (in_metadata child) \<and> (follow = All \<or> rest \<noteq> [])"
  shows "\<exists>r. computes disk fs0 fs (resolve_child follow s c (length (path_prefix (wk_done w)) + length c)
      (min (length (path_prefix (wk_done w)) + length c + 1) (length (rs_path s))) (rest = []) child) r \<and>
    follows r (walk_child (fs_world fs0) follow w child)"
proof (cases "wk_symlinks w + 1 > MAX_SYMLINKS")
  case True
  then show ?thesis
    unfolding resolve_child_symlink[OF rep todo c sym] walk_child_symlink[OF todo c sym] Let_def
    using computes_lift[OF g] by auto
next
  case False
  then have n: "wk_symlinks w + 1 \<le> MAX_SYMLINKS" by simp
  show ?thesis
    unfolding resolve_child_symlink[OF rep todo c sym] walk_child_symlink[OF todo c sym] Let_def if_not_P[OF False] fs_world_sel
  proof (rule tracks_bind[OF stableD[OF stable_symlink_target[OF tame] ok g]])
    fix t fs1
    assume t: "fst (symlink_target child fs0) = Ok t" and g1: "good disk fs0 fs1"
    note fin = finish_splice_follows[OF rep todo symlink_target_valid[OF t] n]
    let ?P = "path_prefix (wk_done w)" and ?S = "path_suffix rest (wk_trailing w)" and ?n = "wk_symlinks w + 1"
    show "\<exists>r. computes disk fs0 fs1 (if Path_is_absolute t then bindc read_root_inode (\<lambda>inode. finish_splice ?n inode 1 (t @ ?S))
        else finish_splice ?n (wk_inode w) (length ?P) (?P @ t @ ?S)) r \<and>
      follows r (if Path_is_absolute t then bind_o (fst (read_root_inode fs0)) (\<lambda>root.
          if length (t @ ?S) > MAX_PATH_LEN then Err PathTooLong else Ok (walk_splice w [] root t))
        else if length (?P @ t @ ?S) > MAX_PATH_LEN then Err PathTooLong
        else Ok (walk_splice w (wk_done w) (wk_inode w) t))"
    proof (cases "Path_is_absolute t")
      case True
      then show ?thesis unfolding if_P[OF True]
        by (intro tracks_bind[OF stableD[OF stable_read_root[OF tame] ok g1]] fin[of t "[]"]) (auto simp: path_prefix_def)
    next
      case F: False
      then show ?thesis unfolding if_not_P[OF F]
        by (intro fin[of "?P @ t" "wk_done w"]) (auto simp: g1)
    qed
  qed
qed

lemma component_step:
  assumes "represents s w" and "wk_todo w \<noteq> []" and "good disk fs0 fs" and "fs_ok disk fs0" and "fs_tame fs0"
  shows "\<exists>r. computes disk fs0 fs (resolve_component follow s) r \<and> follows r (walk_step (fs_world fs0) follow w)"
proof -
  obtain c rest where todo: "wk_todo w = c # rest" using assms(2) by (cases "wk_todo w") auto
  let ?P = "path_prefix (wk_done w)"
  have child: "\<exists>r. computes disk fs0 fs' (resolve_child follow s c (length ?P + length c)
      (min (length ?P + length c + 1) (length (rs_path s))) (rest = []) child) r \<and>
      follows r (walk_child (fs_world fs0) follow w child)" if g: "good disk fs0 fs'" for child fs'
  proof (cases "c \<in> dots")
    case True
    then consider "c = [0x2e]" | "c = [0x2e, 0x2e]" by (auto simp: dots_def)
    then show ?thesis
      using child_dot[OF assms(1) _ g, of rest follow child "fs_world fs0"]
        child_dotdot[OF assms(1) _ g, of rest follow child "fs_world fs0"] todo
      by cases simp_all
  next
    case False
    then show ?thesis
      using child_normal[OF assms(1) todo g False] child_symlink[OF assms(1) todo g assms(4,5) False] by blast
  qed
  show ?thesis
  proof (cases "Metadata_is_dir (in_metadata (wk_inode w))")
    case True
    from tracks_bind[OF stableD[OF stable_dir_lookup[OF assms(5)] assms(4,3)] child, of "wk_inode w" c]
    show ?thesis using True todo unfolding component_front[OF assms(1) todo] walk_step_def by (simp add: fs_world_sel)
  next
    case False
    then show ?thesis
      unfolding component_front[OF assms(1) todo] walk_step_def using computes_lift[OF assms(3)] by auto
  qed
qed

lemma represents_loop_guard: "represents s w \<Longrightarrow> rs_index s < length (rs_path s) \<longleftrightarrow> wk_todo w \<noteq> []"
proof (cases "wk_todo w")
  case (Cons c rest)
  moreover assume "represents s w"
  ultimately show ?thesis
    using render_split[OF Cons, of "wk_done w" "wk_trailing w"] by (auto simp: represents_def is_name_def)
qed (auto simp: represents_def)

lemma loop_follows:
  assumes "represents s w" and "good disk fs0 fs" and "fs_ok disk fs0" and "fs_tame fs0"
  shows "\<exists>r. computes disk fs0 fs (resolve_loop follow n s) r \<and> follows r (walk_loop (fs_world fs0) follow n w)"
  using assms(1,2)
proof (induction "MAX_ITERATIONS - n" arbitrary: n s w fs rule: less_induct)
  case less
  note guard = represents_loop_guard[OF less.prems(1)]
  show ?case
  proof (cases "wk_todo w = []")
    case True
    then show ?thesis
      using guard computes_ret[OF less.prems(2), of s] less.prems(1)
      by (auto simp: resolve_loop.simps[of follow n s] walk_loop.simps[of _ follow n w])
  next
    case False
    show ?thesis
    proof (cases "n + 1 \<le> MAX_ITERATIONS")
      case True
      from component_step[OF less.prems(1) False less.prems(2) assms(3,4), of follow] obtain r where
        r: "computes disk fs0 fs (resolve_component follow s) r" "follows r (walk_step (fs_world fs0) follow w)" by blast
      have "\<exists>r'. computes disk fs0 fs (bindc (resolve_component follow s) (resolve_loop follow (n + 1))) r' \<and>
          follows r' (bind_o (walk_step (fs_world fs0) follow w) (walk_loop (fs_world fs0) follow (n + 1)))"
      proof (cases "walk_step (fs_world fs0) follow w")
        case (Ok w')
        with r(2) obtain s' where s': "r = Ok s'" "represents s' w'" by auto
        obtain fs' where fs': "resolve_component follow s fs = (Ok s', fs')" "good disk fs0 fs'"
          using computesD[OF r(1)] s'(1) by blast
        have "MAX_ITERATIONS - (n + 1) < MAX_ITERATIONS - n" using True by simp
        from less.hyps[OF this s'(2) fs'(2)] fs' Ok show ?thesis by (auto simp: computes_def bindc_def)
      qed (use r computesD[OF r(1)] in \<open>auto simp: computes_def bindc_def follows_def\<close>)
      with True False guard show ?thesis
        by (simp add: resolve_loop.simps[of follow n s] walk_loop.simps[of _ follow n w])
    next
      case F: False
      then show ?thesis
        using False guard computes_lift[OF less.prems(2), of "Panic :: Resolver result"]
        by (auto simp: resolve_loop.simps[of follow n s] walk_loop.simps[of _ follow n w] follows_def)
    qed
  qed
qed

lemma render_facts:
  assumes "\<forall>c \<in> set ds. is_name c"
  shows "length (render ds tr) > 1 \<and> last (render ds tr) = SEPARATOR \<longleftrightarrow> ds \<noteq> [] \<and> tr"
    "ds \<noteq> [] \<Longrightarrow> butlast (render ds True) = render ds False" "valid_path (render ds False)"
    "Path_is_absolute (render ds False)" "names (render ds tr) = ds"
proof -
  show "length (render ds tr) > 1 \<and> last (render ds tr) = SEPARATOR \<longleftrightarrow> ds \<noteq> [] \<and> tr"
  proof (cases ds rule: rev_cases)
    case (snoc es d)
    then have "d \<noteq> []" "SEPARATOR \<notin> set d" using assms by (auto simp: is_name_def)
    moreover from this have "last d \<noteq> SEPARATOR" using last_in_set by metis
    ultimately show ?thesis using snoc by (auto simp: render_def path_suffix_def)
  qed (simp add: render_def)
  show "butlast (render ds True) = render ds False" if "ds \<noteq> []"
    using that by (simp add: render_def path_suffix_def butlast_append)
  have v: "valid_path (concat (map (\<lambda>c. SEPARATOR # c) ds))"
    using assms
  proof (induction ds)
    case (Cons d ds)
    have d: "valid_path d" using Cons.prems by (auto simp: valid_path_def is_name_def split_sep_none)
    show ?case
    proof (cases ds)
      case Nil
      with d valid_path_append[of "[]" d] show ?thesis by (simp add: valid_path_def)
    next
      case (Cons e es)
      let ?r = "e @ concat (map (\<lambda>c. SEPARATOR # c) es)"
      have "valid_path (SEPARATOR # ?r)" using Cons.IH Cons.prems Cons by simp
      then have "valid_path ?r" using valid_path_append[of "[]" ?r] by simp
      with d valid_path_append[of d ?r] valid_path_append[of "[]" "d @ SEPARATOR # ?r"] Cons show ?thesis
        by (simp add: valid_path_def)
    qed
  qed (simp add: valid_path_def)
  then show "valid_path (render ds False)"
    using valid_path_append[of "[]" "[]"] by (auto simp: render_def path_suffix_def valid_path_def)
  show "Path_is_absolute (render ds False)" by (cases ds) (auto simp: render_def path_suffix_def Path_is_absolute_def)
  show "names (render ds tr) = ds" using names_suffix[OF assms] by (auto simp: render_def)
qed

lemma walk_loop_finished: "walk_loop W follow n w = Ok w' \<Longrightarrow> wk_todo w' = []"
proof (induction "MAX_ITERATIONS - n" arbitrary: n w rule: less_induct)
  case less
  show ?case
  proof (cases "wk_todo w \<noteq> [] \<and> n + 1 \<le> MAX_ITERATIONS")
    case True
    then obtain w1 where "walk_loop W follow (n + 1) w1 = Ok w'"
      using less.prems by (auto simp: walk_loop.simps[of W follow n w])
    moreover have "MAX_ITERATIONS - (n + 1) < MAX_ITERATIONS - n" using True by linarith
    ultimately show ?thesis using less.hyps by blast
  qed (use less.prems in \<open>auto simp: walk_loop.simps[of W follow n w] split: if_splits\<close>)
qed

text \<open>What \<open>resolve_path\<close> does after the loop.\<close>

abbreviation resolve_finish :: "Resolver \<Rightarrow> (Inode \<times> PathBuf) fs_op" where
  "resolve_finish s \<equiv>
     (let path = rs_path s; inode = rs_inode s in
      bindc (lift (if length path > 1 \<and> last path = SEPARATOR then
                     if Metadata_is_dir (in_metadata inode) then Ok (butlast path) else Err NotADirectory
                   else Ok path)) (\<lambda>path.
      bindc (lift (unwrap_res (PathBuf_try_from path))) (\<lambda>output_path.
      ret (inode, output_path))))"

abbreviation walk_finish :: "Walk \<Rightarrow> (Inode \<times> PathBuf) result" where
  "walk_finish w \<equiv>
     (if wk_done w \<noteq> [] \<and> wk_trailing w \<and> \<not> Metadata_is_dir (in_metadata (wk_inode w)) then Err NotADirectory
      else Ok (wk_inode w, render (wk_done w) False))"

lemma resolve_tail:
  assumes "represents s w" and "wk_todo w = []" and "good disk fs0 fs"
  shows "computes disk fs0 fs (resolve_finish s) (walk_finish w)"
proof -
  have p: "rs_path s = render (wk_done w) (wk_trailing w)" and i: "rs_inode s = wk_inode w"
    and n: "\<forall>c \<in> set (wk_done w). is_name c" using assms(1,2) by (auto simp: represents_def)
  note f = render_facts[OF n]
  have t: "unwrap_res (PathBuf_try_from (render (wk_done w) False)) = (Ok (render (wk_done w) False) :: PathBuf result)"
    using f(3) by (simp add: PathBuf_try_from_def Path_try_from_valid)
  have e: "render (wk_done w) (wk_trailing w) = render (wk_done w) False" if "\<not> (wk_done w \<noteq> [] \<and> wk_trailing w)"
    using that by (auto simp: render_def)
  show ?thesis
  proof (cases "wk_done w \<noteq> [] \<and> wk_trailing w")
    case True
    then show ?thesis
      using f(1)[of "wk_trailing w"] f(2) t computes_ret[OF assms(3)] computes_lift[OF assms(3), of "Err NotADirectory"]
      by (cases "Metadata_is_dir (in_metadata (wk_inode w))")
         (simp_all add: p i Let_def computes_def bindc_def lift_def ret_def)
  next
    case False
    then have c: "\<not> (length (render (wk_done w) False) > 1 \<and> last (render (wk_done w) False) = SEPARATOR)"
      using f(1)[of False] by blast
    have d: "\<not> (wk_done w \<noteq> [] \<and> wk_trailing w \<and> \<not> Metadata_is_dir (in_metadata (wk_inode w)))" using False by blast
    show ?thesis
      unfolding p e[OF False] Let_def if_not_P[OF c] bindc_lift_Ok t i if_not_P[OF d] by (rule computes_ret[OF assms(3)])
  qed
qed

lemma resolve_loop_follows:
  assumes "fs_ok disk fs0" and "fs_tame fs0" and g: "good disk fs0 fs" and rep: "represents s w"
  shows "computes disk fs0 fs (bindc (resolve_loop follow 0 s) resolve_finish)
     (bind_o (walk_loop (fs_world fs0) follow 0 w) walk_finish)"
proof -
  obtain r where r: "computes disk fs0 fs (resolve_loop follow 0 s) r" "follows r (walk_loop (fs_world fs0) follow 0 w)"
    using loop_follows[OF rep g assms(1,2)] by blast
  obtain fs1 where fs1: "resolve_loop follow 0 s fs = (r, fs1)" "good disk fs0 fs1"
    using computesD[OF r(1)] by blast
  show ?thesis
  proof (cases "walk_loop (fs_world fs0) follow 0 w")
    case (Ok w')
    with r(2) obtain s' where s: "r = Ok s'" "represents s' w'" by auto
    from resolve_tail[OF s(2) walk_loop_finished[OF Ok] fs1(2)] Ok s fs1 show ?thesis
      by (simp add: computes_def bindc_def)
  qed (use r(2) fs1 in \<open>auto simp: computes_def bindc_def follows_def\<close>)
qed

lemma path_dedup_start:
  assumes "Path_is_absolute path" and "length path \<le> MAX_PATH_LEN" and "valid_path path"
  shows "path_dedup_sep path = Ok (render (names path) (last path = SEPARATOR))"
    and "represents \<lparr>rs_path = render (names path) (last path = SEPARATOR), rs_index = 1, rs_inode = inode, rs_num_symlinks = 0\<rparr>
      \<lparr>wk_done = [], wk_inode = inode, wk_todo = names path, wk_trailing = (last path = SEPARATOR), wk_symlinks = 0\<rparr>"
proof -
  show dd: "path_dedup_sep path = Ok (render (names path) (last path = SEPARATOR))"
    using assms by (intro path_dedup_render) (auto simp: MAX_PATH_LEN_def usize_max_def)
  obtain q where q: "path = SEPARATOR # q" using assms(1) by (cases path) (auto simp: Path_is_absolute_def)
  have "path_dedup_sep path = Ok (dedup path)"
    using dedup_loop_dedup[of "[]" q SEPARATOR] assms(2) q by (simp add: path_dedup_sep_def MAX_PATH_LEN_def usize_max_def)
  with dd length_dedup[of path] assms(2) have "length (render (names path) (last path = SEPARATOR)) \<le> MAX_PATH_LEN" by simp
  then show "represents \<lparr>rs_path = render (names path) (last path = SEPARATOR), rs_index = 1, rs_inode = inode, rs_num_symlinks = 0\<rparr>
      \<lparr>wk_done = [], wk_inode = inode, wk_todo = names path, wk_trailing = (last path = SEPARATOR), wk_symlinks = 0\<rparr>"
    using names_valid[OF assms(3)] by (auto simp: represents_def path_prefix_def render_def)
qed

lemma resolve_path_follows:
  assumes "fs_ok disk fs0" and "fs_tame fs0" and g: "good disk fs0 fs" and "valid_path path"
  shows "computes disk fs0 fs (resolve_path path follow) (resolve_names (fs_world fs0) path follow)"
proof (cases "Path_is_absolute path \<and> length path \<le> MAX_PATH_LEN")
  case False
  then show ?thesis
    using computes_lift[OF g] by (auto simp: resolve_path_def resolve_names_def)
next
  case True
  then have p: "Path_is_absolute path" "length path \<le> MAX_PATH_LEN" by simp_all
  note start = path_dedup_start[OF p assms(4)]
  from computes_bind[OF stableD[OF stable_read_root[OF assms(2)] assms(1) g] resolve_loop_follows[OF assms(1,2) _ start(2)]]
  show ?thesis
    using True unfolding resolve_path_def resolve_names_def start(1) bindc_lift_Ok fs_world_sel by simp
qed

section \<open>Properties\<close>

text \<open>C3: Resolving a path does what a walk over its names does: the code's edits of a byte vector in place
  (removing the components \<open>.\<close> and \<open>..\<close>, splicing in the targets of symbolic links, removing duplicate
  separators) keep it equal to the path of the names walked and the names still to walk. The result, the
  inode with its canonical path, an error or a panic, is that of the walk, whatever the cache holds.\<close>

theorem resolve_path_refines_walk:
  assumes "fs_ok disk fs" and "fs_tame fs" and "Path_try_from path = Ok path"
  shows "fst (resolve_path path follow fs) = resolve_names (fs_world fs) path follow"
  using resolve_path_follows[OF assms(1,2) good_refl[OF assms(1)]] assms(3)
  by (simp add: computes_def Path_try_from_Ok)

text \<open>Names walked are never \<open>.\<close> or \<open>..\<close>, and all names are valid.\<close>

definition walk_ok :: "Walk \<Rightarrow> bool" where
  "walk_ok w \<longleftrightarrow> (\<forall>c \<in> set (wk_done w). is_name c \<and> c \<notin> dots) \<and> (\<forall>c \<in> set (wk_todo w). is_name c)"

lemma walk_child_ok:
  assumes "\<And>i t. wd_target W i = Ok t \<Longrightarrow> valid_path t" and "walk_ok w" and "wk_todo w \<noteq> []"
    and "walk_child W follow w child = Ok w'"
  shows "walk_ok w'"
proof -
  obtain c rest where t: "wk_todo w = c # rest" using assms(3) by (cases "wk_todo w") auto
  have bl: "set (butlast (wk_done w)) \<subseteq> set (wk_done w)" by (auto dest: in_set_butlastD)
  have ok: "\<forall>c \<in> set (wk_done w). is_name c \<and> c \<notin> dots" "is_name c" "\<forall>c \<in> set rest. is_name c"
    using assms(2) t by (auto simp: walk_ok_def)
  show ?thesis
  proof (cases "c \<in> dots")
    case True
    then show ?thesis using assms(4) t bl ok by (auto simp: walk_child_def walk_ok_def dots_def Let_def split: if_splits)
  next
    case c: False
    show ?thesis
    proof (cases "Metadata_is_symlink (in_metadata child) \<and> (follow = All \<or> rest \<noteq> [])")
      case True
      then obtain tg where tg: "wd_target W child = Ok tg" and w': "wk_todo w' = names tg @ rest" "set (wk_done w') \<subseteq> set (wk_done w)"
        using assms(4) t c unfolding walk_child_def Let_def by (auto simp: dots_def split: if_splits)
      have "\<forall>c \<in> set (names tg). is_name c" using names_valid[OF assms(1)[OF tg]] by blast
      with w' ok show ?thesis by (auto simp: walk_ok_def)
    next
      case False
      then have "w' = w\<lparr>wk_done := wk_done w @ [c], wk_inode := child, wk_todo := rest\<rparr>"
        using assms(4) t c unfolding walk_child_def Let_def t list.sel if_not_P[OF False] by (auto simp: dots_def)
      with ok c show ?thesis by (simp add: walk_ok_def)
    qed
  qed
qed

lemma walk_loop_ok:
  assumes "\<And>i t. wd_target W i = Ok t \<Longrightarrow> valid_path t"
  shows "walk_ok w \<Longrightarrow> walk_loop W follow n w = Ok w' \<Longrightarrow> walk_ok w'"
proof (induction "MAX_ITERATIONS - n" arbitrary: n w rule: less_induct)
  case less
  show ?case
  proof (cases "wk_todo w \<noteq> [] \<and> n + 1 \<le> MAX_ITERATIONS")
    case True
    then obtain w1 where w1: "walk_step W follow w = Ok w1" "walk_loop W follow (n + 1) w1 = Ok w'"
      using less.prems by (auto simp: walk_loop.simps[of W follow n w])
    then have "walk_ok w1"
      using walk_child_ok[OF assms less.prems(1)] True by (auto simp: walk_step_def split: if_splits)
    moreover have "MAX_ITERATIONS - (n + 1) < MAX_ITERATIONS - n" using True by linarith
    ultimately show ?thesis using less.hyps w1(2) by blast
  qed (use less.prems in \<open>auto simp: walk_loop.simps[of W follow n w] split: if_splits\<close>)
qed

text \<open>The path that resolution returns is canonical: it is an absolute, valid path of at least one byte
  that has no component \<open>.\<close> or \<open>..\<close>, no duplicate separators, and no separator at its end unless it is the
  root.\<close>

theorem resolved_path_canonical:
  assumes "fs_ok disk fs" and "fs_tame fs" and "Path_try_from path = Ok path"
    and "fst (resolve_path path follow fs) = Ok (inode, p)"
  shows "Path_is_absolute p \<and> Path_try_from p = Ok p \<and> (\<forall>c \<in> set (names p). c \<noteq> [0x2e] \<and> c \<noteq> [0x2e, 0x2e]) \<and>
     p = render (names p) False"
proof -
  have r: "resolve_names (fs_world fs) path follow = Ok (inode, p)"
    using resolve_path_follows[OF assms(1,2) good_refl[OF assms(1)]] assms(3,4) by (simp add: computes_def Path_try_from_Ok)
  then obtain root w where w: "walk_loop (fs_world fs) follow 0 \<lparr>wk_done = [], wk_inode = root, wk_todo = names path,
      wk_trailing = (last path = SEPARATOR), wk_symlinks = 0\<rparr> = Ok w" "p = render (wk_done w) False"
    by (auto simp: resolve_names_def split: if_splits)
  have v: "wd_target (fs_world fs) i = Ok t \<Longrightarrow> valid_path t" for i t
    by (simp add: fs_world_sel symlink_target_valid)
  have "walk_ok w"
    by (rule walk_loop_ok[OF v _ w(1)]) (use assms(3) names_valid in \<open>auto simp: walk_ok_def Path_try_from_Ok\<close>)
  then have n: "\<forall>c \<in> set (wk_done w). is_name c" "\<forall>c \<in> set (wk_done w). c \<notin> dots" by (auto simp: walk_ok_def)
  from render_facts[OF n(1)] n(2) w(2) show ?thesis by (simp add: Path_try_from_valid dots_def)
qed

lemma walk_dots_panic:
  assumes "wd_lookup W root [0x2e] = Ok child" and "Metadata_is_dir (in_metadata root)"
  shows "n \<le> MAX_ITERATIONS \<Longrightarrow> wk_inode w = root \<Longrightarrow> wk_todo w = replicate (MAX_ITERATIONS + 1 - n) [0x2e] \<Longrightarrow>
    walk_loop W follow n w = Panic"
proof (induction "MAX_ITERATIONS - n" arbitrary: n w)
  case 0
  then have "n = MAX_ITERATIONS" by simp
  with 0 show ?case by (simp add: walk_loop.simps[of W follow MAX_ITERATIONS w])
next
  case (Suc k)
  then have n: "n + 1 \<le> MAX_ITERATIONS" "k = MAX_ITERATIONS - (n + 1)" by simp_all
  then have t: "wk_todo w = [0x2e] # replicate (MAX_ITERATIONS + 1 - (n + 1)) [0x2e]"
    using Suc.prems(3) by (simp add: Suc_diff_le replicate_Suc[symmetric] del: replicate_Suc)
  let ?w = "w\<lparr>wk_todo := replicate (MAX_ITERATIONS + 1 - (n + 1)) [0x2e],
      wk_trailing := (wk_trailing w \<or> replicate (MAX_ITERATIONS + 1 - (n + 1)) ([0x2e] :: bytes) = [])\<rparr>"
  have "walk_step W follow w = Ok ?w" using assms Suc.prems t by (simp add: walk_step_def walk_child_def)
  moreover have "walk_loop W follow (n + 1) ?w = Panic" by (rule Suc.hyps(1)[OF n(2)]) (use n Suc.prems in auto)
  ultimately show ?case using n(1) t by (simp add: walk_loop.simps[of W follow n w])
qed

definition many_dots :: Path where
  "many_dots = SEPARATOR # concat (replicate 1001 [0x2e, SEPARATOR])"

lemma many_dots_names: "names many_dots = replicate 1001 [0x2e]" "length many_dots = 2003" "valid_path many_dots"
proof -
  have "names (concat (replicate k [0x2e, SEPARATOR])) = replicate k [0x2e]" for k
  proof (induction k)
    case (Suc k)
    have "names ([0x2e] @ SEPARATOR # concat (replicate k [0x2e, SEPARATOR])) = [[0x2e]] @ names (concat (replicate k [0x2e, SEPARATOR]))"
      by (simp only: names_append names_one) (simp add: names_one SEPARATOR_def)
    with Suc show ?case by simp
  qed simp
  then show "names many_dots = replicate 1001 [0x2e]" by (simp add: many_dots_def)
  have "length (concat (replicate k [0x2e, SEPARATOR])) = 2 * k" for k by (induction k) simp_all
  then show "length many_dots = 2003" by (simp add: many_dots_def)
  have "valid_path (concat (replicate k [0x2e, SEPARATOR]))" for k
  proof (induction k)
    case (Suc k)
    have "valid_path [0x2e]" by code_simp
    with Suc valid_path_append[of "[0x2e]" "concat (replicate k [0x2e, SEPARATOR])"] show ?case by simp
  qed (simp add: valid_path_def)
  from valid_path_append[of "[]" "concat (replicate 1001 [0x2e, SEPARATOR])"] this
  show "valid_path many_dots" by (simp add: many_dots_def valid_path_def)
qed

text \<open>C40: The assertion on the number of iterations can be reached: on a file system whose root directory has an
  entry for \<open>.\<close>, resolving the path of 2003 bytes that repeats \<open>./\<close> 1001 times panics, although it is within
  the limit on the length of a path and no link is followed.\<close>

theorem resolve_many_dots_panics:
  assumes "fs_ok disk fs" and "fs_tame fs" and "fst (read_root_inode fs) = Ok root"
    and "Metadata_is_dir (in_metadata root)" and "fst (get_dir_entry_inode_by_name root [0x2e] fs) = Ok child"
  shows "length many_dots \<le> MAX_PATH_LEN \<and> fst (resolve_path many_dots follow fs) = Panic"
proof -
  have l: "wd_lookup (fs_world fs) root [0x2e] = Ok child" using assms(5) by (simp add: fs_world_sel)
  have "walk_loop (fs_world fs) follow 0 \<lparr>wk_done = [], wk_inode = root, wk_todo = names many_dots,
      wk_trailing = (last many_dots = SEPARATOR), wk_symlinks = 0\<rparr> = Panic"
    by (rule walk_dots_panic[OF l assms(4)]) (simp_all add: many_dots_names MAX_ITERATIONS_def)
  moreover have "Path_is_absolute many_dots" by (simp add: many_dots_def Path_is_absolute_def)
  ultimately have "resolve_names (fs_world fs) many_dots follow = Panic"
    using assms(3) many_dots_names(2) by (simp add: resolve_names_def fs_world_sel MAX_PATH_LEN_def)
  with resolve_path_follows[OF assms(1,2) good_refl[OF assms(1)] many_dots_names(3)] many_dots_names(2)
  show ?thesis by (simp add: computes_def MAX_PATH_LEN_def)
qed

section \<open>A file system with a root directory\<close>

definition root_inode_bytes :: bytes where
  "root_inode_bytes = [0xed, 0x41, 0, 0, 0, 0x0c, 0, 0] @ replicate 24 0 @ [0, 0, 8, 0] @ replicate 4 0 @ leaf_root @ replicate 36 0 @ replicate 28 0"

definition root_block :: bytes where
  "root_block = encode_entry 2 12 Directory [0x2e] @ [0, 0, 0] @ encode_entry 2 1012 Directory [0x2e, 0x2e] @ replicate 1002 0"

definition tree_image :: bytes where
  "tree_image = replicate 5248 0 @ root_inode_bytes @ replicate 1792 0 @ root_block @ unused_block @ unused_block @ replicate 6144 0"

definition tree_root :: Inode where
  "tree_root = \<lparr>in_index = 2, in_inline_data = leaf_root @ replicate 36 0,
     in_metadata = \<lparr>md_size_in_bytes = 3072, md_mode = 0x41ed, md_file_type = Directory, md_uid = 0, md_gid = 0\<rparr>,
     in_flags = EXTENTS,
     in_checksum_base = Checksum_update_u32_le 0 (Checksum_update_u32_le 2 (Checksum_with_seed 0xffffffff)),
     in_file_size_in_blocks = 3\<rparr>"

lemma tree_image_parts:
  "disk_range (disk_of tree_image) 5248 128 = root_inode_bytes" "disk_range (disk_of tree_image) 7168 1024 = root_block"
  "disk_range (disk_of tree_image) 8192 1024 = unused_block" "disk_range (disk_of tree_image) 9216 1024 = unused_block"
  "length tree_image = 16384"
proof -
  have l: "length root_inode_bytes = 128" "length root_block = 1024" "length unused_block = 1024"
    by (simp_all add: root_inode_bytes_def leaf_root_def root_block_def unused_block_def encode_entry_def)
  let ?a = "replicate 5248 0 :: bytes" and ?b = "replicate 1792 0 :: bytes" and ?z = "replicate 6144 0 :: bytes"
  show "disk_range (disk_of tree_image) 5248 128 = root_inode_bytes"
    using disk_range_disk_of[of ?a root_inode_bytes "?b @ root_block @ unused_block @ unused_block @ ?z"] l
    by (simp add: tree_image_def)
  show "disk_range (disk_of tree_image) 7168 1024 = root_block"
    using disk_range_disk_of[of "?a @ root_inode_bytes @ ?b" root_block "unused_block @ unused_block @ ?z"] l
    by (simp add: tree_image_def)
  show "disk_range (disk_of tree_image) 8192 1024 = unused_block"
    using disk_range_disk_of[of "?a @ root_inode_bytes @ ?b @ root_block" unused_block "unused_block @ ?z"] l
    by (simp add: tree_image_def)
  show "disk_range (disk_of tree_image) 9216 1024 = unused_block"
    using disk_range_disk_of[of "?a @ root_inode_bytes @ ?b @ root_block @ unused_block" unused_block ?z] l
    by (simp add: tree_image_def)
  show "length tree_image = 16384" using l by (simp add: tree_image_def)
qed

lemma tree_root_parses: "Inode_from_bytes (sample_fs img) 2 root_inode_bytes = Ok (tree_root, 0)"
proof -
  have l: "length root_inode_bytes = 128" by (simp add: root_inode_bytes_def leaf_root_def)
  have f: "u16le_at root_inode_bytes 0 = 0x41ed" "u16le_at root_inode_bytes 2 = 0" "u32le_at root_inode_bytes 4 = 3072"
    "u16le_at root_inode_bytes 0x18 = 0" "u32le_at root_inode_bytes 0x20 = 0x80000" "u32le_at root_inode_bytes 0x64 = 0"
    "u32le_at root_inode_bytes 0x6c = 0" "u16le_at root_inode_bytes 0x78 = 0" "u16le_at root_inode_bytes 0x7a = 0"
    by (simp_all add: u16le_at_nth u32le_at_nth l) (simp_all add: root_inode_bytes_def leaf_root_def nth_append)
  have b: "get_range root_inode_bytes 0x28 100 = Some (leaf_root @ replicate 36 0)"
    by (simp add: get_range_def root_inode_bytes_def leaf_root_def)
  have "FileType_try_from 0x41ed = Ok Directory" by code_simp
  then show ?thesis
    using l by (simp add: Inode_from_bytes_def f b require_def has_metadata_checksums_def sample_superblock_def contains_def
        tree_root_def u64_from_hilo_def u32_from_hilo_def INLINE_DATA_LEN_def usize_max_def Let_def word_try_from_def div_ceil_def
        BlockSize_to_u64_def del: bind_o_eq_Ok)
qed

lemma tree_fs_tame: "fs_tame (sample_fs tree_image)"
  by (rule sample_fs_tame[OF tree_image_parts(5)])

lemma root_inode_2:
  assumes "length img = 16384" and "disk_range (disk_of img) 5248 128 = root_inode_bytes"
  shows "inode_spec (disk_of img) (sample_fs img) 2 = Ok tree_root"
proof -
  have "get_inode_location (sample_fs img) 2 = Ok (5, 128)"
    by (simp add: get_inode_location_def sample_superblock_def checked_sub_def checked_mul_def checked_add_def get_at_def
        BlockSize_to_u64_def word_try_from_def usize_from_u32_def Let_def)
  moreover have "block_read_spec (disk_of img) (sample_fs img) 5 128 128 = Ok root_inode_bytes"
    using assms(2) by (simp add: block_read_spec_def readable_def sample_superblock_def)
  moreover have "inode_verify (sample_fs img) 2 root_inode_bytes = Ok tree_root"
    using tree_root_parses[of img] by (simp add: inode_verify_def has_metadata_checksums_def sample_superblock_def contains_def)
  ultimately show ?thesis by (simp add: inode_spec_def sample_superblock_def)
qed

lemmas tree_inode_2 = root_inode_2[OF tree_image_parts(5,1)]

lemma root_read:
  assumes "length img = 16384" and "disk_range (disk_of img) 5248 128 = root_inode_bytes"
  shows "fst (read_root_inode (sample_fs img)) = Ok tree_root"
proof -
  have "computes (disk_of img) (sample_fs img) (sample_fs img) (Inode_read 2) (Ok tree_root)"
    using Inode_read_computes[OF _ _ good_refl[OF sample_fs_ok], of img 2] sample_fs_tame[OF assms(1)] root_inode_2[OF assms]
    by (simp add: fs_tame_def)
  then show ?thesis by (simp add: read_root_inode_def nonzero_new_def bindc_lift_Ok computes_def)
qed

lemmas tree_root_read = root_read[OF tree_image_parts(5,1)]

lemma root_blocks:
  assumes "length img = 16384"
  shows "inode_blocks (disk_of img) (sample_fs img) tree_root [7, 8, 9]"
proof -
  have e: "Extents_new tree_root = Ok (leaf_extents\<lparr>et_inode := 2, et_checksum_base := in_checksum_base tree_root\<rparr>)"
    by (simp add: Extents_new_def ToVisitItem_new_def NodeHeader_from_bytes_def leaf_root_def tree_root_def
      leaf_item_def leaf_extents_def NodeHeader_node_size_in_bytes_def add_one_mul_entry_size_eq require_def
      ENTRY_SIZE_IN_BYTES_def usize_max_def u16le_at_nth cong: bind_o_weak_cong del: bind_o_eq_Ok)
  have w: "walk (inode_child (disk_of img) (sample_fs img) tree_root)
      (hd (et_to_visit (leaf_extents\<lparr>et_inode := 2, et_checksum_base := in_checksum_base tree_root\<rparr>))) htree_extents None"
    by (simp add: leaf_extents_def leaf_walk)
  obtain eb where eb: "ExtentsBlocks_new tree_root = Ok eb" using e by (simp add: ExtentsBlocks_new_def del: bind_o_eq_Ok)
  have "contains (in_flags tree_root) EXTENTS" by (simp add: tree_root_def contains_def)
  moreover have "map (\<lambda>k. 7 + of_nat k) [0..<3] = ([7, 8, 9] :: u64 list)" by code_simp
  ultimately show ?thesis
    using inode_blocks_extents[OF sample_fs_ok sample_fs_complete[OF assms] _ eb e w]
    by (simp add: cut_blocks_def) (simp add: tree_root_def)
qed

lemmas tree_root_blocks = root_blocks[OF tree_image_parts(5)]

lemma tree_blocks_read:
  assumes "b \<in> {7, 8, 9}"
  shows "dir_block_spec (disk_of tree_image) (sample_fs tree_image) (dir_block_at tree_root first b) =
     Ok (if b = 7 then root_block else unused_block)"
  using assms tree_image_parts
  by (auto simp: dir_block_spec_def block_read_spec_def readable_def verify_block_def has_metadata_checksums_def
      sample_superblock_def contains_def dir_block_at_def)

lemma tree_root_searchable: "searchable (disk_of tree_image) (sample_fs tree_image) tree_root [7, 8, 9]"
  using tree_root_blocks
  by (simp add: searchable_def dir_ok_def tree_blocks_read)
     (simp add: tree_root_def Metadata_is_dir_def is_dir_def contains_def)

lemma root_block_entries:
  "scan_entries i [] root_block 0 = ([entry_of 2 Directory [0x2e], entry_of 2 Directory [0x2e, 0x2e]], None)"
proof -
  obtain b1 b2 where b: "DirEntryNameBuf_try_from [0x2e] = Ok b1" "DirEntryNameBuf_try_from [0x2e, 0x2e] = Ok b2"
    by (simp add: DirEntryNameBuf_try_from_def DirEntryName_try_from_def word_try_from_def MAX_LEN_def SEPARATOR_def Let_def)
  have l: "length root_block = 1024" by (simp add: root_block_def encode_entry_def)
  have d: "drop 12 root_block = encode_entry 2 1012 Directory [0x2e, 0x2e] @ replicate 1002 0"
    by (simp add: root_block_def encode_entry_def)
  have 1: "DirEntry_from_bytes root_block i [] = Ok (Some (entry_of 2 Directory [0x2e]), 12)"
    using dir_entry_roundtrip[OF b(1), of 2 12 Directory "[0, 0, 0] @ encode_entry 2 1012 Directory [0x2e, 0x2e] @ replicate 1002 0" i "[]"] b(1)
    by (simp add: root_block_def entry_of_def)
  have 2: "DirEntry_from_bytes (drop 12 root_block) i [] = Ok (Some (entry_of 2 Directory [0x2e, 0x2e]), 1012)"
    unfolding d using dir_entry_roundtrip[OF b(2), of 2 1012 Directory "replicate 1002 0" i "[]"] b(2) by (simp add: entry_of_def)
  from 1 2 l show ?thesis
    using scan_step[of 0 root_block i "[]"] scan_step[of 12 root_block i "[]"] scan_end[of root_block 1024 i "[]"] by simp
qed

lemma tree_lookup_dot: "fst (get_dir_entry_inode_by_name tree_root [0x2e] (sample_fs tree_image)) = Ok tree_root"
proof -
  have n: "DirEntryName_try_from [0x2e] = Ok [0x2e]" by code_simp
  have "blocks_entries (disk_of tree_image) (sample_fs tree_image) tree_root [] True [7, 8, 9] None =
      ([entry_of 2 Directory [0x2e], entry_of 2 Directory [0x2e, 0x2e]], None)"
    by (simp add: block_entries_def tree_blocks_read root_block_entries unused_block_entries)
  then have "dir_lookup (disk_of tree_image) (sample_fs tree_image) tree_root [7, 8, 9] [0x2e] = Ok tree_root"
    using entry_name[OF n] tree_inode_2 by (simp add: dir_lookup_def find_entry_simps) (simp add: entry_of_def)
  with dir_lookup_computes[OF _ _ sample_fs_ok tree_root_searchable, of "[0x2e]"] tree_fs_tame
  show ?thesis by (simp add: fs_tame_def computes_def)
qed

lemma tree_root_is_dir: "Metadata_is_dir (in_metadata tree_root)"
  by (simp add: tree_root_def Metadata_is_dir_def is_dir_def)

theorem resolve_many_dots_panics_witness: "fst (resolve_path many_dots All (sample_fs tree_image)) = Panic"
  using resolve_many_dots_panics[OF sample_fs_ok tree_fs_tame tree_root_read tree_root_is_dir tree_lookup_dot] by blast

lemma tree_resolves_dot: "resolve_names (fs_world (sample_fs tree_image)) [0x2f, 0x2e] All = Ok (tree_root, [0x2f])"
proof -
  have n: "names [0x2f, 0x2e] = [[0x2e]]" by code_simp
  have "walk_step (fs_world (sample_fs tree_image)) All \<lparr>wk_done = [], wk_inode = tree_root, wk_todo = [[0x2e]], wk_trailing = False,
      wk_symlinks = 0\<rparr> = Ok \<lparr>wk_done = [], wk_inode = tree_root, wk_todo = [], wk_trailing = True, wk_symlinks = 0\<rparr>"
    using tree_lookup_dot tree_root_is_dir by (simp add: walk_step_def walk_child_def fs_world_sel)
  then have "walk_loop (fs_world (sample_fs tree_image)) All 0 \<lparr>wk_done = [], wk_inode = tree_root, wk_todo = [[0x2e]],
      wk_trailing = False, wk_symlinks = 0\<rparr> = Ok \<lparr>wk_done = [], wk_inode = tree_root, wk_todo = [], wk_trailing = True, wk_symlinks = 0\<rparr>"
    by (simp add: walk_loop.simps MAX_ITERATIONS_def)
  then show ?thesis
    using tree_root_read n
    by (simp add: resolve_names_def fs_world_sel Path_is_absolute_def SEPARATOR_def MAX_PATH_LEN_def render_def)
qed

theorem resolve_path_refines_walk_witness:
  "fst (resolve_path [0x2f, 0x2e] All (sample_fs tree_image)) = Ok (tree_root, [0x2f])"
proof -
  have "Path_try_from [0x2f, 0x2e] = Ok [0x2f, 0x2e]" by code_simp
  from resolve_path_refines_walk[OF sample_fs_ok tree_fs_tame this, of All] tree_resolves_dot show ?thesis by simp
qed

theorem resolved_path_canonical_witness:
  "\<exists>p. fst (resolve_path [0x2f, 0x2e] All (sample_fs tree_image)) = Ok (tree_root, p) \<and> p = render (names p) False"
proof -
  have v: "Path_try_from [0x2f, 0x2e] = Ok [0x2f, 0x2e]" "valid_path [0x2f, 0x2e]" by code_simp+
  have "fst (resolve_path [0x2f, 0x2e] All (sample_fs tree_image)) = Ok (tree_root, [0x2f])"
    using resolve_path_follows[OF sample_fs_ok tree_fs_tame good_refl[OF sample_fs_ok] v(2), of All] tree_resolves_dot
    by (simp add: computes_def)
  with resolved_path_canonical[OF sample_fs_ok tree_fs_tame v(1) this] show ?thesis by blast
qed

end
