(* ===== verification/Journal_Blocks.thy ===== *)
theory Journal_Blocks
  imports Fs_Core Result_Iter
begin

text \<open>
  The blocks of the journal: the header that every block of the log starts with
  (\<^verbatim>\<open>src/src/journal/block_header.rs\<close>), the journal's superblock (\<^verbatim>\<open>journal/superblock.rs\<close>), descriptor
  blocks with their tags (\<^verbatim>\<open>journal/descriptor_block.rs\<close>), revocation blocks
  (\<^verbatim>\<open>journal/revocation_block.rs\<close>) and commit blocks (\<^verbatim>\<open>journal/commit_block.rs\<close>). Unlike the rest of
  ext4 the journal is big-endian.
\<close>

section \<open>Block header\<close>

record JournalBlockHeader =
  jh_block_type :: u32
  jh_sequence :: u32

definition JOURNAL_MAGIC :: u32 where
  "JOURNAL_MAGIC = 0xc03b3998"

definition HEADER_SIZE :: usize where
  "HEADER_SIZE = 12"

abbreviation (input) DESCRIPTOR :: u32 where "DESCRIPTOR \<equiv> 1"
abbreviation (input) COMMIT :: u32 where "COMMIT \<equiv> 2"
abbreviation (input) SUPERBLOCK_V2 :: u32 where "SUPERBLOCK_V2 \<equiv> 4"
abbreviation (input) REVOCATION :: u32 where "REVOCATION \<equiv> 5"

definition JournalBlockHeader_read_bytes :: "bytes \<Rightarrow> JournalBlockHeader option result" where
  "JournalBlockHeader_read_bytes bytes =
     bind_o (read_u32be bytes 0x0) (\<lambda>h_magic.
     if h_magic \<noteq> JOURNAL_MAGIC then Ok None
     else
       bind_o (read_u32be bytes 0x4) (\<lambda>h_blocktype.
       bind_o (read_u32be bytes 0x8) (\<lambda>h_sequence.
       Ok (Some \<lparr>jh_block_type = h_blocktype, jh_sequence = h_sequence\<rparr>))))"

section \<open>Superblock\<close>

definition SUPERBLOCK_SIZE :: usize where
  "SUPERBLOCK_SIZE = 1024"

definition CHECKSUM_TYPE_CRC32C :: u8 where
  "CHECKSUM_TYPE_CRC32C = 4"

text \<open>Journal features: \<open>BLOCK_REVOCATIONS = 0x1\<close>, \<open>IS_64BIT = 0x2\<close>, \<open>CHECKSUM_V3 = 0x10\<close>.\<close>

definition REQUIRED_FEATURES :: u32 where
  "REQUIRED_FEATURES = 0x2 OR 0x10"

definition ALLOWED_FEATURES :: u32 where
  "ALLOWED_FEATURES = 0x1"

definition journal_check_incompat_features :: "u32 \<Rightarrow> (unit, IncompatibleKind) outcome" where
  "journal_check_incompat_features s_feature_incompat =
     (let present = s_feature_incompat;
          present_required = present AND REQUIRED_FEATURES in
      if present_required \<noteq> REQUIRED_FEATURES then
        Err (MissingRequiredJournalFeatures (REQUIRED_FEATURES AND NOT present))
      else
        let unsupported = NOT (REQUIRED_FEATURES OR ALLOWED_FEATURES);
            present_unsupported = present AND unsupported in
        if present_unsupported \<noteq> 0 then Err (UnsupportedJournalFeatures present_unsupported)
        else Ok ())"

record JournalSuperblock =
  js_block_size :: u32
  js_sequence :: u32
  js_start_block :: u32
  js_uuid :: Uuid

definition JournalSuperblock_read_bytes :: "crc_fn \<Rightarrow> bytes \<Rightarrow> JournalSuperblock result" where
  "JournalSuperblock_read_bytes crc bytes =
     bind_o (assert_o (length bytes = SUPERBLOCK_SIZE)) (\<lambda>_.
     bind_o (JournalBlockHeader_read_bytes bytes) (\<lambda>header.
     bind_o (ok_or (Corrupt JournalMagic) header) (\<lambda>header.
     bind_o (require (jh_block_type header = SUPERBLOCK_V2)
               (Incompatible (JournalSuperblockType (jh_block_type header)))) (\<lambda>_.
     bind_o (read_u32be bytes 0xc) (\<lambda>s_blocksize.
     bind_o (read_u32be bytes 0x18) (\<lambda>s_sequence.
     bind_o (read_u32be bytes 0x1c) (\<lambda>s_start.
     bind_o (read_u32be bytes 0x28) (\<lambda>s_feature_incompat.
     bind_o (slice bytes 0x30 (0x30 + 16)) (\<lambda>s_uuid.
     bind_o (index_at bytes 0x50) (\<lambda>s_checksum_type.
     bind_o (read_u32be bytes 0xfc) (\<lambda>s_checksum.
     bind_o (map_err Incompatible (journal_check_incompat_features s_feature_incompat)) (\<lambda>_.
     bind_o (require (s_checksum_type = CHECKSUM_TYPE_CRC32C)
               (Incompatible (JournalChecksumType s_checksum_type))) (\<lambda>_.
     bind_o (slice bytes 0 0xfc) (\<lambda>before.
     bind_o (slice bytes (0xfc + 4) SUPERBLOCK_SIZE) (\<lambda>after.
     let checksum = Checksum_update after (Checksum_update_u32_le 0 (Checksum_update before Checksum_new)) in
     bind_o (require (Checksum_finalize crc checksum = s_checksum) (Corrupt JournalSuperblockChecksum)) (\<lambda>_.
     bind_o (assert_o (length s_uuid = 16)) (\<lambda>_.
     Ok \<lparr>js_block_size = s_blocksize, js_sequence = s_sequence, js_start_block = s_start, js_uuid = s_uuid\<rparr>)))))))))))))))))"

section \<open>Checksums of the blocks of the log\<close>

definition validate_descriptor_block_checksum :: "crc_fn \<Rightarrow> JournalSuperblock \<Rightarrow> bytes \<Rightarrow> unit result" where
  "validate_descriptor_block_checksum crc superblock block =
     bind_o (unwrap (usize_sub (length block) 4)) (\<lambda>checksum_offset.
     bind_o (read_u32be block checksum_offset) (\<lambda>expected_checksum.
     bind_o (slice block 0 checksum_offset) (\<lambda>data.
     let checksum = Checksum_update_u32_be 0 (Checksum_update data (Checksum_update (js_uuid superblock) Checksum_new)) in
     if Checksum_finalize crc checksum = expected_checksum then Ok ()
     else Err (Corrupt JournalDescriptorBlockChecksum))))"

definition validate_revocation_block_checksum :: "crc_fn \<Rightarrow> JournalSuperblock \<Rightarrow> bytes \<Rightarrow> unit result" where
  "validate_revocation_block_checksum crc superblock block =
     bind_o (unwrap (usize_sub (length block) 4)) (\<lambda>checksum_offset.
     bind_o (read_u32be block checksum_offset) (\<lambda>expected_checksum.
     bind_o (slice block 0 checksum_offset) (\<lambda>data.
     let checksum = Checksum_update_u32_be 0 (Checksum_update data (Checksum_update (js_uuid superblock) Checksum_new)) in
     if Checksum_finalize crc checksum = expected_checksum then Ok ()
     else Err (Corrupt JournalRevocationBlockChecksum))))"

definition validate_commit_block_checksum :: "crc_fn \<Rightarrow> JournalSuperblock \<Rightarrow> bytes \<Rightarrow> unit result" where
  "validate_commit_block_checksum crc superblock block =
     bind_o (read_u32be block 16) (\<lambda>expected_checksum.
     bind_o (slice block 0 16) (\<lambda>before.
     bind_o (slice block (16 + 4) (length block)) (\<lambda>after.
     let checksum = Checksum_update after (Checksum_update (replicate 4 0)
           (Checksum_update before (Checksum_update (js_uuid superblock) Checksum_new))) in
     if Checksum_finalize crc checksum = expected_checksum then Ok ()
     else Err (Corrupt JournalCommitBlockChecksum))))"

section \<open>Tags of a descriptor block\<close>

record DescriptorBlockTag =
  dt_block_index :: FsBlockIndex
  dt_checksum :: u32
  dt_flags :: u32

abbreviation (input) ESCAPED :: u32 where "ESCAPED \<equiv> 0x1"
abbreviation (input) UUID_OMITTED :: u32 where "UUID_OMITTED \<equiv> 0x2"
abbreviation (input) LAST_TAG :: u32 where "LAST_TAG \<equiv> 0x8"

definition SIZE_WITHOUT_UUID :: usize where
  "SIZE_WITHOUT_UUID = 16"

definition SIZE_WITH_UUID :: usize where
  "SIZE_WITH_UUID = 32"

definition DescriptorBlockTag_encoded_size :: "DescriptorBlockTag \<Rightarrow> usize" where
  "DescriptorBlockTag_encoded_size self =
     (if contains (dt_flags self) UUID_OMITTED then SIZE_WITHOUT_UUID else SIZE_WITH_UUID)"

definition DescriptorBlockTag_read_bytes :: "bytes \<Rightarrow> DescriptorBlockTag option result" where
  "DescriptorBlockTag_read_bytes bytes =
     (if length bytes < SIZE_WITHOUT_UUID then Ok None
      else
        bind_o (read_u32be bytes 0) (\<lambda>t_blocknr.
        bind_o (read_u32be bytes 4) (\<lambda>t_flags.
        bind_o (read_u32be bytes 8) (\<lambda>t_blocknr_high.
        bind_o (read_u32be bytes 12) (\<lambda>t_checksum.
        if \<not> contains t_flags UUID_OMITTED \<and> length bytes < SIZE_WITH_UUID then Ok None
        else Ok (Some \<lparr>dt_block_index = u64_from_hilo t_blocknr_high t_blocknr,
               dt_checksum = t_checksum, dt_flags = t_flags\<rparr>))))))"

record DescriptorBlockTagIter =
  ti_bytes :: bytes
  ti_is_done :: bool

definition DescriptorBlockTagIter_new :: "bytes \<Rightarrow> DescriptorBlockTagIter" where
  "DescriptorBlockTagIter_new bytes = \<lparr>ti_bytes = bytes, ti_is_done = False\<rparr>"

text \<open>An item \<open>Some(Err(e))\<close> is \<open>Err e\<close>.\<close>

definition DescriptorBlockTagIter_next :: "(DescriptorBlockTagIter, DescriptorBlockTag option, Ext4Error) comp" where
  "DescriptorBlockTagIter_next =
     bindc (gets (\<lambda>self. self)) (\<lambda>self.
     if ti_is_done self then ret None
     else
       bindc (lift (DescriptorBlockTag_read_bytes (ti_bytes self))) (\<lambda>tag.
       case tag of
         None \<Rightarrow>
           bindc (modify (\<lambda>self. self\<lparr>ti_is_done := True\<rparr>)) (\<lambda>_.
           lift (Err (Corrupt JournalDescriptorBlockTruncated)))
       | Some tag \<Rightarrow>
           if contains (dt_flags tag) ESCAPED then
             bindc (modify (\<lambda>self. self\<lparr>ti_is_done := True\<rparr>)) (\<lambda>_.
             lift (Err (Incompatible JournalBlockEscaped)))
           else if contains (dt_flags tag) LAST_TAG then
             bindc (modify (\<lambda>self. self\<lparr>ti_is_done := True\<rparr>)) (\<lambda>_.
             ret (Some tag))
           else
             bindc (lift (slice (ti_bytes self) (DescriptorBlockTag_encoded_size tag) (length (ti_bytes self)))) (\<lambda>rest.
             bindc (modify (\<lambda>self. self\<lparr>ti_bytes := rest\<rparr>)) (\<lambda>_.
             ret (Some tag)))))"

section \<open>Table of a revocation block\<close>

definition BLOCK_INDEX_SIZE_IN_BYTES :: usize where
  "BLOCK_INDEX_SIZE_IN_BYTES = 8"

function revocation_loop :: "bytes \<Rightarrow> FsBlockIndex list \<Rightarrow> FsBlockIndex list result" where
  "revocation_loop data table =
     (if data = [] then Ok table
      else
        bind_o (slice data 0 BLOCK_INDEX_SIZE_IN_BYTES) (\<lambda>entry.
        let table = table @ [from_be_bytes entry] in
        revocation_loop (drop BLOCK_INDEX_SIZE_IN_BYTES data) table))"
  by pat_completeness auto
termination
  by (relation "measure (\<lambda>(data, _). length data)") (auto simp: BLOCK_INDEX_SIZE_IN_BYTES_def)

declare revocation_loop.simps [simp del]

definition read_revocation_block_table :: "bytes \<Rightarrow> FsBlockIndex list \<Rightarrow> FsBlockIndex list result" where
  "read_revocation_block_table block table =
     bind_o (unwrap (usize_sub (length block) 4)) (\<lambda>end_offset.
     bind_o (slice block HEADER_SIZE end_offset) (\<lambda>data.
     bind_o (read_u32be data 0) (\<lambda>n.
     let num_bytes = usize_from_u32 n in
     if num_bytes mod BLOCK_INDEX_SIZE_IN_BYTES \<noteq> 0 then
       Err (Corrupt (JournalRevocationBlockInvalidTableSize num_bytes))
     else
       bind_o (slice data 4 (length data)) (\<lambda>data.
       bind_o (ok_or (Corrupt (JournalRevocationBlockInvalidTableSize num_bytes)) (get_range data 0 num_bytes)) (\<lambda>data.
       revocation_loop data table)))))"

section \<open>Headers\<close>

text \<open>What a block of at least twelve bytes starts with.\<close>

definition header_of :: "bytes \<Rightarrow> JournalBlockHeader option" where
  "header_of block = (if u32be_at block 0 = JOURNAL_MAGIC
     then Some \<lparr>jh_block_type = u32be_at block 4, jh_sequence = u32be_at block 8\<rparr> else None)"

lemma JournalBlockHeader_read_bytes_eq:
  "12 \<le> length bytes \<Longrightarrow> JournalBlockHeader_read_bytes bytes = Ok (header_of bytes)"
  by (simp add: JournalBlockHeader_read_bytes_def header_of_def usize_max_def)

section \<open>The tags of a descriptor block\<close>

text \<open>The tag at the start of a byte string, and the tags up to the last one or to an error.\<close>

definition tag_at :: "bytes \<Rightarrow> DescriptorBlockTag" where
  "tag_at bytes = \<lparr>dt_block_index = u64_from_hilo (u32be_at bytes 8) (u32be_at bytes 0),
     dt_checksum = u32be_at bytes 12, dt_flags = u32be_at bytes 4\<rparr>"

definition tag_fits :: "bytes \<Rightarrow> bool" where
  "tag_fits bytes \<longleftrightarrow> 16 \<le> length bytes \<and> DescriptorBlockTag_encoded_size (tag_at bytes) \<le> length bytes"

lemma encoded_size_pos: "16 \<le> DescriptorBlockTag_encoded_size t"
  by (simp add: DescriptorBlockTag_encoded_size_def SIZE_WITHOUT_UUID_def SIZE_WITH_UUID_def)

function tags_of :: "bytes \<Rightarrow> (DescriptorBlockTag, Ext4Error) out_seq" where
  "tags_of bytes =
     (if \<not> tag_fits bytes then ([], Some (Corrupt JournalDescriptorBlockTruncated))
      else if contains (dt_flags (tag_at bytes)) ESCAPED then ([], Some (Incompatible JournalBlockEscaped))
      else if contains (dt_flags (tag_at bytes)) LAST_TAG then ([tag_at bytes], None)
      else out_append ([tag_at bytes], None) (tags_of (drop (DescriptorBlockTag_encoded_size (tag_at bytes)) bytes)))"
  by pat_completeness auto
termination
proof (relation "measure length")
  fix bytes assume "\<not> \<not> tag_fits bytes"
  with encoded_size_pos[of "tag_at bytes"]
  show "(drop (DescriptorBlockTag_encoded_size (tag_at bytes)) bytes, bytes) \<in> measure length"
    by (auto simp: tag_fits_def)
qed simp

declare tags_of.simps [simp del]

lemma tag_fits_alt:
  "tag_fits bytes \<longleftrightarrow> 16 \<le> length bytes \<and> (contains (u32be_at bytes 4) UUID_OMITTED \<or> 32 \<le> length bytes)"
  by (auto simp: tag_fits_def DescriptorBlockTag_encoded_size_def tag_at_def SIZE_WITHOUT_UUID_def SIZE_WITH_UUID_def)

lemma DescriptorBlockTag_read_bytes_eq:
  "DescriptorBlockTag_read_bytes bytes = Ok (if tag_fits bytes then Some (tag_at bytes) else None)"
  by (auto simp: DescriptorBlockTag_read_bytes_def tag_fits_alt tag_at_def SIZE_WITHOUT_UUID_def
      SIZE_WITH_UUID_def usize_max_def)

text \<open>One step of the iterator.\<close>

lemma tag_iter_step:
  assumes "\<not> ti_is_done it"
  shows "DescriptorBlockTagIter_next it =
    (if \<not> tag_fits (ti_bytes it) then (Err (Corrupt JournalDescriptorBlockTruncated), it\<lparr>ti_is_done := True\<rparr>)
     else if contains (dt_flags (tag_at (ti_bytes it))) ESCAPED
       then (Err (Incompatible JournalBlockEscaped), it\<lparr>ti_is_done := True\<rparr>)
     else if contains (dt_flags (tag_at (ti_bytes it))) LAST_TAG
       then (Ok (Some (tag_at (ti_bytes it))), it\<lparr>ti_is_done := True\<rparr>)
     else (Ok (Some (tag_at (ti_bytes it))),
       it\<lparr>ti_bytes := drop (DescriptorBlockTag_encoded_size (tag_at (ti_bytes it))) (ti_bytes it)\<rparr>))"
  using assms
  by (auto simp: DescriptorBlockTagIter_next_def comp_defs DescriptorBlockTag_read_bytes_eq tag_fits_def
      slice_def get_range_def)

lemma tag_iter_done: "ti_is_done it \<Longrightarrow> DescriptorBlockTagIter_next it = (Ok None, it)"
  by (simp add: DescriptorBlockTagIter_next_def comp_defs)

lemma tag_iter_shrinks:
  assumes "DescriptorBlockTagIter_next it = (Ok (Some t), it')"
  shows "(if ti_is_done it' then 0 else Suc (length (ti_bytes it'))) < (if ti_is_done it then 0 else Suc (length (ti_bytes it)))"
proof (cases "ti_is_done it")
  case True
  with assms show ?thesis by (simp add: tag_iter_done)
next
  case False
  with assms encoded_size_pos[of "tag_at (ti_bytes it)"] show ?thesis
    by (auto simp: tag_iter_step tag_fits_def split: if_splits)
qed

lemma tag_iter_outputs_from:
  "\<not> ti_is_done it \<Longrightarrow> outputs DescriptorBlockTagIter_next it (tags_of (ti_bytes it))"
proof (induction "ti_bytes it" arbitrary: it rule: tags_of.induct)
  case (1 it)
  note s = tag_iter_step[OF 1(2)]
  consider (short) "\<not> tag_fits (ti_bytes it)" | (esc) "tag_fits (ti_bytes it)" "contains (dt_flags (tag_at (ti_bytes it))) ESCAPED"
    | (final) "tag_fits (ti_bytes it)" "\<not> contains (dt_flags (tag_at (ti_bytes it))) ESCAPED" "contains (dt_flags (tag_at (ti_bytes it))) LAST_TAG"
    | (more) "tag_fits (ti_bytes it)" "\<not> contains (dt_flags (tag_at (ti_bytes it))) ESCAPED" "\<not> contains (dt_flags (tag_at (ti_bytes it))) LAST_TAG"
    by blast
  then show ?case
  proof cases
    case more
    let ?it = "it\<lparr>ti_bytes := drop (DescriptorBlockTag_encoded_size (tag_at (ti_bytes it))) (ti_bytes it)\<rparr>"
    have "outputs DescriptorBlockTagIter_next ?it (tags_of (ti_bytes ?it))" by (rule 1(1)) (use more 1(2) in simp_all)
    with s more show ?thesis
      by (subst tags_of.simps) (auto intro!: outputs_Cons[of _ _ _ ?it])
  next
    case final
    have "outputs DescriptorBlockTagIter_next (it\<lparr>ti_is_done := True\<rparr>) ([], None)"
      by (rule outputs_Nil[OF tag_iter_done]) simp
    with s final show ?thesis by (subst tags_of.simps) (auto intro!: outputs_Cons[of _ _ _ "it\<lparr>ti_is_done := True\<rparr>"])
  qed (auto simp: s tags_of.simps[of "ti_bytes it"] outputs_def intro!: exI yields_err)
qed

lemma tag_iter_outputs:
  "outputs DescriptorBlockTagIter_next (DescriptorBlockTagIter_new bytes) (tags_of bytes)"
  using tag_iter_outputs_from[of "DescriptorBlockTagIter_new bytes"] by (simp add: DescriptorBlockTagIter_new_def)

section \<open>Round trips\<close>

lemma length_to_be_bytes [simp]: "length (to_be_bytes (w :: 'a::len word)) = LENGTH('a) div 8"
  by (simp add: to_be_bytes_def)

lemma from_to_be_bytes: "8 dvd LENGTH('a) \<Longrightarrow> from_be_bytes (to_be_bytes (w :: 'a::len word)) = w"
  by (auto simp: from_be_bytes_def to_be_bytes_def to_le_bytes_def intro: from_to_le_bytes)

lemma u32be_at_append:
  "length xs = i \<Longrightarrow> u32be_at (xs @ to_be_bytes (w :: u32) @ rest) i = w"
  by (simp add: u32be_at_def from_to_be_bytes)

lemma u64_hilo_id: "u64_from_hilo (ucast (drop_bit 32 w)) (ucast (w :: u64)) = w"
  by (rule bit_word_eqI)
     (auto simp: u64_from_hilo_def bit_or_iff bit_push_bit_iff bit_ucast_iff bit_drop_bit_eq)

text \<open>The encoding of a tag; a tag without the flag \<open>UUID_OMITTED\<close> is followed by the UUID of the journal.\<close>

definition encode_tag :: "Uuid \<Rightarrow> DescriptorBlockTag \<Rightarrow> bytes" where
  "encode_tag uuid t =
     to_be_bytes (ucast (dt_block_index t) :: u32) @ to_be_bytes (dt_flags t) @
     to_be_bytes (ucast (drop_bit 32 (dt_block_index t)) :: u32) @ to_be_bytes (dt_checksum t) @
     (if contains (dt_flags t) UUID_OMITTED then [] else uuid)"

lemma encode_tag_length:
  "length uuid = 16 \<Longrightarrow> length (encode_tag uuid t) = DescriptorBlockTag_encoded_size t"
  by (simp add: encode_tag_def DescriptorBlockTag_encoded_size_def SIZE_WITHOUT_UUID_def SIZE_WITH_UUID_def)

lemma tag_at_encode: "tag_at (encode_tag uuid t @ rest) = t"
proof -
  let ?b = "encode_tag uuid t @ rest"
  have "u32be_at ?b 0 = ucast (dt_block_index t)"
    using u32be_at_append[of "[]" 0] by (simp add: encode_tag_def)
  moreover have "u32be_at ?b 4 = dt_flags t"
    using u32be_at_append[of "to_be_bytes (ucast (dt_block_index t) :: u32)" 4] by (simp add: encode_tag_def)
  moreover have "u32be_at ?b 8 = ucast (drop_bit 32 (dt_block_index t))"
    using u32be_at_append[of "to_be_bytes (ucast (dt_block_index t) :: u32) @ to_be_bytes (dt_flags t)" 8]
    by (simp add: encode_tag_def)
  moreover have "u32be_at ?b 12 = dt_checksum t"
    using u32be_at_append[of "to_be_bytes (ucast (dt_block_index t) :: u32) @ to_be_bytes (dt_flags t) @
        to_be_bytes (ucast (drop_bit 32 (dt_block_index t)) :: u32)" 12]
    by (simp add: encode_tag_def)
  ultimately show ?thesis by (simp add: tag_at_def u64_hilo_id)
qed

lemma tag_fits_encode: "length uuid = 16 \<Longrightarrow> tag_fits (encode_tag uuid t @ rest)"
  using encoded_size_pos[of t] by (simp add: tag_fits_def tag_at_encode encode_tag_length)

lemma tags_of_encode:
  assumes "length uuid = 16" and "list_all (\<lambda>t. \<not> contains (dt_flags t) ESCAPED \<and> \<not> contains (dt_flags t) LAST_TAG) ts"
    and "\<not> contains (dt_flags t) ESCAPED" and "contains (dt_flags t) LAST_TAG"
  shows "tags_of (concat (map (encode_tag uuid) ts) @ encode_tag uuid t @ rest) = (ts @ [t], None)"
  using assms(2)
proof (induction ts)
  case Nil
  then show ?case using assms by (simp add: tags_of.simps[of "encode_tag _ _ @ _"] tag_fits_encode tag_at_encode)
next
  case (Cons s ts)
  then show ?case
    using assms(1) by (simp add: tags_of.simps[of "encode_tag _ s @ _"] tag_fits_encode tag_at_encode encode_tag_length)
qed

text \<open>C34: Tags of a descriptor block, encoded one after another (64-bit block numbers in two halves, the
  UUID after every tag that does not omit it) with the last one flagged, are what the tag iterator yields,
  whatever follows them in the block.\<close>

theorem descriptor_tags_roundtrip:
  assumes "length uuid = 16"
    and "list_all (\<lambda>t. \<not> contains (dt_flags t) ESCAPED \<and> \<not> contains (dt_flags t) LAST_TAG) ts"
    and "\<not> contains (dt_flags t) ESCAPED" and "contains (dt_flags t) LAST_TAG"
  shows "outputs DescriptorBlockTagIter_next
     (DescriptorBlockTagIter_new (concat (map (encode_tag uuid) ts) @ encode_tag uuid t @ rest)) (ts @ [t], None)"
  using tag_iter_outputs[of "concat (map (encode_tag uuid) ts) @ encode_tag uuid t @ rest"]
  by (simp only: tags_of_encode[OF assms])

theorem descriptor_tags_roundtrip_witness:
  "outputs DescriptorBlockTagIter_next
     (DescriptorBlockTagIter_new
       (encode_tag (replicate 16 7) \<lparr>dt_block_index = 0x100000002, dt_checksum = 3, dt_flags = 0\<rparr> @
        encode_tag (replicate 16 7) \<lparr>dt_block_index = 9, dt_checksum = 4, dt_flags = 0xa\<rparr> @ [1, 2, 3]))
     ([\<lparr>dt_block_index = 0x100000002, dt_checksum = 3, dt_flags = 0\<rparr>,
       \<lparr>dt_block_index = 9, dt_checksum = 4, dt_flags = 0xa\<rparr>], None)"
  using descriptor_tags_roundtrip[of "replicate 16 7" "[\<lparr>dt_block_index = 0x100000002, dt_checksum = 3, dt_flags = 0\<rparr>]"
      "\<lparr>dt_block_index = 9, dt_checksum = 4, dt_flags = 0xa\<rparr>" "[1, 2, 3]"]
  by (simp add: contains_def)

section \<open>Revocations\<close>

lemma revocation_loop_table:
  "length data mod 8 = 0 \<Longrightarrow> \<exists>xs. revocation_loop data table = Ok (table @ xs) \<and> (\<forall>t. revocation_loop data t = Ok (t @ xs))"
proof (induction data table rule: revocation_loop.induct)
  case (1 data table)
  show ?case
  proof (cases "data = []")
    case True
    then show ?thesis by (simp add: revocation_loop.simps)
  next
    case False
    with 1(2) have l: "8 \<le> length data" by (cases "length data < 8") auto
    have s: "slice data 0 BLOCK_INDEX_SIZE_IN_BYTES = Ok (take 8 data)" using l by (simp add: BLOCK_INDEX_SIZE_IN_BYTES_def)
    have "length (drop BLOCK_INDEX_SIZE_IN_BYTES data) mod 8 = 0"
      using 1(2) l by (simp add: BLOCK_INDEX_SIZE_IN_BYTES_def mod_eq_0_iff_dvd)
    from 1(1)[OF False refl this] obtain xs where
      "\<And>t. revocation_loop (drop BLOCK_INDEX_SIZE_IN_BYTES data) t = Ok (t @ xs)" by blast
    then have "revocation_loop data t = Ok (t @ from_be_bytes (take 8 data) # xs)" for t
      using s False by (simp add: revocation_loop.simps[of data] Let_def)
    then show ?thesis by blast
  qed
qed

text \<open>The blocks that a revocation block revokes.\<close>

definition revoked_in :: "bytes \<Rightarrow> FsBlockIndex list result" where
  "revoked_in block =
     (let n = unat (u32be_at block 12); data = drop 16 (take (length block - 4) block) in
      if n mod 8 \<noteq> 0 \<or> length data < n then Err (Corrupt (JournalRevocationBlockInvalidTableSize n))
      else revocation_loop (take n data) [])"

lemma u32be_at_take: "i + 4 \<le> n \<Longrightarrow> u32be_at (take n bs) i = u32be_at bs i"
  by (simp add: u32be_at_def drop_take min_def)

lemma u32be_at_drop: "u32be_at (drop k bs) i = u32be_at bs (k + i)"
  by (simp add: u32be_at_def add.commute)

lemma read_revocation_block_table_eq:
  assumes "20 \<le> length block"
  shows "read_revocation_block_table block table = bind_o (revoked_in block) (\<lambda>xs. Ok (table @ xs))"
proof -
  let ?d = "take (length block - 16) (drop 12 block)"
  let ?n = "unat (u32be_at block 12)"
  have d: "slice block HEADER_SIZE (length block - 4) = Ok ?d" "usize_sub (length block) 4 = Some (length block - 4)"
    using assms by (auto simp: HEADER_SIZE_def usize_sub_def)
  have n: "read_u32be ?d 0 = Ok (u32be_at block 12)"
    using assms by (subst read_u32be_inside) (simp_all add: usize_max_def u32be_at_take u32be_at_drop)
  have e: "slice ?d 4 (length ?d) = Ok (drop 16 (take (length block - 4) block))"
    using assms by (simp add: drop_take add.commute)
  show ?thesis
  proof (cases "?n mod 8 \<noteq> 0 \<or> length (drop 16 (take (length block - 4) block)) < ?n")
    case True
    then show ?thesis
      unfolding read_revocation_block_table_def d n e unwrap.simps bind_o.simps Let_def usize_from_u32_def
      by (auto simp: revoked_in_def Let_def BLOCK_INDEX_SIZE_IN_BYTES_def get_range_def)
  next
    case False
    then have "length (take ?n (drop 16 (take (length block - 4) block))) = ?n" by simp
    with False have "length (take ?n (drop 16 (take (length block - 4) block))) mod 8 = 0" by simp
    from revocation_loop_table[OF this] obtain xs where
      "\<And>t. revocation_loop (take ?n (drop 16 (take (length block - 4) block))) t = Ok (t @ xs)" by blast
    with False show ?thesis
      unfolding read_revocation_block_table_def d n e unwrap.simps bind_o.simps Let_def usize_from_u32_def
      by (auto simp: revoked_in_def Let_def BLOCK_INDEX_SIZE_IN_BYTES_def get_range_def)
  qed
qed

lemma revocation_loop_encode: "revocation_loop (concat (map to_be_bytes xs)) table = Ok (table @ xs)"
proof (induction xs arbitrary: table)
  case Nil
  then show ?case by (simp add: revocation_loop.simps)
next
  case (Cons x xs)
  have "to_be_bytes x \<noteq> []" using length_to_be_bytes[of x] by force
  with Cons show ?case
    by (simp add: revocation_loop.simps[of "to_be_bytes x @ _"] BLOCK_INDEX_SIZE_IN_BYTES_def slice_def get_range_def
        Let_def from_to_be_bytes)
qed

lemma length_concat_be: "length (concat (map to_be_bytes (xs :: u64 list))) = 8 * length xs"
  by (induction xs) simp_all

text \<open>The table of a revocation block: the size in bytes and the block numbers, encoded after the header, are
  read back and appended to the list of revoked blocks, for every table that fits between the header and
  the checksum.\<close>

theorem revocation_table_roundtrip:
  assumes "length header = 12" and "length checksum = 4" and "length xs < 2 ^ 29"
  shows "read_revocation_block_table
     (header @ to_be_bytes (of_nat (8 * length xs) :: u32) @ concat (map to_be_bytes xs) @ pad @ checksum) table =
     Ok (table @ xs)"
proof -
  let ?b = "header @ to_be_bytes (of_nat (8 * length xs) :: u32) @ concat (map to_be_bytes xs) @ pad @ checksum"
  have n: "unat (u32be_at ?b 12) = 8 * length xs"
    unfolding u32be_at_append[OF assms(1)] using assms(3) by (simp only: unat_of_nat) simp
  have d: "drop 16 (take (length ?b - 4) ?b) = concat (map to_be_bytes xs) @ pad"
    using assms by simp
  have "revoked_in ?b = Ok xs"
    unfolding revoked_in_def n d Let_def using revocation_loop_encode[of xs "[]"] length_concat_be[of xs] by simp
  then show ?thesis
    by (subst read_revocation_block_table_eq) (use assms in simp_all)
qed

theorem revocation_table_roundtrip_witness:
  "read_revocation_block_table
     (replicate 12 0 @ to_be_bytes (of_nat (8 * 2) :: u32) @ (to_be_bytes (5 :: u64) @ to_be_bytes (0x100000000 :: u64)) @
      replicate 100 0 @ replicate 4 0) [1] = Ok [1, 5, 0x100000000]"
  using revocation_table_roundtrip[of "replicate 12 0" "replicate 4 0" "[5, 0x100000000]" "replicate 100 0" "[1]"] by simp

section \<open>The superblock\<close>

text \<open>Features of a journal that can be read.\<close>

definition journal_features_ok :: "u32 \<Rightarrow> bool" where
  "journal_features_ok f \<longleftrightarrow> contains f REQUIRED_FEATURES \<and> f AND NOT (REQUIRED_FEATURES OR ALLOWED_FEATURES) = 0"

lemma journal_features_exact: "journal_check_incompat_features f = Ok () \<longleftrightarrow> journal_features_ok f"
  by (simp add: journal_check_incompat_features_def journal_features_ok_def contains_def Let_def)

definition journal_superblock_checksum :: "crc_fn \<Rightarrow> bytes \<Rightarrow> u32" where
  "journal_superblock_checksum crc bytes = Checksum_finalize crc
     \<lparr>ck_initial = word_reverse 0xffffffff, ck_data = take 0xfc bytes @ replicate 4 0 @ drop 0x100 bytes\<rparr>"

lemma to_le_bytes_0: "to_le_bytes (0 :: u32) = replicate 4 0"
  by code_simp

text \<open>A journal superblock is accepted only with the magic number, version 2, the 64-bit and
  checksum-v3 features, no feature beyond those and revocations, CRC32C checksums and a matching
  checksum; its fields are then those of the block. Anything else is an error, and no 1024 bytes make
  the parser panic.\<close>

theorem journal_superblock_parse_sound:
  assumes "length bytes = 1024"
  shows "holds (JournalSuperblock_read_bytes crc bytes)
     (\<lambda>js. u32be_at bytes 0 = JOURNAL_MAGIC \<and> u32be_at bytes 4 = SUPERBLOCK_V2 \<and>
        journal_features_ok (u32be_at bytes 0x28) \<and> bytes ! 0x50 = CHECKSUM_TYPE_CRC32C \<and>
        journal_superblock_checksum crc bytes = u32be_at bytes 0xfc \<and>
        js = \<lparr>js_block_size = u32be_at bytes 0xc, js_sequence = u32be_at bytes 0x18,
              js_start_block = u32be_at bytes 0x1c, js_uuid = take 16 (drop 0x30 bytes)\<rparr>)
     (\<lambda>e. (\<exists>k. e = Corrupt k) \<or> (\<exists>k. e = Incompatible k))"
proof -
  have feat: "holds (journal_check_incompat_features x) (\<lambda>_. journal_features_ok x) (\<lambda>_. True)" for x
    using journal_features_exact[of x] by (auto simp: journal_check_incompat_features_def Let_def)
  have max: "n \<le> 1024 \<Longrightarrow> n \<le> usize_max" for n by (simp add: usize_max_def)
  show ?thesis
    using assms feat[of "u32be_at bytes 0x28"]
    by (auto simp: JournalSuperblock_read_bytes_def SUPERBLOCK_SIZE_def JournalBlockHeader_read_bytes_eq header_of_def max
        Checksum_defs journal_superblock_checksum_def to_le_bytes_0 holds_ok_or Let_def split: option.split elim!: holds_mono)
qed

definition sample_journal_superblock :: bytes where
  "sample_journal_superblock = (replicate 1024 0)[0 := 0xc0, 1 := 0x3b, 2 := 0x39, 3 := 0x98, 7 := 4, 0xe := 4,
     0x1b := 3, 0x1f := 1, 0x2b := 0x13, 0x50 := 4, 0xfc := 0xff, 0xfd := 0xff, 0xfe := 0xff, 0xff := 0xff]"

lemma sample_journal_superblock_parses:
  "JournalSuperblock_read_bytes (\<lambda>_ _. 0) sample_journal_superblock =
     Ok \<lparr>js_block_size = 1024, js_sequence = 3, js_start_block = 1, js_uuid = replicate 16 0\<rparr>"
  by code_simp

theorem journal_superblock_parse_sound_witness:
  "JournalSuperblock_read_bytes (\<lambda>_ _. 0) sample_journal_superblock =
     Ok \<lparr>js_block_size = 1024, js_sequence = 3, js_start_block = 1, js_uuid = replicate 16 0\<rparr> \<and>
   journal_features_ok (u32be_at sample_journal_superblock 0x28)"
proof -
  have "length sample_journal_superblock = 1024" by (simp add: sample_journal_superblock_def)
  from journal_superblock_parse_sound[OF this, of "\<lambda>_ _. 0"] sample_journal_superblock_parses show ?thesis by simp
qed

end
