(* ===== verification/Journal.thy ===== *)
theory Journal
  imports Journal_Blocks Dir
begin

text \<open>
  The journal (\<^verbatim>\<open>src/src/journal.rs\<close>, \<^verbatim>\<open>src/src/journal/block_map.rs\<close>): the log is read once, when the file
  system is loaded, and gives a map from blocks of the file system to the blocks of the journal that
  replace them. The specification parses the blocks of the journal file into a sequence of records and
  takes from it the committed transactions.
\<close>

section \<open>The blocks of the log\<close>

text \<open>\<open>Skip<FileBlocks>\<close>: the first call of \<open>next\<close> is \<open>nth(n)\<close>, the following ones are those of the iterator.\<close>

record SkipBlocks =
  sk_iter :: FileBlocks
  sk_n :: usize

definition SkipBlocks_next :: "(SkipBlocks \<times> Ext4, FsBlockIndex option, Ext4Error) comp" where
  "SkipBlocks_next =
     bindc (gets_fst sk_n) (\<lambda>n.
     if 0 < n then
       bindc (modify_fst (\<lambda>self. self\<lparr>sk_n := 0\<rparr>)) (\<lambda>_.
       on_field sk_iter (\<lambda>x self. self\<lparr>sk_iter := x\<rparr>) (nth_item FileBlocks_next n))
     else on_field sk_iter (\<lambda>x self. self\<lparr>sk_iter := x\<rparr>) FileBlocks_next)"

text \<open>The journal's superblock is in the first block of the journal file.\<close>

definition JournalSuperblock_load :: "Inode \<Rightarrow> JournalSuperblock fs_op" where
  "JournalSuperblock_load journal_inode =
     bindc (lift (FileBlocks_new journal_inode)) (\<lambda>journal_block_iter.
     bindc (with_iter journal_block_iter FileBlocks_next) (\<lambda>item.
     bindc (lift (ok_or (Corrupt JournalSize) item)) (\<lambda>block_index.
     bindc (read_from_block block_index 0 SUPERBLOCK_SIZE) (\<lambda>block.
     bindc (gets (\<lambda>fs. fs)) (\<lambda>fs.
     bindc (lift (JournalSuperblock_read_bytes (fs_crc fs) block)) (\<lambda>superblock.
     bindc (lift (require (js_block_size superblock = sb_block_size (fs_superblock fs)) (Corrupt JournalBlockSize))) (\<lambda>_.
     ret superblock)))))))"

section \<open>The loader\<close>

type_synonym JournalBlockMap = "FsBlockIndex \<rightharpoonup> FsBlockIndex"

record BlockMapLoader =
  bl_block_map :: JournalBlockMap
  bl_uncommitted_block_map :: JournalBlockMap
  bl_revoked_blocks :: "FsBlockIndex list"
  bl_journal_block_iter :: SkipBlocks
  bl_block_index :: FsBlockIndex
  bl_block :: bytes
  bl_data_block :: bytes
  bl_sequence :: u32
  bl_is_done :: bool

type_synonym 'a loader_op = "(BlockMapLoader \<times> Ext4, 'a, Ext4Error) comp"

definition BlockMapLoader_new :: "Ext4 \<Rightarrow> JournalSuperblock \<Rightarrow> Inode \<Rightarrow> BlockMapLoader result" where
  "BlockMapLoader_new fs superblock journal_inode =
     bind_o (FileBlocks_new journal_inode) (\<lambda>journal_block_iter.
     let block_size = BlockSize_to_usize (sb_block_size (fs_superblock fs)) in
     Ok \<lparr>bl_block_map = Map.empty, bl_uncommitted_block_map = Map.empty, bl_revoked_blocks = [],
         bl_journal_block_iter = \<lparr>sk_iter = journal_block_iter, sk_n = usize_from_u32 (js_start_block superblock)\<rparr>,
         bl_block_index = 0, bl_block = replicate block_size 0, bl_data_block = replicate block_size 0,
         bl_sequence = js_sequence superblock, bl_is_done = False\<rparr>)"

abbreviation loader_next :: "FsBlockIndex option loader_op" where
  "loader_next \<equiv> on_field bl_journal_block_iter (\<lambda>x self. self\<lparr>bl_journal_block_iter := x\<rparr>) SkipBlocks_next"

text \<open>The body of the loop over the tags.\<close>

definition process_tag :: "JournalSuperblock \<Rightarrow> DescriptorBlockTag \<Rightarrow> unit loader_op" where
  "process_tag superblock tag =
     bindc loader_next (\<lambda>item.
     bindc (lift (ok_or (Corrupt JournalTruncated) item)) (\<lambda>block_index.
     bindc (gets_fst (\<lambda>self. self)) (\<lambda>self.
     let checksum = Checksum_update_u32_be (bl_sequence self) (Checksum_update (js_uuid superblock) Checksum_new) in
     bindc (on_snd (read_from_block block_index 0 (length (bl_data_block self)))) (\<lambda>data.
     bindc (modify_fst (\<lambda>self. self\<lparr>bl_data_block := data\<rparr>)) (\<lambda>_.
     let checksum = Checksum_update data checksum in
     bindc (on_snd (gets fs_crc)) (\<lambda>crc.
     bindc (lift (require (Checksum_finalize crc checksum = dt_checksum tag) (Corrupt JournalDescriptorTagChecksum))) (\<lambda>_.
     modify_fst (\<lambda>self. self\<lparr>bl_uncommitted_block_map :=
       (bl_uncommitted_block_map self)(dt_block_index tag \<mapsto> block_index)\<rparr>))))))))"

function process_tags :: "JournalSuperblock \<Rightarrow> DescriptorBlockTagIter \<Rightarrow> unit loader_op" where
  "process_tags superblock tags =
     (case DescriptorBlockTagIter_next tags of
        (Ok None, _) \<Rightarrow> ret ()
      | (Ok (Some tag), tags) \<Rightarrow> bindc (process_tag superblock tag) (\<lambda>_. process_tags superblock tags)
      | (Err err, _) \<Rightarrow> lift (Err err)
      | (Panic, _) \<Rightarrow> lift Panic
      | (Diverge, _) \<Rightarrow> lift Diverge)"
  by pat_completeness auto
termination
  by (relation "measure (\<lambda>(_, it). if ti_is_done it then 0 else Suc (length (ti_bytes it)))")
     (auto dest!: tag_iter_shrinks[OF sym] split: if_splits)

declare process_tags.simps [simp del]

definition process_descriptor_block :: "JournalSuperblock \<Rightarrow> unit loader_op" where
  "process_descriptor_block superblock =
     bindc (gets_fst bl_block) (\<lambda>block.
     bindc (on_snd (gets fs_crc)) (\<lambda>crc.
     bindc (lift (validate_descriptor_block_checksum crc superblock block)) (\<lambda>_.
     bindc (lift (slice block HEADER_SIZE (length block))) (\<lambda>bytes.
     process_tags superblock (DescriptorBlockTagIter_new bytes)))))"

definition process_revocation_block :: "JournalSuperblock \<Rightarrow> unit loader_op" where
  "process_revocation_block superblock =
     bindc (gets_fst (\<lambda>self. self)) (\<lambda>self.
     bindc (on_snd (gets fs_crc)) (\<lambda>crc.
     bindc (lift (validate_revocation_block_checksum crc superblock (bl_block self))) (\<lambda>_.
     bindc (lift (read_revocation_block_table (bl_block self) (bl_revoked_blocks self))) (\<lambda>table.
     modify_fst (\<lambda>self. self\<lparr>bl_revoked_blocks := table\<rparr>)))))"

definition process_commit_block :: "JournalSuperblock \<Rightarrow> unit loader_op" where
  "process_commit_block superblock =
     bindc (gets_fst bl_block) (\<lambda>block.
     bindc (on_snd (gets fs_crc)) (\<lambda>crc.
     bindc (lift (validate_commit_block_checksum crc superblock block)) (\<lambda>_.
     bindc (modify_fst (\<lambda>self. self\<lparr>bl_uncommitted_block_map :=
       fold (\<lambda>block_index m. m(block_index := None)) (bl_revoked_blocks self) (bl_uncommitted_block_map self)\<rparr>)) (\<lambda>_.
     bindc (modify_fst (\<lambda>self. self\<lparr>bl_revoked_blocks := []\<rparr>)) (\<lambda>_.
     bindc (modify_fst (\<lambda>self. self\<lparr>bl_block_map := bl_block_map self ++ bl_uncommitted_block_map self\<rparr>)) (\<lambda>_.
     bindc (modify_fst (\<lambda>self. self\<lparr>bl_uncommitted_block_map := Map.empty\<rparr>)) (\<lambda>_.
     bindc (gets_fst bl_sequence) (\<lambda>sequence.
     bindc (lift (ok_or (Corrupt JournalSequenceOverflow) (checked_add sequence 1))) (\<lambda>sequence.
     modify_fst (\<lambda>self. self\<lparr>bl_sequence := sequence\<rparr>))))))))))"

definition process_next :: "JournalSuperblock \<Rightarrow> unit loader_op" where
  "process_next superblock =
     bindc (gets_fst (\<lambda>self. self)) (\<lambda>self.
     bindc (on_snd (read_from_block (bl_block_index self) 0 (length (bl_block self)))) (\<lambda>block.
     bindc (modify_fst (\<lambda>self. self\<lparr>bl_block := block\<rparr>)) (\<lambda>_.
     bindc (lift (JournalBlockHeader_read_bytes block)) (\<lambda>header.
     case header of
       None \<Rightarrow> modify_fst (\<lambda>self. self\<lparr>bl_is_done := True\<rparr>)
     | Some header \<Rightarrow>
         bindc (lift (require (jh_sequence header = bl_sequence self) (Corrupt JournalSequence))) (\<lambda>_.
         if jh_block_type header = DESCRIPTOR then process_descriptor_block superblock
         else if jh_block_type header = REVOCATION then process_revocation_block superblock
         else if jh_block_type header = COMMIT then process_commit_block superblock
         else lift (Err (Incompatible (JournalBlockType (jh_block_type header)))))))))"

text \<open>One round of the \<open>while let\<close> loop of \<open>load_block_map\<close>: \<open>Some ()\<close> stands for a \<open>break\<close> or the end of
  the blocks.\<close>

definition load_round :: "JournalSuperblock \<Rightarrow> unit option loader_op" where
  "load_round superblock =
     bindc loader_next (\<lambda>item.
     case item of
       None \<Rightarrow> ret (Some ())
     | Some block_index \<Rightarrow>
         bindc (modify_fst (\<lambda>self. self\<lparr>bl_block_index := block_index\<rparr>)) (\<lambda>_ s.
         case process_next superblock s of
           (Ok _, s') \<Rightarrow> (Ok (if bl_is_done (fst s') then Some () else None), s')
         | (Err err, s') \<Rightarrow> (case err of Corrupt _ \<Rightarrow> (Ok (Some ()), s') | _ \<Rightarrow> (Err err, s'))
         | (Panic, s') \<Rightarrow> (Panic, s')
         | (Diverge, s') \<Rightarrow> (Diverge, s')))"

definition load_loop :: "JournalSuperblock \<Rightarrow> JournalBlockMap loader_op" where
  "load_loop superblock =
     bindc (result_iter_next (\<lambda>_. False) (\<lambda>s. s) (load_round superblock)) (\<lambda>_. gets_fst bl_block_map)"

definition load_block_map :: "JournalSuperblock \<Rightarrow> Inode \<Rightarrow> JournalBlockMap fs_op" where
  "load_block_map superblock journal_inode =
     bindc (gets (\<lambda>fs. fs)) (\<lambda>fs.
     bindc (lift (BlockMapLoader_new fs superblock journal_inode)) (\<lambda>loader.
     with_iter loader (load_loop superblock)))"

definition Journal_load :: "Journal fs_op" where
  "Journal_load =
     bindc (gets (\<lambda>fs. sb_journal_inode (fs_superblock fs))) (\<lambda>journal_inode.
     case journal_inode of
       None \<Rightarrow> ret Journal_empty
     | Some journal_inode \<Rightarrow>
         bindc (Inode_read journal_inode) (\<lambda>journal_inode.
         bindc (JournalSuperblock_load journal_inode) (\<lambda>superblock.
         load_block_map superblock journal_inode)))"

section \<open>The sequence of blocks of the log\<close>

lemma SkipBlocks_next_blind [blind_intros]:
  "device_complete fs0 \<Longrightarrow> blind disk fs0 SkipBlocks_next"
  unfolding SkipBlocks_next_def by (intro blind_intros)

definition sk_seq :: "(nat \<Rightarrow> u8) \<Rightarrow> Ext4 \<Rightarrow> SkipBlocks \<Rightarrow> (FsBlockIndex, Ext4Error) out_seq \<Rightarrow> bool" where
  "sk_seq disk fs0 sk out \<longleftrightarrow> (\<forall>fs. good disk fs0 fs \<longrightarrow> outputs SkipBlocks_next (sk, fs) out)"

text \<open>What one call returns.\<close>

abbreviation first_item :: "('a, 'e) out_seq \<Rightarrow> ('a option, 'e) outcome" where
  "first_item out \<equiv> (case fst out of [] \<Rightarrow> (case snd out of None \<Rightarrow> Ok None | Some e \<Rightarrow> Err e) | x # _ \<Rightarrow> Ok (Some x))"

lemma sk_seq_next:
  assumes "device_complete fs0" and "good disk fs0 fs" and "sk_seq disk fs0 sk (bs, r)"
  obtains sk' fs' where "SkipBlocks_next (sk, fs) = (first_item (bs, r), (sk', fs'))" "good disk fs0 fs'"
    "bs \<noteq> [] \<Longrightarrow> sk_seq disk fs0 sk' (tl bs, r)"
proof -
  note bl = SkipBlocks_next_blind[OF assms(1), of disk]
  have o: "outputs SkipBlocks_next (sk, fs) (bs, r)" using assms(2,3) by (simp add: sk_seq_def)
  obtain q sk' fs' where n: "SkipBlocks_next (sk, fs) = (q, (sk', fs'))" by (metis surj_pair)
  have g: "good disk fs0 fs'" using blind_same[OF bl assms(2,2) n] by blast
  have q: "q = first_item (bs, r)"
    using o n by (cases bs; cases r) (auto elim: outputs_ConsD outputs_endD outputs_errD)
  have "sk_seq disk fs0 sk' (tl bs, r)" if "bs \<noteq> []"
  proof -
    obtain b cs where bs: "bs = b # cs" using \<open>bs \<noteq> []\<close> by (cases bs) auto
    with o n have "outputs SkipBlocks_next (sk', fs') (cs, r)" by (auto elim: outputs_ConsD)
    with blind_outputs[OF bl g] bs show ?thesis by (auto simp: sk_seq_def)
  qed
  with that n q g show ?thesis by blast
qed

text \<open>The skipped blocks.\<close>

lemma nth_item_seq:
  assumes "device_complete fs0" and "good disk fs0 fs" and "fb_seq disk fs0 fb (bs, r)" and "n < length bs"
  shows "\<exists>fb' fs'. nth_item FileBlocks_next n (fb, fs) = (Ok (Some (bs ! n)), (fb', fs')) \<and> good disk fs0 fs' \<and>
     fb_seq disk fs0 fb' (drop (Suc n) bs, r)"
  using assms(2-4)
proof (induction n arbitrary: fb fs bs)
  case 0
  then obtain b cs where bs: "bs = b # cs" by (cases bs) auto
  from fb_seq_item[OF assms(1) 0(1) 0(2)[unfolded bs]] bs show ?case by (metis nth_item.simps(1) nth_Cons_0 drop_Suc_Cons drop0)
next
  case (Suc n)
  then obtain b cs where bs: "bs = b # cs" by (cases bs) auto
  obtain fb' fs' where "FileBlocks_next (fb, fs) = (Ok (Some b), (fb', fs'))" "good disk fs0 fs'" "fb_seq disk fs0 fb' (cs, r)"
    by (rule fb_seq_item[OF assms(1) Suc(2) Suc(3)[unfolded bs]])
  with Suc(1)[of fs' fb' cs] Suc(4) bs show ?case by auto
qed

lemma sk_seq_plain:
  assumes "fb_seq disk fs0 fb out"
  shows "sk_seq disk fs0 \<lparr>sk_iter = fb, sk_n = 0\<rparr> out"
proof -
  have eq: "SkipBlocks_next (\<lparr>sk_iter = fst s, sk_n = 0\<rparr>, snd s) =
      (fst (FileBlocks_next s), (\<lparr>sk_iter = fst (snd (FileBlocks_next s)), sk_n = 0\<rparr>, snd (snd (FileBlocks_next s))))" for s
    by (cases s) (simp add: SkipBlocks_next_def comp_defs split: prod.splits)
  have "\<exists>s2. yields SkipBlocks_next (\<lparr>sk_iter = fst s, sk_n = 0\<rparr>, snd s) xs r s2" if "yields FileBlocks_next s xs r s'" for s xs r s'
    using that
  proof (induction rule: yields.induct)
    case (yields_item s x s1 xs r s2)
    with eq[of s] show ?case by (auto intro: yields.yields_item)
  qed (metis eq fst_conv yields.yields_end, metis eq fst_conv yields.yields_err)
  then have "outputs SkipBlocks_next (\<lparr>sk_iter = fb, sk_n = 0\<rparr>, fs) out" if "outputs FileBlocks_next (fb, fs) out" for fs
    using that by (fastforce simp: outputs_def)
  with assms show ?thesis by (simp add: sk_seq_def fb_seq_def)
qed

lemma sk_seq_start:
  assumes "device_complete fs0" and "fb_seq disk fs0 fb (bs, r)"
  shows "sk_seq disk fs0 \<lparr>sk_iter = fb, sk_n = n\<rparr> (drop n bs, if n \<le> length bs then r else None)"
proof (cases "n = 0")
  case True
  with sk_seq_plain[OF assms(2)] show ?thesis by simp
next
  case False
  have first: "SkipBlocks_next (\<lparr>sk_iter = fb, sk_n = n\<rparr>, fs) =
      (fst (nth_item FileBlocks_next n (fb, fs)), (\<lparr>sk_iter = fst (snd (nth_item FileBlocks_next n (fb, fs))), sk_n = 0\<rparr>,
        snd (snd (nth_item FileBlocks_next n (fb, fs)))))" for fs
    using False by (simp add: SkipBlocks_next_def comp_defs split: prod.splits)
  have "outputs SkipBlocks_next (\<lparr>sk_iter = fb, sk_n = n\<rparr>, fs) (drop n bs, if n \<le> length bs then r else None)"
    if g: "good disk fs0 fs" for fs
  proof (cases "n < length bs")
    case True
    from nth_item_seq[OF assms(1) g assms(2) True] obtain fb' fs' where
      "nth_item FileBlocks_next n (fb, fs) = (Ok (Some (bs ! n)), (fb', fs'))" "good disk fs0 fs'"
      "fb_seq disk fs0 fb' (drop (Suc n) bs, r)" by blast
    with first[of fs] sk_seq_plain[of disk fs0 fb'] True show ?thesis
      by (auto simp: sk_seq_def Cons_nth_drop_Suc[symmetric] intro!: outputs_Cons)
  next
    case False
    have "outputs FileBlocks_next (fb, fs) (bs, r)" using assms(2) g by (simp add: fb_seq_def)
    from nth_item_outputs[OF _ this, of n] FileBlocks_after_error
    have "fst (nth_item FileBlocks_next n (fb, fs)) =
        (if n = length bs then (case r of None \<Rightarrow> Ok None | Some e \<Rightarrow> Err e) else Ok None)"
      using False by (metis surj_pair)
    with first[of fs] False show ?thesis
      by (auto simp: outputs_def split: option.splits if_splits intro!: exI yields_end yields_err)
  qed
  then show ?thesis by (simp add: sk_seq_def)
qed

section \<open>The log as a sequence of records\<close>

text \<open>A record of the log: a descriptor with the blocks it replaces and the blocks of the journal that
  replace them, a revocation, a commit.\<close>

datatype LogRecord =
    Descriptor "(FsBlockIndex \<times> FsBlockIndex) list"
  | Revocation "FsBlockIndex list"
  | Commit

text \<open>The data block of a tag, with its checksum.\<close>

definition data_checksum :: "Ext4 \<Rightarrow> JournalSuperblock \<Rightarrow> u32 \<Rightarrow> bytes \<Rightarrow> u32" where
  "data_checksum fs jsb seq data = Checksum_finalize (fs_crc fs)
     \<lparr>ck_initial = word_reverse 0xffffffff, ck_data = js_uuid jsb @ to_be_bytes seq @ data\<rparr>"

definition tag_target :: "(nat \<Rightarrow> u8) \<Rightarrow> Ext4 \<Rightarrow> JournalSuperblock \<Rightarrow> u32 \<Rightarrow> DescriptorBlockTag \<Rightarrow>
    FsBlockIndex list \<Rightarrow> Ext4Error option \<Rightarrow> FsBlockIndex result" where
  "tag_target disk fs jsb seq tag bs r =
     bind_o (first_item (bs, r)) (\<lambda>item.
     bind_o (ok_or (Corrupt JournalTruncated) item) (\<lambda>b.
     bind_o (block_read_spec disk fs b 0 (block_bytes fs)) (\<lambda>data.
     bind_o (require (data_checksum fs jsb seq data = dt_checksum tag) (Corrupt JournalDescriptorTagChecksum)) (\<lambda>_.
     Ok b))))"

fun match_tags :: "(nat \<Rightarrow> u8) \<Rightarrow> Ext4 \<Rightarrow> JournalSuperblock \<Rightarrow> u32 \<Rightarrow> DescriptorBlockTag list \<Rightarrow> Ext4Error option \<Rightarrow>
    FsBlockIndex list \<Rightarrow> Ext4Error option \<Rightarrow> ((FsBlockIndex \<times> FsBlockIndex) list \<times> FsBlockIndex list) result" where
  "match_tags disk fs jsb seq [] None bs r = Ok ([], bs)"
| "match_tags disk fs jsb seq [] (Some e) bs r = Err e"
| "match_tags disk fs jsb seq (t # ts) te bs r =
     bind_o (tag_target disk fs jsb seq t bs r) (\<lambda>b.
     bind_o (match_tags disk fs jsb seq ts te (tl bs) r) (\<lambda>(ps, bs').
     Ok ((dt_block_index t, b) # ps, bs')))"

text \<open>The record that starts at block \<open>b\<close>, with the blocks behind it; \<open>None\<close> at the end of the log.\<close>

definition journal_record :: "(nat \<Rightarrow> u8) \<Rightarrow> Ext4 \<Rightarrow> JournalSuperblock \<Rightarrow> u32 \<Rightarrow> FsBlockIndex \<Rightarrow> FsBlockIndex list \<Rightarrow>
    Ext4Error option \<Rightarrow> (LogRecord \<times> FsBlockIndex list) option result" where
  "journal_record disk fs jsb seq b bs r =
     bind_o (block_read_spec disk fs b 0 (block_bytes fs)) (\<lambda>block.
     case header_of block of
       None \<Rightarrow> Ok None
     | Some header \<Rightarrow>
         bind_o (require (jh_sequence header = seq) (Corrupt JournalSequence)) (\<lambda>_.
         if jh_block_type header = DESCRIPTOR then
           bind_o (validate_descriptor_block_checksum (fs_crc fs) jsb block) (\<lambda>_.
           case tags_of (drop 12 block) of (ts, te) \<Rightarrow>
           bind_o (match_tags disk fs jsb seq ts te bs r) (\<lambda>(ps, bs').
           Ok (Some (Descriptor ps, bs'))))
         else if jh_block_type header = REVOCATION then
           bind_o (validate_revocation_block_checksum (fs_crc fs) jsb block) (\<lambda>_.
           bind_o (revoked_in block) (\<lambda>xs.
           Ok (Some (Revocation xs, bs))))
         else if jh_block_type header = COMMIT then
           bind_o (validate_commit_block_checksum (fs_crc fs) jsb block) (\<lambda>_.
           Ok (Some (Commit, bs)))
         else Err (Incompatible (JournalBlockType (jh_block_type header)))))"

lemma match_tags_rest: "match_tags disk fs jsb seq ts te bs r = Ok (ps, bs') \<Longrightarrow> length bs' \<le> length bs"
proof (induction ts arbitrary: bs ps)
  case Nil
  then show ?case by (cases te) auto
next
  case (Cons t ts)
  then show ?case by (fastforce split: prod.splits)
qed

lemma journal_record_rest:
  assumes "journal_record disk fs jsb seq b bs r = Ok (Some (rc, bs'))"
  shows "length bs' \<le> length bs"
  using assms match_tags_rest
  by (fastforce simp: journal_record_def split: option.splits if_splits prod.splits)

text \<open>The records of the log, until a block that does not belong to it or is corrupt; any other error is the
  error of the whole. A sequence number beyond \<open>u32\<close> ends the log behind its commit.\<close>

function journal_log :: "(nat \<Rightarrow> u8) \<Rightarrow> Ext4 \<Rightarrow> JournalSuperblock \<Rightarrow> u32 \<Rightarrow> FsBlockIndex list \<Rightarrow> Ext4Error option \<Rightarrow>
    (LogRecord, Ext4Error) out_seq" where
  "journal_log disk fs jsb seq [] r = ([], r)"
| "journal_log disk fs jsb seq (b # bs) r =
     (case journal_record disk fs jsb seq b bs r of
        Ok None \<Rightarrow> ([], None)
      | Ok (Some (rc, bs')) \<Rightarrow>
          if rc \<noteq> Commit then out_append ([rc], None) (journal_log disk fs jsb seq bs' r)
          else if seq = - 1 then ([Commit], None)
          else out_append ([Commit], None) (journal_log disk fs jsb (seq + 1) bs' r)
      | Err (Corrupt _) \<Rightarrow> ([], None)
      | Err e \<Rightarrow> ([], Some e)
      | _ \<Rightarrow> ([], None))"
  by pat_completeness auto
termination
  by (relation "measure (\<lambda>(disk, fs, jsb, seq, bs, r). length bs)") (auto dest!: journal_record_rest)

section \<open>Committed transactions\<close>

text \<open>The records of the transactions that were committed, in order; the records behind the last commit
  belong to none.\<close>

function transactions :: "LogRecord list \<Rightarrow> LogRecord list list" where
  "transactions rs =
     (if Commit \<in> set rs
      then takeWhile (\<lambda>rc. rc \<noteq> Commit) rs # transactions (tl (dropWhile (\<lambda>rc. rc \<noteq> Commit) rs))
      else [])"
  by pat_completeness auto
termination
proof (relation "measure length")
  fix rs assume "Commit \<in> set rs"
  then have "dropWhile (\<lambda>rc. rc \<noteq> Commit) rs \<noteq> []" by (simp add: dropWhile_eq_Nil_conv)
  then have "length (tl (dropWhile (\<lambda>rc. rc \<noteq> Commit) rs)) < length (dropWhile (\<lambda>rc. rc \<noteq> Commit) rs)" by simp
  also have "\<dots> \<le> length rs" by (rule length_dropWhile_le)
  finally show "(tl (dropWhile (\<lambda>rc. rc \<noteq> Commit) rs), rs) \<in> measure length" by simp
qed simp

declare transactions.simps [simp del]

fun writes :: "LogRecord \<Rightarrow> (FsBlockIndex \<times> FsBlockIndex) list" where
  "writes (Descriptor ps) = ps"
| "writes _ = []"

fun revokes :: "LogRecord \<Rightarrow> FsBlockIndex list" where
  "revokes (Revocation xs) = xs"
| "revokes _ = []"

text \<open>A transaction replaces a block by the last copy that it wrote of it, unless it revokes the block; a later
  transaction takes precedence.\<close>

definition transaction_map :: "LogRecord list \<Rightarrow> JournalBlockMap" where
  "transaction_map rs =
     (\<lambda>k. if k \<in> set (concat (map revokes rs)) then None else map_of (rev (concat (map writes rs))) k)"

definition journal_map :: "LogRecord list \<Rightarrow> JournalBlockMap" where
  "journal_map rs = foldl (++) Map.empty (map transaction_map (transactions rs))"

text \<open>The same, record by record.\<close>

type_synonym Replay = "JournalBlockMap \<times> JournalBlockMap \<times> FsBlockIndex list"

fun log_step :: "LogRecord \<Rightarrow> Replay \<Rightarrow> Replay" where
  "log_step (Descriptor ps) (m, u, rv) = (m, u ++ map_of (rev ps), rv)"
| "log_step (Revocation xs) (m, u, rv) = (m, u, rv @ xs)"
| "log_step Commit (m, u, rv) = (m ++ fold (\<lambda>k u. u(k := None)) rv u, Map.empty, [])"

lemma fold_remove: "fold (\<lambda>k u. u(k := None)) rv u = (\<lambda>k. if k \<in> set rv then None else u k)"
  by (induction rv arbitrary: u) (auto simp: fun_eq_iff)

lemma log_step_open:
  "Commit \<notin> set rs \<Longrightarrow> fold log_step rs (m, u, rv) =
     (m, u ++ map_of (rev (concat (map writes rs))), rv @ concat (map revokes rs))"
proof (induction rs arbitrary: u rv)
  case (Cons rc rs)
  then show ?case by (cases rc) simp_all
qed simp

lemma replay_transactions:
  "fst (fold log_step rs (m, Map.empty, [])) = foldl (++) m (map transaction_map (transactions rs))"
proof (induction rs arbitrary: m rule: transactions.induct)
  case (1 rs)
  let ?p = "\<lambda>rc. rc \<noteq> Commit"
  show ?case
  proof (cases "Commit \<in> set rs")
    case True
    then obtain x ys where d: "dropWhile ?p rs = x # ys" by (cases "dropWhile ?p rs") (auto simp: dropWhile_eq_Nil_conv)
    with hd_dropWhile[of ?p rs] have x: "x = Commit" by simp
    have rs: "rs = takeWhile ?p rs @ Commit # ys" using takeWhile_dropWhile_id[of ?p rs] d x by simp
    have n: "Commit \<notin> set (takeWhile ?p rs)" by (auto dest: set_takeWhileD)
    have "fst (fold log_step rs (m, Map.empty, [])) =
        fst (fold log_step ys (log_step Commit (fold log_step (takeWhile ?p rs) (m, Map.empty, []))))"
      by (subst rs) simp
    also have "\<dots> = fst (fold log_step ys (m ++ transaction_map (takeWhile ?p rs), Map.empty, []))"
      by (simp add: log_step_open[OF n] fold_remove transaction_map_def)
    also have "\<dots> = foldl (++) (m ++ transaction_map (takeWhile ?p rs)) (map transaction_map (transactions ys))"
      using 1[OF True] d by simp
    finally show ?thesis using True d by (simp add: transactions.simps[of rs])
  next
    case False
    then show ?thesis by (simp add: log_step_open transactions.simps[of rs])
  qed
qed

section \<open>The loader follows the log\<close>

definition loader_at :: "(nat \<Rightarrow> u8) \<Rightarrow> Ext4 \<Rightarrow> BlockMapLoader \<Rightarrow> Replay \<Rightarrow> u32 \<Rightarrow> (FsBlockIndex, Ext4Error) out_seq \<Rightarrow> bool" where
  "loader_at disk fs0 self st seq out \<longleftrightarrow>
     (bl_block_map self, bl_uncommitted_block_map self, bl_revoked_blocks self) = st \<and> bl_sequence self = seq \<and>
     sk_seq disk fs0 (bl_journal_block_iter self) out \<and> length (bl_block self) = block_bytes fs0 \<and>
     length (bl_data_block self) = block_bytes fs0 \<and> \<not> bl_is_done self"

lemma loader_next_run:
  assumes "device_complete fs0" and "good disk fs0 fs" and "loader_at disk fs0 self st seq (bs, r)"
  obtains sk fs' where "loader_next (self, fs) = (first_item (bs, r), (self\<lparr>bl_journal_block_iter := sk\<rparr>, fs'))"
    "good disk fs0 fs'" "bs \<noteq> [] \<Longrightarrow> loader_at disk fs0 (self\<lparr>bl_journal_block_iter := sk\<rparr>) st seq (tl bs, r)"
proof -
  have "sk_seq disk fs0 (bl_journal_block_iter self) (bs, r)" using assms(3) by (simp add: loader_at_def)
  from sk_seq_next[OF assms(1,2) this] obtain sk' fs' where
    "SkipBlocks_next (bl_journal_block_iter self, fs) = (first_item (bs, r), (sk', fs'))" "good disk fs0 fs'"
    "bs \<noteq> [] \<Longrightarrow> sk_seq disk fs0 sk' (tl bs, r)" by blast
  with that assms(3) show ?thesis by (simp add: on_field_def loader_at_def)
qed

lemma block_read_run:
  assumes "device_complete fs0" and "good disk fs0 fs"
  obtains fs' where "on_snd (read_from_block b 0 n) (self, fs) = (block_read_spec disk fs0 b 0 n, (self, fs'))"
    "good disk fs0 fs'"
proof -
  have "computes disk fs0 fs (read_from_block b 0 n) (block_read_spec disk fs0 b 0 n)"
    by (rule computes_read[OF assms(2,1)]) simp
  from computesD[OF this] that show ?thesis by (auto simp: on_snd_def)
qed

lemma block_read_spec_Ok_length: "block_read_spec disk fs b 0 n = Ok data \<Longrightarrow> length data = n"
  by (auto simp: block_read_spec_def disk_range_def split: if_splits)

lemma block_read_spec_not: "block_read_spec disk fs b off n \<noteq> Panic" "block_read_spec disk fs b off n \<noteq> Diverge"
  by (simp_all add: block_read_spec_def)

lemma process_tag_run:
  assumes "device_complete fs0" and "good disk fs0 fs" and "loader_at disk fs0 self (m, u, rv) seq (bs, r)"
  shows "\<exists>self' fs'. process_tag jsb tag (self, fs) =
       (bind_o (tag_target disk fs0 jsb seq tag bs r) (\<lambda>_. Ok ()), (self', fs')) \<and>
     good disk fs0 fs' \<and> bl_block_map self' = m \<and>
     (\<forall>b. tag_target disk fs0 jsb seq tag bs r = Ok b \<longrightarrow>
        loader_at disk fs0 self' (m, u(dt_block_index tag \<mapsto> b), rv) seq (tl bs, r))"
proof -
  obtain sk fs1 where n: "loader_next (self, fs) = (first_item (bs, r), (self\<lparr>bl_journal_block_iter := sk\<rparr>, fs1))"
    and g1: "good disk fs0 fs1"
    and l: "bs \<noteq> [] \<Longrightarrow> loader_at disk fs0 (self\<lparr>bl_journal_block_iter := sk\<rparr>) (m, u, rv) seq (tl bs, r)"
    using loader_next_run[OF assms] by blast
  have len: "length (bl_data_block self) = block_bytes fs0" "bl_sequence self = seq" "bl_block_map self = m"
    using assms(3) by (simp_all add: loader_at_def)
  show ?thesis
  proof (cases bs)
    case Nil
    with n g1 len show ?thesis
      by (cases r) (simp_all add: process_tag_def tag_target_def bindc_def lift_def)
  next
    case (Cons b cs)
    obtain fs2 where rd: "on_snd (read_from_block b 0 (block_bytes fs0)) (self\<lparr>bl_journal_block_iter := sk\<rparr>, fs1) =
        (block_read_spec disk fs0 b 0 (block_bytes fs0), (self\<lparr>bl_journal_block_iter := sk\<rparr>, fs2))" "good disk fs0 fs2"
      by (rule block_read_run[OF assms(1) g1])
    have crc: "fs_crc fs2 = fs_crc fs0" using good_sel(3)[OF rd(2)] .
    show ?thesis
    proof (cases "block_read_spec disk fs0 b 0 (block_bytes fs0)")
      case (Ok data)
      have dl: "length data = block_bytes fs0" by (rule block_read_spec_Ok_length[OF Ok])
      let ?ok = "data_checksum fs0 jsb seq data = dt_checksum tag"
      let ?self = "self\<lparr>bl_journal_block_iter := sk, bl_data_block := data\<rparr>"
      let ?self' = "?self\<lparr>bl_uncommitted_block_map := (bl_uncommitted_block_map self)(dt_block_index tag \<mapsto> b)\<rparr>"
      have e: "process_tag jsb tag (self, fs) = (if ?ok then (Ok (), (?self', fs2))
          else (Err (Corrupt JournalDescriptorTagChecksum), (?self, fs2)))"
        using n Cons rd Ok len crc
        by (simp add: process_tag_def bindc_def lift_def gets_fst_def modify_fst_def Let_def on_snd_def gets_def
            Checksum_defs data_checksum_def require_def)
      have t: "tag_target disk fs0 jsb seq tag bs r = (if ?ok then Ok b else Err (Corrupt JournalDescriptorTagChecksum))"
        using Cons Ok by (simp add: tag_target_def require_def)
      show ?thesis unfolding e t using rd(2) l Cons dl by (auto simp: loader_at_def)
    qed (use n Cons rd len in \<open>simp_all add: process_tag_def tag_target_def bindc_def lift_def gets_fst_def Let_def block_read_spec_not\<close>)
  qed
qed

lemma process_tags_run:
  assumes "device_complete fs0"
  shows "good disk fs0 fs \<Longrightarrow> loader_at disk fs0 self (m, u, rv) seq (bs, r) \<Longrightarrow>
     outputs DescriptorBlockTagIter_next tags (ts, te) \<Longrightarrow>
     \<exists>self' fs'. process_tags jsb tags (self, fs) =
       (bind_o (match_tags disk fs0 jsb seq ts te bs r) (\<lambda>_. Ok ()), (self', fs')) \<and>
     good disk fs0 fs' \<and> bl_block_map self' = m \<and>
     (\<forall>ps bs'. match_tags disk fs0 jsb seq ts te bs r = Ok (ps, bs') \<longrightarrow>
        loader_at disk fs0 self' (m, u ++ map_of (rev ps), rv) seq (bs', r))"
proof (induction ts arbitrary: self fs u bs tags)
  case Nil
  have m: "bl_block_map self = m" using Nil(2) by (simp add: loader_at_def)
  show ?case
  proof (cases te)
    case None
    with Nil(3) obtain it where "DescriptorBlockTagIter_next tags = (Ok None, it)" by (auto elim: outputs_endD)
    with Nil m None show ?thesis by (simp add: process_tags.simps[of jsb tags] ret_def)
  next
    case (Some e)
    with Nil(3) obtain it where "DescriptorBlockTagIter_next tags = (Err e, it)" by (auto elim: outputs_errD)
    with Nil m Some show ?thesis by (simp add: process_tags.simps[of jsb tags] lift_def)
  qed
next
  case (Cons t ts)
  obtain it where it: "DescriptorBlockTagIter_next tags = (Ok (Some t), it)" "outputs DescriptorBlockTagIter_next it (ts, te)"
    using outputs_ConsD[OF Cons(4)] .
  let ?t = "tag_target disk fs0 jsb seq t bs r"
  obtain self1 fs1 where p: "process_tag jsb t (self, fs) = (bind_o ?t (\<lambda>_. Ok ()), (self1, fs1))" "good disk fs0 fs1"
    "bl_block_map self1 = m"
    "\<And>b. ?t = Ok b \<Longrightarrow> loader_at disk fs0 self1 (m, u(dt_block_index t \<mapsto> b), rv) seq (tl bs, r)"
    using process_tag_run[OF assms Cons(2,3), of jsb t] by blast
  have u: "process_tags jsb tags = bindc (process_tag jsb t) (\<lambda>_. process_tags jsb it)"
    by (simp add: process_tags.simps[of jsb tags] it(1))
  show ?case
  proof (cases ?t)
    case (Ok b)
    from Cons(1)[OF p(2) p(4)[OF Ok] it(2)] obtain self2 fs2 where
      q: "process_tags jsb it (self1, fs1) = (bind_o (match_tags disk fs0 jsb seq ts te (tl bs) r) (\<lambda>_. Ok ()), (self2, fs2))"
      "good disk fs0 fs2" "bl_block_map self2 = m"
      "\<And>ps bs'. match_tags disk fs0 jsb seq ts te (tl bs) r = Ok (ps, bs') \<Longrightarrow>
        loader_at disk fs0 self2 (m, u(dt_block_index t \<mapsto> b) ++ map_of (rev ps), rv) seq (bs', r)" by blast
    have "bind_o (bind_o (match_tags disk fs0 jsb seq ts te (tl bs) r) (\<lambda>(ps, bs'). Ok ((dt_block_index t, b) # ps, bs'))) (\<lambda>_. Ok ()) =
        bind_o (match_tags disk fs0 jsb seq ts te (tl bs) r) (\<lambda>_. Ok ())"
      by (cases "match_tags disk fs0 jsb seq ts te (tl bs) r") auto
    with p(1) q Ok show ?thesis by (auto simp: u bindc_def)
  qed (use p in \<open>simp_all add: u bindc_def\<close>)
qed

text \<open>The checksums of the blocks never panic on a whole block.\<close>

lemma validate_ends:
  assumes "20 \<le> length block" and "length block \<le> usize_max"
  shows "validate_descriptor_block_checksum crc jsb block \<in> {Ok (), Err (Corrupt JournalDescriptorBlockChecksum)}"
    "validate_revocation_block_checksum crc jsb block \<in> {Ok (), Err (Corrupt JournalRevocationBlockChecksum)}"
    "validate_commit_block_checksum crc jsb block \<in> {Ok (), Err (Corrupt JournalCommitBlockChecksum)}"
  using assms
  by (auto simp: validate_descriptor_block_checksum_def validate_revocation_block_checksum_def
      validate_commit_block_checksum_def usize_sub_def slice_def get_range_def Let_def)

lemma revoked_in_ends: "revoked_in block \<noteq> Panic" "revoked_in block \<noteq> Diverge"
proof -
  have "\<exists>xs. revoked_in block = Ok xs \<or> (\<exists>e. revoked_in block = Err e)"
  proof (cases "unat (u32be_at block 12) mod 8 \<noteq> 0 \<or> length (drop 16 (take (length block - 4) block)) < unat (u32be_at block 12)")
    case False
    then have "length (take (unat (u32be_at block 12)) (drop 16 (take (length block - 4) block))) = unat (u32be_at block 12)"
      by simp
    with False revocation_loop_table[of "take (unat (u32be_at block 12)) (drop 16 (take (length block - 4) block))" "[]"]
    show ?thesis by (auto simp: revoked_in_def Let_def)
  qed (simp add: revoked_in_def Let_def)
  then show "revoked_in block \<noteq> Panic" "revoked_in block \<noteq> Diverge" by auto
qed

lemma block_bounds:
  assumes "good disk fs0 fs"
  shows "1024 \<le> block_bytes fs0" "block_bytes fs0 \<le> usize_max"
  using assms fs_ok_block_size[of disk fs] good_sel(1)[OF assms]
    valid_block_size_bounds[of "sb_block_size (fs_superblock fs0)"] valid_block_size_le_usize[of "sb_block_size (fs_superblock fs0)"]
  by (auto simp: good_def fs_ok_def valid_superblock_def)

text \<open>What a call of \<open>process_next\<close> leaves behind, from the record at the block.\<close>

definition record_done :: "(nat \<Rightarrow> u8) \<Rightarrow> Ext4 \<Rightarrow> Replay \<Rightarrow> u32 \<Rightarrow> Ext4Error option \<Rightarrow>
    (LogRecord \<times> FsBlockIndex list) option result \<Rightarrow> unit result \<Rightarrow> BlockMapLoader \<Rightarrow> bool" where
  "record_done disk fs0 st seq r q res self =
     (case q of
        Err e \<Rightarrow> res = Err e \<and> bl_block_map self = fst st
      | Ok None \<Rightarrow> res = Ok () \<and> bl_is_done self \<and> bl_block_map self = fst st
      | Ok (Some (rc, bs)) \<Rightarrow>
          if rc = Commit \<and> seq = - 1
          then res = Err (Corrupt JournalSequenceOverflow) \<and> bl_block_map self = fst (log_step rc st)
          else res = Ok () \<and> loader_at disk fs0 self (log_step rc st) (if rc = Commit then seq + 1 else seq) (bs, r)
      | _ \<Rightarrow> False)"

lemma match_tags_ends:
  "\<exists>x. match_tags disk fs jsb seq ts te bs r = Ok x \<or> (\<exists>e. match_tags disk fs jsb seq ts te bs r = Err e)"
proof (induction ts arbitrary: bs)
  case Nil
  then show ?case by (cases te) simp_all
next
  case (Cons t ts)
  have "\<exists>b. tag_target disk fs jsb seq t bs r = Ok b \<or> (\<exists>e. tag_target disk fs jsb seq t bs r = Err e)"
    by (auto simp: tag_target_def block_read_spec_def require_def split: list.split option.split)
  with Cons[of "tl bs"] show ?case by auto
qed

lemma process_descriptor_run:
  assumes "device_complete fs0" and "good disk fs0 fs" and "loader_at disk fs0 self (m, u, rv) seq (bs, r)"
  shows "\<exists>res self' fs'. process_descriptor_block jsb (self, fs) = (res, (self', fs')) \<and> good disk fs0 fs' \<and>
     record_done disk fs0 (m, u, rv) seq r
       (bind_o (validate_descriptor_block_checksum (fs_crc fs0) jsb (bl_block self)) (\<lambda>_.
        case tags_of (drop 12 (bl_block self)) of (ts, te) \<Rightarrow>
        bind_o (match_tags disk fs0 jsb seq ts te bs r) (\<lambda>(ps, bs'). Ok (Some (Descriptor ps, bs'))))) res self'"
proof -
  have len: "length (bl_block self) = block_bytes fs0" and m: "bl_block_map self = m" using assms(3) by (simp_all add: loader_at_def)
  note bb = block_bounds[OF assms(2)]
  obtain ts te where t: "tags_of (drop 12 (bl_block self)) = (ts, te)" by fastforce
  let ?v = "validate_descriptor_block_checksum (fs_crc fs0) jsb (bl_block self)"
  have sl: "(slice (bl_block self) HEADER_SIZE (length (bl_block self)) :: bytes result) = Ok (drop 12 (bl_block self))"
    using bb len by (simp add: HEADER_SIZE_def)
  have crc: "fs_crc fs = fs_crc fs0" using good_sel(3)[OF assms(2)] .
  consider "?v = Ok ()" | "?v = Err (Corrupt JournalDescriptorBlockChecksum)"
    using validate_ends(1)[of "bl_block self" "fs_crc fs0" jsb] bb len by auto
  then show ?thesis
  proof cases
    case 1
    have "outputs DescriptorBlockTagIter_next (DescriptorBlockTagIter_new (drop 12 (bl_block self))) (ts, te)"
      using tag_iter_outputs[of "drop 12 (bl_block self)"] t by simp
    from process_tags_run[OF assms(1,2,3) this, of jsb] obtain self' fs' where
      p: "process_tags jsb (DescriptorBlockTagIter_new (drop 12 (bl_block self))) (self, fs) =
         (bind_o (match_tags disk fs0 jsb seq ts te bs r) (\<lambda>_. Ok ()), (self', fs'))" "good disk fs0 fs'" "bl_block_map self' = m"
        "\<And>ps bs'. match_tags disk fs0 jsb seq ts te bs r = Ok (ps, bs') \<Longrightarrow>
           loader_at disk fs0 self' (m, u ++ map_of (rev ps), rv) seq (bs', r)" by blast
    have e: "process_descriptor_block jsb (self, fs) = (bind_o (match_tags disk fs0 jsb seq ts te bs r) (\<lambda>_. Ok ()), (self', fs'))"
      using p(1) 1 sl crc by (simp add: process_descriptor_block_def bindc_def gets_fst_def on_snd_def gets_def lift_def del: slice_eq_Ok)
    have "\<exists>x. match_tags disk fs0 jsb seq ts te bs r = Ok x \<or> (\<exists>e. match_tags disk fs0 jsb seq ts te bs r = Err e)"
      by (rule match_tags_ends)
    with e p 1 t show ?thesis by (auto simp: record_done_def)
  next
    case 2
    have "process_descriptor_block jsb (self, fs) = (Err (Corrupt JournalDescriptorBlockChecksum), (self, fs))"
      using 2 crc by (simp add: process_descriptor_block_def bindc_def gets_fst_def on_snd_def gets_def lift_def)
    with 2 assms(2) m show ?thesis by (simp add: record_done_def)
  qed
qed

lemma process_revocation_run:
  assumes "good disk fs0 fs" and "loader_at disk fs0 self (m, u, rv) seq (bs, r)"
  shows "\<exists>res self' fs'. process_revocation_block jsb (self, fs) = (res, (self', fs')) \<and> good disk fs0 fs' \<and>
     record_done disk fs0 (m, u, rv) seq r
       (bind_o (validate_revocation_block_checksum (fs_crc fs0) jsb (bl_block self)) (\<lambda>_.
        bind_o (revoked_in (bl_block self)) (\<lambda>xs. Ok (Some (Revocation xs, bs))))) res self'"
proof -
  have len: "length (bl_block self) = block_bytes fs0" and m: "bl_block_map self = m" "bl_revoked_blocks self = rv"
    using assms(2) by (simp_all add: loader_at_def)
  note bb = block_bounds[OF assms(1)]
  let ?v = "validate_revocation_block_checksum (fs_crc fs0) jsb (bl_block self)"
  have crc: "fs_crc fs = fs_crc fs0" using good_sel(3)[OF assms(1)] .
  have rd: "read_revocation_block_table (bl_block self) rv = bind_o (revoked_in (bl_block self)) (\<lambda>xs. Ok (rv @ xs))"
    by (rule read_revocation_block_table_eq) (use bb len in simp)
  have "?v = Ok () \<or> ?v = Err (Corrupt JournalRevocationBlockChecksum)"
    using validate_ends(2)[of "bl_block self" "fs_crc fs0" jsb] bb len by auto
  then show ?thesis
    using assms m crc rd revoked_in_ends[of "bl_block self"]
    by (cases "revoked_in (bl_block self)")
       (auto simp: process_revocation_block_def bindc_def gets_fst_def on_snd_def gets_def lift_def modify_fst_def
         record_done_def loader_at_def)
qed

lemma process_commit_run:
  assumes "good disk fs0 fs" and "loader_at disk fs0 self (m, u, rv) seq (bs, r)"
  shows "\<exists>res self' fs'. process_commit_block jsb (self, fs) = (res, (self', fs')) \<and> good disk fs0 fs' \<and>
     record_done disk fs0 (m, u, rv) seq r
       (bind_o (validate_commit_block_checksum (fs_crc fs0) jsb (bl_block self)) (\<lambda>_. Ok (Some (Commit, bs)))) res self'"
proof -
  have len: "length (bl_block self) = block_bytes fs0" and m: "bl_block_map self = m" "bl_revoked_blocks self = rv"
    "bl_uncommitted_block_map self = u" "bl_sequence self = seq"
    using assms(2) by (simp_all add: loader_at_def)
  note bb = block_bounds[OF assms(1)]
  let ?v = "validate_commit_block_checksum (fs_crc fs0) jsb (bl_block self)"
  have crc: "fs_crc fs = fs_crc fs0" using good_sel(3)[OF assms(1)] .
  have inc: "checked_add seq 1 = (if seq = - 1 then None else Some (seq + 1))"
  proof -
    have "seq = - 1 \<longleftrightarrow> unat seq = 4294967295" by (simp add: word_unat_eq_iff unsigned_minus_1_eq_mask mask_eq_exp_minus_1)
    then show ?thesis using unat_less_bound[of seq] by (auto simp: checked_add_def)
  qed
  have "?v = Ok () \<or> ?v = Err (Corrupt JournalCommitBlockChecksum)"
    using validate_ends(3)[of "bl_block self" "fs_crc fs0" jsb] bb len by auto
  then show ?thesis
    using assms m crc inc
    by (auto simp: process_commit_block_def bindc_def gets_fst_def on_snd_def gets_def lift_def modify_fst_def
         record_done_def loader_at_def)
qed

lemma process_next_run:
  assumes "device_complete fs0" and "good disk fs0 fs" and "loader_at disk fs0 self (m, u, rv) seq (bs, r)"
    and "bl_block_index self = b"
  shows "\<exists>res self' fs'. process_next jsb (self, fs) = (res, (self', fs')) \<and> good disk fs0 fs' \<and>
     record_done disk fs0 (m, u, rv) seq r (journal_record disk fs0 jsb seq b bs r) res self'"
proof -
  have len: "length (bl_block self) = block_bytes fs0" and m: "bl_block_map self = m" "bl_sequence self = seq"
    using assms(3) by (simp_all add: loader_at_def)
  obtain fs1 where rd: "on_snd (read_from_block b 0 (block_bytes fs0)) (self, fs) =
      (block_read_spec disk fs0 b 0 (block_bytes fs0), (self, fs1))" and g: "good disk fs0 fs1"
    by (rule block_read_run[OF assms(1,2)])
  show ?thesis
  proof (cases "block_read_spec disk fs0 b 0 (block_bytes fs0)")
    case (Ok block)
    have bl: "length block = block_bytes fs0" by (rule block_read_spec_Ok_length[OF Ok])
    have h: "JournalBlockHeader_read_bytes block = Ok (header_of block)"
      by (rule JournalBlockHeader_read_bytes_eq) (use block_bounds(1)[OF g] bl in simp)
    let ?self = "self\<lparr>bl_block := block\<rparr>"
    have l: "loader_at disk fs0 ?self (m, u, rv) seq (bs, r)" using assms(3) bl by (simp add: loader_at_def)
    note u = process_next_def bindc_def gets_fst_def modify_fst_def lift_def assms(4) len rd Ok h
    show ?thesis
    proof (cases "header_of block")
      case None
      with Ok m g show ?thesis by (simp add: u journal_record_def record_done_def)
    next
      case (Some hd)
      note v = u Some m require_def journal_record_def
      show ?thesis
        using process_descriptor_run[OF assms(1) g l, of jsb] process_revocation_run[OF g l, of jsb]
          process_commit_run[OF g l, of jsb] m g
        by (simp add: v) (simp add: record_done_def m)
    qed
  qed (use rd g m in \<open>simp_all add: process_next_def bindc_def gets_fst_def assms(4) len journal_record_def record_done_def block_read_spec_not\<close>)
qed

text \<open>One round of the loop, and the whole loop.\<close>

lemma load_round_end:
  assumes "device_complete fs0" and "good disk fs0 fs" and "loader_at disk fs0 self st seq ([], r)"
  shows "\<exists>self' fs'. load_round jsb (self, fs) = (case r of None \<Rightarrow> Ok (Some ()) | Some e \<Rightarrow> Err e, (self', fs')) \<and>
     good disk fs0 fs' \<and> bl_block_map self' = fst st"
proof -
  have m: "bl_block_map self = fst st" using assms(3) by (cases st) (simp add: loader_at_def)
  obtain sk fs1 where "loader_next (self, fs) = (first_item ([], r), (self\<lparr>bl_journal_block_iter := sk\<rparr>, fs1))"
    "good disk fs0 fs1"
    using loader_next_run[OF assms] by blast
  with m show ?thesis by (cases r) (simp_all add: load_round_def bindc_def ret_def)
qed

lemma load_round_record:
  assumes "device_complete fs0" and "good disk fs0 fs" and "loader_at disk fs0 self st seq (b # bs, r)"
  obtains res self' fs' where "load_round jsb (self, fs) = (case res of
        Ok _ \<Rightarrow> (Ok (if bl_is_done self' then Some () else None), (self', fs'))
      | Err err \<Rightarrow> (case err of Corrupt _ \<Rightarrow> (Ok (Some ()), (self', fs')) | _ \<Rightarrow> (Err err, (self', fs')))
      | Panic \<Rightarrow> (Panic, (self', fs')) | Diverge \<Rightarrow> (Diverge, (self', fs')))"
    "good disk fs0 fs'" "record_done disk fs0 st seq r (journal_record disk fs0 jsb seq b bs r) res self'"
proof -
  obtain m u rv where st: "st = (m, u, rv)" by (cases st)
  obtain sk fs1 where n: "loader_next (self, fs) = (first_item (b # bs, r), (self\<lparr>bl_journal_block_iter := sk\<rparr>, fs1))"
    and g1: "good disk fs0 fs1" and l: "loader_at disk fs0 (self\<lparr>bl_journal_block_iter := sk\<rparr>) st seq (bs, r)"
    using loader_next_run[OF assms] by auto
  let ?self = "self\<lparr>bl_journal_block_iter := sk, bl_block_index := b\<rparr>"
  have "loader_at disk fs0 ?self (m, u, rv) seq (bs, r)" using l st by (simp add: loader_at_def)
  from process_next_run[OF assms(1) g1 this, of b jsb] obtain res self' fs' where
    p: "process_next jsb (?self, fs1) = (res, (self', fs'))" "good disk fs0 fs'"
    "record_done disk fs0 (m, u, rv) seq r (journal_record disk fs0 jsb seq b bs r) res self'" by auto
  show ?thesis
    by (rule that[OF _ p(2) p(3)[folded st]]) (use n p(1) in \<open>simp add: load_round_def bindc_def modify_fst_def\<close>)
qed

lemma load_loop_run:
  assumes "device_complete fs0"
  shows "good disk fs0 fs \<Longrightarrow> loader_at disk fs0 self st seq (bs, r) \<Longrightarrow>
     \<exists>res self' fs'. result_iter_loop (\<lambda>_. False) (\<lambda>s. s) (load_round jsb) (self, fs) = Some (res, (self', fs')) \<and>
       good disk fs0 fs' \<and>
       (case journal_log disk fs0 jsb seq bs r of
          (rs, None) \<Rightarrow> res = Ok (Some ()) \<and> bl_block_map self' = fst (fold log_step rs st)
        | (rs, Some e) \<Rightarrow> res = Err e)"
proof (induction "length bs" arbitrary: bs seq self fs st rule: less_induct)
  case less
  note loop = result_iter_loop.simps[of _ _ _ "(self, fs)"]
  show ?case
  proof (cases bs)
    case Nil
    from load_round_end[OF assms less(2) less(3)[unfolded Nil], of jsb] show ?thesis
      by (cases r) (auto simp: loop Nil)
  next
    case (Cons b cs)
    let ?q = "journal_record disk fs0 jsb seq b cs r"
    obtain m u rv where st: "st = (m, u, rv)" by (cases st)
    obtain res self' fs' where e: "load_round jsb (self, fs) = (case res of
        Ok _ \<Rightarrow> (Ok (if bl_is_done self' then Some () else None), (self', fs'))
      | Err err \<Rightarrow> (case err of Corrupt _ \<Rightarrow> (Ok (Some ()), (self', fs')) | _ \<Rightarrow> (Err err, (self', fs')))
      | Panic \<Rightarrow> (Panic, (self', fs')) | Diverge \<Rightarrow> (Diverge, (self', fs')))"
      and g: "good disk fs0 fs'" and d: "record_done disk fs0 st seq r ?q res self'"
      by (rule load_round_record[OF assms less(2) less(3)[unfolded Cons]])
    show ?thesis
    proof (cases "\<exists>rc bs'. ?q = Ok (Some (rc, bs')) \<and> \<not> (rc = Commit \<and> seq = - 1)")
      case True
      then obtain rc bs' where q: "?q = Ok (Some (rc, bs'))" "\<not> (rc = Commit \<and> seq = - 1)" by blast
      let ?seq = "if rc = Commit then seq + 1 else seq"
      have l': "res = Ok ()" "loader_at disk fs0 self' (log_step rc st) ?seq (bs', r)"
        using d q by (simp_all add: record_done_def st)
      have "length bs' < length bs" using journal_record_rest[OF q(1)] Cons by simp
      from less(1)[OF this g l'(2)] l'(1) q show ?thesis
        using l'(2)[unfolded loader_at_def]
        by (cases "journal_log disk fs0 jsb ?seq bs' r"; cases "snd (journal_log disk fs0 jsb ?seq bs' r)")
           (auto simp: loop e Cons split: if_splits)
    next
      case False
      with g d show ?thesis
        by (cases ?q) (auto simp: loop e record_done_def Cons st split: option.splits Ext4Error.splits if_splits)
    qed
  qed
qed

section \<open>Loading the journal\<close>

text \<open>The map of a journal file with the blocks \<open>bs\<close>.\<close>

definition journal_spec :: "(nat \<Rightarrow> u8) \<Rightarrow> Ext4 \<Rightarrow> JournalSuperblock \<Rightarrow> FsBlockIndex list \<Rightarrow> Ext4Error option \<Rightarrow> JournalBlockMap result" where
  "journal_spec disk fs jsb bs r =
     (let start = unat (js_start_block jsb) in
      case journal_log disk fs jsb (js_sequence jsb) (drop start bs) (if start \<le> length bs then r else None) of
        (rs, None) \<Rightarrow> Ok (journal_map rs)
      | (rs, Some e) \<Rightarrow> Err e)"

lemma load_block_map_computes:
  assumes "device_complete fs0" and "good disk fs0 fs" and "FileBlocks_new inode = Ok fb" and "fb_seq disk fs0 fb (bs, r)"
  shows "computes disk fs0 fs (load_block_map jsb inode) (journal_spec disk fs0 jsb bs r)"
proof -
  let ?n = "unat (js_start_block jsb)"
  obtain self where new: "BlockMapLoader_new fs jsb inode = Ok self"
    and at: "loader_at disk fs0 self (Map.empty, Map.empty, []) (js_sequence jsb) (drop ?n bs, if ?n \<le> length bs then r else None)"
    using sk_seq_start[OF assms(1,4), of ?n] good_sel(1)[OF assms(2)] assms(3)
    by (auto simp: BlockMapLoader_new_def Let_def loader_at_def usize_from_u32_def BlockSize_to_usize_def)
  let ?log = "journal_log disk fs0 jsb (js_sequence jsb) (drop ?n bs) (if ?n \<le> length bs then r else None)"
  from load_loop_run[OF assms(1,2) at, of jsb] obtain res self' fs' where
    run: "result_iter_loop (\<lambda>_. False) (\<lambda>s. s) (load_round jsb) (self, fs) = Some (res, (self', fs'))" "good disk fs0 fs'"
      "case ?log of (rs, None) \<Rightarrow> res = Ok (Some ()) \<and> bl_block_map self' = fst (fold log_step rs (Map.empty, Map.empty, []))
        | (rs, Some e) \<Rightarrow> res = Err e" by (elim exE conjE)
  have "load_loop jsb (self, fs) = (journal_spec disk fs0 jsb bs r, (self', fs'))"
    using run(1,3)
    by (cases ?log; cases "snd ?log")
       (auto simp: load_loop_def result_iter_next_def bindc_def gets_fst_def journal_spec_def Let_def journal_map_def
         replay_transactions)
  with new run(2) show ?thesis
    by (simp add: computes_def load_block_map_def with_iter_def bindc_def gets_def lift_def)
qed

definition journal_superblock_spec :: "(nat \<Rightarrow> u8) \<Rightarrow> Ext4 \<Rightarrow> FsBlockIndex list \<Rightarrow> Ext4Error option \<Rightarrow> JournalSuperblock result" where
  "journal_superblock_spec disk fs bs r =
     bind_o (first_item (bs, r)) (\<lambda>item.
     bind_o (ok_or (Corrupt JournalSize) item) (\<lambda>b.
     bind_o (block_read_spec disk fs b 0 1024) (\<lambda>block.
     bind_o (JournalSuperblock_read_bytes (fs_crc fs) block) (\<lambda>jsb.
     bind_o (require (js_block_size jsb = sb_block_size (fs_superblock fs)) (Corrupt JournalBlockSize)) (\<lambda>_. Ok jsb)))))"

lemma with_iter_next_computes:
  assumes "device_complete fs0" and "good disk fs0 fs" and "fb_seq disk fs0 fb (bs, r)"
  shows "computes disk fs0 fs (with_iter fb FileBlocks_next) (first_item (bs, r))"
proof -
  obtain q fb' fs' where n: "FileBlocks_next (fb, fs) = (q, (fb', fs'))" by (metis surj_pair)
  have "good disk fs0 fs'" using blind_same[OF FileBlocks_next_blind[OF assms(1)] assms(2,2) n] by blast
  moreover have "outputs FileBlocks_next (fb, fs) (bs, r)" using assms(2,3) by (simp add: fb_seq_def)
  then have "q = first_item (bs, r)" using n by (cases bs; cases r) (auto elim: outputs_ConsD outputs_endD outputs_errD)
  ultimately show ?thesis using n by (simp add: computes_def with_iter_def)
qed

lemma JournalSuperblock_load_computes:
  assumes "device_complete fs0" and "good disk fs0 fs" and "FileBlocks_new inode = Ok fb" and "fb_seq disk fs0 fb (bs, r)"
  shows "computes disk fs0 fs (JournalSuperblock_load inode) (journal_superblock_spec disk fs0 bs r)"
proof -
  show ?thesis
    unfolding JournalSuperblock_load_def journal_superblock_spec_def assms(3) bindc_lift_Ok
  proof (rule computes_bind[OF with_iter_next_computes[OF assms(1,2,4)]], rule computes_lift_bind, assumption, rule computes_bind)
    fix item fs1 b assume "good disk fs0 fs1"
    then show "computes disk fs0 fs1 (read_from_block b 0 SUPERBLOCK_SIZE) (block_read_spec disk fs0 b 0 1024)"
      unfolding SUPERBLOCK_SIZE_def by (rule computes_read[OF _ assms(1)]) simp
  next
    fix block fs1 assume g: "good disk fs0 fs1"
    show "computes disk fs0 fs1 (bindc (gets (\<lambda>fs. fs)) (\<lambda>fs.
       bindc (lift (JournalSuperblock_read_bytes (fs_crc fs) block)) (\<lambda>superblock.
       bindc (lift (require (js_block_size superblock = sb_block_size (fs_superblock fs)) (Corrupt JournalBlockSize))) (\<lambda>_.
       ret superblock))))
      (bind_o (JournalSuperblock_read_bytes (fs_crc fs0) block) (\<lambda>jsb.
       bind_o (require (js_block_size jsb = sb_block_size (fs_superblock fs0)) (Corrupt JournalBlockSize)) (\<lambda>_. Ok jsb)))"
      using g good_sel[OF g] by (cases "JournalSuperblock_read_bytes (fs_crc fs0) block")
        (simp_all add: computes_def bindc_def gets_def lift_def ret_def require_def)
  qed
qed

text \<open>C2: Loading the journal replays its log. The blocks of the journal file from the start block on are
  parsed into descriptors, revocations and commits with the expected sequence numbers and checksums,
  up to the first block that is not part of the log or is corrupt; the result maps a block to the last
  copy that a committed transaction wrote and did not revoke, later transactions taking precedence, and
  transactions without a commit block have no effect. Errors other than corruption are reported. The
  loop ends, and what the block cache holds does not matter.\<close>

theorem load_block_map_replays_log:
  assumes "fs_ok disk fs" and "device_complete fs"
    and "FileBlocks_new journal_inode = Ok fb" and "outputs FileBlocks_next (fb, fs) (bs, r)"
  shows "fst (load_block_map superblock journal_inode fs) = journal_spec disk fs superblock bs r \<and>
     fs_ok disk (snd (load_block_map superblock journal_inode fs)) \<and>
     same_fs fs (snd (load_block_map superblock journal_inode fs))"
  using load_block_map_computes[OF assms(2) good_refl[OF assms(1)] assms(3)
      fb_seqI[OF assms(2) good_refl[OF assms(1)] assms(4)], of superblock]
  by (simp add: computes_def good_def)

lemma Journal_load_computes:
  assumes "device_complete fs0" and "inode_tables_ok fs0" and "good disk fs0 fs"
    and "sb_journal_inode (fs_superblock fs0) = Some i" and "inode_spec disk fs0 i = Ok inode"
    and "FileBlocks_new inode = Ok fb" and "fb_seq disk fs0 fb (bs, r)"
  shows "computes disk fs0 fs Journal_load
     (bind_o (journal_superblock_spec disk fs0 bs r) (\<lambda>jsb. journal_spec disk fs0 jsb bs r))"
proof -
  have "computes disk fs0 fs (Inode_read i) (Ok inode)" using Inode_read_computes[OF assms(1-3), of i] assms(5) by simp
  then have "computes disk fs0 fs (bindc (Inode_read i) (\<lambda>inode. bindc (JournalSuperblock_load inode) (\<lambda>jsb. load_block_map jsb inode)))
     (bind_o (Ok inode) (\<lambda>_. bind_o (journal_superblock_spec disk fs0 bs r) (\<lambda>jsb. journal_spec disk fs0 jsb bs r)))"
    by (rule computes_bind) (auto intro!: computes_bind[OF JournalSuperblock_load_computes] load_block_map_computes assms(1,6,7))
  then show ?thesis
    using good_sel(1)[OF assms(3)] assms(4) by (simp add: Journal_load_def computes_def bindc_def gets_def)
qed

lemma Journal_load_without:
  assumes "sb_journal_inode (fs_superblock fs) = None"
  shows "Journal_load fs = (Ok Journal_empty, fs)"
  using assms by (simp add: Journal_load_def bindc_def gets_def ret_def)

section \<open>Where the map points\<close>

lemma tag_target_in: "tag_target disk fs jsb seq t bs r = Ok b \<Longrightarrow> b \<in> set bs"
  by (cases bs) (auto simp: tag_target_def split: option.splits)

lemma match_tags_in:
  "match_tags disk fs jsb seq ts te bs r = Ok (ps, bs') \<Longrightarrow> snd ` set ps \<subseteq> set bs \<and> set bs' \<subseteq> set bs"
proof (induction ts arbitrary: bs ps)
  case Nil
  then show ?case by (cases te) auto
next
  case (Cons t ts)
  then obtain b ps' where "tag_target disk fs jsb seq t bs r = Ok b" "match_tags disk fs jsb seq ts te (tl bs) r = Ok (ps', bs')"
    "ps = (dt_block_index t, b) # ps'" by (auto split: prod.splits)
  with Cons(1)[of "tl bs" ps'] tag_target_in show ?case by (cases bs) fastforce+
qed

lemma journal_record_in:
  assumes "journal_record disk fs jsb seq b bs r = Ok (Some (rc, bs'))"
  shows "snd ` set (writes rc) \<subseteq> set bs \<and> set bs' \<subseteq> set bs"
  using assms match_tags_in
  by (fastforce simp: journal_record_def split: option.splits if_splits prod.splits)

lemma journal_log_in:
  "rc \<in> set (fst (journal_log disk fs jsb seq bs r)) \<Longrightarrow> snd ` set (writes rc) \<subseteq> set bs"
proof (induction disk fs jsb seq bs r rule: journal_log.induct)
  case (2 disk fs jsb seq b bs r)
  show ?case
  proof (cases "\<exists>rc bs'. journal_record disk fs jsb seq b bs r = Ok (Some (rc, bs'))")
    case True
    then obtain rc' bs' where q: "journal_record disk fs jsb seq b bs r = Ok (Some (rc', bs'))" by blast
    note i = journal_record_in[OF q]
    show ?thesis
    proof (cases "rc = rc'")
      case False
      with 2 q i show ?thesis by (fastforce split: if_splits)
    qed (use i in auto)
  next
    case False
    with 2(3) show ?thesis
      by (cases "journal_record disk fs jsb seq b bs r") (auto split: option.splits Ext4Error.splits)
  qed
qed simp

lemma transactions_in: "t \<in> set (transactions rs) \<Longrightarrow> set t \<subseteq> set rs"
proof (induction rs rule: transactions.induct)
  case (1 rs)
  then have c: "Commit \<in> set rs" by (auto simp: transactions.simps[of rs] split: if_splits)
  have "set (tl ys) \<subseteq> set ys" for ys :: "LogRecord list" by (cases ys) auto
  then have "set (tl (dropWhile (\<lambda>rc. rc \<noteq> Commit) rs)) \<subseteq> set rs"
    using set_dropWhileD[of _ "\<lambda>rc. rc \<noteq> Commit" rs] by blast
  with 1 c set_takeWhileD show ?case by (fastforce simp: transactions.simps[of rs])
qed

lemma transaction_map_ran: "ran (transaction_map rs) \<subseteq> (\<Union>rc \<in> set rs. snd ` set (writes rc))"
  by (auto simp: transaction_map_def ran_def dest!: map_of_SomeD split: if_splits) force

lemma journal_map_ran: "ran (journal_map rs) \<subseteq> (\<Union>rc \<in> set rs. snd ` set (writes rc))"
proof -
  have "ran (foldl (++) m (map transaction_map ts)) \<subseteq> ran m \<union> (\<Union>t \<in> set ts. ran (transaction_map t))" for m ts
  proof (induction ts arbitrary: m)
    case (Cons t ts)
    have "ran (m ++ transaction_map t) \<subseteq> ran m \<union> ran (transaction_map t)" by (auto simp: ran_def map_add_Some_iff)
    with Cons[of "m ++ transaction_map t"] show ?case by auto
  qed simp
  from this[of Map.empty "transactions rs"] transaction_map_ran transactions_in show ?thesis
    unfolding journal_map_def by fastforce
qed

lemma journal_spec_ran:
  assumes "journal_spec disk fs superblock bs r = Ok m"
  shows "ran m \<subseteq> set (drop (unat (js_start_block superblock)) bs)"
proof -
  let ?n = "unat (js_start_block superblock)"
  obtain rs where l: "journal_log disk fs superblock (js_sequence superblock) (drop ?n bs)
      (if ?n \<le> length bs then r else None) = (rs, None)" and m: "m = journal_map rs"
    using assms by (auto simp: journal_spec_def Let_def split: prod.splits option.splits)
  show ?thesis
    using journal_map_ran[of rs] journal_log_in[of _ disk fs superblock "js_sequence superblock" "drop ?n bs"
        "if ?n \<le> length bs then r else None"] l m
    by fastforce
qed

text \<open>Every block that the journal map substitutes for another one is a block of the journal file, at or behind
  the start of the log.\<close>

theorem journal_map_targets_in_journal:
  assumes "fs_ok disk fs" and "device_complete fs"
    and "FileBlocks_new journal_inode = Ok fb" and "outputs FileBlocks_next (fb, fs) (bs, r)"
    and "fst (load_block_map superblock journal_inode fs) = Ok m"
  shows "ran m \<subseteq> set (drop (unat (js_start_block superblock)) bs)"
proof -
  have "computes disk fs fs (load_block_map superblock journal_inode) (journal_spec disk fs superblock bs r)"
    by (rule load_block_map_computes[OF assms(2) good_refl[OF assms(1)] assms(3)
      fb_seqI[OF assms(2) good_refl[OF assms(1)] assms(4)]])
  with assms(5) have "journal_spec disk fs superblock bs r = Ok m" by (simp add: computes_def)
  then show ?thesis by (rule journal_spec_ran)
qed

section \<open>Revocations and earlier transactions\<close>

text \<open>A revocation only takes effect within its own transaction: a copy of the revoked block that an
  earlier transaction committed stays in the map when the revoking transaction is committed.\<close>

theorem revocation_keeps_earlier_commit:
  assumes "process_commit_block superblock (self, fs) = (Ok (), (self', fs'))"
    and "k \<in> set (bl_revoked_blocks self)" and "bl_block_map self k = Some b"
  shows "bl_block_map self' k = Some b"
proof -
  have "bl_block_map self' = bl_block_map self ++
      fold (\<lambda>k u. u(k := None)) (bl_revoked_blocks self) (bl_uncommitted_block_map self)"
    using assms(1)
    by (auto simp: process_commit_block_def bindc_def gets_fst_def on_snd_def gets_def lift_def modify_fst_def
        split: outcome.splits)
  with assms(2,3) show ?thesis by (simp add: fold_remove map_add_def)
qed

text \<open>A journal of three blocks: a descriptor with one tag, its data block, a commit block.\<close>

definition sample_tag :: DescriptorBlockTag where
  "sample_tag = \<lparr>dt_block_index = 12, dt_checksum = 0xffffffff, dt_flags = 0xa\<rparr>"

definition descriptor_image :: bytes where
  "descriptor_image = (to_be_bytes JOURNAL_MAGIC @ to_be_bytes (1 :: u32) @ to_be_bytes (3 :: u32)) @
     encode_tag (replicate 16 0) sample_tag @ replicate 992 0 @ to_be_bytes (0xffffffff :: u32)"

definition commit_image :: bytes where
  "commit_image = to_be_bytes JOURNAL_MAGIC @ to_be_bytes (2 :: u32) @ to_be_bytes (3 :: u32) @ replicate 4 0 @
     to_be_bytes (0xffffffff :: u32) @ replicate 1004 0"

definition journal_image :: bytes where
  "journal_image = replicate 7168 0 @ descriptor_image @ replicate 1024 0x5a @ commit_image @ replicate 6144 0"

definition sample_jsb :: JournalSuperblock where
  "sample_jsb = \<lparr>js_block_size = 1024, js_sequence = 3, js_start_block = 0, js_uuid = replicate 16 0\<rparr>"

lemma image_lengths: "length descriptor_image = 1024" "length commit_image = 1024" "length journal_image = 16384"
  by (simp_all add: descriptor_image_def commit_image_def journal_image_def encode_tag_def sample_tag_def contains_def)

lemma journal_image_blocks:
  "block_read_spec (disk_of journal_image) (sample_fs journal_image) 7 0 1024 = Ok descriptor_image"
  "block_read_spec (disk_of journal_image) (sample_fs journal_image) 8 0 1024 = Ok (replicate 1024 0x5a)"
  "block_read_spec (disk_of journal_image) (sample_fs journal_image) 9 0 1024 = Ok commit_image"
proof -
  let ?a = "replicate 7168 0 :: bytes" and ?d = "replicate 1024 0x5a :: bytes" and ?z = "replicate 6144 0 :: bytes"
  have "disk_range (disk_of journal_image) 7168 1024 = descriptor_image"
    using disk_range_disk_of[of ?a descriptor_image "?d @ commit_image @ ?z"] image_lengths by (simp add: journal_image_def)
  moreover have "disk_range (disk_of journal_image) 8192 1024 = ?d"
    using disk_range_disk_of[of "?a @ descriptor_image" ?d "commit_image @ ?z"] image_lengths by (simp add: journal_image_def)
  moreover have "disk_range (disk_of journal_image) 9216 1024 = commit_image"
    using disk_range_disk_of[of "?a @ descriptor_image @ ?d" commit_image ?z] image_lengths by (simp add: journal_image_def)
  ultimately show
    "block_read_spec (disk_of journal_image) (sample_fs journal_image) 7 0 1024 = Ok descriptor_image"
    "block_read_spec (disk_of journal_image) (sample_fs journal_image) 8 0 1024 = Ok ?d"
    "block_read_spec (disk_of journal_image) (sample_fs journal_image) 9 0 1024 = Ok commit_image"
    by (simp_all add: block_read_spec_def readable_def sample_superblock_def)
qed

lemma descriptor_image_parts:
  "header_of descriptor_image = Some \<lparr>jh_block_type = 1, jh_sequence = 3\<rparr>"
  "tags_of (drop 12 descriptor_image) = ([sample_tag], None)"
  "u32be_at descriptor_image 1020 = 0xffffffff"
proof -
  let ?m = "to_be_bytes JOURNAL_MAGIC"
  show "header_of descriptor_image = Some \<lparr>jh_block_type = 1, jh_sequence = 3\<rparr>"
    using u32be_at_append[of "[]" 0] u32be_at_append[of ?m 4] u32be_at_append[of "?m @ to_be_bytes (1 :: u32)" 8]
    by (simp add: header_of_def descriptor_image_def)
  show "tags_of (drop 12 descriptor_image) = ([sample_tag], None)"
    using tags_of_encode[of "replicate 16 0" "[]" sample_tag]
    by (simp add: descriptor_image_def) (simp add: sample_tag_def contains_def)
  show "u32be_at descriptor_image 1020 = 0xffffffff"
    using u32be_at_append[of "take 1020 descriptor_image" 1020 "0xffffffff" "[]"]
    by (simp add: descriptor_image_def encode_tag_def sample_tag_def contains_def)
qed

lemma commit_image_parts:
  "header_of commit_image = Some \<lparr>jh_block_type = 2, jh_sequence = 3\<rparr>" "u32be_at commit_image 16 = 0xffffffff"
proof -
  let ?m = "to_be_bytes JOURNAL_MAGIC" and ?t = "to_be_bytes (2 :: u32)" and ?s = "to_be_bytes (3 :: u32)"
  show "header_of commit_image = Some \<lparr>jh_block_type = 2, jh_sequence = 3\<rparr>"
    using u32be_at_append[of "[]" 0] u32be_at_append[of ?m 4] u32be_at_append[of "?m @ ?t" 8]
    by (simp add: header_of_def commit_image_def)
  show "u32be_at commit_image 16 = 0xffffffff"
    using u32be_at_append[of "?m @ ?t @ ?s @ replicate 4 0" 16 "0xffffffff" "replicate 1004 0"] by (simp add: commit_image_def)
qed

lemma sample_journal_log:
  "journal_log (disk_of journal_image) (sample_fs journal_image) sample_jsb 3 [7, 8, 9] None = ([Descriptor [(12, 8)], Commit], None)"
proof -
  let ?disk = "disk_of journal_image" and ?fs = "sample_fs journal_image"
  have bb: "block_bytes ?fs = 1024" by (simp add: sample_superblock_def)
  have v: "validate_descriptor_block_checksum (\<lambda>_ _. 0) sample_jsb descriptor_image = Ok ()"
    "validate_commit_block_checksum (\<lambda>_ _. 0) sample_jsb commit_image = Ok ()"
    using image_lengths descriptor_image_parts(3) commit_image_parts(2)
    by (simp_all add: validate_descriptor_block_checksum_def validate_commit_block_checksum_def usize_sub_def usize_max_def
        Checksum_finalize_def Let_def slice_def get_range_def)
  have t: "match_tags ?disk ?fs sample_jsb 3 [sample_tag] None [8, 9] None = Ok ([(12, 8)], [9])"
    using journal_image_blocks(2) bb
    by (simp add: tag_target_def data_checksum_def Checksum_finalize_def require_def del: bind_o_eq_Ok) (simp add: sample_tag_def)
  have 1: "journal_record ?disk ?fs sample_jsb 3 7 [8, 9] None = Ok (Some (Descriptor [(12, 8)], [9]))"
    using journal_image_blocks(1) bb descriptor_image_parts v t
    by (simp add: journal_record_def require_def del: bind_o_eq_Ok)
  have 2: "journal_record ?disk ?fs sample_jsb 3 9 [] None = Ok (Some (Commit, []))"
    using journal_image_blocks(3) bb commit_image_parts v
    by (simp add: journal_record_def require_def del: bind_o_eq_Ok)
  from 1 2 show ?thesis by simp
qed

lemma sample_journal_spec:
  "journal_spec (disk_of journal_image) (sample_fs journal_image) sample_jsb [7, 8, 9] None = Ok [12 \<mapsto> 8]"
proof -
  have "js_start_block sample_jsb = 0" "js_sequence sample_jsb = 3" by (simp_all add: sample_jsb_def)
  moreover have "journal_map [Descriptor [(12, 8)], Commit] = [12 \<mapsto> 8]"
    by (auto simp: journal_map_def transactions.simps transaction_map_def)
  ultimately show ?thesis
    unfolding journal_spec_def Let_def using sample_journal_log by (simp del: journal_log.simps)
qed

lemma sample_journal_blocks:
  "\<exists>fb. FileBlocks_new leaf_inode = Ok fb \<and> outputs FileBlocks_next (fb, sample_fs journal_image) ([7, 8, 9], None)"
  using leaf_inode_blocks[OF image_lengths(3)] good_refl[OF sample_fs_ok] by (auto simp: inode_blocks_def fb_seq_def)

theorem load_block_map_replays_log_witness:
  "fst (load_block_map sample_jsb leaf_inode (sample_fs journal_image)) = Ok [12 \<mapsto> 8]"
proof -
  obtain fb where "FileBlocks_new leaf_inode = Ok fb" "outputs FileBlocks_next (fb, sample_fs journal_image) ([7, 8, 9], None)"
    using sample_journal_blocks by blast
  from load_block_map_replays_log[OF sample_fs_ok sample_fs_complete[OF image_lengths(3)] this, of sample_jsb] sample_journal_spec
  show ?thesis by simp
qed

theorem journal_map_targets_in_journal_witness:
  "\<exists>m. fst (load_block_map sample_jsb leaf_inode (sample_fs journal_image)) = Ok m \<and> m 12 = Some 8 \<and> ran m \<subseteq> set [7, 8, 9]"
proof -
  note c = sample_fs_complete[OF image_lengths(3)]
  obtain fb where fb: "FileBlocks_new leaf_inode = Ok fb" "outputs FileBlocks_next (fb, sample_fs journal_image) ([7, 8, 9], None)"
    using sample_journal_blocks by blast
  have "fst (load_block_map sample_jsb leaf_inode (sample_fs journal_image)) = Ok [12 \<mapsto> 8]"
    using load_block_map_computes[OF c good_refl[OF sample_fs_ok] fb(1) fb_seqI[OF c good_refl[OF sample_fs_ok] fb(2)], of sample_jsb]
      sample_journal_spec by (simp add: computes_def)
  with journal_map_targets_in_journal[OF sample_fs_ok c fb this] show ?thesis by (simp add: sample_jsb_def)
qed

theorem revocation_keeps_earlier_commit_witness:
  "\<exists>self fs self' fs'. 12 \<in> set (bl_revoked_blocks self) \<and> process_commit_block sample_jsb (self, fs) = (Ok (), (self', fs')) \<and>
     bl_block_map self' 12 = Some 8"
proof -
  let ?fs = "sample_fs journal_image"
  obtain fb where "FileBlocks_new leaf_inode = Ok fb" using sample_journal_blocks by blast
  let ?self = "\<lparr>bl_block_map = [12 \<mapsto> 8], bl_uncommitted_block_map = Map.empty, bl_revoked_blocks = [12],
     bl_journal_block_iter = \<lparr>sk_iter = fb, sk_n = 0\<rparr>, bl_block_index = 9, bl_block = commit_image, bl_data_block = [],
     bl_sequence = 3, bl_is_done = False\<rparr>"
  have v: "validate_commit_block_checksum (\<lambda>_ _. 0) sample_jsb commit_image = Ok ()"
    using image_lengths commit_image_parts(2)
    by (simp add: validate_commit_block_checksum_def usize_max_def Checksum_finalize_def Let_def slice_def get_range_def)
  have "fst (process_commit_block sample_jsb (?self, ?fs)) = Ok ()"
    by (simp add: process_commit_block_def bindc_def gets_fst_def on_snd_def gets_def lift_def modify_fst_def v checked_add_def)
  then obtain self' fs' where p: "process_commit_block sample_jsb (?self, ?fs) = (Ok (), (self', fs'))"
    by (metis prod.collapse)
  from revocation_keeps_earlier_commit[OF p, of 12 8] p show ?thesis
    by (intro exI[of _ ?self] exI[of _ ?fs] exI[of _ self'] exI[of _ fs']) simp
qed

end
