(* ===== verification/Fs_Invariant.thy ===== *)
theory Fs_Invariant
  imports Resolve Journal
begin

text \<open>
  Every operation leaves the file system in a state that satisfies the invariant \<open>fs_ok\<close> and differs from the
  state before only in the block cache: whatever the device holds, and also if the operation ends in an error, a
  panic, or not at all. The rules for the combinators of the model are proved once, for any preorder that says how
  a state may evolve (the locale \<open>evolution\<close>), and the operations are then covered by following their
  definitions.
\<close>

definition keeps :: "('t \<Rightarrow> 't \<Rightarrow> bool) \<Rightarrow> ('t, 'a, 'e) comp \<Rightarrow> bool" where
  "keeps R m \<longleftrightarrow> (\<forall>t. R t (snd (m t)))"

named_theorems keeps_intros \<open>computations that only let the state evolve\<close>

lemma keeps_if [keeps_intros]: "keeps R m \<Longrightarrow> keeps R n \<Longrightarrow> keeps R (if b then m else n)"
  by simp

lemma keeps_let [keeps_intros]: "(\<And>x. keeps R (f x)) \<Longrightarrow> keeps R (let x = v in f x)"
  by simp

lemma keeps_case_option [keeps_intros]:
  "keeps R m \<Longrightarrow> (\<And>x. keeps R (f x)) \<Longrightarrow> keeps R (case v of None \<Rightarrow> m | Some x \<Rightarrow> f x)"
  by (cases v) auto

lemma keeps_case_prod [keeps_intros]: "(\<And>a b. keeps R (f a b)) \<Longrightarrow> keeps R (case p of (a, b) \<Rightarrow> f a b)"
  by (cases p) simp

lemma keepsD: "keeps R m \<Longrightarrow> m t = (r, t') \<Longrightarrow> R t t'"
  unfolding keeps_def by (metis snd_conv)

locale evolution =
  fixes R :: "'t \<Rightarrow> 't \<Rightarrow> bool"
  assumes stays: "R t t"
    and steps: "R t t' \<Longrightarrow> R t' t'' \<Longrightarrow> R t t''"
begin

lemma keeps_lift [keeps_intros]: "keeps R (lift r)"
  by (simp add: keeps_def lift_def stays)

lemma keeps_ret [keeps_intros]: "keeps R (ret x)"
  by (simp add: keeps_def ret_def stays)

lemma keeps_gets [keeps_intros]: "keeps R (gets f)"
  by (simp add: keeps_def gets_def stays)

lemma keeps_bindc [keeps_intros]:
  assumes "keeps R m" and "\<And>x. keeps R (f x)"
  shows "keeps R (bindc m f)"
  unfolding keeps_def
proof
  fix t
  obtain r t' where m: "m t = (r, t')" by fastforce
  have "R t t'" by (rule keepsD[OF assms(1) m])
  moreover have "R t' (snd (f x t'))" for x using assms(2) by (simp add: keeps_def)
  ultimately show "R t (snd (bindc m f t))" using m by (auto simp: bindc_def intro: steps split: outcome.split)
qed

text \<open>The loop of \<open>next\<close>, also if it does not end, and \<open>nth\<close>.\<close>

lemma keeps_loop:
  assumes n: "keeps R n" and d: "\<And>t. R t (set_done t)"
    and "result_iter_loop is_done set_done n s = Some y"
  shows "R s (snd y)"
  using assms(3)
proof (induction rule: iter_loop_induct)
  case (stop s r s')
  have "R s s'" by (rule keepsD[OF n stop(2)])
  with d show ?case by (cases r) (auto intro: steps)
next
  case (again s s' y)
  have "R s s'" by (rule keepsD[OF n again(2)])
  from steps[OF this again(3)] show ?case .
qed (simp add: stays)

lemma keeps_iter [keeps_intros]:
  assumes "keeps R n" and "\<And>t. R t (set_done t)"
  shows "keeps R (result_iter_next is_done set_done n)"
  unfolding keeps_def
proof
  fix t
  show "R t (snd (result_iter_next is_done set_done n t))"
    using keeps_loop[OF assms, of is_done t]
    by (cases "result_iter_loop is_done set_done n t") (auto simp: result_iter_next_def stays)
qed

lemma keeps_nth_item [keeps_intros]:
  assumes "keeps R nxt"
  shows "keeps R (nth_item nxt n)"
proof (induction n)
  case 0
  with assms show ?case by (simp add: keeps_def)
next
  case (Suc n)
  show ?case
    unfolding keeps_def
  proof
    fix t
    obtain r t' where m: "nxt t = (r, t')" by fastforce
    have "R t t'" by (rule keepsD[OF assms m])
    moreover have "R t' (snd (nth_item nxt n t'))" using Suc by (simp add: keeps_def)
    ultimately show "R t (snd (nth_item nxt (Suc n) t))"
      using m by (auto intro: steps split: outcome.split option.split)
  qed
qed

end

section \<open>How a file system evolves\<close>

definition fs_evolves :: "(nat \<Rightarrow> u8) \<Rightarrow> Ext4 \<Rightarrow> Ext4 \<Rightarrow> bool" where
  "fs_evolves disk fs fs' \<longleftrightarrow> (fs_ok disk fs \<longrightarrow> good disk fs fs')"

abbreviation it_evolves :: "(nat \<Rightarrow> u8) \<Rightarrow> 's \<times> Ext4 \<Rightarrow> 's \<times> Ext4 \<Rightarrow> bool" where
  "it_evolves disk s s' \<equiv> fs_evolves disk (snd s) (snd s')"

interpretation fsev: evolution "fs_evolves disk" for disk
proof
  show "fs_evolves disk t t" for t by (simp add: fs_evolves_def good_refl)
  show "fs_evolves disk t t''" if "fs_evolves disk t t'" "fs_evolves disk t' t''" for t t' t''
    using that good_trans by (auto simp: fs_evolves_def good_def)
qed

interpretation itev: evolution "it_evolves disk" for disk
  by unfold_locales (blast intro: fsev.stays fsev.steps)+

lemma keeps_read_from_block [keeps_intros]: "keeps (fs_evolves disk) (read_from_block b off n)"
proof -
  have "good disk fs (snd (read_from_block b off n fs))" if ok: "fs_ok disk fs" for fs
    using block_read_wp[OF ok, of b off n] good_refl[OF ok]
    by (cases "read_from_block b off n fs"; cases "fst (read_from_block b off n fs)") (auto simp: wp_def good_def)
  then show ?thesis by (simp add: keeps_def fs_evolves_def)
qed

text \<open>Iterators next to the file system.\<close>

lemma keeps_pair [keeps_intros]:
  "keeps (it_evolves disk) (modify_fst f)" "keeps (it_evolves disk) (gets_fst g)"
  by (simp_all add: keeps_def modify_fst_def gets_fst_def fsev.stays)

lemma keeps_on_snd [keeps_intros]: "keeps (fs_evolves disk) m \<Longrightarrow> keeps (it_evolves disk) (on_snd m)"
  by (auto simp: keeps_def on_snd_def split: prod.splits) (metis snd_conv)

lemma keeps_on_field [keeps_intros]:
  "keeps (it_evolves disk) m \<Longrightarrow> keeps (it_evolves disk) (on_field get put m)"
  by (auto simp: keeps_def on_field_def split: prod.splits) (metis snd_conv)

lemma keeps_with_iter [keeps_intros]: "keeps (it_evolves disk) m \<Longrightarrow> keeps (fs_evolves disk) (with_iter it m)"
  by (auto simp: keeps_def with_iter_def split: prod.splits) (metis snd_conv)

lemma keeps_for_each [keeps_intros]: "keeps (it_evolves disk) nxt \<Longrightarrow> keeps (it_evolves disk) (for_each nxt body)"
  unfolding for_each_def for_round_def by (intro keeps_intros) (simp_all add: fsev.stays)

section \<open>The operations\<close>

lemma keeps_done: "it_evolves disk t (f (fst t), snd t)"
  by (simp add: fsev.stays)

lemma keeps_Inode_read [keeps_intros]: "keeps (fs_evolves disk) (Inode_read i)"
  unfolding Inode_read_def by (intro keeps_intros)

lemma keeps_read_root_inode [keeps_intros]: "keeps (fs_evolves disk) read_root_inode"
  unfolding read_root_inode_def by (intro keeps_intros)

lemma keeps_load_child [keeps_intros]: "keeps (fs_evolves disk) (load_child inode base entry)"
  unfolding load_child_def by (intro keeps_intros)

lemma keeps_Extents_next [keeps_intros]: "keeps (it_evolves disk) Extents_next"
  unfolding Extents_next_def Extents_next_impl_def by (intro keeps_intros keeps_done)

lemma keeps_ExtentsBlocks_next [keeps_intros]: "keeps (it_evolves disk) ExtentsBlocks_next"
  unfolding ExtentsBlocks_next_def ExtentsBlocks_next_impl_def fetch_extent_def by (intro keeps_intros keeps_done)

lemma keeps_on_some [keeps_intros]: "keeps (it_evolves disk) m \<Longrightarrow> keeps (it_evolves disk) (on_some get put m)"
  unfolding on_some_def by (rule keeps_on_field)

lemma keeps_indirect [keeps_intros]:
  "keeps (fs_evolves disk) (IndirectBlockIter_new b)" "keeps (fs_evolves disk) (DoubleIndirectBlockIter_new b)"
  "keeps (fs_evolves disk) (TripleIndirectBlockIter_new b)"
  unfolding IndirectBlockIter_new_def DoubleIndirectBlockIter_new_def TripleIndirectBlockIter_new_def
  by (intro keeps_intros)+

lemma keeps_IndirectBlockIter_next [keeps_intros]: "keeps (it_evolves disk) IndirectBlockIter_next"
  unfolding IndirectBlockIter_next_def by (intro keeps_intros)

lemma keeps_DoubleIndirect_next [keeps_intros]: "keeps (it_evolves disk) DoubleIndirectBlockIter_next"
  unfolding DoubleIndirectBlockIter_next_def DoubleIndirectBlockIter_next_impl_def by (intro keeps_intros keeps_done)

lemma keeps_TripleIndirect_next [keeps_intros]: "keeps (it_evolves disk) TripleIndirectBlockIter_next"
  unfolding TripleIndirectBlockIter_next_def TripleIndirectBlockIter_next_impl_def by (intro keeps_intros keeps_done)

lemma keeps_BlockMap_next [keeps_intros]: "keeps (it_evolves disk) BlockMap_next"
  unfolding BlockMap_next_def BlockMap_next_impl_def BlockMap_increment_num_blocks_yielded_def by (intro keeps_intros keeps_done)

lemma keeps_FileBlocks_next [keeps_intros]: "keeps (it_evolves disk) FileBlocks_next"
proof -
  have "it_evolves disk (fb, fs) (snd (FileBlocks_next (fb, fs)))" for fb fs
    using keeps_ExtentsBlocks_next[of disk] keeps_BlockMap_next[of disk]
    by (cases fb) (auto simp: FileBlocks_next_def keeps_def split: prod.splits, (metis snd_conv)+)
  then show ?thesis by (simp add: keeps_def)
qed

lemma keeps_File_next_block [keeps_intros]: "keeps (it_evolves disk) File_next_block"
  unfolding File_next_block_def by (intro keeps_intros)

lemma keeps_read_bytes [keeps_intros]: "keeps (it_evolves disk) (read_bytes n)"
  unfolding read_bytes_def current_block_def by (intro keeps_intros)

lemma keeps_ignore_result [keeps_intros]: "keeps R m \<Longrightarrow> keeps R (ignore_result m)"
  unfolding keeps_def ignore_result_def by (auto split: prod.splits outcome.splits) (metis snd_conv)+

lemma keeps_with_io_error [keeps_intros]: "keeps R m \<Longrightarrow> keeps R (with_io_error m)"
  unfolding keeps_def with_io_error_def by (auto split: prod.splits) (metis snd_conv)

lemma keeps_skip_blocks [keeps_intros]: "keeps (it_evolves disk) (skip_blocks n)"
proof (induction n)
  case (Suc n)
  show ?case unfolding skip_blocks.simps by (intro keeps_intros Suc)
qed (unfold skip_blocks.simps, intro keeps_intros)

lemma keeps_seek_to [keeps_intros]: "keeps (it_evolves disk) (seek_to p)"
  unfolding seek_to_def by (intro keeps_intros)

lemma keeps_File_read [keeps_intros]: "keeps (it_evolves disk) (File_read n)"
  unfolding File_read_def by (intro keeps_intros)

lemma keeps_File_seek [keeps_intros]: "keeps (it_evolves disk) (File_seek p)"
  unfolding File_seek_def by (intro keeps_intros)

lemma keeps_read_chunks [keeps_intros]: "keeps (it_evolves disk) (read_chunks n)"
proof (induction n rule: less_induct)
  case (less n)
  show ?case
    unfolding keeps_def
  proof
    fix s :: "File \<times> Ext4"
    obtain q s1 where q: "read_bytes n s = (q, s1)" by (metis surj_pair)
    have s1: "it_evolves disk s s1" by (rule keepsD[OF keeps_read_bytes q])
    have "it_evolves disk s1 (snd (read_chunks (n - length buf) s1))" if "buf \<noteq> []" "length buf \<le> n" for buf :: bytes
      using less[OF chunk_shrinks[OF that]] unfolding keeps_def by blast
    then have "it_evolves disk s (snd (read_chunks (n - length buf) s1))" if "buf \<noteq> []" "length buf \<le> n" for buf :: bytes
      using that fsev.steps[OF s1] by blast
    with q s1 show "it_evolves disk s (snd (read_chunks n s))"
      by (auto simp: read_chunks.simps[of n s] split: outcome.splits prod.splits) (metis snd_conv)+
  qed
qed

lemma keeps_read_inode_file [keeps_intros]: "keeps (fs_evolves disk) (read_inode_file inode)"
proof -
  have "fs_evolves disk fs (snd (read_inode_file inode fs))" for fs
    using keeps_read_chunks[of disk "unat (md_size_in_bytes (in_metadata inode))"] fsev.stays[of disk fs]
    by (auto simp: read_inode_file_def Let_def keeps_def split: outcome.splits prod.splits) (metis snd_conv)+
  then show ?thesis by (simp add: keeps_def)
qed

lemma keeps_DirBlock_read [keeps_intros]: "keeps (fs_evolves disk) (DirBlock_read db n)"
  unfolding DirBlock_read_def by (intro keeps_intros)

lemma keeps_ReadDir_next [keeps_intros]: "keeps (it_evolves disk) ReadDir_next"
  unfolding ReadDir_next_def ReadDir_next_impl_def ReadDir_block_index_def by (intro keeps_intros keeps_done)

lemma keeps_block_from_file_block [keeps_intros]: "keeps (fs_evolves disk) (block_from_file_block inode k)"
  unfolding block_from_file_block_def find_extent_for_block_def by (intro keeps_intros)

lemma keeps_descend [keeps_intros]: "keeps (fs_evolves disk) (descend inode h n levels k)"
proof (induction levels arbitrary: k)
  case 0
  show ?case unfolding descend.simps by (intro keeps_intros)
next
  case (Suc levels)
  show ?case unfolding descend.simps by (intro keeps_intros Suc)
qed

lemma keeps_via_htree [keeps_intros]: "keeps (fs_evolves disk) (get_dir_entry_via_htree inode name)"
  unfolding get_dir_entry_via_htree_def read_root_block_def find_leaf_node_def by (intro keeps_intros)

lemma keeps_dir_lookup [keeps_intros]: "keeps (fs_evolves disk) (get_dir_entry_inode_by_name inode name)"
  unfolding get_dir_entry_inode_by_name_def by (intro keeps_intros)

lemma keeps_symlink_target [keeps_intros]: "keeps (fs_evolves disk) (symlink_target inode)"
  unfolding symlink_target_def by (intro keeps_intros)

lemma keeps_resolve_child [keeps_intros]: "keeps (fs_evolves disk) (resolve_child follow s nm ce ces l c)"
  unfolding resolve_child_def by (intro keeps_intros)

lemma keeps_resolve_component [keeps_intros]: "keeps (fs_evolves disk) (resolve_component follow s)"
  unfolding resolve_component_def by (intro keeps_intros)

lemma keeps_resolve_loop [keeps_intros]: "keeps (fs_evolves disk) (resolve_loop follow n s)"
proof (induction "MAX_ITERATIONS - n" arbitrary: n s rule: less_induct)
  case less
  show ?case
  proof (cases "n + 1 \<le> MAX_ITERATIONS")
    case True
    then have "keeps (fs_evolves disk) (resolve_loop follow (n + 1) s)" for s by (intro less) linarith
    then show ?thesis unfolding resolve_loop.simps[of follow n s] by (intro keeps_intros)
  next
    case False
    then show ?thesis unfolding resolve_loop.simps[of follow n s] by (simp add: keeps_intros)
  qed
qed

lemma keeps_resolve_path [keeps_intros]: "keeps (fs_evolves disk) (resolve_path path follow)"
  unfolding resolve_path_def by (intro keeps_intros)

lemma keeps_SkipBlocks_next [keeps_intros]: "keeps (it_evolves disk) SkipBlocks_next"
  unfolding SkipBlocks_next_def by (intro keeps_intros)

lemma keeps_JournalSuperblock_load [keeps_intros]: "keeps (fs_evolves disk) (JournalSuperblock_load inode)"
  unfolding JournalSuperblock_load_def by (intro keeps_intros)

lemma keeps_process_tags [keeps_intros]: "keeps (it_evolves disk) (process_tags jsb tags)"
proof (induction jsb tags rule: process_tags.induct)
  case (1 jsb tags)
  have t: "keeps (it_evolves disk) (process_tag jsb tag)" for tag
    unfolding process_tag_def by (intro keeps_intros)
  obtain q it where q: "DescriptorBlockTagIter_next tags = (q, it)" by fastforce
  show ?case
    unfolding process_tags.simps[of jsb tags]
    using 1[OF q[symmetric]] t
    by (auto simp: q split: outcome.split option.split intro!: keeps_intros)
qed

lemma keeps_process_next [keeps_intros]: "keeps (it_evolves disk) (process_next jsb)"
  unfolding process_next_def process_descriptor_block_def process_revocation_block_def process_commit_block_def
  by (intro keeps_intros)

lemma keeps_load_round [keeps_intros]: "keeps (it_evolves disk) (load_round jsb)"
proof -
  let ?f = "\<lambda>s. case process_next jsb s of
           (Ok _, s') \<Rightarrow> (Ok (if bl_is_done (fst s') then Some () else None), s')
         | (Err err, s') \<Rightarrow> (case err of Corrupt _ \<Rightarrow> (Ok (Some ()), s') | _ \<Rightarrow> (Err err, s'))
         | (Panic, s') \<Rightarrow> (Panic, s')
         | (Diverge, s') \<Rightarrow> (Diverge, s')"
  have "snd (?f s) = snd (process_next jsb s)" for s by (auto split: prod.split outcome.split Ext4Error.split)
  then have "keeps (it_evolves disk) ?f" using keeps_process_next[of disk jsb] by (simp add: keeps_def)
  then show ?thesis unfolding load_round_def by (intro keeps_intros)
qed

lemma keeps_Journal_load [keeps_intros]: "keeps (fs_evolves disk) Journal_load"
  unfolding Journal_load_def load_block_map_def load_loop_def
  by (intro keeps_intros) (simp add: fsev.stays)

end
