(* ===== verification/Ext4_Api.thy ===== *)
theory Ext4_Api
  imports Fs_Invariant
begin

text \<open>
  The public interface (\<^verbatim>\<open>src/src/lib.rs\<close>, and \<open>File::open\<close> of \<^verbatim>\<open>src/src/file.rs\<close>): loading a file
  system, and the operations on paths that mirror \<open>std::fs\<close>. A path argument is anything that converts to a
  \<open>Path\<close>; the model takes its bytes. \<open>load_from_path\<close> takes the function that opens a
  file of the host as a parameter.
\<close>

section \<open>Loading\<close>

text \<open>\<open>Rc::get_mut\<close> succeeds: the clones made while the journal is read are gone. The cache that the journal was
  read through stays.\<close>

definition Ext4_load :: "crc_fn \<Rightarrow> Ext4Read \<Rightarrow> Ext4 result" where
  "Ext4_load crc reader =
     bind_o (read_io reader 1024 SIZE_IN_BYTES_ON_DISK) (\<lambda>data.
     bind_o (Superblock_from_bytes crc data) (\<lambda>superblock.
     bind_o (BlockCache_new (sb_block_size superblock) (sb_blocks_count superblock)) (\<lambda>block_cache.
     bind_o (BlockGroupDescriptor_read_all crc superblock reader) (\<lambda>block_group_descriptors.
     let fs = \<lparr>fs_superblock = superblock, fs_block_group_descriptors = block_group_descriptors,
           fs_journal = Journal_empty, fs_block_cache = block_cache, fs_reader = reader, fs_crc = crc\<rparr> in
     case Journal_load fs of (journal, fs) \<Rightarrow>
     bind_o journal (\<lambda>journal.
     Ok (fs\<lparr>fs_journal := journal\<rparr>))))))"

text \<open>Opening a file of the host is a parameter.\<close>

definition Ext4_load_from_path :: "crc_fn \<Rightarrow> ('p \<Rightarrow> BoxedError + HostFile) \<Rightarrow> 'p \<Rightarrow> Ext4 result" where
  "Ext4_load_from_path crc open_host path =
     (case open_host path of Inl e \<Rightarrow> Err (Io e) | Inr file \<Rightarrow> Ext4_load crc (HostFile_reader file))"

section \<open>Operations on paths\<close>

definition path_arg :: "bytes \<Rightarrow> Path result" where
  "path_arg path = map_err (\<lambda>_. MalformedPath) (Path_try_from path)"

definition path_to_inode :: "Path \<Rightarrow> FollowSymlinks \<Rightarrow> Inode fs_op" where
  "path_to_inode path follow = bindc (resolve_path path follow) (\<lambda>v. ret (fst v))"

definition Ext4_canonicalize :: "bytes \<Rightarrow> PathBuf fs_op" where
  "Ext4_canonicalize path =
     bindc (lift (path_arg path)) (\<lambda>path.
     bindc (resolve_path path All) (\<lambda>v. ret (snd v)))"

definition File_open :: "Path \<Rightarrow> File fs_op" where
  "File_open path =
     bindc (path_to_inode path All) (\<lambda>inode.
     bindc (lift (require (\<not> Metadata_is_dir (in_metadata inode)) IsADirectory)) (\<lambda>_.
     bindc (lift (require (is_regular_file (md_file_type (in_metadata inode))) IsASpecialFile)) (\<lambda>_.
     lift (File_open_inode inode))))"

definition Ext4_open :: "bytes \<Rightarrow> File fs_op" where
  "Ext4_open path = bindc (lift (path_arg path)) File_open"

definition Ext4_read_inner :: "Path \<Rightarrow> bytes fs_op" where
  "Ext4_read_inner path =
     bindc (path_to_inode path All) (\<lambda>inode.
     bindc (lift (require (\<not> Metadata_is_dir (in_metadata inode)) IsADirectory)) (\<lambda>_.
     bindc (lift (require (is_regular_file (md_file_type (in_metadata inode))) IsASpecialFile)) (\<lambda>_.
     read_inode_file inode)))"

definition Ext4_read :: "bytes \<Rightarrow> bytes fs_op" where
  "Ext4_read path = bindc (lift (path_arg path)) Ext4_read_inner"

definition Ext4_read_to_string :: "bytes \<Rightarrow> bytes fs_op" where
  "Ext4_read_to_string path =
     bindc (lift (path_arg path)) (\<lambda>path.
     bindc (Ext4_read path) (\<lambda>content.
     lift (map_err (\<lambda>_. NotUtf8) (String_from_utf8 content))))"

definition Ext4_read_link :: "bytes \<Rightarrow> PathBuf fs_op" where
  "Ext4_read_link path =
     bindc (lift (path_arg path)) (\<lambda>path.
     bindc (path_to_inode path ExcludeFinalComponent) symlink_target)"

definition Ext4_read_dir :: "bytes \<Rightarrow> ReadDir fs_op" where
  "Ext4_read_dir path =
     bindc (lift (path_arg path)) (\<lambda>path.
     bindc (path_to_inode path All) (\<lambda>inode.
     bindc (lift (require (Metadata_is_dir (in_metadata inode)) NotADirectory)) (\<lambda>_.
     bindc (gets (\<lambda>fs. fs)) (\<lambda>fs.
     lift (ReadDir_new fs inode path)))))"

definition Ext4_exists :: "bytes \<Rightarrow> bool fs_op" where
  "Ext4_exists path =
     bindc (lift (path_arg path)) (\<lambda>path fs.
     case path_to_inode path All fs of
       (Ok _, fs) \<Rightarrow> (Ok True, fs)
     | (Err err, fs) \<Rightarrow> (if err = NotFound then Ok False else Err err, fs)
     | (Panic, fs) \<Rightarrow> (Panic, fs)
     | (Diverge, fs) \<Rightarrow> (Diverge, fs))"

definition Ext4_metadata :: "bytes \<Rightarrow> Metadata fs_op" where
  "Ext4_metadata path =
     bindc (lift (path_arg path)) (\<lambda>path.
     bindc (path_to_inode path All) (\<lambda>inode. ret (in_metadata inode)))"

definition Ext4_symlink_metadata :: "bytes \<Rightarrow> Metadata fs_op" where
  "Ext4_symlink_metadata path =
     bindc (lift (path_arg path)) (\<lambda>path.
     bindc (path_to_inode path ExcludeFinalComponent) (\<lambda>inode. ret (in_metadata inode)))"

section \<open>The invariant\<close>

lemma fs_ok_journal [simp]: "fs_ok disk (fs\<lparr>fs_journal := j\<rparr>) = fs_ok disk fs"
  by (simp add: fs_ok_def)

lemma load_parts:
  assumes "ext4_reader reader disk" and "Ext4_load crc reader = Ok fs"
  obtains sb cache bgds fs1 where
    "Superblock_from_bytes crc (disk_range disk 1024 1024) = Ok sb"
    "BlockCache_new (sb_block_size sb) (sb_blocks_count sb) = Ok cache"
    "BlockGroupDescriptor_read_all crc sb reader = Ok bgds"
    "Journal_load \<lparr>fs_superblock = sb, fs_block_group_descriptors = bgds, fs_journal = Journal_empty, fs_block_cache = cache,
       fs_reader = reader, fs_crc = crc\<rparr> = (Ok (fs_journal fs), fs1)" "fs = fs1\<lparr>fs_journal := fs_journal fs\<rparr>"
proof -
  from assms(2) obtain data where data: "reader 1024 1024 = Inr data"
    by (auto simp: Ext4_load_def SIZE_IN_BYTES_ON_DISK_def)
  have "data = disk_range disk 1024 1024"
    using ext4_reader.read_eq[OF assms(1) data] by (simp add: disk_range_def)
  with assms(2) data obtain sb cache bgds where p: "Superblock_from_bytes crc (disk_range disk 1024 1024) = Ok sb"
    "BlockCache_new (sb_block_size sb) (sb_blocks_count sb) = Ok cache" "BlockGroupDescriptor_read_all crc sb reader = Ok bgds"
    and q: "(case Journal_load \<lparr>fs_superblock = sb, fs_block_group_descriptors = bgds, fs_journal = Journal_empty, fs_block_cache = cache,
       fs_reader = reader, fs_crc = crc\<rparr> of (journal, fs) \<Rightarrow> bind_o journal (\<lambda>journal. Ok (fs\<lparr>fs_journal := journal\<rparr>))) = Ok fs"
    by (auto simp: Ext4_load_def SIZE_IN_BYTES_ON_DISK_def Let_def)
  from q obtain j fs1 where "Journal_load \<lparr>fs_superblock = sb, fs_block_group_descriptors = bgds, fs_journal = Journal_empty,
       fs_block_cache = cache, fs_reader = reader, fs_crc = crc\<rparr> = (Ok j, fs1)" "fs = fs1\<lparr>fs_journal := j\<rparr>"
    by (auto split: prod.splits)
  with that[OF p, of fs1] show ?thesis by simp
qed

text \<open>Descriptors that are the ones on the device: one per block group, parsed from its bytes and with its checksum.\<close>

definition descriptors_on_disk :: "crc_fn \<Rightarrow> (nat \<Rightarrow> u8) \<Rightarrow> Superblock \<Rightarrow> BlockGroupDescriptor list \<Rightarrow> bool" where
  "descriptors_on_disk crc disk sb ds \<longleftrightarrow> length ds = unat (sb_num_block_groups sb) \<and>
     (\<forall>i < length ds. let data = disk_range disk (bgd_start sb i) (unat (sb_block_group_descriptor_size sb)) in
        BlockGroupDescriptor_from_bytes sb data = Ok (ds ! i) \<and>
        (contains (sb_read_only_compatible_features sb) METADATA_CHECKSUMS \<longrightarrow>
           bgd_checksum (ds ! i) = bgd_checksum_spec crc sb (of_nat i) data))"

lemma read_all_on_disk:
  assumes "ext4_reader reader disk" and "BlockGroupDescriptor_read_all crc sb reader = Ok ds"
  shows "descriptors_on_disk crc disk sb ds"
proof -
  let ?P = "\<lambda>i bgd. \<forall>data. data = disk_range disk (bgd_start sb i) (unat (sb_block_group_descriptor_size sb)) \<longrightarrow>
       BlockGroupDescriptor_from_bytes sb data = Ok bgd \<and>
       (contains (sb_read_only_compatible_features sb) METADATA_CHECKSUMS \<longrightarrow> bgd_checksum bgd = bgd_checksum_spec crc sb (of_nat i) data)"
  have P: "?P i bgd"
    if i: "i \<in> set [0..<unat (sb_num_block_groups sb)]" and r: "BlockGroupDescriptor_read crc sb reader (of_nat i) = Ok bgd" for i bgd
  proof -
    have u: "unat (of_nat i :: u32) = i" using i unat_less_bound[of "sb_num_block_groups sb"] by (simp add: unat_of_nat)
    obtain p data where d: "BlockGroupDescriptor_get_start_byte sb (of_nat i) = Some p"
      "reader p (unat (sb_block_group_descriptor_size sb)) = Inr data" "BlockGroupDescriptor_from_bytes sb data = Ok bgd"
      "contains (sb_read_only_compatible_features sb) METADATA_CHECKSUMS \<longrightarrow> bgd_checksum bgd = bgd_checksum_spec crc sb (of_nat i) data"
      by (rule BlockGroupDescriptor_read_Ok[OF r])
    have "data = disk_range disk (bgd_start sb i) (unat (sb_block_group_descriptor_size sb))"
      using ext4_reader.read_eq[OF assms(1) d(2)] get_start_byte_Some(2)[OF d(1)] by (simp add: disk_range_def bgd_start_def u)
    with d(3,4) show ?thesis by blast
  qed
  from read_all_loop_Ok[of crc sb reader "[0..<unat (sb_num_block_groups sb)]" "[]" ds ?P "[]"] assms(2) P
  have "list_all2 ?P [0..<unat (sb_num_block_groups sb)] ds" by (auto simp: BlockGroupDescriptor_read_all_def)
  then show ?thesis by (simp add: descriptors_on_disk_def list_all2_conv_all_nth Let_def)
qed

text \<open>The journal map of a file system with the journal inode \<open>i\<close> is the replay of the log on the device: the inode is
  read without the map, the blocks of its file are the log, and every substitute is one of these blocks.\<close>

definition journal_replayed :: "(nat \<Rightarrow> u8) \<Rightarrow> Ext4 \<Rightarrow> InodeIndex \<Rightarrow> bool" where
  "journal_replayed disk fs i \<longleftrightarrow>
     (let fs0 = fs\<lparr>fs_journal := Journal_empty\<rparr> in
      \<exists>inode fb. inode_spec disk fs0 i = Ok inode \<and> FileBlocks_new inode = Ok fb \<and>
        (\<forall>bs r. fb_seq disk fs0 fb (bs, r) \<longrightarrow>
           ran (fs_journal fs) \<subseteq> set bs \<and>
           (\<exists>jsb. journal_superblock_spec disk fs0 bs r = Ok jsb \<and> journal_spec disk fs0 jsb bs r = Ok (fs_journal fs))))"

lemma JournalSuperblock_load_blocks:
  assumes "fst (JournalSuperblock_load inode fs) = Ok jsb"
  shows "\<exists>fb. FileBlocks_new inode = Ok fb"
  using assms by (cases "FileBlocks_new inode") (auto simp: JournalSuperblock_load_def bindc_def lift_def split: prod.splits)

lemma Journal_load_replays:
  assumes "good disk (fs\<lparr>fs_journal := Journal_empty\<rparr>) fs1" and "fst (Journal_load fs1) = Ok (fs_journal fs)"
    and "sb_journal_inode (fs_superblock fs) = Some i"
    and "device_complete fs" and "inode_tables_ok (fs\<lparr>fs_journal := Journal_empty\<rparr>)"
  shows "journal_replayed disk fs i"
proof -
  let ?fs0 = "fs\<lparr>fs_journal := Journal_empty\<rparr>"
  have c: "device_complete ?fs0" using assms(4) by (simp add: device_complete_def)
  have j: "sb_journal_inode (fs_superblock ?fs0) = Some i" using assms(3) by simp
  have i: "computes disk ?fs0 fs1 (Inode_read i) (inode_spec disk ?fs0 i)" by (rule Inode_read_computes[OF c assms(5,1)])
  obtain inode jsb fs2 where inode: "inode_spec disk ?fs0 i = Ok inode" "fst (JournalSuperblock_load inode fs2) = Ok jsb"
    using assms(2) i j good_sel(1)[OF assms(1)]
    by (auto simp: Journal_load_def computes_def bindc_def gets_def split: prod.splits outcome.splits) (metis fst_conv)
  obtain fb where fb: "FileBlocks_new inode = Ok fb" using JournalSuperblock_load_blocks[OF inode(2)] by blast
  have "\<exists>jsb. journal_superblock_spec disk ?fs0 bs r = Ok jsb \<and> journal_spec disk ?fs0 jsb bs r = Ok (fs_journal fs)"
    if "fb_seq disk ?fs0 fb (bs, r)" for bs r
  proof -
    have "bind_o (journal_superblock_spec disk ?fs0 bs r) (\<lambda>jsb. journal_spec disk ?fs0 jsb bs r) = Ok (fs_journal fs)"
      using Journal_load_computes[OF c assms(5,1) j inode(1) fb that] assms(2) unfolding computes_def by metis
    then show ?thesis by simp
  qed
  moreover have "ran (fs_journal fs) \<subseteq> set bs" if "journal_spec disk ?fs0 jsb bs r = Ok (fs_journal fs)" for jsb bs r
    using journal_spec_ran[OF that] set_drop_subset by fastforce
  ultimately show ?thesis using inode(1) fb unfolding journal_replayed_def Let_def by blast
qed

text \<open>C4: A file system that was loaded satisfies the invariant on which all operations rely, whatever the device
  holds: its superblock is valid and is the result of parsing the 1024 bytes of the device from byte 1024 on, its
  block cache agrees with the device in every block but block 0, for which a new cache holds zeros, also after
  the journal was read through it, and it has one descriptor per block group, each parsed from the bytes of the
  device at the place of its group, with its checksum. Without a journal the journal map is empty. With a journal
  inode, if the device is complete and no inode is in block 0 behind the superblock, the map is the replay of the
  log in the blocks of the journal file, and maps into these blocks.\<close>

theorem load_establishes_invariant:
  assumes "ext4_reader reader disk" and "Ext4_load crc reader = Ok fs"
  shows "fs_ok disk fs \<and> fs_reader fs = reader \<and> fs_crc fs = crc \<and>
     Superblock_from_bytes crc (disk_range disk 1024 1024) = Ok (fs_superblock fs) \<and>
     superblock_describes crc (disk_range disk 1024 1024) (fs_superblock fs) \<and>
     descriptors_on_disk crc disk (fs_superblock fs) (fs_block_group_descriptors fs) \<and>
     (sb_journal_inode (fs_superblock fs) = None \<longrightarrow> fs_journal fs = Map.empty) \<and>
     (\<forall>i. sb_journal_inode (fs_superblock fs) = Some i \<longrightarrow> device_complete fs \<longrightarrow>
        inode_tables_ok (fs\<lparr>fs_journal := Journal_empty\<rparr>) \<longrightarrow> journal_replayed disk fs i)"
proof -
  obtain sb cache bgds fs1 where p: "Superblock_from_bytes crc (disk_range disk 1024 1024) = Ok sb"
    "BlockCache_new (sb_block_size sb) (sb_blocks_count sb) = Ok cache" "BlockGroupDescriptor_read_all crc sb reader = Ok bgds"
    "Journal_load \<lparr>fs_superblock = sb, fs_block_group_descriptors = bgds, fs_journal = Journal_empty, fs_block_cache = cache,
       fs_reader = reader, fs_crc = crc\<rparr> = (Ok (fs_journal fs), fs1)" "fs = fs1\<lparr>fs_journal := fs_journal fs\<rparr>"
    by (rule load_parts[OF assms])
  let ?fs = "\<lparr>fs_superblock = sb, fs_block_group_descriptors = bgds, fs_journal = Journal_empty, fs_block_cache = cache,
       fs_reader = reader, fs_crc = crc\<rparr>"
  have sb: "valid_superblock sb" "superblock_describes crc (disk_range disk 1024 1024) sb"
    using Superblock_from_bytes_valid[of "disk_range disk 1024 1024" crc]
      Superblock_from_bytes_describes[of "disk_range disk 1024 1024" crc] p(1) by simp_all
  have new: "fs_ok disk ?fs"
    using ext4_reader.new_cache_coherent[OF assms(1), of "sb_block_size sb" "sb_blocks_count sb"] sb(1) p(2) assms(1)
    by (simp add: fs_ok_def valid_superblock_def)
  with keepsD[OF keeps_Journal_load p(4), of disk] have g: "good disk ?fs fs1" by (simp add: fs_evolves_def)
  then have same: "same_fs ?fs fs1" and ok: "fs_ok disk fs1" by (simp_all add: good_def)
  have f: "fs_superblock fs = sb" "fs_block_group_descriptors fs = bgds" "fs_reader fs = reader" "fs_crc fs = crc"
    by (subst p(5), use same_fsD[OF same] in simp)+
  have "good disk (fs\<lparr>fs_journal := Journal_empty\<rparr>) ?fs" using new f by (simp add: good_def same_fs_def)
  then have "journal_replayed disk fs i" if "sb_journal_inode (fs_superblock fs) = Some i" "device_complete fs"
      "inode_tables_ok (fs\<lparr>fs_journal := Journal_empty\<rparr>)" for i
    using p(4) that by (intro Journal_load_replays[of disk fs ?fs]) simp_all
  moreover have "fs_journal fs = Map.empty" if "sb_journal_inode (fs_superblock fs) = None"
    using p(4) that f(1) by (simp add: Journal_load_without Journal_empty_def)
  moreover have "fs_ok disk fs" by (subst p(5)) (simp add: ok)
  ultimately show ?thesis using p(1) sb(2) f read_all_on_disk[OF assms(1) p(3)] by simp
qed

lemma keeps_path_ops [keeps_intros]:
  "keeps (fs_evolves disk) (path_to_inode p follow)" "keeps (fs_evolves disk) (File_open p)"
  "keeps (fs_evolves disk) (Ext4_read_inner p)"
  unfolding path_to_inode_def File_open_def Ext4_read_inner_def by (intro keeps_intros)+

lemma keeps_exists: "keeps (fs_evolves disk) (Ext4_exists p)"
proof -
  have "keeps (fs_evolves disk) (\<lambda>fs. case path_to_inode path All fs of
       (Ok _, fs) \<Rightarrow> (Ok True, fs)
     | (Err err, fs) \<Rightarrow> (if err = NotFound then Ok False else Err err, fs)
     | (Panic, fs) \<Rightarrow> (Panic, fs)
     | (Diverge, fs) \<Rightarrow> (Diverge, fs))" for path
    using keeps_path_ops(1)[of disk path All]
    by (auto simp: keeps_def split: prod.splits outcome.splits) (metis snd_conv)+
  then show ?thesis unfolding Ext4_exists_def by (intro keeps_intros)
qed

lemma keeps_api:
  "keeps (fs_evolves disk) (Ext4_canonicalize p)" "keeps (fs_evolves disk) (Ext4_open p)" "keeps (fs_evolves disk) (Ext4_read p)"
  "keeps (fs_evolves disk) (Ext4_read_to_string p)" "keeps (fs_evolves disk) (Ext4_read_link p)"
  "keeps (fs_evolves disk) (Ext4_read_dir p)" "keeps (fs_evolves disk) (Ext4_metadata p)"
  "keeps (fs_evolves disk) (Ext4_symlink_metadata p)"
  unfolding Ext4_canonicalize_def Ext4_open_def Ext4_read_def Ext4_read_to_string_def Ext4_read_link_def
    Ext4_read_dir_def Ext4_metadata_def Ext4_symlink_metadata_def
  by (intro keeps_intros)+

lemma keeps_good: "keeps (fs_evolves disk) m \<Longrightarrow> fs_ok disk fs \<Longrightarrow> good disk fs (snd (m fs))"
  by (simp add: keeps_def fs_evolves_def)

lemma keeps_good_it: "keeps (it_evolves disk) m \<Longrightarrow> fs_ok disk fs \<Longrightarrow> good disk fs (snd (snd (m (it, fs))))"
  unfolding keeps_def fs_evolves_def by (metis snd_conv)

text \<open>C5: Every operation of the interface, on paths, on an open file and on a directory iterator, keeps the
  invariant and changes nothing of the file system but the content of its block cache, whatever the
  device holds and whether the operation succeeds or not.\<close>

theorem operations_keep_invariant:
  assumes "fs_ok disk fs"
  shows "good disk fs (snd (Ext4_canonicalize p fs)) \<and> good disk fs (snd (Ext4_open p fs)) \<and>
     good disk fs (snd (Ext4_read p fs)) \<and> good disk fs (snd (Ext4_read_to_string p fs)) \<and>
     good disk fs (snd (Ext4_read_link p fs)) \<and> good disk fs (snd (Ext4_read_dir p fs)) \<and>
     good disk fs (snd (Ext4_exists p fs)) \<and> good disk fs (snd (Ext4_metadata p fs)) \<and>
     good disk fs (snd (Ext4_symlink_metadata p fs)) \<and> good disk fs (snd (snd (File_read n (file, fs)))) \<and>
     good disk fs (snd (snd (File_seek pos (file, fs)))) \<and> good disk fs (snd (snd (ReadDir_next (read_dir, fs))))"
  using keeps_api keeps_exists keeps_File_read keeps_File_seek keeps_ReadDir_next
  by (intro conjI keeps_good keeps_good_it assms) blast+

theorem operations_keep_invariant_witness:
  "fs_ok (disk_of tree_image) (snd (Ext4_read [0x2f, 0x61] (sample_fs tree_image)))"
proof -
  obtain f :: File and read_dir :: ReadDir where True by blast
  from operations_keep_invariant[OF sample_fs_ok[of tree_image], of "[0x2f, 0x61]" 0 f "Start 0" read_dir] show ?thesis
    by (simp add: good_def)
qed

section \<open>Loading a small image\<close>

definition load_image :: bytes where
  "load_image = replicate 1024 0 @ sample_superblock_bytes @ replicate 14336 0"

lemma load_image_loads: "\<exists>fs. Ext4_load (\<lambda>_ _. 0) (Vec_read load_image) = Ok fs"
proof -
  have l: "length sample_superblock_bytes = 1024" by (simp add: sample_superblock_bytes_def)
  have len: "length load_image = 16384" using l by (simp add: load_image_def)
  have 1: "Vec_read load_image 1024 1024 = Inr sample_superblock_bytes"
    using l by (subst Vec_read_inside) (simp_all add: load_image_def usize_max_def)
  obtain cache where 2: "BlockCache_new (sb_block_size sample_superblock) (sb_blocks_count sample_superblock) = Ok cache"
    using vec_fs_cache[OF sample_superblock_valid] by blast
  have 3: "\<exists>b. BlockGroupDescriptor_read_all (\<lambda>_ _. 0) sample_superblock (Vec_read load_image) = Ok b"
  proof -
    have s: "BlockGroupDescriptor_get_start_byte sample_superblock 0 = Some 2048"
      by (simp add: BlockGroupDescriptor_get_start_byte_def sample_superblock_def checked_defs BlockSize_to_u32_def
          BlockSize_to_u64_def)
    have d: "Vec_read load_image 2048 32 = Inr (take 32 (drop 2048 load_image))"
      using len by (subst Vec_read_inside) (simp_all add: usize_max_def)
    have n: "unat (sb_num_block_groups sample_superblock) = 1" "unat (sb_block_group_descriptor_size sample_superblock) = 32"
      "sb_incompatible_features sample_superblock = 2" "sb_read_only_compatible_features sample_superblock = 0"
      by (simp_all add: sample_superblock_def)
    show ?thesis
      using len
      by (simp add: BlockGroupDescriptor_read_all_def BlockGroupDescriptor_read_def s d n read_io_def contains_def
          BlockGroupDescriptor_from_bytes_def BG_CHECKSUM_OFFSET_def usize_max_def del: bind_o_eq_Ok)
  qed
  then obtain b where "BlockGroupDescriptor_read_all (\<lambda>_ _. 0) sample_superblock (Vec_read load_image) = Ok b" by blast
  moreover have "sb_journal_inode sample_superblock = None" by (simp add: sample_superblock_def)
  ultimately show ?thesis
    using 1 2 sample_superblock_parses
    by (simp add: Ext4_load_def SIZE_IN_BYTES_ON_DISK_def Journal_load_without read_io_def del: bind_o_eq_Ok)
qed

theorem load_establishes_invariant_witness:
  "\<exists>fs. Ext4_load (\<lambda>_ _. 0) (Vec_read load_image) = Ok fs \<and> fs_ok (disk_of load_image) fs \<and>
     fs_superblock fs = sample_superblock \<and> length (fs_block_group_descriptors fs) = 1 \<and> fs_journal fs = Map.empty"
proof -
  obtain fs where fs: "Ext4_load (\<lambda>_ _. 0) (Vec_read load_image) = Ok fs" using load_image_loads by blast
  note inv = load_establishes_invariant[OF vec.ext4_reader_axioms fs]
  have "length sample_superblock_bytes = 1024" by (simp add: sample_superblock_bytes_def)
  then have "disk_range (disk_of load_image) 1024 1024 = sample_superblock_bytes"
    using disk_range_disk_of[of "replicate 1024 0" sample_superblock_bytes "replicate 14336 0"] by (simp add: load_image_def)
  with inv sample_superblock_parses have sb: "fs_superblock fs = sample_superblock" by simp
  moreover have "sb_journal_inode sample_superblock = None" "unat (sb_num_block_groups sample_superblock) = 1"
    by (simp_all add: sample_superblock_def)
  ultimately show ?thesis using inv fs by (simp add: descriptors_on_disk_def)
qed

section \<open>Operations on paths follow the walk\<close>

text \<open>The inode of a path in the file system seen as a tree of names.\<close>

definition inode_at :: "Ext4 \<Rightarrow> bytes \<Rightarrow> FollowSymlinks \<Rightarrow> (Inode \<times> PathBuf) result" where
  "inode_at fs path follow = bind_o (path_arg path) (\<lambda>path. resolve_names (fs_world fs) path follow)"

lemma path_arg_Ok: "path_arg path = Ok p \<longleftrightarrow> p = path \<and> valid_path path"
  by (auto simp: path_arg_def Path_try_from_Ok)

lemma path_arg_Err: "path_arg path = Err e \<Longrightarrow> e = MalformedPath"
  by (cases "Path_try_from path") (auto simp: path_arg_def)

lemma path_arg_computes:
  assumes "fs_ok disk fs0" and "fs_tame fs0" and "good disk fs0 fs"
    and "\<And>path v fs'. path_arg path = Ok path \<Longrightarrow> good disk fs0 fs' \<Longrightarrow> computes disk fs0 fs' (f path v) (g path v)"
  shows "computes disk fs0 fs (bindc (lift (path_arg path)) (\<lambda>path. bindc (resolve_path path follow) (f path)))
     (bind_o (inode_at fs0 path follow) (g path))"
proof (cases "path_arg path")
  case (Ok p)
  then have v: "p = path" "valid_path path" by (simp_all add: path_arg_Ok)
  with Ok show ?thesis
    by (auto simp: inode_at_def bindc_lift_Ok intro!: computes_bind resolve_path_follows[OF assms(1-3)] assms(4))
qed (use assms(3) in \<open>auto simp: inode_at_def computes_def bindc_def lift_def\<close>)

lemma path_to_inode_bind: "bindc (path_to_inode path follow) f = bindc (resolve_path path follow) (\<lambda>v. f (fst v))"
  by (rule ext) (auto simp: path_to_inode_def bindc_def ret_def split: prod.splits outcome.splits)

lemma exists_computes:
  assumes "fs_ok disk fs0" and "fs_tame fs0" and "good disk fs0 fs"
  shows "computes disk fs0 fs (Ext4_exists path)
     (case inode_at fs0 path All of Ok _ \<Rightarrow> Ok True | Err NotFound \<Rightarrow> Ok False | Err e \<Rightarrow> Err e | Panic \<Rightarrow> Panic | Diverge \<Rightarrow> Diverge)"
proof (cases "path_arg path")
  case (Ok p)
  then have v: "p = path" "valid_path path" by (simp_all add: path_arg_Ok)
  have i: "inode_at fs0 path All = resolve_names (fs_world fs0) path All" using Ok v by (simp add: inode_at_def)
  obtain fs' where "resolve_path path All fs = (resolve_names (fs_world fs0) path All, fs')" "good disk fs0 fs'"
    using computesD[OF resolve_path_follows[OF assms v(2)]] by blast
  with Ok v i show ?thesis
    by (simp add: computes_def Ext4_exists_def bindc_lift_Ok path_to_inode_def)
       (auto simp: bindc_def ret_def split: outcome.split Ext4Error.split)
qed (use assms(3) in \<open>auto simp: inode_at_def computes_def Ext4_exists_def bindc_def lift_def dest: path_arg_Err split: Ext4Error.split outcome.splits\<close>)

lemma path_operations_spec:
  assumes "fs_ok disk fs" and "fs_tame fs"
  shows "fst (Ext4_canonicalize path fs) = bind_o (inode_at fs path All) (\<lambda>v. Ok (snd v)) \<and>
     fst (Ext4_metadata path fs) = bind_o (inode_at fs path All) (\<lambda>v. Ok (in_metadata (fst v))) \<and>
     fst (Ext4_symlink_metadata path fs) = bind_o (inode_at fs path ExcludeFinalComponent) (\<lambda>v. Ok (in_metadata (fst v))) \<and>
     fst (Ext4_read_link path fs) = bind_o (inode_at fs path ExcludeFinalComponent) (\<lambda>v. wd_target (fs_world fs) (fst v)) \<and>
     fst (Ext4_exists path fs) = (case inode_at fs path All of
        Ok _ \<Rightarrow> Ok True | Err NotFound \<Rightarrow> Ok False | Err e \<Rightarrow> Err e | Panic \<Rightarrow> Panic | Diverge \<Rightarrow> Diverge)"
proof -
  note g = good_refl[OF assms(1)]
  note r = path_arg_computes[OF assms g, of _ _ path]
  have "computes disk fs fs (Ext4_canonicalize path) (bind_o (inode_at fs path All) (\<lambda>v. Ok (snd v)))"
    unfolding Ext4_canonicalize_def by (rule r) (rule computes_ret)
  moreover have "computes disk fs fs (Ext4_metadata path) (bind_o (inode_at fs path All) (\<lambda>v. Ok (in_metadata (fst v))))"
    unfolding Ext4_metadata_def path_to_inode_bind by (rule r) (rule computes_ret)
  moreover have "computes disk fs fs (Ext4_symlink_metadata path)
      (bind_o (inode_at fs path ExcludeFinalComponent) (\<lambda>v. Ok (in_metadata (fst v))))"
    unfolding Ext4_symlink_metadata_def path_to_inode_bind by (rule r) (rule computes_ret)
  moreover have "computes disk fs fs (Ext4_read_link path)
      (bind_o (inode_at fs path ExcludeFinalComponent) (\<lambda>v. wd_target (fs_world fs) (fst v)))"
    unfolding Ext4_read_link_def path_to_inode_bind fs_world_sel
    by (rule r) (rule stableD[OF stable_symlink_target[OF assms(2)] assms(1)])
  ultimately show ?thesis using exists_computes[OF assms g, of path] by (simp add: computes_def)
qed

text \<open>C6: The operations that look at a path, canonicalize, metadata, symlink_metadata, read_link and exists, return what the
  walk over the names of the path finds in the tree of directories: the canonical path, the metadata of
  the inode, its link target; a path that does not exist gives false, a malformed path and every other
  failure of the walk are errors. Only read_link and symlink_metadata do not follow a link in the last
  component.\<close>

theorem path_operations_follow_walk:
  assumes "fs_ok disk fs" and "fs_tame fs"
  shows "fst (Ext4_canonicalize path fs) = bind_o (inode_at fs path All) (\<lambda>v. Ok (snd v)) \<and>
     fst (Ext4_metadata path fs) = bind_o (inode_at fs path All) (\<lambda>v. Ok (in_metadata (fst v))) \<and>
     fst (Ext4_symlink_metadata path fs) = bind_o (inode_at fs path ExcludeFinalComponent) (\<lambda>v. Ok (in_metadata (fst v))) \<and>
     fst (Ext4_read_link path fs) = bind_o (inode_at fs path ExcludeFinalComponent) (\<lambda>v. wd_target (fs_world fs) (fst v)) \<and>
     fst (Ext4_exists path fs) = (case inode_at fs path All of
        Ok _ \<Rightarrow> Ok True | Err NotFound \<Rightarrow> Ok False | Err e \<Rightarrow> Err e | Panic \<Rightarrow> Panic | Diverge \<Rightarrow> Diverge)"
  by (rule path_operations_spec[OF assms])

theorem path_operations_follow_walk_witness:
  "fst (Ext4_metadata [0x2f, 0x2e] (sample_fs tree_image)) = Ok (in_metadata tree_root) \<and>
   fst (Ext4_exists [0x2f, 0x2e] (sample_fs tree_image)) = Ok True"
proof -
  have "path_arg [0x2f, 0x2e] = Ok [0x2f, 0x2e]" by code_simp
  then have "inode_at (sample_fs tree_image) [0x2f, 0x2e] All = Ok (tree_root, [0x2f])"
    using tree_resolves_dot by (simp add: inode_at_def)
  with path_operations_follow_walk[OF sample_fs_ok tree_fs_tame, of "[0x2f, 0x2e]"] show ?thesis by simp
qed

section \<open>Inodes that are found are well-formed\<close>

text \<open>Every value that an operation returns satisfies \<open>P\<close>.\<close>

definition returns :: "(nat \<Rightarrow> u8) \<Rightarrow> Superblock \<Rightarrow> ('a \<Rightarrow> bool) \<Rightarrow> 'a fs_op \<Rightarrow> bool" where
  "returns disk sb P m \<longleftrightarrow> (\<forall>fs x. fs_ok disk fs \<longrightarrow> fs_superblock fs = sb \<longrightarrow> fst (m fs) = Ok x \<longrightarrow> P x)"

lemma returns_bind:
  assumes "keeps (fs_evolves disk) m" and "\<And>x. returns disk sb P (f x)"
  shows "returns disk sb P (bindc m f)"
  unfolding returns_def
proof (intro allI impI)
  fix fs y
  assume ok: "fs_ok disk fs" and sb: "fs_superblock fs = sb" and r: "fst (bindc m f fs) = Ok y"
  obtain q fs' where m: "m fs = (q, fs')" by fastforce
  with r obtain x where x: "q = Ok x" "fst (f x fs') = Ok y" by (cases q) (auto simp: bindc_def)
  have "good disk fs fs'" using keepsD[OF assms(1) m] ok by (simp add: fs_evolves_def)
  with good_sel(1)[OF this] sb have "fs_ok disk fs'" "fs_superblock fs' = sb" by (simp_all add: good_def)
  with assms(2)[of x] x(2) show "P y" by (simp add: returns_def)
qed

lemma returns_if: "returns disk sb P m \<Longrightarrow> returns disk sb P n \<Longrightarrow> returns disk sb P (if b then m else n)"
  by simp

lemma returns_let: "(\<And>x. returns disk sb P (f x)) \<Longrightarrow> returns disk sb P (let x = v in f x)"
  by simp

lemma returns_case_option:
  "returns disk sb P m \<Longrightarrow> (\<And>x. returns disk sb P (f x)) \<Longrightarrow> returns disk sb P (case v of None \<Rightarrow> m | Some x \<Rightarrow> f x)"
  by (cases v) auto

lemma returns_Err: "returns disk sb P (lift (Err e))"
  by (simp add: returns_def lift_def)

lemma returns_Inode_read: "returns disk sb (inode_ok sb) (Inode_read i)"
  unfolding returns_def
proof (intro allI impI)
  fix fs inode
  assume sb: "fs_superblock fs = sb" and r: "fst (Inode_read i fs) = Ok inode"
  then obtain b off data fs' sum where "Inode_from_bytes fs i data = Ok (inode, sum)"
    by (auto simp: Inode_read_def bindc_def gets_def lift_def ret_def Let_def split: prod.splits outcome.splits if_splits)
  with Inode_from_bytes_ok[of fs i data] sb show "inode_ok sb inode" by simp
qed

lemma returns_dir_lookup: "returns disk sb (inode_ok sb) (get_dir_entry_inode_by_name dir name)"
  unfolding get_dir_entry_inode_by_name_def
  by (intro returns_bind returns_if returns_let returns_case_option returns_Err returns_Inode_read keeps_intros)

lemma returns_read_root_inode: "returns disk sb (inode_ok sb) read_root_inode"
  unfolding read_root_inode_def by (intro returns_bind returns_Inode_read keeps_intros)

text \<open>A property of the walk that every step keeps.\<close>

lemma walk_loop_invariant:
  assumes step: "\<And>n w w'. I n w \<Longrightarrow> wk_todo w \<noteq> [] \<Longrightarrow> walk_step W follow w = Ok w' \<Longrightarrow> I (n + 1) w'"
  shows "I n w \<Longrightarrow> n \<le> MAX_ITERATIONS \<Longrightarrow> walk_loop W follow n w = Ok w' \<Longrightarrow> \<exists>k \<le> MAX_ITERATIONS. I k w' \<and> wk_todo w' = []"
proof (induction "MAX_ITERATIONS - n" arbitrary: n w rule: less_induct)
  case less
  show ?case
  proof (cases "wk_todo w \<noteq> [] \<and> n + 1 \<le> MAX_ITERATIONS")
    case True
    then obtain w1 where w1: "walk_step W follow w = Ok w1" "walk_loop W follow (n + 1) w1 = Ok w'"
      using less.prems by (auto simp: walk_loop.simps[of W follow n w])
    with step[OF less.prems(1) _ w1(1)] True less.hyps[of "n + 1" w1] show ?thesis by fastforce
  qed (use less.prems in \<open>auto simp: walk_loop.simps[of W follow n w] split: if_splits\<close>)
qed

lemma inode_at_ok:
  assumes "fs_ok disk fs" and "inode_at fs path follow = Ok (inode, p)"
  shows "inode_ok (fs_superblock fs) inode"
proof -
  let ?W = "fs_world fs" and ?ok = "inode_ok (fs_superblock fs)"
  have root: "wd_root ?W = Ok r \<Longrightarrow> ?ok r" for r
    using returns_read_root_inode[of disk "fs_superblock fs"] assms(1) by (simp add: fs_world_sel returns_def)
  have look: "wd_lookup ?W d n = Ok c \<Longrightarrow> ?ok c" for d n c
    using returns_dir_lookup[of disk "fs_superblock fs" d n] assms(1) by (simp add: fs_world_sel returns_def)
  have step: "?ok (wk_inode w')" if i: "?ok (wk_inode w)" and s: "walk_step ?W follow w = Ok w'" for w w'
  proof -
    obtain c where "wd_lookup ?W (wk_inode w) (hd (wk_todo w)) = Ok c" "walk_child ?W follow w c = Ok w'"
      using s by (auto simp: walk_step_def split: if_splits)
    with look i root show ?thesis by (auto simp: walk_child_def Let_def split: if_splits)
  qed
  from assms(2) obtain root w where w: "wd_root ?W = Ok root" "walk_loop ?W follow 0 \<lparr>wk_done = [], wk_inode = root, wk_todo = names path,
      wk_trailing = (last path = SEPARATOR), wk_symlinks = 0\<rparr> = Ok w" "inode = wk_inode w"
    by (auto simp: inode_at_def path_arg_Ok resolve_names_def split: if_splits)
  from walk_loop_invariant[of "\<lambda>n w. ?ok (wk_inode w)", OF step _ _ w(2)] root[OF w(1)] w(3) show ?thesis by auto
qed

text \<open>The operations on the content of a file refuse a directory and a special file.\<close>

lemma regular_file_spec:
  assumes "fs_ok disk fs" and "fs_tame fs" and "inode_at fs path All = Ok (inode, p)" and k: "\<And>i. stable disk fs (k i)"
  shows "fst (bindc (lift (path_arg path)) (\<lambda>path. bindc (resolve_path path All) (\<lambda>v.
     bindc (lift (require (\<not> Metadata_is_dir (in_metadata (fst v))) IsADirectory)) (\<lambda>_.
     bindc (lift (require (is_regular_file (md_file_type (in_metadata (fst v)))) IsASpecialFile)) (\<lambda>_. k (fst v))))) fs) =
     (case md_file_type (in_metadata inode) of
        Regular \<Rightarrow> fst (k inode fs) | Directory \<Rightarrow> Err IsADirectory | _ \<Rightarrow> Err IsASpecialFile)"
    (is "fst (?m fs) = _")
proof -
  let ?g = "\<lambda>v. bind_o (require (\<not> Metadata_is_dir (in_metadata (fst v))) IsADirectory) (\<lambda>_.
     bind_o (require (is_regular_file (md_file_type (in_metadata (fst v)))) IsASpecialFile) (\<lambda>_. fst (k (fst v) fs)))"
  have "computes disk fs fs ?m (bind_o (inode_at fs path All) ?g)"
    by (rule path_arg_computes[OF assms(1,2) good_refl[OF assms(1)]]) (intro computes_lift_bind stableD[OF k assms(1)])
  then have "fst (?m fs) = ?g (inode, p)"
    using assms(3) by (simp add: computes_def)
  then show ?thesis
    by (auto simp: require_def Metadata_is_dir_def is_dir_def is_regular_file_def split: FileType.split)
qed

lemma Ext4_read_spec:
  assumes "fs_ok disk fs" and "fs_tame fs" and "inode_at fs path All = Ok (inode, p)"
    and "inode_blocks disk fs inode bs" and "list_all (data_block fs) bs"
  shows "fst (Ext4_read path fs) =
     (case md_file_type (in_metadata inode) of
        Regular \<Rightarrow> Ok (file_content disk fs bs (unat (md_size_in_bytes (in_metadata inode))))
      | Directory \<Rightarrow> Err IsADirectory
      | _ \<Rightarrow> Err IsASpecialFile)"
proof -
  have dc: "device_complete fs" using assms(2) by (simp add: fs_tame_def)
  have io: "inode_ok (fs_superblock fs) inode" by (rule inode_at_ok[OF assms(1,3)])
  show ?thesis
    using regular_file_spec[OF assms(1-3), of read_inode_file] stable_read_inode_file[OF assms(2)]
      read_inode_file_spec[OF dc good_refl[OF assms(1)] io assms(4,5)]
    by (auto simp: Ext4_read_def Ext4_read_inner_def[abs_def] path_to_inode_bind split: FileType.split)
qed

text \<open>C1: Reading a file by its path: if the walk over the names of the path ends at a regular file with the
  given blocks, the bytes of the file are returned, as many as its size says, holes as zeros; a
  directory and a special file are refused.\<close>

theorem read_by_path:
  assumes "fs_ok disk fs" and "fs_tame fs" and "inode_at fs path All = Ok (inode, p)"
    and "inode_blocks disk fs inode bs" and "list_all (data_block fs) bs"
  shows "fst (Ext4_read path fs) =
     (case md_file_type (in_metadata inode) of
        Regular \<Rightarrow> Ok (file_content disk fs bs (unat (md_size_in_bytes (in_metadata inode))))
      | Directory \<Rightarrow> Err IsADirectory
      | _ \<Rightarrow> Err IsASpecialFile)"
  by (rule Ext4_read_spec[OF assms])

section \<open>A file system with a file\<close>

definition file_inode_bytes :: bytes where
  "file_inode_bytes = [0xa4, 0x81, 0, 0, 5, 0, 0, 0] @ replicate 24 0 @ [0, 0, 8, 0] @ replicate 4 0 @ leaf_root @ replicate 36 0 @ replicate 28 0"

definition file_root_block :: bytes where
  "file_root_block = encode_entry 2 12 Directory [0x2e] @ [0, 0, 0] @ encode_entry 2 12 Directory [0x2e, 0x2e] @ [0, 0] @
     encode_entry 3 1000 Regular [0x66] @ replicate 991 0"

definition file_image :: bytes where
  "file_image = replicate 5248 0 @ root_inode_bytes @ file_inode_bytes @ replicate 1664 0 @ file_root_block @
     unused_block @ unused_block @ replicate 6144 0"

definition file_inode :: Inode where
  "file_inode = \<lparr>in_index = 3, in_inline_data = leaf_root @ replicate 36 0,
     in_metadata = \<lparr>md_size_in_bytes = 5, md_mode = 0x81a4, md_file_type = Regular, md_uid = 0, md_gid = 0\<rparr>,
     in_flags = EXTENTS,
     in_checksum_base = Checksum_update_u32_le 0 (Checksum_update_u32_le 3 (Checksum_with_seed 0xffffffff)),
     in_file_size_in_blocks = 1\<rparr>"

lemma file_image_parts:
  "disk_range (disk_of file_image) 5248 128 = root_inode_bytes" "disk_range (disk_of file_image) 5376 128 = file_inode_bytes"
  "disk_range (disk_of file_image) 7168 1024 = file_root_block"
  "disk_range (disk_of file_image) 8192 1024 = unused_block" "disk_range (disk_of file_image) 9216 1024 = unused_block"
  "length file_image = 16384"
proof -
  have l: "length root_inode_bytes = 128" "length file_inode_bytes = 128" "length file_root_block = 1024" "length unused_block = 1024"
    by (simp_all add: root_inode_bytes_def file_inode_bytes_def leaf_root_def file_root_block_def unused_block_def encode_entry_def)
  let ?a = "replicate 5248 0 :: bytes" and ?b = "replicate 1664 0 :: bytes" and ?z = "replicate 6144 0 :: bytes"
  show "disk_range (disk_of file_image) 5248 128 = root_inode_bytes"
    using disk_range_disk_of[of ?a root_inode_bytes "file_inode_bytes @ ?b @ file_root_block @ unused_block @ unused_block @ ?z"] l
    by (simp add: file_image_def)
  show "disk_range (disk_of file_image) 5376 128 = file_inode_bytes"
    using disk_range_disk_of[of "?a @ root_inode_bytes" file_inode_bytes "?b @ file_root_block @ unused_block @ unused_block @ ?z"] l
    by (simp add: file_image_def)
  show "disk_range (disk_of file_image) 7168 1024 = file_root_block"
    using disk_range_disk_of[of "?a @ root_inode_bytes @ file_inode_bytes @ ?b" file_root_block "unused_block @ unused_block @ ?z"] l
    by (simp add: file_image_def)
  show "disk_range (disk_of file_image) 8192 1024 = unused_block"
    using disk_range_disk_of[of "?a @ root_inode_bytes @ file_inode_bytes @ ?b @ file_root_block" unused_block "unused_block @ ?z"] l
    by (simp add: file_image_def)
  show "disk_range (disk_of file_image) 9216 1024 = unused_block"
    using disk_range_disk_of[of "?a @ root_inode_bytes @ file_inode_bytes @ ?b @ file_root_block @ unused_block" unused_block ?z] l
    by (simp add: file_image_def)
  show "length file_image = 16384" using l by (simp add: file_image_def)
qed

lemma file_inode_parses: "Inode_from_bytes (sample_fs img) 3 file_inode_bytes = Ok (file_inode, 0)"
proof -
  have l: "length file_inode_bytes = 128" by (simp add: file_inode_bytes_def leaf_root_def)
  have f: "u16le_at file_inode_bytes 0 = 0x81a4" "u16le_at file_inode_bytes 2 = 0" "u32le_at file_inode_bytes 4 = 5"
    "u16le_at file_inode_bytes 0x18 = 0" "u32le_at file_inode_bytes 0x20 = 0x80000" "u32le_at file_inode_bytes 0x64 = 0"
    "u32le_at file_inode_bytes 0x6c = 0" "u16le_at file_inode_bytes 0x78 = 0" "u16le_at file_inode_bytes 0x7a = 0"
    by (simp_all add: u16le_at_nth u32le_at_nth l) (simp_all add: file_inode_bytes_def leaf_root_def nth_append)
  have b: "get_range file_inode_bytes 0x28 100 = Some (leaf_root @ replicate 36 0)"
    by (simp add: get_range_def file_inode_bytes_def leaf_root_def)
  have "FileType_try_from 0x81a4 = Ok Regular" by code_simp
  then show ?thesis
    using l by (simp add: Inode_from_bytes_def f b require_def has_metadata_checksums_def sample_superblock_def contains_def
        file_inode_def u64_from_hilo_def u32_from_hilo_def INLINE_DATA_LEN_def usize_max_def Let_def word_try_from_def div_ceil_def
        BlockSize_to_u64_def del: bind_o_eq_Ok)
qed

lemma file_inode_3: "inode_spec (disk_of file_image) (sample_fs file_image) 3 = Ok file_inode"
proof -
  have "get_inode_location (sample_fs file_image) 3 = Ok (5, 256)"
    by (simp add: get_inode_location_def sample_superblock_def checked_sub_def checked_mul_def checked_add_def get_at_def
        BlockSize_to_u64_def word_try_from_def usize_from_u32_def Let_def)
  moreover have "block_read_spec (disk_of file_image) (sample_fs file_image) 5 256 128 = Ok file_inode_bytes"
    using file_image_parts(2) by (simp add: block_read_spec_def readable_def sample_superblock_def)
  moreover have "inode_verify (sample_fs file_image) 3 file_inode_bytes = Ok file_inode"
    using file_inode_parses[of file_image] by (simp add: inode_verify_def has_metadata_checksums_def sample_superblock_def contains_def)
  ultimately show ?thesis by (simp add: inode_spec_def sample_superblock_def)
qed

text \<open>Reading inode 3 of the image: the inode is returned and is the one on the device.\<close>

theorem inode_read_sound_witness:
  "\<exists>fs'. Inode_read 3 (sample_fs file_image) = (Ok file_inode, fs') \<and> fs_ok (disk_of file_image) fs' \<and>
     inode_read_ok (disk_of file_image) (sample_fs file_image) 3 file_inode \<and> in_index file_inode = 3"
proof -
  have "fst (Inode_read 3 (sample_fs file_image)) = Ok file_inode"
    using Inode_read_computes[OF _ _ good_refl[OF sample_fs_ok], of file_image 3] sample_fs_tame[OF file_image_parts(6)]
    by (simp add: fs_tame_def computes_def file_inode_3)
  then obtain fs' where r: "Inode_read 3 (sample_fs file_image) = (Ok file_inode, fs')" by (metis prod.collapse)
  have "(3 :: u32) \<noteq> 0" by simp
  from inode_read_sound[OF sample_fs_ok this, of file_image] r show ?thesis by (simp add: wp_def)
qed

lemma file_inode_blocks: "inode_blocks (disk_of file_image) (sample_fs file_image) file_inode [7]"
proof -
  have e: "Extents_new file_inode = Ok (leaf_extents\<lparr>et_inode := 3, et_checksum_base := in_checksum_base file_inode\<rparr>)"
    by (simp add: Extents_new_def ToVisitItem_new_def NodeHeader_from_bytes_def leaf_root_def file_inode_def
      leaf_item_def leaf_extents_def NodeHeader_node_size_in_bytes_def add_one_mul_entry_size_eq require_def
      ENTRY_SIZE_IN_BYTES_def usize_max_def u16le_at_nth cong: bind_o_weak_cong del: bind_o_eq_Ok)
  have w: "walk (inode_child (disk_of file_image) (sample_fs file_image) file_inode)
      (hd (et_to_visit (leaf_extents\<lparr>et_inode := 3, et_checksum_base := in_checksum_base file_inode\<rparr>))) htree_extents None"
    by (simp add: leaf_extents_def leaf_walk)
  obtain eb where eb: "ExtentsBlocks_new file_inode = Ok eb" using e by (simp add: ExtentsBlocks_new_def del: bind_o_eq_Ok)
  have "contains (in_flags file_inode) EXTENTS" by (simp add: file_inode_def contains_def)
  moreover have "map (\<lambda>k. 7 + of_nat k) [0..<3] = ([7, 8, 9] :: u64 list)" by code_simp
  ultimately show ?thesis
    using inode_blocks_extents[OF sample_fs_ok sample_fs_complete[OF file_image_parts(6)] _ eb e w]
    by (simp add: cut_blocks_def) (simp add: file_inode_def)
qed

lemma file_blocks_read:
  assumes "b \<in> {7, 8, 9}"
  shows "dir_block_spec (disk_of file_image) (sample_fs file_image) (dir_block_at tree_root first b) =
     Ok (if b = 7 then file_root_block else unused_block)"
  using assms file_image_parts
  by (auto simp: dir_block_spec_def block_read_spec_def readable_def verify_block_def has_metadata_checksums_def
      sample_superblock_def contains_def dir_block_at_def)

lemma file_root_searchable: "searchable (disk_of file_image) (sample_fs file_image) tree_root [7, 8, 9]"
  using root_blocks[OF file_image_parts(6)]
  by (simp add: searchable_def dir_ok_def file_blocks_read)
     (simp add: tree_root_def Metadata_is_dir_def is_dir_def contains_def)

lemma file_root_entries:
  "scan_entries i [] file_root_block 0 =
     ([entry_of 2 Directory [0x2e], entry_of 2 Directory [0x2e, 0x2e], entry_of 3 Regular [0x66]], None)"
proof -
  obtain b1 b2 b3 where b: "DirEntryNameBuf_try_from [0x2e] = Ok b1" "DirEntryNameBuf_try_from [0x2e, 0x2e] = Ok b2"
    "DirEntryNameBuf_try_from [0x66] = Ok b3"
    by (simp add: DirEntryNameBuf_try_from_def DirEntryName_try_from_def word_try_from_def MAX_LEN_def SEPARATOR_def Let_def)
  let ?c = "encode_entry 3 1000 Regular [0x66] @ replicate 991 0"
  let ?b = "encode_entry 2 12 Directory [0x2e, 0x2e] @ [0, 0] @ ?c"
  have l: "length file_root_block = 1024" by (simp add: file_root_block_def encode_entry_def)
  have d: "drop 12 file_root_block = ?b" "drop 24 file_root_block = ?c"
    by (simp_all add: file_root_block_def encode_entry_def)
  have 1: "DirEntry_from_bytes file_root_block i [] = Ok (Some (entry_of 2 Directory [0x2e]), 12)"
    using dir_entry_roundtrip[OF b(1), of 2 12 Directory "[0, 0, 0] @ ?b" i "[]"] b(1)
    by (simp add: file_root_block_def entry_of_def)
  have 2: "DirEntry_from_bytes (drop 12 file_root_block) i [] = Ok (Some (entry_of 2 Directory [0x2e, 0x2e]), 12)"
    unfolding d using dir_entry_roundtrip[OF b(2), of 2 12 Directory "[0, 0] @ ?c" i "[]"] b(2) by (simp add: entry_of_def)
  have 3: "DirEntry_from_bytes (drop 24 file_root_block) i [] = Ok (Some (entry_of 3 Regular [0x66]), 1000)"
    unfolding d using dir_entry_roundtrip[OF b(3), of 3 1000 Regular "replicate 991 0" i "[]"] b(3) by (simp add: entry_of_def)
  from 1 2 3 l show ?thesis
    using scan_step[of 0 file_root_block i "[]"] scan_step[of 12 file_root_block i "[]"] scan_step[of 24 file_root_block i "[]"]
      scan_end[of file_root_block 1024 i "[]"] by simp
qed

lemma file_lookup: "fst (get_dir_entry_inode_by_name tree_root [0x66] (sample_fs file_image)) = Ok file_inode"
proof -
  have n: "DirEntryName_try_from [0x66] = Ok [0x66]" "DirEntryName_try_from [0x2e] = Ok [0x2e]"
    "DirEntryName_try_from [0x2e, 0x2e] = Ok [0x2e, 0x2e]" by code_simp+
  have "blocks_entries (disk_of file_image) (sample_fs file_image) tree_root [] True [7, 8, 9] None =
      ([entry_of 2 Directory [0x2e], entry_of 2 Directory [0x2e, 0x2e], entry_of 3 Regular [0x66]], None)"
    by (simp add: block_entries_def file_blocks_read file_root_entries unused_block_entries)
  then have "dir_lookup (disk_of file_image) (sample_fs file_image) tree_root [7, 8, 9] [0x66] = Ok file_inode"
    using entry_name[OF n(1)] entry_name[OF n(2)] entry_name[OF n(3)] file_inode_3
    by (simp add: dir_lookup_def find_entry_simps) (simp add: entry_of_def)
  with dir_lookup_computes[OF _ _ sample_fs_ok file_root_searchable, of "[0x66]"] sample_fs_tame[OF file_image_parts(6)]
  show ?thesis by (simp add: fs_tame_def computes_def)
qed

lemma file_inode_at: "inode_at (sample_fs file_image) [0x2f, 0x66] All = Ok (file_inode, [0x2f, 0x66])"
proof -
  let ?W = "fs_world (sample_fs file_image)"
  have n: "names [0x2f, 0x66] = [[0x66]]" by code_simp
  have a: "path_arg [0x2f, 0x66] = Ok [0x2f, 0x66]" by code_simp
  let ?w = "\<lparr>wk_done = [], wk_inode = tree_root, wk_todo = [[0x66]], wk_trailing = False, wk_symlinks = 0\<rparr>"
  let ?w' = "\<lparr>wk_done = [[0x66]], wk_inode = file_inode, wk_todo = [], wk_trailing = False, wk_symlinks = 0\<rparr>"
  have "\<not> Metadata_is_symlink (in_metadata file_inode)" by (simp add: file_inode_def Metadata_is_symlink_def is_symlink_def)
  then have "walk_step ?W All ?w = Ok ?w'"
    using file_lookup tree_root_is_dir by (simp add: walk_step_def walk_child_def fs_world_sel)
  then have "walk_loop ?W All 0 ?w = Ok ?w'"
    by (simp add: walk_loop.simps MAX_ITERATIONS_def)
  moreover have "render [[0x66]] False = [0x2f, 0x66]" by code_simp
  ultimately show ?thesis
    using root_read[OF file_image_parts(6,1)] n a
    by (simp add: inode_at_def resolve_names_def fs_world_sel Path_is_absolute_def SEPARATOR_def MAX_PATH_LEN_def)
qed

lemma file_inode_content:
  "file_content (disk_of file_image) (sample_fs file_image) [7] (unat (md_size_in_bytes (in_metadata file_inode))) = [2, 0, 0, 0, 12]"
proof -
  have "file_content (disk_of file_image) (sample_fs file_image) [7] 5 = take 5 (disk_range (disk_of file_image) 7168 1024)"
    by (rule nth_equalityI) (simp_all add: file_content_def file_byte_def disk_range_def sample_superblock_def)
  moreover have "take 5 file_root_block = [2, 0, 0, 0, 12]"
    by (simp add: file_root_block_def encode_entry_def) code_simp
  ultimately show ?thesis using file_image_parts(3) by (simp add: file_inode_def)
qed

theorem read_by_path_witness:
  "fst (Ext4_read [0x2f, 0x66] (sample_fs file_image)) = Ok [2, 0, 0, 0, 12]"
proof -
  have "list_all (data_block (sample_fs file_image)) [7]"
    by (simp add: data_block_def sample_superblock_def)
  from read_by_path[OF sample_fs_ok sample_fs_tame[OF file_image_parts(6)] file_inode_at file_inode_blocks this] file_inode_content
  show ?thesis by (simp only:) (simp add: file_inode_def)
qed

lemma Ext4_read_dir_run:
  assumes "fs_ok disk fs" and "fs_tame fs" and "inode_at fs path All = Ok (inode, p)"
  obtains fs1 where "Ext4_read_dir path fs = (bind_o (require (Metadata_is_dir (in_metadata inode)) NotADirectory)
      (\<lambda>_. ReadDir_new fs inode path), fs1)" "good disk fs fs1"
proof -
  have a: "path_arg path = Ok path" using assms(3) by (auto simp: inode_at_def path_arg_Ok)
  then have v: "valid_path path" by (simp add: path_arg_Ok)
  have "resolve_names (fs_world fs) path All = Ok (inode, p)" using assms(3) a by (simp add: inode_at_def)
  with computesD[OF resolve_path_follows[OF assms(1,2) good_refl[OF assms(1)] v, of All]]
  obtain fs1 where r: "resolve_path path All fs = (Ok (inode, p), fs1)" and g: "good disk fs fs1" by auto
  have "ReadDir_new fs1 inode path = ReadDir_new fs inode path"
    using good_sel(1)[OF g] by (simp add: ReadDir_new_def)
  then have "Ext4_read_dir path fs = (bind_o (require (Metadata_is_dir (in_metadata inode)) NotADirectory)
      (\<lambda>_. ReadDir_new fs inode path), fs1)"
    using r by (auto simp: Ext4_read_dir_def a bindc_lift_Ok path_to_inode_def bindc_def ret_def lift_def gets_def require_def)
  with g that show ?thesis by blast
qed

text \<open>C9: Listing a directory by its path: if the walk over the names of the path ends at a directory, an iterator
  is returned that yields the entries of its blocks in order, each with the path under which the
  directory was listed; anything else is not a directory.\<close>

theorem read_dir_by_path:
  assumes "fs_ok disk fs" and "fs_tame fs" and "inode_at fs path All = Ok (inode, p)"
    and "Metadata_is_dir (in_metadata inode) \<longrightarrow> dir_ok disk fs inode bs"
  shows "if Metadata_is_dir (in_metadata inode)
     then \<exists>it fs'. Ext4_read_dir path fs = (Ok it, fs') \<and>
       outputs ReadDir_next (it, fs') (blocks_entries disk fs inode path True bs None)
     else fst (Ext4_read_dir path fs) = Err NotADirectory"
proof -
  have dc: "device_complete fs" using assms(2) by (simp add: fs_tame_def)
  obtain fs1 where e: "Ext4_read_dir path fs = (bind_o (require (Metadata_is_dir (in_metadata inode)) NotADirectory)
      (\<lambda>_. ReadDir_new fs inode path), fs1)" and g: "good disk fs fs1"
    by (rule Ext4_read_dir_run[OF assms(1-3)])
  show ?thesis
  proof (cases "Metadata_is_dir (in_metadata inode)")
    case True
    with assms(4) have d: "dir_ok disk fs inode bs" by blast
    obtain it where "ReadDir_new fs inode path = Ok it"
      "\<And>fs'. good disk fs fs' \<Longrightarrow> outputs ReadDir_next (it, fs') (blocks_entries disk fs inode path True bs None)"
      using ReadDir_new_outputs[OF dc g d, of path] by blast
    with e g True show ?thesis by (auto simp: require_def)
  qed (simp add: e require_def)
qed

theorem read_dir_by_path_witness:
  "\<exists>it fs'. Ext4_read_dir [0x2f, 0x2e] (sample_fs tree_image) = (Ok it, fs') \<and>
     outputs ReadDir_next (it, fs')
       (blocks_entries (disk_of tree_image) (sample_fs tree_image) tree_root [0x2f, 0x2e] True [7, 8, 9] None)"
proof -
  have "path_arg [0x2f, 0x2e] = Ok [0x2f, 0x2e]" by code_simp
  then have i: "inode_at (sample_fs tree_image) [0x2f, 0x2e] All = Ok (tree_root, [0x2f])"
    using tree_resolves_dot by (simp add: inode_at_def)
  have "dir_ok (disk_of tree_image) (sample_fs tree_image) tree_root [7, 8, 9]"
    using tree_root_searchable by (simp add: searchable_def tree_root_def contains_def)
  with read_dir_by_path[OF sample_fs_ok tree_fs_tame i, of "[7, 8, 9]"] tree_root_is_dir show ?thesis by simp
qed

end
