(* ===== verification/Canonical.thy ===== *)
theory Canonical
  imports Ext4_Api
begin

text \<open>
  Canonical paths (\<^verbatim>\<open>Ext4::canonicalize\<close> of \<^verbatim>\<open>src/src/lib.rs\<close>): in a tree of directories in which \<open>..\<close> leads back to
  the directory one came from, resolving a canonical path changes nothing. The proof follows the walk
  of \<open>Resolve\<close>: the names already walked always lead from the root, without links, to the current
  inode.
\<close>

section \<open>Descending from a directory\<close>

fun reach :: "World \<Rightarrow> Inode \<Rightarrow> DirEntryName list \<Rightarrow> Inode option" where
  "reach W d [] = Some d"
| "reach W d (n # ns) =
     (if Metadata_is_dir (in_metadata d) \<and> n \<notin> dots
      then (case wd_lookup W d n of
              Ok c \<Rightarrow> if Metadata_is_symlink (in_metadata c) then None else reach W c ns
            | _ \<Rightarrow> None)
      else None)"

lemma reach_append: "reach W d (xs @ ys) = Option.bind (reach W d xs) (\<lambda>e. reach W e ys)"
  by (induction xs arbitrary: d) (auto split: outcome.split)

text \<open>The entry \<open>..\<close> of the root is the root, and that of a directory below another one is that directory.\<close>

definition dotdot_ok :: "World \<Rightarrow> bool" where
  "dotdot_ok W \<longleftrightarrow> (\<forall>r. wd_root W = Ok r \<longrightarrow>
     (\<forall>p. wd_lookup W r [0x2e, 0x2e] = Ok p \<longrightarrow> p = r) \<and>
     (\<forall>ns n d c p. reach W r ns = Some d \<longrightarrow> reach W r (ns @ [n]) = Some c \<longrightarrow>
        wd_lookup W c [0x2e, 0x2e] = Ok p \<longrightarrow> p = d))"

section \<open>Lengths\<close>

definition names_size :: "DirEntryName list \<Rightarrow> nat" where
  "names_size ns = sum_list (map (\<lambda>c. length c + 1) ns)"

lemma names_size_append [simp]: "names_size (xs @ ys) = names_size xs + names_size ys"
  by (simp add: names_size_def)

lemma names_size_simps [simp]: "names_size [] = 0" "names_size (c # cs) = length c + 1 + names_size cs"
  by (simp_all add: names_size_def)

lemma names_size_suffix: "length (path_suffix cs tr) = names_size cs + (if tr then 1 else 0)"
  by (induction cs) (auto simp: path_suffix_def)

lemma names_size_prefix: "length (path_prefix cs) = names_size cs + 1"
  by (induction cs) (auto simp: path_prefix_def)

lemma names_size_butlast: "names_size (butlast cs) \<le> names_size cs"
  by (cases cs rule: rev_cases) simp_all

lemma split_size: "sum_list (map (\<lambda>c. length c + 1) (split_sep p)) = length p + 1"
proof (induction p)
  case (Cons b p)
  then show ?case by (cases "split_sep p") auto
qed simp

lemma names_size_le: "names_size (names p) \<le> length p + 1"
proof -
  have "sum_list (map (\<lambda>c. length c + 1) (filter (\<lambda>c. c \<noteq> []) cs)) \<le> sum_list (map (\<lambda>c. length c + 1) cs)" for cs :: "bytes list"
    by (induction cs) auto
  from this[of "split_sep p"] split_size[of p] show ?thesis by (simp add: names_size_def names_def)
qed

lemma names_size_absolute: "Path_is_absolute p \<Longrightarrow> names_size (names p) \<le> length p"
proof (cases p)
  case (Cons b q)
  assume "Path_is_absolute p"
  with Cons have "b = SEPARATOR" by (simp add: Path_is_absolute_def)
  with Cons names_size_le[of q] show ?thesis by simp
qed (simp add: Path_is_absolute_def)

section \<open>The walk stays on the tree\<close>

definition on_tree :: "World \<Rightarrow> Inode \<Rightarrow> nat \<Rightarrow> Walk \<Rightarrow> bool" where
  "on_tree W r n w \<longleftrightarrow> walk_ok w \<and> reach W r (wk_done w) = Some (wk_inode w) \<and> length (wk_done w) \<le> n \<and>
     names_size (wk_done w) + names_size (wk_todo w) \<le> MAX_PATH_LEN"

lemma reach_parent:
  assumes "dotdot_ok W" and "wd_root W = Ok r" and "reach W r ns = Some i" and "wd_lookup W i [0x2e, 0x2e] = Ok p"
  shows "reach W r (butlast ns) = Some p"
proof (cases ns rule: rev_cases)
  case Nil
  with assms show ?thesis by (auto simp: dotdot_ok_def)
next
  case (snoc ms m)
  with assms(3) obtain d where "reach W r ms = Some d" by (auto simp: reach_append bind_eq_Some_conv)
  with snoc assms show ?thesis unfolding dotdot_ok_def by (metis butlast_snoc)
qed

lemma on_tree_link:
  assumes r: "wd_root W = Ok r" and t: "on_tree W r n w" and ok: "walk_ok w'" and todo: "wk_todo w = c # rest"
    and link: "c \<notin> dots" "Metadata_is_symlink (in_metadata child)" and ch: "walk_child W All w child = Ok w'"
  shows "on_tree W r (n + 1) w'"
proof -
  obtain tg where tg: "wd_target W child = Ok tg"
    using link ch todo by (auto simp: walk_child_def dots_def Let_def split: if_splits)
  show ?thesis
  proof (cases "Path_is_absolute tg")
    case True
    with ch todo link tg r have e: "wk_inode w' = r" "wk_done w' = []" "wk_todo w' = names tg @ rest"
      and l: "length (tg @ path_suffix rest (wk_trailing w)) \<le> MAX_PATH_LEN"
      by (auto simp: walk_child_def dots_def Let_def split: if_splits)
    from l names_size_absolute[OF True] have "names_size (names tg) + names_size rest \<le> MAX_PATH_LEN"
      by (simp add: names_size_suffix)
    with ok e show ?thesis by (simp add: on_tree_def)
  next
    case False
    with ch todo link tg have e: "wk_inode w' = wk_inode w" "wk_done w' = wk_done w" "wk_todo w' = names tg @ rest"
      and l: "length (path_prefix (wk_done w) @ tg @ path_suffix rest (wk_trailing w)) \<le> MAX_PATH_LEN"
      by (auto simp: walk_child_def dots_def Let_def split: if_splits)
    from l names_size_le[of tg] have "names_size (wk_done w) + (names_size (names tg) + names_size rest) \<le> MAX_PATH_LEN"
      by (simp add: names_size_suffix names_size_prefix)
    with ok e t show ?thesis by (simp add: on_tree_def)
  qed
qed

lemma on_tree_step:
  assumes "dotdot_ok W" and r: "wd_root W = Ok r" and v: "\<And>i t. wd_target W i = Ok t \<Longrightarrow> valid_path t"
    and t: "on_tree W r n w" and "wk_todo w \<noteq> []" and s: "walk_step W All w = Ok w'"
  shows "on_tree W r (n + 1) w'"
proof -
  obtain c rest where todo: "wk_todo w = c # rest" using assms(5) by (cases "wk_todo w") auto
  obtain child where dir: "Metadata_is_dir (in_metadata (wk_inode w))" and look: "wd_lookup W (wk_inode w) c = Ok child"
    and ch: "walk_child W All w child = Ok w'"
    using s todo by (auto simp: walk_step_def split: if_splits)
  have "walk_ok w" using t by (simp add: on_tree_def)
  have ok: "walk_ok w'" by (rule walk_child_ok[OF v \<open>walk_ok w\<close> assms(5) ch])
  have re: "reach W r (wk_done w) = Some (wk_inode w)" and n: "length (wk_done w) \<le> n"
    and sz: "names_size (wk_done w) + names_size (wk_todo w) \<le> MAX_PATH_LEN" using t by (simp_all add: on_tree_def)
  consider (dot) "c = [0x2e]" | (dotdot) "c = [0x2e, 0x2e]" | (link) "c \<notin> dots" "Metadata_is_symlink (in_metadata child)"
    | (plain) "c \<notin> dots" "\<not> Metadata_is_symlink (in_metadata child)" by (auto simp: dots_def)
  then show ?thesis
  proof cases
    case dot
    with ch todo ok re n sz show ?thesis by (auto simp: walk_child_def on_tree_def)
  next
    case dotdot
    with reach_parent[OF assms(1) r re] look have "reach W r (butlast (wk_done w)) = Some child" by simp
    with ch todo ok n sz dotdot names_size_butlast[of "wk_done w"] show ?thesis
      by (auto simp: walk_child_def on_tree_def)
  next
    case plain
    then have "w' = w\<lparr>wk_done := wk_done w @ [c], wk_inode := child, wk_todo := rest\<rparr>"
      using ch todo by (simp add: walk_child_def dots_def)
    with ok re n sz todo plain dir look show ?thesis by (simp add: on_tree_def reach_append)
  next
    case link
    show ?thesis by (rule on_tree_link[OF r t ok todo link ch])
  qed
qed

text \<open>Walking down names that lead from a directory.\<close>

lemma walk_reach:
  "reach W d todo = Some c \<Longrightarrow> n + length todo \<le> MAX_ITERATIONS \<Longrightarrow>
   walk_loop W All n \<lparr>wk_done = ds, wk_inode = d, wk_todo = todo, wk_trailing = tr, wk_symlinks = k\<rparr> =
     Ok \<lparr>wk_done = ds @ todo, wk_inode = c, wk_todo = [], wk_trailing = tr, wk_symlinks = k\<rparr>"
proof (induction todo arbitrary: d ds n)
  case Nil
  then show ?case by (simp add: walk_loop.simps)
next
  case (Cons m todo)
  let ?w = "\<lparr>wk_done = ds, wk_inode = d, wk_todo = m # todo, wk_trailing = tr, wk_symlinks = k\<rparr>"
  from Cons.prems(1) obtain e where e: "Metadata_is_dir (in_metadata d)" "m \<notin> dots" "wd_lookup W d m = Ok e"
    "\<not> Metadata_is_symlink (in_metadata e)" "reach W e todo = Some c"
    by (auto split: if_splits outcome.splits)
  then have "walk_step W All ?w = Ok \<lparr>wk_done = ds @ [m], wk_inode = e, wk_todo = todo, wk_trailing = tr, wk_symlinks = k\<rparr>"
    by (simp add: walk_step_def walk_child_def dots_def)
  with Cons.IH[OF e(5), of "n + 1" "ds @ [m]"] Cons.prems(2) show ?case
    by (simp add: walk_loop.simps[of W All n ?w])
qed

lemma resolve_canonical:
  assumes "dotdot_ok W" and v: "\<And>i t. wd_target W i = Ok t \<Longrightarrow> valid_path t" and "valid_path path"
    and "resolve_names W path All = Ok (inode, p)"
  shows "valid_path p \<and> resolve_names W p All = Ok (inode, p)"
proof -
  from assms(4) obtain r w where r: "wd_root W = Ok r" and abs: "Path_is_absolute path" "length path \<le> MAX_PATH_LEN"
    and w: "walk_loop W All 0 \<lparr>wk_done = [], wk_inode = r, wk_todo = names path, wk_trailing = (last path = SEPARATOR),
      wk_symlinks = 0\<rparr> = Ok w" and res: "inode = wk_inode w" "p = render (wk_done w) False"
    by (auto simp: resolve_names_def split: if_splits)
  have "on_tree W r 0 \<lparr>wk_done = [], wk_inode = r, wk_todo = names path, wk_trailing = (last path = SEPARATOR), wk_symlinks = 0\<rparr>"
    using names_size_absolute[OF abs(1)] abs(2) names_valid[OF assms(3)] by (auto simp: on_tree_def walk_ok_def)
  moreover have "on_tree W r (n + 1) w2" if "on_tree W r n w1" "wk_todo w1 \<noteq> []" "walk_step W All w1 = Ok w2" for n w1 w2
    by (rule on_tree_step[OF assms(1) r v that])
  ultimately obtain k where k: "k \<le> MAX_ITERATIONS" and t: "on_tree W r k w" and todo: "wk_todo w = []"
    using walk_loop_invariant[where I = "on_tree W r", OF _ _ _ w] by blast
  let ?ds = "wk_done w"
  have ds: "\<forall>c \<in> set ?ds. is_name c" and len: "length ?ds \<le> MAX_ITERATIONS" and re: "reach W r ?ds = Some inode"
    and sz: "names_size ?ds \<le> MAX_PATH_LEN"
    using t k todo res(1) by (auto simp: on_tree_def walk_ok_def)
  note rf = render_facts[OF ds]
  have "length p \<le> MAX_PATH_LEN" using sz res(2) by (simp add: render_def names_size_suffix MAX_PATH_LEN_def)
  moreover have "walk_loop W All 0 \<lparr>wk_done = [], wk_inode = r, wk_todo = ?ds, wk_trailing = (last p = SEPARATOR), wk_symlinks = 0\<rparr> =
      Ok \<lparr>wk_done = ?ds, wk_inode = inode, wk_todo = [], wk_trailing = (last p = SEPARATOR), wk_symlinks = 0\<rparr>"
    using walk_reach[OF re, of 0 "[]"] len by simp
  moreover have "?ds \<noteq> [] \<Longrightarrow> last p \<noteq> SEPARATOR"
    using rf(1)[of False] res(2) ds by (cases ?ds) (auto simp: render_def path_suffix_def is_name_def)
  ultimately have "resolve_names W p All = Ok (inode, p)"
    using rf(4,5) res(2) r by (auto simp: resolve_names_def)
  with rf(3) res(2) show ?thesis by simp
qed

text \<open>C11: Canonicalization is idempotent: where \<open>..\<close> leads back to the directory one came from, the
  canonical path of a canonical path is that path, and resolving it gives the very inode that resolving the
  original path gives, with all its fields; in particular its length and the number of its components are
  within the limits of the resolution.\<close>

theorem canonicalize_idempotent:
  assumes "fs_ok disk fs" and "fs_tame fs" and "dotdot_ok (fs_world fs)"
    and "fst (Ext4_canonicalize path fs) = Ok p"
  shows "fst (Ext4_canonicalize p fs) = Ok p \<and> fst (Ext4_metadata p fs) = fst (Ext4_metadata path fs) \<and>
     (\<exists>inode. fst (path_to_inode path All fs) = Ok inode \<and> fst (path_to_inode p All fs) = Ok inode)"
proof -
  have c: "fst (Ext4_canonicalize q fs) = bind_o (inode_at fs q All) (\<lambda>v. Ok (snd v))"
    and m: "fst (Ext4_metadata q fs) = bind_o (inode_at fs q All) (\<lambda>v. Ok (in_metadata (fst v)))" for q
    using path_operations_spec[OF assms(1,2), of q] by simp_all
  from assms(4) c[of path] obtain inode where i: "inode_at fs path All = Ok (inode, p)" by auto
  then have v: "valid_path path" "resolve_names (fs_world fs) path All = Ok (inode, p)"
    by (auto simp: inode_at_def path_arg_Ok)
  from resolve_canonical[OF assms(3) _ this] symlink_target_valid
  have p: "inode_at fs p All = Ok (inode, p)" by (auto simp: inode_at_def path_arg_Ok fs_world_sel)
  have "fst (path_to_inode q All fs) = Ok inode" if q: "inode_at fs q All = Ok (inode, p)" for q
  proof -
    from q have "valid_path q" "resolve_names (fs_world fs) q All = Ok (inode, p)" by (auto simp: inode_at_def path_arg_Ok)
    with resolve_path_follows[OF assms(1,2) good_refl[OF assms(1)], of q All] show ?thesis
      by (auto simp: path_to_inode_def computes_def bindc_def ret_def split: prod.splits)
  qed
  with i p c[of p] m[of p] m[of path] show ?thesis by simp
qed

text \<open>The sample image with one file: every lookup in its root, and everything that can be reached from it.\<close>

lemma file_lookups:
  "fst (get_dir_entry_inode_by_name tree_root name (sample_fs file_image)) =
     (if name \<in> dots then Ok tree_root else if name = [0x66] then Ok file_inode else Err NotFound)"
proof -
  have n: "DirEntryName_try_from [0x66] = Ok [0x66]" "DirEntryName_try_from [0x2e] = Ok [0x2e]"
    "DirEntryName_try_from [0x2e, 0x2e] = Ok [0x2e, 0x2e]" by code_simp+
  have "blocks_entries (disk_of file_image) (sample_fs file_image) tree_root [] True [7, 8, 9] None =
      ([entry_of 2 Directory [0x2e], entry_of 2 Directory [0x2e, 0x2e], entry_of 3 Regular [0x66]], None)"
    by (simp add: block_entries_def file_blocks_read file_root_entries unused_block_entries)
  then have "dir_lookup (disk_of file_image) (sample_fs file_image) tree_root [7, 8, 9] name =
     (if name \<in> dots then Ok tree_root else if name = [0x66] then Ok file_inode else Err NotFound)"
    using entry_name[OF n(1)] entry_name[OF n(2)] entry_name[OF n(3)] file_inode_3 root_inode_2[OF file_image_parts(6,1)]
    by (auto simp: dir_lookup_def find_entry_simps dots_def entry_of_def)
  with dir_lookup_computes[OF _ _ sample_fs_ok file_root_searchable, of name] sample_fs_tame[OF file_image_parts(6)]
  show ?thesis by (simp add: fs_tame_def computes_def)
qed

lemma file_inode_kind: "\<not> Metadata_is_dir (in_metadata file_inode)" "\<not> Metadata_is_symlink (in_metadata file_inode)"
  by (simp_all add: file_inode_def Metadata_is_dir_def is_dir_def Metadata_is_symlink_def is_symlink_def)

lemma file_reach:
  "reach (fs_world (sample_fs file_image)) tree_root ns = Some d \<longleftrightarrow>
     ns = [] \<and> d = tree_root \<or> ns = [[0x66]] \<and> d = file_inode"
proof (cases ns)
  case (Cons n ms)
  then show ?thesis
    using file_inode_kind tree_root_is_dir
    by (cases ms) (auto simp: fs_world_sel file_lookups dots_def split: if_splits)
qed auto

lemma file_dotdot_ok: "dotdot_ok (fs_world (sample_fs file_image))"
proof -
  have "fst (get_dir_entry_inode_by_name file_inode name (sample_fs file_image)) = Panic" for name
    using file_inode_kind(1) by (simp add: get_dir_entry_inode_by_name_def bindc_def lift_def assert_o_def)
  then show ?thesis
    using root_read[OF file_image_parts(6,1)]
    by (auto simp: dotdot_ok_def fs_world_sel file_reach file_lookups dots_def)
qed

theorem canonicalize_idempotent_witness:
  "fst (Ext4_canonicalize [0x2f, 0x2e, 0x2f, 0x66] (sample_fs file_image)) = Ok [0x2f, 0x66] \<and>
   fst (Ext4_canonicalize [0x2f, 0x66] (sample_fs file_image)) = Ok [0x2f, 0x66] \<and>
   fst (Ext4_metadata [0x2f, 0x66] (sample_fs file_image)) = fst (Ext4_metadata [0x2f, 0x2e, 0x2f, 0x66] (sample_fs file_image)) \<and>
   (\<exists>inode. fst (path_to_inode [0x2f, 0x2e, 0x2f, 0x66] All (sample_fs file_image)) = Ok inode \<and>
      fst (path_to_inode [0x2f, 0x66] All (sample_fs file_image)) = Ok inode)"
proof -
  let ?fs = "sample_fs file_image" and ?p = "[0x2f, 0x2e, 0x2f, 0x66]"
  let ?w = "\<lambda>ds i todo. \<lparr>wk_done = ds, wk_inode = i, wk_todo = todo, wk_trailing = False, wk_symlinks = 0\<rparr>"
  have n: "names ?p = [[0x2e], [0x66]]" "path_arg ?p = Ok ?p" "render [[0x66]] False = [0x2f, 0x66]" by code_simp+
  have "walk_step (fs_world ?fs) All (?w [] tree_root [[0x2e], [0x66]]) = Ok (?w [] tree_root [[0x66]])"
    "walk_step (fs_world ?fs) All (?w [] tree_root [[0x66]]) = Ok (?w [[0x66]] file_inode [])"
    using tree_root_is_dir file_inode_kind by (simp_all add: walk_step_def walk_child_def fs_world_sel file_lookups dots_def)
  then have "walk_loop (fs_world ?fs) All 0 (?w [] tree_root [[0x2e], [0x66]]) = Ok (?w [[0x66]] file_inode [])"
    by (simp add: walk_loop.simps MAX_ITERATIONS_def)
  then have "inode_at ?fs ?p All = Ok (file_inode, [0x2f, 0x66])"
    using root_read[OF file_image_parts(6,1)] n
    by (simp add: inode_at_def resolve_names_def fs_world_sel Path_is_absolute_def SEPARATOR_def MAX_PATH_LEN_def)
  then have c: "fst (Ext4_canonicalize ?p ?fs) = Ok [0x2f, 0x66]"
    using path_operations_spec[OF sample_fs_ok sample_fs_tame[OF file_image_parts(6)], of ?p] by simp
  from canonicalize_idempotent[OF sample_fs_ok sample_fs_tame[OF file_image_parts(6)] file_dotdot_ok c] c show ?thesis
    by blast
qed

end
