(* ===== verification/Device_Bounds.thy ===== *)
theory Device_Bounds
  imports Ext4_Api
begin

text \<open>
  No operation on a loaded file system looks outside the device: its outcome, and the state it leaves, do
  not depend on what the reader would answer for bytes beyond the blocks that the superblock counts.
  This is shown by replacing the reader. A computation commutes with a map of states if running it
  in the mapped state gives the same outcome and the mapped final state; the rules for the
  combinators of the model are proved for any such map, and the operations follow their definitions.
\<close>

definition commutes :: "('t \<Rightarrow> 't) \<Rightarrow> ('t \<Rightarrow> bool) \<Rightarrow> ('t, 'a, 'e) comp \<Rightarrow> bool" where
  "commutes h I m \<longleftrightarrow> (\<forall>t. I t \<longrightarrow> m (h t) = (fst (m t), h (snd (m t))) \<and> I (snd (m t)))"

named_theorems commutes_intros \<open>computations that commute with a map of states\<close>

lemma commutesD: "commutes h I m \<Longrightarrow> I t \<Longrightarrow> m t = (r, t') \<Longrightarrow> m (h t) = (r, h t') \<and> I t'"
  by (auto simp: commutes_def)

lemma commutesI: "(\<And>t r t'. I t \<Longrightarrow> m t = (r, t') \<Longrightarrow> m (h t) = (r, h t') \<and> I t') \<Longrightarrow> commutes h I m"
  unfolding commutes_def by (metis prod.collapse)

lemma commutes_if [commutes_intros]:
  "(b \<Longrightarrow> commutes h I m) \<Longrightarrow> (\<not> b \<Longrightarrow> commutes h I n) \<Longrightarrow> commutes h I (if b then m else n)"
  by simp

lemma commutes_let [commutes_intros]: "(\<And>x. commutes h I (f x)) \<Longrightarrow> commutes h I (let x = v in f x)"
  by simp

lemma commutes_case_option [commutes_intros]:
  "commutes h I m \<Longrightarrow> (\<And>x. commutes h I (f x)) \<Longrightarrow> commutes h I (case v of None \<Rightarrow> m | Some x \<Rightarrow> f x)"
  by (cases v) auto

lemma commutes_case_prod [commutes_intros]: "(\<And>a b. commutes h I (f a b)) \<Longrightarrow> commutes h I (case p of (a, b) \<Rightarrow> f a b)"
  by (cases p) simp

lemma commutes_lift [commutes_intros]: "commutes h I (lift r)"
  by (simp add: commutes_def lift_def)

lemma commutes_ret [commutes_intros]: "commutes h I (ret x)"
  by (simp add: commutes_def ret_def)

lemma commutes_bindc [commutes_intros]:
  assumes "commutes h I m" and "\<And>x. commutes h I (f x)"
  shows "commutes h I (bindc m f)"
proof (rule commutesI)
  fix t r t'
  assume t: "I t" "bindc m f t = (r, t')"
  obtain q t1 where q: "m t = (q, t1)" by fastforce
  note m = commutesD[OF assms(1) t(1) q]
  show "bindc m f (h t) = (r, h t') \<and> I t'"
    using t(2) q m commutesD[OF assms(2)] by (cases q) (auto simp: bindc_def)
qed

text \<open>What is read of the state must be the same, or at least of no consequence.\<close>

lemma commutes_bind_gets:
  assumes "\<And>t. I t \<Longrightarrow> f (g (h t)) = f (g t)" and "\<And>x. commutes h I (f x)"
  shows "commutes h I (bindc (gets g) f)"
proof (rule commutesI)
  fix t r t'
  assume "I t" "bindc (gets g) f t = (r, t')"
  with assms(1)[of t] commutesD[OF assms(2)[of "g t"]] show "bindc (gets g) f (h t) = (r, h t') \<and> I t'"
    by (simp add: bindc_def gets_def)
qed

lemma commutes_loop:
  assumes n: "commutes h I n" and d: "\<And>t. is_done (h t) = is_done t" and s: "\<And>t. set_done (h t) = h (set_done t)"
    and i: "\<And>t. I t \<Longrightarrow> I (set_done t)"
  shows "I t \<Longrightarrow> result_iter_loop is_done set_done n t = Some y \<Longrightarrow>
      result_iter_loop is_done set_done n (h t) = Some (fst y, h (snd y)) \<and> I (snd y)"
    and "I t \<Longrightarrow> result_iter_loop is_done set_done n (h t) = Some z \<Longrightarrow> \<exists>y. result_iter_loop is_done set_done n t = Some y"
proof -
  show "result_iter_loop is_done set_done n (h t) = Some (fst y, h (snd y)) \<and> I (snd y)"
    if "I t" and "result_iter_loop is_done set_done n t = Some y"
    using that(2,1)
  proof (induction rule: iter_loop_induct)
    case (finished t)
    with d show ?case by (simp add: iter_loop_done)
  next
    case (stop t r t')
    note c = commutesD[OF n stop(4,2)]
    from stop(1) have "\<not> is_done (h t)" by (simp add: d)
    from iter_loop_stop[of is_done "h t" n, OF this conjunct1[OF c] stop(3)] c s i show ?case by (cases r) simp_all
  next
    case (again t t' y)
    note c = commutesD[OF n again(4,2)]
    from again(1) have "\<not> is_done (h t)" by (simp add: d)
    from iter_loop_again[of is_done "h t" n, OF this conjunct1[OF c]] again(3) c show ?case by simp
  qed
  show "\<exists>y. result_iter_loop is_done set_done n t = Some y"
    if "I t" and "result_iter_loop is_done set_done n (h t) = Some z"
    using that(2,1)
  proof (induction "h t" z arbitrary: t rule: iter_loop_induct)
    case finished
    with d show ?case by (simp add: iter_loop_done)
  next
    case (stop r u)
    obtain r' t' where q: "n t = (r', t')" by fastforce
    with commutesD[OF n stop(4) q] stop(1,2,3) d show ?case by (simp add: iter_loop_stop)
  next
    case (again u z)
    obtain r' t' where q: "n t = (r', t')" by fastforce
    with commutesD[OF n again(4) q] again d show ?case by (simp add: iter_loop_again)
  qed
qed

lemma commutes_iter:
  assumes n: "commutes h I n" and d: "\<And>t. is_done (h t) = is_done t" and s: "\<And>t. set_done (h t) = h (set_done t)"
    and i: "\<And>t. I t \<Longrightarrow> I (set_done t)"
  shows "commutes h I (result_iter_next is_done set_done n)"
  unfolding commutes_def
proof (intro allI impI)
  fix t
  assume "I t"
  have l1: "result_iter_loop is_done set_done n (h t) = Some (fst y, h (snd y)) \<and> I (snd y)"
    if "result_iter_loop is_done set_done n t = Some y" for y
    by (rule commutes_loop(1)[OF n]) (use d s i \<open>I t\<close> that in simp_all)
  have l2: "\<exists>y. result_iter_loop is_done set_done n t = Some y" if "result_iter_loop is_done set_done n (h t) = Some z" for z
    by (rule commutes_loop(2)[OF n]) (use d s i \<open>I t\<close> that in simp_all)
  show "result_iter_next is_done set_done n (h t) =
      (fst (result_iter_next is_done set_done n t), h (snd (result_iter_next is_done set_done n t))) \<and>
      I (snd (result_iter_next is_done set_done n t))"
  proof (cases "result_iter_loop is_done set_done n t")
    case (Some y)
    with l1 show ?thesis by (simp add: result_iter_next_def)
  next
    case None
    then have "result_iter_loop is_done set_done n (h t) = None"
      using l2 by (cases "result_iter_loop is_done set_done n (h t)") auto
    with None \<open>I t\<close> show ?thesis by (simp add: result_iter_next_def)
  qed
qed

lemma commutes_nth_item [commutes_intros]:
  assumes "commutes h I nxt"
  shows "commutes h I (nth_item nxt n)"
proof (induction n)
  case 0
  with assms show ?case by (simp add: commutes_def)
next
  case (Suc n)
  show ?case
  proof (rule commutesI)
    fix t r t'
    assume t: "I t" "nth_item nxt (Suc n) t = (r, t')"
    obtain q t1 where q: "nxt t = (q, t1)" by fastforce
    note c = commutesD[OF assms t(1) q]
    show "nth_item nxt (Suc n) (h t) = (r, h t') \<and> I t'"
      using t(2) q c commutesD[OF Suc, of t1] by (auto split: outcome.splits option.splits)
  qed
qed

section \<open>Replacing the reader\<close>

text \<open>Two readers agree on the device: on all reads inside the blocks that the superblock counts.\<close>

definition same_device :: "Ext4Read \<Rightarrow> Ext4 \<Rightarrow> bool" where
  "same_device r fs \<longleftrightarrow> (\<forall>start n. unat start + n \<le> unat (sb_blocks_count (fs_superblock fs)) * block_bytes fs \<longrightarrow>
     r start n = fs_reader fs start n)"

abbreviation with_reader :: "Ext4Read \<Rightarrow> Ext4 \<Rightarrow> Ext4" where
  "with_reader r fs \<equiv> fs\<lparr>fs_reader := r\<rparr>"

definition on_device :: "(nat \<Rightarrow> u8) \<Rightarrow> Ext4Read \<Rightarrow> Ext4 \<Rightarrow> bool" where
  "on_device disk r fs \<longleftrightarrow> fs_ok disk fs \<and> same_device r fs"

abbreviation confined :: "(nat \<Rightarrow> u8) \<Rightarrow> Ext4Read \<Rightarrow> (Ext4, 'a, 'e) comp \<Rightarrow> bool" where
  "confined disk r m \<equiv> commutes (with_reader r) (on_device disk r) m"

abbreviation confined_it :: "(nat \<Rightarrow> u8) \<Rightarrow> Ext4Read \<Rightarrow> ('s \<times> Ext4, 'a, 'e) comp \<Rightarrow> bool" where
  "confined_it disk r m \<equiv> commutes (\<lambda>s. (fst s, with_reader r (snd s))) (\<lambda>s. on_device disk r (snd s)) m"

lemma on_device_good: "on_device disk r fs \<Longrightarrow> good disk fs fs' \<Longrightarrow> on_device disk r fs'"
  using same_fsD[of fs fs'] by (simp add: on_device_def good_def same_device_def)

lemma cache_access_local:
  assumes inv: "cache_inv c" and i: "i < bc_num_fs_blocks c"
    and eq: "f (read_count c i * unat (bc_block_size c)) = g (read_count c i * unat (bc_block_size c))"
  shows "BlockCache_get_or_insert_blocks i f c = BlockCache_get_or_insert_blocks i g c"
proof (cases "position (\<lambda>e. ce_block_index e = i) (bc_entries c)")
  case (Some k)
  then show ?thesis using get_or_insert_hit[OF i] by simp
next
  case None
  let ?bs = "unat (bc_block_size c)" and ?n = "read_count c i"
  obtain w where w: "BlockCache_num_blocks_to_read c i = Ok w" "unat w = ?n"
    using num_blocks_to_read_eq[OF i] by (auto simp: read_count_def)
  note b = read_count_bounds[OF inv i]
  show ?thesis
    using i None w b eq
    by (simp add: BlockCache_get_or_insert_blocks_def comp_defs assert_o_def usize_mul_def
        BlockSize_to_usize_def usize_from_u32_def slice_def get_range_def min_absorb2)
qed

lemma fetch_blocks_inside:
  assumes "same_device r fs" and "unat i + n \<le> unat (sb_blocks_count (fs_superblock fs))"
  shows "fetch_blocks err r (sb_block_size (fs_superblock fs)) i (n * block_bytes fs) =
    fetch_blocks err (fs_reader fs) (sb_block_size (fs_superblock fs)) i (n * block_bytes fs)"
proof (cases "checked_mul i (BlockSize_to_u64 (sb_block_size (fs_superblock fs)))")
  case (Some s)
  then have "unat s = unat i * block_bytes fs"
    using checked_mul_SomeD[OF Some] by (simp add: BlockSize_to_u64_def)
  moreover have "(unat i + n) * block_bytes fs \<le> unat (sb_blocks_count (fs_superblock fs)) * block_bytes fs"
    using assms(2) by (rule mult_le_mono1)
  ultimately have "r s (n * block_bytes fs) = fs_reader fs s (n * block_bytes fs)"
    using assms(1) by (simp add: same_device_def add_mult_distrib)
  with Some show ?thesis by (simp add: fetch_blocks_def read_io_def)
qed (simp add: fetch_blocks_def)

lemma confined_read [commutes_intros]: "confined disk r (read_from_block b off n)"
  unfolding commutes_def
proof (intro allI impI)
  fix fs
  assume d: "on_device disk r fs"
  then have ok: "fs_ok disk fs" and dev: "same_device r fs" by (simp_all add: on_device_def)
  have "good disk fs (snd (read_from_block b off n fs))"
    using keeps_read_from_block[of disk b off n] ok unfolding keeps_def fs_evolves_def by blast
  then have "on_device disk r (snd (read_from_block b off n fs))" by (rule on_device_good[OF d])
  moreover have "read_from_block b off n (with_reader r fs) =
      (fst (read_from_block b off n fs), with_reader r (snd (read_from_block b off n fs)))"
  proof (cases "readable fs (mapped fs b) off n")
    case True
    let ?c = "fs_block_cache fs" and ?bs = "sb_block_size (fs_superblock fs)" and ?i = "mapped fs b"
    have inv: "cache_inv ?c" and cb: "unat (bc_block_size ?c) = unat ?bs" and nb: "bc_num_fs_blocks ?c = sb_blocks_count (fs_superblock fs)"
      using ok by (auto simp: fs_ok_def cache_coherent_def)
    have i: "?i < bc_num_fs_blocks ?c" using True nb by (simp add: readable_def)
    then have le: "unat ?i + read_count ?c ?i \<le> unat (sb_blocks_count (fs_superblock fs))"
      using nb by (simp add: read_count_def word_less_nat_alt)
    have "BlockCache_get_or_insert_blocks ?i (fetch_blocks err r ?bs ?i) ?c =
        BlockCache_get_or_insert_blocks ?i (fetch_blocks err (fs_reader fs) ?bs ?i) ?c" for err
      using fetch_blocks_inside[OF dev le] by (intro cache_access_local[OF inv i]) (simp add: cb)
    then show ?thesis
      using True fs_ok_block_size[OF ok]
      by (cases "BlockCache_get_or_insert_blocks ?i (fetch_blocks (read_error fs b off n) (fs_reader fs) ?bs ?i) ?c";
          cases "fst (BlockCache_get_or_insert_blocks ?i (fetch_blocks (read_error fs b off n) (fs_reader fs) ?bs ?i) ?c)")
         (simp_all add: read_from_block_def comp_defs on_cache_def require_def readable_def Let_def usize_add_def
           usize_from_u32_def BlockSize_to_usize_def not_le not_less)
  next
    case False
    then show ?thesis
      using fs_ok_block_size[OF ok]
      by (auto simp: read_from_block_def comp_defs require_def readable_def Let_def usize_add_def
          usize_from_u32_def BlockSize_to_usize_def not_le not_less)
  qed
  ultimately show "read_from_block b off n (with_reader r fs) =
      (fst (read_from_block b off n fs), with_reader r (snd (read_from_block b off n fs))) \<and>
      on_device disk r (snd (read_from_block b off n fs))" by simp
qed

section \<open>Combinators next to the file system\<close>

lemma commutes_gets [commutes_intros]: "(\<And>t. g (h t) = g t) \<Longrightarrow> commutes h I (gets g)"
  by (simp add: commutes_def gets_def)

lemma confined_pair [commutes_intros]:
  "confined_it disk r (modify_fst f)" "confined_it disk r (gets_fst g)"
  by (simp_all add: commutes_def modify_fst_def gets_fst_def)

lemma confined_on_snd [commutes_intros]: "confined disk r m \<Longrightarrow> confined_it disk r (on_snd m)"
  by (rule commutesI) (auto simp: on_snd_def split: prod.splits dest: commutesD)

lemma confined_on_field [commutes_intros]: "confined_it disk r m \<Longrightarrow> confined_it disk r (on_field get put m)"
proof (rule commutesI)
  fix s q s'
  assume m: "confined_it disk r m" and "on_device disk r (snd s)" and run: "on_field get put m s = (q, s')"
  obtain q1 s1 where "m (get (fst s), snd s) = (q1, s1)" by (metis surj_pair)
  with commutesD[OF m, of "(get (fst s), snd s)"] run \<open>on_device disk r (snd s)\<close>
  show "on_field get put m (fst s, with_reader r (snd s)) = (q, fst s', with_reader r (snd s')) \<and> on_device disk r (snd s')"
    by (auto simp: on_field_def split: prod.splits)
qed

lemma confined_with_iter [commutes_intros]: "confined_it disk r m \<Longrightarrow> confined disk r (with_iter it m)"
proof (rule commutesI)
  fix fs q fs'
  assume m: "confined_it disk r m" and "on_device disk r fs" and run: "with_iter it m fs = (q, fs')"
  obtain q1 s1 where "m (it, fs) = (q1, s1)" by (metis surj_pair)
  with commutesD[OF m, of "(it, fs)"] run \<open>on_device disk r fs\<close>
  show "with_iter it m (with_reader r fs) = (q, with_reader r fs') \<and> on_device disk r fs'"
    by (auto simp: with_iter_def split: prod.splits)
qed

lemma confined_iter [commutes_intros]:
  "confined_it disk r n \<Longrightarrow> confined_it disk r (result_iter_next (\<lambda>s. d (fst s)) (\<lambda>s. (sd (fst s), snd s)) n)"
  by (rule commutes_iter) simp_all

lemma confined_for_each [commutes_intros]: "confined_it disk r nxt \<Longrightarrow> confined_it disk r (for_each nxt body)"
  unfolding for_each_def for_round_def by (intro commutes_intros commutes_iter) simp_all

lemma confined_on_some [commutes_intros]: "confined_it disk r m \<Longrightarrow> confined_it disk r (on_some get put m)"
  unfolding on_some_def by (rule confined_on_field)

lemma confined_outcomes [commutes_intros]:
  "commutes h I m \<Longrightarrow> commutes h I (ignore_result m)" "commutes h I m' \<Longrightarrow> commutes h I (with_io_error m')"
  by (rule commutesI, auto simp: ignore_result_def with_io_error_def split: prod.splits outcome.splits dest: commutesD)+

section \<open>The operations\<close>

lemma with_reader_functions [simp]:
  "get_inode_location (with_reader r fs) i = get_inode_location fs i"
  "Inode_from_bytes (with_reader r fs) i data = Inode_from_bytes fs i data"
  "has_metadata_checksums (with_reader r fs) = has_metadata_checksums fs"
  "ReadDir_new (with_reader r fs) inode path = ReadDir_new fs inode path"
  by (simp_all add: get_inode_location_def Inode_from_bytes_def has_metadata_checksums_def ReadDir_new_def)

lemma confined_Inode_read [commutes_intros]: "confined disk r (Inode_read i)"
  unfolding Inode_read_def by (rule commutes_bind_gets, simp add: Let_def cong: if_cong) (intro commutes_intros)

lemma confined_read_root_inode [commutes_intros]: "confined disk r read_root_inode"
  unfolding read_root_inode_def by (intro commutes_intros)

lemma confined_load_child [commutes_intros]: "confined disk r (load_child inode base entry)"
  unfolding load_child_def by (intro commutes_intros) simp_all

lemma confined_Extents_next [commutes_intros]: "confined_it disk r Extents_next"
  unfolding Extents_next_def Extents_next_impl_def by (intro commutes_intros)

lemma confined_ExtentsBlocks_next [commutes_intros]: "confined_it disk r ExtentsBlocks_next"
  unfolding ExtentsBlocks_next_def ExtentsBlocks_next_impl_def fetch_extent_def by (intro commutes_intros)

lemma confined_indirect [commutes_intros]:
  "confined disk r (IndirectBlockIter_new b)" "confined disk r (DoubleIndirectBlockIter_new b)"
  "confined disk r (TripleIndirectBlockIter_new b)"
  unfolding IndirectBlockIter_new_def DoubleIndirectBlockIter_new_def TripleIndirectBlockIter_new_def
  by (intro commutes_intros; simp)+

lemma confined_IndirectBlockIter_next [commutes_intros]: "confined_it disk r IndirectBlockIter_next"
  unfolding IndirectBlockIter_next_def by (intro commutes_intros)

lemma confined_DoubleIndirect_next [commutes_intros]: "confined_it disk r DoubleIndirectBlockIter_next"
  unfolding DoubleIndirectBlockIter_next_def DoubleIndirectBlockIter_next_impl_def by (intro commutes_intros)

lemma confined_TripleIndirect_next [commutes_intros]: "confined_it disk r TripleIndirectBlockIter_next"
  unfolding TripleIndirectBlockIter_next_def TripleIndirectBlockIter_next_impl_def by (intro commutes_intros)

lemma confined_BlockMap_next [commutes_intros]: "confined_it disk r BlockMap_next"
  unfolding BlockMap_next_def BlockMap_next_impl_def BlockMap_increment_num_blocks_yielded_def by (intro commutes_intros)

lemma confined_FileBlocks_next [commutes_intros]: "confined_it disk r FileBlocks_next"
proof (rule commutesI)
  fix s :: "FileBlocks \<times> Ext4" and q s'
  assume d: "on_device disk r (snd s)" and run: "FileBlocks_next s = (q, s')"
  obtain fb fs where s: "s = (fb, fs)" by fastforce
  have d': "on_device disk r fs" using d s by simp
  show "FileBlocks_next (fst s, with_reader r (snd s)) = (q, fst s', with_reader r (snd s')) \<and> on_device disk r (snd s')"
  proof (cases fb)
    case (FB_ExtentsBlocks it)
    obtain q1 it1 fs1 where n: "ExtentsBlocks_next (it, fs) = (q1, (it1, fs1))" by (metis surj_pair)
    with commutesD[OF confined_ExtentsBlocks_next, of disk r "(it, fs)"] d' run s FB_ExtentsBlocks show ?thesis
      by (auto simp: FileBlocks_next_def)
  next
    case (FB_BlockMap it)
    obtain q1 it1 fs1 where n: "BlockMap_next (it, fs) = (q1, (it1, fs1))" by (metis surj_pair)
    with commutesD[OF confined_BlockMap_next, of disk r "(it, fs)"] d' run s FB_BlockMap show ?thesis
      by (auto simp: FileBlocks_next_def)
  qed
qed

lemma confined_File_next_block [commutes_intros]: "confined_it disk r File_next_block"
  unfolding File_next_block_def by (intro commutes_intros)

lemma confined_read_bytes [commutes_intros]: "confined_it disk r (read_bytes n)"
  unfolding read_bytes_def current_block_def by (intro commutes_intros) simp_all

lemma confined_skip_blocks [commutes_intros]: "confined_it disk r (skip_blocks n)"
proof (induction n)
  case (Suc n)
  show ?case unfolding skip_blocks.simps by (intro commutes_intros Suc)
qed (unfold skip_blocks.simps, intro commutes_intros)

lemma confined_File [commutes_intros]:
  "confined_it disk r (seek_to p)" "confined_it disk r (File_read n)" "confined_it disk r (File_seek pos)"
  unfolding File_read_def File_seek_def seek_to_def by (intro commutes_intros; simp)+

lemma confined_read_chunks [commutes_intros]: "confined_it disk r (read_chunks n)"
proof (induction n rule: less_induct)
  case (less n)
  have "confined_it disk r (read_chunks (n - length buf))" if "buf \<noteq> []" "length buf \<le> n" for buf :: bytes
    using less chunk_shrinks[OF that] by blast
  then show ?case by (subst read_chunks_eq) (intro commutes_intros)
qed

lemma confined_read_inode_file [commutes_intros]: "confined disk r (read_inode_file inode)"
  unfolding read_inode_file_eq by (intro commutes_intros)

lemma confined_DirBlock_read [commutes_intros]: "confined disk r (DirBlock_read db n)"
  unfolding DirBlock_read_def by (intro commutes_intros) simp_all

lemma confined_ReadDir_next [commutes_intros]: "confined_it disk r ReadDir_next"
  unfolding ReadDir_next_def ReadDir_next_impl_def ReadDir_block_index_def by (intro commutes_intros) simp_all

lemma confined_block_from_file_block [commutes_intros]: "confined disk r (block_from_file_block inode k)"
  unfolding block_from_file_block_def find_extent_for_block_def by (intro commutes_intros)

lemma confined_descend [commutes_intros]: "confined disk r (descend inode h n levels k)"
proof (induction levels arbitrary: k)
  case 0
  show ?case unfolding descend.simps by (intro commutes_intros)
next
  case (Suc levels)
  show ?case unfolding descend.simps by (intro commutes_intros Suc)
qed

lemma confined_via_htree [commutes_intros]: "confined disk r (get_dir_entry_via_htree inode name)"
  unfolding get_dir_entry_via_htree_def read_root_block_def find_leaf_node_def by (intro commutes_intros) simp_all

lemma confined_dir_lookup [commutes_intros]: "confined disk r (get_dir_entry_inode_by_name inode name)"
  unfolding get_dir_entry_inode_by_name_def by (intro commutes_intros) simp_all

lemma confined_symlink_target [commutes_intros]: "confined disk r (symlink_target inode)"
  unfolding symlink_target_def by (intro commutes_intros)

lemma confined_resolve_component [commutes_intros]: "confined disk r (resolve_component follow s)"
  unfolding resolve_component_def resolve_child_def by (intro commutes_intros)

lemma confined_resolve_loop [commutes_intros]: "confined disk r (resolve_loop follow n s)"
proof (induction "MAX_ITERATIONS - n" arbitrary: n s rule: less_induct)
  case less
  show ?case
  proof (cases "n + 1 \<le> MAX_ITERATIONS")
    case True
    then have "confined disk r (resolve_loop follow (n + 1) s)" for s by (intro less) linarith
    then show ?thesis unfolding resolve_loop.simps[of follow n s] by (intro commutes_intros)
  next
    case False
    then show ?thesis unfolding resolve_loop.simps[of follow n s] by (simp add: commutes_intros)
  qed
qed

lemma confined_resolve_path [commutes_intros]: "confined disk r (resolve_path path follow)"
  unfolding resolve_path_def by (intro commutes_intros)

end
