(* ===== verification/Session.thy ===== *)
theory Session
  imports Device_Bounds
begin

text \<open>
  A client of a loaded file system: it makes requests one after the other, on paths and on files and
  directory iterators that it holds open, in any order. All of them share one block cache (the
  \<open>Rc\<close> and \<open>RefCell\<close> in \<open>Ext4\<close>). Two things are shown of every such session: the answers are those of a
  file system that is a constant, the cache and the interleaving of the requests being invisible; and they do
  not depend on anything outside the device.
\<close>

section \<open>Requests and answers\<close>

record Client =
  cl_files :: "File list"
  cl_dirs :: "ReadDir list"

datatype Request =
    Canonicalize bytes
  | Open bytes
  | ReadAll bytes
  | ReadToString bytes
  | ReadLink bytes
  | OpenDir bytes
  | Exists bytes
  | GetMetadata bytes
  | GetSymlinkMetadata bytes
  | FileRead nat usize
  | FileSeek nat SeekFrom
  | NextEntry nat
  | EntryMetadata DirEntry

datatype Answer =
    A_path "PathBuf result"
  | A_bytes "bytes result"
  | A_bool "bool result"
  | A_metadata "Metadata result"
  | A_opened "unit result"
  | A_read "(bytes, ErrorKind) outcome"
  | A_position "(u64, ErrorKind) outcome"
  | A_entry "DirEntry option result"
  | A_no_handle

definition answer :: "(('a, 'e) outcome \<Rightarrow> Answer) \<Rightarrow> ('s, 'a, 'e) comp \<Rightarrow> 's \<Rightarrow> Answer \<times> 's" where
  "answer wrap m s = (case m s of (r, s') \<Rightarrow> (wrap r, s'))"

definition on_file :: "nat \<Rightarrow> (File \<times> Ext4, 'a, 'e) comp \<Rightarrow> (Client \<times> Ext4, 'a, 'e) comp" where
  "on_file i m = on_field (\<lambda>c. cl_files c ! i) (\<lambda>f c. c\<lparr>cl_files := (cl_files c)[i := f]\<rparr>) m"

definition on_dir :: "nat \<Rightarrow> (ReadDir \<times> Ext4, 'a, 'e) comp \<Rightarrow> (Client \<times> Ext4, 'a, 'e) comp" where
  "on_dir i m = on_field (\<lambda>c. cl_dirs c ! i) (\<lambda>d c. c\<lparr>cl_dirs := (cl_dirs c)[i := d]\<rparr>) m"

definition perform :: "Request \<Rightarrow> Client \<times> Ext4 \<Rightarrow> Answer \<times> (Client \<times> Ext4)" where
  "perform q s = (case q of
     Canonicalize p \<Rightarrow> answer A_path (on_snd (Ext4_canonicalize p)) s
   | Open p \<Rightarrow> answer A_opened (bindc (on_snd (Ext4_open p)) (\<lambda>f. modify_fst (\<lambda>c. c\<lparr>cl_files := cl_files c @ [f]\<rparr>))) s
   | ReadAll p \<Rightarrow> answer A_bytes (on_snd (Ext4_read p)) s
   | ReadToString p \<Rightarrow> answer A_bytes (on_snd (Ext4_read_to_string p)) s
   | ReadLink p \<Rightarrow> answer A_path (on_snd (Ext4_read_link p)) s
   | OpenDir p \<Rightarrow> answer A_opened (bindc (on_snd (Ext4_read_dir p)) (\<lambda>d. modify_fst (\<lambda>c. c\<lparr>cl_dirs := cl_dirs c @ [d]\<rparr>))) s
   | Exists p \<Rightarrow> answer A_bool (on_snd (Ext4_exists p)) s
   | GetMetadata p \<Rightarrow> answer A_metadata (on_snd (Ext4_metadata p)) s
   | GetSymlinkMetadata p \<Rightarrow> answer A_metadata (on_snd (Ext4_symlink_metadata p)) s
   | FileRead i n \<Rightarrow> if i < length (cl_files (fst s)) then answer A_read (on_file i (File_read n)) s else (A_no_handle, s)
   | FileSeek i pos \<Rightarrow> if i < length (cl_files (fst s)) then answer A_position (on_file i (File_seek pos)) s else (A_no_handle, s)
   | NextEntry i \<Rightarrow> if i < length (cl_dirs (fst s)) then answer A_entry (on_dir i ReadDir_next) s else (A_no_handle, s)
   | EntryMetadata e \<Rightarrow> answer A_metadata (on_snd (DirEntry_metadata e)) s)"

text \<open>A session on one file system, whose state every request finds as the one before it left it.\<close>

fun session :: "Request list \<Rightarrow> Client \<times> Ext4 \<Rightarrow> Answer list" where
  "session [] s = []"
| "session (q # qs) s = (case perform q s of (a, s') \<Rightarrow> a # session qs s')"

text \<open>The same requests on a file system that is a constant: every request finds the state \<open>fs\<close>, and only the
  open files and directory iterators move on.\<close>

fun constant_session :: "Ext4 \<Rightarrow> Request list \<Rightarrow> Client \<Rightarrow> Answer list" where
  "constant_session fs [] c = []"
| "constant_session fs (q # qs) c = (case perform q (c, fs) of (a, (c', _)) \<Rightarrow> a # constant_session fs qs c')"

section \<open>The cache is invisible\<close>

lemma blind_stable [blind_intros]:
  "stable disk fs0 m \<Longrightarrow> blind disk fs0 (on_snd m :: ('s \<times> Ext4, 'a, Ext4Error) comp)"
  unfolding stable_def by (metis blind_on_snd)

lemma stable_resolve_component [stable_intros]: "fs_tame fs0 \<Longrightarrow> stable disk fs0 (resolve_component follow s)"
  unfolding resolve_component_def resolve_child_def by (intro stable_intros)

lemma stable_resolve_loop [stable_intros]: "fs_tame fs0 \<Longrightarrow> stable disk fs0 (resolve_loop follow n s)"
proof (induction "MAX_ITERATIONS - n" arbitrary: n s rule: less_induct)
  case less
  show ?case
  proof (cases "n + 1 \<le> MAX_ITERATIONS")
    case True
    then have "stable disk fs0 (resolve_loop follow (n + 1) s)" for s using less by simp
    then show ?thesis unfolding resolve_loop.simps[of follow n s] by (intro stable_intros less.prems)
  next
    case False
    then show ?thesis unfolding resolve_loop.simps[of follow n s] by (simp add: stable_intros)
  qed
qed

lemma stable_resolve_path [stable_intros]: "fs_tame fs0 \<Longrightarrow> stable disk fs0 (resolve_path path follow)"
  unfolding resolve_path_def by (intro stable_intros)

lemma stable_exists:
  assumes "fs_tame fs0"
  shows "stable disk fs0 (Ext4_exists p)"
proof -
  have "stable disk fs0 (\<lambda>fs. case path_to_inode path All fs of
       (Ok _, fs) \<Rightarrow> (Ok True, fs)
     | (Err err, fs) \<Rightarrow> (if err = NotFound then Ok False else Err err, fs)
     | (Panic, fs) \<Rightarrow> (Panic, fs)
     | (Diverge, fs) \<Rightarrow> (Diverge, fs))" for path
  proof -
    have "stable disk fs0 (path_to_inode path All)" unfolding path_to_inode_def by (intro stable_intros assms)
    then obtain r where r: "\<And>fs. good disk fs0 fs \<Longrightarrow> \<exists>fs'. path_to_inode path All fs = (r, fs') \<and> good disk fs0 fs'"
      unfolding stable_def by (metis computesD)
    show ?thesis
      by (rule stableI[where r = "case r of Ok _ \<Rightarrow> Ok True | Err err \<Rightarrow> if err = NotFound then Ok False else Err err
          | Panic \<Rightarrow> Panic | Diverge \<Rightarrow> Diverge"])
         (drule r, auto simp: computes_def split: outcome.split)
  qed
  then show ?thesis unfolding Ext4_exists_def by (intro stable_intros)
qed

lemma stable_api [stable_intros]:
  assumes "fs_tame fs0"
  shows "stable disk fs0 (Ext4_canonicalize p)" "stable disk fs0 (Ext4_open p)" "stable disk fs0 (Ext4_read p)"
    "stable disk fs0 (Ext4_read_to_string p)" "stable disk fs0 (Ext4_read_link p)" "stable disk fs0 (Ext4_metadata p)"
    "stable disk fs0 (Ext4_symlink_metadata p)" "stable disk fs0 (DirEntry_metadata e)"
  unfolding Ext4_canonicalize_def Ext4_open_def File_open_def Ext4_read_def Ext4_read_inner_def Ext4_read_to_string_def
    Ext4_read_link_def Ext4_metadata_def Ext4_symlink_metadata_def DirEntry_metadata_def path_to_inode_def
  by (intro stable_intros assms)+

lemma stable_read_dir [stable_intros]:
  assumes "fs_tame fs0"
  shows "stable disk fs0 (Ext4_read_dir p)"
proof -
  have "(\<lambda>fs. bindc (gets (\<lambda>fs. fs)) (\<lambda>fs. lift (ReadDir_new fs inode path)) fs) =
      (\<lambda>fs. bindc (gets (\<lambda>fs. ReadDir_new fs inode path)) lift fs)" for inode path
    by (simp add: bindc_def gets_def)
  then have e: "bindc (gets (\<lambda>fs. fs)) (\<lambda>fs. lift (ReadDir_new fs inode path)) = bindc (gets (\<lambda>fs. ReadDir_new fs inode path)) lift"
    for inode path by simp
  show ?thesis
    unfolding Ext4_read_dir_def path_to_inode_def e
    by (intro stable_intros assms) (simp add: good_sel ReadDir_new_def)
qed

lemma blind_ignore_result [blind_intros]:
  assumes "blind disk fs0 m"
  shows "blind disk fs0 (ignore_result m)"
  unfolding blind_def
proof
  fix it
  obtain r it' where "\<And>fs. good disk fs0 fs \<Longrightarrow> \<exists>fs'. m (it, fs) = (r, (it', fs')) \<and> good disk fs0 fs'"
    using blindE[OF assms, of it] by blast
  then show "\<exists>r it'. \<forall>fs. good disk fs0 fs \<longrightarrow> (\<exists>fs'. ignore_result m (it, fs) = (r, it', fs') \<and> good disk fs0 fs')"
    by (cases r) (fastforce simp: ignore_result_def)+
qed

lemma blind_with_io_error [blind_intros]:
  assumes "blind disk fs0 m"
  shows "blind disk fs0 (with_io_error m)"
  unfolding blind_def
proof
  fix it
  obtain r it' where "\<And>fs. good disk fs0 fs \<Longrightarrow> \<exists>fs'. m (it, fs) = (r, (it', fs')) \<and> good disk fs0 fs'"
    using blindE[OF assms, of it] by blast
  then show "\<exists>r it'. \<forall>fs. good disk fs0 fs \<longrightarrow> (\<exists>fs'. with_io_error m (it, fs) = (r, it', fs') \<and> good disk fs0 fs')"
    by (fastforce simp: with_io_error_def)
qed

lemma blind_skip_blocks [blind_intros]: "fs_tame fs0 \<Longrightarrow> blind disk fs0 (skip_blocks n)"
  by (induction n) (auto simp: File_next_block_def intro!: blind_intros)

lemma blind_file [blind_intros]:
  assumes "fs_tame fs0"
  shows "blind disk fs0 (File_read n)" "blind disk fs0 (seek_to p)" "blind disk fs0 (File_seek pos)"
  unfolding File_read_def File_seek_def seek_to_def by (intro blind_intros assms)+

lemma blind_handles [blind_intros]:
  "blind disk fs0 m \<Longrightarrow> blind disk fs0 (on_file i m)" "blind disk fs0 m' \<Longrightarrow> blind disk fs0 (on_dir i m')"
  unfolding on_file_def on_dir_def by (intro blind_intros; assumption)+

lemma blind_answer:
  assumes "blind disk fs0 m" and "good disk fs0 fs" and "good disk fs0 fs'"
    and "answer w m (c, fs) = (a, (c1, fs1))"
  shows "\<exists>fs1'. answer w m (c, fs') = (a, (c1, fs1')) \<and> good disk fs0 fs1 \<and> good disk fs0 fs1'"
proof -
  obtain r it where "\<And>fs. good disk fs0 fs \<Longrightarrow> \<exists>fs'. m (c, fs) = (r, (it, fs')) \<and> good disk fs0 fs'"
    using blindE[OF assms(1), of c] by blast
  from this[OF assms(2)] this[OF assms(3)] assms(4) show ?thesis by (auto simp: answer_def)
qed

lemma perform_blind:
  assumes "fs_tame fs0" and g: "good disk fs0 fs" "good disk fs0 fs'" and "perform q (c, fs) = (a, (c1, fs1))"
  shows "\<exists>fs1'. perform q (c, fs') = (a, (c1, fs1')) \<and> good disk fs0 fs1 \<and> good disk fs0 fs1'"
proof -
  note b = blind_answer[OF _ g] and i = blind_intros stable_intros stable_exists assms(1) tame_blind(3)[OF assms(1)]
  show ?thesis
    using assms(4) g
    by (cases q) (auto simp: perform_def split: if_splits intro!: b i)
qed

lemma session_constant:
  assumes "fs_tame fs0" and "fs_ok disk fs0"
  shows "good disk fs0 fs \<Longrightarrow> session qs (c, fs) = constant_session fs0 qs c"
proof (induction qs arbitrary: c fs)
  case (Cons q qs)
  obtain a c1 fs1 where p: "perform q (c, fs) = (a, (c1, fs1))" by (metis surj_pair)
  from perform_blind[OF assms(1) Cons.prems good_refl[OF assms(2)] p] obtain fs1' where
    "perform q (c, fs0) = (a, (c1, fs1'))" "good disk fs0 fs1" by blast
  with p Cons.IH[of fs1 c1] show ?case by simp
qed simp

section \<open>The device is not left\<close>

lemma confined_api [commutes_intros]:
  "confined disk r (Ext4_canonicalize p)" "confined disk r (Ext4_open p)" "confined disk r (Ext4_read p)"
  "confined disk r (Ext4_read_to_string p)" "confined disk r (Ext4_read_link p)" "confined disk r (Ext4_metadata p)"
  "confined disk r (Ext4_symlink_metadata p)" "confined disk r (DirEntry_metadata e)"
  unfolding Ext4_canonicalize_def Ext4_open_def File_open_def Ext4_read_def Ext4_read_inner_def Ext4_read_to_string_def
    Ext4_read_link_def Ext4_metadata_def Ext4_symlink_metadata_def DirEntry_metadata_def path_to_inode_def
  by (intro commutes_intros)+

lemma confined_read_dir [commutes_intros]: "confined disk r (Ext4_read_dir p)"
  unfolding Ext4_read_dir_def path_to_inode_def by (intro commutes_intros commutes_bind_gets) simp_all

lemma confined_exists [commutes_intros]: "confined disk r (Ext4_exists p)"
proof -
  have "confined disk r (\<lambda>fs. case path_to_inode path All fs of
       (Ok _, fs) \<Rightarrow> (Ok True, fs)
     | (Err err, fs) \<Rightarrow> (if err = NotFound then Ok False else Err err, fs)
     | (Panic, fs) \<Rightarrow> (Panic, fs)
     | (Diverge, fs) \<Rightarrow> (Diverge, fs))" for path
  proof (rule commutesI)
    fix fs q fs'
    have c: "confined disk r (path_to_inode path All)" unfolding path_to_inode_def by (intro commutes_intros)
    obtain q1 fs1 where p: "path_to_inode path All fs = (q1, fs1)" by (metis surj_pair)
    assume "on_device disk r fs" and "(case path_to_inode path All fs of
       (Ok _, fs) \<Rightarrow> (Ok True, fs)
     | (Err err, fs) \<Rightarrow> (if err = NotFound then Ok False else Err err, fs)
     | (Panic, fs) \<Rightarrow> (Panic, fs)
     | (Diverge, fs) \<Rightarrow> (Diverge, fs)) = (q, fs')"
    with p commutesD[OF c _ p] show "(case path_to_inode path All (with_reader r fs) of
       (Ok _, fs) \<Rightarrow> (Ok True, fs)
     | (Err err, fs) \<Rightarrow> (if err = NotFound then Ok False else Err err, fs)
     | (Panic, fs) \<Rightarrow> (Panic, fs)
     | (Diverge, fs) \<Rightarrow> (Diverge, fs)) = (q, with_reader r fs') \<and> on_device disk r fs'"
      by (cases q1) auto
  qed
  then show ?thesis unfolding Ext4_exists_def by (intro commutes_intros)
qed

lemma confined_handles [commutes_intros]:
  "confined_it disk r m \<Longrightarrow> confined_it disk r (on_file i m)" "confined_it disk r m' \<Longrightarrow> confined_it disk r (on_dir i m')"
  unfolding on_file_def on_dir_def by (intro commutes_intros; assumption)+

lemma confined_answer:
  assumes "confined_it disk r m" and "on_device disk r fs" and "answer w m (c, fs) = (a, (c1, fs1))"
  shows "answer w m (c, with_reader r fs) = (a, (c1, with_reader r fs1)) \<and> on_device disk r fs1"
proof -
  obtain q s where q: "m (c, fs) = (q, s)" by (metis surj_pair)
  from commutesD[OF assms(1) _ q] assms(2,3) q show ?thesis by (auto simp: answer_def)
qed

lemma perform_confined:
  assumes "on_device disk r fs" and "perform q (c, fs) = (a, (c1, fs1))"
  shows "perform q (c, with_reader r fs) = (a, (c1, with_reader r fs1)) \<and> on_device disk r fs1"
proof -
  note b = confined_answer[OF _ assms(1)]
  show ?thesis
    using assms by (cases q) (auto simp: perform_def split: if_splits dest!: b[rotated] intro!: commutes_intros)
qed

lemma session_confined: "on_device disk r fs \<Longrightarrow> session qs (c, with_reader r fs) = session qs (c, fs)"
proof (induction qs arbitrary: c fs)
  case (Cons q qs)
  obtain a c1 fs1 where p: "perform q (c, fs) = (a, (c1, fs1))" by (metis surj_pair)
  from perform_confined[OF Cons.prems p] p Cons.IH[of fs1 c1] show ?case by simp
qed simp

section \<open>Properties\<close>

text \<open>C7: The block cache and the interleaving of requests are invisible, on a file system without surprises
  (\<open>fs_tame\<close>: every block can be read, no inode is in the part of block 0 whose cached content may be stale, and
  the journal maps no other block to block 0). In any session of operations on paths, reads and seeks on open
  files, steps of directory iterators and lookups of entries, in any order, every answer (success, error, panic
  or divergence) is the one that a file system would give that never changes: no request affects another one
  except through its own handle.\<close>

theorem session_cache_invisible:
  assumes "fs_ok disk fs" and "fs_tame fs"
  shows "session qs (c, fs) = constant_session fs qs c"
  by (rule session_constant[OF assms(2,1) good_refl[OF assms(1)]])

text \<open>C8: No operation looks outside the device: if two readers agree on all reads inside the blocks that the
  superblock counts, then every session gives the same answers over both, whatever else they would
  return, and whatever the image holds.\<close>

theorem session_stays_on_device:
  assumes "fs_ok disk fs" and "same_device r fs"
  shows "session qs (c, with_reader r fs) = session qs (c, fs)"
  by (rule session_confined) (use assms in \<open>simp add: on_device_def\<close>)

definition sample_requests :: "Request list" where
  "sample_requests = [Open [0x2f, 0x66], FileRead 0 2, ReadAll [0x2f, 0x66], OpenDir [0x2f], NextEntry 0, FileRead 0 10,
     FileSeek 0 (Start 1), NextEntry 0, FileRead 0 1, GetMetadata [0x2f, 0x78]]"

theorem session_cache_invisible_witness:
  "session sample_requests (\<lparr>cl_files = [], cl_dirs = []\<rparr>, sample_fs file_image) =
     constant_session (sample_fs file_image) sample_requests \<lparr>cl_files = [], cl_dirs = []\<rparr>"
  by (rule session_cache_invisible[OF sample_fs_ok sample_fs_tame[OF file_image_parts(6)]])

theorem session_stays_on_device_witness:
  "session sample_requests (\<lparr>cl_files = [], cl_dirs = []\<rparr>,
       with_reader (\<lambda>start n. if unat start + n \<le> 16384 then Vec_read file_image start n else Inl (BoxedOther ''outside''))
         (sample_fs file_image)) =
     session sample_requests (\<lparr>cl_files = [], cl_dirs = []\<rparr>, sample_fs file_image)"
  by (rule session_stays_on_device[OF sample_fs_ok]) (simp add: same_device_def sample_superblock_def)

end
