(* ===== verification/Format.thy ===== *)
theory Format
  imports Utf8 File_Read Read_Dir
begin

text \<open>
  Textual forms (\<^verbatim>\<open>src/src/format.rs\<close> and the \<open>Display\<close> and \<open>Debug\<close> of names, paths, labels, UUIDs, files,
  directories and errors). A text is a list of characters of 8 bits, the UTF-8 bytes that are written
  to the formatter. The tables of the standard library that say which characters from \<open>U+007F\<close> on are
  printable and which are grapheme extenders, and the textual form of a set of feature flags
  (\<open>bitflags\<close>), are parameters.
\<close>

section \<open>Numbers\<close>

text \<open>\<open>{}\<close> and \<open>{:x}\<close> of an unsigned integer: its digits in base 10 or 16, without leading zeros.\<close>

definition digit :: "nat \<Rightarrow> char" where
  "digit n = ''0123456789abcdef'' ! n"

function digits :: "nat \<Rightarrow> nat \<Rightarrow> string" where
  "digits base n = (if n < base \<or> base < 2 then [digit n] else digits base (n div base) @ [digit (n mod base)])"
  by pat_completeness auto
termination
  by (relation "measure snd") auto

declare digits.simps [simp del]

definition dec :: "nat \<Rightarrow> string" where
  "dec n = digits 10 n"

definition hex :: "nat \<Rightarrow> string" where
  "hex n = digits 16 n"

text \<open>\<open>{:04x}\<close>\<close>

definition hex_padded :: "nat \<Rightarrow> nat \<Rightarrow> string" where
  "hex_padded width n = replicate (width - length (hex n)) (CHR ''0'') @ hex n"

text \<open>\<open>{:o}\<close>\<close>

definition oct :: "nat \<Rightarrow> string" where
  "oct n = digits 8 n"

text \<open>Reading digits back.\<close>

definition digit_value :: "char \<Rightarrow> nat" where
  "digit_value c = (if of_char c < (0x61 :: nat) then of_char c - 0x30 else of_char c - 0x57)"

definition from_digits :: "nat \<Rightarrow> string \<Rightarrow> nat" where
  "from_digits base s = foldl (\<lambda>n c. n * base + digit_value c) 0 s"

lemma all_digits: "(n :: nat) < 16 \<Longrightarrow> n \<in> {0, 1, 2, 3, 4, 5, 6, 7, 8, 9, 10, 11, 12, 13, 14, 15}"
  by simp arith

lemma digit_value_digit: "n < 16 \<Longrightarrow> digit_value (digit n) = n"
  by (drule all_digits) (auto simp: digit_def digit_value_def)

lemma digit_in:
  "n < 16 \<Longrightarrow> digit n \<in> set ''0123456789abcdef''" "n < 10 \<Longrightarrow> digit n \<in> set ''0123456789''"
proof -
  show "n < 16 \<Longrightarrow> digit n \<in> set ''0123456789abcdef''" by (simp only: digit_def) (rule nth_mem, simp)
  assume n: "n < 10"
  then have "n < 16" by simp
  from all_digits[OF this] n show "digit n \<in> set ''0123456789''" by (auto simp: digit_def)
qed

lemma from_digits_digits: "2 \<le> base \<Longrightarrow> base \<le> 16 \<Longrightarrow> from_digits base (digits base n) = n"
proof (induction base n rule: digits.induct)
  case (1 base n)
  show ?case
  proof (cases "n < base")
    case True
    with 1 show ?thesis by (simp add: digits.simps from_digits_def digit_value_digit)
  next
    case False
    then have "from_digits base (digits base (n div base)) = n div base" using 1 by simp
    moreover have "digit_value (digit (n mod base)) = n mod base"
      by (rule digit_value_digit) (use 1 mod_less_divisor[of base n] in linarith)
    ultimately show ?thesis using False 1 by (subst digits.simps) (simp add: from_digits_def)
  qed
qed

lemma digits_eq: "2 \<le> base \<Longrightarrow> base \<le> 16 \<Longrightarrow> digits base m = digits base n \<longleftrightarrow> m = n"
  by (metis from_digits_digits)

lemma digits_set: "2 \<le> base \<Longrightarrow> set (digits base n) \<subseteq> digit ` {..<base}"
proof (induction base n rule: digits.induct)
  case (1 base n)
  then have "n mod base \<in> {..<base}" by simp
  with 1 show ?case by (subst digits.simps) auto
qed

lemma digits_chars:
  "set (digits 16 n) \<subseteq> set ''0123456789abcdef''" "set (digits 10 n) \<subseteq> set ''0123456789''" "set (digits 8 n) \<subseteq> set ''0123456789''"
  using digits_set[of 16 n] digits_set[of 10 n] digits_set[of 8 n] digit_in
  by (auto simp del: set_simps dest!: subsetD)

section \<open>Bytes\<close>

definition text_of :: "bytes \<Rightarrow> string" where
  "text_of bs = map (\<lambda>b. char_of (unat b)) bs"

definition byte_of :: "char \<Rightarrow> u8" where
  "byte_of c = of_nat (of_char c)"

text \<open>\<open>slice::escape_ascii\<close>: \<open>ascii::escape_default\<close> of every byte.\<close>

definition backslash :: char where
  "backslash = CHR 0x5c"

definition escape_default :: "u8 \<Rightarrow> string" where
  "escape_default b =
     (if b = 9 then [backslash, CHR ''t'']
      else if b = 13 then [backslash, CHR ''r'']
      else if b = 10 then [backslash, CHR ''n'']
      else if b = 0x27 \<or> b = 0x22 \<or> b = 0x5c then [backslash, char_of (unat b)]
      else if 0x20 \<le> b \<and> b \<le> 0x7e then [char_of (unat b)]
      else [backslash, CHR ''x''] @ hex_byte b)"

definition escape_ascii :: "bytes \<Rightarrow> string" where
  "escape_ascii bs = concat (map escape_default bs)"

text \<open>\<open>str::escape_debug\<close>, with the tables of the standard library as a parameter: a grapheme extender is
  escaped only at the start of the string.\<close>

record UnicodeTables =
  ut_grapheme_extend :: "nat \<Rightarrow> bool"
  ut_printable :: "nat \<Rightarrow> bool"

definition is_grapheme_extended :: "UnicodeTables \<Rightarrow> nat \<Rightarrow> bool" where
  "is_grapheme_extended u n \<longleftrightarrow> 0x2ff < n \<and> ut_grapheme_extend u n"

definition is_printable :: "UnicodeTables \<Rightarrow> nat \<Rightarrow> bool" where
  "is_printable u n \<longleftrightarrow> 32 \<le> n \<and> (n < 127 \<or> ut_printable u n)"

definition escape_unicode :: "nat \<Rightarrow> string" where
  "escape_unicode n = [backslash, CHR ''u'', CHR 0x7b] @ hex n @ [CHR 0x7d]"

definition escape_debug_ext :: "UnicodeTables \<Rightarrow> bool \<Rightarrow> bytes \<Rightarrow> string" where
  "escape_debug_ext u escape_grapheme_extended c =
     (let n = code_point c in
      if n = 0 then [backslash, CHR ''0'']
      else if n = 9 then [backslash, CHR ''t'']
      else if n = 13 then [backslash, CHR ''r'']
      else if n = 10 then [backslash, CHR ''n'']
      else if n = 0x5c \<or> n = 0x22 \<or> n = 0x27 then backslash # text_of c
      else if escape_grapheme_extended \<and> is_grapheme_extended u n then escape_unicode n
      else if is_printable u n then text_of c
      else escape_unicode n)"

definition escape_debug :: "UnicodeTables \<Rightarrow> bytes \<Rightarrow> string" where
  "escape_debug u s = (case utf8_chars s of
     [] \<Rightarrow> []
   | c # cs \<Rightarrow> escape_debug_ext u True c @ concat (map (escape_debug_ext u False) cs))"

definition format_bytes_debug :: "UnicodeTables \<Rightarrow> bytes \<Rightarrow> string" where
  "format_bytes_debug u bytes =
     (if utf8_valid bytes then [CHR 0x22] @ escape_debug u bytes @ [CHR 0x22]
      else [CHR 0x22] @ escape_ascii bytes @ [CHR 0x22])"

definition BytesDisplay_fmt :: "bytes \<Rightarrow> string" where
  "BytesDisplay_fmt self = text_of (from_utf8_lossy self)"

section \<open>Reading the escaped form back\<close>

function unescape :: "string \<Rightarrow> bytes" where
  "unescape s =
     (case s of
        [] \<Rightarrow> []
      | c # s \<Rightarrow>
          if c \<noteq> backslash then byte_of c # unescape s
          else (case s of
             [] \<Rightarrow> []
           | e # s \<Rightarrow>
               if e = CHR ''0'' then 0 # unescape s
               else if e = CHR ''t'' then 9 # unescape s
               else if e = CHR ''r'' then 13 # unescape s
               else if e = CHR ''n'' then 10 # unescape s
               else if e = CHR ''x'' then of_nat (from_digits 16 (take 2 s)) # unescape (drop 2 s)
               else if e = CHR ''u'' then
                 encode_utf8 (from_digits 16 (tl (takeWhile (\<lambda>c. c \<noteq> CHR 0x7d) s))) @
                 unescape (tl (dropWhile (\<lambda>c. c \<noteq> CHR 0x7d) s))
               else byte_of e # unescape s))"
  by pat_completeness auto
termination
proof (relation "measure length")
  fix s :: string and a c e s'
  show "(tl (dropWhile (\<lambda>c. c \<noteq> CHR 0x7d) s'), s) \<in> measure length" if "s = c # a" "a = e # s'"
    using that length_dropWhile_le[of "\<lambda>c. c \<noteq> CHR 0x7d" s'] by simp
qed auto

declare unescape.simps [simp del]

definition unescape_debug :: "string \<Rightarrow> bytes" where
  "unescape_debug s = unescape (butlast (tl s))"

lemma byte_of_char_of [simp]: "byte_of (char_of (unat b)) = b"
proof -
  have "unat b mod 256 = unat b" using unat_less_bound[of b] by simp
  then show ?thesis by (simp add: byte_of_def)
qed

lemma char_of_eq_iff: "char_of (unat b) = c \<longleftrightarrow> b = byte_of c"
proof -
  have "char_of (unat (of_nat (of_char c) :: u8)) = c" for c
  proof -
    have "of_char c < (256 :: nat)" by simp
    then show ?thesis by (simp add: unat_of_nat)
  qed
  then show ?thesis by (metis byte_of_char_of byte_of_def)
qed

lemma byte_of_eq [simp]: "byte_of c = byte_of d \<longleftrightarrow> c = d"
  by (metis byte_of_char_of char_of_eq_iff)

text \<open>The pieces of a text between its newlines.\<close>

abbreviation NEWLINE :: u8 where
  "NEWLINE \<equiv> 0x0a"

fun split_lines :: "bytes \<Rightarrow> bytes list" where
  "split_lines [] = [[]]"
| "split_lines (c # cs) =
     (if c = NEWLINE then [] # split_lines cs
      else case split_lines cs of l # ls \<Rightarrow> (c # l) # ls)"

lemma split_lines_not_Nil [simp]: "split_lines cs \<noteq> []"
  by (induction cs) (auto split: list.split)

definition ascii :: "string \<Rightarrow> bytes" where
  "ascii s = map byte_of s"

lemma ascii_append [simp]: "ascii (s @ t) = ascii s @ ascii t"
  by (simp add: ascii_def)

lemma ascii_eq [simp]: "ascii s = ascii t \<longleftrightarrow> s = t"
  unfolding ascii_def by (rule inj_map_eq_map) (simp add: inj_def)

lemma number_chars:
  "byte_of c \<notin> set (ascii (oct n))" "byte_of c \<notin> set (ascii (dec n))" if "c \<notin> set ''0123456789''"
proof -
  have "c \<notin> set (oct n)" "c \<notin> set (dec n)"
    using that digits_chars(2,3)[of n] unfolding oct_def dec_def by blast+
  then show "byte_of c \<notin> set (ascii (oct n))" "byte_of c \<notin> set (ascii (dec n))"
    by (auto simp: ascii_def)
qed

lemma char_of_quotes [simp]: "char_of (34 :: nat) = CHR 0x22" "char_of (39 :: nat) = CHR 0x27" "char_of (92 :: nat) = CHR 0x5c"
  by code_simp+

lemma unescape_Nil [simp]: "unescape [] = []"
  by (simp add: unescape.simps)

lemma unescape_plain: "c \<noteq> backslash \<Longrightarrow> unescape (c # s) = byte_of c # unescape s"
  by (simp add: unescape.simps[of "c # s"])

lemma unescape_text:
  assumes "0x5c \<notin> set bs"
  shows "unescape (text_of bs @ s) = bs @ unescape s"
  using assms
proof (induction bs)
  case (Cons b bs)
  then have "char_of (unat b) \<noteq> backslash" by (simp add: char_of_eq_iff backslash_def byte_of_def)
  with Cons show ?case by (simp add: text_of_def unescape_plain)
qed (simp add: text_of_def)

lemma unescape_escapes:
  "unescape (backslash # CHR ''0'' # s) = 0 # unescape s" "unescape (backslash # CHR ''t'' # s) = 9 # unescape s"
  "unescape (backslash # CHR ''r'' # s) = 13 # unescape s" "unescape (backslash # CHR ''n'' # s) = 10 # unescape s"
  "unescape (backslash # CHR ''x'' # s) = of_nat (from_digits 16 (take 2 s)) # unescape (drop 2 s)"
  "e \<in> {CHR 0x22, CHR 0x27, CHR 0x5c} \<Longrightarrow> unescape (backslash # e # s) = byte_of e # unescape s"
  by (subst unescape.simps, simp)+ (subst unescape.simps, auto)

lemma unescape_hex: "unescape (backslash # CHR ''x'' # hex_byte b @ s) = b # unescape s"
proof -
  have "unat b < 256" using unat_less_bound[of b] by simp
  then have d: "unat b div 16 < 16" "unat b mod 16 < 16" by auto
  have "hex_byte b = [digit (unat b div 16), digit (unat b mod 16)]" by (simp add: hex_byte_def digit_def)
  then show ?thesis
    using digit_value_digit[OF d(1)] digit_value_digit[OF d(2)] by (simp add: unescape_escapes from_digits_def)
qed

lemma unescape_unicode: "unescape (escape_unicode n @ s) = encode_utf8 n @ unescape s"
proof -
  have d: "c \<noteq> CHR 0x7d" if "c \<in> set (hex n)" for c
    using that digits_chars(1)[of n] by (auto simp: hex_def)
  then have "takeWhile (\<lambda>c. c \<noteq> CHR 0x7d) (hex n @ CHR 0x7d # s) = hex n"
    "dropWhile (\<lambda>c. c \<noteq> CHR 0x7d) (hex n @ CHR 0x7d # s) = CHR 0x7d # s"
    by (simp_all add: takeWhile_append2 dropWhile_append2)
  moreover have "from_digits 16 (hex n) = n" by (simp add: hex_def from_digits_digits)
  ultimately show ?thesis by (simp add: escape_unicode_def unescape.simps[of "backslash # _"])
qed

lemma unescape_default: "unescape (escape_default b @ s) = b # unescape s"
proof -
  have "char_of (unat b) \<in> {CHR 0x22, CHR 0x27, CHR 0x5c}" if "b = 0x27 \<or> b = 0x22 \<or> b = 0x5c"
    using that by auto
  moreover have "char_of (unat b) \<noteq> backslash" if "b \<noteq> 0x5c"
    using that by (simp add: char_of_eq_iff backslash_def byte_of_def)
  ultimately show ?thesis
    by (auto simp: escape_default_def unescape_escapes(1-4,6) unescape_plain unescape_hex)
qed

lemma unescape_ascii: "unescape (escape_ascii bs @ s) = bs @ unescape s"
  by (induction bs) (simp_all add: escape_ascii_def unescape_default)

lemma unescape_char:
  assumes "utf8_char c"
  shows "unescape (escape_debug_ext u first c @ s) = c @ unescape s"
proof (cases "length c = 1")
  case True
  then obtain a where c: "c = [a]" by (cases c) auto
  have n: "code_point c = unat a" by (simp add: c code_point_def)
  have w: "unat a = k \<longleftrightarrow> a = of_nat k" if "k < 256" for k using that by (auto simp: unat_of_nat)
  have e: "unescape (backslash # text_of c @ s) = c @ unescape s" if "a = 0x22 \<or> a = 0x27 \<or> a = 0x5c"
    using that by (auto simp: c text_of_def unescape_escapes byte_of_def)
  have "unescape (text_of c @ s) = c @ unescape s" if "a \<noteq> 0x5c" using that by (simp add: unescape_text c)
  then show ?thesis
    using e c encode_code_point[OF assms, unfolded n]
    unfolding escape_debug_ext_def Let_def n by (auto simp: w unescape_escapes unescape_unicode)
next
  case False
  have "length (encode_utf8 n) = 1" if "n < 128" for n using that by (simp add: encode_utf8_def)
  with False encode_code_point[OF assms] have "128 \<le> code_point c" by (metis not_le)
  moreover have "0x5c \<notin> set c"
    using assms False by (auto elim!: utf8_charE simp: utf8_cont_def utf8_lead3_def utf8_lead4_def)
  ultimately show ?thesis
    using encode_code_point[OF assms] by (auto simp: escape_debug_ext_def Let_def unescape_text unescape_unicode)
qed


lemma unescape_chars: "\<forall>c \<in> set cs. utf8_char c \<Longrightarrow> unescape (concat (map (escape_debug_ext u False) cs) @ s) = concat cs @ unescape s"
  by (induction cs) (simp_all add: unescape_char)

lemma unescape_debug_form: "unescape_debug (format_bytes_debug u bs) = bs"
proof (cases "utf8_valid bs")
  case True
  have "unescape (escape_debug u bs @ []) = concat (utf8_chars bs)"
  proof (cases "utf8_chars bs")
    case (Cons c cs)
    with utf8_chars_are_chars[OF True] have "utf8_char c" "\<forall>c \<in> set cs. utf8_char c" by auto
    then show ?thesis
      using Cons unescape_chars[of cs u "[]"] by (simp add: escape_debug_def unescape_char)
  qed (simp add: escape_debug_def)
  with True show ?thesis by (simp add: format_bytes_debug_def unescape_debug_def)
next
  case False
  with unescape_ascii[of bs "[]"] show ?thesis by (simp add: format_bytes_debug_def unescape_debug_def)
qed

section \<open>Names, paths, labels and identifiers\<close>

definition DirEntryName_fmt :: "UnicodeTables \<Rightarrow> DirEntryName \<Rightarrow> string" where
  "DirEntryName_fmt u self = format_bytes_debug u self"

definition DirEntryName_display :: "DirEntryName \<Rightarrow> string" where
  "DirEntryName_display self = BytesDisplay_fmt self"

definition DirEntryName_as_str :: "DirEntryName \<Rightarrow> (bytes, unit) outcome" where
  "DirEntryName_as_str self = String_from_utf8 self"

definition DirEntryNameBuf_fmt :: "UnicodeTables \<Rightarrow> DirEntryNameBuf \<Rightarrow> string result" where
  "DirEntryNameBuf_fmt u self = bind_o (DirEntryNameBuf_as_bytes self) (\<lambda>bs. Ok (format_bytes_debug u bs))"

definition Path_fmt :: "UnicodeTables \<Rightarrow> Path \<Rightarrow> string" where
  "Path_fmt u self = format_bytes_debug u self"

definition Path_display :: "Path \<Rightarrow> string" where
  "Path_display self = BytesDisplay_fmt self"

definition PathBuf_fmt :: "UnicodeTables \<Rightarrow> PathBuf \<Rightarrow> string" where
  "PathBuf_fmt u self = Path_fmt u self"

definition PathBuf_display :: "PathBuf \<Rightarrow> string" where
  "PathBuf_display self = BytesDisplay_fmt self"

definition Component_fmt :: "UnicodeTables \<Rightarrow> Component \<Rightarrow> string" where
  "Component_fmt u self = (case self of
     RootDir \<Rightarrow> ''RootDir''
   | CurDir \<Rightarrow> ''CurDir''
   | ParentDir \<Rightarrow> ''ParentDir''
   | Normal name \<Rightarrow> ''Normal('' @ format_bytes_debug u name @ '')'')"

definition Label_to_str :: "Label \<Rightarrow> (bytes, unit) outcome" where
  "Label_to_str self = String_from_utf8 (Label_as_bytes_up_to_first_null self)"

definition Label_display :: "Label \<Rightarrow> string" where
  "Label_display self = BytesDisplay_fmt (Label_as_bytes_up_to_first_null self)"

definition Label_fmt :: "UnicodeTables \<Rightarrow> Label \<Rightarrow> string" where
  "Label_fmt u self = format_bytes_debug u (Label_as_bytes_up_to_first_null self)"

definition Uuid_display :: "Uuid \<Rightarrow> string" where
  "Uuid_display self = Uuid_fmt self"

definition BlockSize_fmt :: "BlockSize \<Rightarrow> string" where
  "BlockSize_fmt self = dec (unat self)"

section \<open>Files and directories\<close>

text \<open>\<open>debug_struct\<close>, \<open>debug_tuple\<close> and \<open>finish_non_exhaustive\<close> in the form without \<open>#\<close>.\<close>

definition Checksum_fmt :: string where
  "Checksum_fmt = ''Checksum { .. }''"

definition File_fmt :: "File \<Rightarrow> string" where
  "File_fmt self = ''File { inode: '' @ dec (unat (in_index (fl_inode self))) @ '', position: '' @
     dec (unat (fl_position self)) @ '', .. }''"

definition DirEntry_fmt :: "UnicodeTables \<Rightarrow> DirEntry \<Rightarrow> string result" where
  "DirEntry_fmt u self = bind_o (DirEntry_path self) (\<lambda>path. Ok (''DirEntry('' @ PathBuf_fmt u path @ '')''))"

definition ReadDir_fmt :: "UnicodeTables \<Rightarrow> ReadDir \<Rightarrow> string" where
  "ReadDir_fmt u self = ''ReadDir('' @ [CHR 0x22] @ PathBuf_fmt u (rd_path self) @ [CHR 0x22] @ '')''"

section \<open>Properties\<close>

text \<open>The text of a UUID can be read back.\<close>

fun hex_pairs :: "string \<Rightarrow> bytes" where
  "hex_pairs (a # b # s) = of_nat (from_digits 16 [a, b]) # hex_pairs s"
| "hex_pairs _ = []"

lemma hex_pairs_byte [simp]: "hex_pairs (hex_byte b @ s) = b # hex_pairs s"
proof -
  have "unat b < 256" using unat_less_bound[of b] by simp
  then have d: "unat b div 16 < 16" "unat b mod 16 < 16" by auto
  show ?thesis
    using digit_value_digit[OF d(1)] digit_value_digit[OF d(2)]
    by (simp add: hex_byte_def digit_def[symmetric] from_digits_def)
qed

lemma hex_pairs_bytes: "hex_pairs (concat (map hex_byte bs)) = bs"
  by (induction bs) simp_all

lemma hex_byte_no_dash: "c \<in> set (hex_byte b) \<Longrightarrow> c \<noteq> CHR ''-''"
proof -
  assume c: "c \<in> set (hex_byte b)"
  have "unat b < 256" using unat_less_bound[of b] by simp
  then have d: "unat b div 16 < 16" "unat b mod 16 < 16" by auto
  from c have "c = digit (unat b div 16) \<or> c = digit (unat b mod 16)" by (simp add: hex_byte_def digit_def)
  with digit_in(1)[OF d(1)] digit_in(1)[OF d(2)] have "c \<in> set ''0123456789abcdef''" by blast
  then show "c \<noteq> CHR ''-''" by auto
qed

lemma uuid_text_roundtrip:
  assumes "length u = 16"
  shows "hex_pairs (filter (\<lambda>c. c \<noteq> CHR ''-'') (Uuid_display u)) = u"
proof -
  have f: "filter (\<lambda>c. c \<noteq> CHR ''-'') (hex_range u a b) = hex_range u a b" for a b
    using hex_byte_no_dash by (auto simp: hex_range_def filter_id_conv)
  have r: "hex_range u a b @ hex_range u b c = hex_range u a c" if "a \<le> b" "b \<le> c" for a b c
    using that upt_add_eq_append[of a b "c - b"] by (simp add: hex_range_def)
  have "filter (\<lambda>c. c \<noteq> CHR ''-'') (Uuid_display u) = hex_range u 0 16"
    by (simp add: Uuid_display_def Uuid_fmt_def f r)
  also have "\<dots> = concat (map hex_byte u)"
  proof -
    have "map (\<lambda>i. hex_byte (u ! i)) [0..<length u] = map hex_byte u" by (rule nth_equalityI) simp_all
    then show ?thesis unfolding hex_range_def assms by (rule arg_cong)
  qed
  finally show ?thesis by (simp add: hex_pairs_bytes)
qed

text \<open>What is displayed of a name, a path or a label is always valid UTF-8, and it is the name itself
  exactly if that is valid.\<close>

lemma display_is_utf8:
  "utf8_valid (map byte_of (BytesDisplay_fmt bs)) \<and> (map byte_of (BytesDisplay_fmt bs) = bs \<longleftrightarrow> utf8_valid bs)"
  by (simp add: BytesDisplay_fmt_def text_of_def comp_def lossy_valid lossy_id_iff)

text \<open>C35: The debug form of a name, a path or a label is unambiguous: the bytes can be read back from it,
  whether they are valid UTF-8 (and escaped character by character) or not (and escaped byte by
  byte), and whatever the tables of printable characters say.\<close>

theorem debug_text_roundtrip: "unescape_debug (format_bytes_debug u bs) = bs"
  by (rule unescape_debug_form)

end
