(* ===== verification/Error_Text.thy ===== *)
theory Error_Text
  imports Format
begin

text \<open>
  The messages of the errors: \<open>Display\<close> of \<open>Ext4Error\<close>, \<open>CorruptKind\<close> and \<open>IncompatibleKind\<close>
  (\<^verbatim>\<open>src/src/error.rs\<close>), of the errors for names and paths (\<^verbatim>\<open>src/src/dir_entry.rs\<close>, \<^verbatim>\<open>src/src/path.rs\<close>) and of the
  error of the in-memory reader (\<^verbatim>\<open>src/src/reader.rs\<close>), and that a message says which error it is.
\<close>

section \<open>Messages\<close>

definition DirEntryNameError_fmt :: "DirEntryNameError \<Rightarrow> string" where
  "DirEntryNameError_fmt self = (case self of
     Empty \<Rightarrow> ''direntry name is empty''
   | TooLong \<Rightarrow> ''directory entry name is longer than 255 bytes''
   | NameContainsNull \<Rightarrow> ''directory entry name contains a null byte''
   | ContainsSeparator \<Rightarrow> ''directory entry name contains a path separator'')"

definition PathError_fmt :: "PathError \<Rightarrow> string" where
  "PathError_fmt self = (case self of
     ComponentTooLong \<Rightarrow> ''path contains a component longer than 255 bytes''
   | ContainsNull \<Rightarrow> ''path contains a null byte''
   | Encoding \<Rightarrow> ''path cannot be created due to encoding'')"

definition MemIoError_fmt :: "MemIoError \<Rightarrow> string" where
  "MemIoError_fmt self = ''failed to read '' @ dec (mio_read_len self) @ '' bytes at offset '' @
     dec (unat (mio_start self)) @ '' from a slice of length '' @ dec (mio_src_len self)"

fun BoxedError_fmt :: "BoxedError \<Rightarrow> string" where
  "BoxedError_fmt (BoxedMemIo e) = MemIoError_fmt e"
| "BoxedError_fmt (BoxedOther message) = message"

fun CorruptKind_fmt :: "CorruptKind \<Rightarrow> string" where
  "CorruptKind_fmt SuperblockMagic = ''invalid superblock magic''"
| "CorruptKind_fmt SuperblockChecksum = ''invalid superblock checksum''"
| "CorruptKind_fmt InvalidBlockSize = ''invalid block size''"
| "CorruptKind_fmt TooManyBlockGroups = ''too many block groups''"
| "CorruptKind_fmt InodesPerBlockGroup = ''inodes per block group is zero''"
| "CorruptKind_fmt BlocksPerGroup = ''blocks per group is zero''"
| "CorruptKind_fmt InodeSize = ''inode size is invalid''"
| "CorruptKind_fmt JournalInode = ''invalid journal inode''"
| "CorruptKind_fmt (FirstDataBlock block) = ''invalid first data block: '' @ dec (unat block)"
| "CorruptKind_fmt (CorruptBlockGroupDescriptor block_group_num) = ''block group descriptor '' @ dec (unat block_group_num) @ '' is invalid''"
| "CorruptKind_fmt (BlockGroupDescriptorChecksum block_group_num) = ''invalid checksum for block group descriptor '' @ dec (unat block_group_num)"
| "CorruptKind_fmt JournalSize = ''journal size is invalid''"
| "CorruptKind_fmt JournalMagic = ''journal magic is invalid''"
| "CorruptKind_fmt JournalSuperblockChecksum = ''journal superblock checksum is invalid''"
| "CorruptKind_fmt JournalBlockSize = ''journal block size does not match filesystem block size''"
| "CorruptKind_fmt JournalTruncated = ''journal is truncated''"
| "CorruptKind_fmt JournalSequence = ''journal's first commit doesn't match the expected sequence''"
| "CorruptKind_fmt JournalCommitBlockChecksum = ''journal commit block checksum is invalid''"
| "CorruptKind_fmt JournalDescriptorBlockChecksum = ''journal descriptor block checksum is invalid''"
| "CorruptKind_fmt JournalDescriptorTagChecksum = ''journal descriptor tag checksum is invalid''"
| "CorruptKind_fmt JournalRevocationBlockChecksum = ''journal revocation block checksum is invalid''"
| "CorruptKind_fmt (JournalRevocationBlockInvalidTableSize len) = ''journal revocation block table size is invalid: '' @ dec len"
| "CorruptKind_fmt JournalSequenceOverflow = ''journal sequence number overflowed''"
| "CorruptKind_fmt JournalDescriptorBlockTruncated = ''journal descriptor block is truncated''"
| "CorruptKind_fmt (InodeChecksum inode) = ''invalid checksum for inode '' @ dec (unat inode)"
| "CorruptKind_fmt (InodeTruncated inode len) = ''inode '' @ dec (unat inode) @ '' is truncated: size='' @ dec len"
| "CorruptKind_fmt (InodeBlockGroup inode block_group num_block_groups) = ''inode '' @ dec (unat inode) @
     '' has an invalid block group index: block_group='' @ dec (unat block_group) @ '', num_block_groups='' @ dec num_block_groups"
| "CorruptKind_fmt (InodeLocation inode block_group inodes_per_block_group inode_size block_size inode_table_first_block) = ''inode '' @
     dec (unat inode) @ '' has invalid location: block_group='' @ dec (unat block_group) @ '', inodes_per_block_group='' @
     dec (unat inodes_per_block_group) @ '', inode_size='' @ dec (unat inode_size) @ '', block_size='' @ BlockSize_fmt block_size @
     '', inode_table_first_block='' @ dec (unat inode_table_first_block)"
| "CorruptKind_fmt (InodeFileType inode mode) = ''inode '' @ dec (unat inode) @ '' has invalid file type: mode=0x'' @ hex_padded 4 (unat mode)"
| "CorruptKind_fmt (SymlinkTarget inode) = ''inode '' @ dec (unat inode) @ '' has an invalid symlink path''"
| "CorruptKind_fmt TooManyBlocksInFile = ''too many blocks in file''"
| "CorruptKind_fmt (ExtentMagic inode) = ''extent in inode '' @ dec (unat inode) @ '' has invalid magic''"
| "CorruptKind_fmt (ExtentChecksum inode) = ''extent in inode '' @ dec (unat inode) @ '' has an invalid checksum''"
| "CorruptKind_fmt (ExtentDepth inode) = ''extent in inode '' @ dec (unat inode) @ '' has an invalid depth''"
| "CorruptKind_fmt (ExtentNotEnoughData inode) = ''extent data in inode '' @ dec (unat inode) @ '' is invalid''"
| "CorruptKind_fmt (ExtentBlock inode) = ''extent in inode '' @ dec (unat inode) @ '' points to an invalid block''"
| "CorruptKind_fmt (ExtentNodeSize inode) = ''extent in inode '' @ dec (unat inode) @ '' has a node with an invalid size''"
| "CorruptKind_fmt (DirBlockChecksum inode) = ''directory block in inode '' @ dec (unat inode) @ '' has an invalid checksum''"
| "CorruptKind_fmt (DirEntryMissingHeader inode num_bytes) = ''directory in inode '' @ dec (unat inode) @
     '' is too small to contain header: '' @ dec num_bytes"
| "CorruptKind_fmt (DirEntryRecordTooSmall inode len) = ''directory entry in inode '' @ dec (unat inode) @
     '' record length is too small: '' @ dec len"
| "CorruptKind_fmt (DirEntryNameTooLarge inode len) = ''name of directory entry in inode '' @ dec (unat inode) @ '' is too large: '' @ dec (unat len)"
| "CorruptKind_fmt (DirEntryInvalidFileType inode value) = ''directory entry in inode '' @ dec (unat inode) @
     '' has invalid file type: '' @ dec (unat value)"
| "CorruptKind_fmt (DirEntryInvalidName inode err) = ''directory entry in inode '' @ dec (unat inode) @ '' has invalid name: '' @
     DirEntryNameError_fmt err"
| "CorruptKind_fmt (HtreeInternalNodeMissingHeader inode num_bytes) = ''htree internal node in inode '' @ dec (unat inode) @
     '' is too small to contain header: '' @ dec num_bytes"
| "CorruptKind_fmt (HtreeInternalNodeCountTooLarge inode num_bytes count) = ''htree internal node in inode '' @ dec (unat inode) @
     '' has too large many entries: num_bytes='' @ dec num_bytes @ '', count='' @ dec count"
| "CorruptKind_fmt (CorruptDirEntry inode) = ''invalid directory entry in inode '' @ dec (unat inode)"
| "CorruptKind_fmt (BlockRead block_index original_block_index offset_within_block read_len) = ''invalid read of length '' @ dec read_len @
     '' from block '' @ dec (unat block_index) @ '' (originally '' @ dec (unat original_block_index) @ '') at offset '' @
     dec (unat offset_within_block)"
| "CorruptKind_fmt (BlockCacheReadTooLarge num_blocks block_size) = ''attempted to read '' @ dec (unat num_blocks) @
     '' blocks with block_size '' @ BlockSize_fmt block_size"

text \<open>\<open>{:?}\<close> of a set of features (\<open>bitflags\<close>) is the parameter \<open>flags\<close>; that of a \<open>u32\<close> is its decimal form.\<close>

fun IncompatibleKind_fmt :: "(u32 \<Rightarrow> string) \<Rightarrow> IncompatibleKind \<Rightarrow> string" where
  "IncompatibleKind_fmt flags (MissingRequiredFeatures feat) = ''missing required features: '' @ flags feat"
| "IncompatibleKind_fmt flags (UnsupportedFeatures feat) = ''unsupported features: '' @ flags feat"
| "IncompatibleKind_fmt flags (DirectoryHash algorithm) = ''unsupported directory hash algorithm: '' @ dec (unat algorithm)"
| "IncompatibleKind_fmt flags (JournalSuperblockType val) = ''journal superblock type is not supported: '' @ dec (unat val)"
| "IncompatibleKind_fmt flags (JournalBlockType val) = ''journal block type is not supported: '' @ dec (unat val)"
| "IncompatibleKind_fmt flags JournalBlockEscaped = ''journal contains an escaped data block''"
| "IncompatibleKind_fmt flags (JournalChecksumType val) = ''journal checksum type is not supported: '' @ dec (unat val)"
| "IncompatibleKind_fmt flags (MissingRequiredJournalFeatures feat) = ''missing required journal features: '' @ dec (unat feat)"
| "IncompatibleKind_fmt flags (UnsupportedJournalFeatures feat) = ''unsupported journal features: '' @ dec (unat feat)"

definition Corrupt_fmt :: "CorruptKind \<Rightarrow> string" where
  "Corrupt_fmt self = CorruptKind_fmt self"

definition Incompatible_fmt :: "(u32 \<Rightarrow> string) \<Rightarrow> IncompatibleKind \<Rightarrow> string" where
  "Incompatible_fmt flags self = IncompatibleKind_fmt flags self"

fun Ext4Error_fmt :: "(u32 \<Rightarrow> string) \<Rightarrow> Ext4Error \<Rightarrow> string" where
  "Ext4Error_fmt flags NotAbsolute = ''path is not absolute''"
| "Ext4Error_fmt flags NotASymlink = ''path is not a symlink''"
| "Ext4Error_fmt flags NotFound = ''file not found''"
| "Ext4Error_fmt flags IsADirectory = ''path is a directory''"
| "Ext4Error_fmt flags NotADirectory = ''path is not a directory''"
| "Ext4Error_fmt flags IsASpecialFile = ''path is a special file''"
| "Ext4Error_fmt flags FileTooLarge = ''file is too large to store in memory''"
| "Ext4Error_fmt flags NotUtf8 = ''data is not utf-8''"
| "Ext4Error_fmt flags MalformedPath = ''data is not a valid path''"
| "Ext4Error_fmt flags PathTooLong = ''path is too long''"
| "Ext4Error_fmt flags TooManySymlinks = ''too many levels of symbolic links''"
| "Ext4Error_fmt flags Encrypted = ''file is encrypted''"
| "Ext4Error_fmt flags (Io err) = ''io error: '' @ BoxedError_fmt err"
| "Ext4Error_fmt flags (Incompatible i) = ''incompatible filesystem: '' @ Incompatible_fmt flags i"
| "Ext4Error_fmt flags (Corrupt c) = ''corrupt filesystem: '' @ Corrupt_fmt c"

text \<open>The comparisons of an error with a kind.\<close>

definition Ext4Error_eq_CorruptKind :: "Ext4Error \<Rightarrow> CorruptKind \<Rightarrow> bool" where
  "Ext4Error_eq_CorruptKind self ck = (case self of Corrupt c \<Rightarrow> c = ck | _ \<Rightarrow> False)"

definition Ext4Error_eq_IncompatibleKind :: "Ext4Error \<Rightarrow> IncompatibleKind \<Rightarrow> bool" where
  "Ext4Error_eq_IncompatibleKind self other = (case self of Incompatible i \<Rightarrow> i = other | _ \<Rightarrow> False)"

section \<open>Messages say which error they are\<close>

lemma dec_eq [simp]: "dec m = dec n \<longleftrightarrow> m = n"
  by (simp add: dec_def digits_eq)

text \<open>A number that is followed by something that is not a digit can be read back.\<close>

lemma dec_no_stop:
  assumes "c \<notin> set ''0123456789''"
  shows "\<forall>x \<in> set (dec k). x \<noteq> c"
  using assms digits_chars(2)[of k] unfolding dec_def by blast

lemma dec_append_eq:
  assumes "c \<notin> set ''0123456789''"
  shows "dec m @ c # s = dec n @ c # t \<longleftrightarrow> m = n \<and> s = t"
proof
  assume eq: "dec m @ c # s = dec n @ c # t"
  have t: "takeWhile (\<lambda>x. x \<noteq> c) (dec k @ c # u) = dec k" "dropWhile (\<lambda>x. x \<noteq> c) (dec k @ c # u) = c # u" for k u
    using dec_no_stop[OF assms, of k] by (simp_all add: takeWhile_append2 dropWhile_append2)
  from eq t[of m s] t[of n t] show "m = n \<and> s = t" by (metis dec_eq list.inject)
qed simp

lemma dec_neq_text:
  assumes "c \<notin> set ''0123456789''"
  shows "dec m @ s \<noteq> c # t" "c # t \<noteq> dec m @ s" "dec m \<noteq> c # t" "c # t \<noteq> dec m"
proof -
  have "dec m \<noteq> []" by (simp add: dec_def digits.simps[of 10 m])
  then obtain d ds where "dec m = d # ds" by (cases "dec m") auto
  moreover from this dec_no_stop[OF assms, of m] have "d \<noteq> c" by simp
  ultimately show "dec m @ s \<noteq> c # t" "c # t \<noteq> dec m @ s" "dec m \<noteq> c # t" "c # t \<noteq> dec m" by simp_all
qed

lemma hex_padded_eq: "hex_padded w m = hex_padded w n \<longleftrightarrow> m = n"
proof
  have z: "from_digits 16 (replicate k (CHR ''0'') @ s) = from_digits 16 s" for k s
    by (induction k) (simp_all add: from_digits_def digit_value_def)
  have "from_digits 16 (hex_padded w m) = m" for m by (simp add: hex_padded_def z) (simp add: hex_def from_digits_digits)
  then show "hex_padded w m = hex_padded w n \<Longrightarrow> m = n" by metis
qed simp

lemma name_error_eq: "DirEntryNameError_fmt a = DirEntryNameError_fmt b \<longleftrightarrow> a = b"
  by (cases a; cases b) (simp_all add: DirEntryNameError_fmt_def)

lemmas message_eqs = dec_append_eq dec_neq_text hex_padded_eq name_error_eq BlockSize_fmt_def word_unat_eq_iff[symmetric]

lemma CorruptKind_fmt_inj: "CorruptKind_fmt a = CorruptKind_fmt b \<longleftrightarrow> a = b"
  by (cases a; cases b) (simp_all add: message_eqs conj_commute conj_left_commute)


lemma IncompatibleKind_fmt_inj:
  assumes "inj flags"
  shows "IncompatibleKind_fmt flags a = IncompatibleKind_fmt flags b \<longleftrightarrow> a = b"
  using injD[OF assms] by (cases a; cases b) (auto simp: message_eqs)

text \<open>The message of an error says which error it is: two errors that do not come from the reader have
  different messages, down to every inode, block, offset and size that they report, provided that the
  textual form of feature flags tells sets of features apart.\<close>

theorem error_messages_distinct:
  assumes "inj flags" and "as_io a = None" and "Ext4Error_fmt flags a = Ext4Error_fmt flags b"
  shows "a = b"
  using assms(2,3)
  by (cases a; cases b)
     (simp_all add: as_io_def Corrupt_fmt_def CorruptKind_fmt_inj Incompatible_fmt_def IncompatibleKind_fmt_inj[OF assms(1)])

theorem error_messages_distinct_witness:
  "Ext4Error_fmt (\<lambda>f. dec (unat f)) (Corrupt (BlockRead 123 124 456 789)) =
     ''corrupt filesystem: invalid read of length 789 from block 123 (originally 124) at offset 456'' \<and>
   Ext4Error_fmt (\<lambda>f. dec (unat f)) (Corrupt (BlockRead 123 124 456 789)) \<noteq>
     Ext4Error_fmt (\<lambda>f. dec (unat f)) (Corrupt (BlockRead 12 3124 456 789))"
proof -
  have "inj (\<lambda>f :: u32. dec (unat f))" by (rule injI) (simp add: word_unat_eq_iff)
  from error_messages_distinct[OF this, of "Corrupt (BlockRead 123 124 456 789)" "Corrupt (BlockRead 12 3124 456 789)"]
  have "Ext4Error_fmt (\<lambda>f. dec (unat f)) (Corrupt (BlockRead 123 124 456 789)) \<noteq>
     Ext4Error_fmt (\<lambda>f. dec (unat f)) (Corrupt (BlockRead 12 3124 456 789))" by (auto simp: as_io_def)
  moreover have "dec 123 = ''123''" "dec 124 = ''124''" "dec 456 = ''456''" "dec 789 = ''789''" by code_simp+
  ultimately show ?thesis by (simp add: Corrupt_fmt_def)
qed

end
