(* ===== verification/Orders.thy ===== *)
theory Orders
  imports Paths Disk_Types "HOL-Library.List_Lexorder"
begin

text \<open>
  The derived orders of the value types: the order of the variants of \<open>FileType\<close> (\<^verbatim>\<open>src/src/file_type.rs\<close>) and of
  \<open>Component\<close> (\<^verbatim>\<open>src/src/path.rs\<close>), and the order of \<open>DirEntryNameBuf\<close> (\<^verbatim>\<open>src/src/dir_entry.rs\<close>), which is derived from the
  fields of the buffer although its equality compares only the name. Bytes are ordered
  lexicographically.
\<close>

fun FileType_rank :: "FileType \<Rightarrow> nat" where
  "FileType_rank BlockDevice = 0"
| "FileType_rank CharacterDevice = 1"
| "FileType_rank Directory = 2"
| "FileType_rank Fifo = 3"
| "FileType_rank Regular = 4"
| "FileType_rank Socket = 5"
| "FileType_rank Symlink = 6"

lemma FileType_rank_inj: "FileType_rank a = FileType_rank b \<longleftrightarrow> a = b"
  by (cases a; cases b) simp_all

instantiation FileType :: linorder
begin

definition less_eq_FileType :: "FileType \<Rightarrow> FileType \<Rightarrow> bool" where
  "less_eq_FileType a b \<longleftrightarrow> FileType_rank a \<le> FileType_rank b"

definition less_FileType :: "FileType \<Rightarrow> FileType \<Rightarrow> bool" where
  "less_FileType a b \<longleftrightarrow> FileType_rank a < FileType_rank b"

instance
  by standard (auto simp: less_eq_FileType_def less_FileType_def FileType_rank_inj[symmetric])

end

text \<open>A component is ordered by its variant and then by its name.\<close>

fun Component_rank :: "Component \<Rightarrow> nat" where
  "Component_rank RootDir = 0"
| "Component_rank CurDir = 1"
| "Component_rank ParentDir = 2"
| "Component_rank (Normal _) = 3"

fun Component_name :: "Component \<Rightarrow> bytes" where
  "Component_name (Normal name) = name"
| "Component_name _ = []"

lemma Component_key_inj: "Component_rank a = Component_rank b \<and> Component_name a = Component_name b \<longleftrightarrow> a = b"
  by (cases a; cases b) simp_all

instantiation Component :: linorder
begin

definition less_eq_Component :: "Component \<Rightarrow> Component \<Rightarrow> bool" where
  "less_eq_Component a b \<longleftrightarrow> Component_rank a < Component_rank b \<or>
     Component_rank a = Component_rank b \<and> Component_name a \<le> Component_name b"

definition less_Component :: "Component \<Rightarrow> Component \<Rightarrow> bool" where
  "less_Component a b \<longleftrightarrow> Component_rank a < Component_rank b \<or>
     Component_rank a = Component_rank b \<and> Component_name a < Component_name b"

instance
  by standard (auto simp: less_eq_Component_def less_Component_def Component_key_inj[symmetric])

end

text \<open>Comparisons of a block size with integers (\<^verbatim>\<open>src/src/block_size.rs\<close>).\<close>

datatype Ordering = Less | Equal | Greater

definition partial_cmp :: "'a :: linorder \<Rightarrow> 'a \<Rightarrow> Ordering option" where
  "partial_cmp a b = Some (if a < b then Less else if a = b then Equal else Greater)"

definition BlockSize_eq_u32 :: "BlockSize \<Rightarrow> u32 \<Rightarrow> bool" where
  "BlockSize_eq_u32 self v \<longleftrightarrow> BlockSize_to_u32 self = v"

definition u16_eq_BlockSize :: "u16 \<Rightarrow> BlockSize \<Rightarrow> bool" where
  "u16_eq_BlockSize self v \<longleftrightarrow> ucast self = BlockSize_to_u32 v"

definition u32_eq_BlockSize :: "u32 \<Rightarrow> BlockSize \<Rightarrow> bool" where
  "u32_eq_BlockSize self v \<longleftrightarrow> self = BlockSize_to_u32 v"

definition usize_eq_BlockSize :: "usize \<Rightarrow> BlockSize \<Rightarrow> bool" where
  "usize_eq_BlockSize self v \<longleftrightarrow> self = BlockSize_to_usize v"

definition u16_cmp_BlockSize :: "u16 \<Rightarrow> BlockSize \<Rightarrow> Ordering option" where
  "u16_cmp_BlockSize self v = partial_cmp (ucast self) (BlockSize_to_u32 v)"

definition u32_cmp_BlockSize :: "u32 \<Rightarrow> BlockSize \<Rightarrow> Ordering option" where
  "u32_cmp_BlockSize self v = partial_cmp self (BlockSize_to_u32 v)"

definition usize_cmp_BlockSize :: "usize \<Rightarrow> BlockSize \<Rightarrow> Ordering option" where
  "usize_cmp_BlockSize self v = partial_cmp self (BlockSize_to_usize v)"

lemma block_size_comparisons_agree:
  "u16_cmp_BlockSize a v = Some Equal \<longleftrightarrow> u16_eq_BlockSize a v" "u32_cmp_BlockSize b v = Some Equal \<longleftrightarrow> u32_eq_BlockSize b v"
  "usize_cmp_BlockSize c v = Some Equal \<longleftrightarrow> usize_eq_BlockSize c v" "BlockSize_eq_u32 v b \<longleftrightarrow> u32_eq_BlockSize b v"
  "u16_cmp_BlockSize a v = u32_cmp_BlockSize (ucast a) v" "u32_cmp_BlockSize b v = usize_cmp_BlockSize (unat b) v"
  by (auto simp: u16_cmp_BlockSize_def u32_cmp_BlockSize_def usize_cmp_BlockSize_def u16_eq_BlockSize_def u32_eq_BlockSize_def
      usize_eq_BlockSize_def BlockSize_eq_u32_def partial_cmp_def BlockSize_to_usize_def BlockSize_to_u32_def usize_from_u32_def word_less_nat_alt
      word_unat_eq_iff)

definition DirEntryNameBuf_less :: "DirEntryNameBuf \<Rightarrow> DirEntryNameBuf \<Rightarrow> bool" where
  "DirEntryNameBuf_less a b \<longleftrightarrow> nb_data a < nb_data b \<or> nb_data a = nb_data b \<and> nb_len a < nb_len b"

text \<open>Padding with zeros keeps the order of names, which have no null byte.\<close>

lemma pad_less:
  fixes x y :: bytes
  assumes "0 \<notin> set x" and "0 \<notin> set y" and "length x \<le> n" and "length y \<le> n"
  shows "x @ replicate (n - length x) 0 < y @ replicate (n - length y) 0 \<longleftrightarrow> x < y"
  using assms
proof (induction x arbitrary: y n)
  case Nil
  then show ?case by (cases y; cases n) (auto simp: word_gt_0)
next
  case (Cons a x)
  then obtain m where n: "n = Suc m" by (cases n) auto
  show ?case
  proof (cases y)
    case Nil
    with Cons.prems n show ?thesis by (auto simp: word_gt_0)
  next
    case (Cons b ys)
    with Cons.prems Cons.IH[of ys m] n show ?thesis by auto
  qed
qed

lemma pad_eq:
  fixes x y :: bytes
  assumes "0 \<notin> set x" and "0 \<notin> set y" and "length x \<le> n" and "length y \<le> n"
    and "x @ replicate (n - length x) 0 = y @ replicate (n - length y) 0"
  shows "x = y"
  using pad_less[OF assms(1-4)] pad_less[OF assms(2,1,4,3)] assms(5) by (metis less_irrefl linorder_neqE)

lemma name_buf_data:
  assumes "DirEntryNameBuf_try_from x = Ok a"
  shows "nb_data a = x @ replicate (255 - length x) 0" "unat (nb_len a) = length x" "0 \<notin> set x" "length x \<le> 255"
  using assms
  by (auto simp: DirEntryNameBuf_try_from_def DirEntryName_try_from_def MAX_LEN_def Let_def word_try_from_def
      unat_of_nat split: if_splits)

theorem name_buf_order:
  assumes "DirEntryNameBuf_try_from x = Ok a" and "DirEntryNameBuf_try_from y = Ok b"
  shows "(DirEntryNameBuf_less a b \<longleftrightarrow> x < y) \<and> (DirEntryNameBuf_eq a b = Ok True \<longleftrightarrow> a = b)"
proof -
  note a = name_buf_data[OF assms(1)] and b = name_buf_data[OF assms(2)]
  have l: "nb_data a < nb_data b \<longleftrightarrow> x < y" using pad_less[OF a(3) b(3) a(4) b(4)] a(1) b(1) by simp
  have e: "nb_data a = nb_data b \<longleftrightarrow> x = y" using pad_eq[OF a(3) b(3) a(4) b(4)] a(1) b(1) by auto
  have w: "nb_len a = nb_len b" if "x = y" using that a(2) b(2) by (simp add: word_unat_eq_iff)
  have "DirEntryNameBuf_as_bytes a = Ok x" "DirEntryNameBuf_as_bytes b = Ok y"
    using a b by (simp_all add: DirEntryNameBuf_as_bytes_def)
  then have "DirEntryNameBuf_eq a b = Ok True \<longleftrightarrow> x = y" by (simp add: DirEntryNameBuf_eq_def)
  with l e w show ?thesis by (auto simp: DirEntryNameBuf_less_def)
qed

end
