(* ===== verification/Client_Loops.thy ===== *)
theory Client_Loops
  imports Session
begin

text \<open>
  Loops of the programs that use the library: they keep a state of their own beside the file system, hold a
  file or a directory iterator for the duration of a loop, and repeat a step until it has a result. A loop that
  does not end diverges, as the loop of an iterator does.

  The relation \<open>runs\<close> says what such a program does on a file system that does not change but for its cache;
  the rules for it are proved once, here, and carry the proofs about the programs.
\<close>

section \<open>Loops\<close>

definition loop_until :: "('s, 'a option, 'e) comp \<Rightarrow> ('s, 'a, 'e) comp" where
  "loop_until round =
     bindc (result_iter_next (\<lambda>_. False) (\<lambda>s. s) round) (\<lambda>r. case r of Some x \<Rightarrow> ret x | None \<Rightarrow> lift Diverge)"

text \<open>\<open>with_context\<close>: the error of a computation, with a context.\<close>

definition with_context :: "('e \<Rightarrow> 'f) \<Rightarrow> ('s, 'a, 'e) comp \<Rightarrow> ('s, 'a, 'f) comp" where
  "with_context f m s = (case m s of (r, s') \<Rightarrow> (map_err f r, s'))"

text \<open>A value that lives as long as a computation, e.g. an open file.\<close>

definition with_local :: "'i \<Rightarrow> (('i \<times> 'c) \<times> 't, 'a, 'e) comp \<Rightarrow> ('c \<times> 't, 'a, 'e) comp" where
  "with_local i m s = (case m ((i, fst s), snd s) of (r, ((_, c'), t')) \<Rightarrow> (r, (c', t')))"

abbreviation on_local :: "('i \<times> 't, 'a, 'e) comp \<Rightarrow> (('i \<times> 'c) \<times> 't, 'a, 'e) comp" where
  "on_local \<equiv> on_field fst (\<lambda>i s. (i, snd s))"

abbreviation on_rest :: "('c \<times> 't, 'a, 'e) comp \<Rightarrow> (('i \<times> 'c) \<times> 't, 'a, 'e) comp" where
  "on_rest \<equiv> on_field snd (\<lambda>c s. (fst s, c))"

text \<open>\<open>let mut x = init; ...; Ok(x)\<close>: a computation that builds up a value.\<close>

definition building :: "'c \<Rightarrow> ('c \<times> 't, unit, 'e) comp \<Rightarrow> ('t, 'c, 'e) comp" where
  "building init m t =
     (case m (init, t) of
        (Ok _, (x, t')) \<Rightarrow> (Ok x, t')
      | (Err e, (_, t')) \<Rightarrow> (Err e, t')
      | (Panic, (_, t')) \<Rightarrow> (Panic, t')
      | (Diverge, (_, t')) \<Rightarrow> (Diverge, t'))"

text \<open>\<open>for item in iter { let item = item?; body }\<close>, where the body changes the state of the program.\<close>

definition for_step :: "('i \<times> 't, 'a option, 'e) comp \<Rightarrow> ('a \<Rightarrow> ('c \<times> 't, unit, 'e) comp) \<Rightarrow>
    (('i \<times> 'c) \<times> 't, unit option, 'e) comp" where
  "for_step nxt body =
     bindc (on_local nxt) (\<lambda>item.
     case item of
       None \<Rightarrow> ret (Some ())
     | Some x \<Rightarrow> bindc (on_rest (body x)) (\<lambda>_. ret None))"

definition for_in :: "('i \<times> 't, 'a option, 'e) comp \<Rightarrow> 'i \<Rightarrow> ('a \<Rightarrow> ('c \<times> 't, unit, 'e) comp) \<Rightarrow> ('c \<times> 't, unit, 'e) comp" where
  "for_in nxt it body = with_local it (loop_until (for_step nxt body))"

lemma for_step_run:
  assumes "nxt (i, t) = (r, (i', t'))"
  shows "for_step nxt body ((i, c), t) = (case r of
      Ok None \<Rightarrow> (Ok (Some ()), ((i', c), t'))
    | Ok (Some x) \<Rightarrow> bindc (on_rest (body x)) (\<lambda>_. ret None) ((i', c), t')
    | Err e \<Rightarrow> (Err e, ((i', c), t')) | Panic \<Rightarrow> (Panic, ((i', c), t')) | Diverge \<Rightarrow> (Diverge, ((i', c), t')))"
  using assms by (simp add: for_step_def bindc_def on_field_def ret_def split: outcome.split option.split)

lemma loop_until_stop:
  assumes "round s = (r, s1)" and "r \<noteq> Ok None"
  shows "loop_until round s = (case r of Ok (Some x) \<Rightarrow> Ok x | Ok None \<Rightarrow> Diverge | Err e \<Rightarrow> Err e | Panic \<Rightarrow> Panic | Diverge \<Rightarrow> Diverge, s1)"
  using iter_loop_stop[of "\<lambda>_. False" s round, OF _ assms, of "\<lambda>s. s"] assms(2)
  by (cases r) (auto simp: loop_until_def bindc_def result_iter_next_def ret_def lift_def split: option.split)

lemma loop_until_again:
  assumes "round s = (Ok None, s1)" and "loop_until round s1 = (r, s2)" and "r \<noteq> Diverge"
  shows "loop_until round s = (r, s2)"
proof -
  have "result_iter_loop (\<lambda>_. False) (\<lambda>s. s) round s1 \<noteq> None"
    using assms(2,3) by (cases "result_iter_loop (\<lambda>_. False) (\<lambda>s. s) round s1") (auto simp: loop_until_def bindc_def result_iter_next_def)
  with iter_next_again[of "\<lambda>_. False" s round s1 "\<lambda>s. s"] assms show ?thesis by (simp add: loop_until_def bindc_def)
qed

text \<open>Loops whose rounds agree on the states that the loop can reach are the same.\<close>

lemma loop_until_cong:
  assumes I: "I s" and eq: "\<And>s. I s \<Longrightarrow> n s = m s" and keep: "\<And>s s'. I s \<Longrightarrow> m s = (Ok None, s') \<Longrightarrow> I s'"
  shows "loop_until n s = loop_until m s"
proof -
  have "result_iter_loop (\<lambda>_. False) (\<lambda>s. s) q s = Some y"
    if "result_iter_loop (\<lambda>_. False) (\<lambda>s. s) p s = Some y" "I s" "\<And>s. I s \<Longrightarrow> p s = q s"
      "\<And>s s'. I s \<Longrightarrow> q s = (Ok None, s') \<Longrightarrow> I s'" for p q s y
    using that(1,2)
  proof (induction rule: iter_loop_induct)
    case (stop s r s')
    then have "q s = (r, s')" using that(3) by simp
    from iter_loop_stop[of "\<lambda>_. False" s q, OF _ this stop(3)] show ?case by simp
  next
    case (again s s' y)
    then have "q s = (Ok None, s')" "I s'" using that(3,4) by auto
    with again(3) show ?case by (simp add: iter_loop_again)
  qed simp
  from this[of n s _ m] this[of m s _ n] I eq keep
  have "result_iter_loop (\<lambda>_. False) (\<lambda>s. s) n s = result_iter_loop (\<lambda>_. False) (\<lambda>s. s) m s"
    by (cases "result_iter_loop (\<lambda>_. False) (\<lambda>s. s) n s"; cases "result_iter_loop (\<lambda>_. False) (\<lambda>s. s) m s") fastforce+
  then show ?thesis by (simp add: loop_until_def bindc_def result_iter_next_def)
qed

section \<open>What a program does on an unchanging file system\<close>

definition runs :: "(nat \<Rightarrow> u8) \<Rightarrow> Ext4 \<Rightarrow> ('c \<times> Ext4, 'a, 'e) comp \<Rightarrow> 'c \<Rightarrow> ('a, 'e) outcome \<Rightarrow> 'c \<Rightarrow> bool" where
  "runs disk fs0 m c r c' \<longleftrightarrow> (\<forall>fs. good disk fs0 fs \<longrightarrow> (\<exists>fs'. m (c, fs) = (r, (c', fs')) \<and> good disk fs0 fs'))"

named_theorems runs_intros \<open>what the parts of a program do\<close>

lemma runsD: "runs disk fs0 m c r c' \<Longrightarrow> good disk fs0 fs \<Longrightarrow> \<exists>fs'. m (c, fs) = (r, (c', fs')) \<and> good disk fs0 fs'"
  by (simp add: runs_def)

lemma runs_fst: "runs disk fs0 m c r c' \<Longrightarrow> fs_ok disk fs0 \<Longrightarrow> fst (m (c, fs0)) = r"
  using runsD[of disk fs0 m c r c' fs0] good_refl[of disk fs0] by auto

lemma blind_runs: "blind disk fs0 m \<Longrightarrow> \<exists>r c'. runs disk fs0 m c r c'"
  unfolding blind_def runs_def by blast

lemma runs_ret: "runs disk fs0 (ret x) c (Ok x) c"
  by (simp add: runs_def ret_def)

lemma runs_lift: "runs disk fs0 (lift r) c r c"
  by (simp add: runs_def lift_def)

lemma runs_modify: "runs disk fs0 (modify_fst f) c (Ok ()) (f c)"
  by (simp add: runs_def modify_fst_def)

lemma runs_bind:
  "runs disk fs0 m c (Ok x) c1 \<Longrightarrow> runs disk fs0 (f x) c1 r c2 \<Longrightarrow> runs disk fs0 (bindc m f) c r c2"
  unfolding runs_def bindc_def by fastforce

lemma runs_bind_Err: "runs disk fs0 m c (Err e) c1 \<Longrightarrow> runs disk fs0 (bindc m f) c (Err e) c1"
  unfolding runs_def bindc_def by fastforce

lemma runs_with_context: "runs disk fs0 m c (Ok x) c' \<Longrightarrow> runs disk fs0 (with_context f m) c (Ok x) c'"
  unfolding runs_def with_context_def by fastforce

lemma runs_on_snd:
  assumes "\<And>fs. good disk fs0 fs \<Longrightarrow> computes disk fs0 fs m r"
  shows "runs disk fs0 (on_snd m) c r c"
  unfolding runs_def
proof (intro allI impI)
  fix fs assume "good disk fs0 fs"
  from computesD[OF assms[OF this]] show "\<exists>fs'. on_snd m (c, fs) = (r, (c, fs')) \<and> good disk fs0 fs'"
    by (auto simp: on_snd_def)
qed

text \<open>An operation whose result does not depend on the cache does what it does in the first state.\<close>

lemma runs_stable:
  assumes "stable disk fs0 m" and "fs_ok disk fs0"
  shows "runs disk fs0 (on_snd m) c (fst (m fs0)) c"
  by (rule runs_on_snd) (rule stableD[OF assms])

lemma runs_local: "runs disk fs0 m i r i' \<Longrightarrow> runs disk fs0 (on_local m) (i, c) r (i', c)"
  unfolding runs_def on_field_def by fastforce

lemma runs_rest: "runs disk fs0 m c r c' \<Longrightarrow> runs disk fs0 (on_rest m) (i, c) r (i, c')"
  unfolding runs_def on_field_def by fastforce

lemma runs_with_local: "runs disk fs0 m (i, c) r (i', c') \<Longrightarrow> runs disk fs0 (with_local i m) c r c'"
  unfolding runs_def with_local_def by fastforce

lemma runs_building: "runs disk fs0 m init (Ok ()) x \<Longrightarrow> runs disk fs0 (on_snd (building init m)) c (Ok x) c"
  unfolding runs_def on_snd_def building_def by fastforce

lemma runs_loop_stop: "runs disk fs0 round c (Ok (Some x)) c' \<Longrightarrow> runs disk fs0 (loop_until round) c (Ok x) c'"
  unfolding runs_def using loop_until_stop[of round] by fastforce

lemma runs_loop_again:
  assumes "runs disk fs0 round c (Ok None) c1" and "runs disk fs0 (loop_until round) c1 r c2" and "r \<noteq> Diverge"
  shows "runs disk fs0 (loop_until round) c r c2"
  unfolding runs_def
proof (intro allI impI)
  fix fs assume "good disk fs0 fs"
  from runsD[OF assms(1) this] obtain fs1 where 1: "round (c, fs) = (Ok None, (c1, fs1))" "good disk fs0 fs1" by blast
  from runsD[OF assms(2) 1(2)] obtain fs2 where 2: "loop_until round (c1, fs1) = (r, (c2, fs2))" "good disk fs0 fs2" by blast
  from loop_until_again[OF 1(1) 2(1) assms(3)] 2(2)
  show "\<exists>fs'. loop_until round (c, fs) = (r, (c2, fs')) \<and> good disk fs0 fs'" by blast
qed

text \<open>A loop over an iterator that yields \<open>xs\<close> runs its body on them, one after the other.\<close>

definition iter_seq :: "(nat \<Rightarrow> u8) \<Rightarrow> Ext4 \<Rightarrow> ('i \<times> Ext4, 'a option, 'e) comp \<Rightarrow> 'i \<Rightarrow> ('a, 'e) out_seq \<Rightarrow> bool" where
  "iter_seq disk fs0 nxt it q \<longleftrightarrow> (\<forall>fs. good disk fs0 fs \<longrightarrow> outputs nxt (it, fs) q)"

lemma iter_seq_next:
  assumes "blind disk fs0 nxt" and "good disk fs0 fs0" and "iter_seq disk fs0 nxt it (x # xs, r)"
  obtains it' where "runs disk fs0 nxt it (Ok (Some x)) it'" "iter_seq disk fs0 nxt it' (xs, r)"
proof -
  from blind_runs[OF assms(1)] obtain q it' where run: "runs disk fs0 nxt it q it'" by blast
  from runsD[OF run assms(2)] obtain fs1 where n: "nxt (it, fs0) = (q, (it', fs1))" "good disk fs0 fs1" by blast
  have "outputs nxt (it, fs0) (x # xs, r)" using assms(2,3) by (simp add: iter_seq_def)
  then obtain s where "nxt (it, fs0) = (Ok (Some x), s)" "outputs nxt s (xs, r)" by (rule outputs_ConsD)
  with n have q: "q = Ok (Some x)" "outputs nxt (it', fs1) (xs, r)" by auto
  have "iter_seq disk fs0 nxt it' (xs, r)"
    unfolding iter_seq_def using blind_outputs[OF assms(1) n(2) _ q(2)] by blast
  with run q(1) that show ?thesis by blast
qed

lemma iter_seq_last:
  assumes "blind disk fs0 nxt" and "good disk fs0 fs0" and "iter_seq disk fs0 nxt it ([], r)"
  obtains it' where "runs disk fs0 nxt it (case r of None \<Rightarrow> Ok None | Some e \<Rightarrow> Err e) it'"
proof -
  from blind_runs[OF assms(1)] obtain q it' where run: "runs disk fs0 nxt it q it'" by blast
  from runsD[OF run assms(2)] obtain fs1 where n: "nxt (it, fs0) = (q, (it', fs1))" by blast
  have "outputs nxt (it, fs0) ([], r)" using assms(2,3) by (simp add: iter_seq_def)
  with n have "q = (case r of None \<Rightarrow> Ok None | Some e \<Rightarrow> Err e)"
    by (cases r) (auto elim: outputs_endD outputs_errD)
  with run that show ?thesis by blast
qed

fun chain :: "('a \<Rightarrow> 'c \<Rightarrow> 'c \<Rightarrow> bool) \<Rightarrow> 'a list \<Rightarrow> 'c \<Rightarrow> 'c \<Rightarrow> bool" where
  "chain R [] c c' \<longleftrightarrow> c' = c"
| "chain R (x # xs) c c' \<longleftrightarrow> (\<exists>c1. R x c c1 \<and> chain R xs c1 c')"

lemma chain_filter: "(\<And>x c. \<not> P x \<Longrightarrow> x \<in> set xs \<Longrightarrow> R x c c) \<Longrightarrow> chain R (filter P xs) c c' \<Longrightarrow> chain R xs c c'"
  by (induction xs arbitrary: c) (auto split: if_splits)

lemma chain_list_all2:
  "list_all2 Q xs ys \<Longrightarrow> (\<And>x y c. x \<in> set xs \<Longrightarrow> Q x y \<Longrightarrow> R x c (f y c)) \<Longrightarrow> chain R xs c (fold f ys c)"
proof (induction arbitrary: c rule: list_all2_induct)
  case (Cons x xs y ys)
  from Cons.IH[of "f y c"] Cons.prems[of x y] Cons.prems Cons.hyps(1) show ?case by auto
qed simp

lemma runs_for_in:
  assumes nxt: "blind disk fs0 nxt" and ok: "fs_ok disk fs0" and "iter_seq disk fs0 nxt it (xs, None)"
    and "chain (\<lambda>x c c1. runs disk fs0 (body x) c (Ok ()) c1) xs c c'"
  shows "runs disk fs0 (for_in nxt it body) c (Ok ()) c'"
proof -
  note g = good_refl[OF ok]
  have "\<exists>it'. runs disk fs0 (loop_until (for_step nxt body)) (it, c) (Ok ()) (it', c')"
    using assms(3,4)
  proof (induction xs arbitrary: it c)
    case Nil
    from iter_seq_last[OF nxt g Nil(1)] obtain it' where "runs disk fs0 nxt it (Ok None) it'" by auto
    then have "runs disk fs0 (for_step nxt body) (it, c) (Ok (Some ())) (it', c)"
      unfolding for_step_def by (rule runs_bind[OF runs_local]) (simp add: runs_ret)
    with runs_loop_stop Nil(2) show ?case by fastforce
  next
    case (Cons x xs)
    from iter_seq_next[OF nxt g Cons(2)] obtain it' where
      it: "runs disk fs0 nxt it (Ok (Some x)) it'" "iter_seq disk fs0 nxt it' (xs, None)" by blast
    from Cons(3) obtain c1 where
      b: "runs disk fs0 (body x) c (Ok ()) c1" "chain (\<lambda>x c c1. runs disk fs0 (body x) c (Ok ()) c1) xs c1 c'" by auto
    have "runs disk fs0 (for_step nxt body) (it, c) (Ok None) (it', c1)"
      unfolding for_step_def
      by (rule runs_bind[OF runs_local[OF it(1)]]) (simp, rule runs_bind[OF runs_rest[OF b(1)] runs_ret])
    with Cons(1)[OF it(2) b(2)] show ?case using runs_loop_again[of disk fs0 "for_step nxt body"] by fastforce
  qed
  then show ?thesis unfolding for_in_def using runs_with_local by fast
qed

section \<open>Reading a file to its end\<close>

lemma runs_read_bytes:
  assumes "fs_tame fs0" and "fs_ok disk fs0" and "open_file disk fs0 bs f"
  obtains f' where "runs disk fs0 (read_bytes n) f (Ok (take (min n (block_bytes fs0 - unat (fl_position f) mod block_bytes fs0))
      (drop (unat (fl_position f)) (open_content disk fs0 bs f)))) f'"
    "open_file disk fs0 bs f'" "fl_inode f' = fl_inode f"
    "unat (fl_position f') = unat (fl_position f) +
      length (take (min n (block_bytes fs0 - unat (fl_position f) mod block_bytes fs0)) (drop (unat (fl_position f)) (open_content disk fs0 bs f)))"
proof -
  have dc: "device_complete fs0" using assms(1) by (simp add: fs_tame_def)
  note g = good_refl[OF assms(2)]
  from blind_runs[OF blind_read_bytes[OF assms(1)]] obtain r f' where run: "runs disk fs0 (read_bytes n) f r f'" by blast
  from runsD[OF run g] read_bytes_spec[OF dc g assms(3), of n] run that show ?thesis by auto
qed

text \<open>A loop that reads chunks until one is empty, and consumes each of the others with \<open>consume\<close>, consumes the
  content of the file from the position on, cut into pieces.\<close>

lemma runs_read_loop:
  assumes tame: "fs_tame fs0" and ok: "fs_ok disk fs0" and n: "0 < n" and "open_file disk fs0 bs f"
    and last: "\<And>f f' c. runs disk fs0 (read_bytes n) f (Ok []) f' \<Longrightarrow> runs disk fs0 round (f, c) (Ok (Some ())) (f', c)"
    and more: "\<And>f f' c b. runs disk fs0 (read_bytes n) f (Ok b) f' \<Longrightarrow> b \<noteq> [] \<Longrightarrow>
      runs disk fs0 round (f, c) (Ok None) (f', consume b c)"
  shows "\<exists>cs f'. concat cs = drop (unat (fl_position f)) (open_content disk fs0 bs f) \<and>
     runs disk fs0 (loop_until round) (f, c) (Ok ()) (f', fold consume cs c)"
  using assms(4)
proof (induction "length (open_content disk fs0 bs f) - unat (fl_position f)" arbitrary: f c rule: less_induct)
  case less
  let ?B = "block_bytes fs0" and ?C = "open_content disk fs0 bs f" and ?p = "unat (fl_position f)"
  let ?k = "min n (?B - ?p mod ?B)"
  obtain f' where r: "runs disk fs0 (read_bytes n) f (Ok (take ?k (drop ?p ?C))) f'" "open_file disk fs0 bs f'"
    "fl_inode f' = fl_inode f" "unat (fl_position f') = ?p + length (take ?k (drop ?p ?C))"
    by (rule runs_read_bytes[OF tame ok less(2)])
  have "0 < ?B" using block_bytes_bounds(1)[OF good_refl[OF ok]] by simp
  then have k: "0 < ?k" using n by simp
  show ?case
  proof (cases "take ?k (drop ?p ?C) = []")
    case True
    then have "drop ?p ?C = []" using k by (auto simp del: min_less_iff_conj)
    with runs_loop_stop[OF last] r(1) True show ?thesis by (intro exI[of _ "[]"]) auto
  next
    case False
    let ?b = "take ?k (drop ?p ?C)"
    have lt: "?p < length ?C" using False by (auto simp: not_less)
    have "length (open_content disk fs0 bs f') - unat (fl_position f') < length ?C - ?p"
      unfolding r(3,4) using lt False by (intro diff_less_mono2) (simp_all only: less_add_same_cancel1 length_greater_0_conv not_False_eq_True simp_thms)
    from less(1)[OF this r(2), of "consume ?b c"] obtain cs f2 where
      cs: "concat cs = drop (?p + length ?b) ?C"
        "runs disk fs0 (loop_until round) (f', consume ?b c) (Ok ()) (f2, fold consume cs (consume ?b c))"
      using r(3,4) by auto
    have "drop (?p + length ?b) ?C = drop ?k (drop ?p ?C)"
    proof (cases "?k \<le> length (drop ?p ?C)")
      case True
      then have "length ?b = ?k" by simp
      then show ?thesis by (simp add: add.commute)
    qed simp
    then have "concat (?b # cs) = drop ?p ?C" using cs(1) by (simp only: concat.simps append_take_drop_id)
    with runs_loop_again[OF more[OF r(1) False] cs(2)] show ?thesis by (intro exI[of _ "?b # cs"]) auto
  qed
qed

text \<open>A file that was just opened.\<close>

lemma opened_file:
  assumes "inode_ok (fs_superblock fs) inode" and "inode_blocks disk fs inode bs" and "list_all (data_block fs) bs"
  obtains f where "File_open_inode inode = Ok f" "open_file disk fs bs f" "fl_position f = 0" "fl_inode f = inode"
  using assms by (auto simp: File_open_inode_def inode_blocks_def open_file_def file_at_def)

lemma Ext4_open_spec:
  assumes "fs_ok disk fs" and "fs_tame fs" and "inode_at fs path All = Ok (inode, p)"
  shows "fst (Ext4_open path fs) = (case md_file_type (in_metadata inode) of
     Regular \<Rightarrow> File_open_inode inode | Directory \<Rightarrow> Err IsADirectory | _ \<Rightarrow> Err IsASpecialFile)"
proof -
  have "fst (lift (File_open_inode inode) fs) = File_open_inode inode" by (simp add: lift_def)
  with regular_file_spec[OF assms stable_lift, of File_open_inode] show ?thesis
    by (simp add: Ext4_open_def File_open_def[abs_def] path_to_inode_bind cong: FileType.case_cong)
qed

lemma runs_open:
  assumes "fs_ok disk fs" and "fs_tame fs" and i: "inode_at fs path All = Ok (inode, p)"
    and "md_file_type (in_metadata inode) = Regular"
    and "inode_blocks disk fs inode bs" and "list_all (data_block fs) bs"
  obtains f where "runs disk fs (on_snd (Ext4_open path)) c (Ok f) c" "open_file disk fs bs f" "fl_position f = 0"
    "fl_inode f = inode"
proof -
  obtain f where f: "File_open_inode inode = Ok f" "open_file disk fs bs f" "fl_position f = 0" "fl_inode f = inode"
    by (rule opened_file[OF inode_at_ok[OF assms(1) i] assms(5,6)])
  with runs_stable[OF stable_api(2)[OF assms(2)] assms(1), of path c] Ext4_open_spec[OF assms(1-3)] assms(4) that
  show ?thesis by simp
qed

end
