(* ===== verification/Cat.thy ===== *)
theory Cat
  imports Client_Loops
begin

text \<open>
  The example program \<^verbatim>\<open>cat\<close> (\<^verbatim>\<open>src/examples/cat.rs\<close>): it loads a file system from a file of the host, opens a
  file in it, and copies its content to the standard output in chunks. What happens to written bytes is a parameter:
  \<open>write_all out bytes\<close> is the error, if any, and the new state of the output. The text of the usage message
  is left out; printing it and leaving with status 1 is the error \<open>Usage\<close>.
\<close>

datatype WriteError = BrokenPipe | OtherWriteError string

datatype CatError =
    Usage
  | InvalidPath PathError
  | FailedToLoad bytes Ext4Error
  | FailedToOpen PathBuf Ext4Error
  | FailedToRead PathBuf ErrorKind
  | FailedToWrite WriteError

definition HELP_SHORT :: bytes where "HELP_SHORT = [0x2d, 0x68]"
definition HELP_LONG :: bytes where "HELP_LONG = [0x2d, 0x2d, 0x68, 0x65, 0x6c, 0x70]"

definition parse_args :: "bytes list \<Rightarrow> (bytes \<times> PathBuf, CatError) outcome" where
  "parse_args args =
     (if length args \<noteq> 3 \<or> (\<exists>arg \<in> set args. arg = HELP_SHORT \<or> arg = HELP_LONG) then Err Usage
      else
        bind_o (map_err InvalidPath (PathBuf_try_from_OsString_unix (args ! 2))) (\<lambda>path.
        Ok (args ! 1, path)))"

definition cat_round :: "('out \<Rightarrow> bytes \<Rightarrow> WriteError option \<times> 'out) \<Rightarrow> PathBuf \<Rightarrow>
    ((File \<times> 'out) \<times> Ext4, unit option, CatError) comp" where
  "cat_round write_all path =
     bindc (with_context (FailedToRead path) (on_local (File_read 4096))) (\<lambda>chunk.
     if length chunk = 0 then ret (Some ())
     else
       bindc (on_rest (\<lambda>(out, fs). case write_all out chunk of (err, out') \<Rightarrow> (Ok err, (out', fs)))) (\<lambda>err.
       case err of
         None \<Rightarrow> ret None
       | Some err \<Rightarrow> if err = BrokenPipe then ret (Some ()) else lift (Err (FailedToWrite err))))"

definition cat_copy :: "('out \<Rightarrow> bytes \<Rightarrow> WriteError option \<times> 'out) \<Rightarrow> PathBuf \<Rightarrow> ('out \<times> Ext4, unit, CatError) comp" where
  "cat_copy write_all path =
     bindc (with_context (FailedToOpen path) (on_snd (Ext4_open path))) (\<lambda>file.
     with_local file (loop_until (cat_round write_all path)))"

definition cat_main :: "crc_fn \<Rightarrow> (bytes \<Rightarrow> BoxedError + HostFile) \<Rightarrow> ('out \<Rightarrow> bytes \<Rightarrow> WriteError option \<times> 'out) \<Rightarrow>
    bytes list \<Rightarrow> 'out \<Rightarrow> (unit, CatError) outcome \<times> 'out" where
  "cat_main crc open_host write_all args out =
     (case bind_o (parse_args args) (\<lambda>(path_to_filesystem, path).
             bind_o (map_err (FailedToLoad path_to_filesystem) (Ext4_load_from_path crc open_host path_to_filesystem)) (\<lambda>fs.
             Ok (path, fs))) of
        Ok (path, fs) \<Rightarrow> (case cat_copy write_all path (out, fs) of (r, (out', _)) \<Rightarrow> (r, out'))
      | Err e \<Rightarrow> (Err e, out)
      | Panic \<Rightarrow> (Panic, out)
      | Diverge \<Rightarrow> (Diverge, out))"

section \<open>Copying a file\<close>

lemma runs_File_read: "runs disk fs0 (read_bytes n) f (Ok b) f' \<Longrightarrow> runs disk fs0 (File_read n) f (Ok b) f'"
  unfolding runs_def File_read_def with_io_error_def by fastforce

lemma cat_copies:
  assumes "fs_ok disk fs" and "fs_tame fs" and i: "inode_at fs path All = Ok (inode, p)"
    and "md_file_type (in_metadata inode) = Regular"
    and "inode_blocks disk fs inode bs" and "list_all (data_block fs) bs"
    and w: "\<And>out b. fst (write_all out b) = None"
  shows "\<exists>cs. concat cs = file_content disk fs bs (unat (md_size_in_bytes (in_metadata inode))) \<and>
     runs disk fs (cat_copy write_all path) out (Ok ()) (fold (\<lambda>b out. snd (write_all out b)) cs out)"
proof -
  obtain f where f: "runs disk fs (on_snd (Ext4_open path)) out (Ok f) out" "open_file disk fs bs f" "fl_position f = 0" "fl_inode f = inode"
    by (rule runs_open[OF assms(1-6)])
  let ?w = "\<lambda>chunk. (\<lambda>(out, fs). case write_all out chunk of (err, out') \<Rightarrow> (Ok err, (out', fs))) :: ('a \<times> Ext4, WriteError option, CatError) comp"
  have wr: "runs disk fs (?w chunk) out (Ok None) (snd (write_all out chunk))" for chunk out
    using w[of out chunk] by (cases "write_all out chunk") (simp add: runs_def)
  have "\<exists>cs f'. concat cs = drop (unat (fl_position f)) (open_content disk fs bs f) \<and>
     runs disk fs (loop_until (cat_round write_all path)) (f, out) (Ok ()) (f', fold (\<lambda>b out. snd (write_all out b)) cs out)"
  proof (rule runs_read_loop[OF assms(2,1) _ f(2), of 4096])
    fix f f' c assume "runs disk fs (read_bytes 4096) f (Ok []) f'"
    from runs_with_context[OF runs_local[OF runs_File_read[OF this]]]
    show "runs disk fs (cat_round write_all path) (f, c) (Ok (Some ())) (f', c)"
      unfolding cat_round_def by (rule runs_bind) (simp add: runs_ret)
  next
    fix f f' c b assume "runs disk fs (read_bytes 4096) f (Ok b) f'" and b: "b \<noteq> []"
    from runs_with_context[OF runs_local[OF runs_File_read[OF this(1)]]]
    show "runs disk fs (cat_round write_all path) (f, c) (Ok None) (f', snd (write_all c b))"
      unfolding cat_round_def by (rule runs_bind) (use b in \<open>simp, intro runs_bind[OF runs_rest[OF wr]], simp add: runs_ret\<close>)
  qed simp
  then obtain cs f' where cs: "concat cs = open_content disk fs bs f"
    "runs disk fs (loop_until (cat_round write_all path)) (f, out) (Ok ()) (f', fold (\<lambda>b out. snd (write_all out b)) cs out)"
    using f(3) by auto
  have "runs disk fs (cat_copy write_all path) out (Ok ()) (fold (\<lambda>b out. snd (write_all out b)) cs out)"
    unfolding cat_copy_def by (rule runs_bind[OF runs_with_context[OF f(1)]]) (rule runs_with_local[OF cs(2)])
  with cs(1) f(4) show ?thesis by auto
qed

section \<open>Properties\<close>

text \<open>C19: The example program prints the file: if the output accepts what is written, the chunks that are written
  are together the content of the file at the path, holes as zeros, and the program ends with success; it
  reports a directory and a special file as such, and writes nothing.\<close>

theorem cat_prints_file:
  assumes "fs_ok disk fs" and "fs_tame fs" and "inode_at fs path All = Ok (inode, p)"
    and "inode_blocks disk fs inode bs" and "list_all (data_block fs) bs"
    and "\<And>out b. fst (write_all out b) = None"
  shows "case cat_copy write_all path (out, fs) of (r, (out', _)) \<Rightarrow>
     (case md_file_type (in_metadata inode) of
        Regular \<Rightarrow> r = Ok () \<and> (\<exists>cs. concat cs = file_content disk fs bs (unat (md_size_in_bytes (in_metadata inode))) \<and>
          out' = fold (\<lambda>b out. snd (write_all out b)) cs out)
      | Directory \<Rightarrow> r = Err (FailedToOpen path IsADirectory) \<and> out' = out
      | _ \<Rightarrow> r = Err (FailedToOpen path IsASpecialFile) \<and> out' = out)"
proof (cases "md_file_type (in_metadata inode) = Regular")
  case True
  from cat_copies[where write_all = write_all, OF assms(1-3) True assms(4-6)] obtain cs where
    cs: "concat cs = file_content disk fs bs (unat (md_size_in_bytes (in_metadata inode)))"
    "runs disk fs (cat_copy write_all path) out (Ok ()) (fold (\<lambda>b out. snd (write_all out b)) cs out)" by blast
  from runsD[OF cs(2) good_refl[OF assms(1)]] cs(1) True show ?thesis by auto
next
  case False
  obtain r fs' where "Ext4_open path fs = (r, fs')" by fastforce
  with False Ext4_open_spec[OF assms(1-3)] show ?thesis
    by (cases "md_file_type (in_metadata inode)") (auto simp: cat_copy_def bindc_def with_context_def on_snd_def)
qed

theorem cat_prints_file_witness:
  "fst (cat_copy (\<lambda>out b. (None, out @ b)) [0x2f, 0x66] ([], sample_fs file_image)) = Ok () \<and>
   length (fst (snd (cat_copy (\<lambda>out b. (None, out @ b)) [0x2f, 0x66] ([], sample_fs file_image)))) = 5"
proof -
  have d: "list_all (data_block (sample_fs file_image)) [7]"
    by (simp add: data_block_def sample_superblock_def)
  have f: "fold (\<lambda>b out. out @ b) cs out = out @ concat cs" for cs :: "bytes list" and out
    by (induction cs arbitrary: out) simp_all
  from cat_prints_file[where write_all = "\<lambda>out b. (None, out @ b)",
      OF sample_fs_ok sample_fs_tame[OF file_image_parts(6)] file_inode_at file_inode_blocks d, of "[]"]
  show ?thesis by (auto simp: file_inode_def f file_content_def split: prod.splits)
qed

end
