(* ===== verification/Descent.thy ===== *)
theory Descent
  imports Client_Loops
begin

text \<open>
  What the programs that walk over a whole file system share. Both recurse into every directory, skip its entries
  \<^verbatim>\<open>.\<close> and \<^verbatim>\<open>..\<close>, and take the error \<open>Encrypted\<close> for an encrypted directory.

  The recursion in the sources has no bound of its own. In the model its depth is bounded by a number that is never
  used up, since every level makes the path longer and a directory whose path has more than 4096 bytes is
  not opened: the locale \<open>descent\<close> states what a level has to promise, and its lemmas that the
  recursive equation of the source holds. The datatype \<open>Tree\<close> is the abstract file system that the walks are
  compared with, and \<open>has_tree\<close> relates it to the structures on the device.
\<close>

section \<open>Common parts of the programs\<close>

text \<open>\<open>match fs.read_dir(path) { Ok(iter) => iter, Err(Encrypted) => ..., Err(err) => return Err(err) }\<close>: \<open>None\<close> is the
  second case.\<close>

definition unless_encrypted :: "('s, 'a, Ext4Error) comp \<Rightarrow> ('s, 'a option, Ext4Error) comp" where
  "unless_encrypted m s =
     (case m s of
        (Ok x, s') \<Rightarrow> (Ok (Some x), s')
      | (Err err, s') \<Rightarrow> (if err = Encrypted then Ok None else Err err, s')
      | (Panic, s') \<Rightarrow> (Panic, s')
      | (Diverge, s') \<Rightarrow> (Diverge, s'))"

definition is_dot_name :: "DirEntryName \<Rightarrow> bool" where
  "is_dot_name name \<longleftrightarrow> DirEntryName_eq name [0x2e] \<or> DirEntryName_eq name [0x2e, 0x2e]"

definition PATH_ROOT :: Path where
  "PATH_ROOT = [SEPARATOR]"

section \<open>Recursion into directories\<close>

primrec to_depth :: "((Path \<Rightarrow> 'r) \<Rightarrow> Path \<Rightarrow> 'r) \<Rightarrow> 'r \<Rightarrow> nat \<Rightarrow> Path \<Rightarrow> 'r" where
  "to_depth level out_of_depth 0 path = out_of_depth"
| "to_depth level out_of_depth (Suc depth) path = level (to_depth level out_of_depth depth) path"

definition descend :: "((Path \<Rightarrow> 'r) \<Rightarrow> Path \<Rightarrow> 'r) \<Rightarrow> 'r \<Rightarrow> Path \<Rightarrow> 'r" where
  "descend level out_of_depth path = to_depth level out_of_depth (MAX_PATH_LEN + 2) path"

locale descent =
  fixes level :: "(Path \<Rightarrow> 'r) \<Rightarrow> Path \<Rightarrow> 'r"
  assumes level_cong:
    "(\<And>q. length path \<le> MAX_PATH_LEN \<Longrightarrow> length path < length q \<Longrightarrow> rec1 q = rec2 q) \<Longrightarrow> level rec1 path = level rec2 path"
begin

lemma to_depth_enough:
  "MAX_PATH_LEN < n + length path \<Longrightarrow> MAX_PATH_LEN < m + length path \<Longrightarrow>
   to_depth level x (Suc n) path = to_depth level y (Suc m) path"
proof (induction n arbitrary: m path)
  case 0
  then show ?case by (simp only: to_depth.simps) (rule level_cong, simp)
next
  case (Suc n)
  have "to_depth level x (Suc n) q = to_depth level y m q" if l: "length path \<le> MAX_PATH_LEN" "length path < length q" for q
  proof -
    obtain m' where "m = Suc m'" using Suc.prems(2) l(1) by (cases m) simp_all
    with Suc.IH[of q m'] Suc.prems l(2) show ?thesis by simp
  qed
  then show ?case
    unfolding to_depth.simps(2)[of level x "Suc n"] to_depth.simps(2)[of level y m] by (rule level_cong)
qed

lemma descend_enough: "to_depth level x (n + MAX_PATH_LEN + 2) path = descend level x path"
  using to_depth_enough[of "n + MAX_PATH_LEN + 1" path "MAX_PATH_LEN + 1" x x] by (simp add: descend_def)

lemma descend_unfold: "descend level x path = level (descend level x) path"
proof -
  have "to_depth level x (MAX_PATH_LEN + 1) q = to_depth level x (MAX_PATH_LEN + 2) q" if "length path < length q" for q
    using to_depth_enough[of MAX_PATH_LEN q "MAX_PATH_LEN + 1" x x] that by (cases q) simp_all
  then have "level (to_depth level x (MAX_PATH_LEN + 1)) path = level (descend level x) path"
    by (intro level_cong) (simp add: descend_def)
  then show ?thesis by (simp add: descend_def)
qed

end

section \<open>The entries of an iterator lie under its path\<close>

abbreviation same_path :: "ReadDir \<times> Ext4 \<Rightarrow> ReadDir \<times> Ext4 \<Rightarrow> bool" where
  "same_path s s' \<equiv> rd_path (fst s') = rd_path (fst s)"

interpretation rdev: evolution same_path
  by unfold_locales simp_all

lemma keeps_same_path [keeps_intros]:
  "keeps same_path (gets_fst g)" "keeps same_path (on_snd m)"
  "(\<And>it. rd_path (f it) = rd_path it) \<Longrightarrow> keeps same_path (modify_fst f)"
  "(\<And>x it. rd_path (put x it) = rd_path it) \<Longrightarrow> keeps same_path (on_field get put m')"
  by (auto simp: keeps_def gets_fst_def on_snd_def modify_fst_def on_field_def split: prod.splits)

lemma ReadDir_block_index_path: "keeps same_path ReadDir_block_index"
  unfolding ReadDir_block_index_def by (intro keeps_intros) simp_all

lemma ReadDir_next_impl_path: "keeps same_path ReadDir_next_impl"
  unfolding ReadDir_next_impl_def by (intro keeps_intros ReadDir_block_index_path) simp_all

lemma ReadDir_next_path: "keeps same_path ReadDir_next"
  unfolding ReadDir_next_def by (intro keeps_intros ReadDir_next_impl_path) simp

text \<open>An entry lies in the directory with the path \<open>path\<close>.\<close>

definition entry_under :: "PathBuf \<Rightarrow> DirEntry \<Rightarrow> bool" where
  "entry_under path e \<longleftrightarrow> de_path e = path \<and> entry_ok e"

lemma parsed_entry_under: "DirEntry_from_bytes bs inode path = Ok (Some e, n) \<Longrightarrow> entry_under path e"
  using DirEntry_from_bytes_holds[of bs inode path] by (simp add: entry_under_def)

lemma ReadDir_next_impl_entry:
  assumes "ReadDir_next_impl (it, fs) = (Ok (Some e), s')"
  shows "entry_under (rd_path it) e"
proof -
  obtain r it1 fs1 where b: "ReadDir_block_index (it, fs) = (r, (it1, fs1))" by (metis surj_pair)
  from keepsD[OF ReadDir_block_index_path b] have p: "rd_path it1 = rd_path it" by simp
  show ?thesis
    using assms b p
    by (auto simp: ReadDir_next_impl_def comp_defs split: outcome.splits option.splits prod.splits if_splits
        dest: parsed_entry_under)
qed

lemma ReadDir_next_entry:
  assumes "ReadDir_next (it, fs) = (Ok (Some e), s')"
  shows "entry_under (rd_path it) e"
proof -
  have "\<forall>e. fst y = Ok (Some e) \<longrightarrow> entry_under (rd_path (fst s)) e"
    if "result_iter_loop (\<lambda>s. rd_is_done (fst s)) (\<lambda>s. ((fst s)\<lparr>rd_is_done := True\<rparr>, snd s)) ReadDir_next_impl s = Some y" for s y
    using that
  proof (induction rule: iter_loop_induct)
    case (stop s r s')
    then show ?case using ReadDir_next_impl_entry[of "fst s" "snd s"] by auto
  next
    case (again s s' y)
    then show ?case using keepsD[OF ReadDir_next_impl_path again(2)] by simp
  qed simp
  with assms show ?thesis by (auto simp: ReadDir_next_def result_iter_next_def split: option.splits)
qed

lemma read_dir_path:
  assumes "Ext4_read_dir path fs = (Ok it, fs')"
  shows "rd_path it = path" and "length path \<le> MAX_PATH_LEN"
proof -
  obtain v fs1 where r: "resolve_path path All fs = (Ok v, fs1)" and n: "ReadDir_new fs1 (fst v) path = Ok it"
    using assms by (auto simp: Ext4_read_dir_def path_to_inode_def path_arg_Ok comp_defs split: outcome.splits prod.splits)
  from n show "rd_path it = path"
    by (auto simp: ReadDir_new_def Let_def)
  from r show "length path \<le> MAX_PATH_LEN"
    by (rule contrapos_pp) (simp add: resolve_path_def comp_defs)
qed

definition child_path :: "PathBuf \<Rightarrow> DirEntryName \<Rightarrow> PathBuf" where
  "child_path path name = (if path = [] \<or> last path = SEPARATOR then path @ name else path @ SEPARATOR # name)"

lemma entry_under_path:
  assumes "entry_under path e"
  obtains n where "DirEntry_file_name e = Ok n" "DirEntry_path e = Ok (child_path path n)" "n \<noteq> []" "DirEntryName_try_from n = Ok n"
proof -
  from assms obtain n where n: "DirEntryName_try_from n = Ok n" "DirEntryNameBuf_try_from n = Ok (de_name e)" "de_path e = path"
    by (auto simp: entry_under_def entry_ok_def)
  from name_buf_roundtrip[OF n(2)] have b: "DirEntryNameBuf_as_bytes (de_name e) = Ok n" by simp
  from n(1) have v: "n \<noteq> []" "0 \<notin> set n" "SEPARATOR \<notin> set n" "length n \<le> 255"
    by (auto simp: DirEntryName_try_from_def MAX_LEN_def split: if_splits)
  have "valid_path n" using v by (simp add: valid_path_def split_sep_none)
  moreover have "\<not> Path_is_absolute n" using v by (cases n) (auto simp: Path_is_absolute_def)
  ultimately have "PathBuf_join path n = Ok (child_path path n)"
    using v(4) by (simp add: PathBuf_join_def PathBuf_push_def Path_try_from_valid child_path_def Let_def usize_add_def usize_max_def
        del: bind_o_eq_Ok)
  with b n v that show ?thesis by (simp add: DirEntry_file_name_def DirEntry_path_def)
qed

lemma child_path_longer: "n \<noteq> [] \<Longrightarrow> length path < length (child_path path n)"
  by (simp add: child_path_def)

lemma for_in_entries_cong:
  assumes "rd_path it = path" and "\<And>e. entry_under path e \<Longrightarrow> body1 e = body2 e"
  shows "for_in ReadDir_next it body1 = for_in ReadDir_next it body2"
proof (rule ext)
  fix s :: "'a \<times> Ext4"
  let ?I = "\<lambda>s :: (ReadDir \<times> 'a) \<times> Ext4. rd_path (fst (fst s)) = path"
  have step: "for_step ReadDir_next body1 s = for_step ReadDir_next body2 s \<and>
      (\<forall>s'. for_step ReadDir_next body2 s = (Ok None, s') \<longrightarrow> ?I s')" if I: "?I s" for s
  proof -
    obtain i c fs where s: "s = ((i, c), fs)" by (metis surj_pair)
    obtain r i' fs' where n: "ReadDir_next (i, fs) = (r, (i', fs'))" by (metis surj_pair)
    have path: "rd_path i' = path" using keepsD[OF ReadDir_next_path n] I s by simp
    have under: "entry_under path e" if "r = Ok (Some e)" for e
      using ReadDir_next_entry n that I s by fastforce
    note step = for_step_run[of ReadDir_next i fs r i' fs', OF n, of _ c, folded s]
    have rest: "rd_path (fst (fst s')) = rd_path i'"
      if "bindc (on_rest m) (\<lambda>_. ret None) ((i', c), fs') = (q, s')" for m :: "('a \<times> Ext4, unit, Ext4Error) comp" and q s'
      using that by (auto simp: bindc_def on_field_def ret_def split: outcome.splits prod.splits)
    show ?thesis
    proof (cases "\<exists>e. r = Ok (Some e)")
      case True
      then obtain e where e: "r = Ok (Some e)" by blast
      have "for_step ReadDir_next body s = bindc (on_rest (body e)) (\<lambda>_. ret None) ((i', c), fs')" for body
        using step[of body] e by simp
      with assms(2)[OF under[OF e]] rest[of "body2 e"] path
      show ?thesis by fastforce
    next
      case False
      have "for_step ReadDir_next body s = (case r of Ok None \<Rightarrow> Ok (Some ()) | Err e \<Rightarrow> Err e | Panic \<Rightarrow> Panic | _ \<Rightarrow> Diverge,
          ((i', c), fs'))" for body
        using step[of body] False by (cases r) (simp_all split: option.splits)
      with False path show ?thesis by simp
    qed
  qed
  have "loop_until (for_step ReadDir_next body1) ((it, fst s), snd s) = loop_until (for_step ReadDir_next body2) ((it, fst s), snd s)"
  proof (rule loop_until_cong[of ?I])
    show "?I ((it, fst s), snd s)" by (simp add: assms(1))
    show "for_step ReadDir_next body1 s = for_step ReadDir_next body2 s" if "?I s" for s using step[OF that] ..
    show "?I s'" if "?I s" "for_step ReadDir_next body2 s = (Ok None, s')" for s s' using step[OF that(1)] that(2) by blast
  qed
  then show "for_in ReadDir_next it body1 s = for_in ReadDir_next it body2 s" by (simp add: for_in_def with_local_def)
qed

text \<open>A loop over the entries of a directory, which only matters where the path is not too long.\<close>

lemma read_dir_loop_cong:
  assumes "\<And>e. length path \<le> MAX_PATH_LEN \<Longrightarrow> entry_under path e \<Longrightarrow> body1 e = body2 e"
  shows "bindc (unless_encrypted (on_snd (Ext4_read_dir path))) (\<lambda>it. case it of None \<Rightarrow> k | Some it \<Rightarrow> for_in ReadDir_next it body1) =
     bindc (unless_encrypted (on_snd (Ext4_read_dir path))) (\<lambda>it. case it of None \<Rightarrow> k | Some it \<Rightarrow> for_in ReadDir_next it body2)"
proof (rule ext)
  fix s :: "'a \<times> Ext4"
  obtain r fs' where d: "Ext4_read_dir path (snd s) = (r, fs')" by (metis surj_pair)
  show "bindc (unless_encrypted (on_snd (Ext4_read_dir path))) (\<lambda>it. case it of None \<Rightarrow> k | Some it \<Rightarrow> for_in ReadDir_next it body1) s =
     bindc (unless_encrypted (on_snd (Ext4_read_dir path))) (\<lambda>it. case it of None \<Rightarrow> k | Some it \<Rightarrow> for_in ReadDir_next it body2) s"
  proof (cases r)
    case (Ok it)
    note p = read_dir_path[OF d[unfolded Ok]]
    have "for_in ReadDir_next it body1 = for_in ReadDir_next it body2"
      by (rule for_in_entries_cong[OF p(1)]) (rule assms[OF p(2)])
    with d Ok show ?thesis by (simp add: bindc_def unless_encrypted_def on_snd_def)
  qed (use d in \<open>simp_all add: bindc_def unless_encrypted_def on_snd_def\<close>)
qed

section \<open>The tree of a file system\<close>

text \<open>
  The tree under a path, as the structures on the device have it: the entries of a directory in the order of its
  blocks, without \<^verbatim>\<open>.\<close> and \<^verbatim>\<open>..\<close>, the bytes of files and the targets of links, each with its
  metadata. The entry of a child has the type of the child, and its inode is the one that the path leads to. The
  content of an encrypted directory is not part of the tree; special files have no place in it.
\<close>

datatype Tree =
    RegularFile Metadata bytes
  | SymbolicLink Metadata PathBuf
  | Folder Metadata "(DirEntryName \<times> Tree) list"
  | LockedFolder Metadata

lemma child_smaller [termination_simp]: "c \<in> set cs \<Longrightarrow> size (snd c) < size (Folder m cs)"
  by (induction cs) (auto simp: size_prod_simp)

fun tree_type :: "Tree \<Rightarrow> FileType" where
  "tree_type (RegularFile _ _) = Regular"
| "tree_type (SymbolicLink _ _) = Symlink"
| "tree_type (Folder _ _) = Directory"
| "tree_type (LockedFolder _) = Directory"

fun tree_metadata :: "Tree \<Rightarrow> Metadata" where
  "tree_metadata (RegularFile m _) = m"
| "tree_metadata (SymbolicLink m _) = m"
| "tree_metadata (Folder m _) = m"
| "tree_metadata (LockedFolder m) = m"

definition not_dots :: "DirEntry \<Rightarrow> bool" where
  "not_dots e \<longleftrightarrow> (case DirEntry_file_name e of Ok n \<Rightarrow> \<not> is_dot_name n | _ \<Rightarrow> True)"

definition names_child :: "Ext4 \<Rightarrow> DirEntry \<Rightarrow> DirEntryName \<times> Tree \<Rightarrow> bool" where
  "names_child fs e c \<longleftrightarrow> DirEntry_file_name e = Ok (fst c) \<and> de_file_type e = tree_type (snd c) \<and>
     fst (DirEntry_metadata e fs) = Ok (tree_metadata (snd c)) \<and>
     md_file_type (tree_metadata (snd c)) = tree_type (snd c)"

inductive has_tree :: "(nat \<Rightarrow> u8) \<Rightarrow> Ext4 \<Rightarrow> PathBuf \<Rightarrow> Tree \<Rightarrow> bool" for disk fs where
  regular: "inode_at fs path All = Ok (inode, p) \<Longrightarrow> md_file_type (in_metadata inode) = Regular \<Longrightarrow>
    inode_blocks disk fs inode bs \<Longrightarrow> list_all (data_block fs) bs \<Longrightarrow>
    content = file_content disk fs bs (unat (md_size_in_bytes (in_metadata inode))) \<Longrightarrow>
    has_tree disk fs path (RegularFile (in_metadata inode) content)"
| link: "inode_at fs path ExcludeFinalComponent = Ok (inode, p) \<Longrightarrow> fst (symlink_target inode fs) = Ok target \<Longrightarrow>
    has_tree disk fs path (SymbolicLink (in_metadata inode) target)"
| folder: "inode_at fs path All = Ok (inode, p) \<Longrightarrow> inode_at fs path ExcludeFinalComponent = Ok (inode, p) \<Longrightarrow>
    Metadata_is_dir (in_metadata inode) \<Longrightarrow> dir_ok disk fs inode bs \<Longrightarrow>
    blocks_entries disk fs inode path True bs None = (es, None) \<Longrightarrow>
    list_all2 (\<lambda>e c. names_child fs e c \<and> has_tree disk fs (child_path path (fst c)) (snd c)) (filter not_dots es) cs \<Longrightarrow>
    has_tree disk fs path (Folder (in_metadata inode) cs)"
| locked: "inode_at fs path All = Ok (inode, p) \<Longrightarrow> inode_at fs path ExcludeFinalComponent = Ok (inode, p) \<Longrightarrow>
    Metadata_is_dir (in_metadata inode) \<Longrightarrow> contains (in_flags inode) DIRECTORY_ENCRYPTED \<Longrightarrow>
    has_tree disk fs path (LockedFolder (in_metadata inode))"

section \<open>What the operations do on a tree\<close>

lemma scan_entries_under: "\<forall>e \<in> set (fst (scan_entries inode path block off)). entry_under path e"
proof (induction inode path block off rule: scan_entries.induct)
  case (1 inode path block off)
  show ?case
  proof (cases "length block \<le> off")
    case True
    then show ?thesis by (simp add: scan_end)
  next
    case False
    then show ?thesis
      using 1 scan_step[of off block inode path] parsed_entry_under[of "drop off block" inode path]
      by (auto simp: out_append_def split: outcome.splits option.splits prod.splits)
  qed
qed

lemma blocks_entries_under: "\<forall>e \<in> set (fst (blocks_entries disk fs inode path first bs r)). entry_under path e"
  using scan_entries_under
  by (induction bs arbitrary: first) (auto simp: block_entries_def out_append_def split: option.splits outcome.splits)

lemma runs_read_dir:
  assumes "fs_ok disk fs" and "fs_tame fs" and "inode_at fs path All = Ok (inode, p)"
    and "Metadata_is_dir (in_metadata inode)" and "dir_ok disk fs inode bs"
  obtains it where "runs disk fs (unless_encrypted (on_snd (Ext4_read_dir path))) c (Ok (Some it)) c"
    "iter_seq disk fs ReadDir_next it (blocks_entries disk fs inode path True bs None)"
proof -
  have dc: "device_complete fs" using assms(2) by (simp add: fs_tame_def)
  obtain it where it: "ReadDir_new fs inode path = Ok it"
    "\<And>fs'. good disk fs fs' \<Longrightarrow> outputs ReadDir_next (it, fs') (blocks_entries disk fs inode path True bs None)"
    using ReadDir_new_outputs[OF dc good_refl[OF assms(1)] assms(5), of path] by blast
  obtain fs1 where "Ext4_read_dir path fs = (bind_o (require (Metadata_is_dir (in_metadata inode)) NotADirectory)
      (\<lambda>_. ReadDir_new fs inode path), fs1)"
    by (rule Ext4_read_dir_run[OF assms(1-3)])
  with it(1) assms(4) have "fst (Ext4_read_dir path fs) = Ok it" by (simp add: require_def)
  with runs_stable[OF stable_read_dir[OF assms(2)] assms(1), of path c]
  have "runs disk fs (unless_encrypted (on_snd (Ext4_read_dir path))) c (Ok (Some it)) c"
    unfolding runs_def unless_encrypted_def by fastforce
  with it(2) that show ?thesis by (simp add: iter_seq_def)
qed

lemma runs_read_dir_locked:
  assumes "fs_ok disk fs" and "fs_tame fs" and "inode_at fs path All = Ok (inode, p)"
    and "Metadata_is_dir (in_metadata inode)" and "contains (in_flags inode) DIRECTORY_ENCRYPTED"
  shows "runs disk fs (unless_encrypted (on_snd (Ext4_read_dir path))) c (Ok None) c"
proof -
  obtain fs1 where "Ext4_read_dir path fs = (bind_o (require (Metadata_is_dir (in_metadata inode)) NotADirectory)
      (\<lambda>_. ReadDir_new fs inode path), fs1)"
    by (rule Ext4_read_dir_run[OF assms(1-3)])
  with assms(4,5) have "fst (Ext4_read_dir path fs) = Err Encrypted" by (simp add: require_def ReadDir_new_def)
  with runs_stable[OF stable_read_dir[OF assms(2)] assms(1), of path c] show ?thesis
    unfolding runs_def unless_encrypted_def by fastforce
qed

lemma runs_read_link:
  assumes "fs_ok disk fs" and "fs_tame fs" and "inode_at fs path ExcludeFinalComponent = Ok (inode, p)"
    and "fst (symlink_target inode fs) = Ok target"
  shows "runs disk fs (on_snd (Ext4_read_link path)) c (Ok target) c"
  using runs_stable[OF stable_api(5)[OF assms(2)] assms(1), of path c] path_operations_spec[OF assms(1,2), of path] assms(3,4)
  by (simp add: fs_world_sel)

text \<open>A loop over the entries of a folder, whose body does nothing on the entries \<^verbatim>\<open>.\<close> and
  \<^verbatim>\<open>..\<close> and takes the state to \<open>f c\<close> on the entry of the child \<open>c\<close>.\<close>

lemma runs_folder:
  assumes ok: "fs_ok disk fs" "fs_tame fs" and i: "inode_at fs path All = Ok (inode, p)" "Metadata_is_dir (in_metadata inode)"
    and d: "dir_ok disk fs inode bs" "blocks_entries disk fs inode path True bs None = (es, None)"
    and cs: "list_all2 Q (filter not_dots es) cs"
    and dots: "\<And>e h. entry_under path e \<Longrightarrow> \<not> not_dots e \<Longrightarrow> runs disk fs (body e) h (Ok ()) h"
    and child: "\<And>e c h. entry_under path e \<Longrightarrow> not_dots e \<Longrightarrow> Q e c \<Longrightarrow> runs disk fs (body e) h (Ok ()) (f c h)"
  shows "runs disk fs (bindc (unless_encrypted (on_snd (Ext4_read_dir path))) (\<lambda>it.
     case it of None \<Rightarrow> k | Some it \<Rightarrow> for_in ReadDir_next it body)) h (Ok ()) (fold f cs h)"
proof -
  obtain it where it: "runs disk fs (unless_encrypted (on_snd (Ext4_read_dir path))) h (Ok (Some it)) h"
    "iter_seq disk fs ReadDir_next it (es, None)"
    using runs_read_dir[OF ok i d(1), of h] d(2) by metis
  have under: "\<forall>e \<in> set es. entry_under path e"
    using blocks_entries_under[of disk fs inode path True bs None] d(2) by simp
  have "chain (\<lambda>e h h'. runs disk fs (body e) h (Ok ()) h') (filter not_dots es) h (fold f cs h)"
    using cs by (rule chain_list_all2) (simp add: child under)
  then have "chain (\<lambda>e h h'. runs disk fs (body e) h (Ok ()) h') es h (fold f cs h)"
    by (rule chain_filter[rotated]) (simp add: dots under)
  from runs_for_in[OF _ ok(1) it(2) this] tame_blind(3)[OF ok(2)] show ?thesis
    by (intro runs_bind[OF it(1)]) simp
qed

lemma runs_locked:
  assumes "fs_ok disk fs" and "fs_tame fs" and "inode_at fs path All = Ok (inode, p)"
    and "Metadata_is_dir (in_metadata inode)" and "contains (in_flags inode) DIRECTORY_ENCRYPTED"
    and "runs disk fs k h r h'"
  shows "runs disk fs (bindc (unless_encrypted (on_snd (Ext4_read_dir path))) (\<lambda>it.
     case it of None \<Rightarrow> k | Some it \<Rightarrow> for_in ReadDir_next it body)) h r h'"
  by (rule runs_bind[OF runs_read_dir_locked[OF assms(1-5)]]) (simp add: assms(6))

section \<open>The tree of the sample image\<close>

text \<open>The path of the directory is all that a parsed entry has from it.\<close>

lemma DirEntry_from_bytes_at:
  "DirEntry_from_bytes bs inode path =
     bind_o (DirEntry_from_bytes bs inode []) (\<lambda>(e, n). Ok (map_option (\<lambda>e. e\<lparr>de_path := path\<rparr>) e, n))"
  by (simp add: DirEntry_from_bytes_def Let_def bind_o_assoc option.case_distrib[of "\<lambda>r. bind_o r _"] del: bind_o_eq_Ok cong: option.case_cong)

lemma scan_entries_at:
  "scan_entries inode path block off = apfst (map (\<lambda>e. e\<lparr>de_path := path\<rparr>)) (scan_entries inode [] block off)"
proof (induction inode path block off rule: scan_entries.induct)
  case (1 inode path block off)
  show ?case
  proof (cases "length block \<le> off")
    case True
    then show ?thesis by (simp add: scan_end)
  next
    case False
    then show ?thesis
      using 1 scan_step[of off block inode path] scan_step[of off block inode "[]"] DirEntry_from_bytes_at[of "drop off block" inode path]
      by (auto simp: out_append_def split: outcome.splits option.splits prod.splits)
  qed
qed

abbreviation sample_tree :: Tree where
  "sample_tree \<equiv> Folder (in_metadata tree_root) [([0x66], RegularFile (in_metadata file_inode) [2, 0, 0, 0, 12])]"

lemma sample_root_at: "inode_at (sample_fs file_image) PATH_ROOT follow = Ok (tree_root, PATH_ROOT)"
proof -
  have "names PATH_ROOT = []" "path_arg PATH_ROOT = Ok PATH_ROOT" "render [] False = PATH_ROOT" by code_simp+
  with root_read[OF file_image_parts(6,1)] show ?thesis
    by (simp add: inode_at_def resolve_names_def fs_world_sel Path_is_absolute_def MAX_PATH_LEN_def walk_loop.simps PATH_ROOT_def)
qed

lemma sample_has_tree: "has_tree (disk_of file_image) (sample_fs file_image) PATH_ROOT sample_tree"
proof (rule has_tree.folder[OF sample_root_at sample_root_at tree_root_is_dir])
  let ?at = "\<lambda>e. e\<lparr>de_path := PATH_ROOT\<rparr>" and ?fs = "sample_fs file_image"
  show "dir_ok (disk_of file_image) ?fs tree_root [7, 8, 9]" using file_root_searchable by (simp add: searchable_def)
  show "blocks_entries (disk_of file_image) ?fs tree_root PATH_ROOT True [7, 8, 9] None =
      (map ?at [entry_of 2 Directory [0x2e], entry_of 2 Directory [0x2e, 0x2e], entry_of 3 Regular [0x66]], None)"
    using scan_entries_at[of _ PATH_ROOT file_root_block 0]
    by (simp add: block_entries_def file_blocks_read file_root_entries unused_block_entries)
  have n: "DirEntryName_try_from [0x66] = Ok [0x66]" "DirEntryName_try_from [0x2e] = Ok [0x2e]"
    "DirEntryName_try_from [0x2e, 0x2e] = Ok [0x2e, 0x2e]" by code_simp+
  have name: "DirEntry_file_name (?at (entry_of k t x)) = DirEntry_file_name (entry_of k t x)" for k t x
    by (simp add: DirEntry_file_name_def)
  have "fst (Inode_read 3 ?fs) = Ok file_inode"
    using Inode_read_computes[OF _ _ good_refl[OF sample_fs_ok], of file_image 3] sample_fs_tame[OF file_image_parts(6)] file_inode_3
    by (simp add: fs_tame_def computes_def)
  then have "names_child ?fs (?at (entry_of 3 Regular [0x66])) ([0x66], RegularFile (in_metadata file_inode) [2, 0, 0, 0, 12])"
    using entry_name[OF n(1)] name
    by (auto simp: names_child_def DirEntry_metadata_def entry_of_def comp_defs file_inode_def split: prod.split)
  moreover have "has_tree (disk_of file_image) ?fs [0x2f, 0x66] (RegularFile (in_metadata file_inode) [2, 0, 0, 0, 12])"
    by (rule has_tree.regular[OF file_inode_at _ file_inode_blocks])
      (simp_all only: file_inode_content, simp_all add: file_inode_def data_block_def sample_superblock_def)
  moreover have "child_path PATH_ROOT [0x66] = [0x2f, 0x66]" by code_simp
  moreover have "filter not_dots (map ?at [entry_of 2 Directory [0x2e], entry_of 2 Directory [0x2e, 0x2e], entry_of 3 Regular [0x66]]) =
      [?at (entry_of 3 Regular [0x66])]"
    using entry_name[OF n(1)] entry_name[OF n(2)] entry_name[OF n(3)] name
    by (simp add: not_dots_def is_dot_name_def DirEntryName_eq_def)
  ultimately show "list_all2 (\<lambda>e c. names_child ?fs e c \<and> has_tree (disk_of file_image) ?fs (child_path PATH_ROOT (fst c)) (snd c))
      (filter not_dots (map ?at [entry_of 2 Directory [0x2e], entry_of 2 Directory [0x2e, 0x2e], entry_of 3 Regular [0x66]]))
      [([0x66], RegularFile (in_metadata file_inode) [2, 0, 0, 0, 12])]"
    by simp
qed

end
