(* ===== verification/Tree_Walk.thy ===== *)
theory Tree_Walk
  imports Descent
begin

text \<open>
  The walk over a whole file system of the benchmarks (\<^verbatim>\<open>src/xtask/src/bench/walk.rs\<close>, also compiled into the UEFI
  application): it recurses into every directory, and feeds the path of every entry, the targets of symbolic links and
  the contents of files to a hash. The hasher is the crate \<^verbatim>\<open>sha2\<close>: its \<open>update\<close> and its final digest are parameters.
\<close>

section \<open>The program\<close>

definition hash_round :: "('h \<Rightarrow> bytes \<Rightarrow> 'h) \<Rightarrow> ((File \<times> 'h) \<times> Ext4, unit option, Ext4Error) comp" where
  "hash_round update =
     bindc (on_local (read_bytes 4096)) (\<lambda>chunk.
     if length chunk = 0 then ret (Some ())
     else bindc (on_rest (modify_fst (\<lambda>hash. update hash chunk))) (\<lambda>_. ret None))"

definition hash_file :: "('h \<Rightarrow> bytes \<Rightarrow> 'h) \<Rightarrow> File \<Rightarrow> ('h \<times> Ext4, unit, Ext4Error) comp" where
  "hash_file update file = with_local file (loop_until (hash_round update))"

definition walk_entry :: "('h \<Rightarrow> bytes \<Rightarrow> 'h) \<Rightarrow> (Path \<Rightarrow> ('h \<times> Ext4, unit, Ext4Error) comp) \<Rightarrow> DirEntry \<Rightarrow>
    ('h \<times> Ext4, unit, Ext4Error) comp" where
  "walk_entry update walk_rec entry =
     bindc (lift (DirEntry_path entry)) (\<lambda>path.
     bindc (lift (DirEntry_file_name entry)) (\<lambda>name.
     if is_dot_name name then ret ()
     else
       bindc (modify_fst (\<lambda>hash. update hash path)) (\<lambda>_.
       bindc (lift (DirEntry_get_file_type entry)) (\<lambda>file_type.
       if is_symlink file_type then
         bindc (on_snd (Ext4_read_link path)) (\<lambda>target. modify_fst (\<lambda>hash. update hash target))
       else if is_dir file_type then walk_rec path
       else bindc (on_snd (Ext4_open path)) (hash_file update)))))"

definition walk_dir :: "('h \<Rightarrow> bytes \<Rightarrow> 'h) \<Rightarrow> (Path \<Rightarrow> ('h \<times> Ext4, unit, Ext4Error) comp) \<Rightarrow> Path \<Rightarrow>
    ('h \<times> Ext4, unit, Ext4Error) comp" where
  "walk_dir update walk_rec path =
     bindc (unless_encrypted (on_snd (Ext4_read_dir path))) (\<lambda>entry_iter.
     case entry_iter of
       None \<Rightarrow> ret ()
     | Some entry_iter \<Rightarrow> for_in ReadDir_next entry_iter (walk_entry update walk_rec))"

definition walk_impl :: "('h \<Rightarrow> bytes \<Rightarrow> 'h) \<Rightarrow> Path \<Rightarrow> ('h \<times> Ext4, unit, Ext4Error) comp" where
  "walk_impl update path = descend (walk_dir update) (lift Diverge) path"

definition walk_fs :: "'h \<Rightarrow> ('h \<Rightarrow> bytes \<Rightarrow> 'h) \<Rightarrow> ('h \<Rightarrow> bytes) \<Rightarrow> bytes fs_op" where
  "walk_fs new update digest = bindc (building new (walk_impl update PATH_ROOT)) (\<lambda>hash. ret (digest hash))"

subsection \<open>The benchmarks\<close>

text \<open>The statistics that \<open>bench_impl\<close> prints (\<^verbatim>\<open>src/xtask/src/bench.rs\<close>): the shortest, the longest and the median of the durations
  of all iterations.\<close>

definition bench_stats :: "'d :: linorder list \<Rightarrow> ('d \<times> 'd \<times> 'd, 'e) outcome" where
  "bench_stats durations =
     (let durations = sort durations in
      bind_o (index_at durations 0) (\<lambda>min.
      bind_o (unwrap (if durations = [] then None else Some (last durations))) (\<lambda>max.
      bind_o (index_at durations (length durations div 2)) (\<lambda>median.
      Ok (min, max, median)))))"

text \<open>The application that runs in the virtual machine (\<^verbatim>\<open>src/xtask/uefibench/src/main.rs\<close>): it takes the first disk that can be opened and
  has a file system on it, prints its digest and shuts down. Opening a disk of the firmware is a parameter:
  \<open>media_id\<close> and \<open>open_disk\<close> are the results of the two protocols.\<close>

fun uefi_main :: "crc_fn \<Rightarrow> ('d \<Rightarrow> 'm option) \<Rightarrow> ('d \<Rightarrow> 'm \<Rightarrow> Ext4Read option) \<Rightarrow> 'h \<Rightarrow> ('h \<Rightarrow> bytes \<Rightarrow> 'h) \<Rightarrow> ('h \<Rightarrow> bytes) \<Rightarrow>
    'd list \<Rightarrow> bytes result" where
  "uefi_main crc media_id open_disk new update digest [] = Panic"
| "uefi_main crc media_id open_disk new update digest (handle # handles) =
     (case media_id handle of
        None \<Rightarrow> uefi_main crc media_id open_disk new update digest handles
      | Some m \<Rightarrow>
          (case open_disk handle m of
             None \<Rightarrow> uefi_main crc media_id open_disk new update digest handles
           | Some io \<Rightarrow>
               (case Ext4_load crc io of
                  Ok fs \<Rightarrow> unwrap_res (fst (walk_fs new update digest fs))
                | Err _ \<Rightarrow> uefi_main crc media_id open_disk new update digest handles
                | Panic \<Rightarrow> Panic
                | Diverge \<Rightarrow> Diverge)))"

lemma bench_stats_spec:
  "bench_stats ds = (if ds = [] then Panic else Ok (Min (set ds), Max (set ds), sort ds ! (length ds div 2)))"
proof (cases "ds = []")
  case False
  then have l: "sort ds \<noteq> []" by (metis set_empty set_sort)
  then obtain x xs where x: "sort ds = x # xs" by (cases "sort ds") auto
  from l obtain y ys where y: "sort ds = ys @ [y]" by (cases "sort ds" rule: rev_cases) auto
  have "sort ds ! 0 = Min (set ds)"
    using sorted_sort[where xs = ds] set_sort[where xs = ds and f = "\<lambda>x. x"] unfolding x by (intro Min_eqI[symmetric]) auto
  moreover have "last (sort ds) = Max (set ds)"
    using sorted_sort[where xs = ds] set_sort[where xs = ds and f = "\<lambda>x. x"] unfolding y by (intro Max_eqI[symmetric]) (auto simp: sorted_append)
  moreover have "length ds div 2 < length ds" using False by simp
  ultimately show ?thesis using l False by (simp add: bench_stats_def index_at_def get_at_def Let_def)
qed (simp add: bench_stats_def index_at_def get_at_def)

section \<open>The recursion\<close>

lemma walk_entry_cong:
  assumes "entry_under path e" and "\<And>q. length path < length q \<Longrightarrow> rec1 q = rec2 q"
  shows "walk_entry update rec1 e = walk_entry update rec2 e"
proof -
  obtain n where "DirEntry_file_name e = Ok n" "DirEntry_path e = Ok (child_path path n)" "n \<noteq> []"
    by (rule entry_under_path[OF assms(1)])
  moreover from this have "rec1 (child_path path n) = rec2 (child_path path n)"
    by (intro assms(2) child_path_longer)
  ultimately show ?thesis by (simp only: walk_entry_def bindc_lift_Ok DirEntry_get_file_type_def)
qed

interpretation wdesc: descent "walk_dir update" for update :: "'h \<Rightarrow> bytes \<Rightarrow> 'h"
proof
  fix path :: Path and rec1 rec2 :: "Path \<Rightarrow> ('h \<times> Ext4, unit, Ext4Error) comp"
  assume "\<And>q. length path \<le> MAX_PATH_LEN \<Longrightarrow> length path < length q \<Longrightarrow> rec1 q = rec2 q"
  then show "walk_dir update rec1 path = walk_dir update rec2 path"
    unfolding walk_dir_def by (intro read_dir_loop_cong walk_entry_cong)
qed

lemma walk_impl_unfold: "walk_impl update path = walk_dir update (walk_impl update) path"
  unfolding walk_impl_def[abs_def] by (rule wdesc.descend_unfold)

section \<open>The walk feeds the tree to the hash\<close>

text \<open>What the walk feeds to the hash.\<close>

function (sequential) hashed_bytes :: "PathBuf \<Rightarrow> Tree \<Rightarrow> bytes" where
  "hashed_bytes path (RegularFile _ content) = content"
| "hashed_bytes path (SymbolicLink _ target) = target"
| "hashed_bytes path (Folder _ cs) = concat (map (\<lambda>c. child_path path (fst c) @ hashed_bytes (child_path path (fst c)) (snd c)) cs)"
| "hashed_bytes path (LockedFolder _) = []"
  by pat_completeness auto
termination
  by (relation "measure (\<lambda>(_, t). size t)") (simp_all add: child_smaller del: Tree.size)

definition incremental :: "('h \<Rightarrow> bytes \<Rightarrow> 'h) \<Rightarrow> bool" where
  "incremental update \<longleftrightarrow> (\<forall>h. update h [] = h) \<and> (\<forall>h a b. update (update h a) b = update h (a @ b))"

lemma incremental_fold:
  assumes "incremental update"
  shows "fold (\<lambda>c h. update h (f c)) cs h = update h (concat (map f cs))"
  using assms by (induction cs arbitrary: h) (simp_all add: incremental_def)

lemma runs_hash_file:
  assumes "fs_ok disk fs" and "fs_tame fs" and "incremental update" and "open_file disk fs bs f" and "fl_position f = 0"
  shows "runs disk fs (hash_file update f) h (Ok ()) (update h (open_content disk fs bs f))"
proof -
  have "\<exists>cs f'. concat cs = drop (unat (fl_position f)) (open_content disk fs bs f) \<and>
     runs disk fs (loop_until (hash_round update)) (f, h) (Ok ()) (f', fold (\<lambda>b h. update h b) cs h)"
  proof (rule runs_read_loop[OF assms(2,1) _ assms(4), of 4096])
    show "runs disk fs (hash_round update) (f, h) (Ok (Some ())) (f', h)" if "runs disk fs (read_bytes 4096) f (Ok []) f'" for f f' h
      unfolding hash_round_def by (rule runs_bind[OF runs_local[OF that]]) (simp add: runs_ret)
    show "runs disk fs (hash_round update) (f, h) (Ok None) (f', update h b)"
      if "runs disk fs (read_bytes 4096) f (Ok b) f'" "b \<noteq> []" for f f' h b
      unfolding hash_round_def
      by (rule runs_bind[OF runs_local[OF that(1)]]) (use that(2) in \<open>simp, intro runs_bind[OF runs_rest[OF runs_modify] runs_ret]\<close>)
  qed simp
  then obtain cs f' where "concat cs = open_content disk fs bs f"
    "runs disk fs (loop_until (hash_round update)) (f, h) (Ok ()) (f', fold (\<lambda>b h. update h b) cs h)"
    using assms(5) by auto
  with runs_with_local incremental_fold[OF assms(3), of "\<lambda>b. b" cs h] show ?thesis unfolding hash_file_def by fastforce
qed

lemma runs_walk_dots:
  assumes "entry_under path e" and "\<not> not_dots e"
  shows "runs disk fs (walk_entry update walk_rec e) h (Ok ()) h"
proof -
  obtain n where "DirEntry_file_name e = Ok n" "DirEntry_path e = Ok (child_path path n)"
    by (rule entry_under_path[OF assms(1)])
  with assms(2) show ?thesis by (simp add: walk_entry_def bindc_lift_Ok not_dots_def runs_ret)
qed

text \<open>One entry, where the walk into a directory is known to feed its tree.\<close>

lemma runs_walk_entry:
  assumes ok: "fs_ok disk fs" "fs_tame fs" and inc: "incremental update"
    and e: "entry_under path e" "not_dots e" "names_child fs e c"
    and t: "has_tree disk fs (child_path path (fst c)) (snd c)"
    and walk_rec: "\<And>h. tree_type (snd c) = Directory \<Longrightarrow>
      runs disk fs (walk_rec (child_path path (fst c))) h (Ok ()) (update h (hashed_bytes (child_path path (fst c)) (snd c)))"
  shows "runs disk fs (walk_entry update walk_rec e) h (Ok ())
     (update h (child_path path (fst c) @ hashed_bytes (child_path path (fst c)) (snd c)))"
proof -
  let ?q = "child_path path (fst c)"
  have n: "DirEntry_file_name e = Ok (fst c)" "DirEntry_path e = Ok ?q" "de_file_type e = tree_type (snd c)"
    using e(3) entry_under_path[OF e(1)] by (auto simp: names_child_def)
  have "\<not> is_dot_name (fst c)" using e(2) n(1) by (simp add: not_dots_def)
  then have w: "walk_entry update walk_rec e = bindc (modify_fst (\<lambda>hash. update hash ?q)) (\<lambda>_.
      if tree_type (snd c) = Symlink then bindc (on_snd (Ext4_read_link ?q)) (\<lambda>target. modify_fst (\<lambda>hash. update hash target))
      else if tree_type (snd c) = Directory then walk_rec ?q
      else bindc (on_snd (Ext4_open ?q)) (hash_file update))"
    using n by (simp add: walk_entry_def bindc_lift_Ok DirEntry_get_file_type_def is_symlink_def is_dir_def)
  have a: "update h (?q @ b) = update (update h ?q) b" for b using inc by (simp add: incremental_def)
  show ?thesis
    unfolding w a
  proof (rule runs_bind[OF runs_modify])
    let ?h = "update h ?q"
    from t show "runs disk fs (if tree_type (snd c) = Symlink
        then bindc (on_snd (Ext4_read_link ?q)) (\<lambda>target. modify_fst (\<lambda>hash. update hash target))
        else if tree_type (snd c) = Directory then walk_rec ?q
        else bindc (on_snd (Ext4_open ?q)) (hash_file update)) ?h (Ok ()) (update ?h (hashed_bytes ?q (snd c)))"
    proof cases
      case (regular inode p bs content)
      obtain f where f: "runs disk fs (on_snd (Ext4_open ?q)) ?h (Ok f) ?h" "open_file disk fs bs f" "fl_position f = 0"
        "fl_inode f = inode" by (rule runs_open[OF ok regular(2-5)])
      from runs_bind[OF f(1), of "hash_file update"] runs_hash_file[OF ok inc f(2,3)] regular f(4) show ?thesis by simp
    next
      case (link inode p target)
      have "runs disk fs (bindc (on_snd (Ext4_read_link ?q)) (\<lambda>target. modify_fst (\<lambda>hash. update hash target))) ?h (Ok ()) (update ?h target)"
        by (rule runs_bind[OF runs_read_link[OF ok link(2,3)]]) (rule runs_modify)
      with link(1) show ?thesis by simp
    qed (use walk_rec in \<open>simp_all\<close>)
  qed
qed

lemma walk_feeds_tree:
  assumes ok: "fs_ok disk fs" "fs_tame fs" and inc: "incremental update"
  shows "has_tree disk fs path t \<Longrightarrow> tree_type t = Directory \<Longrightarrow>
     runs disk fs (walk_impl update path) h (Ok ()) (update h (hashed_bytes path t))"
proof (induction arbitrary: h rule: has_tree.induct)
  case (folder path inode p bs es cs)
  have "runs disk fs (walk_impl update path) h (Ok ())
      (fold (\<lambda>c h. update h (child_path path (fst c) @ hashed_bytes (child_path path (fst c)) (snd c))) cs h)"
    unfolding walk_impl_unfold[of update path] walk_dir_def
  proof (rule runs_folder[OF ok folder(1,3-6)])
    show "runs disk fs (walk_entry update (walk_impl update) e) h (Ok ()) h" if "entry_under path e" "\<not> not_dots e" for e h
      using that by (rule runs_walk_dots)
    fix e c h
    assume u: "entry_under path e" "not_dots e" and c: "names_child fs e c \<and> has_tree disk fs (child_path path (fst c)) (snd c) \<and>
      (tree_type (snd c) = Directory \<longrightarrow> (\<forall>h. runs disk fs (walk_impl update (child_path path (fst c))) h (Ok ())
        (update h (hashed_bytes (child_path path (fst c)) (snd c)))))"
    from c show "runs disk fs (walk_entry update (walk_impl update) e) h (Ok ())
        (update h (child_path path (fst c) @ hashed_bytes (child_path path (fst c)) (snd c)))"
      by (elim conjE) (rule runs_walk_entry[OF ok inc u], assumption+, blast)
  qed
  then show ?case by (simp add: incremental_fold[OF inc])
next
  case (locked path inode p)
  from inc have "update h [] = h" by (simp add: incremental_def)
  then show ?case
    unfolding walk_impl_unfold[of update path] walk_dir_def by (intro runs_locked[OF ok locked(1,3,4)]) (simp add: runs_ret)
qed simp_all

section \<open>Properties\<close>

text \<open>C30: The recursion of the walk is bounded on every file system, also one whose directories contain
  each other: a greater bound on the depth changes nothing, and the walk satisfies the recursive
  equation of the source. Every level makes the path longer, and a directory whose path is longer than the limit of
  the library is not opened.\<close>

theorem walk_recursion_bounded:
  "to_depth (walk_dir update) (lift Diverge) (n + MAX_PATH_LEN + 2) path = walk_impl update path \<and>
   walk_impl update path = walk_dir update (walk_impl update) path"
  using wdesc.descend_enough[of update] walk_impl_unfold by (simp add: walk_impl_def[abs_def])

text \<open>C18: Walking a file system reads all of it: if the root has a tree, the walk ends with success, and the digest is that
  of the tree from the root on, in the order of the directory entries: for each entry its path, followed by the
  content of the file, the target of the link, or the entries of the directory; an encrypted directory is skipped.\<close>

theorem walk_hashes_tree:
  assumes "fs_ok disk fs" and "fs_tame fs" and "incremental update"
    and "has_tree disk fs PATH_ROOT t" and "tree_type t = Directory"
  shows "fst (walk_fs new update digest fs) = Ok (digest (update new (hashed_bytes PATH_ROOT t)))"
proof -
  have "runs disk fs (on_snd (building new (walk_impl update PATH_ROOT))) () (Ok (update new (hashed_bytes PATH_ROOT t))) ()"
    by (rule runs_building) (rule walk_feeds_tree[OF assms])
  from runs_fst[OF this assms(1)] show ?thesis
    by (auto simp: walk_fs_def bindc_def on_snd_def ret_def split: prod.splits)
qed

theorem walk_hashes_tree_witness:
  "fst (walk_fs [] (\<lambda>h b. h @ b) (\<lambda>h. h) (sample_fs file_image)) = Ok [0x2f, 0x66, 2, 0, 0, 0, 12]"
proof -
  have "incremental (\<lambda>h b :: bytes. h @ b)" by (simp add: incremental_def)
  moreover have "hashed_bytes PATH_ROOT sample_tree = [0x2f, 0x66, 2, 0, 0, 0, 12]"
    by (simp add: child_path_def PATH_ROOT_def SEPARATOR_def)
  ultimately show ?thesis
    using walk_hashes_tree[OF sample_fs_ok sample_fs_tame[OF file_image_parts(6)] _ sample_has_tree,
      of "\<lambda>h b. h @ b" "[]" "\<lambda>h. h"] by simp
qed

end
