(* ===== verification/Devices.thy ===== *)
theory Devices
  imports Format
begin

text \<open>
  The objects of the developer tools that stand for something of the host that has to be given back: a mounted file
  system (\<^verbatim>\<open>src/xtask/src/mount.rs\<close>), a loop device (\<^verbatim>\<open>src/xtask/src/losetup.rs\<close>) and a device of the device mapper
  (\<^verbatim>\<open>src/xtask/src/dmsetup.rs\<close>), with the functions that run commands (\<^verbatim>\<open>src/xtask/src/lib.rs\<close>).

  What a command does is a parameter: it prints something or fails, depending on the commands that were run before. The
  state of a tool is the list of these commands with their results; calls of the host such as making a directory are
  commands too. Messages on the standard error are left out.
\<close>

section \<open>Commands\<close>

type_synonym cmd = "bytes list"
type_synonym trace = "(cmd \<times> (bytes + string)) list"

text \<open>Standard output of a command that succeeds, or an error.\<close>

type_synonym host_env = "trace \<Rightarrow> cmd \<Rightarrow> bytes + string"

definition capture_cmd :: "host_env \<Rightarrow> cmd \<Rightarrow> (trace, bytes, string) comp" where
  "capture_cmd env cmd t =
     (case env t cmd of
        Inl stdout \<Rightarrow> (Ok stdout, t @ [(cmd, Inl stdout)])
      | Inr e \<Rightarrow> (Err e, t @ [(cmd, Inr e)]))"

definition run_cmd :: "host_env \<Rightarrow> cmd \<Rightarrow> (trace, unit, string) comp" where
  "run_cmd env cmd = bindc (capture_cmd env cmd) (\<lambda>_. ret ())"

definition sudo :: "cmd \<Rightarrow> cmd" where
  "sudo args = ascii ''sudo'' # args"

text \<open>\<open>str::trim\<close>: without the characters with the property \<open>White_Space\<close> at both ends.\<close>

definition is_whitespace :: "bytes \<Rightarrow> bool" where
  "is_whitespace c \<longleftrightarrow> c \<in> set (map encode_utf8 ([9, 10, 11, 12, 13, 32, 0x85, 0xa0, 0x1680] @ [0x2000..<0x200b] @
     [0x2028, 0x2029, 0x202f, 0x205f, 0x3000]))"

definition str_trim :: "bytes \<Rightarrow> bytes" where
  "str_trim s = concat (rev (dropWhile is_whitespace (rev (dropWhile is_whitespace (utf8_chars s)))))"

section \<open>Objects that are given back\<close>

text \<open>
  The three types have the same shape: an optional name, which is \<open>None\<close> once the object is given back. The method
  that does it (\<open>unmount_impl\<close>, \<open>detach_impl\<close>, \<open>remove_impl\<close>) runs a command on the name, if there is one, and clears the
  name if the command succeeds. \<open>drop\<close> calls the method and ignores its error. The public methods
  \<open>unmount\<close>, \<open>detach\<close> and \<open>remove\<close> take the object by value: after the method the object is dropped.
\<close>

type_synonym handle = "bytes option"

definition release_impl :: "host_env \<Rightarrow> (bytes \<Rightarrow> cmd) \<Rightarrow> (handle \<times> trace, unit, string) comp" where
  "release_impl env release =
     bindc (gets_fst (\<lambda>h. h)) (\<lambda>h.
     case h of
       None \<Rightarrow> ret ()
     | Some name \<Rightarrow>
         bindc (on_snd (run_cmd env (release name))) (\<lambda>_.
         modify_fst (\<lambda>_. None)))"

definition drop_handle :: "host_env \<Rightarrow> (bytes \<Rightarrow> cmd) \<Rightarrow> handle \<Rightarrow> trace \<Rightarrow> trace" where
  "drop_handle env release h t = snd (snd (release_impl env release (h, t)))"

definition release_by_value :: "host_env \<Rightarrow> (bytes \<Rightarrow> cmd) \<Rightarrow> handle \<Rightarrow> (trace, unit, string) comp" where
  "release_by_value env release h t =
     (case release_impl env release (h, t) of (r, (h', t')) \<Rightarrow> (r, drop_handle env release h' t'))"

subsection \<open>Mount\<close>

text \<open>\<open>TempDir::new\<close> is a call of the host that returns the path of a new directory.\<close>

definition TEMP_DIR :: cmd where
  "TEMP_DIR = [ascii ''TempDir::new'']"

definition mount_cmd :: "bool \<Rightarrow> bytes \<Rightarrow> bytes \<Rightarrow> cmd" where
  "mount_cmd read_only fs_bin mount_point =
     sudo [ascii ''mount'', ascii ''-o'', ascii (if read_only then ''ro'' else ''rw''), fs_bin, mount_point]"

definition umount_cmd :: "bytes \<Rightarrow> cmd" where
  "umount_cmd mount_point = sudo [ascii ''umount'', mount_point]"

definition Mount_new :: "host_env \<Rightarrow> bytes \<Rightarrow> bool \<Rightarrow> (trace, handle, string) comp" where
  "Mount_new env fs_bin read_only =
     bindc (capture_cmd env TEMP_DIR) (\<lambda>mount_point.
     bindc (run_cmd env (mount_cmd read_only fs_bin mount_point)) (\<lambda>_.
     ret (Some mount_point)))"

definition handle_name :: "handle \<Rightarrow> (bytes, string) outcome" where
  "handle_name h = unwrap h"

definition Mount_unmount :: "host_env \<Rightarrow> handle \<Rightarrow> (trace, unit, string) comp" where
  "Mount_unmount env = release_by_value env umount_cmd"

definition Mount_drop :: "host_env \<Rightarrow> handle \<Rightarrow> trace \<Rightarrow> trace" where
  "Mount_drop env = drop_handle env umount_cmd"

subsection \<open>Loop device\<close>

definition losetup_cmd :: "bytes \<Rightarrow> cmd" where
  "losetup_cmd file = sudo [ascii ''losetup'', ascii ''--find'', ascii ''--show'', file]"

definition detach_cmd :: "bytes \<Rightarrow> cmd" where
  "detach_cmd path = sudo [ascii ''losetup'', ascii ''--detach'', path]"

definition LoopDevice_new :: "host_env \<Rightarrow> bytes \<Rightarrow> (trace, handle, string) comp" where
  "LoopDevice_new env file =
     bindc (capture_cmd env (losetup_cmd file)) (\<lambda>stdout.
     bindc (lift (map_err (\<lambda>_. ''invalid utf-8'') (String_from_utf8 stdout))) (\<lambda>path.
     ret (Some (str_trim path))))"

definition LoopDevice_detach :: "host_env \<Rightarrow> handle \<Rightarrow> (trace, unit, string) comp" where
  "LoopDevice_detach env = release_by_value env detach_cmd"

definition LoopDevice_drop :: "host_env \<Rightarrow> handle \<Rightarrow> trace \<Rightarrow> trace" where
  "LoopDevice_drop env = drop_handle env detach_cmd"

subsection \<open>Device mapper\<close>

definition dm_create_cmd :: "bytes \<Rightarrow> bytes \<Rightarrow> cmd" where
  "dm_create_cmd name table = sudo [ascii ''dmsetup'', ascii ''create'', name, ascii ''--table'', table]"

definition dm_remove_cmd :: "bytes \<Rightarrow> cmd" where
  "dm_remove_cmd name = sudo [ascii ''dmsetup'', ascii ''remove'', name]"

definition DmDevice_create :: "host_env \<Rightarrow> bytes \<Rightarrow> bytes \<Rightarrow> (trace, handle, string) comp" where
  "DmDevice_create env name table =
     bindc (run_cmd env (dm_create_cmd name table)) (\<lambda>_.
     ret (Some name))"

definition DmDevice_path :: "handle \<Rightarrow> (bytes, string) outcome" where
  "DmDevice_path h = bind_o (handle_name h) (\<lambda>name. Ok (ascii ''/dev/mapper/'' @ name))"

definition DmDevice_suspend :: "host_env \<Rightarrow> handle \<Rightarrow> (trace, unit, string) comp" where
  "DmDevice_suspend env h =
     bindc (lift (handle_name h)) (\<lambda>name. run_cmd env (sudo [ascii ''dmsetup'', ascii ''suspend'', ascii ''--nolockfs'', name]))"

definition DmDevice_resume :: "host_env \<Rightarrow> handle \<Rightarrow> (trace, unit, string) comp" where
  "DmDevice_resume env h =
     bindc (lift (handle_name h)) (\<lambda>name. run_cmd env (sudo [ascii ''dmsetup'', ascii ''resume'', name]))"

definition DmDevice_load_table :: "host_env \<Rightarrow> handle \<Rightarrow> bytes \<Rightarrow> (trace, unit, string) comp" where
  "DmDevice_load_table env h table =
     bindc (lift (handle_name h)) (\<lambda>name.
     run_cmd env (sudo [ascii ''dmsetup'', ascii ''load'', name, ascii ''--table'', table]))"

definition DmDevice_remove :: "host_env \<Rightarrow> handle \<Rightarrow> (trace, unit, string) comp" where
  "DmDevice_remove env = release_by_value env dm_remove_cmd"

definition DmDevice_drop :: "host_env \<Rightarrow> handle \<Rightarrow> trace \<Rightarrow> trace" where
  "DmDevice_drop env = drop_handle env dm_remove_cmd"

record DmFlakey =
  dmf_start_sector :: u64
  dmf_num_sectors :: u64
  dmf_block_dev :: bytes
  dmf_offset :: u64
  dmf_up_interval :: u64
  dmf_down_interval :: u64
  dmf_features :: "bytes list"

primrec join_spaces :: "bytes list \<Rightarrow> bytes" where
  "join_spaces [] = []"
| "join_spaces (s # ss) = s @ (if ss = [] then [] else ascii '' '' @ join_spaces ss)"

text \<open>\<open>to_str().unwrap()\<close> panics on a path that is not UTF-8.\<close>

definition DmFlakey_as_string :: "DmFlakey \<Rightarrow> (bytes, string) outcome" where
  "DmFlakey_as_string self =
     (let num = (\<lambda>n. ascii (dec n)) in
      bind_o (unwrap (if utf8_valid (dmf_block_dev self) then Some (dmf_block_dev self) else None)) (\<lambda>block_dev.
      Ok (join_spaces ([num (unat (dmf_start_sector self)), num (unat (dmf_num_sectors self)), ascii ''flakey'', block_dev,
        num (unat (dmf_offset self)), num (unat (dmf_up_interval self)), num (unat (dmf_down_interval self)),
        num (length (dmf_features self))] @ dmf_features self))))"

section \<open>What is held\<close>

text \<open>The devices that the commands of a trace have acquired and not given back, the last one first; \<open>None\<close> if a device is given
  back that is not the last one that was acquired.\<close>

datatype Device = LoopDev bytes | DmDev bytes | Mounted bytes

definition acquires :: "cmd \<Rightarrow> bytes \<Rightarrow> Device option" where
  "acquires cmd stdout =
     (case cmd of
        [s, prog, a, b, c] \<Rightarrow>
          if cmd = losetup_cmd c then Some (LoopDev (str_trim stdout)) else None
      | [s, prog, a, b, c, d] \<Rightarrow>
          if cmd = dm_create_cmd b d then Some (DmDev b)
          else if cmd = mount_cmd True c d \<or> cmd = mount_cmd False c d then Some (Mounted d)
          else None
      | _ \<Rightarrow> None)"

definition releases :: "cmd \<Rightarrow> Device option" where
  "releases cmd =
     (case cmd of
        [s, prog, a] \<Rightarrow> if cmd = umount_cmd a then Some (Mounted a) else None
      | [s, prog, a, b] \<Rightarrow>
          if cmd = detach_cmd b then Some (LoopDev b)
          else if cmd = dm_remove_cmd b then Some (DmDev b)
          else None
      | _ \<Rightarrow> None)"

fun device_step :: "Device list option \<Rightarrow> cmd \<times> (bytes + string) \<Rightarrow> Device list option" where
  "device_step None _ = None"
| "device_step (Some ds) (cmd, Inr _) = Some ds"
| "device_step (Some ds) (cmd, Inl stdout) =
     (case acquires cmd stdout of
        Some d \<Rightarrow> Some (d # ds)
      | None \<Rightarrow>
          (case releases cmd of
             Some d \<Rightarrow> (case ds of [] \<Rightarrow> None | d' # ds' \<Rightarrow> if d' = d then Some ds' else None)
           | None \<Rightarrow> Some ds))"

definition held :: "trace \<Rightarrow> Device list option" where
  "held t = foldl device_step (Some []) t"

lemma held_snoc [simp]: "held (t @ [x]) = device_step (held t) x"
  by (simp add: held_def)

lemmas device_cmds = sudo_def mount_cmd_def umount_cmd_def losetup_cmd_def detach_cmd_def dm_create_cmd_def dm_remove_cmd_def

lemma device_events [simp]:
  "acquires (losetup_cmd file) stdout = Some (LoopDev (str_trim stdout))"
  "acquires (dm_create_cmd name table) stdout = Some (DmDev name)"
  "acquires (mount_cmd ro fs_bin mp) stdout = Some (Mounted mp)"
  "acquires (umount_cmd mp) stdout = None" "acquires (detach_cmd path) stdout = None" "acquires (dm_remove_cmd name) stdout = None"
  "releases (umount_cmd mp) = Some (Mounted mp)" "releases (detach_cmd path) = Some (LoopDev path)"
  "releases (dm_remove_cmd name) = Some (DmDev name)"
  by (auto simp: acquires_def releases_def device_cmds)

text \<open>A command that neither acquires a device nor gives one back.\<close>

definition neutral :: "cmd \<Rightarrow> bool" where
  "neutral cmd \<longleftrightarrow> releases cmd = None \<and> (\<forall>stdout. acquires cmd stdout = None)"

lemma neutral_cmd:
  assumes "hd cmd \<noteq> ascii ''sudo''"
  shows "neutral cmd"
proof -
  have "cmd \<noteq> sudo args" for args using assms by (auto simp: sudo_def)
  then have "acquires cmd stdout = (case cmd of [a, b, c, d, e] \<Rightarrow> None | [a, b, c, d, e, f] \<Rightarrow> None | _ \<Rightarrow> None)"
    "releases cmd = (case cmd of [a, b, c] \<Rightarrow> None | [a, b, c, d] \<Rightarrow> None | _ \<Rightarrow> None)" for stdout
    by (simp_all only: acquires_def releases_def mount_cmd_def umount_cmd_def losetup_cmd_def detach_cmd_def dm_create_cmd_def
        dm_remove_cmd_def if_False simp_thms)
  then show ?thesis by (simp add: neutral_def split: list.split)
qed

lemma neutral_sudo: "prog \<notin> {ascii ''mount'', ascii ''umount'', ascii ''losetup'', ascii ''dmsetup''} \<Longrightarrow> neutral (sudo (prog # args))"
  by (simp add: neutral_def acquires_def releases_def device_cmds split: list.split)

lemma neutral_dmsetup: "a \<noteq> ascii ''create'' \<Longrightarrow> a \<noteq> ascii ''remove'' \<Longrightarrow> neutral (sudo (ascii ''dmsetup'' # a # args))"
  by (simp add: neutral_def acquires_def releases_def device_cmds split: list.split)

text \<open>The commands that give back succeed, and \<^verbatim>\<open>losetup\<close> prints text.\<close>

definition tools_ok :: "host_env \<Rightarrow> bool" where
  "tools_ok env \<longleftrightarrow> (\<forall>t cmd. releases cmd \<noteq> None \<longrightarrow> isl (env t cmd)) \<and>
     (\<forall>t file stdout. env t (losetup_cmd file) = Inl stdout \<longrightarrow> utf8_valid stdout)"

end
