(* ===== verification/Diff_Walk.thy ===== *)
theory Diff_Walk
  imports Descent Devices Orders "HOL-Library.Product_Lexorder"
begin

text \<open>
  The check of the library against the kernel (\<^verbatim>\<open>src/xtask/src/diff_walk.rs\<close>): it lists every file of a file system
  with the library, prints the sorted list as lines, and compares them with the output of the program
  \<^verbatim>\<open>mount_and_walk\<close>, which lists the same file system as the kernel presents it.

  Parameters of the model: the SHA-256 of some bytes as hexadecimal text (crate \<^verbatim>\<open>sha2\<close>), and what the commands and calls of the
  host do (theory \<open>Devices\<close>). Progress messages and times on the standard output are left out; leaving with
  status 1 after a message is an error that holds what the message says.
\<close>

section \<open>Entries and their text\<close>

datatype FileContent =
    Dir
  | EncryptedDir
  | SymlinkTo PathBuf
  | RegularHash bytes

record WalkDirEntry =
  wde_path :: PathBuf
  wde_content :: FileContent
  wde_mode :: u16
  wde_uid :: u32
  wde_gid :: u32

definition FileContent_format :: "FileContent \<Rightarrow> bytes" where
  "FileContent_format content =
     (case content of
        Dir \<Rightarrow> ascii ''dir''
      | EncryptedDir \<Rightarrow> ascii ''dir encrypted''
      | SymlinkTo target \<Rightarrow> ascii ''symlink='' @ target
      | RegularHash hash \<Rightarrow> ascii ''file sha256='' @ hash)"

definition WalkDirEntry_format :: "WalkDirEntry \<Rightarrow> bytes" where
  "WalkDirEntry_format self =
     wde_path self @ ascii '' '' @ ascii (oct (unat (wde_mode self))) @ ascii '' '' @
     ascii (dec (unat (wde_uid self)) @ '':'' @ dec (unat (wde_gid self))) @ ascii '' '' @ FileContent_format (wde_content self)"

text \<open>The derived order: the fields one after the other. Paths of the standard library are compared by their
  components, where separators in a row count as one and a component \<^verbatim>\<open>.\<close> only counts at the front.\<close>

definition std_components :: "PathBuf \<Rightarrow> Component list" where
  "std_components p =
     (let cs = map component_of (names p) in
      if Path_is_absolute p then RootDir # filter (\<lambda>c. c \<noteq> CurDir) cs
      else case cs of [] \<Rightarrow> [] | c # cs \<Rightarrow> c # filter (\<lambda>c. c \<noteq> CurDir) cs)"

fun FileContent_key :: "FileContent \<Rightarrow> nat \<times> Component list \<times> bytes" where
  "FileContent_key Dir = (0, [], [])"
| "FileContent_key EncryptedDir = (1, [], [])"
| "FileContent_key (SymlinkTo target) = (2, std_components target, [])"
| "FileContent_key (RegularHash hash) = (3, [], hash)"

definition WalkDirEntry_key :: "WalkDirEntry \<Rightarrow> Component list \<times> (nat \<times> Component list \<times> bytes) \<times> u16 \<times> u32 \<times> u32" where
  "WalkDirEntry_key e =
     (std_components (wde_path e), FileContent_key (wde_content e), wde_mode e, wde_uid e, wde_gid e)"

text \<open>\<open>sort_unstable\<close>: where no two entries compare equal, there is only one sorted list.\<close>

definition sort_entries :: "WalkDirEntry list \<Rightarrow> WalkDirEntry list" where
  "sort_entries = sort_key WalkDirEntry_key"

section \<open>Walking with the library\<close>

definition walk_dir_entry :: "PathBuf \<Rightarrow> FileContent \<Rightarrow> Metadata \<Rightarrow> WalkDirEntry" where
  "walk_dir_entry path content metadata =
     \<lparr>wde_path = path, wde_content = content, wde_mode = Metadata_mode metadata, wde_uid = md_uid metadata,
      wde_gid = md_gid metadata\<rparr>"

definition new_dir_entry :: "(bytes \<Rightarrow> bytes) \<Rightarrow> DirEntry \<Rightarrow> WalkDirEntry fs_op" where
  "new_dir_entry sha256_hex dir_entry =
     bindc (lift (DirEntry_path dir_entry)) (\<lambda>path.
     bindc (DirEntry_metadata dir_entry) (\<lambda>metadata.
     bindc
       (if Metadata_is_symlink metadata then bindc (Ext4_read_link path) (\<lambda>target. ret (SymlinkTo target))
        else if Metadata_is_dir metadata then ret Dir
        else bindc (Ext4_read path) (\<lambda>data. ret (RegularHash (sha256_hex data)))) (\<lambda>content.
     ret (walk_dir_entry path content metadata))))"

definition list_entry :: "(bytes \<Rightarrow> bytes) \<Rightarrow> (Path \<Rightarrow> (WalkDirEntry list) fs_op) \<Rightarrow> DirEntry \<Rightarrow>
    (WalkDirEntry list \<times> Ext4, unit, Ext4Error) comp" where
  "list_entry sha256_hex walk_rec entry =
     bindc (lift (DirEntry_path entry)) (\<lambda>path.
     bindc (lift (DirEntry_file_name entry)) (\<lambda>name.
     if is_dot_name name then ret ()
     else
       bindc (lift (DirEntry_get_file_type entry)) (\<lambda>file_type.
       if is_dir file_type then bindc (on_snd (walk_rec path)) (\<lambda>es. modify_fst (\<lambda>output. output @ es))
       else bindc (on_snd (new_dir_entry sha256_hex entry)) (\<lambda>e. modify_fst (\<lambda>output. output @ [e])))))"

definition list_children :: "(bytes \<Rightarrow> bytes) \<Rightarrow> (Path \<Rightarrow> (WalkDirEntry list) fs_op) \<Rightarrow> Path \<Rightarrow>
    (WalkDirEntry list \<times> Ext4, unit, Ext4Error) comp" where
  "list_children sha256_hex walk_rec path =
     bindc (unless_encrypted (on_snd (Ext4_read_dir path))) (\<lambda>entry_iter.
     case entry_iter of
       None \<Rightarrow> modify_fst (\<lambda>output. output[0 := (output ! 0)\<lparr>wde_content := EncryptedDir\<rparr>])
     | Some entry_iter \<Rightarrow> for_in ReadDir_next entry_iter (list_entry sha256_hex walk_rec))"

definition list_dir :: "(bytes \<Rightarrow> bytes) \<Rightarrow> (Path \<Rightarrow> (WalkDirEntry list) fs_op) \<Rightarrow> Path \<Rightarrow> (WalkDirEntry list) fs_op" where
  "list_dir sha256_hex walk_rec path =
     bindc (Ext4_symlink_metadata path) (\<lambda>metadata.
     building [walk_dir_entry path Dir metadata] (list_children sha256_hex walk_rec path))"

definition walk_with_lib :: "(bytes \<Rightarrow> bytes) \<Rightarrow> Path \<Rightarrow> (WalkDirEntry list) fs_op" where
  "walk_with_lib sha256_hex path = descend (list_dir sha256_hex) (lift Diverge) path"

section \<open>The comparison\<close>

datatype DiffError =
    HostFailed string
  | LibFailed Ext4Error
  | LastLineNotEmpty
  | LinesDiffer bytes bytes
  | LineCountsDiffer nat nat

text \<open>\<open>capture_cmd(...)?\<close> has run: these are the lines of its output.\<close>

definition expected_lines :: "bytes \<Rightarrow> (bytes list, DiffError) outcome" where
  "expected_lines stdout =
     (let lines = split_lines stdout in
      bind_o (unwrap (if lines = [] then None else Some (last lines))) (\<lambda>last.
      bind_o (require (last = []) LastLineNotEmpty) (\<lambda>_.
      Ok (butlast lines))))"

definition compare_lines :: "bytes list \<Rightarrow> bytes list \<Rightarrow> (unit, DiffError) outcome" where
  "compare_lines actual expected =
     (case find (\<lambda>(a, b). a \<noteq> b) (zip actual expected) of
        Some (a, b) \<Rightarrow> Err (LinesDiffer a b)
      | None \<Rightarrow>
          if length actual \<noteq> length expected then Err (LineCountsDiffer (length actual) (length expected))
          else Ok ())"

definition actual_lines :: "(bytes \<Rightarrow> bytes) \<Rightarrow> Ext4 \<Rightarrow> (bytes list, DiffError) outcome" where
  "actual_lines sha256_hex ext4 =
     bind_o (map_err LibFailed (fst (walk_with_lib sha256_hex PATH_ROOT ext4))) (\<lambda>paths.
     Ok (map WalkDirEntry_format (sort_entries paths)))"

definition MOUNT_AND_WALK :: "bytes \<Rightarrow> cmd" where
  "MOUNT_AND_WALK path = sudo [ascii ''target/release/mount_and_walk'', path]"

text \<open>The check from the point where the file system is loaded.\<close>

definition diff_loaded :: "host_env \<Rightarrow> (bytes \<Rightarrow> bytes) \<Rightarrow> bytes \<Rightarrow> Ext4 \<Rightarrow> (trace, unit, DiffError) comp" where
  "diff_loaded env sha256_hex path ext4 =
     bindc (lift (actual_lines sha256_hex ext4)) (\<lambda>actual.
     bindc (with_context HostFailed (capture_cmd env (MOUNT_AND_WALK path))) (\<lambda>stdout.
     bindc (lift (expected_lines stdout)) (\<lambda>expected.
     lift (compare_lines actual expected))))"

text \<open>\<open>env::var("PATH")\<close>, and \<open>File::open\<close> followed by \<open>read_exact\<close> of four bytes, are calls of the host.\<close>

definition is_compressed :: "host_env \<Rightarrow> bytes \<Rightarrow> (trace, bool, string) comp" where
  "is_compressed env path =
     bindc (capture_cmd env [ascii ''read_exact'', ascii ''4'', path]) (\<lambda>buf.
     ret (buf = [0x28, 0xb5, 0x2f, 0xfd]))"

definition build_mount_and_walk :: "host_env \<Rightarrow> (trace, unit, string) comp" where
  "build_mount_and_walk env =
     bindc (capture_cmd env [ascii ''env::var'', ascii ''PATH'']) (\<lambda>path.
     run_cmd env ([ascii ''env'', ascii ''-i'', ascii ''PATH='' @ path] @ map ascii
       [''cargo'', ''build'', ''--release'', ''--package'', ''xtask'', ''--bin'', ''mount_and_walk'']))"

definition decompress :: "host_env \<Rightarrow> bytes \<Rightarrow> (trace, bytes, string) comp" where
  "decompress env orig_path =
     bindc (capture_cmd env TEMP_DIR) (\<lambda>tempdir.
     let path = tempdir @ ascii ''/fs.bin'' in
     bindc (run_cmd env [ascii ''zstd'', ascii ''--decompress'', ascii ''--keep'', ascii ''-o'', path, orig_path]) (\<lambda>_.
     ret path))"

definition diff_walk :: "host_env \<Rightarrow> crc_fn \<Rightarrow> (bytes \<Rightarrow> bytes) \<Rightarrow> (bytes \<Rightarrow> BoxedError + HostFile) \<Rightarrow> bytes \<Rightarrow>
    (trace, unit, DiffError) comp" where
  "diff_walk env crc sha256_hex open_host orig_path =
     bindc (with_context HostFailed (build_mount_and_walk env)) (\<lambda>_.
     bindc (with_context HostFailed (is_compressed env orig_path)) (\<lambda>compressed.
     bindc (with_context HostFailed (if compressed then decompress env orig_path else ret orig_path)) (\<lambda>path.
     bindc (lift (map_err LibFailed (Ext4_load_from_path crc open_host path))) (\<lambda>ext4.
     diff_loaded env sha256_hex path ext4))))"

section \<open>The recursion\<close>

lemma list_entry_cong:
  assumes "entry_under path e" and "\<And>q. length path < length q \<Longrightarrow> rec1 q = rec2 q"
  shows "list_entry sha256_hex rec1 e = list_entry sha256_hex rec2 e"
proof -
  obtain n where "DirEntry_file_name e = Ok n" "DirEntry_path e = Ok (child_path path n)" "n \<noteq> []"
    by (rule entry_under_path[OF assms(1)])
  moreover from this have "rec1 (child_path path n) = rec2 (child_path path n)"
    by (intro assms(2) child_path_longer)
  ultimately show ?thesis by (simp only: list_entry_def bindc_lift_Ok DirEntry_get_file_type_def)
qed

interpretation ldesc: descent "list_dir sha256_hex" for sha256_hex :: "bytes \<Rightarrow> bytes"
proof
  fix path :: Path and rec1 rec2 :: "Path \<Rightarrow> (WalkDirEntry list) fs_op"
  assume "\<And>q. length path \<le> MAX_PATH_LEN \<Longrightarrow> length path < length q \<Longrightarrow> rec1 q = rec2 q"
  then have "list_entry sha256_hex rec1 e = list_entry sha256_hex rec2 e" if "length path \<le> MAX_PATH_LEN" "entry_under path e" for e
    using that by (intro list_entry_cong)
  then show "list_dir sha256_hex rec1 path = list_dir sha256_hex rec2 path"
    unfolding list_dir_def list_children_def by (subst read_dir_loop_cong[of path "list_entry sha256_hex rec1" "list_entry sha256_hex rec2"]) simp_all
qed

lemma walk_with_lib_unfold: "walk_with_lib sha256_hex path = list_dir sha256_hex (walk_with_lib sha256_hex) path"
  unfolding walk_with_lib_def[abs_def] by (rule ldesc.descend_unfold)

section \<open>The list of a tree\<close>

text \<open>The list of a tree: a folder before its children, and those in order.\<close>

function (sequential) listing :: "(bytes \<Rightarrow> bytes) \<Rightarrow> PathBuf \<Rightarrow> Tree \<Rightarrow> WalkDirEntry list" where
  "listing sha256_hex path (RegularFile m content) = [walk_dir_entry path (RegularHash (sha256_hex content)) m]"
| "listing sha256_hex path (SymbolicLink m target) = [walk_dir_entry path (SymlinkTo target) m]"
| "listing sha256_hex path (Folder m cs) =
     walk_dir_entry path Dir m # concat (map (\<lambda>c. listing sha256_hex (child_path path (fst c)) (snd c)) cs)"
| "listing sha256_hex path (LockedFolder m) = [walk_dir_entry path EncryptedDir m]"
  by pat_completeness auto
termination
  by (relation "measure (\<lambda>(_, _, t). size t)") (simp_all add: child_smaller del: Tree.size)

lemma runs_list_dots:
  assumes "entry_under path e" and "\<not> not_dots e"
  shows "runs disk fs (list_entry sha256_hex walk_rec e) h (Ok ()) h"
proof -
  obtain n where "DirEntry_file_name e = Ok n" "DirEntry_path e = Ok (child_path path n)"
    by (rule entry_under_path[OF assms(1)])
  with assms(2) show ?thesis by (simp add: list_entry_def bindc_lift_Ok not_dots_def runs_ret)
qed


lemma runs_new_dir_entry:
  assumes ok: "fs_ok disk fs" "fs_tame fs" and e: "entry_under path e" "names_child fs e c"
    and t: "has_tree disk fs (child_path path (fst c)) (snd c)" and d: "tree_type (snd c) \<noteq> Directory"
  shows "\<exists>x. listing sha256_hex (child_path path (fst c)) (snd c) = [x] \<and>
     runs disk fs (on_snd (new_dir_entry sha256_hex e)) h (Ok x) h"
proof -
  let ?q = "child_path path (fst c)" and ?m = "tree_metadata (snd c)"
  have n: "DirEntry_path e = Ok ?q"
    using e(2) entry_under_path[OF e(1)] by (auto simp: names_child_def)
  have m: "runs disk fs (on_snd (DirEntry_metadata e)) h (Ok ?m) h" "md_file_type ?m = tree_type (snd c)"
    using runs_stable[OF stable_api(8)[OF ok(2)] ok(1), of e h] e(2) by (simp_all add: names_child_def)
  have step: "runs disk fs (on_snd (new_dir_entry sha256_hex e)) h (Ok (walk_dir_entry ?q content ?m)) h"
    if "runs disk fs (on_snd (if Metadata_is_symlink ?m then bindc (Ext4_read_link ?q) (\<lambda>target. ret (SymlinkTo target))
        else if Metadata_is_dir ?m then ret Dir
        else bindc (Ext4_read ?q) (\<lambda>data. ret (RegularHash (sha256_hex data))))) h (Ok content) h" for content
    unfolding new_dir_entry_def n bindc_lift_Ok on_snd_bindc[of "DirEntry_metadata e"]
    by (rule runs_bind[OF m(1)], subst on_snd_bindc, rule runs_bind[OF that]) (simp add: on_snd_ret runs_ret)
  from t show ?thesis
  proof cases
    case (regular inode p bs content)
    have "fst (Ext4_read ?q fs) = Ok content"
      using Ext4_read_spec[OF ok regular(2,4,5)] regular(3,6) by simp
    with runs_stable[OF stable_api(3)[OF ok(2)] ok(1), of ?q h]
    have "runs disk fs (on_snd (bindc (Ext4_read ?q) (\<lambda>data. ret (RegularHash (sha256_hex data))))) h (Ok (RegularHash (sha256_hex content))) h"
      unfolding on_snd_bindc on_snd_ret by (intro runs_bind[OF _ runs_ret]) simp
    with step[of "RegularHash (sha256_hex content)"] m(2) regular(1) show ?thesis
      by (simp add: Metadata_is_symlink_def Metadata_is_dir_def is_symlink_def is_dir_def)
  next
    case (link inode p target)
    have "runs disk fs (on_snd (bindc (Ext4_read_link ?q) (\<lambda>target. ret (SymlinkTo target)))) h (Ok (SymlinkTo target)) h"
      unfolding on_snd_bindc on_snd_ret by (rule runs_bind[OF runs_read_link[OF ok link(2,3)] runs_ret])
    with step[of "SymlinkTo target"] m(2) link(1) show ?thesis
      by (simp add: Metadata_is_symlink_def is_symlink_def)
  qed (use d in simp_all)
qed

lemma runs_list_entry:
  assumes ok: "fs_ok disk fs" "fs_tame fs" and e: "entry_under path e" "not_dots e" "names_child fs e c"
    and t: "has_tree disk fs (child_path path (fst c)) (snd c)"
    and walk_rec: "\<And>h :: WalkDirEntry list. tree_type (snd c) = Directory \<Longrightarrow>
      runs disk fs (on_snd (walk_rec (child_path path (fst c)))) h (Ok (listing sha256_hex (child_path path (fst c)) (snd c))) h"
  shows "runs disk fs (list_entry sha256_hex walk_rec e) h (Ok ()) (h @ listing sha256_hex (child_path path (fst c)) (snd c))"
proof -
  let ?q = "child_path path (fst c)"
  have n: "DirEntry_file_name e = Ok (fst c)" "DirEntry_path e = Ok ?q" "de_file_type e = tree_type (snd c)"
    using e(3) entry_under_path[OF e(1)] by (auto simp: names_child_def)
  have "\<not> is_dot_name (fst c)" using e(2) n(1) by (simp add: not_dots_def)
  then have w: "list_entry sha256_hex walk_rec e =
      (if tree_type (snd c) = Directory then bindc (on_snd (walk_rec ?q)) (\<lambda>es. modify_fst (\<lambda>output. output @ es))
       else bindc (on_snd (new_dir_entry sha256_hex e)) (\<lambda>x. modify_fst (\<lambda>output. output @ [x])))"
    using n by (simp add: list_entry_def bindc_lift_Ok DirEntry_get_file_type_def is_dir_def)
  show ?thesis
  proof (cases "tree_type (snd c) = Directory")
    case True
    show ?thesis unfolding w if_P[OF True] by (rule runs_bind[OF walk_rec[OF True]]) (rule runs_modify)
  next
    case False
    obtain x where x: "listing sha256_hex ?q (snd c) = [x]" "runs disk fs (on_snd (new_dir_entry sha256_hex e)) h (Ok x) h"
      using runs_new_dir_entry[OF ok e(1,3) t False, of sha256_hex h] by (elim exE conjE)
    show ?thesis unfolding w x(1) if_not_P[OF False] by (rule runs_bind[OF x(2)]) (rule runs_modify)
  qed
qed

lemma fold_append: "fold (\<lambda>c h. h @ f c) cs h = h @ concat (map f cs)"
  by (induction cs arbitrary: h) simp_all

lemma runs_list_dir:
  assumes ok: "fs_ok disk fs" "fs_tame fs" and i: "inode_at fs path ExcludeFinalComponent = Ok (inode, p)"
    and "runs disk fs (list_children sha256_hex (walk_with_lib sha256_hex) path) [walk_dir_entry path Dir (in_metadata inode)] (Ok ()) es"
  shows "runs disk fs (on_snd (walk_with_lib sha256_hex path)) h (Ok es) h"
proof -
  have "runs disk fs (on_snd (Ext4_symlink_metadata path)) h (Ok (in_metadata inode)) h"
    using runs_stable[OF stable_api(7)[OF ok(2)] ok(1), of path h] path_operations_spec[OF ok, of path] i by simp
  then show ?thesis
    unfolding walk_with_lib_unfold[of sha256_hex path] list_dir_def on_snd_bindc by (rule runs_bind) (rule runs_building[OF assms(4)])
qed

lemma walk_with_lib_lists:
  fixes h :: "WalkDirEntry list"
  assumes ok: "fs_ok disk fs" "fs_tame fs"
  shows "has_tree disk fs path t \<Longrightarrow> tree_type t = Directory \<Longrightarrow>
     runs disk fs (on_snd (walk_with_lib sha256_hex path)) h (Ok (listing sha256_hex path t)) h"
proof (induction arbitrary: h rule: has_tree.induct)
  case (folder path inode p bs es cs)
  let ?h = "[walk_dir_entry path Dir (in_metadata inode)]"
  have "runs disk fs (list_children sha256_hex (walk_with_lib sha256_hex) path) ?h (Ok ())
      (fold (\<lambda>c h. h @ listing sha256_hex (child_path path (fst c)) (snd c)) cs ?h)"
    unfolding list_children_def
  proof (rule runs_folder[OF ok folder(1,3-6)])
    show "runs disk fs (list_entry sha256_hex (walk_with_lib sha256_hex) e) h (Ok ()) h" if "entry_under path e" "\<not> not_dots e" for e h
      using that by (rule runs_list_dots)
    fix e c h
    assume u: "entry_under path e" "not_dots e" and c: "names_child fs e c \<and> has_tree disk fs (child_path path (fst c)) (snd c) \<and>
      (tree_type (snd c) = Directory \<longrightarrow> (\<forall>h :: WalkDirEntry list. runs disk fs (on_snd (walk_with_lib sha256_hex (child_path path (fst c)))) h
        (Ok (listing sha256_hex (child_path path (fst c)) (snd c))) h))"
    from c show "runs disk fs (list_entry sha256_hex (walk_with_lib sha256_hex) e) h (Ok ())
        (h @ listing sha256_hex (child_path path (fst c)) (snd c))"
      by (elim conjE) (rule runs_list_entry[OF ok u], assumption+, blast)
  qed
  then show ?case by (intro runs_list_dir[OF ok folder(2)]) (simp add: fold_append)
next
  case (locked path inode p)
  have "runs disk fs (list_children sha256_hex (walk_with_lib sha256_hex) path) [walk_dir_entry path Dir (in_metadata inode)] (Ok ())
      [walk_dir_entry path EncryptedDir (in_metadata inode)]"
    unfolding list_children_def
    by (rule runs_locked[OF ok locked(1,3,4)])
      (use runs_modify[of disk fs "\<lambda>output. output[0 := (output ! 0)\<lparr>wde_content := EncryptedDir\<rparr>]"
         "[walk_dir_entry path Dir (in_metadata inode)]"] in \<open>simp add: walk_dir_entry_def\<close>)
  then show ?case by (intro runs_list_dir[OF ok locked(2)]) simp
qed simp_all

section \<open>Lines\<close>

definition print_lines :: "bytes list \<Rightarrow> bytes" where
  "print_lines ls = concat (map (\<lambda>l. l @ [NEWLINE]) ls)"

lemma split_lines_print: "\<forall>l \<in> set ls. NEWLINE \<notin> set l \<Longrightarrow> split_lines (print_lines ls) = ls @ [[]]"
proof (induction ls)
  case (Cons l ls)
  have "NEWLINE \<notin> set l \<Longrightarrow> split_lines (l @ NEWLINE # cs) = l # split_lines cs" for cs
    by (induction l) simp_all
  with Cons show ?case by (simp add: print_lines_def)
qed (simp add: print_lines_def)

lemma print_split_lines: "print_lines (butlast (split_lines cs)) @ last (split_lines cs) = cs"
proof (induction cs)
  case (Cons c cs)
  then show ?case by (cases "split_lines cs") (auto simp: print_lines_def)
qed (simp add: print_lines_def)

lemma split_lines_no_newline: "l \<in> set (split_lines cs) \<Longrightarrow> NEWLINE \<notin> set l"
proof (induction cs arbitrary: l)
  case (Cons c cs)
  then show ?case by (cases "split_lines cs") (auto split: if_splits)
qed simp

lemma expected_lines_Ok: "expected_lines stdout = Ok ls \<longleftrightarrow> stdout = print_lines ls \<and> (\<forall>l \<in> set ls. NEWLINE \<notin> set l)"
proof
  assume "expected_lines stdout = Ok ls"
  then have l: "last (split_lines stdout) = []" "ls = butlast (split_lines stdout)"
    by (auto simp: expected_lines_def require_def Let_def split: if_splits)
  with print_split_lines[of stdout] split_lines_no_newline[of _ stdout] show "stdout = print_lines ls \<and> (\<forall>l \<in> set ls. NEWLINE \<notin> set l)"
    by (auto dest: in_set_butlastD)
qed (simp add: expected_lines_def split_lines_print require_def)

lemma compare_lines_Ok: "compare_lines actual expected = Ok () \<longleftrightarrow> actual = expected"
proof -
  have "find (\<lambda>(a, b). a \<noteq> b) (zip actual expected) = None \<longleftrightarrow> (\<forall>(a, b) \<in> set (zip actual expected). a = b)"
    by (auto simp: find_None_iff)
  moreover note list_eq_iff_zip_eq[of actual expected]
  ultimately show ?thesis
    by (cases "find (\<lambda>(a, b). a \<noteq> b) (zip actual expected)") (auto simp only: compare_lines_def option.case prod.case split: prod.split if_splits)
qed

text \<open>A field of a line ends at the first separator.\<close>

lemma field_eq: "c \<notin> set a \<Longrightarrow> c \<notin> set a' \<Longrightarrow> a @ c # b = a' @ c # b' \<longleftrightarrow> a = a' \<and> b = b'"
  by (auto simp: append_eq_append_conv2 Cons_eq_append_conv append_eq_Cons_conv)

lemma FileContent_format_eq: "FileContent_format a = FileContent_format b \<longleftrightarrow> a = b"
  by (cases a; cases b) (auto simp: FileContent_format_def ascii_def)

lemma WalkDirEntry_format_eq:
  assumes "byte_of CHR '' '' \<notin> set (wde_path a)" and "byte_of CHR '' '' \<notin> set (wde_path b)"
  shows "WalkDirEntry_format a = WalkDirEntry_format b \<longleftrightarrow> a = b"
proof -
  have f: "WalkDirEntry_format e = wde_path e @ byte_of CHR '' '' # ascii (oct (unat (wde_mode e))) @ byte_of CHR '' '' #
      ascii (dec (unat (wde_uid e))) @ byte_of CHR '':'' # ascii (dec (unat (wde_gid e))) @ byte_of CHR '' '' #
      FileContent_format (wde_content e)" for e
    by (simp add: WalkDirEntry_format_def) (simp add: ascii_def)
  have n: "oct m = oct n \<longleftrightarrow> m = n" "dec m = dec n \<longleftrightarrow> m = n" for m n
    by (simp_all add: oct_def dec_def digits_eq)
  have c: "CHR '' '' \<notin> set ''0123456789''" "CHR '':'' \<notin> set ''0123456789''" by simp_all
  show ?thesis
    unfolding f
    by (simp only: field_eq[OF assms] field_eq[OF number_chars(1)[OF c(1)] number_chars(1)[OF c(1)]]
        field_eq[OF number_chars(2)[OF c(1)] number_chars(2)[OF c(1)]] field_eq[OF number_chars(2)[OF c(2)] number_chars(2)[OF c(2)]]
        ascii_eq n FileContent_format_eq word_unat_eq_iff[symmetric]) (auto intro: WalkDirEntry.equality)
qed

lemma walk_with_lib_result:
  assumes "fs_ok disk fs" and "fs_tame fs" and "has_tree disk fs path t" and "tree_type t = Directory"
  shows "fst (walk_with_lib sha256_hex path fs) = Ok (listing sha256_hex path t)"
proof -
  have "fst (on_snd m ([] :: WalkDirEntry list, fs)) = fst (m fs)" for m :: "(WalkDirEntry list) fs_op"
    by (simp add: on_snd_def split: prod.split)
  with runs_fst[OF walk_with_lib_lists[OF assms] assms(1)] show ?thesis by metis
qed

text \<open>With spaces in the names, a line can stand for two entries: the symbolic link \<^verbatim>\<open>/a\<close> to
  \<^verbatim>\<open>x 644 0:0 dir\<close>, and the directory \<^verbatim>\<open>/a 777 0:0 symlink=x\<close>.\<close>

lemma entry_line_ambiguous:
  "WalkDirEntry_format \<lparr>wde_path = ascii ''/a'', wde_content = SymlinkTo (ascii ''x 644 0:0 dir''), wde_mode = 511, wde_uid = 0, wde_gid = 0\<rparr> =
   WalkDirEntry_format \<lparr>wde_path = ascii ''/a 777 0:0 symlink=x'', wde_content = Dir, wde_mode = 420, wde_uid = 0, wde_gid = 0\<rparr>"
  by code_simp

lemma diff_loaded_Ok:
  assumes "actual_lines sha256_hex ext4 = Ok actual" and "env t (MOUNT_AND_WALK path) = Inl stdout"
  shows "fst (diff_loaded env sha256_hex path ext4 t) = bind_o (expected_lines stdout) (compare_lines actual)"
  using assms by (cases "expected_lines stdout") (simp_all add: diff_loaded_def with_context_def capture_cmd_def comp_defs)

section \<open>Properties\<close>

text \<open>C16: Listing a file system with the library lists all of it: if the root has a tree, the walk of the check ends with
  success, and its result is the list of the tree, every directory before its entries, with the owner and the
  permissions of each, the target of every link and the hash of every file; an encrypted directory is listed as such.\<close>

theorem walk_with_lib_lists_tree:
  assumes "fs_ok disk fs" and "fs_tame fs" and "has_tree disk fs PATH_ROOT t" and "tree_type t = Directory"
  shows "fst (walk_with_lib sha256_hex PATH_ROOT fs) = Ok (listing sha256_hex PATH_ROOT t)"
  by (rule walk_with_lib_result[OF assms])

theorem walk_with_lib_lists_tree_witness:
  "fst (walk_with_lib (\<lambda>b. b) PATH_ROOT (sample_fs file_image)) =
     Ok [walk_dir_entry [0x2f] Dir (in_metadata tree_root), walk_dir_entry [0x2f, 0x66] (RegularHash [2, 0, 0, 0, 12]) (in_metadata file_inode)]"
  using walk_with_lib_lists_tree[OF sample_fs_ok sample_fs_tame[OF file_image_parts(6)] sample_has_tree, of "\<lambda>b. b"]
  by (simp add: child_path_def PATH_ROOT_def SEPARATOR_def)

text \<open>C32: The comparison is exact: it reports success if and only if the program that was run printed the lines of the
  library, each followed by a newline, and no line has a newline in it. A file name with a newline is reported as
  a difference although both sides list it.\<close>

theorem diff_comparison_exact:
  "bind_o (expected_lines stdout) (compare_lines actual) = Ok () \<longleftrightarrow>
     stdout = print_lines actual \<and> (\<forall>l \<in> set actual. NEWLINE \<notin> set l)"
  by (auto simp: expected_lines_Ok compare_lines_Ok)

theorem diff_comparison_exact_witness:
  "bind_o (expected_lines [0x61, 0x0a, 0x62, 0x0a]) (compare_lines [[0x61], [0x62]]) = Ok () \<and>
   bind_o (expected_lines [0x61, 0x0a, 0x62, 0x0a]) (compare_lines [[0x61, 0x0a, 0x62]]) \<noteq> Ok ()"
  using diff_comparison_exact[of "[0x61, 0x0a, 0x62, 0x0a]" "[[0x61], [0x62]]"]
    diff_comparison_exact[of "[0x61, 0x0a, 0x62, 0x0a]" "[[0x61, 0x0a, 0x62]]"]
  by (simp add: print_lines_def)

text \<open>The line of an entry determines the entry, if there is no space in the paths: nothing that the walk records is lost
  in the text.\<close>

theorem entry_line_injective:
  assumes "byte_of CHR '' '' \<notin> set (wde_path a)" and "byte_of CHR '' '' \<notin> set (wde_path b)"
  shows "WalkDirEntry_format a = WalkDirEntry_format b \<longleftrightarrow> a = b"
  by (rule WalkDirEntry_format_eq[OF assms])

theorem entry_line_injective_witness:
  "WalkDirEntry_format \<lparr>wde_path = [0x2f], wde_content = Dir, wde_mode = 493, wde_uid = 0, wde_gid = 0\<rparr> \<noteq>
   WalkDirEntry_format \<lparr>wde_path = [0x2f], wde_content = EncryptedDir, wde_mode = 493, wde_uid = 0, wde_gid = 0\<rparr>"
  using entry_line_injective[of
      "\<lparr>wde_path = [0x2f], wde_content = Dir, wde_mode = 493, wde_uid = 0, wde_gid = 0\<rparr>"
      "\<lparr>wde_path = [0x2f], wde_content = EncryptedDir, wde_mode = 493, wde_uid = 0, wde_gid = 0\<rparr>"]
  by (simp add: byte_of_def)

end
