(* ===== verification/Mount_Walk.thy ===== *)
theory Mount_Walk
  imports Diff_Walk "HOL-Library.Multiset"
begin

text \<open>
  The program \<^verbatim>\<open>mount_and_walk\<close> (\<^verbatim>\<open>src/xtask/src/bin/mount_and_walk.rs\<close>), the other side of the comparison: it mounts
  the file system, lists the files under the mount point with \<open>std::fs\<close>, and prints the sorted list
  with the mount point removed from the paths.

  The files that the kernel presents are a parameter, one function for each operation of \<open>std::fs\<close>; the mount is
  read-only, so that their results do not change during the walk. The recursion is bounded by a depth that is an
  argument: on a tree, any depth above its size is enough.
\<close>

section \<open>The files of the host\<close>

record HostMetadata =
  hm_mode :: u32
  hm_uid :: u32
  hm_gid :: u32

text \<open>\<open>Path::is_dir\<close>, \<open>Path::symlink_metadata\<close> and \<open>DirEntry::metadata\<close>, the attributes that \<open>statx\<close> returns for a path,
  the names that \<open>fs::read_dir\<close> yields, whether \<open>DirEntry::file_type\<close> of a path is a directory,
  \<open>fs::read_link\<close>, and the bytes of a file.\<close>

record HostFs =
  hf_is_dir :: "PathBuf \<Rightarrow> bool"
  hf_metadata :: "PathBuf \<Rightarrow> (HostMetadata, string) outcome"
  hf_stx_attributes :: "PathBuf \<Rightarrow> (u64, string) outcome"
  hf_read_dir :: "PathBuf \<Rightarrow> ((bytes, string) outcome list, string) outcome"
  hf_entry_is_dir :: "PathBuf \<Rightarrow> (bool, string) outcome"
  hf_read_link :: "PathBuf \<Rightarrow> (PathBuf, string) outcome"
  hf_read_file :: "PathBuf \<Rightarrow> (bytes, string) outcome"

text \<open>The file type bits of \<open>st_mode\<close>.\<close>

definition HostMetadata_is_symlink :: "HostMetadata \<Rightarrow> bool" where
  "HostMetadata_is_symlink m \<longleftrightarrow> hm_mode m AND 0xf000 = 0xa000"

definition HostMetadata_is_dir :: "HostMetadata \<Rightarrow> bool" where
  "HostMetadata_is_dir m \<longleftrightarrow> hm_mode m AND 0xf000 = 0x4000"

definition STATX_ATTR_ENCRYPTED :: u64 where
  "STATX_ATTR_ENCRYPTED = 0x800"

section \<open>The program\<close>

definition is_encrypted_dir :: "HostFs \<Rightarrow> PathBuf \<Rightarrow> (bool, string) outcome" where
  "is_encrypted_dir host path =
     bind_o (assert_o (Path_is_absolute path)) (\<lambda>_.
     bind_o (require (0 \<notin> set path) ''nul byte found'') (\<lambda>_.
     bind_o (hf_stx_attributes host path) (\<lambda>stx_attributes.
     Ok (stx_attributes AND STATX_ATTR_ENCRYPTED \<noteq> 0))))"

definition calc_file_sha256 :: "HostFs \<Rightarrow> (bytes \<Rightarrow> bytes) \<Rightarrow> PathBuf \<Rightarrow> (bytes, string) outcome" where
  "calc_file_sha256 host sha256_hex path = bind_o (hf_read_file host path) (\<lambda>data. Ok (sha256_hex data))"

definition mode_from_metadata :: "HostMetadata \<Rightarrow> (u16, string) outcome" where
  "mode_from_metadata metadata =
     bind_o (unwrap (word_try_from (unat (hm_mode metadata AND 0xfff)))) (\<lambda>mode :: u16. Ok mode)"

definition host_dir_entry :: "PathBuf \<Rightarrow> FileContent \<Rightarrow> HostMetadata \<Rightarrow> (WalkDirEntry, string) outcome" where
  "host_dir_entry path content metadata =
     bind_o (mode_from_metadata metadata) (\<lambda>mode.
     Ok \<lparr>wde_path = path, wde_content = content, wde_mode = mode, wde_uid = hm_uid metadata, wde_gid = hm_gid metadata\<rparr>)"

definition host_new_dir_entry :: "HostFs \<Rightarrow> (bytes \<Rightarrow> bytes) \<Rightarrow> PathBuf \<Rightarrow> (WalkDirEntry, string) outcome" where
  "host_new_dir_entry host sha256_hex path =
     bind_o (hf_metadata host path) (\<lambda>metadata.
     bind_o
       (if HostMetadata_is_symlink metadata then bind_o (hf_read_link host path) (\<lambda>target. Ok (SymlinkTo target))
        else if HostMetadata_is_dir metadata then Ok Dir
        else bind_o (calc_file_sha256 host sha256_hex path) (\<lambda>hash. Ok (RegularHash hash))) (\<lambda>content.
     host_dir_entry path content metadata))"

primrec mounted_entries :: "HostFs \<Rightarrow> (bytes \<Rightarrow> bytes) \<Rightarrow> (PathBuf \<Rightarrow> (WalkDirEntry list, string) outcome) \<Rightarrow> PathBuf \<Rightarrow>
    (bytes, string) outcome list \<Rightarrow> WalkDirEntry list \<Rightarrow> (WalkDirEntry list, string) outcome" where
  "mounted_entries host sha256_hex walk_rec dir [] output = Ok output"
| "mounted_entries host sha256_hex walk_rec dir (entry # entries) output =
     bind_o entry (\<lambda>name.
     let path = child_path dir name in
     if is_dot_name name then mounted_entries host sha256_hex walk_rec dir entries output
     else
       bind_o (hf_entry_is_dir host path) (\<lambda>is_dir.
       if is_dir then
         bind_o (walk_rec path) (\<lambda>es. mounted_entries host sha256_hex walk_rec dir entries (output @ es))
       else
         bind_o (host_new_dir_entry host sha256_hex path) (\<lambda>e.
         mounted_entries host sha256_hex walk_rec dir entries (output @ [e]))))"

definition mounted_dir :: "HostFs \<Rightarrow> (bytes \<Rightarrow> bytes) \<Rightarrow> (PathBuf \<Rightarrow> (WalkDirEntry list, string) outcome) \<Rightarrow> PathBuf \<Rightarrow>
    (WalkDirEntry list, string) outcome" where
  "mounted_dir host sha256_hex walk_rec path =
     bind_o (assert_o (hf_is_dir host path)) (\<lambda>_.
     bind_o (hf_metadata host path) (\<lambda>metadata.
     bind_o (host_dir_entry path Dir metadata) (\<lambda>e.
     bind_o (is_encrypted_dir host path) (\<lambda>encrypted.
     if encrypted then Ok [e\<lparr>wde_content := EncryptedDir\<rparr>]
     else
       bind_o (hf_read_dir host path) (\<lambda>entries.
       mounted_entries host sha256_hex walk_rec path entries [e])))))"

definition walk_mounted :: "HostFs \<Rightarrow> (bytes \<Rightarrow> bytes) \<Rightarrow> nat \<Rightarrow> PathBuf \<Rightarrow> (WalkDirEntry list, string) outcome" where
  "walk_mounted host sha256_hex depth path = to_depth (mounted_dir host sha256_hex) Diverge depth path"

text \<open>\<open>Path::strip_prefix\<close>, by components, and \<open>Path::new("/").join(path)\<close> of the relative path that is left.\<close>

definition strip_prefix :: "PathBuf \<Rightarrow> PathBuf \<Rightarrow> Component list option" where
  "strip_prefix path base =
     (if take (length (std_components base)) (std_components path) = std_components base
      then Some (drop (length (std_components base)) (std_components path)) else None)"

definition join_root :: "Component list \<Rightarrow> PathBuf" where
  "join_root cs = render (map Component_as_bytes cs) False"

definition mounted_line :: "PathBuf \<Rightarrow> WalkDirEntry \<Rightarrow> (bytes, string) outcome" where
  "mounted_line mount_point dir_entry =
     bind_o (ok_or ''prefix not found'' (strip_prefix (wde_path dir_entry) mount_point)) (\<lambda>path.
     Ok (WalkDirEntry_format (dir_entry\<lparr>wde_path := join_root path\<rparr>) @ [NEWLINE]))"

primrec mounted_lines :: "PathBuf \<Rightarrow> WalkDirEntry list \<Rightarrow> (bytes, string) outcome" where
  "mounted_lines mount_point [] = Ok []"
| "mounted_lines mount_point (e # es) =
     bind_o (mounted_line mount_point e) (\<lambda>line.
     bind_o (mounted_lines mount_point es) (\<lambda>out. Ok (line @ out)))"

text \<open>What is printed for the files under the mount point.\<close>

definition mounted_output :: "HostFs \<Rightarrow> (bytes \<Rightarrow> bytes) \<Rightarrow> nat \<Rightarrow> PathBuf \<Rightarrow> (bytes, string) outcome" where
  "mounted_output host sha256_hex depth mount_point =
     bind_o (walk_mounted host sha256_hex depth mount_point) (\<lambda>paths.
     mounted_lines mount_point (sort_entries paths))"

text \<open>The whole program, with the argument of the command line. If it fails, its status is not zero, and what it printed is not
  used; the mount is dropped.\<close>

definition mount_and_walk :: "host_env \<Rightarrow> HostFs \<Rightarrow> (bytes \<Rightarrow> bytes) \<Rightarrow> nat \<Rightarrow> bytes option \<Rightarrow> (trace, bytes, string) comp" where
  "mount_and_walk env host sha256_hex depth arg =
     bindc (lift (ok_or ''missing required path argument'' arg)) (\<lambda>path.
     bindc (Mount_new env path True) (\<lambda>mount t.
     case bind_o (handle_name mount) (mounted_output host sha256_hex depth) of
       Ok out \<Rightarrow> bindc (Mount_unmount env mount) (\<lambda>_. ret out) t
     | r \<Rightarrow> (r, Mount_drop env mount t)))"

section \<open>The entries of a tree by their names\<close>

text \<open>The list of a tree with the names that lead to each entry in place of its path.\<close>

type_synonym NamedEntry = "DirEntryName list \<times> FileContent \<times> Metadata"

function (sequential) named_entries :: "(bytes \<Rightarrow> bytes) \<Rightarrow> Tree \<Rightarrow> NamedEntry list" where
  "named_entries sha256_hex (RegularFile m content) = [([], RegularHash (sha256_hex content), m)]"
| "named_entries sha256_hex (SymbolicLink m target) = [([], SymlinkTo target, m)]"
| "named_entries sha256_hex (Folder m cs) =
     ([], Dir, m) # concat (map (\<lambda>c. map (apfst (Cons (fst c))) (named_entries sha256_hex (snd c))) cs)"
| "named_entries sha256_hex (LockedFolder m) = [([], EncryptedDir, m)]"
  by pat_completeness auto
termination
  by (relation "measure (\<lambda>(_, t). size t)") (simp_all add: child_smaller del: Tree.size)

text \<open>The names in a tree are names of files, and no two entries of a directory have the same.\<close>

function (sequential) names_ok :: "Tree \<Rightarrow> bool" where
  "names_ok (Folder m cs) \<longleftrightarrow> distinct (map fst cs) \<and> (\<forall>c \<in> set cs. is_name (fst c) \<and> fst c \<notin> dots \<and> names_ok (snd c))"
| "names_ok _ \<longleftrightarrow> True"
  by pat_completeness auto
termination
  by (relation "measure size") (simp_all add: child_smaller del: Tree.size)

definition entry_at :: "PathBuf \<Rightarrow> NamedEntry \<Rightarrow> WalkDirEntry" where
  "entry_at path = (\<lambda>(ns, content, m). walk_dir_entry (foldl child_path path ns) content m)"

definition named_key :: "NamedEntry \<Rightarrow> Component list \<times> (nat \<times> Component list \<times> bytes) \<times> u16 \<times> u32 \<times> u32" where
  "named_key = (\<lambda>(ns, content, m). (map Normal ns, FileContent_key content, Metadata_mode m, md_uid m, md_gid m))"

abbreviation file_names :: "DirEntryName list \<Rightarrow> bool" where
  "file_names ns \<equiv> \<forall>n \<in> set ns. is_name n \<and> n \<notin> dots"

lemma listing_named: "listing sha256_hex path t = map (entry_at path) (named_entries sha256_hex t)"
proof (induction sha256_hex path t rule: listing.induct)
  case (3 sha256_hex path m cs)
  have "listing sha256_hex (child_path path (fst c)) (snd c) =
      map (entry_at path) (map (apfst (Cons (fst c))) (named_entries sha256_hex (snd c)))" if "c \<in> set cs" for c
    using 3[OF that] by (simp add: entry_at_def split_def)
  then have "map (\<lambda>c. listing sha256_hex (child_path path (fst c)) (snd c)) cs =
      map (\<lambda>c. map (entry_at path) (map (apfst (Cons (fst c))) (named_entries sha256_hex (snd c)))) cs"
    by (intro map_cong refl)
  then show ?case by (simp only: listing.simps named_entries.simps) (simp add: entry_at_def map_concat comp_def)
qed (simp_all add: entry_at_def)

lemma named_entries_names:
  "names_ok t \<Longrightarrow> (\<forall>x \<in> set (named_entries sha256_hex t). file_names (fst x)) \<and> distinct (map fst (named_entries sha256_hex t))"
proof (induction sha256_hex t rule: named_entries.induct)
  case (3 sha256_hex m cs)
  then have c: "\<forall>c \<in> set cs. is_name (fst c) \<and> fst c \<notin> dots" and d: "distinct (map fst cs)"
    and ih: "\<forall>c \<in> set cs. (\<forall>x \<in> set (named_entries sha256_hex (snd c)). file_names (fst x)) \<and> distinct (map fst (named_entries sha256_hex (snd c)))"
    by auto
  have "distinct (map fst (concat (map (\<lambda>c. map (apfst (Cons (fst c))) (named_entries sha256_hex (snd c))) cs)))"
    using d ih
  proof (induction cs)
    case (Cons c cs)
    have "distinct (map (Cons (fst c)) (map fst (named_entries sha256_hex (snd c))))"
      using Cons.prems(2) by (subst distinct_map) (auto simp: inj_on_def)
    with Cons show ?case by (auto simp: comp_def image_iff)
  qed simp
  with c ih show ?case by auto
qed auto

section \<open>The order does not depend on the directory that the tree is in\<close>

lemma child_path_absolute: "Path_is_absolute p \<Longrightarrow> Path_is_absolute (child_path p n)"
  by (cases p) (auto simp: child_path_def Path_is_absolute_def)

lemma names_child_path: "is_name n \<Longrightarrow> names (child_path p n) = names p @ [n]"
proof (cases "p = [] \<or> last p = SEPARATOR")
  case True
  assume n: "is_name n"
  then have one: "names n = [n]" by (simp add: is_name_def names_one)
  show ?thesis
  proof (cases p rule: rev_cases)
    case Nil
    then show ?thesis using one by (simp add: child_path_def)
  next
    case (snoc q x)
    then have "p = q @ SEPARATOR # []" using True by simp
    then show ?thesis using names_append[of q n] names_append[of q "[]"] one True by (simp add: child_path_def)
  qed
next
  case False
  assume n: "is_name n"
  then have "names n = [n]" by (simp add: is_name_def names_one)
  with False show ?thesis by (simp add: child_path_def names_append)
qed

lemma std_components_child:
  assumes "Path_is_absolute p" and "is_name n" and "n \<notin> dots"
  shows "std_components (child_path p n) = std_components p @ [Normal n]"
  using assms child_path_absolute[OF assms(1), of n] names_child_path[OF assms(2), of p]
  by (auto simp: std_components_def component_of_def dots_def)

lemma std_components_names:
  assumes "Path_is_absolute p" and "file_names ns"
  shows "std_components (foldl child_path p ns) = std_components p @ map Normal ns"
  using assms
proof (induction ns arbitrary: p)
  case (Cons n ns)
  then show ?case using child_path_absolute std_components_child by simp
qed simp

lemma prefix_order:
  fixes a x y :: "'a :: linorder list"
  shows "a @ x < a @ y \<longleftrightarrow> x < y" and "a @ x \<le> a @ y \<longleftrightarrow> x \<le> y"
  by (induction a) simp_all

lemma entry_at_key:
  assumes "Path_is_absolute p" and "file_names (fst x)"
  shows "WalkDirEntry_key (entry_at p x) = apfst (\<lambda>cs. std_components p @ cs) (named_key x)"
  using std_components_names[OF assms]
  by (simp add: entry_at_def WalkDirEntry_key_def walk_dir_entry_def named_key_def split_def)

text \<open>Sorting only looks at how the keys compare.\<close>

lemma sort_key_cong_order:
  assumes "\<And>x y. x \<in> set xs \<Longrightarrow> y \<in> set xs \<Longrightarrow> f (g x) \<le> f (g y) \<longleftrightarrow> k x \<le> k y"
  shows "sort_key f (map g xs) = map g (sort_key k xs)"
  using assms
proof (induction xs)
  case (Cons x xs)
  have "insort_key f (g x) (map g ys) = map g (insort_key k x ys)" if "set ys \<subseteq> set xs" for ys
    using that Cons.prems[of x] by (induction ys) auto
  with Cons show ?case by simp
qed simp

lemma sort_named:
  assumes "Path_is_absolute p" and "\<forall>x \<in> set xs. file_names (fst x)"
  shows "sort_entries (map (entry_at p) xs) = map (entry_at p) (sort_key named_key xs)"
  unfolding sort_entries_def
proof (rule sort_key_cong_order)
  fix x y assume "x \<in> set xs" "y \<in> set xs"
  with assms have k: "WalkDirEntry_key (entry_at p x) = apfst (\<lambda>cs. std_components p @ cs) (named_key x)"
    "WalkDirEntry_key (entry_at p y) = apfst (\<lambda>cs. std_components p @ cs) (named_key y)"
    by (auto intro: entry_at_key)
  show "WalkDirEntry_key (entry_at p x) \<le> WalkDirEntry_key (entry_at p y) \<longleftrightarrow> named_key x \<le> named_key y"
    unfolding k by (cases "named_key x"; cases "named_key y") (simp add: less_eq_prod_def prefix_order)
qed

lemma sort_entries_unique:
  assumes "mset es = mset (map (entry_at p) xs)" and "Path_is_absolute p" and "\<forall>x \<in> set xs. file_names (fst x)"
    and "distinct (map fst xs)"
  shows "sort_entries es = map (entry_at p) (sort_key named_key xs)"
proof -
  have "inj_on WalkDirEntry_key (entry_at p ` set xs)"
  proof (rule inj_onI, clarify)
    fix n c m n' c' m'
    assume x: "(n, c, m) \<in> set xs" "(n', c', m') \<in> set xs"
      and e: "WalkDirEntry_key (entry_at p (n, c, m)) = WalkDirEntry_key (entry_at p (n', c', m'))"
    from x assms(3) have f: "file_names n" "file_names n'" by force+
    have "map Normal n = map Normal n'"
      using e entry_at_key[OF assms(2), of "(n, c, m)"] entry_at_key[OF assms(2), of "(n', c', m')"] f by (simp add: named_key_def)
    then have "n = n'" by (simp add: inj_map_eq_map inj_def)
    with x assms(4) have "(n, c, m) = (n', c', m')" unfolding distinct_map inj_on_def by force
    then show "entry_at p (n, c, m) = entry_at p (n', c', m')" by simp
  qed
  moreover have "set es = entry_at p ` set xs" using arg_cong[OF assms(1), of set_mset] by simp
  ultimately have "sort_entries es = sort_entries (map (entry_at p) xs)"
    unfolding sort_entries_def by (metis mset_sort sorted_sort_key sort_key_inj_key_eq assms(1))
  with sort_named[OF assms(2,3)] show ?thesis by simp
qed

section \<open>What the kernel presents\<close>

text \<open>The kernel presents the tree under a path: the metadata of each file are those of its inode, \<open>read_dir\<close> yields the
  names of a directory in some order, and the attribute of an encrypted directory is set.\<close>

definition same_metadata :: "HostMetadata \<Rightarrow> Metadata \<Rightarrow> FileType \<Rightarrow> bool" where
  "same_metadata h m ft \<longleftrightarrow> hm_mode h AND 0xfff = ucast (Metadata_mode m) \<and> hm_uid h = md_uid m \<and> hm_gid h = md_gid m \<and>
     (HostMetadata_is_symlink h \<longleftrightarrow> ft = Symlink) \<and> (HostMetadata_is_dir h \<longleftrightarrow> ft = Directory)"

inductive presents :: "HostFs \<Rightarrow> PathBuf \<Rightarrow> Tree \<Rightarrow> bool" for host where
  regular: "hf_metadata host path = Ok h \<Longrightarrow> same_metadata h m Regular \<Longrightarrow> hf_read_file host path = Ok content \<Longrightarrow>
    presents host path (RegularFile m content)"
| link: "hf_metadata host path = Ok h \<Longrightarrow> same_metadata h m Symlink \<Longrightarrow> hf_read_link host path = Ok target \<Longrightarrow>
    presents host path (SymbolicLink m target)"
| folder: "hf_is_dir host path \<Longrightarrow> hf_metadata host path = Ok h \<Longrightarrow> same_metadata h m Directory \<Longrightarrow>
    hf_stx_attributes host path = Ok a \<Longrightarrow> a AND STATX_ATTR_ENCRYPTED = 0 \<Longrightarrow>
    hf_read_dir host path = Ok (map Ok ns) \<Longrightarrow> filter (\<lambda>n. \<not> is_dot_name n) ns = map fst cs' \<Longrightarrow> mset cs' = mset cs \<Longrightarrow>
    \<forall>c \<in> set cs. hf_entry_is_dir host (child_path path (fst c)) = Ok (tree_type (snd c) = Directory) \<and>
      presents host (child_path path (fst c)) (snd c) \<Longrightarrow>
    presents host path (Folder m cs)"
| locked: "hf_is_dir host path \<Longrightarrow> hf_metadata host path = Ok h \<Longrightarrow> same_metadata h m Directory \<Longrightarrow>
    hf_stx_attributes host path = Ok a \<Longrightarrow> a AND STATX_ATTR_ENCRYPTED \<noteq> 0 \<Longrightarrow>
    presents host path (LockedFolder m)"

lemma host_dir_entry_same:
  assumes "same_metadata h m ft"
  shows "host_dir_entry path content h = Ok (walk_dir_entry path content m)"
proof -
  have "unat (Metadata_mode m) < 65536" using unsigned_less[of "Metadata_mode m", where 'a = nat] by simp
  then have "word_try_from (unat (hm_mode h AND 0xfff)) = Some (Metadata_mode m)"
    using assms by (simp add: same_metadata_def word_try_from_def)
  with assms show ?thesis
    by (simp add: host_dir_entry_def mode_from_metadata_def walk_dir_entry_def same_metadata_def)
qed

lemma is_encrypted_dir_Ok:
  "Path_is_absolute path \<Longrightarrow> 0 \<notin> set path \<Longrightarrow> hf_stx_attributes host path = Ok a \<Longrightarrow>
   is_encrypted_dir host path = Ok (a AND STATX_ATTR_ENCRYPTED \<noteq> 0)"
  by (simp add: is_encrypted_dir_def assert_o_def require_def)

lemma host_new_dir_entry_presents:
  assumes "presents host path t" and "tree_type t \<noteq> Directory"
  shows "\<exists>e. host_new_dir_entry host sha256_hex path = Ok e \<and> listing sha256_hex path t = [e]"
  using assms
proof cases
  case (regular h m content)
  with host_dir_entry_same[OF regular(3)] show ?thesis
    by (simp add: host_new_dir_entry_def same_metadata_def calc_file_sha256_def)
next
  case (link h m target)
  with host_dir_entry_same[OF link(3)] show ?thesis by (simp add: host_new_dir_entry_def same_metadata_def)
qed simp_all

text \<open>The loop over the names of a directory adds the list of each child.\<close>

lemma mounted_entries_lists:
  assumes "filter (\<lambda>n. \<not> is_dot_name n) ns = map fst cs"
    and "\<forall>c \<in> set cs. hf_entry_is_dir host (child_path path (fst c)) = Ok (tree_type (snd c) = Directory) \<and>
      presents host (child_path path (fst c)) (snd c) \<and>
      (tree_type (snd c) = Directory \<longrightarrow>
        (\<exists>es. walk_rec (child_path path (fst c)) = Ok es \<and> mset es = mset (listing sha256_hex (child_path path (fst c)) (snd c))))"
  shows "\<exists>es. mounted_entries host sha256_hex walk_rec path (map Ok ns) acc = Ok (acc @ es) \<and>
     mset es = mset (concat (map (\<lambda>c. listing sha256_hex (child_path path (fst c)) (snd c)) cs))"
  using assms
proof (induction ns arbitrary: cs acc)
  case (Cons n ns)
  show ?case
  proof (cases "is_dot_name n")
    case True
    with Cons show ?thesis by (simp add: Let_def)
  next
    case False
    with Cons.prems obtain c cs' where cs: "cs = c # cs'" "fst c = n" "filter (\<lambda>n. \<not> is_dot_name n) ns = map fst cs'" by (cases cs) auto
    have one: "\<exists>es. mset es = mset (listing sha256_hex (child_path path n) (snd c)) \<and>
        (\<forall>rest. mounted_entries host sha256_hex walk_rec path (Ok n # rest) acc =
          mounted_entries host sha256_hex walk_rec path rest (acc @ es))"
    proof (cases "tree_type (snd c) = Directory")
      case True
      with Cons.prems(2) cs False show ?thesis by (auto simp: Let_def)
    next
      case notdir: False
      with host_new_dir_entry_presents[of host "child_path path n" "snd c" sha256_hex] Cons.prems(2) cs obtain e where
        "host_new_dir_entry host sha256_hex (child_path path n) = Ok e" "listing sha256_hex (child_path path n) (snd c) = [e]" by auto
      with notdir Cons.prems(2) cs False show ?thesis by (intro exI[of _ "[e]"]) (auto simp: Let_def)
    qed
    then obtain es1 where es1: "mset es1 = mset (listing sha256_hex (child_path path n) (snd c))"
      "\<And>rest. mounted_entries host sha256_hex walk_rec path (Ok n # rest) acc = mounted_entries host sha256_hex walk_rec path rest (acc @ es1)"
      by blast
    from Cons.IH[OF cs(3), of "acc @ es1"] Cons.prems(2) cs(1) obtain es2 where
      "mounted_entries host sha256_hex walk_rec path (map Ok ns) (acc @ es1) = Ok ((acc @ es1) @ es2)"
      "mset es2 = mset (concat (map (\<lambda>c. listing sha256_hex (child_path path (fst c)) (snd c)) cs'))" by auto
    with es1 cs show ?thesis by (intro exI[of _ "es1 @ es2"]) (simp del: mounted_entries.simps)
  qed
qed simp

lemma mset_concat_perm: "mset xs = mset ys \<Longrightarrow> mset (concat (map f xs)) = mset (concat (map f ys))"
proof -
  have "mset (concat (map f zs)) = (\<Sum>z \<in># mset zs. mset (f z))" for zs by (induction zs) simp_all
  then show "mset xs = mset ys \<Longrightarrow> ?thesis" by simp
qed

lemma child_ready:
  assumes "Path_is_absolute path" and "0 \<notin> set path" and "names_ok (Folder m cs)" and "c \<in> set cs"
  shows "Path_is_absolute (child_path path (fst c))" and "0 \<notin> set (child_path path (fst c))" and "names_ok (snd c)"
  using assms child_path_absolute by (auto simp: child_path_def is_name_def SEPARATOR_def)

lemma walk_mounted_lists:
  assumes "presents host path t" and "tree_type t = Directory" and "Path_is_absolute path" and "0 \<notin> set path"
    and "names_ok t" and "size t < depth"
  shows "\<exists>es. walk_mounted host sha256_hex depth path = Ok es \<and> mset es = mset (listing sha256_hex path t)"
  using assms
proof (induction depth arbitrary: path t)
  case (Suc depth)
  let ?rec = "walk_mounted host sha256_hex depth"
  have w: "walk_mounted host sha256_hex (Suc depth) path = mounted_dir host sha256_hex ?rec path"
    by (simp add: walk_mounted_def[abs_def])
  note enc = is_encrypted_dir_Ok[OF Suc.prems(3,4)]
  from Suc.prems(1) show ?case
  proof cases
    case (folder h m a ns cs' cs)
    have "\<forall>c \<in> set cs'. hf_entry_is_dir host (child_path path (fst c)) = Ok (tree_type (snd c) = Directory) \<and>
      presents host (child_path path (fst c)) (snd c) \<and>
      (tree_type (snd c) = Directory \<longrightarrow>
        (\<exists>es. ?rec (child_path path (fst c)) = Ok es \<and> mset es = mset (listing sha256_hex (child_path path (fst c)) (snd c))))"
      (is "\<forall>c \<in> _. ?P c")
    proof
      fix c assume "c \<in> set cs'"
      then have c: "c \<in> set cs" using arg_cong[OF folder(9), of set_mset] by simp
      note ready = child_ready[OF Suc.prems(3-5)[unfolded folder(1)] c]
      have "size (snd c) < depth" using Suc.prems(6) child_smaller[OF c, of m] folder(1) by simp
      with folder(10) c Suc.IH ready show "?P c" by auto
    qed
    from mounted_entries_lists[OF folder(8) this, of "[walk_dir_entry path Dir m]"] obtain es where
      es: "mounted_entries host sha256_hex ?rec path (map Ok ns) [walk_dir_entry path Dir m] = Ok (walk_dir_entry path Dir m # es)"
      "mset es = mset (concat (map (\<lambda>c. listing sha256_hex (child_path path (fst c)) (snd c)) cs'))" by auto
    have "walk_mounted host sha256_hex (Suc depth) path = Ok (walk_dir_entry path Dir m # es)"
      unfolding w mounted_dir_def using folder(2,3,5-7) host_dir_entry_same[OF folder(4)] es(1) enc[OF folder(5)]
      by (simp add: assert_o_def)
    with es(2) folder(1) mset_concat_perm[OF folder(9)] show ?thesis by simp
  next
    case (locked h m a)
    have "walk_mounted host sha256_hex (Suc depth) path = Ok [walk_dir_entry path EncryptedDir m]"
      unfolding w mounted_dir_def using locked(2,3,6) host_dir_entry_same[OF locked(4)] enc[OF locked(5)]
      by (simp add: assert_o_def walk_dir_entry_def)
    with locked(1) show ?thesis by simp
  qed (use Suc.prems(2) in simp_all)
qed simp

section \<open>The lines\<close>

lemma render_snoc: "render (ns @ [n]) False = child_path (render ns False) n" if "file_names ns"
proof (cases ns rule: rev_cases)
  case Nil
  then show ?thesis by (simp add: render_def path_suffix_def child_path_def)
next
  case (snoc ms m)
  then have "m \<noteq> []" "SEPARATOR \<notin> set m" using that by (auto simp: is_name_def)
  then have "last m \<noteq> SEPARATOR" by (metis last_in_set)
  then have "last (render ns False) \<noteq> SEPARATOR" using snoc \<open>m \<noteq> []\<close> by (simp add: render_def path_suffix_def)
  with snoc show ?thesis by (simp add: render_def path_suffix_def child_path_def)
qed

lemma child_paths_render: "file_names ns \<Longrightarrow> foldl child_path PATH_ROOT ns = render ns False"
proof (induction ns rule: rev_induct)
  case Nil
  show ?case by (simp add: PATH_ROOT_def render_def)
next
  case (snoc n ns)
  then show ?case by (simp add: render_snoc)
qed

lemma mounted_line_named:
  assumes "Path_is_absolute mp" and "file_names (fst x)"
  shows "mounted_line mp (entry_at mp x) = Ok (WalkDirEntry_format (entry_at PATH_ROOT x) @ [NEWLINE])"
proof -
  obtain ns content m where x: "x = (ns, content, m)" by (cases x)
  have "map Component_as_bytes (map Normal ns) = ns" by (simp add: Component_as_bytes_def comp_def)
  then show ?thesis
    using std_components_names[OF assms] child_paths_render[of ns] assms(2)
    by (simp add: x mounted_line_def strip_prefix_def join_root_def entry_at_def walk_dir_entry_def)
qed

lemma mounted_lines_named:
  assumes "Path_is_absolute mp" and "\<forall>x \<in> set xs. file_names (fst x)"
  shows "mounted_lines mp (map (entry_at mp) xs) = Ok (print_lines (map (\<lambda>x. WalkDirEntry_format (entry_at PATH_ROOT x)) xs))"
  using assms(2) mounted_line_named[OF assms(1)] by (induction xs) (simp_all add: print_lines_def)

lemma mounted_output_prints:
  assumes "presents host mp t" and "tree_type t = Directory" and "Path_is_absolute mp" and "0 \<notin> set mp"
    and "names_ok t" and "size t < depth"
  shows "mounted_output host sha256_hex depth mp =
     Ok (print_lines (map WalkDirEntry_format (sort_entries (listing sha256_hex PATH_ROOT t))))"
proof -
  let ?xs = "named_entries sha256_hex t"
  obtain es where es: "walk_mounted host sha256_hex depth mp = Ok es" "mset es = mset (listing sha256_hex mp t)"
    using walk_mounted_lists[OF assms] by blast
  have f: "\<forall>x \<in> set ?xs. file_names (fst x)" "distinct (map fst ?xs)" using named_entries_names[OF assms(5)] by blast+
  have "sort_entries es = map (entry_at mp) (sort_key named_key ?xs)"
    using sort_entries_unique[OF _ assms(3) f] es(2) by (simp add: listing_named)
  moreover have "Path_is_absolute PATH_ROOT" by (simp add: Path_is_absolute_def PATH_ROOT_def)
  then have "sort_entries (listing sha256_hex PATH_ROOT t) = map (entry_at PATH_ROOT) (sort_key named_key ?xs)"
    using sort_named f(1) by (simp add: listing_named)
  ultimately show ?thesis
    using es(1) mounted_lines_named[OF assms(3), of "sort_key named_key ?xs"] f(1)
    by (simp add: mounted_output_def comp_def)
qed

lemma mount_and_walk_succeeds:
  assumes "fst (Mount_new env path True t) = Ok (Some mp)" and "mounted_output host sha256_hex depth mp = Ok out"
    and "isl (env (snd (Mount_new env path True t)) (umount_cmd mp))"
  shows "fst (mount_and_walk env host sha256_hex depth (Some path) t) = Ok out"
proof -
  obtain t1 where t1: "Mount_new env path True t = (Ok (Some mp), t1)" using assms(1) by (cases "Mount_new env path True t") simp
  moreover obtain x where "env t1 (umount_cmd mp) = Inl x" using assms(3) t1 by (auto simp: isl_def)
  ultimately show ?thesis
    using assms(2)
    by (simp add: mount_and_walk_def handle_name_def Mount_unmount_def release_by_value_def release_impl_def
        run_cmd_def capture_cmd_def comp_defs)
qed

section \<open>Properties\<close>

text \<open>C17: The check of the library against the kernel has no false alarms: if the structures on the device have a tree,
  mounting succeeds, the kernel presents the same tree at the mount point, in whatever order its directories yield their
  entries, and unmounting succeeds, then the program that walks the mounted files ends with an output, its recursion
  ending at any depth above the size of the tree, and with this output the comparison reports success, unless there is a
  newline in a line.\<close>

theorem diff_walk_no_false_alarm:
  assumes "fs_ok disk fs" and "fs_tame fs" and "has_tree disk fs PATH_ROOT t" and "tree_type t = Directory" and "names_ok t"
    and "presents host mp t" and "Path_is_absolute mp" and "0 \<notin> set mp" and "size t < depth"
    and "\<forall>e \<in> set (listing sha256_hex PATH_ROOT t). NEWLINE \<notin> set (WalkDirEntry_format e)"
    and "fst (Mount_new menv path True mtr) = Ok (Some mp)"
    and "isl (menv (snd (Mount_new menv path True mtr)) (umount_cmd mp))"
  shows "\<exists>stdout. fst (mount_and_walk menv host sha256_hex depth (Some path) mtr) = Ok stdout \<and>
     (\<forall>env tr. env tr (MOUNT_AND_WALK path) = Inl stdout \<longrightarrow> fst (diff_loaded env sha256_hex path fs tr) = Ok ())"
proof -
  let ?ls = "map WalkDirEntry_format (sort_entries (listing sha256_hex PATH_ROOT t))"
  have "fst (walk_with_lib sha256_hex PATH_ROOT fs) = Ok (listing sha256_hex PATH_ROOT t)"
    by (rule walk_with_lib_result[OF assms(1-4)])
  then have "actual_lines sha256_hex fs = Ok ?ls" by (simp add: actual_lines_def)
  moreover have "expected_lines (print_lines ?ls) = Ok ?ls"
    unfolding expected_lines_Ok using assms(10) by (simp add: sort_entries_def)
  ultimately have "fst (diff_loaded env sha256_hex path fs tr) = Ok ()"
    if "env tr (MOUNT_AND_WALK path) = Inl (print_lines ?ls)" for env tr
    using diff_loaded_Ok[where env = env and t = tr and path = path and stdout = "print_lines ?ls"] that by (simp add: compare_lines_Ok)
  with mount_and_walk_succeeds[OF assms(11) mounted_output_prints[OF assms(6,4,7,8,5,9)] assms(12)] show ?thesis by blast
qed

definition sample_host :: HostFs where
  "sample_host =
     \<lparr>hf_is_dir = (\<lambda>p. p = [0x2f, 0x6d]),
      hf_metadata = (\<lambda>p. if p = [0x2f, 0x6d] then Ok \<lparr>hm_mode = 0x41ed, hm_uid = 0, hm_gid = 0\<rparr>
        else Ok \<lparr>hm_mode = 0x81a4, hm_uid = 0, hm_gid = 0\<rparr>),
      hf_stx_attributes = (\<lambda>_. Ok 0),
      hf_read_dir = (\<lambda>_. Ok [Ok [0x66]]),
      hf_entry_is_dir = (\<lambda>_. Ok False),
      hf_read_link = (\<lambda>_. Err ''not a link''),
      hf_read_file = (\<lambda>_. Ok [2, 0, 0, 0, 12])\<rparr>"

lemma sample_presents: "presents sample_host [0x2f, 0x6d] sample_tree"
proof (rule presents.folder)
  have child: "child_path [0x2f, 0x6d] [0x66] = [0x2f, 0x6d, 0x2f, 0x66]" by code_simp
  have m: "same_metadata \<lparr>hm_mode = 0x41ed, hm_uid = 0, hm_gid = 0\<rparr> (in_metadata tree_root) Directory"
    "same_metadata \<lparr>hm_mode = 0x81a4, hm_uid = 0, hm_gid = 0\<rparr> (in_metadata file_inode) Regular"
    by code_simp+
  show "hf_metadata sample_host [0x2f, 0x6d] = Ok \<lparr>hm_mode = 0x41ed, hm_uid = 0, hm_gid = 0\<rparr>" by (simp add: sample_host_def)
  show "same_metadata \<lparr>hm_mode = 0x41ed, hm_uid = 0, hm_gid = 0\<rparr> (in_metadata tree_root) Directory" by (rule m(1))
  show "hf_read_dir sample_host [0x2f, 0x6d] = Ok (map Ok [[0x66]])" by (simp add: sample_host_def)
  show "hf_stx_attributes sample_host [0x2f, 0x6d] = Ok 0" by (simp add: sample_host_def)
  have "presents sample_host [0x2f, 0x6d, 0x2f, 0x66] (RegularFile (in_metadata file_inode) [2, 0, 0, 0, 12])"
    by (rule presents.regular[OF _ m(2)]) (simp_all add: sample_host_def)
  with child show "\<forall>c \<in> set [([0x66], RegularFile (in_metadata file_inode) [2, 0, 0, 0, 12])].
      hf_entry_is_dir sample_host (child_path [0x2f, 0x6d] (fst c)) = Ok (tree_type (snd c) = Directory) \<and>
      presents sample_host (child_path [0x2f, 0x6d] (fst c)) (snd c)"
    by (simp add: sample_host_def)
qed (simp_all add: sample_host_def is_dot_name_def DirEntryName_eq_def)

text \<open>Commands on the side of \<^verbatim>\<open>mount_and_walk\<close>: every one succeeds, and the new directory is \<^verbatim>\<open>/m\<close>.\<close>

definition sample_env :: host_env where
  "sample_env t cmd = Inl (if cmd = TEMP_DIR then [0x2f, 0x6d] else [])"

theorem diff_walk_no_false_alarm_witness:
  "\<exists>stdout. fst (mount_and_walk sample_env sample_host (\<lambda>_. [0x30]) 100 (Some [0x61]) []) = Ok stdout \<and>
     fst (diff_loaded (\<lambda>_ _. Inl stdout) (\<lambda>_. [0x30]) [0x61] (sample_fs file_image) []) = Ok ()"
proof -
  have m: "fst (Mount_new sample_env [0x61] True []) = Ok (Some [0x2f, 0x6d])"
    by (simp add: Mount_new_def capture_cmd_def run_cmd_def sample_env_def comp_defs)
  have n: "names_ok sample_tree" by (simp add: is_name_def dots_def SEPARATOR_def)
  have l: "NEWLINE \<notin> set (WalkDirEntry_format (walk_dir_entry [0x2f] Dir (in_metadata tree_root)))"
    "NEWLINE \<notin> set (WalkDirEntry_format (walk_dir_entry [0x2f, 0x66] (RegularHash [0x30]) (in_metadata file_inode)))"
    by code_simp+
  have p: "Path_is_absolute [0x2f, 0x6d]" "0 \<notin> set ([0x2f, 0x6d] :: bytes)" "size sample_tree < 100"
    by (simp_all add: Path_is_absolute_def SEPARATOR_def)
  have u: "isl (sample_env (snd (Mount_new sample_env [0x61] True [])) (umount_cmd [0x2f, 0x6d]))" by (simp add: sample_env_def)
  have "\<exists>stdout. fst (mount_and_walk sample_env sample_host (\<lambda>_. [0x30]) 100 (Some [0x61]) []) = Ok stdout \<and>
     (\<forall>env tr. env tr (MOUNT_AND_WALK [0x61]) = Inl stdout \<longrightarrow> fst (diff_loaded env (\<lambda>_. [0x30]) [0x61] (sample_fs file_image) tr) = Ok ())"
    by (rule diff_walk_no_false_alarm[OF sample_fs_ok sample_fs_tame[OF file_image_parts(6)] sample_has_tree _ n sample_presents p _ m u])
       (use l in \<open>simp_all add: child_path_def PATH_ROOT_def SEPARATOR_def\<close>)
  then show ?thesis by fastforce
qed

end
