(* ===== verification/Test_Data.thy ===== *)
theory Test_Data
  imports Devices Fs_Invariant
begin

text \<open>
  Creating the test data (\<^verbatim>\<open>src/xtask/src/main.rs\<close>): file systems are made with \<^verbatim>\<open>mkfs\<close>, mounted, filled with files, and
  compressed; one of them is cut off from its device while it is mounted, so that it needs recovery. A call of the host
  (\<open>fs::write\<close>, \<open>symlink\<close>, ...) is a command in the trace, under the name of the function. A call that is unwrapped
  panics if it fails; the stack is unwound then, and the local objects are dropped as on any other way out.
\<close>

section \<open>Data of the files\<close>

definition gen_big_block :: "u32 \<Rightarrow> bytes" where
  "gen_big_block i =
     (let block_size = 1024;
          block = replicate block_size 0;
          i_le = to_le_bytes_n 4 i;
          block = i_le @ drop 4 block;
          block = take (block_size - 4) block @ i_le in
      block)"

definition gen_big_file :: "u32 \<Rightarrow> bytes" where
  "gen_big_file num_blocks = concat (map (\<lambda>i. gen_big_block (of_nat i)) [0..<unat num_blocks])"

definition holes_data :: bytes where
  "holes_data =
     (let block_size = 1024 in
      replicate (block_size * 2) 0 @ replicate block_size 0xa1 @ replicate block_size 0xa2 @
      replicate (block_size * 2) 0 @ replicate block_size 0xa3 @ replicate block_size 0xa4 @
      replicate (block_size * 2) 0)"

definition punched :: "(nat \<times> nat) list" where
  "punched = (let block_size = 1024 in map (\<lambda>block. (block_size * block, block_size * 2)) [0, 4, 8])"

section \<open>Calls of the host\<close>

definition host_call :: "host_env \<Rightarrow> string \<Rightarrow> bytes list \<Rightarrow> (trace, unit, string) comp" where
  "host_call env f args = run_cmd env (ascii f # args)"

definition unwrap_call :: "(trace, unit, string) comp \<Rightarrow> (trace, unit, string) comp" where
  "unwrap_call m t = (case m t of (Err _, t') \<Rightarrow> (Panic, t') | x \<Rightarrow> x)"

definition path_exists :: "host_env \<Rightarrow> bytes \<Rightarrow> (trace, bool, string) comp" where
  "path_exists env p t = (case host_call env ''exists'' [p] t of (r, t') \<Rightarrow> (Ok (r = Ok ()), t'))"

definition join :: "bytes \<Rightarrow> string \<Rightarrow> bytes" where
  "join dir name = dir @ ascii (''/'' @ name)"

primrec do_all :: "('s, unit, 'e) comp list \<Rightarrow> ('s, unit, 'e) comp" where
  "do_all [] = ret ()"
| "do_all (m # ms) = bindc m (\<lambda>_. do_all ms)"

definition create_file_with_holes :: "host_env \<Rightarrow> bytes \<Rightarrow> (trace, unit, string) comp" where
  "create_file_with_holes env path =
     bindc (host_call env ''write'' [path, holes_data]) (\<lambda>_.
     bindc (host_call env ''open'' [path]) (\<lambda>_.
     do_all (map (\<lambda>(offset, len).
       host_call env ''fallocate'' [path, ascii ''PUNCH_HOLE|KEEP_SIZE'', ascii (dec offset), ascii (dec len)]) punched)))"

definition zstd_compress :: "host_env \<Rightarrow> bytes \<Rightarrow> (trace, unit, string) comp" where
  "zstd_compress env path = run_cmd env [ascii ''zstd'', ascii ''--rm'', ascii ''--force'', path]"

section \<open>Local objects\<close>

text \<open>The local variables that hold devices. They are dropped at the end of their function, in the reverse of the order in
  which they were declared; one that was moved out is not dropped.\<close>

record Locals =
  lo_loop_dev :: handle
  lo_dm_device :: handle
  lo_mount :: handle

type_synonym 'a tool = "(Locals \<times> trace, 'a, string) comp"

definition no_locals :: Locals where
  "no_locals = \<lparr>lo_loop_dev = None, lo_dm_device = None, lo_mount = None\<rparr>"

definition drop_locals :: "host_env \<Rightarrow> Locals \<Rightarrow> trace \<Rightarrow> trace" where
  "drop_locals env l t = LoopDevice_drop env (lo_loop_dev l) (DmDevice_drop env (lo_dm_device l) (Mount_drop env (lo_mount l) t))"

definition with_locals :: "host_env \<Rightarrow> 'a tool \<Rightarrow> (trace, 'a, string) comp" where
  "with_locals env body t = (case body (no_locals, t) of (r, (l, t')) \<Rightarrow> (r, drop_locals env l t'))"

definition let_mount :: "host_env \<Rightarrow> bytes \<Rightarrow> unit tool" where
  "let_mount env fs_bin = bindc (on_snd (Mount_new env fs_bin False)) (\<lambda>h. modify_fst (\<lambda>l. l\<lparr>lo_mount := h\<rparr>))"

definition let_loop_dev :: "host_env \<Rightarrow> bytes \<Rightarrow> unit tool" where
  "let_loop_dev env file = bindc (on_snd (LoopDevice_new env file)) (\<lambda>h. modify_fst (\<lambda>l. l\<lparr>lo_loop_dev := h\<rparr>))"

definition let_dm_device :: "host_env \<Rightarrow> bytes \<Rightarrow> bytes \<Rightarrow> unit tool" where
  "let_dm_device env name table = bindc (on_snd (DmDevice_create env name table)) (\<lambda>h. modify_fst (\<lambda>l. l\<lparr>lo_dm_device := h\<rparr>))"

definition unmount_local :: "host_env \<Rightarrow> unit tool" where
  "unmount_local env =
     bindc (gets_fst lo_mount) (\<lambda>h. bindc (modify_fst (\<lambda>l. l\<lparr>lo_mount := None\<rparr>)) (\<lambda>_. on_snd (Mount_unmount env h)))"

definition remove_local :: "host_env \<Rightarrow> unit tool" where
  "remove_local env =
     bindc (gets_fst lo_dm_device) (\<lambda>h. bindc (modify_fst (\<lambda>l. l\<lparr>lo_dm_device := None\<rparr>)) (\<lambda>_. on_snd (DmDevice_remove env h)))"

definition detach_local :: "host_env \<Rightarrow> unit tool" where
  "detach_local env =
     bindc (gets_fst lo_loop_dev) (\<lambda>h. bindc (modify_fst (\<lambda>l. l\<lparr>lo_loop_dev := None\<rparr>)) (\<lambda>_. on_snd (LoopDevice_detach env h)))"

text \<open>\<open>mount.path()\<close>.\<close>

definition on_root :: "(bytes \<Rightarrow> (trace, unit, string) comp) \<Rightarrow> unit tool" where
  "on_root f = bindc (gets_fst lo_mount) (\<lambda>h. bindc (lift (handle_name h)) (\<lambda>root. on_snd (f root)))"

section \<open>Making file systems\<close>

datatype FsType = Ext2 | Ext3 | Ext4fs

datatype HashAlg = Tea

record DiskParams =
  dp_path :: bytes
  dp_size_in_kilobytes :: u32
  dp_fs_type :: FsType
  dp_block_size :: u32
  dp_hash_alg :: "HashAlg option"
  dp_inode_size :: "u32 option"

text \<open>The arguments of \<^verbatim>\<open>mkfs\<close>; a variable of its environment comes first.\<close>

definition mkfs_cmd :: "u32 \<Rightarrow> u32 \<Rightarrow> DiskParams \<Rightarrow> cmd" where
  "mkfs_cmd uid gid self =
     (case dp_hash_alg self of Some Tea \<Rightarrow> [ascii ''MKE2FS_CONFIG=xtask/src/tea.mke2fs.conf''] | None \<Rightarrow> []) @
     [ascii (case dp_fs_type self of Ext2 \<Rightarrow> ''mkfs.ext2'' | Ext3 \<Rightarrow> ''mkfs.ext3'' | Ext4fs \<Rightarrow> ''mkfs.ext4''),
      ascii ''-E'', ascii (''root_owner='' @ dec (unat uid) @ '':'' @ dec (unat gid)),
      ascii ''-L'', ascii ''ext4-view testfs'',
      dp_path self, ascii (dec (unat (dp_size_in_kilobytes self)) @ ''k'')] @
     (if dp_fs_type self = Ext4fs then [ascii ''-O'', ascii ''encrypt''] else []) @
     [ascii ''-b'', ascii (dec (unat (dp_block_size self)))] @
     (case dp_inode_size self of Some n \<Rightarrow> [ascii ''-I'', ascii (dec (unat n))] | None \<Rightarrow> [])"

definition DiskParams_create :: "host_env \<Rightarrow> u32 \<Rightarrow> u32 \<Rightarrow> DiskParams \<Rightarrow> (trace, unit, string) comp" where
  "DiskParams_create env uid gid self t =
     (case host_call env ''remove_file'' [dp_path self] t of (_, t) \<Rightarrow> run_cmd env (mkfs_cmd uid gid self) t)"

definition write_numbers :: "host_env \<Rightarrow> bytes \<Rightarrow> nat \<Rightarrow> (trace, unit, string) comp" where
  "write_numbers env dir n = do_all (map (\<lambda>i. host_call env ''write'' [join dir (dec i), ascii (dec i)]) [0..<n])"

definition fill_root :: "host_env \<Rightarrow> bytes \<Rightarrow> (trace, unit, string) comp" where
  "fill_root env root =
     (let call = host_call env; panics = (\<lambda>f args. unwrap_call (host_call env f args));
          dir1 = join root ''dir1''; dir2 = join dir1 ''dir2'';
          medium_dir = join root ''medium_dir''; big_dir = join root ''big_dir''; encrypted_dir = join root ''encrypted_dir'' in
      do_all
       [call ''write'' [join root ''empty_file'', []],
        call ''create_dir'' [join root ''empty_dir''],
        call ''write'' [join root ''small_file'', ascii ''hello, world!''],
        call ''write'' [join root ''owner_file'', []],
        run_cmd env (sudo [ascii ''chown'', ascii ''123:456'', join root ''owner_file'']),
        panics ''create_dir'' [dir1],
        panics ''create_dir'' [dir2],
        call ''symlink'' [ascii ''small_file'', join root ''sym_simple''],
        call ''symlink'' [replicate 59 0x61, join root ''sym_59''],
        call ''symlink'' [replicate 60 0x61, join root ''sym_60''],
        panics ''symlink'' [ascii ''/small_file'', join dir2 ''sym_abs''],
        panics ''symlink'' [ascii ''/dir1'', join dir2 ''sym_abs_dir''],
        panics ''symlink'' [ascii ''../../small_file'', join dir2 ''sym_rel''],
        panics ''symlink'' [ascii ''../../dir1'', join dir2 ''sym_rel_dir''],
        panics ''symlink'' [concat (replicate 341 (ascii ''/..'')), join root ''sym_long''],
        panics ''symlink'' [ascii ''sym_loop_b'', join root ''sym_loop_a''],
        panics ''symlink'' [ascii ''sym_loop_a'', join root ''sym_loop_b''],
        call ''create_dir'' [medium_dir],
        write_numbers env medium_dir 1000,
        call ''create_dir'' [big_dir],
        write_numbers env big_dir 10000,
        create_file_with_holes env (join root ''holes''),
        run_cmd env [ascii ''fscrypt'', ascii ''setup'', ascii ''--all-users'', root],
        call ''create_dir'' [encrypted_dir],
        bindc (capture_cmd env TEMP_DIR) (\<lambda>tmp_dir.
          let raw_key_path = join tmp_dir ''raw_key'' in
          bindc (call ''write'' [raw_key_path, replicate 32 0xab]) (\<lambda>_.
          run_cmd env [ascii ''fscrypt'', ascii ''encrypt'', ascii ''--name'', ascii ''protector1'', ascii ''--source'',
            ascii ''raw_key'', ascii ''--key'', raw_key_path, encrypted_dir])),
        call ''write'' [join encrypted_dir ''file'', ascii ''encrypted!''],
        run_cmd env [ascii ''fscrypt'', ascii ''lock'', encrypted_dir]])"

definition DiskParams_fill :: "host_env \<Rightarrow> DiskParams \<Rightarrow> (trace, unit, string) comp" where
  "DiskParams_fill env self =
     with_locals env (do_all [let_mount env (dp_path self), on_root (fill_root env), unmount_local env])"

definition big_file_size_in_blocks :: u32 where
  "big_file_size_in_blocks = 12 + 256 + (256 * 256) + (256 * 16)"

definition DiskParams_fill_ext2 :: "host_env \<Rightarrow> DiskParams \<Rightarrow> (trace, unit, string) comp" where
  "DiskParams_fill_ext2 env self =
     with_locals env (do_all
       [let_mount env (dp_path self),
        on_root (\<lambda>root. do_all
          [host_call env ''write'' [join root ''small_file'', ascii ''hello, world!''],
           host_call env ''write'' [join root ''big_file'', gen_big_file big_file_size_in_blocks],
           create_file_with_holes env (join root ''holes'')]),
        unmount_local env])"

definition DiskParams_fill_ext3 :: "host_env \<Rightarrow> DiskParams \<Rightarrow> (trace, unit, string) comp" where
  "DiskParams_fill_ext3 env self =
     with_locals env (do_all
       [let_mount env (dp_path self),
        on_root (\<lambda>root. do_all
          [host_call env ''create_dir'' [join root ''medium_dir''],
           write_numbers env (join root ''medium_dir'') 1000])])"

section \<open>A file system that needs recovery\<close>

definition make_dirs :: "host_env \<Rightarrow> bytes \<Rightarrow> (trace, unit, string) comp" where
  "make_dirs env root =
     do_all (map (\<lambda>i.
       let p = join root (''dir'' @ dec i) in
       do_all [host_call env ''create_dir'' [p], host_call env ''remove_dir'' [p], host_call env ''create_dir'' [p]]) [0..<1000])"

definition flakey_table :: "DiskParams \<Rightarrow> bytes \<Rightarrow> DmFlakey" where
  "flakey_table self block_dev =
     \<lparr>dmf_start_sector = 0, dmf_num_sectors = ucast (dp_size_in_kilobytes self) * 1024 div 512, dmf_block_dev = block_dev,
      dmf_offset = 0, dmf_up_interval = 100, dmf_down_interval = 0, dmf_features = []\<rparr>"

definition create_flakey :: "host_env \<Rightarrow> DiskParams \<Rightarrow> unit tool" where
  "create_flakey env self =
     bindc (gets_fst lo_loop_dev) (\<lambda>h.
     bindc (lift (handle_name h)) (\<lambda>block_dev.
     bindc (lift (DmFlakey_as_string (flakey_table self block_dev))) (\<lambda>table.
     let_dm_device env (ascii ''flakey-dev'') table)))"

definition mount_flakey :: "host_env \<Rightarrow> unit tool" where
  "mount_flakey env =
     bindc (gets_fst lo_dm_device) (\<lambda>h.
     bindc (lift (DmDevice_path h)) (\<lambda>path.
     let_mount env path))"

definition drop_writes :: "host_env \<Rightarrow> DiskParams \<Rightarrow> unit tool" where
  "drop_writes env self =
     bindc (gets_fst (\<lambda>l. l)) (\<lambda>l.
     bindc (on_snd (DmDevice_suspend env (lo_dm_device l))) (\<lambda>_.
     bindc (lift (handle_name (lo_loop_dev l))) (\<lambda>block_dev.
     bindc (lift (DmFlakey_as_string ((flakey_table self block_dev)
       \<lparr>dmf_up_interval := 0, dmf_down_interval := 100, dmf_features := [ascii ''drop_writes'']\<rparr>))) (\<lambda>table.
     bindc (on_snd (DmDevice_load_table env (lo_dm_device l) table)) (\<lambda>_.
     on_snd (DmDevice_resume env (lo_dm_device l)))))))"

definition make_filesystem_need_recovery :: "host_env \<Rightarrow> DiskParams \<Rightarrow> (trace, unit, string) comp" where
  "make_filesystem_need_recovery env self =
     with_locals env (do_all
       [let_loop_dev env (dp_path self),
        create_flakey env self,
        mount_flakey env,
        on_root (make_dirs env),
        drop_writes env self,
        unmount_local env,
        remove_local env,
        detach_local env])"

definition run_debugfs :: "host_env \<Rightarrow> DiskParams \<Rightarrow> bytes \<Rightarrow> (trace, bytes, string) comp" where
  "run_debugfs env self request = capture_cmd env [ascii ''debugfs'', ascii ''-R'', request, dp_path self]"

fun str_contains :: "bytes \<Rightarrow> bytes \<Rightarrow> bool" where
  "str_contains [] needle \<longleftrightarrow> needle = []"
| "str_contains (c # cs) needle \<longleftrightarrow> take (length needle) (c # cs) = needle \<or> str_contains cs needle"

definition journal_complete :: "bytes \<Rightarrow> bool" where
  "journal_complete logdump \<longleftrightarrow> str_contains logdump (ascii ''(descriptor block)'') \<and>
     str_contains logdump (ascii ''(revoke table)'') \<and> str_contains logdump (ascii ''(commit block)'')"

definition journal_attempt :: "host_env \<Rightarrow> u32 \<Rightarrow> u32 \<Rightarrow> DiskParams \<Rightarrow> (trace, bool, string) comp" where
  "journal_attempt env uid gid self =
     bindc (DiskParams_create env uid gid self) (\<lambda>_.
     bindc (make_filesystem_need_recovery env self) (\<lambda>_.
     bindc (run_debugfs env self (ascii ''logdump'')) (\<lambda>logdump.
     bindc (lift (map_err (\<lambda>_. ''invalid utf-8'') (String_from_utf8 logdump))) (\<lambda>logdump.
     ret (journal_complete logdump)))))"

primrec attempts :: "nat \<Rightarrow> (trace, bool, string) comp \<Rightarrow> (trace, unit, string) comp" where
  "attempts 0 attempt = lift (Err ''failed to create filesystem'')"
| "attempts (Suc n) attempt = bindc attempt (\<lambda>good. if good then ret () else attempts n attempt)"

definition create_with_journal :: "host_env \<Rightarrow> u32 \<Rightarrow> u32 \<Rightarrow> DiskParams \<Rightarrow> (trace, unit, string) comp" where
  "create_with_journal env uid gid self = attempts 10 (journal_attempt env uid gid self)"

section \<open>Checking directories\<close>

text \<open>\<open>str::lines\<close>: the pieces between newlines, without a carriage return at their ends, and without a last empty piece.\<close>

definition str_lines :: "bytes \<Rightarrow> bytes list" where
  "str_lines s =
     (let ls = split_lines s; ls = (if last ls = [] then butlast ls else ls) in
      map (\<lambda>l. if l \<noteq> [] \<and> last l = 0x0d then butlast l else l) ls)"

definition strip_str_prefix :: "bytes \<Rightarrow> bytes \<Rightarrow> bytes option" where
  "strip_str_prefix p s = (if take (length p) s = p then Some (drop (length p) s) else None)"

text \<open>\<open>u8::from_str\<close>: decimal digits, with or without a plus sign before them.\<close>

definition parse_u8 :: "bytes \<Rightarrow> u8 option" where
  "parse_u8 s =
     (let ds = (if 1 < length s \<and> hd s = byte_of CHR ''+'' then tl s else s);
          n = from_digits 10 (text_of ds) in
      if ds \<noteq> [] \<and> (\<forall>d \<in> set ds. d \<in> set (ascii ''0123456789'')) \<and> n < 256 then Some (of_nat n) else None)"

definition check_dir_htree_depth :: "host_env \<Rightarrow> DiskParams \<Rightarrow> bytes \<Rightarrow> u8 \<Rightarrow> (trace, unit, string) comp" where
  "check_dir_htree_depth env self dir_path expected_depth =
     bindc (run_debugfs env self (ascii ''htree_dump '' @ dir_path)) (\<lambda>stdout.
     bindc (lift (map_err (\<lambda>_. ''invalid utf-8'') (String_from_utf8 stdout))) (\<lambda>stdout.
     bindc (lift (case List.map_filter (\<lambda>line. strip_str_prefix (ascii ''Indirect levels:'') (str_trim line)) (str_lines stdout) of
         [] \<Rightarrow> Err ''htree levels not found'' | depth # _ \<Rightarrow> Ok depth)) (\<lambda>depth.
     bindc (lift (ok_or ''invalid digit'' (parse_u8 (str_trim depth)))) (\<lambda>depth.
     lift (require (depth = expected_depth) ''htree depth is not the expected one'')))))"

definition DiskParams_check :: "host_env \<Rightarrow> DiskParams \<Rightarrow> (trace, unit, string) comp" where
  "DiskParams_check env self =
     bindc (check_dir_htree_depth env self (ascii ''/medium_dir'') 0) (\<lambda>_.
     check_dir_htree_depth env self (ascii ''/big_dir'') 1)"

section \<open>All test data\<close>

definition test_disk :: "bytes \<Rightarrow> nat \<Rightarrow> FsType \<Rightarrow> u32 \<Rightarrow> HashAlg option \<Rightarrow> u32 option \<Rightarrow> DiskParams" where
  "test_disk path size_k fs_type block_size hash_alg inode_size =
     \<lparr>dp_path = path, dp_size_in_kilobytes = of_nat size_k, dp_fs_type = fs_type, dp_block_size = block_size,
      dp_hash_alg = hash_alg, dp_inode_size = inode_size\<rparr>"

definition create_raw_superblock :: "host_env \<Rightarrow> u32 \<Rightarrow> u32 \<Rightarrow> bytes \<Rightarrow> (trace, unit, string) comp" where
  "create_raw_superblock env uid gid dir =
     (let path = join dir ''raw_superblock.bin'' in
      bindc (path_exists env path) (\<lambda>exists.
      if exists then ret ()
      else
        bindc (DiskParams_create env uid gid (test_disk path 128 Ext4fs 1024 None None)) (\<lambda>_.
        bindc (capture_cmd env [ascii ''read'', path]) (\<lambda>data.
        bindc (lift (slice data 1024 2048)) (\<lambda>superblock.
        host_call env ''write'' [path, superblock])))))"

definition create_test_data :: "host_env \<Rightarrow> u32 \<Rightarrow> u32 \<Rightarrow> bytes \<Rightarrow> (trace, unit, string) comp" where
  "create_test_data env uid gid dir =
     (let disk1 = test_disk (join dir ''test_disk1.bin'') (1024 * 64) Ext4fs 1024 None None;
          disk2 = test_disk (join dir ''test_disk_ext2.bin'') (1024 * 96) Ext2 1024 None None;
          disk4k = test_disk (join dir ''test_disk_4k_block_journal.bin'') (1024 * 64) Ext4fs 4096 None None;
          disk3 = test_disk (join dir ''test_disk_ext3.bin'') (1024 * 96) Ext3 1024 (Some Tea) (Some 128) in
      do_all
       [bindc (path_exists env dir) (\<lambda>exists. if exists then ret () else host_call env ''create_dir'' [dir]),
        create_raw_superblock env uid gid dir,
        DiskParams_create env uid gid disk1, DiskParams_fill env disk1, DiskParams_check env disk1, zstd_compress env (dp_path disk1),
        DiskParams_create env uid gid disk2, DiskParams_fill_ext2 env disk2, zstd_compress env (dp_path disk2),
        create_with_journal env uid gid disk4k, zstd_compress env (dp_path disk4k),
        DiskParams_create env uid gid disk3, DiskParams_fill_ext3 env disk3,
        check_dir_htree_depth env disk3 (ascii ''/medium_dir'') 0, zstd_compress env (dp_path disk3)])"

section \<open>The data\<close>

lemma gen_big_block_eq: "gen_big_block i = to_le_bytes_n 4 i @ replicate 1016 0 @ to_le_bytes_n 4 i"
  by (simp add: gen_big_block_def Let_def)

lemma length_gen_big_block: "length (gen_big_block i) = 1024"
  by (simp add: gen_big_block_eq)

lemma concat_blocks:
  assumes "\<And>i. length (f i) = B"
  shows "length (concat (map f [0..<n])) = B * n" and "i < n \<Longrightarrow> take B (drop (B * i) (concat (map f [0..<n]))) = f i"
proof -
  have l: "length (concat (map f [a..<b])) = B * (b - a)" for a b
    using assms by (simp add: length_concat comp_def sum_list_triv)
  then show "length (concat (map f [0..<n])) = B * n" by simp
  assume i: "i < n"
  then have "[0..<n] = [0..<i] @ i # [Suc i..<n]"
    using upt_add_eq_append[of 0 i "n - i"] by (simp add: upt_conv_Cons)
  then have "concat (map f [0..<n]) = concat (map f [0..<i]) @ f i @ concat (map f [Suc i..<n])" by simp
  with l[of 0 i] assms[of i] show "take B (drop (B * i) (concat (map f [0..<n]))) = f i" by simp
qed

section \<open>Devices are given back\<close>

text \<open>From states with \<open>P\<close>, a result satisfies \<open>Q\<close> and a failure \<open>E\<close>.\<close>

definition safe :: "('s \<Rightarrow> bool) \<Rightarrow> ('s \<Rightarrow> bool) \<Rightarrow> ('s, 'a, 'e) comp \<Rightarrow> ('a \<Rightarrow> 's \<Rightarrow> bool) \<Rightarrow> bool" where
  "safe E P m Q \<longleftrightarrow> (\<forall>s. P s \<longrightarrow> (case m s of (Ok x, s') \<Rightarrow> Q x s' | (_, s') \<Rightarrow> E s'))"

lemma safe_bind: "safe E P m Q \<Longrightarrow> (\<And>x. safe E (Q x) (f x) R) \<Longrightarrow> safe E P (bindc m f) R"
  unfolding safe_def bindc_def by (fastforce split: prod.splits outcome.splits)

lemma safe_ret: "(\<And>s. P s \<Longrightarrow> Q x s) \<Longrightarrow> safe E P (ret x) Q"
  by (simp add: safe_def ret_def)

lemma safe_lift: "(\<And>s. P s \<Longrightarrow> E s) \<Longrightarrow> (\<And>x s. P s \<Longrightarrow> Q x s) \<Longrightarrow> safe E P (lift r) Q"
  by (simp add: safe_def lift_def split: outcome.split)

lemma safe_gets: "safe E P (gets_fst g) (\<lambda>x s. P s \<and> x = g (fst s))"
  by (simp add: safe_def gets_fst_def)

lemma safe_modify: "(\<And>l t. P (l, t) \<Longrightarrow> Q () (f l, t)) \<Longrightarrow> safe E P (modify_fst f) Q"
  by (simp add: safe_def modify_fst_def)

lemma safe_do_all: "(\<And>m. m \<in> set ms \<Longrightarrow> safe E P m (\<lambda>_. P)) \<Longrightarrow> safe E P (do_all ms) (\<lambda>_. P)"
proof (induction ms)
  case (Cons m ms)
  then show ?case using safe_bind[of E P m "\<lambda>_. P" "\<lambda>_. do_all ms" "\<lambda>_. P"] by simp
qed (simp add: safe_ret)

lemma safe_on_snd: "(\<And>l. safe (\<lambda>t. E (l, t)) (\<lambda>t. P (l, t)) m (\<lambda>x t. Q x (l, t))) \<Longrightarrow> safe E P (on_snd m) Q"
  unfolding safe_def on_snd_def by (fastforce split: prod.splits outcome.splits)

subsection \<open>Commands that do not matter\<close>

context evolution
begin

lemma keeps_do_all [keeps_intros]: "(\<And>m. m \<in> set ms \<Longrightarrow> keeps R m) \<Longrightarrow> keeps R (do_all ms)"
proof (induction ms)
  case (Cons m ms)
  then show ?case by (simp add: keeps_bindc)
qed (simp add: keeps_ret)

lemma keeps_do_map [keeps_intros]: "(\<And>x. keeps R (f x)) \<Longrightarrow> keeps R (do_all (map f xs))"
  by (rule keeps_do_all) auto

end

interpretation held_ev: evolution "\<lambda>t t'. held t' = held t"
  by unfold_locales simp_all

abbreviation quiet :: "(trace, 'a, string) comp \<Rightarrow> bool" where
  "quiet m \<equiv> keeps (\<lambda>t t'. held t' = held t) m"

lemma quiet_capture [keeps_intros]: "neutral cmd \<Longrightarrow> quiet (capture_cmd env cmd)"
proof -
  assume n: "neutral cmd"
  have "device_step d (cmd, x) = d" for d x
    using n by (cases d; cases x) (simp_all add: neutral_def)
  then show ?thesis by (simp add: keeps_def capture_cmd_def split: sum.split)
qed

lemma quiet_run [keeps_intros]: "neutral cmd \<Longrightarrow> quiet (run_cmd env cmd)"
  unfolding run_cmd_def by (intro keeps_intros)

lemma quiet_call [keeps_intros]: "f \<noteq> ''sudo'' \<Longrightarrow> quiet (host_call env f args)"
  unfolding host_call_def by (intro keeps_intros neutral_cmd) simp

lemma quiet_unwrap [keeps_intros]: "quiet m \<Longrightarrow> quiet (unwrap_call m)"
proof -
  have "snd (unwrap_call m t) = snd (m t)" for t by (simp add: unwrap_call_def split: prod.split outcome.split)
  then show "quiet m \<Longrightarrow> ?thesis" by (simp add: keeps_def)
qed

lemma quiet_exists [keeps_intros]: "quiet (path_exists env p)"
proof -
  have "snd (path_exists env p t) = snd (host_call env ''exists'' [p] t)" for t by (simp add: path_exists_def split: prod.split)
  with quiet_call[of "''exists''" env "[p]"] show ?thesis by (simp add: keeps_def)
qed

lemma neutral_TEMP_DIR [keeps_intros]: "neutral TEMP_DIR"
  unfolding TEMP_DIR_def by (rule neutral_cmd) simp

lemma quiet_holes [keeps_intros]: "quiet (create_file_with_holes env path)"
  unfolding create_file_with_holes_def by (intro keeps_intros) simp_all

lemma quiet_numbers [keeps_intros]: "quiet (write_numbers env dir n)"
  unfolding write_numbers_def by (intro keeps_intros) simp

lemma quiet_dirs [keeps_intros]: "quiet (make_dirs env root)"
  unfolding make_dirs_def Let_def by (rule held_ev.keeps_do_map, rule held_ev.keeps_do_all) (auto intro: quiet_call)

lemma quiet_create: "quiet (DiskParams_create env uid gid self)"
proof -
  have "hd (mkfs_cmd uid gid self) \<noteq> ascii ''sudo''"
    by (cases "dp_hash_alg self"; cases "dp_fs_type self") (auto simp: mkfs_cmd_def split: HashAlg.split)
  moreover have "snd (DiskParams_create env uid gid self t) =
      snd (run_cmd env (mkfs_cmd uid gid self) (snd (host_call env ''remove_file'' [dp_path self] t)))" for t
    by (simp add: DiskParams_create_def split: prod.split)
  ultimately show ?thesis
    using quiet_run[OF neutral_cmd, of "mkfs_cmd uid gid self" env] quiet_call[of "''remove_file''" env "[dp_path self]"]
    by (simp add: keeps_def)
qed

lemma quiet_fill: "quiet (fill_root env root)"
  unfolding fill_root_def Let_def
  by (rule held_ev.keeps_do_all)
     (auto intro!: quiet_call quiet_unwrap quiet_run quiet_capture neutral_cmd neutral_sudo quiet_numbers quiet_holes
       neutral_TEMP_DIR held_ev.keeps_bindc)

subsection \<open>The local objects and the devices that are held\<close>

definition devices_of :: "Locals \<Rightarrow> Device list" where
  "devices_of l = map Mounted (case lo_mount l of None \<Rightarrow> [] | Some m \<Rightarrow> [m]) @
     map DmDev (case lo_dm_device l of None \<Rightarrow> [] | Some d \<Rightarrow> [d]) @
     map LoopDev (case lo_loop_dev l of None \<Rightarrow> [] | Some p \<Rightarrow> [p])"

text \<open>The locals satisfy \<open>p\<close>, and the devices that are held are theirs.\<close>

definition owns :: "(Locals \<Rightarrow> bool) \<Rightarrow> Locals \<times> trace \<Rightarrow> bool" where
  "owns p s \<longleftrightarrow> p (fst s) \<and> held (snd s) = Some (devices_of (fst s))"

text \<open>After a failure the locals still own what is held, provided that giving back works.\<close>

definition failed :: "host_env \<Rightarrow> Locals \<times> trace \<Rightarrow> bool" where
  "failed env s \<longleftrightarrow> (tools_ok env \<longrightarrow> held (snd s) = Some (devices_of (fst s)))"

lemma owns_failed: "owns p s \<Longrightarrow> failed env s"
  by (simp add: owns_def failed_def)

lemma safe_quiet: "quiet m \<Longrightarrow> safe (failed env) (owns p) (on_snd m) (\<lambda>_. owns p)"
proof (rule safe_on_snd)
  fix l assume q: "quiet m"
  show "safe (\<lambda>t. failed env (l, t)) (\<lambda>t. owns p (l, t)) m (\<lambda>_ t. owns p (l, t))"
    unfolding safe_def
  proof (intro allI impI)
    fix t assume "owns p (l, t)"
    moreover obtain r t' where m: "m t = (r, t')" by (cases "m t") auto
    moreover have "held t' = held t" using keepsD[OF q m] by simp
    ultimately show "case m t of (Ok x, t') \<Rightarrow> owns p (l, t') | (_, t') \<Rightarrow> failed env (l, t')"
      by (cases r) (auto simp: owns_def failed_def)
  qed
qed

lemma safe_owns_lift: "safe (failed env) (owns p) (lift r) (\<lambda>_. owns p)"
  by (rule safe_lift) (auto dest: owns_failed)

lemma safe_owns_gets: "(\<And>x. safe E (owns p) (f x) Q) \<Longrightarrow> safe E (owns p) (bindc (gets_fst g) f) Q"
  by (rule safe_bind[OF safe_gets]) (simp add: safe_def)

lemma safe_on_root: "(\<And>root. quiet (f root)) \<Longrightarrow> safe (failed env) (owns p) (on_root f) (\<lambda>_. owns p)"
  unfolding on_root_def by (intro safe_owns_gets safe_bind[OF safe_owns_lift] safe_quiet)

text \<open>Acquiring: a command that succeeds, and then the local is set.\<close>

lemma safe_acquire:
  assumes "\<And>stdout. acquires cmd stdout = Some d" and "\<And>l. p l \<Longrightarrow> q (f l) \<and> devices_of (f l) = d # devices_of l"
  shows "safe (failed env) (owns p) (bindc (on_snd (run_cmd env cmd)) (\<lambda>_. modify_fst f)) (\<lambda>_. owns q)"
  unfolding safe_def
proof (intro allI impI)
  fix s assume P: "owns p s"
  obtain l t where s: "s = (l, t)" by (cases s)
  show "case bindc (on_snd (run_cmd env cmd)) (\<lambda>_. modify_fst f) s of (Ok _, s') \<Rightarrow> owns q s' | (_, s') \<Rightarrow> failed env s'"
    using P assms by (cases "env t cmd") (simp_all add: s run_cmd_def capture_cmd_def comp_defs owns_def failed_def)
qed

lemma bindc_assoc: "bindc (bindc m f) g = bindc m (\<lambda>x. bindc (f x) g)"
  by (rule ext) (auto simp: bindc_def split: prod.split outcome.split)

lemma bindc_ret: "bindc (ret x) f = f x"
  by (rule ext) (simp add: bindc_def ret_def)

lemmas let_simps = on_snd_bindc on_snd_ret bindc_assoc bindc_ret

lemma safe_let_mount:
  "safe (failed env) (owns (\<lambda>l. k (lo_loop_dev l) (lo_dm_device l) \<and> lo_mount l = None)) (let_mount env fs_bin)
     (\<lambda>_. owns (\<lambda>l. k (lo_loop_dev l) (lo_dm_device l)))"
  unfolding let_mount_def Mount_new_def let_simps
  by (intro safe_bind[OF safe_quiet] safe_acquire quiet_capture neutral_TEMP_DIR) (auto simp: devices_of_def)

lemma safe_let_dm_device:
  "safe (failed env) (owns (\<lambda>l. lo_dm_device l = None \<and> lo_mount l = None)) (let_dm_device env name table) (\<lambda>_. owns (\<lambda>l. lo_mount l = None))"
  unfolding let_dm_device_def DmDevice_create_def let_simps
  by (intro safe_acquire) (auto simp: devices_of_def)

lemma safe_let_loop_dev:
  "safe (failed env) (owns (\<lambda>l. l = no_locals)) (let_loop_dev env file) (\<lambda>_. owns (\<lambda>l. lo_dm_device l = None \<and> lo_mount l = None))"
  unfolding safe_def
proof (intro allI impI)
  fix s assume P: "owns (\<lambda>l. l = no_locals) s"
  obtain l t where s: "s = (l, t)" by (cases s)
  show "case let_loop_dev env file s of (Ok _, s') \<Rightarrow> owns (\<lambda>l. lo_dm_device l = None \<and> lo_mount l = None) s' | (_, s') \<Rightarrow> failed env s'"
    using P by (cases "env t (losetup_cmd file)")
      (auto simp: s let_loop_dev_def LoopDevice_new_def capture_cmd_def comp_defs owns_def failed_def devices_of_def no_locals_def
        String_from_utf8_def tools_ok_def)
qed

text \<open>Giving back the device on top.\<close>

lemma release_by_value_cases:
  assumes "\<And>name. acquires (release name) = (\<lambda>_. None)" and "\<And>name. releases (release name) = Some (dev name)"
    and "held t = Some ((case h of None \<Rightarrow> [] | Some n \<Rightarrow> [dev n]) @ ds)"
  shows "case release_by_value env release h t of (Ok _, t') \<Rightarrow> held t' = Some ds | (_, t') \<Rightarrow> \<not> tools_ok env"
proof (cases h)
  case None
  with assms(3) show ?thesis
    by (simp add: release_by_value_def drop_handle_def release_impl_def comp_defs)
next
  case (Some n)
  show ?thesis
  proof (cases "env t (release n)")
    case (Inl out)
    with assms Some show ?thesis
      by (simp add: release_by_value_def drop_handle_def release_impl_def run_cmd_def capture_cmd_def comp_defs)
  next
    case (Inr e)
    then have "\<not> tools_ok env" using assms(2)[of n] unfolding tools_ok_def by (metis isl_def option.discI sum.distinct(1))
    with Inr Some show ?thesis
      by (simp add: release_by_value_def release_impl_def run_cmd_def capture_cmd_def comp_defs)
  qed
qed

lemma safe_release:
  assumes "\<And>name. acquires (release name) = (\<lambda>_. None)" and "\<And>name. releases (release name) = Some (dev name)"
    and l: "\<And>l. p l \<Longrightarrow> q (clear l) \<and> devices_of l = (case get l of None \<Rightarrow> [] | Some n \<Rightarrow> [dev n]) @ devices_of (clear l)"
  shows "safe (failed env) (owns p) (bindc (gets_fst get) (\<lambda>h. bindc (modify_fst clear) (\<lambda>_. on_snd (release_by_value env release h))))
     (\<lambda>_. owns q)"
  unfolding safe_def
proof (intro allI impI)
  fix s assume P: "owns p s"
  obtain l0 t where s: "s = (l0, t)" by (cases s)
  from P l[of l0] have "case release_by_value env release (get l0) t of (Ok _, t') \<Rightarrow> held t' = Some (devices_of (clear l0)) | (_, t') \<Rightarrow> \<not> tools_ok env"
    by (intro release_by_value_cases[OF assms(1,2)]) (simp add: owns_def s)
  with P l[of l0] show "case bindc (gets_fst get) (\<lambda>h. bindc (modify_fst clear) (\<lambda>_. on_snd (release_by_value env release h))) s of
      (Ok _, s') \<Rightarrow> owns q s' | (_, s') \<Rightarrow> failed env s'"
    by (auto simp: s comp_defs owns_def failed_def split: prod.splits outcome.splits)
qed

lemma safe_unmount:
  "safe (failed env) (owns (\<lambda>l. k (lo_loop_dev l) (lo_dm_device l))) (unmount_local env)
     (\<lambda>_. owns (\<lambda>l. k (lo_loop_dev l) (lo_dm_device l) \<and> lo_mount l = None))"
  unfolding unmount_local_def Mount_unmount_def by (rule safe_release[where dev = Mounted]) (auto simp: devices_of_def split: option.split)

lemma safe_remove:
  "safe (failed env) (owns (\<lambda>l. lo_mount l = None)) (remove_local env) (\<lambda>_. owns (\<lambda>l. lo_dm_device l = None \<and> lo_mount l = None))"
  unfolding remove_local_def DmDevice_remove_def by (rule safe_release[where dev = DmDev]) (auto simp: devices_of_def split: option.split)

lemma safe_detach:
  "safe (failed env) (owns (\<lambda>l. lo_dm_device l = None \<and> lo_mount l = None)) (detach_local env) (\<lambda>_. owns (\<lambda>l. l = no_locals))"
  unfolding detach_local_def LoopDevice_detach_def
  by (rule safe_release[where dev = LoopDev]) (auto simp: devices_of_def no_locals_def split: option.split)

text \<open>The end of a function.\<close>

lemma drop_handle_held:
  assumes "\<And>name. acquires (release name) = (\<lambda>_. None)" and "\<And>name. releases (release name) = Some (dev name)"
    and "tools_ok env" and "held t = Some (map dev (case h of None \<Rightarrow> [] | Some n \<Rightarrow> [n]) @ ds)"
  shows "held (drop_handle env release h t) = Some ds"
proof (cases h)
  case None
  with assms(4) show ?thesis by (simp add: drop_handle_def release_impl_def comp_defs)
next
  case (Some n)
  obtain out where "env t (release n) = Inl out"
    using assms(2)[of n] assms(3) unfolding tools_ok_def isl_def by blast
  with assms Some show ?thesis
    by (simp add: drop_handle_def release_impl_def run_cmd_def capture_cmd_def comp_defs)
qed

lemma drop_locals_held:
  assumes "tools_ok env" and "held t = Some (devices_of l)"
  shows "held (drop_locals env l t) = Some []"
  unfolding drop_locals_def LoopDevice_drop_def DmDevice_drop_def Mount_drop_def
  by (rule drop_handle_held[where dev = LoopDev], simp_all add: assms(1) fun_eq_iff,
      rule drop_handle_held[where dev = DmDev], simp_all add: assms(1) fun_eq_iff,
      rule drop_handle_held[where dev = Mounted], simp_all add: assms fun_eq_iff devices_of_def)

lemma drop_no_locals: "drop_locals env no_locals t = t"
  by (simp add: drop_locals_def LoopDevice_drop_def DmDevice_drop_def Mount_drop_def drop_handle_def release_impl_def
      no_locals_def comp_defs)

lemma with_locals_held:
  assumes "safe (failed env) (owns (\<lambda>l. l = no_locals)) body (\<lambda>_. owns q)" and "held t = Some []"
    and "tools_ok env \<or> (\<exists>x. fst (with_locals env body t) = Ok x) \<and> (\<forall>l. q l \<longrightarrow> l = no_locals)"
  shows "held (snd (with_locals env body t)) = Some []"
proof -
  have "owns (\<lambda>l. l = no_locals) (no_locals, t)" using assms(2) by (simp add: owns_def devices_of_def no_locals_def)
  with assms(1) have c: "case body (no_locals, t) of (Ok x, s') \<Rightarrow> owns q s' | (_, s') \<Rightarrow> failed env s'"
    by (simp add: safe_def)
  obtain r l t' where b: "body (no_locals, t) = (r, (l, t'))" by (metis surj_pair)
  show ?thesis
  proof (cases "tools_ok env")
    case True
    have "failed env (l, t')" using c b owns_failed by (cases r) auto
    with True drop_locals_held[OF True, of t' l] b show ?thesis by (simp add: failed_def with_locals_def)
  next
    case False
    with assms(3) b have "\<exists>x. r = Ok x" "\<forall>l. q l \<longrightarrow> l = no_locals" by (auto simp: with_locals_def)
    with c b have "l = no_locals" "held t' = Some (devices_of l)" by (auto simp: owns_def)
    with b show ?thesis by (simp add: with_locals_def drop_no_locals devices_of_def) (simp add: no_locals_def)
  qed
qed

lemma recovery_safe:
  "safe (failed env) (owns (\<lambda>l. l = no_locals))
     (do_all [let_loop_dev env (dp_path self), create_flakey env self, mount_flakey env, on_root (make_dirs env),
        drop_writes env self, unmount_local env, remove_local env, detach_local env]) (\<lambda>_. owns (\<lambda>l. l = no_locals))"
proof -
  have flakey: "safe (failed env) (owns (\<lambda>l. lo_dm_device l = None \<and> lo_mount l = None)) (create_flakey env self) (\<lambda>_. owns (\<lambda>l. lo_mount l = None))"
    unfolding create_flakey_def by (intro safe_owns_gets safe_bind[OF safe_owns_lift] safe_let_dm_device)
  have mount: "safe (failed env) (owns (\<lambda>l. lo_mount l = None)) (mount_flakey env) (\<lambda>_. owns (\<lambda>_. True))"
    unfolding mount_flakey_def using safe_let_mount[of env "\<lambda>_ _. True"]
    by (intro safe_owns_gets safe_bind[OF safe_owns_lift]) simp
  have "quiet (DmDevice_suspend env h)" "quiet (DmDevice_resume env h)" "quiet (DmDevice_load_table env h table)" for h table
    unfolding DmDevice_suspend_def DmDevice_resume_def DmDevice_load_table_def
    by (intro keeps_intros neutral_dmsetup; simp)+
  then have writes: "safe (failed env) (owns (\<lambda>_. True)) (drop_writes env self) (\<lambda>_. owns (\<lambda>_. True))"
    unfolding drop_writes_def by (intro safe_owns_gets safe_bind[OF safe_owns_lift] safe_bind[OF safe_quiet] safe_quiet)
  have root: "safe (failed env) (owns (\<lambda>_. True)) (on_root (make_dirs env)) (\<lambda>_. owns (\<lambda>_. True))"
    by (rule safe_on_root[OF quiet_dirs])
  have unmount: "safe (failed env) (owns (\<lambda>_. True)) (unmount_local env) (\<lambda>_. owns (\<lambda>l. lo_mount l = None))"
    using safe_unmount[of env "\<lambda>_ _. True"] by simp
  show ?thesis
    unfolding do_all.simps
    by (rule safe_bind[OF safe_let_loop_dev] safe_bind[OF flakey] safe_bind[OF mount] safe_bind[OF root] safe_bind[OF writes]
        safe_bind[OF unmount] safe_bind[OF safe_remove] safe_bind[OF safe_detach])+ (rule safe_ret)
qed

lemma fill_safe:
  assumes "\<And>root. quiet (f root)"
  shows "safe (failed env) (owns (\<lambda>l. l = no_locals)) (do_all [let_mount env fs_bin, on_root f, unmount_local env]) (\<lambda>_. owns (\<lambda>l. l = no_locals))"
    and "safe (failed env) (owns (\<lambda>l. l = no_locals)) (do_all [let_mount env fs_bin, on_root f]) (\<lambda>_. owns (\<lambda>_. True))"
proof -
  let ?k = "\<lambda>l. lo_loop_dev l = None \<and> lo_dm_device l = None"
  have n: "(\<lambda>l. l = no_locals) = (\<lambda>l. ?k l \<and> lo_mount l = None)" by (auto simp: no_locals_def fun_eq_iff)
  have m: "safe (failed env) (owns (\<lambda>l. l = no_locals)) (let_mount env fs_bin) (\<lambda>_. owns ?k)"
    unfolding n using safe_let_mount[of env "\<lambda>a b. a = None \<and> b = None"] by simp
  have u: "safe (failed env) (owns ?k) (unmount_local env) (\<lambda>_. owns (\<lambda>l. l = no_locals))"
    unfolding n using safe_unmount[of env "\<lambda>a b. a = None \<and> b = None"] by simp
  show "safe (failed env) (owns (\<lambda>l. l = no_locals)) (do_all [let_mount env fs_bin, on_root f, unmount_local env]) (\<lambda>_. owns (\<lambda>l. l = no_locals))"
    unfolding do_all.simps by (rule safe_bind[OF m] safe_bind[OF safe_on_root[OF assms]] safe_bind[OF u])+ (rule safe_ret)
  show "safe (failed env) (owns (\<lambda>l. l = no_locals)) (do_all [let_mount env fs_bin, on_root f]) (\<lambda>_. owns (\<lambda>_. True))"
    unfolding do_all.simps by (rule safe_bind[OF m] safe_bind[OF safe_on_root[OF assms]])+ (rule safe_ret, simp add: owns_def)
qed

lemma recovery_held:
  assumes "held t = Some []" and "tools_ok env \<or> fst (make_filesystem_need_recovery env self t) = Ok ()"
  shows "held (snd (make_filesystem_need_recovery env self t)) = Some []"
  using with_locals_held[OF recovery_safe assms(1)] assms(2) unfolding make_filesystem_need_recovery_def by blast

lemma quiet_fill_ext2:
  "quiet (do_all [host_call env ''write'' [join root ''small_file'', ascii ''hello, world!''],
     host_call env ''write'' [join root ''big_file'', gen_big_file big_file_size_in_blocks],
     create_file_with_holes env (join root ''holes'')])"
  by (rule held_ev.keeps_do_all) (auto intro: quiet_call quiet_holes)

lemma quiet_fill_ext3:
  "quiet (do_all [host_call env ''create_dir'' [join root ''medium_dir''], write_numbers env (join root ''medium_dir'') 1000])"
  by (rule held_ev.keeps_do_all) (auto intro: quiet_call quiet_numbers)

lemma fill_held:
  assumes "held t = Some []"
  shows "tools_ok env \<or> fst (DiskParams_fill env self t) = Ok () \<Longrightarrow> held (snd (DiskParams_fill env self t)) = Some []"
    and "tools_ok env \<or> fst (DiskParams_fill_ext2 env self t) = Ok () \<Longrightarrow> held (snd (DiskParams_fill_ext2 env self t)) = Some []"
    and "tools_ok env \<Longrightarrow> held (snd (DiskParams_fill_ext3 env self t)) = Some []"
  unfolding DiskParams_fill_def DiskParams_fill_ext2_def DiskParams_fill_ext3_def
  by (rule with_locals_held[OF fill_safe(1)[OF quiet_fill] assms], blast,
      rule with_locals_held[OF fill_safe(1)[OF quiet_fill_ext2] assms], blast,
      rule with_locals_held[OF fill_safe(2)[OF quiet_fill_ext3] assms], blast)

text \<open>Nothing is held before, and nothing after, if giving back works.\<close>

abbreviation gives_back :: "host_env \<Rightarrow> trace \<Rightarrow> trace \<Rightarrow> bool" where
  "gives_back env t t' \<equiv> tools_ok env \<longrightarrow> held t = Some [] \<longrightarrow> held t' = Some []"

interpretation gives_back_ev: evolution "gives_back env" for env
  by unfold_locales simp_all

lemma quiet_gives_back: "quiet m \<Longrightarrow> keeps (gives_back env) m"
  by (simp add: keeps_def)

lemma gives_back_parts:
  "keeps (gives_back env) (make_filesystem_need_recovery env self)" "keeps (gives_back env) (DiskParams_fill env self)"
  "keeps (gives_back env) (DiskParams_fill_ext2 env self)" "keeps (gives_back env) (DiskParams_fill_ext3 env self)"
  using recovery_held fill_held by (simp_all add: keeps_def)

lemma neutral_tools: "neutral [ascii ''zstd'', ascii ''--rm'', ascii ''--force'', path]" "neutral [ascii ''debugfs'', ascii ''-R'', request, path]"
  "neutral [ascii ''read'', path]"
  by (rule neutral_cmd; simp)+

lemma quiet_parts:
  "quiet (zstd_compress env path)" "quiet (run_debugfs env self request)" "quiet (check_dir_htree_depth env self d n)"
  "quiet (DiskParams_check env self)" "quiet (create_raw_superblock env uid gid dir)"
  unfolding zstd_compress_def run_debugfs_def check_dir_htree_depth_def DiskParams_check_def create_raw_superblock_def Let_def
  by (intro keeps_intros neutral_tools quiet_create; simp)+

lemma journal_gives_back: "keeps (gives_back env) (create_with_journal env uid gid self)"
proof -
  have a: "keeps (gives_back env) (journal_attempt env uid gid self)"
    unfolding journal_attempt_def
    by (intro gives_back_ev.keeps_bindc gives_back_ev.keeps_lift gives_back_ev.keeps_ret quiet_gives_back[OF quiet_create]
        gives_back_parts quiet_gives_back[OF quiet_parts(2)])
  have "keeps (gives_back env) (attempts n (journal_attempt env uid gid self))" for n
  proof (induction n)
    case (Suc n)
    then show ?case unfolding attempts.simps by (intro gives_back_ev.keeps_bindc[OF a] keeps_if gives_back_ev.keeps_ret)
  qed (simp add: gives_back_ev.keeps_lift)
  then show ?thesis by (simp add: create_with_journal_def)
qed

lemma test_data_gives_back: "keeps (gives_back env) (create_test_data env uid gid dir)"
proof -
  have d: "quiet (bindc (path_exists env dir) (\<lambda>exists. if exists then ret () else host_call env ''create_dir'' [dir]))"
    by (intro keeps_intros) simp
  show ?thesis
    unfolding create_test_data_def Let_def
    by (rule gives_back_ev.keeps_do_all)
       (auto intro: gives_back_parts journal_gives_back quiet_gives_back[OF quiet_create] quiet_gives_back[OF d]
         quiet_gives_back[OF quiet_parts(1)] quiet_gives_back[OF quiet_parts(3)] quiet_gives_back[OF quiet_parts(4)]
         quiet_gives_back[OF quiet_parts(5)])
qed

section \<open>Properties\<close>

text \<open>C20: Making a file system that needs recovery gives back what it takes: the file system is unmounted, the device of the device
  mapper is removed and the loop device is detached, each exactly once and in the reverse of the order in which
  they were acquired. This holds whenever the function reports success, and, if the commands that give back work
  and \<^verbatim>\<open>losetup\<close> prints text, also whatever other command fails.\<close>

theorem recovery_gives_back:
  assumes "held t = Some []" and "tools_ok env \<or> fst (make_filesystem_need_recovery env self t) = Ok ()"
  shows "held (snd (make_filesystem_need_recovery env self t)) = Some []"
  by (rule recovery_held[OF assms])

text \<open>A host on which no directory can be made.\<close>

definition full_host :: host_env where
  "full_host t cmd = (if hd cmd = ascii ''create_dir'' then Inr ''no space left'' else Inl [])"

lemma full_host_ok: "tools_ok full_host"
proof -
  have "isl (full_host t cmd)" if "releases cmd \<noteq> None" for t cmd
    using that by (auto simp: full_host_def releases_def device_cmds split: list.splits if_splits)
  then show ?thesis by (auto simp: tools_ok_def full_host_def split: if_splits)
qed

theorem recovery_gives_back_witness:
  "held (snd (make_filesystem_need_recovery full_host (test_disk [0x61] 1024 Ext4fs 1024 None None) [])) = Some []"
  by (rule recovery_gives_back) (simp_all add: held_def full_host_ok)

text \<open>C31: Creating all test data leaves nothing mounted and no device behind, whatever command or call of the host fails,
  if the commands that give back work and \<^verbatim>\<open>losetup\<close> prints text.\<close>

theorem create_test_data_gives_back:
  assumes "tools_ok env" and "held t = Some []"
  shows "held (snd (create_test_data env uid gid dir t)) = Some []"
  using test_data_gives_back[of env uid gid dir] assms by (simp add: keeps_def)

theorem create_test_data_gives_back_witness: "held (snd (create_test_data full_host 0 0 [0x61] [])) = Some []"
  by (rule create_test_data_gives_back) (simp_all add: held_def full_host_ok)

text \<open>The big file of the test data has the requested number of blocks of 1024 bytes, and each of them holds its own index at its
  start and at its end, and zeros between.\<close>

theorem big_file_blocks:
  assumes "i < unat n"
  shows "length (gen_big_file n) = 1024 * unat n \<and>
     take 1024 (drop (1024 * i) (gen_big_file n)) = to_le_bytes_n 4 (of_nat i :: u32) @ replicate 1016 0 @ to_le_bytes_n 4 (of_nat i :: u32)"
  using concat_blocks[of "\<lambda>i. gen_big_block (of_nat i)" 1024, where n = "unat n"] length_gen_big_block assms
  by (simp only: gen_big_file_def gen_big_block_eq)

theorem big_file_blocks_witness:
  "length (gen_big_file 3) = 3072 \<and> take 4 (take 1024 (drop 2048 (gen_big_file 3))) = [2, 0, 0, 0]"
proof -
  have "to_le_bytes_n 4 (2 :: u32) = [2, 0, 0, 0]" "unat (3 :: u32) = 3" by code_simp+
  with big_file_blocks[of 2 3] show ?thesis by simp
qed

text \<open>The ranges that are punched out of the file with holes are exactly its zeros, so that the holes do not change what is
  read.\<close>

lemma holes_punched:
  "j < length holes_data \<Longrightarrow> holes_data ! j = 0 \<longleftrightarrow> (\<exists>(offset, len) \<in> set punched. offset \<le> j \<and> j < offset + len)"
  by (auto simp: holes_data_def punched_def nth_append Let_def)

text \<open>Filling the third test disk reports success also if unmounting it fails: unlike the other two, the function does not unmount
  but lets the object go out of scope. Here the file system is still mounted when it is checked and compressed.\<close>

definition busy_host :: host_env where
  "busy_host t cmd = (if releases cmd \<noteq> None then Inr ''target is busy'' else Inl [])"

lemma busy_host_call: "f \<noteq> ''sudo'' \<Longrightarrow> fst (host_call busy_host f args t) = Ok ()"
  using neutral_cmd[of "ascii f # args"]
  by (simp add: host_call_def run_cmd_def capture_cmd_def busy_host_def neutral_def comp_defs)

lemma do_all_Ok: "(\<And>m t. m \<in> set ms \<Longrightarrow> fst (m t) = Ok ()) \<Longrightarrow> fst (do_all ms t) = Ok ()"
proof (induction ms arbitrary: t)
  case (Cons m ms)
  have "fst (m t) = Ok ()" using Cons.prems by simp
  then obtain t' where "m t = (Ok (), t')" by (cases "m t") simp
  with Cons show ?case by (simp add: bindc_def)
qed (simp add: ret_def)

lemma busy_host_drop: "drop_handle busy_host umount_cmd (Some mp) t = t @ [(umount_cmd mp, Inr ''target is busy'')]"
  by (simp add: drop_handle_def release_impl_def run_cmd_def capture_cmd_def busy_host_def comp_defs)

theorem fill_ext3_ignores_unmount:
  "fst (DiskParams_fill_ext3 busy_host self []) = Ok () \<and> held (snd (DiskParams_fill_ext3 busy_host self [])) = Some [Mounted []]"
proof -
  let ?files = "\<lambda>root. do_all [host_call busy_host ''create_dir'' [join root ''medium_dir''],
     write_numbers busy_host (join root ''medium_dir'') 1000]"
  let ?t = "[(TEMP_DIR, Inl []), (mount_cmd False (dp_path self) [], Inl [])] :: trace"
  have n: "releases TEMP_DIR = None" "acquires TEMP_DIR [] = None" using neutral_TEMP_DIR by (simp_all add: neutral_def)
  have m: "releases (mount_cmd False (dp_path self) []) = None" by (simp add: releases_def device_cmds)
  have h: "held ?t = Some [Mounted []]"
    using n by (simp add: held_def)
  have "fst (?files [] ?t) = Ok ()"
    by (rule do_all_Ok) (auto simp: busy_host_call write_numbers_def intro!: do_all_Ok)
  then obtain t' where f: "?files [] ?t = (Ok (), t')" by (metis prod.collapse)
  have "held t' = Some [Mounted []]" using keepsD[OF quiet_fill_ext3 f] h by simp
  moreover have "let_mount busy_host (dp_path self) (no_locals, []) = (Ok (), (no_locals\<lparr>lo_mount := Some []\<rparr>, ?t))"
    using n(1) m by (simp add: let_mount_def Mount_new_def run_cmd_def capture_cmd_def busy_host_def comp_defs)
  moreover have "on_root ?files (no_locals\<lparr>lo_mount := Some []\<rparr>, ?t) = (Ok (), (no_locals\<lparr>lo_mount := Some []\<rparr>, t'))"
    using f by (simp add: on_root_def handle_name_def gets_fst_def lift_def on_snd_def bindc_def del: do_all.simps)
  moreover have "drop_handle env release None t = t" for env release t
    by (simp add: drop_handle_def release_impl_def comp_defs)
  ultimately have "DiskParams_fill_ext3 busy_host self [] = (Ok (), t' @ [(umount_cmd [], Inr ''target is busy'')])"
    unfolding DiskParams_fill_ext3_def with_locals_def
    by (simp add: do_all.simps(2)[of "let_mount busy_host (dp_path self)"] do_all.simps(2)[of "on_root ?files"] bindc_def
        ret_def drop_locals_def Mount_drop_def DmDevice_drop_def LoopDevice_drop_def busy_host_drop no_locals_def del: do_all.simps(2))
  with \<open>held t' = Some [Mounted []]\<close> show ?thesis by simp
qed

end
