(* ===== verification/Spec2Isabelle.thy ===== *)
theory Spec2Isabelle
  imports Canonical Session Error_Text Orders Cat Tree_Walk Mount_Walk Test_Data
begin

text \<open>
  A verification of the crate \<^verbatim>\<open>ext4-view\<close> (sources under \<^verbatim>\<open>src/src/\<close>): read-only access to ext4 file
  systems on untrusted storage; and of the programs of its repository that use it (\<^verbatim>\<open>src/examples/\<close>, \<^verbatim>\<open>src/xtask/\<close>).

  \<^bold>\<open>The program.\<close> \<^verbatim>\<open>Ext4::load\<close> reads the superblock, the block group descriptors and the journal through an
  \<^verbatim>\<open>Ext4Read\<close>. Every later access to the device goes through \<^verbatim>\<open>Ext4::read_from_block\<close>, which maps the
  block index through the journal and keeps blocks in an LRU cache. Inodes are located and parsed on
  top of it; a file's blocks come from an iterator over its extent tree or its block map; files and
  directories are read through that iterator; a name is looked up by a scan of the directory or in
  its htree; path resolution walks along a path and follows symbolic links; the public operations
  resolve a path and act on the inode. Three programs use the library: the example \<^verbatim>\<open>cat\<close>, the benchmark that hashes a
  whole file system, and the check \<^verbatim>\<open>diff-walk\<close>, which compares the library with the kernel.

  \<^bold>\<open>How the code is modelled.\<close> A Rust computation has an \<open>outcome\<close>: \<open>Ok v\<close>, \<open>Err e\<close>, \<open>Panic\<close> (a failed
  assertion, slice access, unwrap, or overflow of a checked operation), or \<open>Diverge\<close> (a loop that does
  not end). Stateful code is in the monad \<open>comp\<close> (\<open>'s \<Rightarrow> 'a outcome \<times> 's\<close>), with \<open>bindc\<close> for the operator
  \<^verbatim>\<open>?\<close>. The loaded file system \<^verbatim>\<open>Ext4Inner\<close> is the record \<open>Ext4\<close>; its cache, which the code keeps behind a
  \<^verbatim>\<open>RefCell\<close>, is the part of the state that changes. Integers are words of the width the source gives them
  (\<open>usize\<close>, 64 bits wide on the targets of the crate, is a natural number with its bound where the code
  converts or adds); bytes and paths are lists of 8-bit words.
  Loops over a finite structure are recursive functions with a termination proof. The one loop that
  may run for ever, the loop of \<^verbatim>\<open>impl_result_iter!\<close>, is a \<^verbatim>\<open>partial_function\<close> whose undefined result is
  \<open>Diverge\<close>: no fuel is used, and that an iteration ends is proved where it does. The limits of the
  code itself (1000 iterations, 40 symbolic links and 4096 bytes of a path in the resolution) are
  those of the source. The recursion of the programs into directories is bounded by a depth of 4098 (\<open>descend\<close>), which is
  never used up, since each level makes the path longer and a path of more than 4096 bytes is refused; on the side of
  the kernel the depth is an argument, and any depth above the size of the tree is enough.

  \<^bold>\<open>The theories\<close>, bottom up:
  \<^item> \<open>Prelude\<close>: outcomes, the monad and its weakest preconditions, integers in byte slices (\<^verbatim>\<open>util.rs\<close>,
    \<^verbatim>\<open>block_index.rs\<close>). \<open>Errors\<close>: \<^verbatim>\<open>error.rs\<close>. \<open>Disk_Types\<close>: \<^verbatim>\<open>block_size.rs\<close>, \<^verbatim>\<open>features.rs\<close>, \<^verbatim>\<open>checksum.rs\<close>,
    \<^verbatim>\<open>label.rs\<close>, \<^verbatim>\<open>uuid.rs\<close>, \<^verbatim>\<open>file_type.rs\<close>, \<^verbatim>\<open>metadata.rs\<close>, \<^verbatim>\<open>extent.rs\<close>.
  \<^item> \<open>Superblock\<close> (\<^verbatim>\<open>superblock.rs\<close>): what an accepted superblock satisfies. \<open>Reader\<close> (\<^verbatim>\<open>reader.rs\<close>): the trait
    and its contract, the locale \<open>ext4_reader\<close>, interpreted on the in-memory reader and on files of the host. \<open>Block_Group\<close>
    (\<^verbatim>\<open>block_group.rs\<close>): the descriptors and their location.
  \<^item> \<open>Block_Cache\<close> (\<^verbatim>\<open>block_cache.rs\<close>): the invariant of the cache, its LRU behaviour, and that what it returns
    is what its source has (locale \<open>block_source\<close>, of which every \<open>ext4_reader\<close> is one).
    \<open>Fs_Core\<close> (\<^verbatim>\<open>Ext4Inner\<close>, \<^verbatim>\<open>read_from_block\<close> of \<^verbatim>\<open>lib.rs\<close>): the invariant \<open>fs_ok\<close> (the cache agrees with the device in
    every block but block 0), and that a read gives the bytes of the (journal-mapped) device whatever the cache holds,
    reads of block 0 excepted.
  \<^item> \<open>Inode\<close> (\<^verbatim>\<open>inode.rs\<close>): location, parser, checksum.
  \<^item> \<open>Result_Iter\<close> (\<^verbatim>\<open>iters.rs\<close>), \<open>Iter_Loops\<close> (how iterators are consumed): the contract \<open>result_iter\<close> and the
    relation \<open>outputs\<close> between an iterator and the sequence it yields. \<open>Extents\<close> (\<^verbatim>\<open>iters/extents.rs\<close>),
    \<open>Extents_Blocks\<close> and \<open>Block_Map\<close> (\<^verbatim>\<open>iters/file_blocks/\<close>), \<open>File_Blocks\<close> (\<^verbatim>\<open>iters/file_blocks.rs\<close>): each
    iterator yields the traversal of the tree on the disk. The three levels of the block map are interpretations of the locales
    \<open>index_level\<close> and \<open>map_level\<close>.
  \<^item> \<open>File_Read\<close> (\<^verbatim>\<open>file.rs\<close>, \<^verbatim>\<open>read_inode_file\<close> of \<^verbatim>\<open>lib.rs\<close>): reading and seeking give the bytes of the file's
    blocks, with zeros for holes.
  \<^item> \<open>Paths\<close> (\<^verbatim>\<open>path.rs\<close>): components, join, validity. \<open>Dir_Entry\<close> (\<^verbatim>\<open>dir_entry.rs\<close>), \<open>Dir_Block\<close> (\<^verbatim>\<open>dir_block.rs\<close>),
    \<open>Read_Dir\<close> (\<^verbatim>\<open>iters/read_dir.rs\<close>), \<open>Dir_Hash\<close> (\<^verbatim>\<open>dir_entry_hash.rs\<close>), \<open>Dir_Htree\<close> (\<^verbatim>\<open>dir_htree.rs\<close>), \<open>Dir\<close> (\<^verbatim>\<open>dir.rs\<close>,
    \<^verbatim>\<open>Inode::symlink_target\<close>): entries round-trip, listing a directory yields the entries of its blocks, the hash of
    a name is the one of the format (\<open>dir_hash\<close>, written on its own), and in an htree that is an ordered search tree on
    the disk (\<open>htree_wf\<close>) the lookup finds what the scan finds.
  \<^item> \<open>Resolve\<close> (\<^verbatim>\<open>resolve.rs\<close>): the code edits a byte vector in place; it refines a walk over names
    (\<open>resolve_names\<close> over the operations of a \<open>World\<close>).
  \<^item> \<open>Journal_Blocks\<close> (\<^verbatim>\<open>journal/*.rs\<close>), \<open>Journal\<close> (\<^verbatim>\<open>journal.rs\<close>, \<^verbatim>\<open>journal/block_map.rs\<close>): the loader refines a
    specification that cuts the log into transactions and replays the committed ones (\<open>journal_spec\<close>).
  \<^item> \<open>Fs_Invariant\<close>: every operation keeps \<open>fs_ok\<close> and changes nothing but the cache; the rules are proved once in
    the locale \<open>evolution\<close>, which is interpreted for the file system alone and for an iterator beside it.
  \<^item> \<open>Ext4_Api\<close> (the rest of \<^verbatim>\<open>lib.rs\<close>): loading establishes the invariant, with superblock, descriptors and journal map
    those on the device; every public operation keeps it,
    and each operation on a path acts on the inode at which the walk over its names ends.
    \<open>Canonical\<close>: canonicalization is idempotent.
  \<^item> \<open>Device_Bounds\<close> and \<open>Session\<close>: sequences of requests to one file system, on paths and on open files and directory
    iterators, interleaved in any order. The answers are those of a file system that never changes (the shared
    cache is invisible), and they do not depend on anything outside the device.
  \<^item> \<open>Utf8\<close> (what the standard library does with UTF-8), \<open>Format\<close> (\<^verbatim>\<open>format.rs\<close> and the hand-written \<^verbatim>\<open>Display\<close> and
    \<^verbatim>\<open>Debug\<close> of names, paths, labels, UUIDs, files and directories) and \<open>Error_Text\<close> (\<^verbatim>\<open>Display\<close> of the errors): the debug form
    can be read back, what is displayed is valid UTF-8, and a message determines the error. \<open>Orders\<close>: the derived orders of file
    types, components and names; the order of name buffers is that of the names.
  \<^item> \<open>Client_Loops\<close>: loops of programs that use the library, with rules for what they do on a file system that does not
    change. \<open>Cat\<close> (\<^verbatim>\<open>examples/cat.rs\<close>): the chunks that are written are the content of the file. \<open>Descent\<close>: the recursion into
    directories (locale \<open>descent\<close>, interpreted for both walks), and the abstract \<open>Tree\<close> of a file system. \<open>Tree_Walk\<close>
    (\<^verbatim>\<open>xtask/src/bench/walk.rs\<close>, statistics of \<^verbatim>\<open>bench.rs\<close>, \<^verbatim>\<open>uefibench\<close>): the walk feeds the tree to the hash.
    \<open>Diff_Walk\<close> (\<^verbatim>\<open>xtask/src/diff_walk.rs\<close>): the walk lists the tree, and the comparison of lines is exact.
    \<open>Mount_Walk\<close> (\<^verbatim>\<open>xtask/src/bin/mount_and_walk.rs\<close>): if the kernel presents the same tree, the comparison succeeds.
  \<^item> \<open>Devices\<close> (\<^verbatim>\<open>xtask/src/mount.rs\<close>, \<^verbatim>\<open>losetup.rs\<close>, \<^verbatim>\<open>dmsetup.rs\<close>, \<^verbatim>\<open>lib.rs\<close>) and \<open>Test_Data\<close> (\<^verbatim>\<open>xtask/src/main.rs\<close>): tools as
    sequences of commands; what they acquire is given back, in reverse order, whatever fails.

  \<^bold>\<open>Hypotheses.\<close> The CRC of the crate \<^verbatim>\<open>crc\<close> is a parameter of the model (\<open>fs_crc\<close>), of which nothing is assumed.
  So are the Unicode tables that the debug form of a string uses, the textual form of feature flags (the crate
  \<^verbatim>\<open>bitflags\<close>), the hasher of the crate \<^verbatim>\<open>sha2\<close> (of which \<open>incremental\<close> says that updates add up), what commands of the
  host do (\<open>host_env\<close>) and what the kernel presents (\<open>HostFs\<close>), and the calls of the operating system behind \<^verbatim>\<open>std::fs::File\<close> (\<open>regular_file\<close> says what is assumed of them).
  A reader is assumed to behave as \<open>ext4_reader\<close> says (a read gives the bytes of one fixed device or an
  error); \<open>device_complete\<close>, where it occurs, says that reads inside the device succeed. Hypotheses such as \<open>walk\<close>,
  \<open>inode_blocks\<close>, \<open>extents_in_order\<close>, \<open>dir_ok\<close> and \<open>htree_wf\<close> describe a well-formed structure on the disk; each property that
  has one has a witness on a concrete image.

  \<^bold>\<open>Behaviour outside the intended one\<close> that the model shows: a 64-bit descriptor size that is too small
  and a large entry count of an htree node make the code panic; a name that an htree keeps in the continuation of a leaf, after
  a collision of hashes, is not found; an extent block that points to itself makes the
  iterator run for ever; a read after an error in the block iterator panics; a path of more than 1000
  components \<^verbatim>\<open>./\<close> fails the assertion on the number of iterations; a fresh cache hides block 0; a zero pointer in an
  indirect level of a block map is an error and not a hole; a revocation leaves copies that earlier transactions committed
  in the map; an error among the blocks before the start of the log is dropped. In the tools: a newline in a file name makes
  \<^verbatim>\<open>diff-walk\<close> report a difference, and spaces can make two entries look the same to it; filling the ext3 test disk
  ignores that it cannot be unmounted; a benchmark of no iterations panics.

  \<^bold>\<open>Not modelled.\<close> \<^verbatim>\<open>Debug\<close> where it is derived or prints derived output (\<^verbatim>\<open>Ext4\<close>, the error enums, the records);
  \<^verbatim>\<open>Hash\<close>; \<^verbatim>\<open>test_util.rs\<close> and the tests; of \<^verbatim>\<open>xtask\<close> the download of big file systems (calls of crates for HTTP, xz, tar and GPT), the
  virtual machine of the benchmarks, the parser of the command line (crate \<^verbatim>\<open>clap\<close>) and messages on the terminal. Reference counting, and the dynamic borrow check of the \<^verbatim>\<open>RefCell\<close> around the cache, are
  not part of the state: the borrow ends inside the only function that takes it.
\<close>

end
